(* ===== verification/Prelude.thy ===== *)
theory Prelude
  imports Main "HOL-Library.List_Lexorder" "HOL-Library.Char_ord"
begin

text \<open>
  Generic definitions and lemmas the component theories share: the string operations of
  \<open>QString\<close> the sources use (splitting at a separator, sections, prefixes, decimal
  conversion to and from \<open>qint64\<close>, UTF-8 length) and facts on association lists.

  A \<open>QString\<close> is a list of UTF-16 code units; the model takes the strings whose units are
  below 256, one \<open>char\<close> per unit. On these \<open>operator<\<close> is the order of the units,
  which is the lexicographic order of \<open>List_Lexorder\<close> over \<open>Char_ord\<close>, and it agrees
  with SQLite's BINARY collation of the UTF-8 encodings.
\<close>

named_theorems obj_simps "reading and writing keys of JSON objects"
named_theorems fs_simps "what the file operations leave in place"
named_theorems frame_simps "fields an operation does not write"

section \<open>Operations related to their start state\<close>

text \<open>
  A relation between the state before and the state after an operation that holds of doing
  nothing and composes. An operation is a function to a result and a state, written as a chain
  of calls, conditionals and early returns: the rules below follow that chain.
\<close>

locale op_rel =
  fixes R :: "'s \<Rightarrow> 's \<Rightarrow> bool"
  assumes refl [simp]: "R s s"
    and trans: "R s t \<Longrightarrow> R t u \<Longrightarrow> R s u"
begin

lemma call:
  assumes "R s (snd m)" and "\<And>x t. m = (x, t) \<Longrightarrow> R t (snd (k x t))"
  shows "R s (snd (case m of (x, t) \<Rightarrow> k x t))"
proof -
  obtain x t where m: "m = (x, t)" by (cases m)
  with assms have "R s t" "R t (snd (k x t))" by auto
  then have "R s (snd (k x t))" by (rule trans)
  with m show ?thesis by simp
qed

lemma cond:
  assumes "b \<Longrightarrow> R s (snd m)" and "\<not> b \<Longrightarrow> R s (snd m')"
  shows "R s (snd (if b then m else m'))"
  using assms by simp

lemma opt:
  assumes "z = None \<Longrightarrow> R s (snd m)" and "\<And>x. z = Some x \<Longrightarrow> R s (snd (k x))"
  shows "R s (snd (case z of None \<Rightarrow> m | Some x \<Rightarrow> k x))"
  using assms by (cases z) simp_all

text \<open>An operation that returns a pair, and operations whose state is the middle of three results.\<close>

lemma call2:
  assumes "R s (snd m)" and "\<And>x y t. m = ((x, y), t) \<Longrightarrow> R t (snd (k x y t))"
  shows "R s (snd (case m of ((x, y), t) \<Rightarrow> k x y t))"
proof -
  obtain x y t where m: "m = ((x, y), t)" by (metis surj_pair)
  with assms show ?thesis using trans [of s t "snd (k x y t)"] by simp
qed

lemma call3:
  assumes "R s (snd m)" and "\<And>x t. m = (x, t) \<Longrightarrow> R t (fst (snd (k x t)))"
  shows "R s (fst (snd (case m of (x, t) \<Rightarrow> k x t)))"
proof -
  obtain x t where m: "m = (x, t)" by (cases m)
  with assms show ?thesis using trans [of s t "fst (snd (k x t))"] by simp
qed

lemma cond3: "(b \<Longrightarrow> R s (fst (snd m))) \<Longrightarrow> (\<not> b \<Longrightarrow> R s (fst (snd m'))) \<Longrightarrow> R s (fst (snd (if b then m else m')))"
  by simp

lemma opt3:
  "(z = None \<Longrightarrow> R s (fst (snd m))) \<Longrightarrow> (\<And>x. z = Some x \<Longrightarrow> R s (fst (snd (k x)))) \<Longrightarrow> R s (fst (snd (case z of None \<Rightarrow> m | Some x \<Rightarrow> k x)))"
  by (cases z) simp_all

lemma sum3:
  "(\<And>x. z = Inl x \<Longrightarrow> R s (fst (snd (m x)))) \<Longrightarrow> (\<And>x. z = Inr x \<Longrightarrow> R s (fst (snd (k x)))) \<Longrightarrow> R s (fst (snd (case z of Inl x \<Rightarrow> m x | Inr x \<Rightarrow> k x)))"
  by (cases z) simp_all

lemma pair: "R s (snd (k (fst p) (snd p))) \<Longrightarrow> R s (snd (case p of (a, b) \<Rightarrow> k a b))"
  by (simp add: split_beta)

lemma done_pair: "R s t \<Longrightarrow> R s (snd (x, t))"
  by simp

lemma after: "R s t \<Longrightarrow> op t = u \<Longrightarrow> R t (snd u) \<Longrightarrow> R s (snd u)"
  using trans by blast

end

section \<open>Association lists\<close>

lemma map_of_filter_key:
  "map_of (filter (\<lambda>(k, v). k \<noteq> k0) xs) k = (if k = k0 then None else map_of xs k)"
  by (induction xs) auto

lemma map_of_filter_Some: "map_of (filter P xs) k = Some v \<Longrightarrow> k \<in> fst ` set xs"
  by (induction xs) (auto split: if_splits)

lemma map_of_None_iff: "map_of xs k = None \<longleftrightarrow> k \<notin> fst ` set xs"
  by (simp add: map_of_eq_None_iff)

text \<open>Row insertion with \<open>ON CONFLICT(key) DO UPDATE\<close>: keep the row's place.\<close>

fun upsert :: "'k \<Rightarrow> 'v \<Rightarrow> ('k \<times> 'v) list \<Rightarrow> ('k \<times> 'v) list" where
  "upsert k v [] = [(k, v)]"
| "upsert k v ((a, b) # xs) = (if k = a then (k, v) # xs else (a, b) # upsert k v xs)"

lemma map_of_upsert [simp]: "map_of (upsert k v xs) = (map_of xs)(k \<mapsto> v)"
  by (induction k v xs rule: upsert.induct) auto

lemma set_upsert_subset: "set (upsert k v xs) \<subseteq> insert (k, v) (set xs)"
  by (induction k v xs rule: upsert.induct) auto

lemma fst_set_upsert [simp]: "fst ` set (upsert k v xs) = insert k (fst ` set xs)"
  by (induction k v xs rule: upsert.induct) auto

lemma distinct_upsert [simp]: "distinct (map fst (upsert k v xs)) = distinct (map fst xs)"
proof (induction k v xs rule: upsert.induct)
  case (2 k v a b xs)
  have "fst ` set (upsert k v xs) = insert k (fst ` set xs)" by simp
  with 2 show ?case by auto
qed simp

text \<open>A \<open>QMap\<close>: an association list sorted by key.\<close>

fun put_sorted :: "'k::linorder \<Rightarrow> 'v \<Rightarrow> ('k \<times> 'v) list \<Rightarrow> ('k \<times> 'v) list" where
  "put_sorted k v [] = [(k, v)]"
| "put_sorted k v ((a, b) # xs) =
     (if k = a then (k, v) # xs else if k < a then (k, v) # (a, b) # xs else (a, b) # put_sorted k v xs)"

lemma map_of_put_sorted [simp]: "map_of (put_sorted k v xs) = (map_of xs)(k \<mapsto> v)"
  by (induction k v xs rule: put_sorted.induct) auto

lemma fst_set_put_sorted [simp]: "fst ` set (put_sorted k v xs) = insert k (fst ` set xs)"
  by (induction k v xs rule: put_sorted.induct) auto

lemma sorted_put_sorted [simp]: "sorted_wrt (<) (map fst xs) \<Longrightarrow> sorted_wrt (<) (map fst (put_sorted k v xs))"
proof (induction k v xs rule: put_sorted.induct)
  case (2 k v a b xs)
  then show ?case using fst_set_put_sorted [of k v xs] by (auto simp flip: set_map)
qed simp

text \<open>Removal of a key.\<close>

definition delete_key :: "'k \<Rightarrow> ('k \<times> 'v) list \<Rightarrow> ('k \<times> 'v) list" where
  "delete_key k xs = filter (\<lambda>(a, v). a \<noteq> k) xs"

lemma delete_key_simps: "fst ` set (delete_key k xs) = fst ` set xs - {k}" "distinct (map fst xs) \<Longrightarrow> distinct (map fst (delete_key k xs))"
proof -
  show "fst ` set (delete_key k xs) = fst ` set xs - {k}" by (force simp: delete_key_def)
  show "distinct (map fst xs) \<Longrightarrow> distinct (map fst (delete_key k xs))" by (simp add: delete_key_def distinct_map_filter)
qed

lemma delete_key_length: "length (delete_key k xs) \<le> length xs"
  by (simp add: delete_key_def)

lemma delete_key_shorter:
  assumes "k \<in> fst ` set xs"
  shows "length (delete_key k xs) < length xs"
proof -
  obtain v where "(k, v) \<in> set xs" using assms by auto
  then show ?thesis unfolding delete_key_def by (rule length_filter_less) simp
qed

lemma length_upsert: "length (upsert k v xs) \<le> Suc (length xs)"
  by (induction k v xs rule: upsert.induct) auto

lemma length_upsert_present: "k \<in> fst ` set xs \<Longrightarrow> length (upsert k v xs) = length xs"
  by (induction k v xs rule: upsert.induct) auto

lemma map_of_filter: "map_of xs k = Some v \<Longrightarrow> P (k, v) \<Longrightarrow> map_of (filter P xs) k = Some v"
  by (induction xs) (auto split: if_splits)

section \<open>Folds\<close>

lemma fold_field: "(\<And>d x. \<phi> (g d x) = \<phi> d) \<Longrightarrow> \<phi> (foldl g d xs) = \<phi> d"
  by (induction xs arbitrary: d) auto

lemma fold_keep: "(\<And>d x. P d \<Longrightarrow> P (g d x)) \<Longrightarrow> P d \<Longrightarrow> P (foldl g d xs)"
  by (induction xs arbitrary: d) auto

section \<open>Strings\<close>

definition starts_with :: "string \<Rightarrow> string \<Rightarrow> bool" where
  "starts_with p s \<longleftrightarrow> take (length p) s = p"

definition ends_with :: "string \<Rightarrow> string \<Rightarrow> bool" where
  "ends_with p s \<longleftrightarrow> length p \<le> length s \<and> drop (length s - length p) s = p"

lemma starts_with_append [simp]: "starts_with p (p @ s)"
  by (simp add: starts_with_def)

lemma starts_with_iff: "starts_with p s \<longleftrightarrow> (\<exists>t. s = p @ t)"
  by (metis append_take_drop_id starts_with_append starts_with_def)

text \<open>\<open>split(c)\<close>, which keeps empty parts and never returns an empty list.\<close>

fun qsplit :: "char \<Rightarrow> string \<Rightarrow> string list" where
  "qsplit c [] = [[]]"
| "qsplit c (x # xs) =
     (if x = c then [] # qsplit c xs
      else (case qsplit c xs of [] \<Rightarrow> [[x]] | p # ps \<Rightarrow> (x # p) # ps))"

fun qjoin :: "char \<Rightarrow> string list \<Rightarrow> string" where
  "qjoin c [] = []"
| "qjoin c [p] = p"
| "qjoin c (p # q # ps) = p @ c # qjoin c (q # ps)"

lemma qsplit_not_Nil [simp]: "qsplit c s \<noteq> []"
  by (induction s) (auto split: list.split)

lemma qjoin_qsplit [simp]: "qjoin c (qsplit c s) = s"
proof (induction s)
  case (Cons x xs)
  obtain p ps where ps: "qsplit c xs = p # ps" by (cases "qsplit c xs") auto
  with Cons show ?case by (cases ps) auto
qed simp

lemma qsplit_noc: "c \<notin> set p \<Longrightarrow> qsplit c p = [p]"
  by (induction p) auto

lemma qsplit_append: "c \<notin> set p \<Longrightarrow> qsplit c (p @ c # s) = p # qsplit c s"
  by (induction p) auto

lemma qsplit_parts: "p \<in> set (qsplit c s) \<Longrightarrow> c \<notin> set p"
proof (induction s arbitrary: p)
  case (Cons x xs)
  obtain q qs where qs: "qsplit c xs = q # qs" by (cases "qsplit c xs") auto
  with Cons show ?case by (auto split: if_splits)
qed simp

lemma qsplit_qjoin: "ps \<noteq> [] \<Longrightarrow> \<forall>p\<in>set ps. c \<notin> set p \<Longrightarrow> qsplit c (qjoin c ps) = ps"
  by (induction c ps rule: qjoin.induct) (auto simp: qsplit_noc qsplit_append)

lemma qsplit_inj: "qsplit c s = qsplit c t \<Longrightarrow> s = t"
  by (metis qjoin_qsplit)

text \<open>\<open>section('/', 0, 0)\<close>, \<open>section('/', 1)\<close> and \<open>section('/', -1)\<close>.\<close>

definition section_first :: "string \<Rightarrow> string" where
  "section_first s = hd (qsplit (CHR ''/'') s)"

definition section_rest :: "string \<Rightarrow> string" where
  "section_rest s = qjoin (CHR ''/'') (tl (qsplit (CHR ''/'') s))"

definition section_last :: "string \<Rightarrow> string" where
  "section_last s = last (qsplit (CHR ''/'') s)"

text \<open>\<open>left(lastIndexOf('/') + 1)\<close> and \<open>left(lastIndexOf('/'))\<close> of a path with a separator.\<close>

definition dir_prefix :: "string \<Rightarrow> string" where
  "dir_prefix s = (let ps = butlast (qsplit (CHR ''/'') s)
                   in if ps = [] then [] else qjoin (CHR ''/'') ps @ ''/'')"

definition dir_part :: "string \<Rightarrow> string" where
  "dir_part s = qjoin (CHR ''/'') (butlast (qsplit (CHR ''/'') s))"

text \<open>\<open>toUtf8().size()\<close>: units below 128 take one byte, the others of this range two.\<close>

definition utf8_size :: "string \<Rightarrow> nat" where
  "utf8_size s = sum_list (map (\<lambda>c. if (of_char c :: nat) < 128 then 1 else 2) s)"

lemma utf8_size_ge: "length s \<le> utf8_size s"
proof (induction s)
  case (Cons c s)
  have "utf8_size (c # s) = (if (of_char c :: nat) < 128 then 1 else 2) + utf8_size s"
    by (simp add: utf8_size_def)
  with Cons show ?case by auto
qed (simp add: utf8_size_def)

definition utf8_char :: "char \<Rightarrow> string" where
  "utf8_char c = (let n = (of_char c :: nat) in
     if n < 128 then [c] else [char_of (192 + n div 64), char_of (128 + n mod 64)])"

definition utf8 :: "string \<Rightarrow> string" where
  "utf8 s = concat (map utf8_char s)"

lemma length_utf8: "length (utf8 s) = utf8_size s"
  by (induction s) (auto simp: utf8_def utf8_size_def utf8_char_def Let_def)

section \<open>Decimal numbers\<close>

definition digit_val :: "char \<Rightarrow> int option" where
  "digit_val c =
     (let n = (of_char c :: nat) in if 48 \<le> n \<and> n \<le> 57 then Some (int n - 48) else None)"

fun digits_val :: "int \<Rightarrow> string \<Rightarrow> int option" where
  "digits_val acc [] = Some acc"
| "digits_val acc (c # cs) =
     (case digit_val c of None \<Rightarrow> None | Some d \<Rightarrow> digits_val (10 * acc + d) cs)"

definition is_space :: "char \<Rightarrow> bool" where
  "is_space c \<longleftrightarrow> (let n = (of_char c :: nat) in n = 32 \<or> (9 \<le> n \<and> n \<le> 13) \<or> n = 133 \<or> n = 160)"

definition trimmed :: "string \<Rightarrow> string" where
  "trimmed s = rev (dropWhile is_space (rev (dropWhile is_space s)))"

definition in_int64 :: "int \<Rightarrow> bool" where
  "in_int64 n \<longleftrightarrow> - (2 ^ 63) \<le> n \<and> n < 2 ^ 63"

text \<open>\<open>toLongLong(&ok)\<close> in base 10: \<open>None\<close> is \<open>ok = false\<close>, when the value is 0.\<close>

definition to_ll :: "string \<Rightarrow> int option" where
  "to_ll s =
     (let t = trimmed s;
          neg = (t \<noteq> [] \<and> hd t = CHR ''-'');
          ds = (if t \<noteq> [] \<and> (hd t = CHR ''-'' \<or> hd t = CHR ''+'') then tl t else t)
      in if ds = [] then None
         else case digits_val 0 ds of
                None \<Rightarrow> None
              | Some n \<Rightarrow> (let m = (if neg then - n else n) in if in_int64 m then Some m else None))"

text \<open>\<open>toULongLong(&ok)\<close> in base 10, which takes no minus sign.\<close>

definition to_ull :: "string \<Rightarrow> int option" where
  "to_ull s =
     (let t = trimmed s; ds = (if t \<noteq> [] \<and> hd t = CHR ''+'' then tl t else t)
      in if ds = [] then None
         else case digits_val 0 ds of None \<Rightarrow> None | Some n \<Rightarrow> if n < 2 ^ 64 then Some n else None)"

fun nat_str :: "nat \<Rightarrow> string" where
  "nat_str n = (if n < 10 then [char_of (48 + n)] else nat_str (n div 10) @ [char_of (48 + n mod 10)])"

declare nat_str.simps [simp del]

text \<open>\<open>QString::number\<close>.\<close>

definition num_str :: "int \<Rightarrow> string" where
  "num_str n = (if n < 0 then CHR ''-'' # nat_str (nat (- n)) else nat_str (nat n))"

lemma digit_val_char: "d < 10 \<Longrightarrow> digit_val (char_of (48 + d)) = Some (int d)"
  by (simp add: digit_val_def)

lemma digits_val_append:
  "digits_val acc (xs @ ys) = (case digits_val acc xs of None \<Rightarrow> None | Some a \<Rightarrow> digits_val a ys)"
  by (induction acc xs rule: digits_val.induct) (auto split: option.splits)

lemma digits_val_nat_str: "digits_val 0 (nat_str n) = Some (int n)"
proof (induction n rule: nat_str.induct)
  case (1 n)
  show ?case
  proof (cases "n < 10")
    case True
    then show ?thesis by (simp add: nat_str.simps [of n] digit_val_char)
  next
    case False
    have "10 * int (n div 10) + int (n mod 10) = int n"
      by (metis mult_div_mod_eq of_nat_add of_nat_mult of_nat_numeral)
    with 1 False show ?thesis
      by (simp add: nat_str.simps [of n] digits_val_append digit_val_char)
  qed
qed

lemma nat_str_not_Nil [simp]: "nat_str n \<noteq> []"
  by (subst nat_str.simps) simp

lemma nat_str_digit: "c \<in> set (nat_str n) \<Longrightarrow> 48 \<le> (of_char c :: nat) \<and> (of_char c :: nat) \<le> 57"
proof (induction n rule: nat_str.induct)
  case (1 n)
  show ?case
  proof (cases "n < 10")
    case True
    with 1 show ?thesis by (simp add: nat_str.simps [of n])
  next
    case False
    with "1.prems" have "c \<in> set (nat_str (n div 10)) \<or> c = char_of (48 + n mod 10)"
      by (auto simp: nat_str.simps [of n])
    with "1.IH" False show ?thesis by auto
  qed
qed

lemma dropWhile_noop: "(\<And>c. c \<in> set s \<Longrightarrow> \<not> P c) \<Longrightarrow> dropWhile P s = s"
  by (cases s) auto

lemma trimmed_noop: "(\<And>c. c \<in> set s \<Longrightarrow> \<not> is_space c) \<Longrightarrow> trimmed s = s"
  using dropWhile_noop [of s is_space] dropWhile_noop [of "rev s" is_space]
  by (simp add: trimmed_def)

lemma nat_str_not_space: "c \<in> set (nat_str n) \<Longrightarrow> \<not> is_space c"
  by (drule nat_str_digit) (auto simp: is_space_def Let_def)

lemma not_space_minus: "\<not> is_space (CHR ''-'')"
  by (simp add: is_space_def)

lemma nat_str_hd: "hd (nat_str n) \<noteq> CHR ''-''" "hd (nat_str n) \<noteq> CHR ''+''"
  using nat_str_digit [of "hd (nat_str n)" n] by auto

lemma to_ll_num_str [simp]: "in_int64 n \<Longrightarrow> to_ll (num_str n) = Some n"
proof (cases "n < 0")
  case True
  assume n: "in_int64 n"
  have "trimmed (CHR ''-'' # nat_str (nat (- n))) = CHR ''-'' # nat_str (nat (- n))"
    by (rule trimmed_noop) (auto dest: nat_str_not_space simp: not_space_minus)
  with True n show ?thesis
    by (simp add: to_ll_def num_str_def digits_val_nat_str)
next
  case False
  assume n: "in_int64 n"
  have "trimmed (nat_str (nat n)) = nat_str (nat n)"
    by (rule trimmed_noop) (rule nat_str_not_space)
  with False n show ?thesis
    by (simp add: to_ll_def num_str_def digits_val_nat_str nat_str_hd)
qed

lemma to_ull_num_str [simp]: "0 \<le> n \<Longrightarrow> n < 2 ^ 64 \<Longrightarrow> to_ull (num_str n) = Some n"
  using trimmed_noop [of "nat_str (nat n)"] nat_str_not_space nat_str_hd(2) [of "nat n"]
  by (auto simp: to_ull_def num_str_def digits_val_nat_str Let_def)

lemma num_str_inj: "in_int64 m \<Longrightarrow> in_int64 n \<Longrightarrow> num_str m = num_str n \<Longrightarrow> m = n"
  by (metis option.inject to_ll_num_str)

lemma num_str_not_Nil [simp]: "num_str n \<noteq> []"
  by (simp add: num_str_def)

end
