(* ===== verification/QtJson.thy ===== *)
theory QtJson
  imports Prelude
begin

text \<open>
  JSON values as \<open>QJsonValue\<close> and \<open>QJsonObject\<close> present them to the code: an object is
  kept sorted by key, a missing key reads as \<open>Undefined\<close>, inserting \<open>Undefined\<close> removes
  the key, and the \<open>toString\<close>, \<open>toBool\<close>, \<open>toObject\<close>, \<open>toArray\<close> readers give
  the empty default on another type. Numbers are the integers the protocol uses. The record
  \<open>env\<close> collects the functions of Qt and of the packages outside the repository that the
  sources call; the definitions take it as their first argument.
\<close>

section \<open>Values\<close>

datatype json =
    JUndef | JNull | JBool bool | JNum int | JStr string
  | JArr "json list" | JObj "(string \<times> json) list"

type_synonym jobj = "(string \<times> json) list"

definition oget :: "string \<Rightarrow> jobj \<Rightarrow> json" where
  "oget k o1 = (case map_of o1 k of None \<Rightarrow> JUndef | Some v \<Rightarrow> v)"

definition has_key :: "string \<Rightarrow> jobj \<Rightarrow> bool" where
  "has_key k o1 \<longleftrightarrow> map_of o1 k \<noteq> None"

definition odel :: "string \<Rightarrow> jobj \<Rightarrow> jobj" where
  "odel k o1 = filter (\<lambda>(a, v). a \<noteq> k) o1"

fun osorted_put :: "string \<Rightarrow> json \<Rightarrow> jobj \<Rightarrow> jobj" where
  "osorted_put k v [] = [(k, v)]"
| "osorted_put k v ((a, b) # o1) =
     (if k = a then (k, v) # o1 else if k < a then (k, v) # (a, b) # o1 else (a, b) # osorted_put k v o1)"

definition oput :: "string \<Rightarrow> json \<Rightarrow> jobj \<Rightarrow> jobj" where
  "oput k v o1 = (if v = JUndef then odel k o1 else osorted_put k v o1)"

definition okeys :: "jobj \<Rightarrow> string list" where
  "okeys o1 = map fst o1"

definition obj :: "(string \<times> json) list \<Rightarrow> jobj" where
  "obj kvs = foldl (\<lambda>o1 (k, v). oput k v o1) [] kvs"

fun jstr :: "json \<Rightarrow> string" where
  "jstr (JStr s) = s" | "jstr _ = []"

fun jbool :: "json \<Rightarrow> bool" where
  "jbool (JBool b) = b" | "jbool _ = False"

fun jobject :: "json \<Rightarrow> jobj" where
  "jobject (JObj o1) = o1" | "jobject _ = []"

fun jarray :: "json \<Rightarrow> json list" where
  "jarray (JArr xs) = xs" | "jarray _ = []"

fun is_str :: "json \<Rightarrow> bool" where
  "is_str (JStr _) = True" | "is_str _ = False"

fun is_bool :: "json \<Rightarrow> bool" where
  "is_bool (JBool _) = True" | "is_bool _ = False"

fun is_arr :: "json \<Rightarrow> bool" where
  "is_arr (JArr _) = True" | "is_arr _ = False"

fun is_obj :: "json \<Rightarrow> bool" where
  "is_obj (JObj _) = True" | "is_obj _ = False"

text \<open>\<open>value.toString().toLongLong()\<close>, which is 0 when the text is no number.\<close>

definition jll :: "json \<Rightarrow> int" where
  "jll v = (case to_ll (jstr v) of None \<Rightarrow> 0 | Some n \<Rightarrow> n)"

abbreviation jnumstr :: "int \<Rightarrow> json" where
  "jnumstr n \<equiv> JStr (num_str n)"

definition text_or :: "string \<Rightarrow> json \<Rightarrow> string" where
  "text_or d v = (case v of JStr t \<Rightarrow> t | _ \<Rightarrow> d)"

definition int_or :: "int \<Rightarrow> json \<Rightarrow> int" where
  "int_or d v = (case v of JNum n \<Rightarrow> if - (2 ^ 31) \<le> n \<and> n < 2 ^ 31 then n else d | _ \<Rightarrow> d)"

text \<open>\<open>toInteger()\<close>.\<close>

definition json_integer :: "json \<Rightarrow> int" where
  "json_integer v = (case v of JNum n \<Rightarrow> n | _ \<Rightarrow> 0)"

section \<open>Laws of objects\<close>

lemma map_of_osorted_put [simp]: "map_of (osorted_put k v o1) = (map_of o1)(k \<mapsto> v)"
  by (induction k v o1 rule: osorted_put.induct) auto

lemma oget_oput [simp, obj_simps]:
  "oget k (oput k0 v o1) = (if k = k0 then v else oget k o1)"
  by (auto simp: oget_def oput_def odel_def map_of_filter_key)

lemma oget_odel [simp, obj_simps]: "oget k (odel k0 o1) = (if k = k0 then JUndef else oget k o1)"
  by (auto simp: oget_def odel_def map_of_filter_key)

lemma oget_Nil [simp, obj_simps]: "oget k [] = JUndef"
  by (simp add: oget_def)

lemma has_key_oput [simp, obj_simps]:
  "has_key k (oput k0 v o1) \<longleftrightarrow> (if k = k0 then v \<noteq> JUndef else has_key k o1)"
  by (auto simp: has_key_def oput_def odel_def map_of_filter_key)

lemma has_key_odel [simp, obj_simps]: "has_key k (odel k0 o1) \<longleftrightarrow> k \<noteq> k0 \<and> has_key k o1"
  by (auto simp: has_key_def odel_def map_of_filter_key)

lemma has_key_Nil [simp, obj_simps]: "\<not> has_key k []"
  by (simp add: has_key_def)

lemma oget_no_key: "\<not> has_key k o1 \<Longrightarrow> oget k o1 = JUndef"
  by (simp add: has_key_def oget_def)

lemma has_key_iff: "has_key k o1 \<longleftrightarrow> k \<in> set (okeys o1)"
  by (auto simp: has_key_def okeys_def map_of_eq_None_iff)

lemma obj_Nil [simp, obj_simps]: "obj [] = []"
  by (simp add: obj_def)

lemma obj_snoc: "obj (kvs @ [(k, v)]) = oput k v (obj kvs)"
  by (simp add: obj_def)

lemma oget_foldl_oput:
  "oget k (foldl (\<lambda>o1 (k, v). oput k v o1) o0 kvs) =
     (case map_of (rev kvs) k of None \<Rightarrow> oget k o0 | Some v \<Rightarrow> v)"
proof (induction kvs rule: rev_induct)
  case (snoc x xs)
  then show ?case by (cases x) auto
qed simp

lemma oget_obj: "oget k (obj kvs) = (case map_of (rev kvs) k of None \<Rightarrow> JUndef | Some v \<Rightarrow> v)"
  unfolding obj_def by (subst oget_foldl_oput) (auto split: option.splits)

section \<open>Canonical objects\<close>

text \<open>Every object Qt builds is canonical; two canonical objects with the same readings are equal.\<close>

definition wf_obj :: "jobj \<Rightarrow> bool" where
  "wf_obj o1 \<longleftrightarrow> sorted_wrt (<) (map fst o1) \<and> JUndef \<notin> snd ` set o1"

lemma wf_obj_Nil [simp]: "wf_obj []"
  by (simp add: wf_obj_def)

lemma fst_set_osorted_put: "fst ` set (osorted_put k v o1) = insert k (fst ` set o1)"
  by (induction k v o1 rule: osorted_put.induct) auto

lemma sorted_osorted_put:
  "sorted_wrt (<) (map fst o1) \<Longrightarrow> sorted_wrt (<) (map fst (osorted_put k v o1))"
proof (induction k v o1 rule: osorted_put.induct)
  case (2 k v a b o1)
  then show ?case
    using fst_set_osorted_put [of k v o1] by (auto simp flip: set_map)
qed simp

lemma snd_set_osorted_put: "snd ` set (osorted_put k v o1) \<subseteq> insert v (snd ` set o1)"
  by (induction k v o1 rule: osorted_put.induct) auto

lemma wf_odel: "wf_obj o1 \<Longrightarrow> wf_obj (odel k o1)"
  unfolding wf_obj_def odel_def
  by (induction o1) (auto simp: image_iff)

lemma wf_oput [simp]: "wf_obj o1 \<Longrightarrow> wf_obj (oput k v o1)"
  using snd_set_osorted_put [of k v o1]
  by (auto simp: oput_def wf_odel) (auto simp: wf_obj_def sorted_osorted_put)

lemma wf_foldl_oput: "wf_obj o0 \<Longrightarrow> wf_obj (foldl (\<lambda>o1 (k, v). oput k v o1) o0 kvs)"
  by (induction kvs arbitrary: o0) auto

lemma wf_obj_obj [simp]: "wf_obj (obj kvs)"
  by (simp add: obj_def wf_foldl_oput)

lemma map_of_oget: "wf_obj o1 \<Longrightarrow> map_of o1 k = (if oget k o1 = JUndef then None else Some (oget k o1))"
  by (force simp: wf_obj_def oget_def split: option.splits dest: map_of_SomeD)

lemma map_of_keys:
  assumes "distinct (map fst a)"
  shows "map (\<lambda>k. (k, the (map_of a k))) (map fst a) = a"
  using assms by (auto simp: comp_def intro!: map_idI)

lemma map_of_sorted_eq:
  fixes a b :: "('k :: linorder \<times> 'v) list"
  assumes "map_of a = map_of b" "sorted_wrt (<) (map fst a)" "sorted_wrt (<) (map fst b)"
  shows "a = b"
proof -
  have d: "distinct (map fst a)" "distinct (map fst b)"
    using assms(2,3) strict_sorted_iff by blast+
  have "set (map fst a) = set (map fst b)"
    using assms(1) by (metis dom_map_of_conv_image_fst list.set_map)
  then have "map fst a = map fst b"
    using assms(2,3) by (metis strict_sorted_equal)
  with d assms(1) show ?thesis
    by (metis map_of_keys)
qed

lemma wf_obj_eqI:
  assumes "wf_obj a" "wf_obj b" "\<And>k. oget k a = oget k b"
  shows "a = b"
proof -
  have "map_of a = map_of b"
    using assms by (auto simp: map_of_oget fun_eq_iff)
  moreover have "sorted_wrt (<) (map fst a)" "sorted_wrt (<) (map fst b)"
    using assms by (auto simp: wf_obj_def)
  ultimately show ?thesis
    by (rule map_of_sorted_eq)
qed

section \<open>Removal of keys\<close>

lemma odel_osorted_put: "odel k (osorted_put k v o1) = odel k o1"
  unfolding odel_def by (induction k v o1 rule: osorted_put.induct) auto

lemma odel_oput: "odel k (oput k v o1) = odel k o1"
  by (simp add: oput_def odel_osorted_put) (simp add: odel_def)

lemma odel_no_key: "k \<notin> fst ` set o1 \<Longrightarrow> odel k o1 = o1"
  by (induction o1) (auto simp: odel_def)

lemma fst_set_odel: "fst ` set (odel k o1) = fst ` set o1 - {k}"
  by (force simp: odel_def)

lemma odel_signed: "k \<noteq> k' \<Longrightarrow> v \<noteq> JUndef \<Longrightarrow> odel k (oput k' v (odel k o1)) = oput k' v (odel k o1)"
  by (intro odel_no_key) (simp add: oput_def fst_set_osorted_put fst_set_odel)

lemma oput_not_Nil: "v \<noteq> JUndef \<Longrightarrow> oput k v o1 \<noteq> []"
  using has_key_oput [of k k v o1] has_key_Nil [of k] by metis

section \<open>The environment\<close>

text \<open>
  Functions of Qt, of the file provider and of the container package. \<open>sha256\<close> is the
  lower-case hexadecimal digest of a byte string, \<open>compact\<close> is
  \<open>QJsonDocument::toJson(Compact)\<close>, \<open>b64\<close> and \<open>unb64\<close> are the Base64 conversions
  (decoding aborts on an error), \<open>uuid_null\<close> says that \<open>QUuid(text)\<close> is null,
  \<open>uuid_text\<close> is \<open>QUuid(text).toString(WithoutBraces)\<close>, \<open>store_sections\<close> lists
  the container's sections as key and directory name, \<open>control_file\<close> is
  \<open>Presentation::isControlFile\<close>, \<open>new_uuid n\<close> is the n-th fresh UUID,
  \<open>file_stamp\<close> prints device, inode, size and change token of a file, \<open>parse_obj\<close> is
  \<open>QJsonDocument::fromJson(bytes).object()\<close>, \<open>presentation_max\<close> is
  \<open>Presentation::maximumDocumentBytes\<close>, \<open>iso_now\<close> and \<open>now_ms\<close> are the present time.
  \<open>adopt_identity\<close> is \<open>SocietyDrive::adoptReplicaIdentity\<close> on the old and the new
  identifier, \<open>complete_replica\<close> is \<open>SocietyDrive::completeReplica\<close>, \<open>drive_ready\<close>
  and \<open>logical_disk\<close> are properties of the open drive, \<open>file_information\<close> is
  \<open>SharedStorage::fileInformation\<close>, \<open>bytes_available\<close> is the free space,
  \<open>render_preview\<close> scales an image to a JPEG preview and \<open>preview_fits\<close> checks the
  dimensions of a received one, \<open>modified_ms\<close> is the modification time of the drive's entry.
  \<open>parse_date\<close> is \<open>QDateTime::fromString(text, Qt::ISODateWithMs)\<close>, printed in that format, when it is valid.
\<close>

record env =
  sha256 :: "string \<Rightarrow> string"
  compact :: "json \<Rightarrow> string"
  b64 :: "string \<Rightarrow> string"
  unb64 :: "string \<Rightarrow> string option"
  uuid_null :: "string \<Rightarrow> bool"
  uuid_text :: "string \<Rightarrow> string"
  store_sections :: "(string \<times> string) list"
  control_file :: "string \<Rightarrow> bool"
  new_uuid :: "nat \<Rightarrow> string"
  file_stamp :: "nat \<Rightarrow> nat \<Rightarrow> nat \<Rightarrow> string"
  parse_obj :: "string \<Rightarrow> (string \<times> json) list"
  presentation_max :: nat
  iso_now :: string
  now_ms :: int
  adopt_identity :: "string \<Rightarrow> string \<Rightarrow> string option"
  complete_replica :: "string \<Rightarrow> bool"
  drive_ready :: bool
  logical_disk :: bool
  file_information :: "string \<Rightarrow> string \<Rightarrow> (string \<times> json) list"
  bytes_available :: int
  render_preview :: "string \<Rightarrow> string"
  preview_fits :: "string \<Rightarrow> bool"
  modified_ms :: "string \<Rightarrow> int option"
  parse_date :: "string \<Rightarrow> string option"

end
