(* ===== verification/Records.thy ===== *)
theory Records
  imports QtJson
begin

text \<open>
  The record rules at the head of \<open>src/src/Sync/Replica.cpp\<close>: bounded decimal counters,
  the mapping of logical keys to container paths, content equality, vector clocks, the name of
  a conflict copy, and the validity of snapshots and records. A record is the JSON object that
  the replicas exchange: path, kind (file, directory or deleted), size, hash, clock, version
  and the namespace fields a confirmed record carries.
\<close>

section \<open>Counters, hashes, versions\<close>

definition max_counter :: int where
  "max_counter = 9007199254740991"

definition hex :: "string \<Rightarrow> bool" where
  "hex s \<longleftrightarrow> length s = 64 \<and> list_all (\<lambda>c. c \<in> set ''0123456789abcdef'') s"

definition number :: "json \<Rightarrow> int option" where
  "number v = (case to_ll (jstr v) of None \<Rightarrow> None
     | Some n \<Rightarrow> if 0 \<le> n \<and> n \<le> max_counter then Some n else None)"

definition payload :: "jobj \<Rightarrow> jobj" where
  "payload e = obj [(''path'', oget ''path'' e), (''kind'', oget ''kind'' e),
     (''size'', oget ''size'' e), (''hash'', oget ''hash'' e), (''clock'', oget ''clock'' e)]"

definition digest :: "env \<Rightarrow> string \<Rightarrow> string" where
  "digest Q bytes = sha256 Q bytes"

definition json_bytes :: "env \<Rightarrow> jobj \<Rightarrow> string" where
  "json_bytes Q o1 = compact Q (JObj o1)"

definition versioned :: "env \<Rightarrow> jobj \<Rightarrow> jobj" where
  "versioned Q e0 = (let e = payload e0 in oput ''version'' (JStr (digest Q (json_bytes Q e))) e)"

section \<open>Logical keys\<close>

definition reserved_part :: "string \<Rightarrow> bool" where
  "reserved_part part \<longleftrightarrow> part = [] \<or> part = ''.'' \<or> part = ''..'' \<or> utf8_size part > 220
     \<or> starts_with ''.society-'' part \<or> starts_with ''.iiwebserver-'' part
     \<or> part = ''.iisacc-temporary.lock''"

definition physical :: "env \<Rightarrow> string \<Rightarrow> string" where
  "physical Q key =
     (let section_key = section_first key; tail = section_rest key in
      if tail = [] \<or> CHR ''/'' \<notin> set key \<or> length key > 3500 \<or> CHR 0x5C \<in> set key
         \<or> CHR '':'' \<in> set key \<or> CHR 0x00 \<in> set key then []
      else if list_ex reserved_part (qsplit (CHR ''/'') key) then []
      else (case map_of (store_sections Q) section_key of
              Some name \<Rightarrow> name @ ''/'' @ tail
            | None \<Rightarrow> []))"

definition content_equal :: "jobj \<Rightarrow> jobj \<Rightarrow> bool" where
  "content_equal a b \<longleftrightarrow> oget ''kind'' a = oget ''kind'' b
     \<and> oget ''hash'' a = oget ''hash'' b \<and> oget ''size'' a = oget ''size'' b"

definition valid_snapshot :: "env \<Rightarrow> jobj \<Rightarrow> bool" where
  "valid_snapshot Q snapshot \<longleftrightarrow>
     oget ''schema'' snapshot = JNum 1 \<and> \<not> uuid_null Q (jstr (oget ''id'' snapshot))
     \<and> (case number (oget ''capturedAt'' snapshot) of None \<Rightarrow> False | Some captured \<Rightarrow> captured > 0)
     \<and> (case number (oget ''baseSequence'' snapshot) of None \<Rightarrow> False
        | Some base \<Rightarrow> is_str (oget ''baseRevision'' snapshot)
            \<and> (if base \<noteq> 0 then hex (jstr (oget ''baseRevision'' snapshot))
               else jstr (oget ''baseRevision'' snapshot) = []))
     \<and> set (okeys snapshot) = set [''schema'', ''id'', ''capturedAt'', ''baseSequence'', ''baseRevision'']"

section \<open>Vector clocks\<close>

text \<open>1: incoming dominates, -1: local dominates, 0: equal, 2: concurrent.\<close>

definition compare_clock :: "jobj \<Rightarrow> jobj \<Rightarrow> int" where
  "compare_clock incoming local =
     (let keys = okeys incoming @ okeys local;
          greater = list_ex (\<lambda>k. jll (oget k incoming) > jll (oget k local)) keys;
          less = list_ex (\<lambda>k. jll (oget k incoming) < jll (oget k local)) keys
      in if greater \<and> less then 2 else if greater then 1 else if less then - 1 else 0)"

definition join_key :: "jobj \<Rightarrow> string \<times> json \<Rightarrow> jobj" where
  "join_key a kv = (if jll (snd kv) > jll (oget (fst kv) a) then oput (fst kv) (snd kv) a else a)"

definition joined :: "jobj \<Rightarrow> jobj \<Rightarrow> jobj" where
  "joined a b = foldl join_key a b"

definition rank :: "jobj \<Rightarrow> int" where
  "rank e = (if oget ''kind'' e = JStr ''directory'' then 2
             else if oget ''kind'' e = JStr ''file'' then 1 else 0)"

definition conflict_path :: "jobj \<Rightarrow> string" where
  "conflict_path loser =
     (let path = jstr (oget ''path'' loser); name = section_last path
      in dir_prefix path @ (if utf8_size name \<le> 160 then name else ''file'')
         @ ''.sync-conflict-'' @ take 32 (jstr (oget ''version'' loser)))"

text \<open>\<open>Replica::validRecord\<close>.\<close>

definition valid_clock :: "env \<Rightarrow> jobj \<Rightarrow> bool" where
  "valid_clock Q clock \<longleftrightarrow> clock \<noteq> [] \<and> length clock \<le> 64
     \<and> list_all (\<lambda>(k, v). \<not> uuid_null Q k \<and> (case number v of None \<Rightarrow> False | Some n \<Rightarrow> n \<noteq> 0)) clock"

definition valid_record :: "env \<Rightarrow> jobj \<Rightarrow> bool" where
  "valid_record Q e \<longleftrightarrow>
     (let kind = jstr (oget ''kind'' e); hash = jstr (oget ''hash'' e) in
      physical Q (jstr (oget ''path'' e)) \<noteq> []
      \<and> jstr (oget ''version'' e) = jstr (oget ''version'' (versioned Q e))
      \<and> (case number (oget ''size'' e) of None \<Rightarrow> False
         | Some sz \<Rightarrow>
             (kind = ''file'' \<or> kind = ''directory'' \<or> kind = ''deleted'')
             \<and> (if kind = ''file'' then hex hash else sz = 0 \<and> hash = []))
      \<and> (has_key ''baseRevision'' e \<longrightarrow>
           is_str (oget ''baseRevision'' e)
           \<and> (jstr (oget ''baseRevision'' e) = [] \<or> hex (jstr (oget ''baseRevision'' e))))
      \<and> valid_clock Q (jobject (oget ''clock'' e))
      \<and> length (json_bytes Q e) \<le> 16384)"

section \<open>Laws of numbers and versions\<close>

lemma numberD: "number v = Some n \<Longrightarrow> 0 \<le> n \<and> n \<le> max_counter \<and> jll v = n"
  by (auto simp: number_def jll_def split: option.splits if_splits)

lemma max_counter_int64: "0 \<le> n \<Longrightarrow> n \<le> max_counter \<Longrightarrow> in_int64 n"
  by (simp add: in_int64_def max_counter_def)

lemma jll_jnumstr [simp]: "in_int64 n \<Longrightarrow> jll (jnumstr n) = n"
  by (simp add: jll_def)

lemma number_jnumstr [simp]: "0 \<le> n \<Longrightarrow> n \<le> max_counter \<Longrightarrow> number (jnumstr n) = Some n"
  by (simp add: number_def max_counter_int64)

lemma hexD: "hex s \<Longrightarrow> length s = 64" "hex s \<Longrightarrow> c \<in> set s \<Longrightarrow> c \<in> set ''0123456789abcdef''"
  by (auto simp: hex_def list_all_iff)

lemma oget_payload: "oget k (payload e) =
   (if k \<in> {''path'', ''kind'', ''size'', ''hash'', ''clock''} then oget k e else JUndef)"
  by (simp add: payload_def obj_def)

lemma oget_versioned: "oget k (versioned Q e) =
   (if k = ''version'' then JStr (digest Q (json_bytes Q (payload e))) else oget k (payload e))"
  by (simp add: versioned_def Let_def)

lemma payload_cong:
  "(\<And>k. k \<in> {''path'', ''kind'', ''size'', ''hash'', ''clock''} \<Longrightarrow> oget k a = oget k b)
   \<Longrightarrow> payload a = payload b"
  by (simp add: payload_def)

lemma payload_versioned [simp]: "payload (versioned Q e) = payload e"
  by (rule payload_cong) (auto simp: oget_versioned oget_payload)

lemma versioned_idem [simp]: "versioned Q (versioned Q e) = versioned Q e"
  by (simp add: versioned_def [of Q "versioned Q e"]) (simp add: versioned_def)

section \<open>Laws of vector clocks\<close>

abbreviation clk :: "jobj \<Rightarrow> string \<Rightarrow> int" where
  "clk c k \<equiv> jll (oget k c)"

lemma jll_JUndef [simp]: "jll JUndef = 0"
  by (simp add: jll_def to_ll_def trimmed_def Let_def)

lemma clk_outside: "k \<notin> set (okeys c) \<Longrightarrow> clk c k = 0"
  by (simp add: has_key_iff [symmetric] oget_no_key)

lemma ex_clk_keys:
  assumes "clk a k \<noteq> clk b k"
  shows "k \<in> set (okeys a @ okeys b)"
proof (rule ccontr)
  assume "k \<notin> set (okeys a @ okeys b)"
  then have "clk a k = 0" "clk b k = 0" by (auto intro: clk_outside)
  with assms show False by simp
qed

lemma list_ex_keys:
  assumes "\<And>k. P k \<Longrightarrow> clk a k \<noteq> clk b k"
  shows "list_ex P (okeys a @ okeys b) \<longleftrightarrow> (\<exists>k. P k)"
  using assms ex_clk_keys by (metis list_ex_iff)

lemma greater_iff:
  "list_ex (\<lambda>k. clk a k > clk b k) (okeys a @ okeys b) \<longleftrightarrow> (\<exists>k. clk a k > clk b k)"
  by (rule list_ex_keys) simp

lemma less_iff:
  "list_ex (\<lambda>k. clk a k < clk b k) (okeys a @ okeys b) \<longleftrightarrow> (\<exists>k. clk a k < clk b k)"
  by (rule list_ex_keys) simp

lemma compare_clock_eq:
  "compare_clock a b =
     (if (\<exists>k. clk a k > clk b k) \<and> (\<exists>k. clk a k < clk b k) then 2
      else if \<exists>k. clk a k > clk b k then 1 else if \<exists>k. clk a k < clk b k then - 1 else 0)"
  unfolding compare_clock_def Let_def greater_iff less_iff by simp

lemma compare_clock_cases:
  "compare_clock a b = 0 \<longleftrightarrow> (\<forall>k. clk a k = clk b k)"
  "compare_clock a b = 1 \<longleftrightarrow> (\<forall>k. clk b k \<le> clk a k) \<and> (\<exists>k. clk b k < clk a k)"
  "compare_clock a b = - 1 \<longleftrightarrow> (\<forall>k. clk a k \<le> clk b k) \<and> (\<exists>k. clk a k < clk b k)"
  "compare_clock a b = 2 \<longleftrightarrow> (\<exists>k. clk b k < clk a k) \<and> (\<exists>k. clk a k < clk b k)"
proof -
  have eq: "(\<forall>k. clk a k = clk b k) \<longleftrightarrow> \<not> (\<exists>k. clk a k > clk b k) \<and> \<not> (\<exists>k. clk a k < clk b k)"
    by (metis linorder_neq_iff)
  have le: "(\<forall>k. clk b k \<le> clk a k) \<longleftrightarrow> \<not> (\<exists>k. clk a k < clk b k)"
    "(\<forall>k. clk a k \<le> clk b k) \<longleftrightarrow> \<not> (\<exists>k. clk a k > clk b k)"
    by (auto simp: not_less)
  show "compare_clock a b = 0 \<longleftrightarrow> (\<forall>k. clk a k = clk b k)"
    "compare_clock a b = 1 \<longleftrightarrow> (\<forall>k. clk b k \<le> clk a k) \<and> (\<exists>k. clk b k < clk a k)"
    "compare_clock a b = - 1 \<longleftrightarrow> (\<forall>k. clk a k \<le> clk b k) \<and> (\<exists>k. clk a k < clk b k)"
    "compare_clock a b = 2 \<longleftrightarrow> (\<exists>k. clk b k < clk a k) \<and> (\<exists>k. clk a k < clk b k)"
    unfolding compare_clock_eq eq le by (simp_all split: if_splits)
qed

lemma clk_join_key: "clk (join_key a kv) k = (if k = fst kv then max (clk a k) (jll (snd kv)) else clk a k)"
  by (auto simp: join_key_def)

lemma clk_foldl_join:
  "distinct (map fst b) \<Longrightarrow>
   clk (foldl join_key a b) k = (case map_of b k of None \<Rightarrow> clk a k | Some v \<Rightarrow> max (clk a k) (jll v))"
proof (induction b arbitrary: a)
  case (Cons x b)
  obtain k0 v where x: "x = (k0, v)" by (cases x)
  with Cons.prems have "map_of b k0 = None" by (simp add: map_of_eq_None_iff)
  with Cons x show ?case by (auto simp: clk_join_key split: option.split)
qed simp

lemma clk_joined:
  "wf_obj b \<Longrightarrow> clk (joined a b) k = (if has_key k b then max (clk a k) (clk b k) else clk a k)"
  unfolding joined_def
  by (subst clk_foldl_join)
    (auto simp: wf_obj_def strict_sorted_iff has_key_def oget_def split: option.splits)

lemma wf_joined: "wf_obj a \<Longrightarrow> wf_obj (joined a b)"
  unfolding joined_def by (induction b arbitrary: a) (auto simp: join_key_def)

lemma valid_clock_positive:
  assumes "valid_clock Q c" shows "0 \<le> clk c k"
proof (cases "map_of c k")
  case None
  then show ?thesis by (simp add: oget_def)
next
  case (Some v)
  with assms show ?thesis
    by (auto simp: valid_clock_def list_all_iff oget_def split: option.splits
        dest!: map_of_SomeD numberD)
qed

section \<open>Physical names\<close>

lemma section_parts:
  assumes "CHR ''/'' \<in> set key"
  shows "qsplit CHR ''/'' key = section_first key # qsplit CHR ''/'' (section_rest key)"
proof -
  obtain a as where a: "qsplit CHR ''/'' key = a # as" by (cases "qsplit CHR ''/'' key") auto
  have "as \<noteq> []"
  proof
    assume "as = []"
    then have "key = a" using a qjoin_qsplit [of "CHR ''/''" key] by simp
    then show False using a qsplit_parts [of a "CHR ''/''" key] assms by simp
  qed
  moreover have "\<forall>p\<in>set as. CHR ''/'' \<notin> set p" using a qsplit_parts [of _ "CHR ''/''" key] by auto
  ultimately show ?thesis using a by (simp add: section_first_def section_rest_def qsplit_qjoin)
qed

lemma physicalD:
  assumes "physical Q key \<noteq> []"
  obtains n where "map_of (store_sections Q) (section_first key) = Some n" "physical Q key = n @ ''/'' @ section_rest key"
    "CHR ''/'' \<in> set key" "list_all (\<lambda>p. \<not> reserved_part p) (qsplit CHR ''/'' key)"
  using assms
  by (auto simp: physical_def Let_def list_all_iff list_ex_iff split: if_splits option.splits)

end
