(* ===== verification/Samples.thy ===== *)
theory Samples
  imports Records
begin

text \<open>
  A small concrete environment and record, and their evaluations: the closed inputs at which the
  witnesses of the properties apply them. The digest and the printer of this environment are
  constants, which is all the witnesses need of them.
\<close>

definition zeros :: string where
  "zeros = ''0000000000000000000000000000000000000000000000000000000000000000''"

definition sample_env :: env where
  "sample_env = \<lparr>sha256 = (\<lambda>s. zeros), compact = (\<lambda>j. ''{}''), b64 = (\<lambda>s. s), unb64 = Some,
     uuid_null = (\<lambda>s. s = []), uuid_text = (\<lambda>s. s),
     store_sections = [(''notes'', ''Notes'')],
     control_file = (\<lambda>n. False),
     new_uuid = (\<lambda>n. ''u'' @ nat_str n), file_stamp = (\<lambda>a b c. nat_str a @ nat_str b @ nat_str c),
     parse_obj = (\<lambda>s. []), presentation_max = 1048576, iso_now = ''now'', now_ms = 1000,
     adopt_identity = (\<lambda>old target. Some target), complete_replica = (\<lambda>c. True), drive_ready = True,
     logical_disk = False, file_information = (\<lambda>s p. []), bytes_available = - 1,
     render_preview = (\<lambda>b. []), preview_fits = (\<lambda>b. True),
     modified_ms = (\<lambda>p. None), parse_date = (\<lambda>s. if s = [] then None else Some s)\<rparr>"

lemma sample_env_simps [simp]:
  "sha256 sample_env s = zeros" "compact sample_env j = ''{}''" "b64 sample_env s = s" "unb64 sample_env s = Some s"
  "uuid_null sample_env s \<longleftrightarrow> s = []" "uuid_text sample_env s = s"
  "store_sections sample_env = [(''notes'', ''Notes'')]"
  "\<not> control_file sample_env s" "new_uuid sample_env n = ''u'' @ nat_str n"
  "parse_obj sample_env s = []" "presentation_max sample_env = 1048576" "iso_now sample_env = ''now''"
  "now_ms sample_env = 1000" "adopt_identity sample_env old target = Some target" "complete_replica sample_env c"
  "drive_ready sample_env" "\<not> logical_disk sample_env" "file_information sample_env s p = []"
  "bytes_available sample_env = - 1" "render_preview sample_env s = []" "preview_fits sample_env s" "modified_ms sample_env s = None"
  "parse_date sample_env s = (if s = [] then None else Some s)"
  by (simp_all add: sample_env_def)

definition sample_record :: jobj where
  "sample_record = [(''clock'', JObj [(''p'', JStr ''1'')]), (''hash'', JStr zeros), (''kind'', JStr ''file''),
     (''path'', JStr ''notes/a''), (''size'', JStr ''3''), (''version'', JStr zeros)]"

lemmas number_eval = number_def to_ll_def trimmed_def is_space_def digit_val_def in_int64_def max_counter_def

lemma sample_record_get [simp]:
  "oget k sample_record = (if k = ''path'' then JStr ''notes/a'' else if k = ''kind'' then JStr ''file''
    else if k = ''size'' then JStr ''3'' else if k = ''hash'' then JStr zeros
    else if k = ''clock'' then JObj [(''p'', JStr ''1'')] else if k = ''version'' then JStr zeros else JUndef)"
  by (simp add: sample_record_def oget_def)

lemma hex_zeros: "hex zeros" by (simp add: hex_def zeros_def)

lemma sample_number: "number (JStr ''3'') = Some 3" "number (JStr ''1'') = Some 1"
  by (simp_all add: number_eval)

lemma sample_physical: "physical sample_env ''notes/a'' = ''Notes/a''"
  by (simp add: physical_def section_first_def section_rest_def reserved_part_def utf8_size_def starts_with_def)

lemma sample_valid: "valid_record sample_env sample_record"
  by (simp add: valid_record_def sample_physical sample_number hex_zeros oget_versioned digest_def
     has_key_iff valid_clock_def json_bytes_def) (simp add: sample_record_def okeys_def)

end
