(* ===== verification/RecordProps.thy ===== *)
theory RecordProps
  imports Samples
begin

text \<open>
  Properties of the record rules of \<open>Records\<close>: the order and the join of vector clocks, and the
  confinement of logical keys to the section directories.
\<close>

section \<open>Properties of records\<close>

lemma compare_ge: "compare_clock x y \<in> {0, 1} \<longleftrightarrow> (\<forall>k. clk y k \<le> clk x k)"
proof -
  have "(\<forall>k. clk y k \<le> clk x k) \<longleftrightarrow> \<not> (\<exists>k. clk x k < clk y k)" by (simp add: not_less)
  then show ?thesis unfolding compare_clock_eq by simp
qed

text \<open>\<open>compare\<close> is the order of vector clocks: swapping the arguments swaps the verdict, equal
  clocks are 0, and dominance is transitive.\<close>

theorem compare_order:
  "compare_clock a a = 0
   \<and> compare_clock a b = (if compare_clock b a \<in> {1, - 1} then - compare_clock b a else compare_clock b a)
   \<and> (compare_clock a b \<in> {0, 1} \<and> compare_clock b c \<in> {0, 1} \<longrightarrow> compare_clock a c \<in> {0, 1})"
proof -
  have "compare_clock a b = (if compare_clock b a \<in> {1, - 1} then - compare_clock b a else compare_clock b a)"
    unfolding compare_clock_eq [of a b] compare_clock_eq [of b a] by auto
  moreover have "compare_clock a b \<in> {0, 1} \<Longrightarrow> compare_clock b c \<in> {0, 1} \<Longrightarrow> compare_clock a c \<in> {0, 1}"
    unfolding compare_ge by (meson order_trans)
  ultimately show ?thesis by (simp add: compare_clock_eq)
qed

theorem compare_order_witness: "compare_clock [(''p'', JStr ''1'')] [] \<in> {0, 1}"
proof -
  have "compare_clock [(''p'', JStr ''1'')] [] \<in> {0, 1} \<and> compare_clock [] [] \<in> {0, 1 :: int}"
    by (simp add: compare_clock_def okeys_def oget_def jll_def number_eval)
  then show ?thesis using compare_order [of "[(''p'', JStr ''1'')]" "[]" "[]"] by blast
qed

text \<open>\<open>joined\<close> is the least upper bound of two clocks: it dominates or equals both, and every
  clock that does so dominates or equals it.\<close>

theorem joined_lub:
  assumes "wf_obj b" "valid_clock Q a" "valid_clock Q b"
  shows "compare_clock (joined a b) a \<in> {0, 1} \<and> compare_clock (joined a b) b \<in> {0, 1}
    \<and> (\<forall>c. compare_clock c a \<in> {0, 1} \<and> compare_clock c b \<in> {0, 1} \<longrightarrow> compare_clock c (joined a b) \<in> {0, 1})"
proof -
  have "clk b k \<le> clk (joined a b) k" for k
    using valid_clock_positive [OF assms(2), of k] clk_outside [of k b]
    by (cases "has_key k b") (auto simp: clk_joined [OF assms(1)] has_key_iff)
  then show ?thesis unfolding compare_ge by (auto simp: clk_joined [OF assms(1)])
qed

theorem joined_lub_witness: "compare_clock (joined [(''p'', JStr ''1'')] [(''p'', JStr ''1'')]) [(''p'', JStr ''1'')] \<in> {0, 1}"
proof -
  have "valid_clock sample_env [(''p'', JStr ''1'')]" by (simp add: valid_clock_def sample_number)
  then show ?thesis using joined_lub [of "[(''p'', JStr ''1'')]" sample_env "[(''p'', JStr ''1'')]"] by (simp add: wf_obj_def)
qed

text \<open>a logical key that has a container path is confined to a section directory: the path is the
  section's name followed by the key's parts, none of which is empty, \<open>.\<close>, \<open>..\<close>, a reserved
  prefix, or longer than 220 bytes, and different keys have different paths where the sections
  have different names.\<close>

theorem physical_confined:
  assumes "physical Q key \<noteq> []" "list_all (\<lambda>(k, n). CHR ''/'' \<notin> set n) (store_sections Q)"
    "inj_on (\<lambda>k. map_of (store_sections Q) k) (fst ` set (store_sections Q))"
  shows "(\<exists>n ps. (section_first key, n) \<in> set (store_sections Q) \<and> qsplit CHR ''/'' (physical Q key) = n # ps \<and> ps \<noteq> []
      \<and> qsplit CHR ''/'' key = section_first key # ps \<and> list_all (\<lambda>p. \<not> reserved_part p) ps)
    \<and> (\<forall>key'. physical Q key = physical Q key' \<longrightarrow> key = key')"
proof -
  have parts: "\<exists>n ps. map_of (store_sections Q) (section_first key) = Some n \<and> qsplit CHR ''/'' (physical Q key) = n # ps \<and> ps \<noteq> []
      \<and> qsplit CHR ''/'' key = section_first key # ps \<and> list_all (\<lambda>p. \<not> reserved_part p) ps" if ne: "physical Q key \<noteq> []" for key
  proof -
    obtain n where n: "map_of (store_sections Q) (section_first key) = Some n" "physical Q key = n @ ''/'' @ section_rest key"
      "CHR ''/'' \<in> set key" "list_all (\<lambda>p. \<not> reserved_part p) (qsplit CHR ''/'' key)"
      by (rule physicalD [OF ne])
    have "CHR ''/'' \<notin> set n" using map_of_SomeD [OF n(1)] assms(2) by (auto simp: list_all_iff)
    then show ?thesis using n section_parts [OF n(3)] by (auto simp: qsplit_append)
  qed
  have "key = key'" if eq: "physical Q key = physical Q key'" for key'
  proof -
    from parts [OF assms(1)] parts [OF assms(1) [unfolded eq]] eq obtain n ps where
      k: "map_of (store_sections Q) (section_first key) = Some n" "qsplit CHR ''/'' key = section_first key # ps"
      "map_of (store_sections Q) (section_first key') = Some n" "qsplit CHR ''/'' key' = section_first key' # ps" by auto
    have "section_first key = section_first key'"
      using k(1,3) assms(3) by (metis inj_onD map_of_SomeD image_eqI fst_conv)
    then have "qsplit CHR ''/'' key = qsplit CHR ''/'' key'" using k by simp
    then show ?thesis by (rule qsplit_inj)
  qed
  with parts [OF assms(1)] show ?thesis by (metis map_of_SomeD)
qed

theorem physical_confined_witness: "qsplit CHR ''/'' (physical sample_env ''notes/a'') = [''Notes'', ''a'']"
proof -
  have "inj_on (\<lambda>k. map_of (store_sections sample_env) k) (fst ` set (store_sections sample_env))" by (simp add: inj_on_def)
  from physical_confined [OF _ _ this, of "''notes/a''"] show ?thesis by (simp add: sample_physical)
qed

end
