(* ===== verification/Confined.thy ===== *)
theory Confined
  imports Samples
begin

text \<open>
  \<open>src/src/Sync/ConfinedFiles.cpp\<close>, the POSIX branch without a separate Files volume:
  every path is resolved component by component below the pinned root, symbolic links and
  special files are refused, and replacing or removing a public file first links it into
  \<open>.society-sync/recovery\<close>.

  The file system is the part of the kernel the calls touch: names bound to inodes or
  directories, inode contents with a change counter, and hard links as two names with one
  inode. The list \<open>sysfault\<close> makes the next system calls (or the cancellation callback)
  fail where it holds \<open>True\<close>, so every error branch can be taken.
\<close>

section \<open>The file system\<close>

datatype errno = ENOENT | ENOTDIR | ELOOP | EINVAL | EIO

datatype node = File nat | Dir nat nat | Special

record fsys =
  names :: "(string list \<times> node) list"
  inodes :: "(nat \<times> (string \<times> nat)) list"
  next_ino :: nat
  alive :: bool
  ferror :: string
  fuuid :: nat
  sysfault :: "bool list"

record fstate =
  fkind :: string
  fstamp :: string
  fsize :: int

definition deleted_state :: fstate where
  "deleted_state = \<lparr>fkind = ''deleted'', fstamp = [], fsize = 0\<rparr>"

abbreviation comps :: "string \<Rightarrow> string list" where
  "comps path \<equiv> qsplit (CHR ''/'') path"

definition content :: "fsys \<Rightarrow> nat \<Rightarrow> string" where
  "content f i = (case map_of (inodes f) i of None \<Rightarrow> [] | Some c \<Rightarrow> fst c)"

definition changes_of :: "fsys \<Rightarrow> nat \<Rightarrow> nat" where
  "changes_of f i = (case map_of (inodes f) i of None \<Rightarrow> 0 | Some c \<Rightarrow> snd c)"

definition node_stamp :: "env \<Rightarrow> fsys \<Rightarrow> node \<Rightarrow> string" where
  "node_stamp Q f n = (case n of
      File i \<Rightarrow> file_stamp Q i (length (content f i)) (changes_of f i)
    | Dir i v \<Rightarrow> file_stamp Q i 0 v
    | Special \<Rightarrow> [])"

section \<open>System calls\<close>

definition ffail :: "string \<Rightarrow> fsys \<Rightarrow> bool \<times> fsys" where
  "ffail message f = (False, f\<lparr>ferror := message\<rparr>)"

definition poll :: "fsys \<Rightarrow> bool \<times> fsys" where
  "poll f = (case sysfault f of [] \<Rightarrow> (True, f) | b # bs \<Rightarrow> (\<not> b, f\<lparr>sysfault := bs\<rparr>))"

definition touch_dir :: "string list \<Rightarrow> fsys \<Rightarrow> fsys" where
  "touch_dir p f = (case map_of (names f) p of
      Some (Dir i v) \<Rightarrow> f\<lparr>names := upsert p (Dir i (Suc v)) (names f)\<rparr>
    | _ \<Rightarrow> f)"

definition touch_inode :: "nat \<Rightarrow> fsys \<Rightarrow> fsys" where
  "touch_inode i f = f\<lparr>inodes := upsert i (content f i, Suc (changes_of f i)) (inodes f)\<rparr>"

definition sys_link :: "string list \<Rightarrow> node \<Rightarrow> fsys \<Rightarrow> fsys" where
  "sys_link p n f = touch_dir (butlast p) (f\<lparr>names := upsert p n (names f)\<rparr>)"

definition sys_unlink :: "string list \<Rightarrow> fsys \<Rightarrow> fsys" where
  "sys_unlink p f = touch_dir (butlast p) (f\<lparr>names := filter (\<lambda>(q, n). q \<noteq> p) (names f)\<rparr>)"

definition sys_write :: "nat \<Rightarrow> string \<Rightarrow> fsys \<Rightarrow> fsys" where
  "sys_write i bytes f = f\<lparr>inodes := upsert i (bytes, Suc (changes_of f i)) (inodes f)\<rparr>"

definition sys_create :: "string list \<Rightarrow> fsys \<Rightarrow> nat \<times> fsys" where
  "sys_create p f = (let i = next_ino f in
     (i, sys_link p (File i) (f\<lparr>inodes := upsert i ([], 0) (inodes f), next_ino := Suc i\<rparr>)))"

definition sys_mkdir :: "string list \<Rightarrow> fsys \<Rightarrow> fsys" where
  "sys_mkdir p f = (let i = next_ino f in sys_link p (Dir i 0) (f\<lparr>next_ino := Suc i\<rparr>))"

text \<open>\<open>renameat\<close> moves a name, and what lies below it, onto a free or replaced name.\<close>

definition moved_path :: "string list \<Rightarrow> string list \<Rightarrow> string list \<Rightarrow> string list" where
  "moved_path src dst q = (if take (length src) q = src then dst @ drop (length src) q else q)"

text \<open>Renaming one hard link onto another of the same inode does nothing.\<close>

definition same_file :: "fsys \<Rightarrow> string list \<Rightarrow> string list \<Rightarrow> bool" where
  "same_file f src dst \<longleftrightarrow>
     (case (map_of (names f) src, map_of (names f) dst) of
        (Some (File i), Some (File j)) \<Rightarrow> i = j | _ \<Rightarrow> False)"

definition rename_ok :: "fsys \<Rightarrow> string list \<Rightarrow> string list \<Rightarrow> bool" where
  "rename_ok f src dst \<longleftrightarrow>
     (case map_of (names f) src of
        None \<Rightarrow> False
      | Some (Dir i v) \<Rightarrow> list_all (\<lambda>(q, n). take (length dst) q \<noteq> dst) (names f)
                          \<and> take (length src) dst \<noteq> src
      | Some n \<Rightarrow> (case map_of (names f) dst of Some (Dir i v) \<Rightarrow> False | _ \<Rightarrow> True))"

definition moved_names :: "fsys \<Rightarrow> string list \<Rightarrow> string list \<Rightarrow> (string list \<times> node) list" where
  "moved_names f src dst =
     (case map_of (names f) src of
        Some (Dir i v) \<Rightarrow> map (\<lambda>(q, n). (moved_path src dst q, n)) (names f)
      | Some n \<Rightarrow> (dst, n) # filter (\<lambda>(q, m). q \<noteq> dst) (filter (\<lambda>(q, m). q \<noteq> src) (names f))
      | None \<Rightarrow> names f)"

definition sys_rename :: "string list \<Rightarrow> string list \<Rightarrow> fsys \<Rightarrow> fsys" where
  "sys_rename src dst f =
     (if same_file f src dst then f
      else touch_dir (butlast src) (touch_dir (butlast dst) (f\<lparr>names := moved_names f src dst\<rparr>)))"

definition children :: "fsys \<Rightarrow> string list \<Rightarrow> string list" where
  "children f p = map last (filter (\<lambda>q. q \<noteq> [] \<and> butlast q = p) (map fst (names f)))"

fun walk :: "(string list \<times> node) list \<Rightarrow> string list \<Rightarrow> string list \<Rightarrow> errno option" where
  "walk ns pre [] = None"
| "walk ns pre (c # cs) =
     (case map_of ns (pre @ [c]) of
        None \<Rightarrow> Some ENOENT
      | Some (Dir i v) \<Rightarrow> walk ns (pre @ [c]) cs
      | Some (File i) \<Rightarrow> Some ENOTDIR
      | Some Special \<Rightarrow> Some ELOOP)"

section \<open>Operations\<close>

definition relative :: "string \<Rightarrow> bool" where
  "relative path \<longleftrightarrow> \<not> (length path > 4096 \<or> starts_with ''/'' path \<or> CHR 0x5C \<in> set path
       \<or> CHR '':'' \<in> set path \<or> CHR 0x00 \<in> set path)
     \<and> list_all (\<lambda>part. \<not> (part = [] \<or> part = ''.'' \<or> part = ''..'' \<or> utf8_size part > 255)) (comps path)"

definition intact :: "fsys \<Rightarrow> bool \<times> fsys" where
  "intact f =
     (let (ok, f) = poll f in
      if \<not> ok then ffail ''cancelled'' f
      else if alive f then (True, f)
      else ffail ''container_replaced_or_unavailable'' f)"

text \<open>\<open>openAt(path, O_RDONLY | O_DIRECTORY)\<close>: \<open>None\<close> is an open directory, else \<open>errno\<close>.\<close>

definition open_dir :: "string \<Rightarrow> fsys \<Rightarrow> errno option \<times> fsys" where
  "open_dir path f =
     (let (ok, f) = intact f in
      if \<not> ok \<or> (path \<noteq> [] \<and> \<not> relative path) then (Some EINVAL, snd (ffail ''invalid_path'' f))
      else let (ok, f) = poll f in
      if \<not> ok then (Some EIO, snd (ffail ''container_unavailable'' f))
      else if path = [] then (None, f)
      else (case walk (names f) [] (comps path) of
              None \<Rightarrow> (None, f)
            | Some e \<Rightarrow> (Some e, snd (ffail ''path_unavailable_or_redirected'' f))))"

text \<open>
  \<open>openAt\<close> of a last component that need not be a directory: the node it names. With
  \<open>O_CREAT\<close> a missing file is created empty.
\<close>

definition open_node :: "bool \<Rightarrow> string \<Rightarrow> fsys \<Rightarrow> node option \<times> fsys" where
  "open_node creat path f =
     (let (ok, f) = intact f in
      if \<not> ok \<or> (path \<noteq> [] \<and> \<not> relative path) then (None, snd (ffail ''invalid_path'' f))
      else let (ok, f) = poll f in
      if \<not> ok then (None, snd (ffail ''container_unavailable'' f))
      else if path = [] then (Some Special, f)
      else (case walk (names f) [] (butlast (comps path)) of
              Some e \<Rightarrow> (None, snd (ffail ''path_unavailable_or_redirected'' f))
            | None \<Rightarrow>
                (case map_of (names f) (comps path) of
                   Some Special \<Rightarrow> (None, snd (ffail ''path_unavailable_or_redirected'' f))
                 | Some (Dir i v) \<Rightarrow>
                     if creat then (None, snd (ffail ''path_unavailable_or_redirected'' f)) else (Some (Dir i v), f)
                 | Some (File i) \<Rightarrow> (Some (File i), f)
                 | None \<Rightarrow>
                     if creat then (let (i, f) = sys_create (comps path) f in (Some (File i), f))
                     else (None, snd (ffail ''path_unavailable_or_redirected'' f)))))"

fun mkdir_parts :: "string list \<Rightarrow> string list \<Rightarrow> fsys \<Rightarrow> bool \<times> fsys" where
  "mkdir_parts pre [] f = (True, f)"
| "mkdir_parts pre (part # parts) f =
     (let (e, f) = open_dir (qjoin (CHR ''/'') pre) f in
      if e \<noteq> None then (False, f)
      else let (ok, f) = poll f in
      if map_of (names f) (pre @ [part]) = None \<and> \<not> ok then ffail ''mkdir_failed'' f
      else let f = (if map_of (names f) (pre @ [part]) = None then sys_mkdir (pre @ [part]) f else f);
               (e, f) = open_dir (qjoin (CHR ''/'') (pre @ [part])) f in
           if e \<noteq> None then (False, f) else mkdir_parts (pre @ [part]) parts f)"

definition mkdir :: "string \<Rightarrow> fsys \<Rightarrow> bool \<times> fsys" where
  "mkdir path f = (if \<not> relative path then ffail ''invalid_path'' f else mkdir_parts [] (comps path) f)"

definition parent_dir :: "string \<Rightarrow> bool \<Rightarrow> fsys \<Rightarrow> errno option \<times> fsys" where
  "parent_dir path create f =
     (if \<not> relative path then (Some EINVAL, snd (ffail ''invalid_path'' f))
      else let name = dir_part path;
               (ok, f) = (if create \<and> name \<noteq> [] then mkdir name f else (True, f)) in
           if \<not> ok then (Some EIO, f) else open_dir name f)"

text \<open>\<open>state\<close>: \<open>None\<close> is a failure, a missing entry is reported as \<open>deleted\<close>.\<close>

definition fs_state :: "env \<Rightarrow> string \<Rightarrow> fsys \<Rightarrow> fstate option \<times> fsys" where
  "fs_state Q path f =
     (let (e, f) = parent_dir path False f in
      if e \<noteq> None then
        (if e = Some ENOENT then
           (let (ok, f) = intact f in
            if ok then (Some deleted_state, f\<lparr>ferror := []\<rparr>) else (None, f))
         else (None, f))
      else let (ok, f) = poll f in
      if \<not> ok then (None, snd (ffail ''stat_failed'' f))
      else (case map_of (names f) (comps path) of
              None \<Rightarrow> (Some deleted_state, f)
            | Some Special \<Rightarrow> (None, snd (ffail ''symlink_or_special_file'' f))
            | Some (Dir i v) \<Rightarrow> (Some \<lparr>fkind = ''directory'', fstamp = node_stamp Q f (Dir i v), fsize = 0\<rparr>, f)
            | Some (File i) \<Rightarrow> (Some \<lparr>fkind = ''file'', fstamp = node_stamp Q f (File i),
                                       fsize = int (length (content f i))\<rparr>, f)))"

definition fs_list :: "string \<Rightarrow> fsys \<Rightarrow> string list option \<times> fsys" where
  "fs_list path f =
     (let (e, f) = open_dir path f in
      if e \<noteq> None then (None, f)
      else let (ok, f) = poll f; ns = children f (if path = [] then [] else comps path) in
      if \<not> ok then (None, snd (ffail ''directory_read_failed'' f))
      else if \<not> list_all relative ns then (None, snd (ffail ''unsupported_filename'' f))
      else (Some (sort ns), f))"

definition fs_read :: "env \<Rightarrow> string \<Rightarrow> int \<Rightarrow> int \<Rightarrow> string \<Rightarrow> fsys \<Rightarrow> string option \<times> fsys" where
  "fs_read Q path offset len expected f =
     (let (n, f) = open_node False path (f\<lparr>ferror := []\<rparr>) in
      case n of
        Some (File i) \<Rightarrow>
          (let size = int (length (content f i)) in
           if (expected \<noteq> [] \<and> expected \<noteq> node_stamp Q f (File i)) \<or> offset < 0 \<or> offset > size
              \<or> len < 0 \<or> len > 1024 * 1024
           then (None, snd (ffail ''file_changed_or_invalid_offset'' f))
           else let (ok, f) = poll f in
           if \<not> ok then (None, snd (ffail ''file_changed'' f))
           else (Some (take (nat (min len (size - offset))) (drop (nat offset) (content f i))), f))
      | _ \<Rightarrow> (None, snd (ffail ''not_file'' f)))"

definition fs_hash :: "env \<Rightarrow> string \<Rightarrow> string \<Rightarrow> fsys \<Rightarrow> string option \<times> fsys" where
  "fs_hash Q path expected f =
     (let (n, f) = open_node False path (f\<lparr>ferror := []\<rparr>) in
      case n of
        Some (File i) \<Rightarrow>
          (if expected \<noteq> [] \<and> expected \<noteq> node_stamp Q f (File i) then (None, snd (ffail ''file_changed'' f))
           else let (ok, f) = poll f in
           if \<not> ok then (None, snd (ffail ''cancelled'' f))
           else (Some (digest Q (content f i)), f))
      | _ \<Rightarrow> (None, snd (ffail ''not_file'' f)))"

definition fs_append :: "string \<Rightarrow> int \<Rightarrow> string \<Rightarrow> fsys \<Rightarrow> bool \<times> fsys" where
  "fs_append path offset bytes f =
     (let (n, f) = open_node True path f in
      case n of
        Some (File i) \<Rightarrow>
          (let old = content f i; size = int (length old) in
           if offset < 0 \<or> offset > size then ffail ''invalid_offset'' f
           else if offset < size then
             (if offset + int (length bytes) > size then ffail ''overlapping_chunk'' f
              else if take (length bytes) (drop (nat offset) old) = bytes then (True, f)
              else ffail ''different_chunk_retry'' f)
           else let (ok, f) = poll f in
           if \<not> ok then ffail ''write_failed'' f
           else let f = (if bytes = [] then f else sys_write i (old @ bytes) f); (ok, f) = poll f in
           if ok then (True, f) else ffail ''flush_failed'' f)
      | _ \<Rightarrow> ffail ''transfer_unavailable'' f)"

definition preserve :: "string \<Rightarrow> string \<Rightarrow> fsys \<Rightarrow> bool \<times> fsys" where
  "preserve path copy f =
     (let (e1, f) = parent_dir path False f; (e2, f) = parent_dir copy True f in
      if e1 \<noteq> None \<or> e2 \<noteq> None then (False, f)
      else (case map_of (names f) (comps path) of
              Some (File i) \<Rightarrow>
                (let (ok, f) = poll f in
                 if \<not> ok \<or> map_of (names f) (comps copy) \<noteq> None then ffail ''preserve_failed'' f
                 else let f = touch_inode i (sys_link (comps copy) (File i) f); (ok, f) = poll f in
                 if ok then (True, f) else ffail ''flush_failed'' f)
            | _ \<Rightarrow> ffail ''not_file'' f))"

definition recovery_name :: "env \<Rightarrow> fsys \<Rightarrow> string" where
  "recovery_name Q f = ''.society-sync/recovery/'' @ new_uuid Q (fuuid f)"

definition archive_note :: "env \<Rightarrow> string \<Rightarrow> string \<Rightarrow> string" where
  "archive_note Q path copy = json_bytes Q (obj [(''path'', JStr path), (''backup'', JStr copy),
     (''savedAt'', JStr (iso_now Q))])"

definition archive :: "env \<Rightarrow> string \<Rightarrow> fsys \<Rightarrow> bool \<times> fsys" where
  "archive Q path f =
     (let copy = recovery_name Q f; f = f\<lparr>fuuid := Suc (fuuid f)\<rparr>;
          (ok, f) = preserve path copy f in
      if \<not> ok then (False, f)
      else fs_append (copy @ ''.json'') 0 (archive_note Q path copy) f)"

definition install :: "env \<Rightarrow> string \<Rightarrow> string \<Rightarrow> fsys \<Rightarrow> bool \<times> fsys" where
  "install Q source target f =
     (let (ok, f) = intact f in
      if \<not> ok then (False, f)
      else let (e1, f) = parent_dir source False f; (e2, f) = parent_dir target True f in
      if e1 \<noteq> None \<or> e2 \<noteq> None then (False, f)
      else let (ok, f) = (case map_of (names f) (comps target) of
             None \<Rightarrow> (True, f)
           | Some (File i) \<Rightarrow> archive Q target f
           | _ \<Rightarrow> ffail ''target_is_not_file'' f) in
      if \<not> ok then (False, f)
      else let (ok, f) = intact f in
      if \<not> ok then (False, f)
      else let (ok, f) = poll f in
      if \<not> ok \<or> \<not> rename_ok f (comps source) (comps target) then ffail ''replace_failed'' f
      else let f = sys_rename (comps source) (comps target) f; (ok, f) = poll f in
      if ok then (True, f) else ffail ''flush_failed'' f)"

definition detach :: "string \<Rightarrow> string \<Rightarrow> fsys \<Rightarrow> bool \<times> fsys" where
  "detach path destination f =
     (if \<not> starts_with ''.society-sync/detached/'' destination then ffail ''invalid_recovery_path'' f
      else let (e1, f) = parent_dir path False f; (e2, f) = parent_dir destination True f in
      if e1 \<noteq> None \<or> e2 \<noteq> None then (False, f)
      else let saved = map_of (names f) (comps destination) \<noteq> None in
      if map_of (names f) (comps path) = None then
        (if saved then (True, f) else ffail ''recovery_entry_missing'' f)
      else if saved then ffail ''recovery_destination_occupied'' f
      else let (ok, f) = intact f in
      if \<not> ok then ffail ''recovery_move_failed'' f
      else let (ok, f) = poll f in
      if \<not> ok \<or> \<not> rename_ok f (comps path) (comps destination) then ffail ''recovery_move_failed'' f
      else let f = sys_rename (comps path) (comps destination) f; (ok, f) = poll f in
      if ok then (True, f) else ffail ''flush_failed'' f)"

text \<open>Presentation files that belong to the provider go with the file they present.\<close>

definition owned_presentation :: "env \<Rightarrow> string \<Rightarrow> bool" where
  "owned_presentation Q bytes \<longleftrightarrow> length bytes \<le> presentation_max Q
     \<and> oget ''format'' (parse_obj Q bytes) = JStr ''iiFileProvider.Presentation''
     \<and> oget ''schema'' (parse_obj Q bytes) = JNum 1"

definition preview_name :: "string \<Rightarrow> string" where
  "preview_name name = ''.'' @ name @ ''.iisacc-preview''"

definition remove_owned_presentation :: "env \<Rightarrow> string list \<Rightarrow> string \<Rightarrow> fsys \<Rightarrow> bool \<times> fsys" where
  "remove_owned_presentation Q parent name f =
     (let p = parent @ [preview_name name]; (ok, f) = poll f in
      if \<not> ok then (False, f)
      else (case map_of (names f) p of
              Some (File i) \<Rightarrow>
                (if \<not> owned_presentation Q (content f i) then (True, f)
                 else let (ok, f) = poll f in
                 if ok then (True, sys_unlink p f) else (False, f))
            | _ \<Rightarrow> (True, f)))"

definition link_count :: "fsys \<Rightarrow> nat \<Rightarrow> nat" where
  "link_count f i = length (filter (\<lambda>(q, n). n = File i) (names f))"

definition lease_idle :: "fsys \<Rightarrow> string list \<Rightarrow> bool" where
  "lease_idle f p \<longleftrightarrow> (case map_of (names f) (p @ [''.iisacc-temporary.lock'']) of
     Some (File i) \<Rightarrow> content f i = [] \<and> link_count f i = 1 | _ \<Rightarrow> False)"

definition unlink_entry :: "env \<Rightarrow> string list \<Rightarrow> bool \<Rightarrow> fsys \<Rightarrow> bool \<times> fsys" where
  "unlink_entry Q p regular f =
     (let (ok, f) = intact f in
      if \<not> ok then ffail ''delete_failed_or_directory_not_empty'' f
      else let (ok, f) = poll f in
      if \<not> ok \<or> (\<not> regular \<and> children f p \<noteq> []) then ffail ''delete_failed_or_directory_not_empty'' f
      else let f = sys_unlink p f;
               (ok, f) = (if regular then remove_owned_presentation Q (butlast p) (last p) f else (True, f)) in
      if \<not> ok then ffail ''presentation_cleanup_failed'' f
      else let (ok, f) = poll f in
      if ok then (True, f) else ffail ''flush_failed'' f)"

definition remove :: "env \<Rightarrow> string \<Rightarrow> fsys \<Rightarrow> bool \<times> fsys" where
  "remove Q path f =
     (let (e, f) = parent_dir path False f in
      if e \<noteq> None then
        (if e = Some ENOENT then
           (let (ok, f) = intact f in if ok then (True, f\<lparr>ferror := []\<rparr>) else (False, f))
         else (False, f))
      else let (ok, f) = poll f in
      if \<not> ok then ffail ''stat_failed'' f
      else (case map_of (names f) (comps path) of
              None \<Rightarrow>
                (let (ok, f) = remove_owned_presentation Q (butlast (comps path)) (last (comps path)) f in
                 if ok then (True, f) else ffail ''stat_failed'' f)
            | Some Special \<Rightarrow> ffail ''symlink_or_special_file'' f
            | Some (Dir i v) \<Rightarrow>
                (let (ns, f) = fs_list path f in
                 case ns of
                   None \<Rightarrow> (False, f)
                 | Some ns \<Rightarrow>
                     if ns = [''.iisacc-temporary.lock''] then
                       (let (ok, f) = poll f in
                        if \<not> ok \<or> \<not> lease_idle f (comps path) then ffail ''directory_in_use'' f
                        else let id = new_uuid Q (fuuid f) in
                        detach path (''.society-sync/detached/empty-'' @ id) (f\<lparr>fuuid := Suc (fuuid f)\<rparr>))
                     else unlink_entry Q (comps path) False f)
            | Some (File i) \<Rightarrow>
                (let (ok, f) = (if starts_with ''.society-sync/'' path then (True, f) else archive Q path f) in
                 if \<not> ok then (False, f) else unlink_entry Q (comps path) True f)))"

fun exact_parts :: "env \<Rightarrow> string list \<Rightarrow> string list \<Rightarrow> fsys \<Rightarrow> bool \<times> fsys" where
  "exact_parts Q pre [] f = (True, f)"
| "exact_parts Q pre (part # parts) f =
     (let (ns, f) = fs_list (qjoin (CHR ''/'') pre) f in
      case ns of
        None \<Rightarrow> (False, f)
      | Some ns \<Rightarrow>
          if part \<in> set ns then exact_parts Q (pre @ [part]) parts f
          else (let (st, f) = fs_state Q (qjoin (CHR ''/'') (pre @ [part])) f in
                case st of
                  None \<Rightarrow> (False, f)
                | Some st \<Rightarrow> if fkind st = ''deleted'' then (True, f)
                             else ffail ''filename_normalization_collision'' f))"

definition exact_path :: "env \<Rightarrow> string \<Rightarrow> fsys \<Rightarrow> bool \<times> fsys" where
  "exact_path Q path f = exact_parts Q [] (comps path) f"

section \<open>Files are kept\<close>

text \<open>
  \<open>grows\<close> relates the states around an operation that only adds names: every file keeps its
  names, and its bytes unless it was empty. \<open>keeps\<close> is the promise of the whole layer: an
  inode with a name in a safe place (outside \<open>.society-sync\<close> and not a provider
  presentation, or below \<open>recovery\<close> or \<open>detached\<close>) has one afterwards, with the same
  bytes. \<open>still\<close> relates the states around a read.
\<close>

definition file_at :: "fsys \<Rightarrow> string list \<Rightarrow> nat \<Rightarrow> bool" where
  "file_at f p i \<longleftrightarrow> map_of (names f) p = Some (File i)"

definition ino_bound :: "fsys \<Rightarrow> bool" where
  "ino_bound f \<longleftrightarrow> (\<forall>p i. (p, File i) \<in> set (names f) \<longrightarrow> i < next_ino f)"

definition grows :: "fsys \<Rightarrow> fsys \<Rightarrow> bool" where
  "grows f g \<longleftrightarrow> (ino_bound f \<longrightarrow> ino_bound g \<and> next_ino f \<le> next_ino g
     \<and> (\<forall>p i. file_at f p i \<longrightarrow> file_at g p i \<and> (content f i \<noteq> [] \<longrightarrow> content g i = content f i)))"

lemma grows_refl: "grows f f" by (simp add: grows_def)
lemma grows_trans: "grows f g \<Longrightarrow> grows g h \<Longrightarrow> grows f h"
  unfolding grows_def by (metis dual_order.trans)

interpretation grow: op_rel grows
  by unfold_locales (auto intro: grows_refl grows_trans)

lemma snd_ffail [simp]: "snd (ffail m f) = f\<lparr>ferror := m\<rparr>" by (simp add: ffail_def)
lemma fst_ffail [simp]: "fst (ffail m f) = False" by (simp add: ffail_def)

lemma ffail_eq [simp]: "ffail m f = (b, g) \<longleftrightarrow> \<not> b \<and> g = f\<lparr>ferror := m\<rparr>"
  by (auto simp: ffail_def)

lemma ino_bound_fields [simp]:
  "ino_bound (f\<lparr>ferror := m\<rparr>) = ino_bound f" "ino_bound (f\<lparr>fuuid := n\<rparr>) = ino_bound f"
  "ino_bound (f\<lparr>sysfault := b\<rparr>) = ino_bound f"
  by (auto simp: ino_bound_def file_at_def)

lemma grows_fields [simp]:
  "grows f (g\<lparr>ferror := m\<rparr>) = grows f g" "grows f (g\<lparr>fuuid := n\<rparr>) = grows f g"
  "grows f (g\<lparr>sysfault := b\<rparr>) = grows f g"
  by (auto simp: grows_def ino_bound_def file_at_def content_def)
lemma grows_fields' [simp]:
  "grows (f\<lparr>ferror := m\<rparr>) g = grows f g" "grows (f\<lparr>fuuid := n\<rparr>) g = grows f g"
  "grows (f\<lparr>sysfault := b\<rparr>) g = grows f g"
  by (auto simp: grows_def ino_bound_def file_at_def content_def)

lemma grows_poll [simp]: "grows f (snd (poll f))"
  by (auto simp: poll_def split: list.split)

lemma content_cong: "inodes g = inodes f \<Longrightarrow> content g = content f"
  by (simp add: content_def fun_eq_iff)

lemma touch_dir_fields [simp]:
  "inodes (touch_dir p f) = inodes f" "next_ino (touch_dir p f) = next_ino f"
  by (auto simp: touch_dir_def split: option.split node.split)

lemma file_at_touch_dir [simp]: "file_at (touch_dir p f) q i = file_at f q i"
  by (auto simp: touch_dir_def file_at_def split: option.split node.split)

lemma content_touch_dir [simp]: "content (touch_dir p f) = content f"
  by (rule content_cong) simp

lemma ino_bound_upsert:
  "ino_bound f \<Longrightarrow> (\<And>i. n = File i \<Longrightarrow> i < next_ino f) \<Longrightarrow> ino_bound (f\<lparr>names := upsert p n (names f)\<rparr>)"
  using set_upsert_subset [of p n "names f"] by (auto simp: ino_bound_def)

lemma ino_bound_touch_dir: "ino_bound f \<Longrightarrow> ino_bound (touch_dir p f)"
  by (auto simp: touch_dir_def intro!: ino_bound_upsert split: option.split node.split)

lemma ino_bound_at: "ino_bound f \<Longrightarrow> file_at f p i \<Longrightarrow> i < next_ino f"
  by (auto simp: ino_bound_def file_at_def dest: map_of_SomeD)

lemma grows_touch_dir: "grows f g \<Longrightarrow> grows f (touch_dir p g)"
  by (simp add: grows_def ino_bound_touch_dir)

lemma content_names [simp]: "content (f\<lparr>names := ns\<rparr>) = content f" "content (f\<lparr>next_ino := n\<rparr>) = content f"
  by (rule content_cong, simp)+

lemma grows_link:
  assumes "map_of (names f) p = None" "\<And>i. n = File i \<Longrightarrow> ino_bound f \<Longrightarrow> i < next_ino f"
  shows "grows f (sys_link p n f)"
  using assms unfolding sys_link_def
  by (intro grows_touch_dir) (auto simp: grows_def file_at_def intro: ino_bound_upsert)

lemma content_upsert: "content (f\<lparr>inodes := upsert i c (inodes f)\<rparr>) j = (if j = i then fst c else content f j)"
  by (simp add: content_def)

lemma grows_new_ino:
  "grows f (f\<lparr>inodes := upsert (next_ino f) c (inodes f), next_ino := Suc (next_ino f)\<rparr>)"
  "grows f (f\<lparr>next_ino := Suc (next_ino f)\<rparr>)"
  using ino_bound_at [of f] unfolding grows_def
  by (auto simp: ino_bound_def file_at_def content_def less_SucI dest: less_irrefl_nat) 

lemma grows_create: "map_of (names f) p = None \<Longrightarrow> grows f (snd (sys_create p f))"
  unfolding sys_create_def Let_def snd_conv
  by (rule grow.trans [OF grows_new_ino(1) grows_link]) auto

lemma grows_mkdir: "map_of (names f) p = None \<Longrightarrow> grows f (sys_mkdir p f)"
  unfolding sys_mkdir_def Let_def snd_conv
  by (rule grow.trans [OF grows_new_ino(2) grows_link]) auto

lemma grows_touch_inode [simp]: "grows f (touch_inode i g) = grows f g"
proof -
  have "file_at (touch_inode i g) = file_at g" "content (touch_inode i g) = content g"
    "next_ino (touch_inode i g) = next_ino g" "names (touch_inode i g) = names g"
    by (auto simp: touch_inode_def file_at_def content_def fun_eq_iff)
  then show ?thesis by (simp add: grows_def ino_bound_def)
qed

lemma grows_intact [simp]: "grows f (snd (intact f))"
  unfolding intact_def Let_def by (intro grow.call grow.cond) auto

lemma grows_open_dir [simp]: "grows f (snd (open_dir p f))"
  unfolding open_dir_def Let_def by (intro grow.call grow.cond) (auto split: option.split)

lemma grows_open_node [simp]: "grows f (snd (open_node c p f))"
  unfolding open_node_def Let_def by (intro grow.call grow.cond) (auto split: option.split node.split intro!: grow.call grows_create)

lemma grows_mkdir_parts [simp]: "grows f (snd (mkdir_parts pre ps f))"
proof (induction pre ps f rule: mkdir_parts.induct)
  case (2 pre part parts f)
  show ?case
    unfolding mkdir_parts.simps Let_def
    by (intro grow.call grow.cond)
      (auto intro!: grow.call grow.cond 2 intro: grow.trans [OF grows_mkdir] split: if_splits)
qed simp

lemma grows_mkdir_op [simp]: "grows f (snd (mkdir p f))"
  unfolding mkdir_def by (intro grow.cond) auto

lemma grows_parent_dir [simp]: "grows f (snd (parent_dir p c f))"
  unfolding parent_dir_def Let_def by (intro grow.call grow.cond) (auto split: if_splits)

lemma grows_fs_state [simp]: "grows f (snd (fs_state Q p f))"
  unfolding fs_state_def Let_def
  by (intro grow.call grow.cond) (auto split: option.split node.split)

lemma grows_fs_list [simp]: "grows f (snd (fs_list p f))"
  unfolding fs_list_def Let_def by (intro grow.call grow.cond) auto

lemma poll_frame: "poll f = (ok, g) \<Longrightarrow> \<exists>b. g = f\<lparr>sysfault := b\<rparr>"
  by (auto simp: poll_def split: list.splits) (metis fsys.surjective fsys.update_convs(7))

lemma content_sysfault [simp]: "content (f\<lparr>sysfault := b\<rparr>) = content f" "content (f\<lparr>ferror := m\<rparr>) = content f"
  "content (f\<lparr>fuuid := n\<rparr>) = content f"
  by (rule content_cong, simp)+

lemma grows_write: "content f i = [] \<Longrightarrow> grows f (sys_write i bytes f)"
  by (auto simp: grows_def sys_write_def content_upsert ino_bound_def file_at_def)

lemmas grows_chain [intro!] =
  grow.trans [OF _ grows_poll] grow.trans [OF _ grows_intact] grow.trans [OF _ grows_open_dir]
  grow.trans [OF _ grows_open_node] grow.trans [OF _ grows_mkdir_op] grow.trans [OF _ grows_parent_dir]
  grow.trans [OF _ grows_write] grow.trans [OF _ grows_link]

lemma grows_fs_read [simp]: "grows f (snd (fs_read Q p off len st f))"
  unfolding fs_read_def Let_def
  by (intro grow.call grows_chain) (auto split: option.split node.split intro!: grow.call grow.cond)

lemma grows_fs_hash [simp]: "grows f (snd (fs_hash Q p st f))"
  unfolding fs_hash_def Let_def
  by (intro grow.call grows_chain) (auto split: option.split node.split intro!: grow.call grow.cond)

lemma grows_append_start [simp]: "grows f (snd (fs_append p 0 bytes f))"
  unfolding fs_append_def Let_def
  by (intro grow.call grows_chain) (auto split: option.split node.split intro!: grow.call grow.cond
      dest!: poll_frame)

lemma file_at_bound: "map_of (names f) p = Some (File i) \<Longrightarrow> ino_bound f \<Longrightarrow> i < next_ino f"
  by (auto simp: ino_bound_def dest: map_of_SomeD)

lemma grows_preserve [simp]: "grows f (snd (preserve p c f))"
  unfolding preserve_def Let_def
  by (intro grow.call grow.cond grows_chain)
    (auto split: option.split node.split intro!: grow.call grow.cond dest!: poll_frame,
      blast intro: file_at_bound)

lemma grows_archive [simp]: "grows f (snd (archive Q p f))"
  unfolding archive_def Let_def
  by (intro grow.call grow.cond grow.trans [OF _ grows_preserve] grow.trans [OF _ grows_append_start]) auto

definition safe_path :: "string list \<Rightarrow> bool" where
  "safe_path p \<longleftrightarrow>
     (if p \<noteq> [] \<and> hd p = ''.society-sync'' then 2 \<le> length p \<and> p ! 1 \<in> {''recovery'', ''detached''}
      else p \<noteq> [] \<and> \<not> (starts_with ''.'' (last p) \<and> ends_with ''.iisacc-preview'' (last p)))"

definition held :: "fsys \<Rightarrow> nat \<Rightarrow> bool" where
  "held f i \<longleftrightarrow> (\<exists>p. safe_path p \<and> file_at f p i)"

definition keeps :: "fsys \<Rightarrow> fsys \<Rightarrow> bool" where
  "keeps f g \<longleftrightarrow> (ino_bound f \<longrightarrow> ino_bound g
     \<and> (\<forall>i. held f i \<longrightarrow> held g i \<and> (content f i \<noteq> [] \<longrightarrow> content g i = content f i)))"

lemma keeps_trans: "keeps f g \<Longrightarrow> keeps g h \<Longrightarrow> keeps f h"
  unfolding keeps_def by metis

interpretation keep: op_rel keeps
  by unfold_locales (auto intro: keeps_trans simp: keeps_def)

lemma grows_keeps: "grows f g \<Longrightarrow> keeps f g"
  unfolding grows_def keeps_def held_def by blast

lemma keeps_chain: "keeps f g \<Longrightarrow> grows g h \<Longrightarrow> keeps f h"
  by (blast intro: keeps_trans grows_keeps)

lemma sys_link_at [simp]: "file_at (sys_link p n f) q i = (if q = p then n = File i else file_at f q i)"
  by (auto simp: sys_link_def) (auto simp: file_at_def)

lemma file_at_fields [simp]: "file_at (f\<lparr>ferror := m\<rparr>) = file_at f" "file_at (f\<lparr>fuuid := n\<rparr>) = file_at f"
  "file_at (f\<lparr>sysfault := b\<rparr>) = file_at f" "file_at (touch_inode j f) = file_at f"
  "file_at (f\<lparr>inodes := c\<rparr>) = file_at f"
  by (auto simp: file_at_def fun_eq_iff touch_inode_def)

lemma comps_recovery: "comps (recovery_name Q f) = ''.society-sync'' # ''recovery'' # comps (new_uuid Q (fuuid f))"
  by (simp add: recovery_name_def)

lemma safe_recovery: "safe_path (comps (recovery_name Q f))"
  by (simp add: comps_recovery safe_path_def)

text \<open>A successful copy gives the file a second name, and the two names differ.\<close>

lemma preserve_links:
  assumes "preserve p c f = (True, g)" "ino_bound f" "file_at f (comps p) i"
  shows "file_at g (comps c) i \<and> comps c \<noteq> comps p"
proof -
  obtain f1 f2 where f1: "parent_dir p False f = (None, f1)" and f2: "parent_dir c True f1 = (None, f2)"
    using assms(1) by (auto simp: preserve_def Let_def split: prod.splits if_splits)
  have "grows f f2"
    using grows_parent_dir [of f p False] grows_parent_dir [of f1 c True] f1 f2 by (auto intro: grow.trans)
  then have "file_at f2 (comps p) i" using assms by (auto simp: grows_def)
  then show ?thesis using assms(1) f1 f2
    by (auto simp: preserve_def Let_def file_at_def [of f2] split: prod.splits if_splits dest!: poll_frame)
qed

lemma archive_links:
  assumes "archive Q p f = (True, g)" "ino_bound f" "file_at f (comps p) i"
  shows "\<exists>q. q \<noteq> comps p \<and> safe_path q \<and> file_at g q i"
proof -
  let ?c = "recovery_name Q f" and ?f = "f\<lparr>fuuid := Suc (fuuid f)\<rparr>"
  obtain h where h: "preserve p ?c ?f = (True, h)" "fs_append (?c @ ''.json'') 0 (archive_note Q p ?c) h = (True, g)"
    using assms(1) by (auto simp: archive_def Let_def split: prod.splits if_splits)
  have "file_at h (comps ?c) i \<and> comps ?c \<noteq> comps p"
    using preserve_links [OF h(1)] assms(2,3) by simp
  moreover have "grows ?f h" using grows_preserve [of ?f p ?c] h by simp
  then have "ino_bound h" using assms(2) by (simp add: grows_def)
  moreover have "grows h g" using grows_append_start [of h "?c @ ''.json''" "archive_note Q p ?c"] h by simp
  ultimately show ?thesis using safe_recovery [of Q f] by (auto simp: grows_def)
qed

lemma sys_unlink_at [simp]: "file_at (sys_unlink p f) q i \<longleftrightarrow> q \<noteq> p \<and> file_at f q i"
  by (auto simp: sys_unlink_def) (auto simp: file_at_def map_of_filter_key split: if_splits)

lemma content_sys_unlink [simp]: "content (sys_unlink p f) = content f" "next_ino (sys_unlink p f) = next_ino f"
  by (simp_all add: sys_unlink_def)

lemma keeps_unlink:
  assumes "\<And>i. ino_bound f \<Longrightarrow> safe_path p \<Longrightarrow> file_at f p i \<Longrightarrow> \<exists>q. q \<noteq> p \<and> safe_path q \<and> file_at f q i"
  shows "keeps f (sys_unlink p f)"
proof -
  have "held (sys_unlink p f) i" if "ino_bound f" "held f i" for i
    using that assms unfolding held_def by (metis sys_unlink_at)
  moreover have "ino_bound (sys_unlink p f)" if "ino_bound f"
    using that unfolding sys_unlink_def by (intro ino_bound_touch_dir) (auto simp: ino_bound_def)
  ultimately show ?thesis by (auto simp: keeps_def)
qed

lemma keeps_fields [simp]:
  "keeps f (g\<lparr>ferror := m\<rparr>) = keeps f g" "keeps f (g\<lparr>sysfault := b\<rparr>) = keeps f g" "keeps f (g\<lparr>fuuid := n\<rparr>) = keeps f g"
  by (auto simp: keeps_def held_def)

lemmas keeps_ops [intro!] =
  keeps_chain [OF _ grows_poll] keeps_chain [OF _ grows_intact] keeps_chain [OF _ grows_open_dir]
  keeps_chain [OF _ grows_parent_dir] keeps_chain [OF _ grows_fs_list] keeps_chain [OF _ grows_archive]
  keeps_chain [OF _ grows_fs_state] keeps_chain [OF _ grows_fs_hash] keeps_chain [OF _ grows_fs_read]
  keeps_chain [OF _ grows_mkdir_op] keeps_chain [OF _ grows_preserve] keeps_chain [OF _ grows_append_start]

text \<open>The places where a removed entry's presentation is not content of the user.\<close>

definition sweepable :: "string list \<Rightarrow> bool" where
  "sweepable p \<longleftrightarrow> 2 \<le> length p \<and> (hd p \<noteq> ''.society-sync'' \<or> (3 \<le> length p \<and> p ! 1 \<notin> {''recovery'', ''detached''}))"

lemma not_safe_preview: "sweepable p \<Longrightarrow> \<not> safe_path (butlast p @ [preview_name n])"
proof -
  assume p: "sweepable p"
  then have "hd (butlast p @ [preview_name n]) = hd p" "butlast p \<noteq> []"
    by (cases p; auto simp: sweepable_def)+
  moreover have "ends_with ''.iisacc-preview'' (preview_name n)"
    using p by (simp add: preview_name_def ends_with_def)
  moreover have "3 \<le> length p \<Longrightarrow> (butlast p @ [preview_name n]) ! 1 = p ! 1"
    by (subst nth_append) (auto simp: nth_butlast)
  ultimately show ?thesis
    using p by (auto simp: sweepable_def safe_path_def preview_name_def starts_with_def)
qed

lemma keeps_remove_presentation:
  assumes "sweepable p"
  shows "keeps f (snd (remove_owned_presentation Q (butlast p) n f))"
  using not_safe_preview [OF assms, of n]
  unfolding remove_owned_presentation_def Let_def
  by (intro keep.call keep.cond keeps_ops)
    (auto split: option.split node.split intro!: keep.call keep.cond keeps_unlink dest!: poll_frame)

lemma keeps_unlink_chain:
  assumes "keeps f g" "\<And>i. ino_bound g \<Longrightarrow> safe_path p \<Longrightarrow> file_at g p i \<Longrightarrow> \<exists>q. q \<noteq> p \<and> safe_path q \<and> file_at g q i"
  shows "keeps f (sys_unlink p g)"
  using keep.trans [OF assms(1) keeps_unlink] assms(2) by blast

lemma intact_frame: "intact f = (ok, g) \<Longrightarrow> \<exists>b m. g = f\<lparr>sysfault := b, ferror := m\<rparr>"
  by (auto simp: intact_def Let_def split: prod.splits if_splits dest!: poll_frame)
    (metis fsys.surjective fsys.update_convs(5) fsys.update_convs(7))+

lemma keeps_unlink_entry:
  assumes "sweepable p"
    "\<And>i. ino_bound f \<Longrightarrow> safe_path p \<Longrightarrow> file_at f p i \<Longrightarrow> \<exists>q. q \<noteq> p \<and> safe_path q \<and> file_at f q i"
  shows "keeps f (snd (unlink_entry Q p r f))"
  using assms unfolding unlink_entry_def Let_def
  apply (intro keep.call keep.cond keeps_ops)
  apply (auto split: option.split node.split intro!: keep.call keep.cond keeps_unlink_chain 
   keep.trans [OF _ keeps_remove_presentation] dest!: poll_frame intact_frame)
  done

definition staging :: "string list \<Rightarrow> bool" where
  "staging p \<longleftrightarrow> 2 \<le> length p \<and> hd p = ''.society-sync'' \<and> p ! 1 \<notin> {''recovery'', ''detached''}"

lemma staging_not_safe: "staging p \<Longrightarrow> \<not> safe_path (p @ r)"
  by (cases p; cases "tl p") (auto simp: staging_def safe_path_def)

lemma staging_not_safe' [simp]: "staging p \<Longrightarrow> \<not> safe_path p"
  using staging_not_safe [of p "[]"] by simp

lemma moved_path_inj:
  assumes "moved_path src dst q1 = moved_path src dst q2" "take (length dst) q1 \<noteq> dst" "take (length dst) q2 \<noteq> dst"
  shows "q1 = q2"
proof (cases "take (length src) q1 = src"; cases "take (length src) q2 = src")
  assume "take (length src) q1 = src" "take (length src) q2 = src"
  with assms(1) show ?thesis by (metis append_take_drop_id moved_path_def same_append_eq)
next
  assume "take (length src) q1 = src" "take (length src) q2 \<noteq> src"
  with assms show ?thesis by (auto simp: moved_path_def)
next
  assume "take (length src) q1 \<noteq> src" "take (length src) q2 = src"
  with assms show ?thesis by (auto simp: moved_path_def)
qed (use assms in \<open>simp add: moved_path_def\<close>)

lemma map_of_moved:
  assumes "list_all (\<lambda>(q, n). take (length dst) q \<noteq> dst) ns" "take (length dst) q \<noteq> dst"
  shows "map_of (map (\<lambda>(q, n). (moved_path src dst q, n)) ns) (moved_path src dst q) = map_of ns q"
  using assms by (induction ns) (auto dest: moved_path_inj)

lemma map_of_moved_Some:
  "map_of (map (\<lambda>(q, n). (moved_path src dst q, n)) ns) p = Some n \<Longrightarrow> \<exists>q. (q, n) \<in> set ns \<and> p = moved_path src dst q"
  by (auto dest!: map_of_SomeD)

lemma rename_at_dir:
  assumes "map_of (names f) src = Some (Dir d v)" "rename_ok f src dst" "file_at f q i"
  shows "file_at (sys_rename src dst f) (moved_path src dst q) i"
proof -
  have l: "list_all (\<lambda>(q, n). take (length dst) q \<noteq> dst) (names f)"
    using assms by (simp add: rename_ok_def)
  then have "take (length dst) q \<noteq> dst"
    using assms(3) by (auto simp: file_at_def list_all_iff dest: map_of_SomeD)
  with assms l show ?thesis
    by (simp add: sys_rename_def same_file_def file_at_def moved_names_def map_of_moved flip: file_at_def)
      (simp add: file_at_def map_of_moved)
qed

lemma content_rename [simp]: "content (sys_rename src dst f) = content f"
  by (simp add: sys_rename_def)

lemma next_ino_rename [simp]: "next_ino (sys_rename src dst f) = next_ino f"
  by (simp add: sys_rename_def)

lemma rename_at_file:
  assumes "map_of (names f) src = Some n" "\<And>d v. n \<noteq> Dir d v"
  shows "file_at (sys_rename src dst f) q i \<longleftrightarrow>
    (if same_file f src dst then file_at f q i
     else if q = dst then n = File i else q \<noteq> src \<and> file_at f q i)"
proof -
  have "moved_names f src dst = (dst, n) # filter (\<lambda>(q, m). q \<noteq> dst) (filter (\<lambda>(q, m). q \<noteq> src) (names f))"
    using assms by (cases n) (auto simp: moved_names_def)
  then show ?thesis
    by (auto simp: sys_rename_def simp del: filter_filter)
      (auto simp: file_at_def map_of_filter_key simp del: filter_filter split: if_splits)
qed

lemma ino_bound_rename: "ino_bound f \<Longrightarrow> ino_bound (sys_rename src dst f)"
  by (auto simp: sys_rename_def intro!: ino_bound_touch_dir)
    (auto simp: ino_bound_def moved_names_def split: option.split node.split dest: map_of_SomeD)

lemma keeps_rename:
  assumes ok: "rename_ok f src dst"
    and move: "\<And>r. safe_path (src @ r) \<Longrightarrow> safe_path (dst @ r)"
    and repl: "\<And>i. ino_bound f \<Longrightarrow> safe_path dst \<Longrightarrow> file_at f dst i \<Longrightarrow>
      \<exists>q. q \<noteq> dst \<and> q \<noteq> src \<and> safe_path q \<and> file_at f q i"
  shows "keeps f (sys_rename src dst f)"
proof -
  obtain n where n: "map_of (names f) src = Some n"
    using ok by (auto simp: rename_ok_def split: option.splits)
  have "held (sys_rename src dst f) i" if b: "ino_bound f" and h: "held f i" for i
  proof (cases "\<exists>d v. n = Dir d v")
    case True
    obtain q where q: "safe_path q" "file_at f q i" using h by (auto simp: held_def)
    have "safe_path (moved_path src dst q)"
      using q(1) move by (metis append_take_drop_id moved_path_def)
    with True n rename_at_dir [OF _ ok q(2)] show ?thesis by (auto simp: held_def)
  next
    case False
    obtain q where q: "safe_path q" "file_at f q i" using h by (auto simp: held_def)
    have at: "file_at (sys_rename src dst f) p i \<longleftrightarrow>
      (if same_file f src dst then file_at f p i
       else if p = dst then n = File i else p \<noteq> src \<and> file_at f p i)" for p
      using False by (intro rename_at_file [OF n]) auto
    consider "same_file f src dst \<or> (q \<noteq> src \<and> q \<noteq> dst)" | "\<not> same_file f src dst" "q = dst" | "\<not> same_file f src dst" "q = src"
      by blast
    then show ?thesis
    proof cases
      case 1
      with q(2) have "file_at (sys_rename src dst f) q i"
        unfolding at [of q] by (cases "same_file f src dst") auto
      with q(1) show ?thesis by (auto simp: held_def)
    next
      case 2
      with q repl [of i] b at show ?thesis by (auto simp: held_def)
    next
      case 3
      then have "n = File i" "safe_path dst" using q n move [of "[]"] by (auto simp: file_at_def)
      with 3 at [of dst] show ?thesis by (auto simp: held_def)
    qed
  qed
  then show ?thesis by (auto simp: keeps_def ino_bound_rename)
qed


lemma keeps_rename_chain:
  assumes "keeps f g" "rename_ok g src dst"
    "\<And>r. safe_path (src @ r) \<Longrightarrow> safe_path (dst @ r)"
    "\<And>i. ino_bound g \<Longrightarrow> safe_path dst \<Longrightarrow> file_at g dst i \<Longrightarrow>
      \<exists>q. q \<noteq> dst \<and> q \<noteq> src \<and> safe_path q \<and> file_at g q i"
  shows "keeps f (sys_rename src dst g)"
  using keep.trans [OF assms(1) keeps_rename] assms(2-) by blast

lemma rename_ok_fields [simp]:
  "rename_ok (f\<lparr>sysfault := b\<rparr>) = rename_ok f" "rename_ok (f\<lparr>ferror := m\<rparr>) = rename_ok f"
  by (intro ext; simp add: rename_ok_def cong: option.case_cong node.case_cong)+

lemma comps_detached: "starts_with ''.society-sync/detached/'' d \<Longrightarrow>
   \<exists>r. comps d = ''.society-sync'' # ''detached'' # r"
  by (auto simp: starts_with_iff)

lemma safe_detached: "starts_with ''.society-sync/detached/'' d \<Longrightarrow> safe_path (comps d @ r)"
  using comps_detached [of d] by (auto simp: safe_path_def)

lemma keeps_detach: "keeps f (snd (detach p d f))"
proof (cases "starts_with ''.society-sync/detached/'' d")
  case True
  show ?thesis
    using safe_detached [OF True] True unfolding detach_def Let_def
    by (intro keep.call keep.cond keeps_ops)
      (auto intro!: keep.call keep.cond keeps_ops keeps_rename_chain dest!: poll_frame intact_frame
        simp: file_at_def)
qed (simp add: detach_def)

lemma archive_step:
  assumes "archive Q p f = (True, g)" "file_at f (comps p) i" "staging s"
  shows "ino_bound f \<Longrightarrow> \<exists>q. q \<noteq> comps p \<and> q \<noteq> s \<and> safe_path q \<and> file_at g q i"
  using archive_links [OF assms(1) _ assms(2)] staging_not_safe' [OF assms(3)] by blast

lemma archive_keeps_name:
  assumes "archive Q p f = (ok, g)" "ino_bound f" "file_at f q i"
  shows "file_at g q i"
  using grows_archive [of f Q p] assms by (simp add: grows_def)

lemma ino_bound_parent_dir: "parent_dir p c f = (e, g) \<Longrightarrow> ino_bound f \<Longrightarrow> ino_bound g"
  using grows_parent_dir [of f p c] by (simp add: grows_def)

lemma keepsI: "(ino_bound f \<Longrightarrow> keeps f g) \<Longrightarrow> keeps f g"
  by (auto simp: keeps_def)

lemma keeps_install:
  assumes "staging (comps src)"
  shows "keeps f (snd (install Q src dst f))"
proof (rule keepsI)
  assume b: "ino_bound f"
  have copy: "\<exists>q. q \<noteq> comps dst \<and> q \<noteq> comps src \<and> safe_path q \<and> map_of (names fc) q = Some (File i)"
    if "parent_dir src False (f\<lparr>sysfault := ba, ferror := ma\<rparr>) = (None, fa)" "parent_dir dst True fa = (None, fb)"
      "map_of (names fb) (comps dst) = Some (File x1)" "archive Q dst fb = (True, fc)"
      "map_of (names fc) (comps dst) = Some (File i)" for fa fb fc x1 ba ma i
  proof -
    have fb: "ino_bound fb" using ino_bound_parent_dir that(1,2) b by (metis ino_bound_fields(1,3))
    moreover have "i = x1" using archive_keeps_name [OF that(4) fb] that(3,5) by (auto simp: file_at_def)
    ultimately show ?thesis using archive_step [OF that(4) _ assms] that(3) by (auto simp: file_at_def)
  qed
  show "keeps f (snd (install Q src dst f))"
    using staging_not_safe [OF assms] unfolding install_def Let_def
    by (intro keep.call keep.cond keeps_ops)
      (auto intro!: keep.call keep.cond keeps_ops keeps_rename_chain dest!: poll_frame intact_frame
        simp: file_at_def split: option.splits node.splits dest: copy)
qed

text \<open>Reading changes neither names nor contents.\<close>

definition still :: "fsys \<Rightarrow> fsys \<Rightarrow> bool" where
  "still f g \<longleftrightarrow> names g = names f \<and> inodes g = inodes f \<and> next_ino g = next_ino f
     \<and> fuuid g = fuuid f \<and> alive g = alive f"

interpretation still: op_rel still
  by unfold_locales (auto simp: still_def)

lemma still_fields [simp]: "still f (g\<lparr>ferror := m\<rparr>) = still f g" "still f (g\<lparr>sysfault := b\<rparr>) = still f g"
  by (auto simp: still_def)

lemma still_poll [simp]: "still f (snd (poll f))"
  by (auto simp: poll_def split: list.split)

lemma still_intact [simp]: "still f (snd (intact f))"
  unfolding intact_def Let_def by (intro still.call still.cond) auto

lemma still_open_dir [simp]: "still f (snd (open_dir p f))"
  unfolding open_dir_def Let_def by (intro still.call still.cond) (auto split: option.split)

lemma still_parent_dir [simp]: "still f (snd (parent_dir p False f))"
  unfolding parent_dir_def Let_def by (auto intro!: still.call still.cond)

lemma still_fs_list [simp]: "still f (snd (fs_list p f))"
  unfolding fs_list_def Let_def by (intro still.call still.cond) auto

lemma still_fs_state [simp]: "still f (snd (fs_state Q p f))"
  unfolding fs_state_def Let_def by (intro still.call still.cond) (auto split: option.split node.split)

lemma stillD: "still f (snd m) \<Longrightarrow> m = (x, g) \<Longrightarrow> names g = names f"
  by (simp add: still_def)

lemma keeps_fields' [simp]:
  "keeps (f\<lparr>ferror := m\<rparr>) g = keeps f g" "keeps (f\<lparr>sysfault := b\<rparr>) g = keeps f g" "keeps (f\<lparr>fuuid := n\<rparr>) g = keeps f g"
  by (auto simp: keeps_def held_def)

lemma keeps_remove:
  assumes "sweepable (comps p)" "starts_with ''.society-sync/'' p \<Longrightarrow> staging (comps p)"
  shows "keeps f (snd (remove Q p f))"
proof (rule keepsI)
  assume b: "ino_bound f"
  have copy: "\<exists>q. q \<noteq> comps p \<and> safe_path q \<and> map_of (names fb) q = Some (File i)"
    if "parent_dir p False f = (None, fa)" "map_of (names fa) (comps p) = Some (File x1)"
      "archive Q p (fa\<lparr>sysfault := ba\<rparr>) = (True, fb)" "map_of (names fb) (comps p) = Some (File i)" for fa ba fb x1 i
  proof -
    have fa: "ino_bound (fa\<lparr>sysfault := ba\<rparr>)" using ino_bound_parent_dir that(1) b by simp
    have at: "file_at (fa\<lparr>sysfault := ba\<rparr>) (comps p) x1" using that(2) by (simp add: file_at_def)
    have "i = x1" using archive_keeps_name [OF that(3) fa at] that(4) by (auto simp: file_at_def)
    then show ?thesis using archive_links [OF that(3) fa at] by (auto simp: file_at_def)
  qed
  show "keeps f (snd (remove Q p f))"
    using assms unfolding remove_def Let_def
    by (intro keep.call keep.cond keeps_ops)
      (auto intro!: keep.call keep.cond keeps_ops keep.trans [OF _ keeps_unlink_entry]
        keep.trans [OF _ keeps_detach] keep.trans [OF _ keeps_remove_presentation]
        dest!: poll_frame intact_frame stillD [OF still_fs_list] simp: file_at_def
        split: option.splits node.splits dest: copy)
qed

section \<open>Properties of the file layer\<close>

definition sample_files :: fsys where
  "sample_files = \<lparr>names = [([''.society-sync''], Dir 1 0), ([''.society-sync'', ''transfers''], Dir 2 0),
       ([''.society-sync'', ''recovery''], Dir 3 0), ([''Notes''], Dir 4 0), ([''Notes'', ''a''], File 5)],
     inodes = [(5, (''abc'', 0))], next_ino = 6, alive = True, ferror = [], fuuid = 0, sysfault = []\<rparr>"

lemma sample_ino_bound: "ino_bound sample_files"
  by (auto simp: ino_bound_def sample_files_def)


text \<open>C9: replacing a public file never loses content. \<open>install\<close> of a staged file links what it
  replaces into the recovery area first: whatever call fails, every non-empty file of the public
  tree and of the recovery area is afterwards still found there with the same bytes.\<close>

theorem install_safe:
  assumes "staging (comps source)" "ino_bound f" "safe_path p" "file_at f p i" "content f i \<noteq> []"
  shows "(\<exists>q. safe_path q \<and> file_at (snd (install Q source target f)) q i)
    \<and> content (snd (install Q source target f)) i = content f i"
  using keeps_install [OF assms(1), of f Q target] assms(2-) unfolding keeps_def held_def by blast

theorem install_safe_witness:
  "\<exists>q. safe_path q \<and> file_at (snd (install sample_env ''.society-sync/transfers/x'' ''Notes/a'' sample_files)) q 5"
proof -
  have "safe_path [''Notes'', ''a'']" "file_at sample_files [''Notes'', ''a''] 5" "content sample_files 5 \<noteq> []"
    "staging (comps ''.society-sync/transfers/x'')"
    by (simp_all add: safe_path_def starts_with_def file_at_def sample_files_def content_def staging_def)
  then show ?thesis using install_safe sample_ino_bound by blast
qed

text \<open>C10: deleting a public entry never loses content: \<open>remove\<close> archives a file before it unlinks
  the name, sets an idle directory aside, and refuses a directory that is not empty; under any
  failure every non-empty file stays reachable at a safe place with the same bytes.\<close>

theorem remove_safe:
  assumes "sweepable (comps path)" "starts_with ''.society-sync/'' path \<Longrightarrow> staging (comps path)"
    "ino_bound f" "safe_path p" "file_at f p i" "content f i \<noteq> []"
  shows "(\<exists>q. safe_path q \<and> file_at (snd (remove Q path f)) q i) \<and> content (snd (remove Q path f)) i = content f i"
  using keeps_remove [OF assms(1,2), of f Q] assms(3-) unfolding keeps_def held_def by blast

theorem remove_safe_witness: "\<exists>q. safe_path q \<and> file_at (snd (remove sample_env ''Notes/a'' sample_files)) q 5"
proof -
  have "safe_path [''Notes'', ''a'']" "file_at sample_files [''Notes'', ''a''] 5" "content sample_files 5 \<noteq> []"
    "sweepable (comps ''Notes/a'')" "\<not> starts_with ''.society-sync/'' ''Notes/a''"
    by (simp_all add: safe_path_def starts_with_def file_at_def sample_files_def content_def sweepable_def)
  then show ?thesis using remove_safe sample_ino_bound by blast
qed

lemma open_node_create: "open_node True path f = (Some (File i), g) \<Longrightarrow> file_at g (comps path) i"
  by (auto simp: open_node_def Let_def sys_create_def split: if_splits option.splits node.splits prod.splits
      dest!: poll_frame intact_frame) (auto simp: file_at_def)

text \<open>An accepted chunk is in the file. When \<open>append\<close> succeeds, the offset was no further than
  the end, and the file holds the chunk's bytes at that offset, whether they were written now
  or had been written by an earlier attempt.\<close>

theorem append_once:
  assumes "fs_append path offset bytes f = (True, g)"
  shows "\<exists>i. file_at g (comps path) i \<and> 0 \<le> offset \<and> offset \<le> int (length (content g i))
    \<and> take (length bytes) (drop (nat offset) (content g i)) = bytes"
proof -
  obtain n h where o: "open_node True path f = (n, h)" by (cases "open_node True path f")
  then obtain i where i: "n = Some (File i)"
    using assms by (auto simp: fs_append_def Let_def split: option.splits node.splits)
  have h: "file_at h (comps path) i" using open_node_create [OF o [unfolded i]] by simp
  show ?thesis
  proof (cases "offset < int (length (content h i))")
    case True
    then have "g = h" "0 \<le> offset" "take (length bytes) (drop (nat offset) (content h i)) = bytes"
      using assms o i by (auto simp: fs_append_def Let_def split: if_splits)
    with h True show ?thesis by auto
  next
    case False
    then show ?thesis
      using assms o i h
      by (auto simp: fs_append_def Let_def sys_write_def content_upsert split: if_splits prod.splits dest!: poll_frame
          intro!: exI [of _ i])
  qed
qed


theorem append_once_witness:
  "\<exists>i. take 2 (drop 1 (content (snd (fs_append ''Notes/a'' 1 ''bc'' sample_files)) i)) = ''bc''"
proof -
  have "relative ''Notes/a''" by (simp add: relative_def utf8_size_def starts_with_def)
  then have "open_node True ''Notes/a'' sample_files = (Some (File 5), sample_files)"
    by (simp add: open_node_def intact_def poll_def sample_files_def)
  moreover have "content sample_files 5 = ''abc''" by (simp add: content_def sample_files_def)
  ultimately have "fs_append ''Notes/a'' 1 ''bc'' sample_files = (True, sample_files)"
    by (simp add: fs_append_def Let_def)
  from append_once [OF this] this show ?thesis by (auto simp: numeral_2_eq_2)
qed

end
