(* ===== verification/Journal.thy ===== *)
theory Journal
  imports Samples
begin

text \<open>
  \<open>src/src/Sync/NamespaceJournal.cpp\<close>: the revision ledger of a container. The authority
  appends one revision for every change of an object, a mirror imports the authority's pages.
  The table \<open>namespace_revisions\<close> is the list \<open>revs\<close> in the order of its integer primary
  key, with the unique revision identifier, the path and the stored document of each row; the
  table \<open>object_locations\<close> is keyed by version and provider. Reads of the open local database
  succeed; \<open>sqlfault\<close> makes the next writing statements fail.
\<close>

section \<open>State\<close>

type_synonym rev_row = "int \<times> string \<times> string \<times> jobj"

record ledger =
  space :: string
  authority :: string
  revs :: "rev_row list"
  locations :: "((string \<times> string) \<times> jobj) list"
  jerror :: string
  sqlfault :: "bool list"

definition row_seq :: "rev_row \<Rightarrow> int" where "row_seq r = fst r"
definition row_id :: "rev_row \<Rightarrow> string" where "row_id r = fst (snd r)"
definition row_path :: "rev_row \<Rightarrow> string" where "row_path r = fst (snd (snd r))"
definition row_data :: "rev_row \<Rightarrow> jobj" where "row_data r = snd (snd (snd r))"

lemma row_simps [simp]:
  "row_seq (s, i, p, d) = s" "row_id (s, i, p, d) = i" "row_path (s, i, p, d) = p" "row_data (s, i, p, d) = d"
  by (simp_all add: row_seq_def row_id_def row_path_def row_data_def)

definition sql_ok :: "ledger \<Rightarrow> bool \<times> ledger" where
  "sql_ok l = (case sqlfault l of [] \<Rightarrow> (True, l) | b # bs \<Rightarrow> (\<not> b, l\<lparr>sqlfault := bs\<rparr>))"

definition jfail :: "string \<Rightarrow> ledger \<Rightarrow> bool \<times> ledger" where
  "jfail e l = (False, l\<lparr>jerror := e\<rparr>)"

section \<open>Helpers\<close>

definition rev_content :: "jobj \<Rightarrow> jobj" where
  "rev_content e = obj (map (\<lambda>k. (k, oget k e)) [''path'', ''kind'', ''size'', ''hash'', ''clock'', ''version''])"

definition projected :: "jobj \<Rightarrow> jobj" where
  "projected r = foldl (\<lambda>e k. oput k (oget k r) e) (jobject (oget ''object'' r))
     [''namespace'', ''authority'', ''revision'', ''sequence'']"

definition counter :: "json \<Rightarrow> int" where
  "counter v = (case to_ll (jstr v) of None \<Rightarrow> - 1
     | Some n \<Rightarrow> if 0 \<le> n \<and> n \<le> max_counter then n else - 1)"

definition rev_hash :: "env \<Rightarrow> jobj \<Rightarrow> string" where
  "rev_hash Q v = sha256 Q (json_bytes Q v)"

definition failure :: "string \<Rightarrow> jobj" where
  "failure e = obj [(''ok'', JBool False), (''error'', JStr e)]"

section \<open>Queries\<close>

definition ledger_state :: "ledger \<Rightarrow> jobj" where
  "ledger_state l = obj
     [(''namespace'', JStr (space l)), (''authority'', JStr (authority l)),
      (''sequence'', JStr (if revs l = [] then ''0'' else num_str (row_seq (last (revs l))))),
      (''head'', JStr (if revs l = [] then [] else row_id (last (revs l)))),
      (''namespaceVersion'', JNum 1)]"

definition revision :: "string \<Rightarrow> ledger \<Rightarrow> jobj" where
  "revision rid l = (case find (\<lambda>r. row_id r = rid) (revs l) of None \<Rightarrow> [] | Some r \<Rightarrow> row_data r)"

definition latest_row :: "string \<Rightarrow> rev_row list \<Rightarrow> rev_row option" where
  "latest_row path rows = find (\<lambda>r. row_path r = path) (rev rows)"

definition locations_of :: "string \<Rightarrow> ledger \<Rightarrow> json list" where
  "locations_of version l =
     map (\<lambda>r. JObj (snd r)) (sort_key (\<lambda>r. snd (fst r)) (filter (\<lambda>r. fst (fst r) = version) (locations l)))"

definition object :: "string \<Rightarrow> ledger \<Rightarrow> jobj" where
  "object path l = (case latest_row path (revs l) of
      None \<Rightarrow> []
    | Some r \<Rightarrow> (let result = projected (row_data r)
                in oput ''locations'' (JArr (locations_of (jstr (oget ''version'' result)) l)) result))"

definition contains_record :: "jobj \<Rightarrow> ledger \<Rightarrow> bool" where
  "contains_record record l =
     (let r = revision (jstr (oget ''revision'' record)) l
      in r \<noteq> [] \<and> oget ''namespace'' record = JStr (space l)
         \<and> oget ''authority'' record = JStr (authority l) \<and> projected r = record)"

section \<open>Updates\<close>

definition row_of :: "jobj \<Rightarrow> rev_row" where
  "row_of r = (counter (oget ''sequence'' r), jstr (oget ''revision'' r),
     jstr (oget ''path'' (jobject (oget ''object'' r))), r)"

definition append_revision :: "jobj \<Rightarrow> ledger \<Rightarrow> bool \<times> ledger" where
  "append_revision r l =
     (let row = row_of r; (ok, l) = sql_ok l in
      if \<not> ok \<or> list_ex (\<lambda>x. row_seq x = row_seq row \<or> row_id x = row_id row) (revs l)
      then jfail ''constraint'' l
      else (True, l\<lparr>revs := insort_key row_seq row (revs l)\<rparr>))"

definition clear_ledger :: "ledger \<Rightarrow> bool \<times> ledger" where
  "clear_ledger l =
     (let (ok, l) = sql_ok l in
      if \<not> ok then jfail ''delete'' l
      else let l = l\<lparr>revs := []\<rparr>; (ok, l) = sql_ok l in
      if \<not> ok then jfail ''delete'' l else (True, l\<lparr>locations := []\<rparr>))"

definition commit_parents :: "jobj \<Rightarrow> string \<Rightarrow> ledger \<Rightarrow> json list" where
  "commit_parents old base l =
     (if old \<noteq> [] then [oget ''revision'' old] else [])
     @ (if base \<noteq> [] \<and> oget ''revision'' old \<noteq> JStr base \<and> revision base l \<noteq> [] then [JStr base] else [])"

definition new_revision :: "env \<Rightarrow> jobj \<Rightarrow> int \<Rightarrow> string \<Rightarrow> string \<Rightarrow> ledger \<Rightarrow> jobj" where
  "new_revision Q record sequence proposal base l =
     (let old = object (jstr (oget ''path'' record)) l;
          r = obj [(''namespace'', JStr (space l)), (''authority'', JStr (authority l)),
                   (''sequence'', jnumstr sequence), (''previous'', oget ''head'' (ledger_state l)),
                   (''parents'', JArr (commit_parents old base l)), (''object'', JObj (rev_content record)),
                   (''proposal'', JStr proposal)]
      in oput ''revision'' (JStr (rev_hash Q r)) r)"

text \<open>The committed object, or the empty object on a failure.\<close>

definition commit :: "env \<Rightarrow> jobj \<Rightarrow> string \<Rightarrow> string \<Rightarrow> ledger \<Rightarrow> jobj \<times> ledger" where
  "commit Q record proposal base l =
     (let old = object (jstr (oget ''path'' record)) l in
      if oget ''version'' old = oget ''version'' record then (odel ''locations'' old, l)
      else let sequence = counter (oget ''sequence'' (ledger_state l)) + 1 in
      if sequence > max_counter \<or> \<not> valid_record Q record
      then ([], l\<lparr>jerror := ''invalid_namespace_commit''\<rparr>)
      else let r = new_revision Q record sequence proposal base l;
               (ok, l) = append_revision r l in
      if ok then (projected r, l) else ([], l))"

definition locate :: "string \<Rightarrow> jobj \<Rightarrow> ledger \<Rightarrow> bool \<times> ledger" where
  "locate version location l =
     (let (ok, l) = sql_ok l in
      if \<not> ok then jfail ''insert'' l
      else (True, l\<lparr>locations := upsert (version, jstr (oget ''provider'' location)) location (locations l)\<rparr>))"

section \<open>Pages\<close>

text \<open>The rows of the two queries, and the loop that fills a page of at most 256 KiB.\<close>

definition page_rows :: "int \<Rightarrow> int \<Rightarrow> bool \<Rightarrow> rev_row list \<Rightarrow> rev_row list" where
  "page_rows after through history rows =
     filter (\<lambda>r. after < row_seq r \<and> row_seq r \<le> through
        \<and> (history \<or> \<not> list_ex (\<lambda>newer. row_path newer = row_path r \<and> row_seq r < row_seq newer
                                        \<and> row_seq newer \<le> through) rows)) rows"

definition page_entry :: "bool \<Rightarrow> rev_row \<Rightarrow> jobj" where
  "page_entry history r = (if history then row_data r else projected (row_data r))"

fun fill_page :: "env \<Rightarrow> bool \<Rightarrow> int \<Rightarrow> int \<Rightarrow> rev_row list \<Rightarrow> jobj list \<times> int \<times> bool" where
  "fill_page Q history next used [] = ([], next, False)"
| "fill_page Q history next used (r # rows) =
     (let value = page_entry history r; len = int (length (json_bytes Q value)) in
      if used + len > 256 * 1024 then ([], next, True)
      else let (es, n, limited) = fill_page Q history (row_seq r) (used + len) rows
           in (value # es, n, limited))"

definition changes :: "env \<Rightarrow> int \<Rightarrow> int \<Rightarrow> bool \<Rightarrow> ledger \<Rightarrow> jobj" where
  "changes Q after through0 history l =
     (let current = jll (oget ''sequence'' (ledger_state l));
          through = (if through0 = 0 then current else through0) in
      if after < 0 \<or> after > through \<or> through > current then failure ''invalid_namespace_cursor''
      else let (entries, next, limited) =
                 fill_page Q history after 0 (take 128 (page_rows after through history (revs l)));
               more = (limited \<or> (length entries = 128 \<and> next < through))
           in obj [(''ok'', JBool True), (''namespace'', JStr (space l)), (''authority'', JStr (authority l)),
                   (''entries'', JArr (map JObj entries)), (''through'', jnumstr through),
                   (''next'', jnumstr (if more then next else through)), (''more'', JBool more)])"

text \<open>The checks of one imported revision, then its insertion.\<close>

definition accept_revision :: "env \<Rightarrow> int \<Rightarrow> string \<Rightarrow> json \<Rightarrow> ledger \<Rightarrow> bool \<times> ledger" where
  "accept_revision Q sequence previous v l =
     (let rid = jstr (oget ''revision'' (jobject v)); r = odel ''revision'' (jobject v);
          parents = jarray (oget ''parents'' r); e = jobject (oget ''object'' r) in
      if rid \<noteq> rev_hash Q r \<or> oget ''namespace'' r \<noteq> JStr (space l)
         \<or> oget ''authority'' r \<noteq> JStr (authority l)
         \<or> counter (oget ''sequence'' r) \<noteq> sequence + 1 \<or> oget ''previous'' r \<noteq> JStr previous
         \<or> \<not> is_arr (oget ''parents'' r) \<or> length parents > 2 \<or> \<not> valid_record Q e
      then jfail ''invalid_namespace_revision'' l
      else let old = object (jstr (oget ''path'' e)) l in
      if old \<noteq> [] \<and> oget ''revision'' old \<notin> set parents then jfail ''namespace_parent_missing'' l
      else if list_ex (\<lambda>p. \<not> is_str p \<or> revision (jstr p) l = []) parents
      then jfail ''namespace_parent_missing'' l
      else append_revision (oput ''revision'' (JStr rid) r) l)"

fun accept_revisions :: "env \<Rightarrow> int \<Rightarrow> string \<Rightarrow> json list \<Rightarrow> ledger \<Rightarrow> int option \<times> ledger" where
  "accept_revisions Q sequence previous [] l = (Some sequence, l)"
| "accept_revisions Q sequence previous (v # vs) l =
     (let (ok, l) = accept_revision Q sequence previous v l in
      if \<not> ok then (None, l)
      else accept_revisions Q (sequence + 1) (jstr (oget ''revision'' (jobject v))) vs l)"

definition invalid_page :: "env \<Rightarrow> jobj \<Rightarrow> int \<Rightarrow> ledger \<Rightarrow> bool" where
  "invalid_page Q page sequence l \<longleftrightarrow>
     (let next = counter (oget ''next'' page); through = counter (oget ''through'' page);
          more = jbool (oget ''more'' page) in
      oget ''namespace'' page \<noteq> JStr (space l) \<or> oget ''authority'' page \<noteq> JStr (authority l)
      \<or> \<not> is_arr (oget ''entries'' page) \<or> \<not> jbool (oget ''ok'' page) \<or> \<not> is_bool (oget ''more'' page)
      \<or> next < sequence \<or> next > through
      \<or> (if more then next \<le> sequence \<or> next \<ge> through else next \<noteq> through)
      \<or> length (jarray (oget ''entries'' page)) > 128 \<or> length (json_bytes Q page) > 400000)"

definition accept :: "env \<Rightarrow> jobj \<Rightarrow> ledger \<Rightarrow> bool \<times> ledger" where
  "accept Q page l =
     (let head = ledger_state l; sequence = counter (oget ''sequence'' head) in
      if invalid_page Q page sequence l then jfail ''invalid_namespace_page'' l
      else let (last_seq, l) = accept_revisions Q sequence (jstr (oget ''head'' head))
                                 (jarray (oget ''entries'' page)) l in
      case last_seq of
        None \<Rightarrow> (False, l)
      | Some s \<Rightarrow> if counter (oget ''next'' page) \<noteq> s then jfail ''namespace_sequence_gap'' l else (True, l))"

section \<open>Readings of revisions\<close>

lemma osorted_put_not_Nil [simp]: "osorted_put k v o1 \<noteq> []"
  by (cases o1) (auto split: if_splits)

declare oput_not_Nil [simp] odel_osorted_put [simp] odel_oput [simp]

lemma odel_odel [simp]: "odel k (odel k o1) = odel k o1"
  by (simp add: odel_def)

lemma oput_odel_id: "wf_obj o1 \<Longrightarrow> oget k o1 \<noteq> JUndef \<Longrightarrow> oput k (oget k o1) (odel k o1) = o1"
  by (rule wf_obj_eqI) (auto simp: wf_odel)

lemma oget_projected:
  "oget k (projected r) = (if k \<in> {''namespace'', ''authority'', ''revision'', ''sequence''} then oget k r
     else oget k (jobject (oget ''object'' r)))"
  by (simp add: projected_def)

lemma oget_rev_content:
  "oget k (rev_content e) = (if k \<in> {''path'', ''kind'', ''size'', ''hash'', ''clock'', ''version''} then oget k e else JUndef)"
  by (simp add: rev_content_def obj_def)

lemma object_Nil_iff: "object p l = [] \<longleftrightarrow> latest_row p (revs l) = None"
  by (auto simp: object_def Let_def split: option.splits)

lemma oget_object: "k \<noteq> ''locations'' \<Longrightarrow> latest_row p (revs l) = Some r \<Longrightarrow> oget k (object p l) = oget k (projected (row_data r))"
  by (simp add: object_def Let_def)

lemma latest_row_Some: "latest_row p rows = Some r \<Longrightarrow> r \<in> set rows \<and> row_path r = p"
  by (auto simp: latest_row_def find_Some_iff) (metis nth_mem length_rev set_rev)

lemma latest_row_snoc: "latest_row p (rows @ [r]) = (if row_path r = p then Some r else latest_row p rows)"
  by (simp add: latest_row_def)

lemma latest_row_None: "latest_row p rows = None \<longleftrightarrow> (\<forall>r\<in>set rows. row_path r \<noteq> p)"
  by (auto simp: latest_row_def find_None_iff)

section \<open>The chain of revisions\<close>

definition head_id :: "rev_row list \<Rightarrow> string" where
  "head_id rows = (if rows = [] then [] else row_id (last rows))"

definition row_ok :: "env \<Rightarrow> string \<Rightarrow> string \<Rightarrow> rev_row list \<Rightarrow> rev_row \<Rightarrow> bool" where
  "row_ok Q sp au before r \<longleftrightarrow>
     row_seq r = int (length before) + 1 \<and> row_seq r \<le> max_counter
     \<and> wf_obj (row_data r) \<and> oget ''revision'' (row_data r) = JStr (row_id r)
     \<and> row_id r = rev_hash Q (odel ''revision'' (row_data r)) \<and> row_id r \<notin> row_id ` set before
     \<and> oget ''namespace'' (row_data r) = JStr sp \<and> oget ''authority'' (row_data r) = JStr au
     \<and> counter (oget ''sequence'' (row_data r)) = row_seq r
     \<and> oget ''previous'' (row_data r) = JStr (head_id before)
     \<and> is_arr (oget ''parents'' (row_data r)) \<and> length (jarray (oget ''parents'' (row_data r))) \<le> 2
     \<and> list_all (\<lambda>p. is_str p \<and> jstr p \<in> row_id ` set before) (jarray (oget ''parents'' (row_data r)))
     \<and> (case latest_row (row_path r) before of None \<Rightarrow> True
        | Some old \<Rightarrow> JStr (row_id old) \<in> set (jarray (oget ''parents'' (row_data r))))
     \<and> valid_record Q (jobject (oget ''object'' (row_data r)))
     \<and> row_path r = jstr (oget ''path'' (jobject (oget ''object'' (row_data r))))"

definition rows_ok :: "env \<Rightarrow> string \<Rightarrow> string \<Rightarrow> rev_row list \<Rightarrow> bool" where
  "rows_ok Q sp au rows \<longleftrightarrow> (\<forall>k<length rows. row_ok Q sp au (take k rows) (rows ! k))"

definition ledger_ok :: "env \<Rightarrow> ledger \<Rightarrow> bool" where
  "ledger_ok Q l \<longleftrightarrow> rows_ok Q (space l) (authority l) (revs l)"

lemma row_okD:
  assumes "row_ok Q sp au before r"
  shows "row_seq r = int (length before) + 1" "row_id r = rev_hash Q (odel ''revision'' (row_data r))"
    "oget ''revision'' (row_data r) = JStr (row_id r)" "row_id r \<notin> row_id ` set before"
    "counter (oget ''sequence'' (row_data r)) = row_seq r"
    "list_all (\<lambda>p. is_str p \<and> jstr p \<in> row_id ` set before) (jarray (oget ''parents'' (row_data r)))"
    "row_path r = jstr (oget ''path'' (jobject (oget ''object'' (row_data r))))"
    "latest_row (row_path r) before = Some old \<Longrightarrow> JStr (row_id old) \<in> set (jarray (oget ''parents'' (row_data r)))"
  using assms by (auto simp only: row_ok_def option.case)

lemma rows_ok_Nil [simp]: "rows_ok Q sp au []"
  by (simp add: rows_ok_def)

lemma rows_ok_snoc: "rows_ok Q sp au (rows @ [r]) \<longleftrightarrow> rows_ok Q sp au rows \<and> row_ok Q sp au rows r"
  unfolding rows_ok_def by (auto simp: less_Suc_eq nth_append)

lemma rows_ok_take: "rows_ok Q sp au rows \<Longrightarrow> rows_ok Q sp au (take k rows)"
  by (auto simp: rows_ok_def min_def)

lemma rows_ok_seq: "rows_ok Q sp au rows \<Longrightarrow> k < length rows \<Longrightarrow> row_seq (rows ! k) = int k + 1"
  by (auto simp: rows_ok_def row_ok_def)

lemma rows_ok_member: "rows_ok Q sp au rows \<Longrightarrow> r \<in> set rows \<Longrightarrow> oget ''revision'' (row_data r) = JStr (row_id r)
   \<and> 1 \<le> row_seq r \<and> row_seq r \<le> int (length rows) \<and> row_seq r \<le> max_counter"
  by (auto simp: rows_ok_def row_ok_def in_set_conv_nth)

lemma revision_Nil_iff:
  assumes "rows_ok Q sp au (revs l)"
  shows "revision i l = [] \<longleftrightarrow> i \<notin> row_id ` set (revs l)"
proof -
  have "row_data r \<noteq> []" if "r \<in> set (revs l)" for r
    using rows_ok_member [OF assms that] by auto
  note nonempty = this
  show ?thesis
  proof (cases "find (\<lambda>r. row_id r = i) (revs l)")
    case None
    have "\<forall>r\<in>set (revs l). row_id r \<noteq> i" using None unfolding find_None_iff by blast
    with None show ?thesis by (simp add: revision_def) blast
  next
    case (Some r)
    then obtain k where "k < length (revs l)" "row_id (revs l ! k) = i" "r = revs l ! k"
      unfolding find_Some_iff by blast
    then have "r \<in> set (revs l)" "row_id r = i" by simp_all
    with Some nonempty show ?thesis by (simp add: revision_def) blast
  qed
qed

lemma oget_object_revision:
  assumes "rows_ok Q sp au (revs l)" "latest_row p (revs l) = Some r"
  shows "oget ''revision'' (object p l) = JStr (row_id r)"
  using assms(2) rows_ok_member [OF assms(1)] latest_row_Some [OF assms(2)]
  by (simp add: oget_object oget_projected)

lemma insort_key_last: "(\<And>y. y \<in> set xs \<Longrightarrow> f y < (f x :: int)) \<Longrightarrow> insort_key f x xs = xs @ [x]"
  by (induction xs) force+

lemma zero_text: "num_str 0 = ''0''"
  by code_simp

lemma counter_jnumstr: "0 \<le> n \<Longrightarrow> n \<le> max_counter \<Longrightarrow> counter (jnumstr n) = n"
  by (simp add: counter_def max_counter_int64)

lemma ledger_state_simps:
  "oget ''namespace'' (ledger_state l) = JStr (space l)" "oget ''authority'' (ledger_state l) = JStr (authority l)"
  "oget ''head'' (ledger_state l) = JStr (head_id (revs l))"
  by (simp_all add: ledger_state_def obj_def head_id_def)

lemma state_sequence:
  assumes "rows_ok Q sp au (revs l)"
  shows "oget ''sequence'' (ledger_state l) = jnumstr (int (length (revs l)))" "int (length (revs l)) \<le> max_counter"
proof -
  show "oget ''sequence'' (ledger_state l) = jnumstr (int (length (revs l)))"
    using rows_ok_seq [OF assms, of "length (revs l) - 1"]
    by (auto simp: ledger_state_def obj_def zero_text last_conv_nth of_nat_diff Suc_le_eq)
  show "int (length (revs l)) \<le> max_counter"
  proof (cases "revs l = []")
    case False
    then show ?thesis using rows_ok_member [OF assms, of "last (revs l)"] rows_ok_seq [OF assms, of "length (revs l) - 1"]
      by (auto simp: last_conv_nth of_nat_diff Suc_le_eq)
  qed (simp add: max_counter_def)
qed

lemma rows_ok_below: "rows_ok Q sp au rows \<Longrightarrow> r \<in> set rows \<Longrightarrow> row_seq r < int (length rows) + 1"
  using rows_ok_member by fastforce

lemma sql_ok_fields:
  assumes "sql_ok l = (b, l')"
  shows "revs l' = revs l" "space l' = space l" "authority l' = authority l" "locations l' = locations l"
  using assms by (auto simp: sql_ok_def split: list.splits)

lemma row_of_simps [simp]:
  "row_seq (row_of r) = counter (oget ''sequence'' r)" "row_id (row_of r) = jstr (oget ''revision'' r)"
  "row_path (row_of r) = jstr (oget ''path'' (jobject (oget ''object'' r)))" "row_data (row_of r) = r"
  by (simp_all add: row_of_def)

text \<open>Appending a row that fits the chain puts it at the end, and nothing else changes.\<close>

lemma append_revision_cases:
  assumes ok: "rows_ok Q sp au (revs l)"
    and row: "row_id (row_of r) \<notin> row_id ` set (revs l) \<Longrightarrow> row_ok Q sp au (revs l) (row_of r)"
    and a: "append_revision r l = (b, l')"
  shows "space l' = space l \<and> authority l' = authority l \<and> locations l' = locations l"
    "b \<Longrightarrow> revs l' = revs l @ [row_of r] \<and> row_ok Q sp au (revs l) (row_of r)"
    "\<not> b \<Longrightarrow> revs l' = revs l"
    "row_id (row_of r) \<notin> row_id ` set (revs l) \<Longrightarrow> sqlfault l = [] \<Longrightarrow> b \<and> sqlfault l' = []"
proof -
  obtain q l1 where q: "sql_ok l = (q, l1)" by (cases "sql_ok l")
  note f = sql_ok_fields [OF q]
  let ?dup = "list_ex (\<lambda>x. row_seq x = row_seq (row_of r) \<or> row_id x = row_id (row_of r)) (revs l)"
  have nodup: "row_id (row_of r) \<notin> row_id ` set (revs l)" if "\<not> ?dup"
    using that by (auto simp: list_ex_iff)
  have seq: "row_seq (row_of r) = int (length (revs l)) + 1" if "row_ok Q sp au (revs l) (row_of r)"
    using that by (simp only: row_ok_def)
  have last: "insort_key row_seq (row_of r) (revs l) = revs l @ [row_of r]" if "row_ok Q sp au (revs l) (row_of r)"
    by (rule insort_key_last) (metis rows_ok_below [OF ok] seq [OF that])
  have dup: "\<not> ?dup" if "row_id (row_of r) \<notin> row_id ` set (revs l)"
    unfolding list_ex_iff using rows_ok_below [OF ok] seq [OF row [OF that]] that by (metis image_eqI less_irrefl)
  show "space l' = space l \<and> authority l' = authority l \<and> locations l' = locations l"
    using a q f by (auto simp: append_revision_def Let_def jfail_def split: if_splits)
  show "b \<Longrightarrow> revs l' = revs l @ [row_of r] \<and> row_ok Q sp au (revs l) (row_of r)"
    using a q f last row nodup by (auto simp: append_revision_def Let_def jfail_def split: if_splits)
  show "\<not> b \<Longrightarrow> revs l' = revs l"
    using a q f by (auto simp: append_revision_def Let_def jfail_def split: if_splits)
  show "b \<and> sqlfault l' = []" if "row_id (row_of r) \<notin> row_id ` set (revs l)" "sqlfault l = []"
    using a q f dup [OF that(1)] that by (auto simp: append_revision_def Let_def jfail_def sql_ok_def split: if_splits)
qed

lemma odel_absent: "wf_obj o1 \<Longrightarrow> oget k o1 = JUndef \<Longrightarrow> odel k o1 = o1"
  by (rule wf_obj_eqI) (auto simp: wf_odel)

lemma revision_base: "rows_ok Q sp au (revs l) \<Longrightarrow> revision b l \<noteq> [] \<Longrightarrow> b \<in> row_id ` set (revs l)"
  by (simp add: revision_Nil_iff)

text \<open>The new revision of a commit extends the chain.\<close>

lemma oget_new_revision:
  "oget k (new_revision Q e n pr b l) =
    (if k = ''revision'' then JStr (rev_hash Q (odel ''revision'' (new_revision Q e n pr b l)))
     else if k = ''namespace'' then JStr (space l) else if k = ''authority'' then JStr (authority l)
     else if k = ''sequence'' then jnumstr n else if k = ''previous'' then JStr (head_id (revs l))
     else if k = ''parents'' then JArr (commit_parents (object (jstr (oget ''path'' e)) l) b l)
     else if k = ''object'' then JObj (rev_content e) else if k = ''proposal'' then JStr pr else JUndef)"
proof -
  let ?r = "obj [(''namespace'', JStr (space l)), (''authority'', JStr (authority l)),
      (''sequence'', jnumstr n), (''previous'', oget ''head'' (ledger_state l)),
      (''parents'', JArr (commit_parents (object (jstr (oget ''path'' e)) l) b l)), (''object'', JObj (rev_content e)),
      (''proposal'', JStr pr)]"
  have "odel ''revision'' ?r = ?r"
    by (rule odel_absent) (simp_all add: obj_def)
  then have "odel ''revision'' (new_revision Q e n pr b l) = ?r"
    by (simp add: new_revision_def Let_def)
  then show ?thesis
    by (simp add: new_revision_def Let_def ledger_state_simps obj_def)
qed

lemma wf_new_revision: "wf_obj (new_revision Q e n pr b l)"
  by (simp add: new_revision_def Let_def)

lemma commit_parents_ok:
  assumes "rows_ok Q sp au (revs l)"
  shows "length (commit_parents (object p l) b l) \<le> 2"
    "list_all (\<lambda>x. is_str x \<and> jstr x \<in> row_id ` set (revs l)) (commit_parents (object p l) b l)"
    "latest_row p (revs l) = Some r \<Longrightarrow> JStr (row_id r) \<in> set (commit_parents (object p l) b l)"
proof -
  show "length (commit_parents (object p l) b l) \<le> 2" by (simp add: commit_parents_def)
  show "list_all (\<lambda>x. is_str x \<and> jstr x \<in> row_id ` set (revs l)) (commit_parents (object p l) b l)"
    using revision_base [OF assms, of b] oget_object_revision [OF assms, of p] latest_row_Some [of p "revs l"]
    by (cases "latest_row p (revs l)") (auto simp: commit_parents_def object_Nil_iff)
  show "latest_row p (revs l) = Some r \<Longrightarrow> JStr (row_id r) \<in> set (commit_parents (object p l) b l)"
    using oget_object_revision [OF assms, of p r] by (simp add: commit_parents_def object_Nil_iff)
qed

lemma commit_row_ok:
  assumes ok: "rows_ok Q (space l) (authority l) (revs l)" and bare: "rev_content e = e"
    and v: "valid_record Q e" and n: "n = int (length (revs l)) + 1" "n \<le> max_counter"
    and fresh: "row_id (row_of (new_revision Q e n pr b l)) \<notin> row_id ` set (revs l)"
  shows "row_ok Q (space l) (authority l) (revs l) (row_of (new_revision Q e n pr b l))"
proof -
  let ?d = "new_revision Q e n pr b l" and ?p = "jstr (oget ''path'' e)"
  have "0 \<le> n" using n by simp
  then have "counter (oget ''sequence'' ?d) = n" using counter_jnumstr n(2) unfolding oget_new_revision by simp
  moreover have "row_id (row_of ?d) = rev_hash Q (odel ''revision'' ?d)" by (simp add: oget_new_revision)
  moreover have "row_path (row_of ?d) = ?p" by (simp add: oget_new_revision bare)
  ultimately show ?thesis
    using fresh n v commit_parents_ok [OF ok, where p = ?p and b = b] unfolding row_ok_def
    by (simp add: oget_new_revision bare wf_new_revision split: option.split)
qed

lemma commit_chain:
  assumes "ledger_ok Q l" "rev_content e = e"
  shows "ledger_ok Q (snd (commit Q e pr b l))"
proof -
  have ok: "rows_ok Q (space l) (authority l) (revs l)" using assms by (simp add: ledger_ok_def)
  define n where "n = counter (oget ''sequence'' (ledger_state l)) + 1"
  have n: "n = int (length (revs l)) + 1"
    using state_sequence [OF ok] by (simp add: n_def counter_jnumstr)
  let ?d = "new_revision Q e n pr b l"
  obtain c l' where c: "append_revision ?d l = (c, l')" by (cases "append_revision ?d l")
  have row: "valid_record Q e \<Longrightarrow> n \<le> max_counter \<Longrightarrow> ledger_ok Q l'"
    using append_revision_cases [OF ok commit_row_ok [OF ok assms(2) _ n] c] ok
    by (cases c) (auto simp: ledger_ok_def rows_ok_snoc)
  show ?thesis
    using assms(1) row c by (auto simp: commit_def Let_def n_def [symmetric] ledger_ok_def)
qed

text \<open>A revision that passes the checks of the import extends the chain.\<close>

definition imported :: "json \<Rightarrow> jobj" where
  "imported v = oput ''revision'' (JStr (jstr (oget ''revision'' (jobject v)))) (odel ''revision'' (jobject v))"

lemma oget_imported: "oget k (imported v) =
   (if k = ''revision'' then JStr (jstr (oget ''revision'' (jobject v))) else oget k (jobject v))"
  by (simp add: imported_def)

definition fits :: "env \<Rightarrow> int \<Rightarrow> string \<Rightarrow> jobj \<Rightarrow> ledger \<Rightarrow> bool" where
  "fits Q n h d l \<longleftrightarrow> oget ''revision'' d = JStr (rev_hash Q (odel ''revision'' d))
     \<and> oget ''namespace'' d = JStr (space l) \<and> oget ''authority'' d = JStr (authority l)
     \<and> counter (oget ''sequence'' d) = n + 1 \<and> oget ''previous'' d = JStr h
     \<and> is_arr (oget ''parents'' d) \<and> length (jarray (oget ''parents'' d)) \<le> 2
     \<and> valid_record Q (jobject (oget ''object'' d))
     \<and> (let p = jstr (oget ''path'' (jobject (oget ''object'' d))) in
         object p l \<noteq> [] \<longrightarrow> oget ''revision'' (object p l) \<in> set (jarray (oget ''parents'' d)))
     \<and> list_all (\<lambda>p. is_str p \<and> revision (jstr p) l \<noteq> []) (jarray (oget ''parents'' d))"

lemma accept_revision_eq:
  "accept_revision Q n h v l = (c, l') \<Longrightarrow>
    (if fits Q n h (imported v) l then append_revision (imported v) l = (c, l')
     else \<not> c \<and> (\<exists>m. l' = l\<lparr>jerror := m\<rparr>))"
  unfolding fits_def oget_imported
  by (auto simp: accept_revision_def Let_def jfail_def imported_def list_all_iff list_ex_iff split: if_splits)

lemma fits_row_ok:
  assumes ok: "rows_ok Q (space l) (authority l) (revs l)" and wf: "wf_obj d"
    and n: "n = int (length (revs l))" "n < max_counter" and h: "h = head_id (revs l)"
    and fits: "fits Q n h d l" and fresh: "row_id (row_of d) \<notin> row_id ` set (revs l)"
  shows "row_ok Q (space l) (authority l) (revs l) (row_of d)"
proof -
  have "JStr (row_id r) \<in> set (jarray (oget ''parents'' d))"
    if "latest_row (row_path (row_of d)) (revs l) = Some r" for r
  proof -
    have "object (row_path (row_of d)) l \<noteq> []" using that by (simp only: object_Nil_iff) simp
    then show ?thesis
      using fits oget_object_revision [OF ok that] by (simp add: fits_def Let_def)
  qed
  moreover have "list_all (\<lambda>p. is_str p \<and> jstr p \<in> row_id ` set (revs l)) (jarray (oget ''parents'' d))"
    using fits by (simp add: fits_def revision_Nil_iff [OF ok])
  ultimately show ?thesis
    using fits wf n h fresh by (auto simp: row_ok_def fits_def split: option.split)
qed

lemma counter_le: "counter v \<le> max_counter"
  by (auto simp: counter_def max_counter_def split: option.split)

lemma accept_revision_ok:
  assumes ok: "rows_ok Q (space l) (authority l) (revs l)" and wf: "wf_obj (jobject v)"
    and n: "n = int (length (revs l))" and h: "h = head_id (revs l)"
    and a: "accept_revision Q n h v l = (c, l')"
  shows "c \<Longrightarrow> revs l' = revs l @ [row_of (imported v)] \<and> row_ok Q (space l) (authority l) (revs l) (row_of (imported v))"
    "\<not> c \<Longrightarrow> revs l' = revs l"
    "space l' = space l \<and> authority l' = authority l"
proof -
  have w: "wf_obj (imported v)" using wf by (simp add: imported_def wf_odel)
  have row: "row_ok Q (space l) (authority l) (revs l) (row_of (imported v))"
    if "fits Q n h (imported v) l" "row_id (row_of (imported v)) \<notin> row_id ` set (revs l)"
  proof -
    have "n < max_counter" using that(1) counter_le [of "oget ''sequence'' (imported v)"] by (simp add: fits_def)
    then show ?thesis by (rule fits_row_ok [OF ok w n _ h that])
  qed
  note e = accept_revision_eq [OF a] append_revision_cases [OF ok row]
  show "c \<Longrightarrow> revs l' = revs l @ [row_of (imported v)] \<and> row_ok Q (space l) (authority l) (revs l) (row_of (imported v))"
    using e by (metis (no_types, lifting))
  show "\<not> c \<Longrightarrow> revs l' = revs l"
    using e(1) e(4) by (auto split: if_splits)
  show "space l' = space l \<and> authority l' = authority l"
    using e(1) e(2) by (auto split: if_splits)
qed

lemma accept_revisions_ok:
  assumes "rows_ok Q (space l) (authority l) (revs l)" "\<forall>v\<in>set vs. wf_obj (jobject v)"
    "n = int (length (revs l))" "h = head_id (revs l)" "accept_revisions Q n h vs l = (s, l')"
  shows "rows_ok Q (space l') (authority l') (revs l') \<and> space l' = space l \<and> authority l' = authority l
    \<and> (\<exists>ds. revs l' = revs l @ ds) \<and> (\<forall>k. s = Some k \<longrightarrow> k = int (length (revs l')))"
  using assms
proof (induction vs arbitrary: n h l)
  case (Cons v vs)
  obtain c l1 where c: "accept_revision Q n h v l = (c, l1)" by (cases "accept_revision Q n h v l")
  note step = accept_revision_ok [OF Cons.prems(1) _ Cons.prems(3,4) c]
  show ?case
  proof (cases c)
    case False
    with step Cons.prems c show ?thesis by auto
  next
    case True
    then have l1: "revs l1 = revs l @ [row_of (imported v)]" "space l1 = space l" "authority l1 = authority l"
      "rows_ok Q (space l1) (authority l1) (revs l1)"
      using step Cons.prems(1,2) by (auto simp: rows_ok_snoc)
    have "head_id (revs l1) = jstr (oget ''revision'' (jobject v))"
      by (simp add: l1 head_id_def oget_imported)
    then show ?thesis
      using Cons.IH [of l1 "n + 1" "jstr (oget ''revision'' (jobject v))"] Cons.prems c True l1 by auto
  qed
qed auto

lemma accept_chain:
  assumes "ledger_ok Q l" "\<forall>v\<in>set (jarray (oget ''entries'' page)). wf_obj (jobject v)"
  shows "ledger_ok Q (snd (accept Q page l)) \<and> (\<exists>ds. revs (snd (accept Q page l)) = revs l @ ds)"
proof -
  have ok: "rows_ok Q (space l) (authority l) (revs l)" using assms by (simp add: ledger_ok_def)
  let ?n = "counter (oget ''sequence'' (ledger_state l))" and ?h = "jstr (oget ''head'' (ledger_state l))"
  have n: "?n = int (length (revs l))" "?h = head_id (revs l)"
    using state_sequence [OF ok] by (simp_all add: counter_jnumstr ledger_state_simps)
  obtain s l' where s: "accept_revisions Q ?n ?h (jarray (oget ''entries'' page)) l = (s, l')"
    by (cases "accept_revisions Q ?n ?h (jarray (oget ''entries'' page)) l")
  show ?thesis
    using accept_revisions_ok [OF ok assms(2) n s] ok
    by (cases "invalid_page Q page ?n l"; cases s) (simp_all add: accept_def Let_def s jfail_def ledger_ok_def)
qed

section \<open>Pages\<close>

lemma fill_page_spec:
  assumes "fill_page Q hist nx u rows = (es, n, lim)"
  shows "\<exists>m\<le>length rows. es = map (page_entry hist) (take m rows)
     \<and> n = (if m = 0 then nx else row_seq (rows ! (m - 1))) \<and> (lim \<longleftrightarrow> m < length rows)
     \<and> (rows \<noteq> [] \<longrightarrow> int (length (json_bytes Q (page_entry hist (hd rows)))) + u \<le> 256 * 1024 \<longrightarrow> 0 < m)"
  using assms
proof (induction rows arbitrary: nx u es n lim)
  case (Cons r rows)
  show ?case
  proof (cases "u + int (length (json_bytes Q (page_entry hist r))) > 256 * 1024")
    case True
    with Cons.prems show ?thesis by (intro exI [of _ 0]) (auto simp: Let_def)
  next
    case False
    obtain es' n' lim' where f: "fill_page Q hist (row_seq r) (u + int (length (json_bytes Q (page_entry hist r)))) rows
        = (es', n', lim')"
      using prod_cases3 by blast
    from Cons.IH [OF f] obtain m where m: "m \<le> length rows" "es' = map (page_entry hist) (take m rows)"
      "n' = (if m = 0 then row_seq r else row_seq (rows ! (m - 1)))" "lim' \<longleftrightarrow> m < length rows"
      by blast
    with False Cons.prems f show ?thesis
      by (intro exI [of _ "Suc m"]) (auto simp: Let_def nth_Cons')
  qed
qed simp

lemma history_rows:
  assumes "rows_ok Q sp au rows" "0 \<le> a" "a \<le> t" "t \<le> int (length rows)"
  shows "page_rows a t True rows = take (nat t - nat a) (drop (nat a) rows)"
  using assms
proof (induction rows arbitrary: t rule: rev_induct)
  case (snoc r rows)
  have r: "row_seq r = int (length rows) + 1" and ok: "rows_ok Q sp au rows"
    using snoc.prems by (auto simp: rows_ok_snoc row_ok_def)
  show ?case
  proof (cases "t = int (length rows) + 1")
    case False
    with snoc.IH [OF ok snoc.prems(2,3)] snoc.prems r show ?thesis
      by (auto simp: page_rows_def)
  next
    case True
    have "page_rows a t True rows = page_rows a (int (length rows)) True rows"
      using rows_ok_member [OF ok] True unfolding page_rows_def by (intro filter_cong) fastforce+
    also have "\<dots> = drop (nat a) rows" if "a \<le> int (length rows)"
      using snoc.IH [OF ok snoc.prems(2) that] by simp
    finally have p: "page_rows a t True rows = drop (nat a) rows" if "a \<le> int (length rows)" using that by simp
    show ?thesis
    proof (cases "a \<le> int (length rows)")
      case le: True
      have "nat t - nat a = Suc (length rows) - nat a" using True by simp
      moreover have "page_rows a t True (rows @ [r]) = page_rows a t True rows @ [r]"
        using True r le by (simp add: page_rows_def)
      ultimately show ?thesis using p [OF le] le by (simp add: Suc_diff_le nat_le_iff)
    next
      case gt: False
      then have "a = t" using snoc.prems True by simp
      then show ?thesis by (auto simp: page_rows_def)
    qed
  qed
qed (simp add: page_rows_def)

lemma counter_cases: "counter (jnumstr (int n)) = int n" if "int n \<le> max_counter"
  using that by (simp add: counter_jnumstr)

text \<open>Any history page of a chain: the next rows, in order, and the cursor after them.\<close>

lemma history_page:
  assumes ok: "ledger_ok Q l" and a: "a \<le> t" "t \<le> length (revs l)" "0 < t"
  obtains m where "a + m \<le> t"
    "jarray (oget ''entries'' (changes Q (int a) (int t) True l)) = map (\<lambda>r. JObj (row_data r)) (take m (drop a (revs l)))"
    "counter (oget ''next'' (changes Q (int a) (int t) True l)) = int (a + m)"
    "counter (oget ''through'' (changes Q (int a) (int t) True l)) = int t"
    "jbool (oget ''more'' (changes Q (int a) (int t) True l)) \<longleftrightarrow> a + m < t" "m \<le> 128"
    "oget ''namespace'' (changes Q (int a) (int t) True l) = JStr (space l)"
    "oget ''authority'' (changes Q (int a) (int t) True l) = JStr (authority l)"
    "jbool (oget ''ok'' (changes Q (int a) (int t) True l))"
    "is_bool (oget ''more'' (changes Q (int a) (int t) True l))" "is_arr (oget ''entries'' (changes Q (int a) (int t) True l))"
    "a < t \<Longrightarrow> length (json_bytes Q (row_data (revs l ! a))) \<le> 256 * 1024 \<Longrightarrow> 0 < m"
proof -
  have r: "rows_ok Q (space l) (authority l) (revs l)" using ok by (simp add: ledger_ok_def)
  note st = state_sequence [OF r]
  have cur: "jll (oget ''sequence'' (ledger_state l)) = int (length (revs l))"
    using st by (simp add: max_counter_int64)
  let ?rows = "take 128 (take (t - a) (drop a (revs l)))"
  have pr: "page_rows (int a) (int t) True (revs l) = take (t - a) (drop a (revs l))"
    using history_rows [OF r, of "int a" "int t"] a by simp
  obtain es n lim where f: "fill_page Q True (int a) 0 ?rows = (es, n, lim)" using prod_cases3 by blast
  from fill_page_spec [OF f] obtain m where m: "m \<le> length ?rows" "es = map (page_entry True) (take m ?rows)"
      "n = (if m = 0 then int a else row_seq (?rows ! (m - 1)))" "lim \<longleftrightarrow> m < length ?rows"
      "?rows \<noteq> [] \<longrightarrow> int (length (json_bytes Q (page_entry True (hd ?rows)))) + 0 \<le> 256 * 1024 \<longrightarrow> 0 < m"
    by blast
  have len: "length ?rows = min 128 (t - a)" using a by simp
  have es: "es = map row_data (take m (drop a (revs l)))" and les: "length es = m"
    using m(1,2) len by (auto simp: page_entry_def min_def)
  have n: "n = int (a + m)"
  proof (cases "m = 0")
    case False
    have "m \<le> min 128 (t - a)" using m(1) len by metis
    with False have "m - 1 < min 128 (t - a)" by linarith
    then have "?rows ! (m - 1) = revs l ! (a + (m - 1))" "a + (m - 1) < length (revs l)"
      using a by auto
    then show ?thesis using m(3) False rows_ok_seq [OF r, of "a + (m - 1)"] by simp
  qed (use m in simp)
  have am: "a + m \<le> t" "m \<le> 128" using m(1) len a by auto
  have more: "(lim \<or> (length es = 128 \<and> n < int t)) \<longleftrightarrow> a + m < t"
    using m(1,4) len les n am by auto
  have ch: "changes Q (int a) (int t) True l = obj [(''ok'', JBool True), (''namespace'', JStr (space l)), (''authority'', JStr (authority l)),
       (''entries'', JArr (map JObj es)), (''through'', jnumstr (int t)),
       (''next'', jnumstr (int (a + m))), (''more'', JBool (a + m < t))]"
  proof -
    have "(if lim \<or> (length es = 128 \<and> n < int t) then n else int t) = int (a + m)"
      using more n am by auto
    then show ?thesis using a cur f pr more by (simp add: changes_def Let_def)
  qed
  have bound: "int t \<le> max_counter" using st(2) a by simp
  show thesis
  proof (rule that [of m])
    show "0 < m" if "a < t" "length (json_bytes Q (row_data (revs l ! a))) \<le> 256 * 1024"
      using m(5) that a len by (simp add: hd_take hd_drop_conv_nth page_entry_def)
  qed (use am bound in \<open>simp_all add: ch obj_def es counter_jnumstr\<close>)
qed

section \<open>A mirror follows its authority\<close>

lemma imported_row:
  assumes "row_ok Q sp au before r"
  shows "imported (JObj (row_data r)) = row_data r" "row_of (row_data r) = r"
proof -
  show "imported (JObj (row_data r)) = row_data r"
    using assms oput_odel_id [of "row_data r" "''revision''"] by (simp add: imported_def row_ok_def)
  have "row_of (row_data r) = (row_seq r, row_id r, row_path r, row_data r)"
    using assms by (simp add: row_of_def row_ok_def)
  then show "row_of (row_data r) = r" by (cases r) simp
qed

lemma row_ok_fits:
  assumes ok: "rows_ok Q (space l) (authority l) (revs l)" and r: "row_ok Q (space l) (authority l) (revs l) r"
  shows "fits Q (int (length (revs l))) (head_id (revs l)) (row_data r) l"
proof -
  note d = row_okD [OF r]
  let ?e = "jobject (oget ''object'' (row_data r))"
  have "oget ''revision'' (object (jstr (oget ''path'' ?e)) l) \<in> set (jarray (oget ''parents'' (row_data r)))"
    if present: "object (jstr (oget ''path'' ?e)) l \<noteq> []"
  proof -
    obtain o1 where o1: "latest_row (jstr (oget ''path'' ?e)) (revs l) = Some o1"
      using present unfolding object_Nil_iff by blast
    then have "latest_row (row_path r) (revs l) = Some o1" by (simp only: d(7))
    from d(8) [OF this] show ?thesis unfolding oget_object_revision [OF ok o1] .
  qed
  moreover have "oget ''revision'' (row_data r) = JStr (rev_hash Q (odel ''revision'' (row_data r)))"
    using d(2,3) by metis
  moreover have "list_all (\<lambda>p. is_str p \<and> revision (jstr p) l \<noteq> []) (jarray (oget ''parents'' (row_data r)))"
    using d(6) unfolding revision_Nil_iff [OF ok] not_not .
  moreover have "counter (oget ''sequence'' (row_data r)) = int (length (revs l)) + 1"
    using d(1,5) by metis
  ultimately show ?thesis using r unfolding fits_def row_ok_def Let_def by blast
qed

lemma accept_next_row:
  assumes A: "rows_ok Q (space l) (authority l) R" and l: "revs l = take n R" "sqlfault l = []" and n: "n < length R"
  shows "\<exists>l'. accept_revision Q (int n) (head_id (revs l)) (JObj (row_data (R ! n))) l = (True, l')
    \<and> revs l' = take (Suc n) R \<and> sqlfault l' = [] \<and> space l' = space l \<and> authority l' = authority l"
proof -
  let ?v = "JObj (row_data (R ! n))"
  have ok: "rows_ok Q (space l) (authority l) (revs l)" using A l rows_ok_take by metis
  have r: "row_ok Q (space l) (authority l) (revs l) (R ! n)" using A n l by (simp add: rows_ok_def)
  note i = imported_row [OF r]
  have len: "length (revs l) = n" using l n by simp
  obtain c l' where c: "accept_revision Q (int n) (head_id (revs l)) ?v l = (c, l')"
    by (cases "accept_revision Q (int n) (head_id (revs l)) ?v l")
  have ap: "append_revision (row_data (R ! n)) l = (c, l')"
    using accept_revision_eq [OF c] row_ok_fits [OF ok r] i len by simp
  have row: "row_ok Q (space l) (authority l) (revs l) (row_of (row_data (R ! n)))" using r i by simp
  have fresh: "row_id (row_of (row_data (R ! n))) \<notin> row_id ` set (revs l)"
    unfolding i by (rule row_okD(4) [OF r])
  note a = append_revision_cases [OF ok row ap]
  have "c" "sqlfault l' = []" using a(4) [OF fresh] l by auto
  moreover have "revs l' = take (Suc n) R"
    using a(2) [OF \<open>c\<close>] i l n by (simp add: take_Suc_conv_app_nth)
  ultimately show ?thesis using c a(1) by auto
qed

lemma accept_rows:
  assumes "rows_ok Q (space l) (authority l) R" "revs l = take n R" "sqlfault l = []" "n + m \<le> length R"
  shows "\<exists>l'. accept_revisions Q (int n) (head_id (revs l)) (map (\<lambda>r. JObj (row_data r)) (take m (drop n R))) l
      = (Some (int (n + m)), l')
    \<and> revs l' = take (n + m) R \<and> sqlfault l' = [] \<and> space l' = space l \<and> authority l' = authority l"
  using assms
proof (induction m arbitrary: n l)
  case (Suc m)
  have n: "n < length R" using Suc.prems by simp
  obtain l1 where l1: "accept_revision Q (int n) (head_id (revs l)) (JObj (row_data (R ! n))) l = (True, l1)"
    "revs l1 = take (Suc n) R" "sqlfault l1 = []" "space l1 = space l" "authority l1 = authority l"
    using accept_next_row [OF Suc.prems(1-3) n] by blast
  have h: "head_id (revs l1) = jstr (oget ''revision'' (row_data (R ! n)))"
    using Suc.prems(1) n l1 rows_ok_member [OF Suc.prems(1), of "R ! n"]
    by (simp add: head_id_def take_Suc_conv_app_nth)
  have d: "take (Suc m) (drop n R) = R ! n # take m (drop (Suc n) R)"
    using n by (metis Cons_nth_drop_Suc take_Suc_Cons)
  obtain l2 where "accept_revisions Q (int (Suc n)) (head_id (revs l1)) (map (\<lambda>r. JObj (row_data r)) (take m (drop (Suc n) R))) l1
      = (Some (int (Suc n + m)), l2)"
    "revs l2 = take (Suc n + m) R" "sqlfault l2 = []" "space l2 = space l1" "authority l2 = authority l1"
    using Suc.IH [of l1 "Suc n"] Suc.prems l1 by auto
  then show ?case using l1 h d by (auto simp: add.commute)
qed auto

lemma distinct_rows: "rows_ok Q sp au rows \<Longrightarrow> i < length rows \<Longrightarrow> j < length rows \<Longrightarrow> rows ! i = rows ! j \<Longrightarrow> i = j"
  by (metis add_right_cancel of_nat_eq_iff rows_ok_seq)

lemma latest_row_at:
  assumes "rows_ok Q sp au rows" "k < length rows"
  shows "latest_row (row_path (rows ! k)) rows = Some (rows ! k) \<longleftrightarrow> (\<forall>j<length rows. k < j \<longrightarrow> row_path (rows ! j) \<noteq> row_path (rows ! k))"
  using assms
proof (induction rows rule: rev_induct)
  case (snoc r rows)
  have ok: "rows_ok Q sp au rows" using snoc.prems by (simp add: rows_ok_snoc)
  show ?case
  proof (cases "k = length rows")
    case True
    then show ?thesis by (simp add: latest_row_snoc)
  next
    case False
    then have k: "k < length rows" using snoc.prems by simp
    have "rows ! k \<noteq> r" using distinct_rows [OF snoc.prems(1), of k "length rows"] k by (auto simp: nth_append)
    then show ?thesis using snoc.IH [OF ok k] k
      by (auto simp: latest_row_snoc nth_append less_Suc_eq)
  qed
qed simp

text \<open>The rows of a page without history: the newest row of each path among the first \<open>t\<close>.\<close>

lemma latest_rows:
  assumes ok: "rows_ok Q sp au rows" and t: "a \<le> t" "t \<le> length rows"
  shows "page_rows (int a) (int t) False rows
     = filter (\<lambda>r. latest_row (row_path r) (take t rows) = Some r) (drop a (take t rows))"
proof -
  have newer: "list_ex (\<lambda>n. row_path n = row_path r \<and> row_seq r < row_seq n \<and> row_seq n \<le> int t) rows
      \<longleftrightarrow> latest_row (row_path r) (take t rows) \<noteq> Some r"
    if r: "r \<in> set (drop a (take t rows))" for r
  proof -
    obtain k where k: "k < t" "r = rows ! k"
      using in_set_dropD [OF r] t by (auto simp: in_set_conv_nth)
    have "list_ex (\<lambda>n. row_path n = row_path r \<and> row_seq r < row_seq n \<and> row_seq n \<le> int t) rows
       \<longleftrightarrow> (\<exists>j<length rows. row_path (rows ! j) = row_path r \<and> int k < int j \<and> int j + 1 \<le> int t)"
      using rows_ok_seq [OF ok] k t by (auto simp: list_ex_length)
    also have "\<dots> \<longleftrightarrow> (\<exists>j<t. k < j \<and> row_path (rows ! j) = row_path r)"
    proof
      assume "\<exists>j<t. k < j \<and> row_path (rows ! j) = row_path r"
      then obtain j where "j < t" "k < j" "row_path (rows ! j) = row_path r" by blast
      with t show "\<exists>j<length rows. row_path (rows ! j) = row_path r \<and> int k < int j \<and> int j + 1 \<le> int t"
        by (intro exI [of _ j]) auto
    qed force
    finally show ?thesis
      using latest_row_at [OF rows_ok_take [OF ok, of t], of k] k t by auto
  qed
  have "page_rows (int a) (int t) False rows = filter (\<lambda>r. \<not> list_ex (\<lambda>n. row_path n = row_path r \<and> row_seq r < row_seq n \<and> row_seq n \<le> int t) rows)
     (page_rows (int a) (int t) True rows)"
    unfolding page_rows_def by (simp add: conj_commute)
  also have "page_rows (int a) (int t) True rows = drop a (take t rows)"
    using history_rows [OF ok, of "int a" "int t"] t by (simp add: drop_take)
  finally show ?thesis using newer by (simp cong: filter_cong)
qed

section \<open>Properties\<close>

definition sample_ledger :: ledger where
  "sample_ledger = \<lparr>space = ''ns'', authority = ''p'', revs = [], locations = [], jerror = [], sqlfault = []\<rparr>"

definition sample_authority :: ledger where
  "sample_authority = snd (commit sample_env sample_record [] [] sample_ledger)"

lemma rev_content_sample: "rev_content sample_record = sample_record"
  by (simp add: rev_content_def obj_def) (simp add: sample_record_def oput_def)

lemma sample_rev_rows [simp]: "revs sample_ledger = []" "space sample_ledger = ''ns''" "authority sample_ledger = ''p''"
  "sqlfault sample_ledger = []"
  by (simp_all add: sample_ledger_def)

lemma sample_authority_rows: "revs sample_authority = [row_of (new_revision sample_env sample_record 1 [] [] sample_ledger)]"
  "space sample_authority = ''ns''" "authority sample_authority = ''p''" "sqlfault sample_authority = []"
  by (simp_all add: sample_authority_def commit_def Let_def object_def latest_row_def ledger_state_def obj_def
      counter_def number_eval append_revision_def sql_ok_def sample_valid)

lemma sample_authority_ok: "ledger_ok sample_env sample_authority"
  unfolding sample_authority_def by (rule commit_chain) (simp_all add: ledger_ok_def rev_content_sample)

text \<open>A commit keeps the chain of revisions intact: whatever the record, proposal, base
  revision and database faults, the rows are still numbered from one without a gap, each names its
  predecessor and its parents, and each identifier is the digest of the stored document.\<close>

theorem commit_ok:
  assumes "ledger_ok Q l" "rev_content e = e"
  shows "ledger_ok Q (snd (commit Q e proposal base l))"
  using assms by (rule commit_chain)

theorem commit_ok_witness: "ledger_ok sample_env (snd (commit sample_env sample_record [] [] sample_ledger))"
  by (rule commit_ok) (simp_all add: ledger_ok_def rev_content_sample)

text \<open>Importing a page keeps the chain intact and never removes or rewrites a revision:
  the ledger after \<open>accept\<close> extends the ledger before it, for any page and any faults.\<close>

theorem accept_ok:
  assumes "ledger_ok Q l" "\<forall>v\<in>set (jarray (oget ''entries'' page)). wf_obj (jobject v)"
  shows "ledger_ok Q (snd (accept Q page l)) \<and> (\<exists>ds. revs (snd (accept Q page l)) = revs l @ ds)"
  using assms by (rule accept_chain)

theorem accept_ok_witness:
  "ledger_ok sample_env (snd (accept sample_env (changes sample_env 0 0 True sample_ledger) sample_ledger))"
proof -
  have "\<forall>v\<in>set (jarray (oget ''entries'' (changes sample_env 0 0 True sample_ledger))). wf_obj (jobject v)"
    by (simp add: changes_def ledger_state_def obj_def page_rows_def failure_def Let_def)
  from accept_ok [OF _ this, of sample_env sample_ledger] show ?thesis by (simp add: ledger_ok_def)
qed

lemma sample_commit: "commit sample_env sample_record [] [] sample_ledger
    = (projected (new_revision sample_env sample_record 1 [] [] sample_ledger), sample_authority)"
  by (simp add: sample_authority_def commit_def Let_def object_def latest_row_def ledger_state_def obj_def
      counter_def number_eval append_revision_def sql_ok_def sample_valid)

text \<open>A committed record is visible at once and only once: the object read back for its path
  is the one the commit returned, it carries the record's version, and committing the same
  version again returns the same object and leaves the ledger as it is.\<close>

theorem commit_visible:
  assumes ok: "ledger_ok Q l" and bare: "rev_content e = e" and c: "commit Q e pr b l = (e', l')" "e' \<noteq> []"
  shows "oget ''version'' e' = oget ''version'' e
    \<and> odel ''locations'' (object (jstr (oget ''path'' e)) l') = odel ''locations'' e'
    \<and> commit Q e pr2 b2 l' = (odel ''locations'' e', l')"
proof -
  let ?p = "jstr (oget ''path'' e)"
  have shown: "oget ''version'' e' = oget ''version'' e \<and> odel ''locations'' (object ?p l') = odel ''locations'' e'"
  proof (cases "oget ''version'' (object ?p l) = oget ''version'' e")
    case True
    with c show ?thesis by (auto simp: commit_def Let_def)
  next
    case False
    define n where "n = counter (oget ''sequence'' (ledger_state l)) + 1"
    have r: "rows_ok Q (space l) (authority l) (revs l)" using ok by (simp add: ledger_ok_def)
    have n: "n = int (length (revs l)) + 1"
      using state_sequence [OF r] by (simp add: n_def counter_jnumstr)
    let ?d = "new_revision Q e n pr b l"
    obtain ok1 l1 where a: "append_revision ?d l = (ok1, l1)" by (cases "append_revision ?d l")
    have v: "valid_record Q e" "n \<le> max_counter" "ok1" "e' = projected ?d" "l' = l1"
      using c False a by (auto simp: commit_def Let_def n_def [symmetric] split: if_splits)
    have "revs l1 = revs l @ [row_of ?d]"
      using append_revision_cases(2) [OF r commit_row_ok [OF r bare v(1) n v(2)] a v(3)] by blast
    moreover have "row_path (row_of ?d) = ?p" by (simp add: oget_new_revision bare)
    ultimately have "latest_row ?p (revs l') = Some (row_of ?d)" using v by (simp add: latest_row_snoc)
    then show ?thesis using v by (simp add: object_def Let_def oget_projected oget_new_revision bare)
  qed
  have "oget ''version'' (object ?p l') = oget ''version'' (odel ''locations'' (object ?p l'))" by simp
  also have "\<dots> = oget ''version'' e" using shown by simp
  finally have "commit Q e pr2 b2 l' = (odel ''locations'' e', l')"
    using shown by (simp add: commit_def Let_def)
  with shown show ?thesis by blast
qed

theorem commit_visible_witness:
  "commit sample_env sample_record [] [] sample_authority
   = (odel ''locations'' (projected (new_revision sample_env sample_record 1 [] [] sample_ledger)), sample_authority)"
proof -
  have "projected (new_revision sample_env sample_record 1 [] [] sample_ledger) \<noteq> []"
    by (simp add: projected_def oget_new_revision)
  from commit_visible [OF _ rev_content_sample sample_commit this] show ?thesis by (simp add: ledger_ok_def)
qed

text \<open>A page without history lists, in order, the newest revision of each path among the
  first \<open>t\<close> rows that lies after the cursor, as projected objects; it is cut after \<open>m\<close> entries
  only when it says that more follow, and then its cursor is the last entry's sequence number.\<close>

theorem changes_latest:
  assumes ok: "ledger_ok Q l" and a: "a \<le> t" "t \<le> length (revs l)" "0 < t"
  shows "\<exists>m. let page = changes Q (int a) (int t) False l;
           rows = filter (\<lambda>r. latest_row (row_path r) (take t (revs l)) = Some r) (drop a (take t (revs l))) in
     jbool (oget ''ok'' page) \<and> m \<le> length rows
     \<and> jarray (oget ''entries'' page) = map (\<lambda>r. JObj (projected (row_data r))) (take m rows)
     \<and> (\<not> jbool (oget ''more'' page) \<longrightarrow> m = length rows \<and> jll (oget ''next'' page) = int t)
     \<and> (jbool (oget ''more'' page) \<longrightarrow> jll (oget ''next'' page) = (if m = 0 then int a else row_seq (rows ! (m - 1))))"
proof -
  have r: "rows_ok Q (space l) (authority l) (revs l)" using ok by (simp add: ledger_ok_def)
  note st = state_sequence [OF r]
  define rows where "rows = filter (\<lambda>r. latest_row (row_path r) (take t (revs l)) = Some r) (drop a (take t (revs l)))"
  have cur: "jll (oget ''sequence'' (ledger_state l)) = int (length (revs l))"
    using st by (simp add: max_counter_int64)
  obtain es n lim where f: "fill_page Q False (int a) 0 (take 128 rows) = (es, n, lim)" using prod_cases3 by blast
  from fill_page_spec [OF f] obtain m where m: "m \<le> length (take 128 rows)" "es = map (page_entry False) (take m (take 128 rows))"
      "n = (if m = 0 then int a else row_seq (take 128 rows ! (m - 1)))" "lim \<longleftrightarrow> m < length (take 128 rows)"
    by blast
  define more where "more \<longleftrightarrow> lim \<or> (length es = 128 \<and> n < int t)"
  have ml: "m \<le> length rows" "m \<le> 128" using m(1) by simp_all
  have es: "es = map (\<lambda>r. projected (row_data r)) (take m rows)" "length es = m"
    using m(2) ml by (simp_all add: page_entry_def min_def)
  have n: "n = (if m = 0 then int a else row_seq (rows ! (m - 1)))"
    using m(3) ml by (cases m) auto
  have bounds: "int t \<le> max_counter" "a \<le> t" using st(2) a by simp_all
  have mem: "row_seq (rows ! k) \<le> int t" "1 \<le> row_seq (rows ! k)" if k: "k < length rows" for k
  proof -
    have "rows ! k \<in> set (take t (revs l))" using nth_mem [OF k] in_set_dropD unfolding rows_def by fastforce
    from rows_ok_member [OF rows_ok_take [OF r, of t] this] show "row_seq (rows ! k) \<le> int t" "1 \<le> row_seq (rows ! k)"
      by auto
  qed
  have nb: "0 \<le> n" "n \<le> int t" using n mem [of "m - 1"] ml a by (cases "m = 0"; force)+
  have ch: "changes Q (int a) (int t) False l = obj [(''ok'', JBool True), (''namespace'', JStr (space l)), (''authority'', JStr (authority l)),
       (''entries'', JArr (map JObj es)), (''through'', jnumstr (int t)),
       (''next'', jnumstr (if more then n else int t)), (''more'', JBool more)]"
    using a cur f latest_rows [OF r a(1,2)] by (simp add: changes_def Let_def more_def rows_def)
  have all: "m = length rows" if "\<not> more"
  proof (rule ccontr)
    assume ne: "m \<noteq> length rows"
    have "sorted_wrt (\<lambda>x y. row_seq x < row_seq y) (revs l)"
      by (simp add: sorted_wrt_iff_nth_less rows_ok_seq [OF r])
    then have sorted: "sorted_wrt (\<lambda>x y. row_seq x < row_seq y) rows"
      unfolding rows_def by (intro sorted_wrt_filter sorted_wrt_drop sorted_wrt_take)
    have "m = 128" "128 < length rows" "int t \<le> n" using that m(1,4) ne ml es by (auto simp: more_def)
    then show False using n mem [of 128] sorted_wrt_nth_less [OF sorted, of 127 128] by simp
  qed
  have i: "in_int64 n" "in_int64 (int t)" using nb bounds by (auto intro: max_counter_int64)
  show ?thesis unfolding Let_def rows_def [symmetric]
    by (rule exI [of _ m]) (use i ml all n es in \<open>auto simp: ch obj_def\<close>)
qed

theorem changes_latest_witness: "jbool (oget ''ok'' (changes sample_env 0 1 False sample_authority))"
  using changes_latest [OF sample_authority_ok, of 0 1] by (simp add: sample_authority_rows Let_def)

text \<open>C4: a mirror follows its authority. The page of history the authority answers for the
  mirror's cursor is accepted, the mirror's rows become a longer prefix of the authority's,
  strictly longer while the target is ahead, and the page says exactly when it is reached.\<close>

theorem mirror_follows:
  assumes A: "ledger_ok Q A" and M: "space M = space A" "authority M = authority A" "revs M = take n (revs A)" "sqlfault M = []"
    and t: "n \<le> t" "t \<le> length (revs A)" "0 < t"
    and small: "\<forall>r\<in>set (revs A). length (json_bytes Q (row_data r)) \<le> 256 * 1024"
    and page: "length (json_bytes Q (changes Q (int n) (int t) True A)) \<le> 400000"
  shows "\<exists>M' m. accept Q (changes Q (int n) (int t) True A) M = (True, M')
    \<and> revs M' = take (n + m) (revs A) \<and> (n < t \<longrightarrow> 0 < m) \<and> n + m \<le> t
    \<and> oget ''more'' (changes Q (int n) (int t) True A) = JBool (n + m < t)"
proof -
  let ?p = "changes Q (int n) (int t) True A"
  have okA: "rows_ok Q (space M) (authority M) (revs A)" using A M by (simp add: ledger_ok_def)
  then have okM: "rows_ok Q (space M) (authority M) (revs M)" using M rows_ok_take by metis
  have len: "length (revs M) = n" using M t by simp
  note st = state_sequence [OF okM]
  obtain m where m: "n + m \<le> t"
    "jarray (oget ''entries'' ?p) = map (\<lambda>r. JObj (row_data r)) (take m (drop n (revs A)))"
    "counter (oget ''next'' ?p) = int (n + m)" "counter (oget ''through'' ?p) = int t"
    "jbool (oget ''more'' ?p) \<longleftrightarrow> n + m < t" "m \<le> 128"
    "oget ''namespace'' ?p = JStr (space A)" "oget ''authority'' ?p = JStr (authority A)" "jbool (oget ''ok'' ?p)"
    "is_bool (oget ''more'' ?p)" "is_arr (oget ''entries'' ?p)"
    "n < t \<Longrightarrow> length (json_bytes Q (row_data (revs A ! n))) \<le> 256 * 1024 \<Longrightarrow> 0 < m"
    using history_page [OF A t] by metis
  have seq: "counter (oget ''sequence'' (ledger_state M)) = int n"
    using st len by (simp add: counter_jnumstr)
  have pos: "n < t \<Longrightarrow> 0 < m" using m(12) small t by simp
  have "\<not> invalid_page Q ?p (int n) M"
    using m page M pos t by (auto simp: invalid_page_def Let_def)
  moreover obtain M' where "accept_revisions Q (int n) (head_id (revs M)) (jarray (oget ''entries'' ?p)) M = (Some (int (n + m)), M')"
      "revs M' = take (n + m) (revs A)"
    using accept_rows [OF okA M(3,4), of m] m t by auto
  ultimately have "accept Q ?p M = (True, M')"
    using seq m(3) by (simp add: accept_def Let_def ledger_state_simps)
  moreover have "oget ''more'' ?p = JBool (n + m < t)"
    using m(5,10) by (cases "oget ''more'' ?p") auto
  ultimately show ?thesis using \<open>revs M' = _\<close> pos m(1) by blast
qed

theorem mirror_follows_witness:
  "\<exists>M'. accept sample_env (changes sample_env 0 1 True sample_authority) sample_ledger = (True, M')
     \<and> revs M' = revs sample_authority"
proof -
  have "\<exists>M' m. accept sample_env (changes sample_env (int 0) (int 1) True sample_authority) sample_ledger = (True, M')
    \<and> revs M' = take (0 + m) (revs sample_authority) \<and> ((0 :: nat) < 1 \<longrightarrow> 0 < m) \<and> 0 + m \<le> 1
    \<and> oget ''more'' (changes sample_env (int 0) (int 1) True sample_authority) = JBool (0 + m < (1 :: nat))"
    by (rule mirror_follows [OF sample_authority_ok]) (simp_all add: sample_authority_rows json_bytes_def)
  then show ?thesis by (auto simp: sample_authority_rows)
qed

end
