(* ===== verification/Store.thy ===== *)
theory Store
  imports Confined Journal
begin

text \<open>
  The state of \<open>Replica::Private\<close> (\<open>src/src/Sync/Replica.cpp\<close>) and the operations on its
  local database: metadata, the entry table, the namespace ledger, the adoption plan, and the
  index of one path (\<open>entry\<close>, \<open>save\<close>, \<open>observed\<close>, \<open>refresh\<close>).

  The database is one value, so a savepoint or transaction is a copy of it that a rollback puts
  back; rollbacks succeed. Each writing statement and each lock attempt consumes one element of
  \<open>faults\<close> and fails when it is \<open>True\<close>. Reads of the open database succeed. The lock is held
  by the running operation; a failed attempt is a fault.
\<close>

section \<open>State\<close>

record row =
  rdata :: jobj
  rstamp :: string
  rseq :: int

record peer_row =
  preplica :: string
  pcontainer :: string
  pulled :: int
  pushed :: int

record database =
  meta_rows :: "(string \<times> string) list"
  entry_rows :: "(string \<times> row) list"
  rev_rows :: "rev_row list"
  loc_rows :: "((string \<times> string) \<times> jobj) list"
  peer_rows :: "(string \<times> peer_row) list"
  plan_rows :: "(string \<times> string) list"
  snapshot_rows :: "(string \<times> jobj) list"

record manifest =
  mid :: string
  mreplica :: string
  msnapshot :: jobj
  members :: "(string \<times> string) list"
  applied :: "string list"
  added :: int
  updated :: int
  removed :: int
  unchanged :: int
  conflicts :: int
  mnext :: int
  mtotal :: int
  mafter :: int
  mthrough :: int
  msequence :: int
  mcomplete :: bool
  mbytes :: string

record replica =
  files :: fsys
  db :: database
  db_open :: bool
  scope :: string
  rid :: string
  drive :: "string option"
  rerror :: string
  proposal :: string
  proposal_base :: string
  manifests :: "(string \<times> manifest) list"
  leases :: "string list"
  faults :: "bool list"

definition diff :: "manifest \<Rightarrow> jobj" where
  "diff m = obj [(''added'', JNum (added m)), (''updated'', JNum (updated m)), (''deleted'', JNum (removed m)),
     (''unchanged'', JNum (unchanged m)), (''conflicts'', JNum (conflicts m))]"

section \<open>Effects\<close>

definition rfail :: "string \<Rightarrow> replica \<Rightarrow> bool \<times> replica" where
  "rfail e r = (False, r\<lparr>rerror := e\<rparr>)"

definition rpoll :: "replica \<Rightarrow> bool \<times> replica" where
  "rpoll r = (case faults r of [] \<Rightarrow> (True, r) | b # bs \<Rightarrow> (\<not> b, r\<lparr>faults := bs\<rparr>))"

definition sql :: "replica \<Rightarrow> bool \<times> replica" where
  "sql r = (let (ok, r) = rpoll r in if ok then (True, r) else rfail ''sql'' r)"

definition on_files :: "(fsys \<Rightarrow> 'a \<times> fsys) \<Rightarrow> replica \<Rightarrow> 'a \<times> replica" where
  "on_files op r = (let (x, f) = op (files r) in (x, r\<lparr>files := f\<rparr>))"

definition failed :: "string \<Rightarrow> replica \<Rightarrow> jobj \<times> replica" where
  "failed message r = (failure (if message = [] then rerror r else message), r)"

definition file_failed :: "replica \<Rightarrow> jobj \<times> replica" where
  "file_failed r = failed (ferror (files r)) r"

definition file_fail :: "replica \<Rightarrow> bool \<times> replica" where
  "file_fail r = rfail (ferror (files r)) r"

definition result :: jobj where
  "result = obj [(''ok'', JBool True), (''complete'', JBool True)]"

text \<open>A fresh identifier, \<open>QUuid::createUuid().toString(WithoutBraces)\<close>.\<close>

definition create_uuid :: "env \<Rightarrow> replica \<Rightarrow> string \<times> replica" where
  "create_uuid Q r = (new_uuid Q (fuuid (files r)), r\<lparr>files := (files r)\<lparr>fuuid := Suc (fuuid (files r))\<rparr>\<rparr>)"

section \<open>Metadata and the ledger\<close>

definition meta :: "string \<Rightarrow> replica \<Rightarrow> string" where
  "meta k r = (case map_of (meta_rows (db r)) k of None \<Rightarrow> [] | Some v \<Rightarrow> v)"

definition meta_ll :: "string \<Rightarrow> replica \<Rightarrow> int" where
  "meta_ll k r = jll (JStr (meta k r))"

definition set_meta :: "string \<Rightarrow> string \<Rightarrow> replica \<Rightarrow> bool \<times> replica" where
  "set_meta k v r = (let (ok, r) = sql r in
     if ok then (True, r\<lparr>db := (db r)\<lparr>meta_rows := upsert k v (meta_rows (db r))\<rparr>\<rparr>) else (False, r))"

fun set_metas :: "(string \<times> string) list \<Rightarrow> replica \<Rightarrow> bool \<times> replica" where
  "set_metas [] r = (True, r)"
| "set_metas ((k, v) # kvs) r = (let (ok, r) = set_meta k v r in if ok then set_metas kvs r else (False, r))"

definition journal :: "replica \<Rightarrow> ledger" where
  "journal r = \<lparr>space = (case drive r of None \<Rightarrow> [] | Some i \<Rightarrow> i),
     authority = (if meta ''host'' r = [] then rid r else meta ''hostReplica'' r),
     revs = rev_rows (db r), locations = loc_rows (db r), jerror = [], sqlfault = faults r\<rparr>"

definition on_journal :: "(ledger \<Rightarrow> 'a \<times> ledger) \<Rightarrow> replica \<Rightarrow> 'a \<times> string \<times> replica" where
  "on_journal op r = (let (x, l) = op (journal r) in
     (x, jerror l, r\<lparr>db := (db r)\<lparr>rev_rows := revs l, loc_rows := locations l\<rparr>, faults := sqlfault l\<rparr>))"

section \<open>Guards\<close>

definition state_files :: "string list" where
  "state_files = [''journal.sqlite'', ''journal.sqlite-wal'', ''journal.sqlite-shm'', ''operation.lock'']"

definition redirected :: "fsys \<Rightarrow> bool" where
  "redirected f \<longleftrightarrow> list_ex (\<lambda>n. map_of (names f) [''.society-sync'', n] = Some Special) state_files"

definition ready :: "env \<Rightarrow> replica \<Rightarrow> bool \<times> replica" where
  "ready Q r =
     (let r = r\<lparr>rerror := [], files := (files r)\<lparr>ferror := []\<rparr>\<rparr> in
      if \<not> db_open r \<or> scope r = [] \<or> rid r = [] \<or> drive r = None
      then rfail ''container_unavailable_or_replaced'' r
      else let (ok, r) = on_files intact r in
      if \<not> ok then rfail ''container_unavailable_or_replaced'' r
      else let (st, r) = on_files (fs_state Q ''.society-sync'') r in
      if st = None \<or> fkind (the st) \<noteq> ''directory'' then rfail ''sync_state_redirected'' r
      else if redirected (files r) then rfail ''sync_state_redirected'' r
      else (True, r))"

definition lock :: "env \<Rightarrow> replica \<Rightarrow> bool \<times> replica" where
  "lock Q r = (let (ok, r) = ready Q r in
     if \<not> ok then (False, r)
     else let (ok, r) = rpoll r in if ok then (True, r) else rfail ''sync_store_busy'' r)"

text \<open>\<open>readSnapshot\<close>: a read inside a savepoint of the database.\<close>

definition read_snapshot :: "env \<Rightarrow> (replica \<Rightarrow> jobj) \<Rightarrow> replica \<Rightarrow> jobj \<times> replica" where
  "read_snapshot Q read r =
     (let (ok, r) = ready Q r in
      if \<not> ok then failed [] r
      else let (ok, r) = sql r in
      if \<not> ok then failed [] r
      else let value = read r; (ok, r) = sql r in
      if ok then (value, r) else failed [] (snd (sql r)))"

section \<open>Entries\<close>

definition entry_stamp :: "string \<Rightarrow> replica \<Rightarrow> string" where
  "entry_stamp path r = (case map_of (entry_rows (db r)) path of None \<Rightarrow> [] | Some w \<Rightarrow> rstamp w)"

definition entry :: "string \<Rightarrow> replica \<Rightarrow> jobj" where
  "entry path r = (case map_of (entry_rows (db r)) path of
     None \<Rightarrow> [] | Some w \<Rightarrow> oput ''sequence'' (jnumstr (rseq w)) (rdata w))"

definition namespace_keys :: "string list" where
  "namespace_keys = [''namespace'', ''authority'', ''revision'', ''sequence'']"

text \<open>The confirmed base a local edit keeps through repeated offline edits.\<close>

definition retained_base :: "jobj \<Rightarrow> jobj \<Rightarrow> string \<Rightarrow> replica \<Rightarrow> json" where
  "retained_base input previous path r =
     (if has_key ''baseRevision'' input then oget ''baseRevision'' input
      else if has_key ''baseRevision'' previous then oget ''baseRevision'' previous
      else if has_key ''revision'' previous then oget ''revision'' previous
      else oget ''revision'' (object path (journal r)))"

text \<open>The document \<open>save\<close> stores: committed on the authority, else confirmed or a proposal.\<close>

definition stored :: "env \<Rightarrow> jobj \<Rightarrow> jobj \<Rightarrow> replica \<Rightarrow> jobj \<times> string \<times> replica" where
  "stored Q input previous r =
     (let e = versioned Q input in
      if meta ''host'' r = [] then on_journal (commit Q e (proposal r) (proposal_base r)) r
      else if has_key ''revision'' input
      then (foldl (\<lambda>e k. oput k (oget k input) e) e namespace_keys, [], r)
      else (oput ''baseRevision''
              (JStr (jstr (retained_base input previous (jstr (oget ''path'' e)) r))) e, [], r))"

definition local_location :: "env \<Rightarrow> jobj \<Rightarrow> jobj" where
  "local_location Q e = obj [(''provider'', JStr ''local''), (''kind'', JStr ''local''),
     (''key'', JStr (physical Q (jstr (oget ''path'' e))))]"

definition put_row :: "string \<Rightarrow> row \<Rightarrow> replica \<Rightarrow> replica" where
  "put_row path w r = r\<lparr>db := (db r)\<lparr>entry_rows := upsert path w (entry_rows (db r))\<rparr>\<rparr>"

text \<open>The writes inside the savepoint; \<open>None\<close> is the abort.\<close>

definition save_body :: "env \<Rightarrow> jobj \<Rightarrow> string \<Rightarrow> replica \<Rightarrow> bool \<times> replica" where
  "save_body Q input stamp r =
     (let previous = entry (jstr (oget ''path'' (versioned Q input))) r;
          mirror = (meta ''host'' r \<noteq> []);
          (e, why, r) = stored Q input previous r in
      if \<not> mirror \<and> e = [] then rfail why r
      else let moved = (oget ''version'' previous \<noteq> oget ''version'' e);
               seq = (if moved then meta_ll ''sequence'' r + 1 else jll (oget ''sequence'' previous)) in
      if moved \<and> seq > max_counter then rfail ''journal_sequence_limit'' r
      else let (ok, r) = (if moved then set_meta ''sequence'' (num_str seq) r else (True, r)) in
      if \<not> ok then rfail ''journal_sequence_limit'' r
      else let (ok, r) = sql r in
      if \<not> ok then (False, r)
      else let r = put_row (jstr (oget ''path'' e)) \<lparr>rdata = e, rstamp = stamp, rseq = seq\<rparr> r in
      if stamp \<noteq> ''remote'' \<and> oget ''kind'' e = JStr ''file'' \<and> has_key ''revision'' e
      then (let (ok, why, r) = on_journal (locate (jstr (oget ''version'' e)) (local_location Q e)) r
            in if ok then (True, r) else rfail why r)
      else (True, r))"

definition save :: "env \<Rightarrow> jobj \<Rightarrow> string \<Rightarrow> replica \<Rightarrow> bool \<times> replica" where
  "save Q input stamp r =
     (let (ok, r) = sql r in
      if \<not> ok then (False, r)
      else let before = db r; (ok, r) = save_body Q input stamp r in
      if \<not> ok then (False, r\<lparr>db := before\<rparr>) else sql r)"

section \<open>Observation of the file system\<close>

text \<open>A content change takes the next value of this replica's counter in the entry's clock.\<close>

definition local_edit :: "env \<Rightarrow> jobj \<Rightarrow> string \<Rightarrow> replica \<Rightarrow> bool \<times> replica" where
  "local_edit Q e stamp r =
     (let clock = jobject (oget ''clock'' e);
          counter = max (meta_ll ''counter'' r) (jll (oget (rid r) clock)) + 1 in
      if counter > max_counter \<or> (length clock > 63 \<and> \<not> has_key (rid r) clock)
      then rfail ''replica_clock_limit'' r
      else let (ok, r) = set_meta ''counter'' (num_str counter) r in
      if \<not> ok then rfail ''replica_clock_limit'' r
      else save Q (oput ''clock'' (JObj (oput (rid r) (jnumstr counter) clock)) e) stamp r)"

definition observed_entry :: "string \<Rightarrow> fstate \<Rightarrow> string \<Rightarrow> jobj \<Rightarrow> jobj" where
  "observed_entry path st hash old = obj [(''path'', JStr path), (''kind'', JStr (fkind st)),
     (''size'', jnumstr (fsize st)), (''hash'', JStr hash), (''clock'', JObj (jobject (oget ''clock'' old)))]"

definition observed :: "env \<Rightarrow> string \<Rightarrow> fstate \<Rightarrow> string \<Rightarrow> replica \<Rightarrow> bool \<times> replica" where
  "observed Q path st verified r =
     (let old = entry path r; old_stamp = entry_stamp path r in
      if rerror r \<noteq> [] then (False, r)
      else if old_stamp = ''remote'' \<and> fkind st = ''deleted'' then (True, r)
      else if old = [] \<and> fkind st = ''deleted'' then (True, r)
      else if jstr (oget ''kind'' old) = fkind st \<and> old_stamp = fstamp st then (True, r)
      else let (hash, r) = (if fkind st \<noteq> ''file'' then (Some [], r)
                            else if verified \<noteq> [] then (Some verified, r)
                            else on_files (fs_hash Q (physical Q path) (fstamp st)) r);
               hash = (case hash of None \<Rightarrow> [] | Some h \<Rightarrow> h) in
      if fkind st = ''file'' \<and> hash = [] then file_fail r
      else let e = observed_entry path st hash old in
      if content_equal e old then save Q old (fstamp st) r
      else local_edit Q e (fstamp st) r)"

definition refresh :: "env \<Rightarrow> string \<Rightarrow> replica \<Rightarrow> bool \<times> replica" where
  "refresh Q path r =
     (let (ok, r) = on_files (exact_path Q (physical Q path)) r in
      if \<not> ok then file_fail r
      else let (st, r) = on_files (fs_state Q (physical Q path)) r in
      case st of None \<Rightarrow> file_fail r | Some st \<Rightarrow> observed Q path st [] r)"

section \<open>Frames\<close>

lemma on_files_eq: "on_files op r = (fst (op (files r)), r\<lparr>files := snd (op (files r))\<rparr>)"
  by (simp add: on_files_def split_beta)

lemma rpoll_eq: "rpoll r = (b, r') \<Longrightarrow> \<exists>fl. r' = r\<lparr>faults := fl\<rparr>"
  by (cases "faults r") (auto simp: rpoll_def intro: exI [of _ "faults r"])

lemma sql_eq: "sql r = (b, r') \<Longrightarrow> \<exists>fl e. r' = r\<lparr>faults := fl, rerror := e\<rparr>"
proof -
  assume s: "sql r = (b, r')"
  obtain c t where p: "rpoll r = (c, t)" by (cases "rpoll r")
  from rpoll_eq [OF p] obtain fl where "t = r\<lparr>faults := fl\<rparr>" by blast
  with s p have "r' = r\<lparr>faults := fl, rerror := (if c then rerror r else ''sql'')\<rparr>"
    by (auto simp: sql_def rfail_def split: if_splits)
  then show ?thesis by blast
qed

text \<open>The identities and settings no index operation changes.\<close>

definition same_ids :: "replica \<Rightarrow> replica \<Rightarrow> bool" where
  "same_ids r r' \<longleftrightarrow> drive r' = drive r \<and> rid r' = rid r \<and> scope r' = scope r \<and> db_open r' = db_open r
     \<and> plan_rows (db r') = plan_rows (db r) \<and> peer_rows (db r') = peer_rows (db r)
     \<and> snapshot_rows (db r') = snapshot_rows (db r) \<and> manifests r' = manifests r
     \<and> (\<forall>k. k \<noteq> ''sequence'' \<longrightarrow> k \<noteq> ''counter'' \<longrightarrow> meta k r' = meta k r)"

lemma same_ids_refl [simp]: "same_ids r r"
  by (simp add: same_ids_def)

lemma meta_fields [simp]:
  "meta k (r\<lparr>files := f\<rparr>) = meta k r" "meta k (r\<lparr>faults := fl\<rparr>) = meta k r" "meta k (r\<lparr>rerror := e\<rparr>) = meta k r"
  "meta k (r\<lparr>db := (db r)\<lparr>rev_rows := rs, loc_rows := ls\<rparr>\<rparr>) = meta k r"
  "meta k (r\<lparr>db := (db r)\<lparr>entry_rows := es\<rparr>\<rparr>) = meta k r"
  "meta k (r\<lparr>db := (db r)\<lparr>meta_rows := upsert k0 v (meta_rows (db r))\<rparr>\<rparr>) = (if k = k0 then v else meta k r)"
  by (simp_all add: meta_def)

section \<open>The index\<close>

definition row_fits :: "env \<Rightarrow> replica \<Rightarrow> string \<times> row \<Rightarrow> bool" where
  "row_fits Q r pw \<longleftrightarrow> fst pw = jstr (oget ''path'' (rdata (snd pw)))
     \<and> jstr (oget ''version'' (rdata (snd pw))) = jstr (oget ''version'' (versioned Q (rdata (snd pw))))
     \<and> 1 \<le> rseq (snd pw) \<and> rseq (snd pw) \<le> meta_ll ''sequence'' r
     \<and> (meta ''host'' r = [] \<longrightarrow> oget ''version'' (object (fst pw) (journal r)) = oget ''version'' (rdata (snd pw)))"

definition store_ok :: "env \<Rightarrow> replica \<Rightarrow> bool" where
  "store_ok Q r \<longleftrightarrow> ledger_ok Q (journal r)
     \<and> distinct (map fst (entry_rows (db r))) \<and> distinct (map (\<lambda>pw. rseq (snd pw)) (entry_rows (db r)))
     \<and> list_all (row_fits Q r) (entry_rows (db r))
     \<and> 0 \<le> meta_ll ''sequence'' r \<and> meta_ll ''sequence'' r \<le> max_counter"

lemma space_journal: "space (journal r) = (case drive r of None \<Rightarrow> [] | Some i \<Rightarrow> i)"
  "authority (journal r) = (if meta ''host'' r = [] then rid r else meta ''hostReplica'' r)"
  "revs (journal r) = rev_rows (db r)" "locations (journal r) = loc_rows (db r)" "sqlfault (journal r) = faults r"
  by (simp_all add: journal_def)

lemma object_cong: "revs l = revs l' \<Longrightarrow> oget k (object p l) = oget k (object p l') \<or> k = ''locations''"
  by (simp add: object_def Let_def split: option.split)

lemma object_version_cong: "revs l = revs l' \<Longrightarrow> oget ''version'' (object p l) = oget ''version'' (object p l')"
  using object_cong [of l l' "''version''"] by auto

lemma store_ok_cong:
  assumes "drive r' = drive r" "rid r' = rid r" "rev_rows (db r') = rev_rows (db r)" "entry_rows (db r') = entry_rows (db r)"
    "meta ''host'' r' = meta ''host'' r" "meta ''hostReplica'' r' = meta ''hostReplica'' r"
    "meta ''sequence'' r' = meta ''sequence'' r"
  shows "store_ok Q r' = store_ok Q r"
proof -
  have "ledger_ok Q (journal r') = ledger_ok Q (journal r)"
    using assms by (simp add: ledger_ok_def space_journal)
  moreover have "row_fits Q r' = row_fits Q r"
    using assms object_version_cong [of "journal r'" "journal r"]
    by (simp add: row_fits_def fun_eq_iff meta_ll_def space_journal)
  ultimately show ?thesis using assms by (simp add: store_ok_def meta_ll_def)
qed

lemma store_ok_fields [simp]:
  "store_ok Q (r\<lparr>files := f\<rparr>) = store_ok Q r" "store_ok Q (r\<lparr>faults := fl\<rparr>) = store_ok Q r"
  "store_ok Q (r\<lparr>rerror := e\<rparr>) = store_ok Q r" "store_ok Q (r\<lparr>proposal := e\<rparr>) = store_ok Q r"
  "store_ok Q (r\<lparr>proposal_base := e\<rparr>) = store_ok Q r" "store_ok Q (r\<lparr>leases := ls\<rparr>) = store_ok Q r"
  by (rule store_ok_cong; simp add: meta_def)+

text \<open>What every operation of a replica keeps: the index invariant, the revisions it has, its
  identities, and the user's files.\<close>

definition extends :: "env \<Rightarrow> replica \<Rightarrow> replica \<Rightarrow> bool" where
  "extends Q r r' \<longleftrightarrow> same_ids r r' \<and> keeps (files r) (files r')
     \<and> (store_ok Q r \<longrightarrow> store_ok Q r' \<and> (\<exists>ds. rev_rows (db r') = rev_rows (db r) @ ds)
          \<and> meta_ll ''sequence'' r \<le> meta_ll ''sequence'' r')"

interpretation ext: op_rel "extends Q" for Q
proof
  show "extends Q r r" for r by (simp add: extends_def)
  show "extends Q r u" if "extends Q r s" "extends Q s u" for r s u
  proof -
    have "keeps (files r) (files u)" using that keep.trans by (auto simp: extends_def)
    moreover have "same_ids r u" using that by (auto simp: extends_def same_ids_def)
    ultimately show ?thesis using that by (fastforce simp: extends_def)
  qed
qed

text \<open>The part of the state these relations read.\<close>

definition same_view :: "replica \<Rightarrow> replica \<Rightarrow> bool" where
  "same_view r s \<longleftrightarrow> drive s = drive r \<and> rid s = rid r \<and> scope s = scope r \<and> db_open s = db_open r
     \<and> manifests s = manifests r \<and> db s = db r"

lemma view_meta: "same_view r s \<Longrightarrow> meta k s = meta k r"
  by (simp add: same_view_def meta_def)

lemma view_store_ok: "same_view r s \<Longrightarrow> store_ok Q s = store_ok Q r"
  by (rule store_ok_cong) (simp_all add: view_meta, simp_all add: same_view_def)

lemma view_same_ids: "same_view r s \<Longrightarrow> same_ids x s = same_ids x r" "same_view r s \<Longrightarrow> same_ids s x = same_ids r x"
  by (simp_all add: same_ids_def view_meta) (simp_all add: same_view_def)

lemma view_extends:
  assumes "same_view r s" "files s = files r"
  shows "extends Q x s = extends Q x r" "extends Q s x = extends Q r x"
  using assms view_store_ok [OF assms(1), of Q] view_same_ids [OF assms(1), of x] view_meta [OF assms(1), of "''sequence''"]
  by (simp_all add: extends_def meta_ll_def) (simp_all add: same_view_def)

lemma view_fields [simp]:
  "same_view r (r\<lparr>faults := fl\<rparr>)" "same_view r (r\<lparr>rerror := e\<rparr>)" "same_view r (r\<lparr>proposal := e\<rparr>)"
  "same_view r (r\<lparr>proposal_base := e\<rparr>)" "same_view r (r\<lparr>leases := ls\<rparr>)" "same_view r (r\<lparr>files := f\<rparr>)"
  by (simp_all add: same_view_def)

lemma extends_fields [simp]:
  "extends Q r (s\<lparr>faults := fl\<rparr>) = extends Q r s" "extends Q r (s\<lparr>rerror := e\<rparr>) = extends Q r s"
  "extends Q r (s\<lparr>proposal := e\<rparr>) = extends Q r s" "extends Q r (s\<lparr>proposal_base := e\<rparr>) = extends Q r s"
  "extends Q r (s\<lparr>leases := ls\<rparr>) = extends Q r s"
  by (rule view_extends; simp)+

lemma extends_fields' [simp]:
  "extends Q (s\<lparr>faults := fl\<rparr>) r = extends Q s r" "extends Q (s\<lparr>rerror := e\<rparr>) r = extends Q s r"
  "extends Q (s\<lparr>proposal := e\<rparr>) r = extends Q s r" "extends Q (s\<lparr>proposal_base := e\<rparr>) r = extends Q s r"
  "extends Q (s\<lparr>leases := ls\<rparr>) r = extends Q s r"
  by (rule view_extends; simp)+

lemma extends_new_files: "keeps (files s) f \<Longrightarrow> extends Q s (s\<lparr>files := f\<rparr>)"
  using view_store_ok [of s "s\<lparr>files := f\<rparr>" Q] view_same_ids [of s "s\<lparr>files := f\<rparr>" s]
  by (simp add: extends_def meta_ll_def)

lemma extends_on_files:
  "extends Q r s \<Longrightarrow> keeps (files s) (snd (op (files s))) \<Longrightarrow> extends Q r (snd (on_files op s))"
  unfolding on_files_eq snd_conv by (rule ext.trans, assumption, rule extends_new_files)

lemma extends_rpoll [simp]: "extends Q r (snd (rpoll s)) = extends Q r s"
  by (auto simp: rpoll_def split: list.split)

lemma extends_sql [simp]: "extends Q r (snd (sql s)) = extends Q r s"
  unfolding sql_def rfail_def by (auto simp: split_beta)

lemma extends_rfail [simp]: "extends Q r (snd (rfail e s)) = extends Q r s"
  by (simp add: rfail_def)


section \<open>Saving\<close>

lemma bare_versioned [simp]: "rev_content (versioned Q e) = versioned Q e"
  by (rule wf_obj_eqI) (auto simp: rev_content_def versioned_def payload_def Let_def,
    simp_all add: obj_def)

text \<open>The two outcomes of a successful commit.\<close>

lemma commit_shape:
  assumes ok: "ledger_ok Q l" and bare: "rev_content e = e" and c: "commit Q e pr b l = (e', l')"
  shows "space l' = space l" "authority l' = authority l"
    "e' = [] \<Longrightarrow> revs l' = revs l"
    "e' \<noteq> [] \<Longrightarrow> (l' = l \<and> e' = odel ''locations'' (object (jstr (oget ''path'' e)) l)
         \<and> oget ''version'' (object (jstr (oget ''path'' e)) l) = oget ''version'' e)
       \<or> (\<exists>r. revs l' = revs l @ [r] \<and> row_path r = jstr (oget ''path'' e) \<and> e' = projected (row_data r)
            \<and> oget ''object'' (row_data r) = JObj e \<and> valid_record Q e)"
proof -
  let ?p = "jstr (oget ''path'' e)"
  have r: "rows_ok Q (space l) (authority l) (revs l)" using ok by (simp add: ledger_ok_def)
  define n where "n = counter (oget ''sequence'' (ledger_state l)) + 1"
  have n: "n = int (length (revs l)) + 1"
    using state_sequence [OF r] by (simp add: n_def counter_jnumstr)
  let ?d = "new_revision Q e n pr b l"
  obtain ok1 l1 where a: "append_revision ?d l = (ok1, l1)" by (cases "append_revision ?d l")
  note step = append_revision_cases [OF r commit_row_ok [OF r bare _ n] a]
  have p: "row_path (row_of ?d) = ?p" "oget ''object'' (row_data (row_of ?d)) = JObj e"
    by (simp_all add: oget_new_revision bare)
  have nonempty: "projected ?d \<noteq> []" by (simp add: projected_def oget_new_revision)
  note c' = c [unfolded commit_def Let_def n_def [symmetric] a]
  show "space l' = space l" "authority l' = authority l"
    using c' step(1) by (auto split: if_splits)
  show "e' = [] \<Longrightarrow> revs l' = revs l"
    using c' step(3) nonempty by (auto split: if_splits)
  show "e' \<noteq> [] \<Longrightarrow> (l' = l \<and> e' = odel ''locations'' (object ?p l) \<and> oget ''version'' (object ?p l) = oget ''version'' e)
       \<or> (\<exists>r. revs l' = revs l @ [r] \<and> row_path r = ?p \<and> e' = projected (row_data r)
            \<and> oget ''object'' (row_data r) = JObj e \<and> valid_record Q e)"
  proof (cases "oget ''version'' (object ?p l) = oget ''version'' e")
    case True
    with c' show ?thesis by auto
  next
    case False
    assume "e' \<noteq> []"
    with False c' have v: "valid_record Q e" "n \<le> max_counter" "ok1" "e' = projected ?d" "l' = l1"
      by (auto split: if_splits)
    have "revs l1 = revs l @ [row_of ?d]" using step(2) [OF v(1,2) _ v(3)] by blast
    with v p have "revs l' = revs l @ [row_of ?d] \<and> row_path (row_of ?d) = ?p
        \<and> e' = projected (row_data (row_of ?d)) \<and> oget ''object'' (row_data (row_of ?d)) = JObj e \<and> valid_record Q e"
      by (simp only: row_of_simps)
    then show ?thesis by blast
  qed
qed


lemma versioned_cong: "payload a = payload b \<Longrightarrow> versioned Q a = versioned Q b"
  by (simp add: versioned_def)

lemma rows_ok_valid:
  assumes "rows_ok Q sp au rows" "r \<in> set rows"
  shows "valid_record Q (jobject (oget ''object'' (row_data r)))"
    "row_path r = jstr (oget ''path'' (jobject (oget ''object'' (row_data r))))"
  using assms by (auto simp: rows_ok_def row_ok_def in_set_conv_nth)

lemma payload_projected: "payload (projected r) = payload (jobject (oget ''object'' r))"
  by (rule payload_cong) (auto simp: oget_projected)

lemma oget_version_object:
  "oget ''version'' (object p l) = (case latest_row p (revs l) of None \<Rightarrow> JUndef
     | Some r \<Rightarrow> oget ''version'' (jobject (oget ''object'' (row_data r))))"
  by (simp add: object_def Let_def oget_projected split: option.split)

lemma commit_entry:
  assumes ok: "ledger_ok Q l" and c: "commit Q (versioned Q i) pr b l = (e', l')" and ne: "e' \<noteq> []"
  shows "jstr (oget ''path'' e') = jstr (oget ''path'' i)"
    "oget ''version'' e' = oget ''version'' (versioned Q i)"
    "jstr (oget ''version'' e') = jstr (oget ''version'' (versioned Q e'))"
    "oget ''version'' (object (jstr (oget ''path'' i)) l') = oget ''version'' e'"
    "q \<noteq> jstr (oget ''path'' i) \<Longrightarrow> oget ''version'' (object q l') = oget ''version'' (object q l)"
proof -
  let ?e = "versioned Q i"
  have p: "jstr (oget ''path'' ?e) = jstr (oget ''path'' i)" by (simp add: oget_versioned oget_payload)
  from commit_shape(4) [OF ok bare_versioned c ne] consider
     (same) "l' = l" "e' = odel ''locations'' (object (jstr (oget ''path'' i)) l)"
         "oget ''version'' (object (jstr (oget ''path'' i)) l) = oget ''version'' ?e"
   | (new) r where "revs l' = revs l @ [r]" "row_path r = jstr (oget ''path'' i)" "e' = projected (row_data r)"
         "oget ''object'' (row_data r) = JObj ?e"
    unfolding p by blast
  then have "jstr (oget ''path'' e') = jstr (oget ''path'' i)
    \<and> oget ''version'' e' = oget ''version'' ?e
    \<and> jstr (oget ''version'' e') = jstr (oget ''version'' (versioned Q e'))
    \<and> oget ''version'' (object (jstr (oget ''path'' i)) l') = oget ''version'' e'
    \<and> (q \<noteq> jstr (oget ''path'' i) \<longrightarrow> oget ''version'' (object q l') = oget ''version'' (object q l))"
  proof cases
    case same
    have "latest_row (jstr (oget ''path'' i)) (revs l) \<noteq> None"
      using same ne by (metis object_Nil_iff filter.simps(1) odel_def)
    then obtain r where r: "latest_row (jstr (oget ''path'' i)) (revs l) = Some r" by blast
    let ?o = "jobject (oget ''object'' (row_data r))"
    have v: "valid_record Q ?o" "jstr (oget ''path'' ?o) = jstr (oget ''path'' i)"
      using rows_ok_valid [OF ok [unfolded ledger_ok_def], of r] latest_row_Some [OF r] by simp_all
    have e': "oget k e' = oget k (projected (row_data r))" if "k \<noteq> ''locations''" for k
      using that same(2) oget_object [OF _ r] by simp
    have "payload e' = payload ?o"
      unfolding payload_projected [symmetric] by (rule payload_cong) (auto simp: e')
    from versioned_cong [OF this] show ?thesis
      using same v e' by (simp add: oget_projected valid_record_def Let_def)
  next
    case new
    have "payload e' = payload i"
      using new by (simp add: payload_projected)
    from versioned_cong [OF this, of Q] show ?thesis
      using new p by (simp add: oget_version_object latest_row_snoc oget_projected)
  qed
  then show "jstr (oget ''path'' e') = jstr (oget ''path'' i)"
    "oget ''version'' e' = oget ''version'' (versioned Q i)"
    "jstr (oget ''version'' e') = jstr (oget ''version'' (versioned Q e'))"
    "oget ''version'' (object (jstr (oget ''path'' i)) l') = oget ''version'' e'"
    "q \<noteq> jstr (oget ''path'' i) \<Longrightarrow> oget ''version'' (object q l') = oget ''version'' (object q l)"
    by auto
qed


lemma set_upsert: "distinct (map fst xs) \<Longrightarrow> set (upsert k v xs) = insert (k, v) {x \<in> set xs. fst x \<noteq> k}"
  by (induction k v xs rule: upsert.induct) (auto simp: rev_image_eqI)

lemma distinct_upsert_value:
  assumes "distinct (map fst xs)" "distinct (map (\<lambda>x. g (snd x)) xs)" "\<And>x. x \<in> set xs \<Longrightarrow> fst x \<noteq> k \<Longrightarrow> g (snd x) \<noteq> g v"
  shows "distinct (map (\<lambda>x. g (snd x)) (upsert k v xs))"
  using assms
proof (induction k v xs rule: upsert.induct)
  case (2 k v a b xs)
  have "(\<lambda>x. g (snd x)) ` set (upsert k v xs) \<subseteq> insert (g v) ((\<lambda>x. g (snd x)) ` {x \<in> set xs. fst x \<noteq> k})"
    using set_upsert [of xs k v] "2.prems"(1) by auto
  moreover have "g v \<noteq> g b" if "k \<noteq> a"
    using "2.prems"(3) [of "(a, b)"] that by auto
  moreover have "g v \<notin> (\<lambda>x. g (snd x)) ` set xs" if "k = a"
  proof
    assume "g v \<in> (\<lambda>x. g (snd x)) ` set xs"
    then obtain x where x: "x \<in> set xs" "g (snd x) = g v" by auto
    then have "fst x \<noteq> k" using "2.prems"(1) that by (auto simp: rev_image_eqI)
    then show False using "2.prems"(3) [of x] x by simp
  qed
  moreover have "distinct (map (\<lambda>x. g (snd x)) (upsert k v xs))" if "k \<noteq> a"
    by (rule "2.IH" [OF that]) (use "2.prems" in simp_all)
  ultimately show ?case using "2.prems"(2) by auto
qed simp

text \<open>The document \<open>save\<close> stores, on the authority and on a mirror.\<close>

lemma oget_namespaced: "oget k (foldl (\<lambda>e k. oput k (oget k i) e) e namespace_keys)
    = (if k \<in> set namespace_keys then oget k i else oget k e)"
  by (simp add: namespace_keys_def)

lemma stored_spec:
  assumes ok: "store_ok Q r" and s: "stored Q i prev r = (e, why, r1)" and ne: "meta ''host'' r = [] \<longrightarrow> e \<noteq> []"
  shows "jstr (oget ''path'' e) = jstr (oget ''path'' i)" "oget ''version'' e = oget ''version'' (versioned Q i)"
    "jstr (oget ''version'' e) = jstr (oget ''version'' (versioned Q e))"
    "meta ''host'' r = [] \<Longrightarrow> oget ''version'' (object (jstr (oget ''path'' i)) (journal r1)) = oget ''version'' e"
    "meta ''host'' r = [] \<Longrightarrow> q \<noteq> jstr (oget ''path'' i) \<Longrightarrow> oget ''version'' (object q (journal r1)) = oget ''version'' (object q (journal r))"
    "meta ''host'' r \<noteq> [] \<Longrightarrow> r1 = r"
proof -
  have ledger: "ledger_ok Q (journal r)" using ok by (simp add: store_ok_def)
  have path: "jstr (oget ''path'' (versioned Q i)) = jstr (oget ''path'' i)"
    by (simp add: oget_versioned oget_payload)
  have "jstr (oget ''path'' e) = jstr (oget ''path'' i) \<and> oget ''version'' e = oget ''version'' (versioned Q i)
    \<and> jstr (oget ''version'' e) = jstr (oget ''version'' (versioned Q e))
    \<and> (meta ''host'' r = [] \<longrightarrow> oget ''version'' (object (jstr (oget ''path'' i)) (journal r1)) = oget ''version'' e
        \<and> (q \<noteq> jstr (oget ''path'' i) \<longrightarrow> oget ''version'' (object q (journal r1)) = oget ''version'' (object q (journal r))))
    \<and> (meta ''host'' r \<noteq> [] \<longrightarrow> r1 = r)"
  proof (cases "meta ''host'' r = []")
    case True
    obtain l where c: "commit Q (versioned Q i) (proposal r) (proposal_base r) (journal r) = (e, l)"
      and r1: "r1 = r\<lparr>db := (db r)\<lparr>rev_rows := revs l, loc_rows := locations l\<rparr>, faults := sqlfault l\<rparr>"
      using s True by (auto simp: stored_def Let_def on_journal_def split: prod.splits)
    have v: "oget ''version'' (object p (journal r1)) = oget ''version'' (object p l)" for p
      by (rule object_version_cong) (simp add: r1 journal_def)
    show ?thesis
      using commit_entry [OF ledger c ne [rule_format, OF True]] True by (simp add: v)
  next
    case False
    have "payload e = payload i"
    proof (cases "has_key ''revision'' i")
      case True
      with s False have "e = foldl (\<lambda>e k. oput k (oget k i) e) (versioned Q i) namespace_keys"
        by (simp add: stored_def Let_def)
      then show ?thesis
        by (intro payload_cong) (auto simp: oget_namespaced namespace_keys_def oget_versioned oget_payload)
    next
      case False
      with s \<open>meta ''host'' r \<noteq> []\<close> obtain b where "e = oput ''baseRevision'' b (versioned Q i)"
        by (auto simp: stored_def Let_def)
      then show ?thesis by (intro payload_cong) (auto simp: oget_versioned oget_payload)
    qed
    moreover have "oget ''path'' e = oget ''path'' i" "oget ''version'' e = oget ''version'' (versioned Q i)" "r1 = r"
      using s False by (auto simp: stored_def Let_def oget_namespaced namespace_keys_def oget_versioned oget_payload split: if_splits)
    ultimately show ?thesis using False versioned_cong [of e i Q] by simp
  qed
  then show "jstr (oget ''path'' e) = jstr (oget ''path'' i)" "oget ''version'' e = oget ''version'' (versioned Q i)"
    "jstr (oget ''version'' e) = jstr (oget ''version'' (versioned Q e))"
    "meta ''host'' r = [] \<Longrightarrow> oget ''version'' (object (jstr (oget ''path'' i)) (journal r1)) = oget ''version'' e"
    "meta ''host'' r = [] \<Longrightarrow> q \<noteq> jstr (oget ''path'' i) \<Longrightarrow> oget ''version'' (object q (journal r1)) = oget ''version'' (object q (journal r))"
    "meta ''host'' r \<noteq> [] \<Longrightarrow> r1 = r" by auto
qed

text \<open>What \<open>stored\<close> leaves alone, and the chain it keeps.\<close>

lemma stored_frame:
  assumes s: "stored Q i prev r = (e, why, r1)"
  shows "same_ids r r1" "files r1 = files r" "entry_rows (db r1) = entry_rows (db r)" "meta_rows (db r1) = meta_rows (db r)"
    "ledger_ok Q (journal r) \<Longrightarrow> ledger_ok Q (journal r1) \<and> (\<exists>ds. rev_rows (db r1) = rev_rows (db r) @ ds)"
proof -
  show f: "same_ids r r1" "files r1 = files r" "entry_rows (db r1) = entry_rows (db r)" "meta_rows (db r1) = meta_rows (db r)"
    using s by (auto simp: stored_def Let_def on_journal_def same_ids_def split: prod.splits if_splits)
  assume ledger: "ledger_ok Q (journal r)"
  show "ledger_ok Q (journal r1) \<and> (\<exists>ds. rev_rows (db r1) = rev_rows (db r) @ ds)"
  proof (cases "meta ''host'' r = []")
    case True
    obtain l where c: "commit Q (versioned Q i) (proposal r) (proposal_base r) (journal r) = (e, l)"
      and r1: "r1 = r\<lparr>db := (db r)\<lparr>rev_rows := revs l, loc_rows := locations l\<rparr>, faults := sqlfault l\<rparr>"
      using s True by (auto simp: stored_def Let_def on_journal_def split: prod.splits)
    note sh = commit_shape [OF ledger bare_versioned c]
    have "revs l = revs (journal r) \<or> (\<exists>x. revs l = revs (journal r) @ [x])"
      using sh(3,4) by (cases "e = []") auto
    moreover have "ledger_ok Q l"
      using commit_chain [OF ledger bare_versioned [of Q i], of "proposal r" "proposal_base r"] c by simp
    moreover have "space (journal r1) = space l" "authority (journal r1) = authority l" "revs (journal r1) = revs l"
      using sh(1,2) by (simp_all add: r1 journal_def) 
    ultimately show ?thesis by (auto simp: ledger_ok_def r1 journal_def)
  next
    case False
    with s ledger show ?thesis by (auto simp: stored_def Let_def split: if_splits)
  qed
qed


lemma entry_simps: "entry p r = (case map_of (entry_rows (db r)) p of None \<Rightarrow> [] | Some w \<Rightarrow> oput ''sequence'' (jnumstr (rseq w)) (rdata w))"
  by (simp add: entry_def)

lemma store_row:
  assumes "store_ok Q r" "map_of (entry_rows (db r)) p = Some w"
  shows "row_fits Q r (p, w)" "jll (oget ''sequence'' (entry p r)) = rseq w" "oget ''version'' (entry p r) = oget ''version'' (rdata w)"
proof -
  show f: "row_fits Q r (p, w)"
    using assms by (auto simp: store_ok_def list_all_iff dest: map_of_SomeD)
  have "in_int64 (rseq w)"
    using f assms(1) by (auto simp: row_fits_def store_ok_def intro: max_counter_int64)
  then show "jll (oget ''sequence'' (entry p r)) = rseq w" "oget ''version'' (entry p r) = oget ''version'' (rdata w)"
    using assms(2) by (simp_all add: entry_def)
qed

text \<open>Putting the stored document in its row keeps the index.\<close>

lemma upsert_store_ok:
  assumes ok: "store_ok Q r" and led: "ledger_ok Q (journal s)"
    and rows: "entry_rows (db s) = upsert p \<lparr>rdata = e, rstamp = st, rseq = n\<rparr> (entry_rows (db r))" "meta ''host'' s = meta ''host'' r"
    and e: "jstr (oget ''path'' e) = p" "jstr (oget ''version'' e) = jstr (oget ''version'' (versioned Q e))"
      "meta ''host'' r = [] \<Longrightarrow> oget ''version'' (object p (journal s)) = oget ''version'' e"
      "\<And>q. meta ''host'' r = [] \<Longrightarrow> q \<noteq> p \<Longrightarrow> oget ''version'' (object q (journal s)) = oget ''version'' (object q (journal r))"
    and seq: "oget ''version'' (entry p r) \<noteq> oget ''version'' e \<Longrightarrow> n = meta_ll ''sequence'' r + 1 \<and> n \<le> max_counter \<and> meta_ll ''sequence'' s = n"
      "oget ''version'' (entry p r) = oget ''version'' e \<Longrightarrow> n = jll (oget ''sequence'' (entry p r)) \<and> meta_ll ''sequence'' s = meta_ll ''sequence'' r"
      "oget ''version'' e \<noteq> JUndef"
  shows "store_ok Q s" "meta_ll ''sequence'' r \<le> meta_ll ''sequence'' s"
proof -
  let ?w = "\<lparr>rdata = e, rstamp = st, rseq = n\<rparr>"
  have d: "distinct (map fst (entry_rows (db r)))" "distinct (map (\<lambda>pw. rseq (snd pw)) (entry_rows (db r)))"
    and fits: "\<And>x. x \<in> set (entry_rows (db r)) \<Longrightarrow> row_fits Q r x"
    and m: "0 \<le> meta_ll ''sequence'' r" "meta_ll ''sequence'' r \<le> max_counter"
    using ok by (auto simp: store_ok_def list_all_iff)
  have n: "1 \<le> n \<and> n \<le> meta_ll ''sequence'' s \<and> meta_ll ''sequence'' s \<le> max_counter \<and> meta_ll ''sequence'' r \<le> meta_ll ''sequence'' s
     \<and> (\<forall>x\<in>set (entry_rows (db r)). fst x \<noteq> p \<longrightarrow> rseq (snd x) \<noteq> n)"
  proof (cases "oget ''version'' (entry p r) = oget ''version'' e")
    case True
    then have "map_of (entry_rows (db r)) p \<noteq> None" using seq(3) by (auto simp: entry_def split: option.splits)
    then obtain w where w: "map_of (entry_rows (db r)) p = Some w" by blast
    have "n = rseq w" using store_row(2) [OF ok w] seq(2) [OF True] by simp
    moreover have "rseq (snd x) \<noteq> rseq w" if x: "x \<in> set (entry_rows (db r))" "fst x \<noteq> p" for x
    proof
      assume "rseq (snd x) = rseq w"
      then have "x = (p, w)" using d(2) [unfolded distinct_map] x(1) map_of_SomeD [OF w]
        by (metis (mono_tags, lifting) inj_onD snd_conv)
      then show False using x(2) by simp
    qed
    ultimately show ?thesis using store_row(1) [OF ok w] seq(2) [OF True] m by (auto simp: row_fits_def)
  next
    case False
    with seq(1) m fits show ?thesis by (auto simp: row_fits_def) fastforce
  qed
  show "meta_ll ''sequence'' r \<le> meta_ll ''sequence'' s" using n by simp
  have "row_fits Q s x" if "x \<in> insert (p, ?w) {x \<in> set (entry_rows (db r)). fst x \<noteq> p}" for x
    using that n e fits [of x] by (auto simp: row_fits_def rows)
  moreover have "distinct (map (\<lambda>pw. rseq (snd pw)) (entry_rows (db s)))"
    unfolding rows by (rule distinct_upsert_value [OF d]) (use n in auto)
  ultimately show "store_ok Q s"
    using d n m led by (auto simp: store_ok_def rows list_all_iff set_upsert [OF d(1)])
qed

lemma sql_frame: "sql r = (b, r') \<Longrightarrow> same_view r r' \<and> files r' = files r"
  using sql_eq [of r b r'] by (auto simp: same_view_def)

lemma set_meta_frame:
  "set_meta k v r = (True, r') \<Longrightarrow> \<exists>fl e. r' = r\<lparr>db := (db r)\<lparr>meta_rows := upsert k v (meta_rows (db r))\<rparr>, faults := fl, rerror := e\<rparr>"
proof -
  assume m: "set_meta k v r = (True, r')"
  obtain c t where s: "sql r = (c, t)" by (cases "sql r")
  from sql_eq [OF s] obtain fl e where "t = r\<lparr>faults := fl, rerror := e\<rparr>" by blast
  with m s have "r' = r\<lparr>db := (db r)\<lparr>meta_rows := upsert k v (meta_rows (db r))\<rparr>, faults := fl, rerror := e\<rparr>"
    by (auto simp: set_meta_def split: if_splits)
  then show ?thesis by blast
qed

lemma locate_revs: "revs (snd (locate v w l)) = revs l"
  by (auto simp: locate_def jfail_def Let_def split: prod.splits dest!: sql_ok_fields(1))

lemma on_journal_locate:
  "on_journal (locate v w) r = (b, why, s) \<Longrightarrow> \<exists>ls fl. s = r\<lparr>db := (db r)\<lparr>loc_rows := ls\<rparr>, faults := fl\<rparr>"
  using locate_revs [of v w "journal r"]
  by (auto simp: on_journal_def split_beta Let_def journal_def)

text \<open>A successful body: the steps it took.\<close>

lemma save_body_cases:
  assumes b: "save_body Q i st r = (True, s)"
  obtains e why r1 n where
    "stored Q i (entry (jstr (oget ''path'' i)) r) r = (e, why, r1)" "meta ''host'' r = [] \<longrightarrow> e \<noteq> []"
    "entry_rows (db s) = upsert (jstr (oget ''path'' e)) \<lparr>rdata = e, rstamp = st, rseq = n\<rparr> (entry_rows (db r))"
    "rev_rows (db s) = rev_rows (db r1)" "same_ids r s" "files s = files r"
    "oget ''version'' (entry (jstr (oget ''path'' i)) r) \<noteq> oget ''version'' e \<Longrightarrow>
       n = meta_ll ''sequence'' r + 1 \<and> n \<le> max_counter \<and> meta ''sequence'' s = num_str n"
    "oget ''version'' (entry (jstr (oget ''path'' i)) r) = oget ''version'' e \<Longrightarrow>
       n = jll (oget ''sequence'' (entry (jstr (oget ''path'' i)) r)) \<and> meta ''sequence'' s = meta ''sequence'' r"
proof -
  have path: "jstr (oget ''path'' (versioned Q i)) = jstr (oget ''path'' i)" by (simp add: oget_versioned oget_payload)
  let ?prev = "entry (jstr (oget ''path'' i)) r"
  obtain e why r1 where s: "stored Q i ?prev r = (e, why, r1)" using prod_cases3 by blast
  note frame = stored_frame [OF s]
  define moved where "moved \<longleftrightarrow> oget ''version'' ?prev \<noteq> oget ''version'' e"
  define n where "n = (if moved then meta_ll ''sequence'' r1 + 1 else jll (oget ''sequence'' ?prev))"
  obtain c r2 where c: "(if moved then set_meta ''sequence'' (num_str n) r1 else (True, r1)) = (c, r2)"
    by (cases "(if moved then set_meta ''sequence'' (num_str n) r1 else (True, r1))")
  obtain d r3 where d: "sql r2 = (d, r3)" by (cases "sql r2")
  let ?r4 = "put_row (jstr (oget ''path'' e)) \<lparr>rdata = e, rstamp = st, rseq = n\<rparr> r3"
  note b' = b [unfolded save_body_def Let_def path s prod.case moved_def [symmetric] n_def [symmetric] c d]
  have ok: "c" "d" "meta ''host'' r = [] \<longrightarrow> e \<noteq> []" "moved \<Longrightarrow> n \<le> max_counter"
    using b' by (auto simp: rfail_def split: if_splits)
  have r2: "(\<exists>fl er. r2 = r1\<lparr>db := (db r1)\<lparr>meta_rows := upsert ''sequence'' (num_str n) (meta_rows (db r1))\<rparr>, faults := fl, rerror := er\<rparr>)"
    if moved using c ok(1) that set_meta_frame by simp
  have r2': "r2 = r1" if "\<not> moved" using c that by simp
  have last: "\<exists>ls fl. s = ?r4\<lparr>db := (db ?r4)\<lparr>loc_rows := ls\<rparr>, faults := fl\<rparr>"
  proof (cases "st \<noteq> ''remote'' \<and> oget ''kind'' e = JStr ''file'' \<and> has_key ''revision'' e")
    case True
    then show ?thesis using b' ok
      by (auto simp: rfail_def split: if_splits prod.splits dest!: on_journal_locate)
  next
    case False
    have "?r4 = ?r4\<lparr>db := (db ?r4)\<lparr>loc_rows := loc_rows (db ?r4)\<rparr>, faults := faults ?r4\<rparr>" by simp
    moreover have "s = ?r4" using False b' ok by (auto simp: rfail_def split: if_splits)
    ultimately show ?thesis by metis
  qed
  have r3: "\<exists>fl er. r3 = r2\<lparr>faults := fl, rerror := er\<rparr>" using sql_eq [OF d] .
  have mr: "meta k r1 = meta k r" for k using frame(4) by (simp add: meta_def)
  have same: "same_ids r1 s \<and> files s = files r1 \<and> rev_rows (db s) = rev_rows (db r1)
      \<and> entry_rows (db s) = upsert (jstr (oget ''path'' e)) \<lparr>rdata = e, rstamp = st, rseq = n\<rparr> (entry_rows (db r1))
      \<and> meta ''sequence'' s = (if moved then num_str n else meta ''sequence'' r1)"
    using last r3 r2 r2' by (cases moved) (auto simp: same_ids_def put_row_def meta_def)
  show thesis
  proof (rule that [OF s ok(3)])
    show "same_ids r s" using same frame(1) by (auto simp: same_ids_def)
    show "rev_rows (db s) = rev_rows (db r1)" "files s = files r"
      "entry_rows (db s) = upsert (jstr (oget ''path'' e)) \<lparr>rdata = e, rstamp = st, rseq = n\<rparr> (entry_rows (db r))"
      using same frame by simp_all
    show "n = meta_ll ''sequence'' r + 1 \<and> n \<le> max_counter \<and> meta ''sequence'' s = num_str n"
      if "oget ''version'' ?prev \<noteq> oget ''version'' e"
      using that same ok(4) mr by (simp add: moved_def n_def meta_ll_def)
    show "n = jll (oget ''sequence'' ?prev) \<and> meta ''sequence'' s = meta ''sequence'' r"
      if "oget ''version'' ?prev = oget ''version'' e"
      using that same mr by (simp add: moved_def n_def)
  qed
qed

lemma same_ids_trans: "same_ids r s \<Longrightarrow> same_ids s t \<Longrightarrow> same_ids r t"
  by (simp add: same_ids_def)

lemma same_ids_journal: "same_ids r s \<Longrightarrow> space (journal s) = space (journal r) \<and> authority (journal s) = authority (journal r)"
  by (simp add: same_ids_def space_journal)

lemma version_not_JUndef [simp]: "oget ''version'' (versioned Q i) \<noteq> JUndef"
  by (simp add: oget_versioned)

text \<open>A successful body extends the store, and the row it wrote is the stored document.\<close>

lemma save_body_ok:
  assumes b: "save_body Q i st r = (True, s)"
  shows "extends Q r s"
    "store_ok Q r \<Longrightarrow> \<exists>w. map_of (entry_rows (db s)) (jstr (oget ''path'' i)) = Some w \<and> rstamp w = st
       \<and> oget ''version'' (rdata w) = oget ''version'' (versioned Q i)"
    "store_ok Q r \<Longrightarrow> q \<noteq> jstr (oget ''path'' i) \<Longrightarrow> map_of (entry_rows (db s)) q = map_of (entry_rows (db r)) q"
proof -
  let ?p = "jstr (oget ''path'' i)"
  have "extends Q r s \<and> (store_ok Q r \<longrightarrow> (\<exists>w. map_of (entry_rows (db s)) ?p = Some w \<and> rstamp w = st
       \<and> oget ''version'' (rdata w) = oget ''version'' (versioned Q i))
     \<and> (q \<noteq> ?p \<longrightarrow> map_of (entry_rows (db s)) q = map_of (entry_rows (db r)) q))"
  proof (rule save_body_cases [OF b])
  fix e why r1 n
  assume c: "stored Q i (entry ?p r) r = (e, why, r1)" "meta ''host'' r = [] \<longrightarrow> e \<noteq> []"
    "entry_rows (db s) = upsert (jstr (oget ''path'' e)) \<lparr>rdata = e, rstamp = st, rseq = n\<rparr> (entry_rows (db r))"
    "rev_rows (db s) = rev_rows (db r1)" "same_ids r s" "files s = files r"
    "oget ''version'' (entry ?p r) \<noteq> oget ''version'' e \<Longrightarrow> n = meta_ll ''sequence'' r + 1 \<and> n \<le> max_counter \<and> meta ''sequence'' s = num_str n"
    "oget ''version'' (entry ?p r) = oget ''version'' e \<Longrightarrow> n = jll (oget ''sequence'' (entry ?p r)) \<and> meta ''sequence'' s = meta ''sequence'' r"
  have host: "meta ''host'' s = meta ''host'' r" using c(5) by (simp add: same_ids_def)
  have spec: "store_ok Q s \<and> (\<exists>ds. rev_rows (db s) = rev_rows (db r) @ ds) \<and> meta_ll ''sequence'' r \<le> meta_ll ''sequence'' s
      \<and> jstr (oget ''path'' e) = ?p \<and> oget ''version'' e = oget ''version'' (versioned Q i)" if ok: "store_ok Q r"
  proof -
    note st = stored_spec [OF ok c(1,2)]
    have led: "ledger_ok Q (journal r)" using ok by (simp add: store_ok_def)
    from stored_frame(5) [OF c(1) led] have r1: "ledger_ok Q (journal r1)" "\<exists>ds. rev_rows (db r1) = rev_rows (db r) @ ds" by auto
    have ids: "same_ids r1 s" using stored_frame(1) [OF c(1)] c(5) by (simp add: same_ids_def)
    have led': "ledger_ok Q (journal s)"
      using r1(1) same_ids_journal [OF ids] c(4) by (simp add: ledger_ok_def space_journal(3))
    have v: "oget ''version'' (object q (journal s)) = oget ''version'' (object q (journal r1))" for q
      by (rule object_version_cong) (simp add: space_journal c(4))
    have bound: "0 \<le> meta_ll ''sequence'' r" using ok by (simp only: store_ok_def)
    have seq: "oget ''version'' (entry ?p r) \<noteq> oget ''version'' e \<Longrightarrow> n = meta_ll ''sequence'' r + 1 \<and> n \<le> max_counter \<and> meta_ll ''sequence'' s = n"
      "oget ''version'' (entry ?p r) = oget ''version'' e \<Longrightarrow> n = jll (oget ''sequence'' (entry ?p r)) \<and> meta_ll ''sequence'' s = meta_ll ''sequence'' r"
      using c(7) bound max_counter_int64 [of n] apply (simp add: meta_ll_def [of _ s])
      using c(8) apply (simp add: meta_ll_def) done
    have "oget ''version'' e \<noteq> JUndef" using st(2) version_not_JUndef by metis
    moreover have "meta ''host'' r = [] \<Longrightarrow> oget ''version'' (object ?p (journal s)) = oget ''version'' e"
      "\<And>q. meta ''host'' r = [] \<Longrightarrow> q \<noteq> ?p \<Longrightarrow> oget ''version'' (object q (journal s)) = oget ''version'' (object q (journal r))"
      unfolding v using st(4) stored_spec(5) [OF ok c(1,2)] by simp_all
    ultimately have "store_ok Q s \<and> meta_ll ''sequence'' r \<le> meta_ll ''sequence'' s"
      using upsert_store_ok [OF ok led' c(3) [unfolded st(1)] host st(1) st(3) _ _ seq] by simp
    then show ?thesis using r1(2) c(4) st(1,2) by simp
  qed
  show ?thesis using spec c(3,5,6) by (simp add: extends_def)
  qed
  then show "extends Q r s" "store_ok Q r \<Longrightarrow> \<exists>w. map_of (entry_rows (db s)) ?p = Some w \<and> rstamp w = st
       \<and> oget ''version'' (rdata w) = oget ''version'' (versioned Q i)"
    "store_ok Q r \<Longrightarrow> q \<noteq> ?p \<Longrightarrow> map_of (entry_rows (db s)) q = map_of (entry_rows (db r)) q"
    by blast+
qed


text \<open>A failed body may have written, but not outside the database and the fault list.\<close>

definition same_outside :: "replica \<Rightarrow> replica \<Rightarrow> bool" where
  "same_outside r s \<longleftrightarrow> files s = files r \<and> drive s = drive r \<and> rid s = rid r \<and> scope s = scope r
     \<and> db_open s = db_open r \<and> manifests s = manifests r \<and> leases s = leases r \<and> proposal s = proposal r
     \<and> proposal_base s = proposal_base r"

interpretation outside: op_rel same_outside
  by unfold_locales (simp_all add: same_outside_def)

lemma outside_fields [simp]: "same_outside r (s\<lparr>faults := fl\<rparr>) = same_outside r s"
  "same_outside r (s\<lparr>rerror := e\<rparr>) = same_outside r s" "same_outside r (s\<lparr>db := d\<rparr>) = same_outside r s"
  by (simp_all add: same_outside_def)

lemma outside_rpoll [simp]: "same_outside r (snd (rpoll s)) = same_outside r s"
  by (simp add: rpoll_def split: list.split)

lemma outside_rfail [simp]: "same_outside r (snd (rfail e s)) = same_outside r s"
  by (simp add: rfail_def)

lemma outside_sql [simp]: "same_outside r (snd (sql s)) = same_outside r s"
  by (simp add: sql_def split_beta rfail_def)

lemma outside_set_meta [simp]: "same_outside r (snd (set_meta k v s)) = same_outside r s"
  by (simp add: set_meta_def split_beta Let_def)

lemma outside_on_journal [simp]: "same_outside r (snd (snd (on_journal op s))) = same_outside r s"
  by (simp add: on_journal_def split_beta Let_def)

lemma outside_stored [simp]: "same_outside r (snd (snd (stored Q i p s))) = same_outside r s"
  by (simp add: stored_def Let_def)

lemma outside_put_row [simp]: "same_outside r (put_row p w s) = same_outside r s"
  by (simp add: put_row_def)

lemma outside_save_body [simp]: "same_outside r (snd (save_body Q i st s)) = same_outside r s"
  by (simp add: save_body_def Let_def split_beta)

lemma outside_view: "same_outside r s \<Longrightarrow> same_view r (s\<lparr>db := db r\<rparr>)"
  by (simp add: same_outside_def same_view_def)

text \<open>Saving is atomic: it fails and leaves the database as it was, or the row is written.\<close>

lemma save_cases:
  assumes "save Q i st r = (b, s)"
  shows "extends Q r s" "same_outside r s" "db s = db r \<or> (\<exists>t. save_body Q i st (snd (sql r)) = (True, t) \<and> db s = db t)"
    "b \<Longrightarrow> \<exists>t. save_body Q i st (snd (sql r)) = (True, t) \<and> db s = db t"
proof -
  obtain c r1 where c: "sql r = (c, r1)" by (cases "sql r")
  have v: "same_view r r1" "files r1 = files r" using sql_frame [OF c] by auto
  obtain d r2 where d: "save_body Q i st r1 = (d, r2)" by (cases "save_body Q i st r1")
  have o1: "same_outside r r1" using c by (metis outside.refl outside_sql snd_conv)
  have o2: "same_outside r1 r2" using d by (metis outside.refl outside_save_body snd_conv)
  obtain g r3 where g: "sql r2 = (g, r3)" by (cases "sql r2")
  note s = assms [unfolded save_def Let_def c prod.case d]
  have s': "s = (if \<not> c then r1 else if \<not> d then r2\<lparr>db := db r1\<rparr> else r3)" "b \<Longrightarrow> c \<and> d"
    using s g by (auto split: if_splits)
  have r3: "same_view r2 r3" "files r3 = files r2" "same_outside r r3"
    using sql_frame [OF g] g o1 o2 by (auto intro: outside.trans) (metis outside.trans outside_sql snd_conv)
  have e1: "extends Q r r1" using view_extends(1) [OF v, of Q r] by simp
  have "extends Q r s \<and> same_outside r s \<and> (db s = db r \<or> (save_body Q i st r1 = (True, r2) \<and> db s = db r2))
     \<and> (b \<longrightarrow> save_body Q i st r1 = (True, r2) \<and> db s = db r2)"
  proof (cases "c \<and> d")
    case True
    then have s3: "s = r3" "d" using s' by auto
    have "extends Q r1 r2" using save_body_ok(1) [of Q i st r1 r2] d True by simp
    then have "extends Q r r3" using e1 view_extends(1) [OF r3(1,2)] ext.trans by blast
    moreover have "db r3 = db r2" using r3 by (simp add: same_view_def)
    ultimately show ?thesis using s3 r3 d True by simp
  next
    case False
    have db1: "db r1 = db r" using v by (simp add: same_view_def)
    have "same_view r1 (r2\<lparr>db := db r1\<rparr>)" "files (r2\<lparr>db := db r1\<rparr>) = files r1"
      using outside_view [OF o2] o2 by (simp_all add: same_outside_def)
    then have "extends Q r (r2\<lparr>db := db r1\<rparr>)" using e1 view_extends(1) by blast
    then show ?thesis using False s' db1 e1 o1 outside.trans [OF o1 o2] by (auto simp: same_outside_def)
  qed
  then show "extends Q r s" "same_outside r s" "db s = db r \<or> (\<exists>t. save_body Q i st (snd (sql r)) = (True, t) \<and> db s = db t)"
    "b \<Longrightarrow> \<exists>t. save_body Q i st (snd (sql r)) = (True, t) \<and> db s = db t"
    using c by auto
qed


section \<open>Observing\<close>

lemma extends_save [intro]: "extends Q x r \<Longrightarrow> extends Q x (snd (save Q i st r))"
  by (rule ext.trans, assumption) (metis save_cases(1) prod.collapse)

lemma extends_set_counter: "extends Q x r \<Longrightarrow> extends Q x (snd (set_meta ''counter'' v r))"
proof (rule ext.trans, assumption)
  obtain b s where s: "set_meta ''counter'' v r = (b, s)" by (cases "set_meta ''counter'' v r")
  show "extends Q r (snd (set_meta ''counter'' v r))"
  proof (cases b)
    case True
    with s have "set_meta ''counter'' v r = (True, s)" by simp
    from set_meta_frame [OF this] obtain fl e where
      e: "s = r\<lparr>db := (db r)\<lparr>meta_rows := upsert ''counter'' v (meta_rows (db r))\<rparr>, faults := fl, rerror := e\<rparr>" by blast
    let ?t = "r\<lparr>db := (db r)\<lparr>meta_rows := upsert ''counter'' v (meta_rows (db r))\<rparr>\<rparr>"
    have m: "meta k ?t = (if k = ''counter'' then v else meta k r)" for k by (simp add: meta_def)
    have "store_ok Q ?t = store_ok Q r" by (rule store_ok_cong) (simp_all add: m)
    then have "extends Q r ?t" by (simp add: extends_def same_ids_def m meta_ll_def)
    then show ?thesis using s e by simp
  next
    case False
    then have "s = snd (sql r)" using s by (auto simp: set_meta_def split: prod.splits if_splits)
    then show ?thesis using s by simp
  qed
qed

lemmas ext_rules = ext.call ext.cond ext.opt

lemma extends_local_edit [intro]: "extends Q x r \<Longrightarrow> extends Q x (snd (local_edit Q e st r))"
proof (rule ext.trans, assumption)
  show "extends Q r (snd (local_edit Q e st r))"
    unfolding local_edit_def Let_def
    by (intro ext.cond ext.call) (auto intro: extends_set_counter)
qed

lemma keeps_of_grows: "grows f (snd m) \<Longrightarrow> keeps f (snd m)"
  by (rule grows_keeps)

lemma extends_file_fail [simp]: "extends Q x (snd (file_fail r)) = extends Q x r"
  by (simp add: file_fail_def)

lemma extends_observed [intro]: "extends Q x r \<Longrightarrow> extends Q x (snd (observed Q p st v r))"
proof (rule ext.trans, assumption)
  show "extends Q r (snd (observed Q p st v r))"
    unfolding observed_def Let_def
    by (intro ext.cond ext.call) (auto intro!: extends_on_files keeps_of_grows split: if_splits)
qed


lemma grows_exact_parts [simp]: "grows f (snd (exact_parts Q pre ps f))"
proof (induction Q pre ps f rule: exact_parts.induct)
  case (2 Q pre part parts f)
  show ?case
    unfolding exact_parts.simps Let_def
  proof (rule grow.call)
    show "grows f (snd (fs_list (qjoin CHR ''/'' pre) f))" by simp
    fix ns g assume g: "fs_list (qjoin CHR ''/'' pre) f = (ns, g)"
    show "grows g (snd (case ns of None \<Rightarrow> (False, g)
         | Some ns \<Rightarrow> if part \<in> set ns then exact_parts Q (pre @ [part]) parts g
             else case fs_state Q (qjoin CHR ''/'' (pre @ [part])) g of
                    (None, f) \<Rightarrow> (False, f)
                  | (Some st, f) \<Rightarrow> if fkind st = ''deleted'' then (True, f) else ffail ''filename_normalization_collision'' f))"
    proof (rule grow.opt)
      fix names assume ns: "ns = Some names"
      show "grows g (snd (if part \<in> set names then exact_parts Q (pre @ [part]) parts g
             else case fs_state Q (qjoin CHR ''/'' (pre @ [part])) g of
                    (None, f) \<Rightarrow> (False, f)
                  | (Some st, f) \<Rightarrow> if fkind st = ''deleted'' then (True, f) else ffail ''filename_normalization_collision'' f))"
      proof (rule grow.cond)
        assume "part \<in> set names"
        then show "grows g (snd (exact_parts Q (pre @ [part]) parts g))" using 2 [OF g [symmetric] _ ns] by simp
      next
        have "grows g (snd (fs_state Q (qjoin CHR ''/'' (pre @ [part])) g))" by simp
        then show "grows g (snd (case fs_state Q (qjoin CHR ''/'' (pre @ [part])) g of
                    (None, f) \<Rightarrow> (False, f)
                  | (Some st, f) \<Rightarrow> if fkind st = ''deleted'' then (True, f) else ffail ''filename_normalization_collision'' f))"
          by (cases "fs_state Q (qjoin CHR ''/'' (pre @ [part])) g") (auto split: option.split)
      qed
    qed simp
  qed
qed simp

lemma grows_exact_path [simp]: "grows f (snd (exact_path Q p f))"
  by (simp add: exact_path_def)

lemma extends_refresh [intro]: "extends Q x r \<Longrightarrow> extends Q x (snd (refresh Q p r))"
proof (rule ext.trans, assumption)
  show "extends Q r (snd (refresh Q p r))"
    unfolding refresh_def Let_def
    by (intro ext.cond ext.call ext.opt) (auto intro!: extends_on_files keeps_of_grows)
qed

text \<open>When the index already describes the state, observing it does nothing.\<close>

definition indexed :: "string \<Rightarrow> fstate \<Rightarrow> replica \<Rightarrow> bool" where
  "indexed path st r \<longleftrightarrow> (fkind st = ''deleted'' \<and> (entry_stamp path r = ''remote'' \<or> entry path r = []))
     \<or> (jstr (oget ''kind'' (entry path r)) = fkind st \<and> entry_stamp path r = fstamp st)"

lemma observed_indexed: "rerror r = [] \<Longrightarrow> indexed path st r \<Longrightarrow> observed Q path st v r = (True, r)"
  by (auto simp: observed_def indexed_def Let_def)

lemma save_row:
  assumes "save Q i st r = (True, s)" "store_ok Q r"
  shows "\<exists>w. map_of (entry_rows (db s)) (jstr (oget ''path'' i)) = Some w \<and> rstamp w = st
     \<and> oget ''version'' (rdata w) = oget ''version'' (versioned Q i)"
    "q \<noteq> jstr (oget ''path'' i) \<Longrightarrow> map_of (entry_rows (db s)) q = map_of (entry_rows (db r)) q"
proof -
  obtain t where t: "save_body Q i st (snd (sql r)) = (True, t)" "db s = db t"
    using save_cases(4) [OF assms(1)] by auto
  have v: "same_view r (snd (sql r))" using sql_frame [of r] by (metis prod.collapse)
  have ok: "store_ok Q (snd (sql r))" using view_store_ok [OF v] assms(2) by simp
  show "\<exists>w. map_of (entry_rows (db s)) (jstr (oget ''path'' i)) = Some w \<and> rstamp w = st
     \<and> oget ''version'' (rdata w) = oget ''version'' (versioned Q i)"
    using save_body_ok(2) [OF t(1) ok] t(2) by simp
  show "q \<noteq> jstr (oget ''path'' i) \<Longrightarrow> map_of (entry_rows (db s)) q = map_of (entry_rows (db r)) q"
    using save_body_ok(3) [OF t(1) ok, of q] t(2) v by (simp add: same_view_def)
qed

lemma set_counter_store_ok: "set_meta ''counter'' v r = (b, t) \<Longrightarrow> store_ok Q r \<Longrightarrow> store_ok Q t"
  using extends_set_counter [OF ext.refl, of Q r v] by (simp add: extends_def)

lemma clock_advance:
  assumes "clk c k < n" "in_int64 n"
  shows "compare_clock (oput k (jnumstr n) c) c = 1"
  unfolding compare_clock_cases using assms by auto

lemma local_edit_row:
  assumes e: "local_edit Q e st r = (True, s)" and ok: "store_ok Q r" and c: "0 \<le> clk (jobject (oget ''clock'' e)) (rid r)"
  shows "\<exists>w c n. map_of (entry_rows (db s)) (jstr (oget ''path'' e)) = Some w \<and> rstamp w = st
     \<and> oget ''version'' (rdata w) = oget ''version'' (versioned Q (oput ''clock'' (JObj c) e))
     \<and> c = oput (rid r) (jnumstr n) (jobject (oget ''clock'' e)) \<and> n \<le> max_counter
     \<and> meta_ll ''counter'' r < n \<and> compare_clock c (jobject (oget ''clock'' e)) = 1"
proof -
  let ?c = "jobject (oget ''clock'' e)"
  define n where "n = max (meta_ll ''counter'' r) (jll (oget (rid r) ?c)) + 1"
  obtain b t where t: "set_meta ''counter'' (num_str n) r = (b, t)" by (cases "set_meta ''counter'' (num_str n) r")
  have "n \<le> max_counter \<and> b \<and> save Q (oput ''clock'' (JObj (oput (rid t) (jnumstr n) ?c)) e) st t = (True, s)"
    using e [unfolded local_edit_def Let_def, folded n_def, unfolded t prod.case]
    by (auto simp: rfail_def split: if_splits)
  moreover have "rid t = rid r" using t outside_set_meta [of r "''counter''" "num_str n" r] by (simp add: same_outside_def)
  ultimately have s: "n \<le> max_counter" "save Q (oput ''clock'' (JObj (oput (rid r) (jnumstr n) ?c)) e) st t = (True, s)" by simp_all
  have "in_int64 n" using s(1) c by (intro max_counter_int64) (auto simp: n_def)
  then have "compare_clock (oput (rid r) (jnumstr n) ?c) ?c = 1" by (intro clock_advance) (simp add: n_def)
  moreover from save_row(1) [OF s(2) set_counter_store_ok [OF t ok]] obtain w where
    "map_of (entry_rows (db s)) (jstr (oget ''path'' e)) = Some w" "rstamp w = st"
    "oget ''version'' (rdata w) = oget ''version'' (versioned Q (oput ''clock'' (JObj (oput (rid r) (jnumstr n) ?c)) e))"
    by auto
  moreover have "meta_ll ''counter'' r < n" by (simp add: n_def)
  ultimately show ?thesis using s(1) by blast
qed


lemma on_files_store_ok [simp]: "store_ok Q (snd (on_files op r)) = store_ok Q r"
  by (simp add: on_files_eq)

text \<open>The record an observation stores: the observed kind, size and content, and a clock that
  dominates the old one when the content changed.\<close>

lemma observed_row:
  assumes o: "observed Q path st v r = (True, s)" and ok: "store_ok Q r" and new: "\<not> indexed path st r"
    and c: "0 \<le> clk (jobject (oget ''clock'' (entry path r))) (rid r)" "map_of (entry_rows (db r)) path = None \<or> jstr (oget ''path'' (entry path r)) = path"
  shows "\<exists>w e h. map_of (entry_rows (db s)) path = Some w \<and> rstamp w = fstamp st
     \<and> oget ''version'' (rdata w) = oget ''version'' (versioned Q e)
     \<and> oget ''kind'' e = JStr (fkind st) \<and> oget ''size'' e = jnumstr (fsize st) \<and> oget ''hash'' e = JStr h
     \<and> (fkind st = ''file'' \<and> v = [] \<longrightarrow> fst (fs_hash Q (physical Q path) (fstamp st) (files r)) = Some h)
     \<and> (if content_equal e (entry path r) then e = entry path r
        else compare_clock (jobject (oget ''clock'' e)) (jobject (oget ''clock'' (entry path r))) = 1)"
proof -
  let ?old = "entry path r"
  define m where "m = (if fkind st \<noteq> ''file'' then (Some [], r) else if v \<noteq> [] then (Some v, r)
                            else on_files (fs_hash Q (physical Q path) (fstamp st)) r)"
  obtain ho r1 where m1: "m = (ho, r1)" by (cases m)
  define h where "h = (case ho of None \<Rightarrow> [] | Some h \<Rightarrow> h)"
  let ?e = "observed_entry path st h ?old"
  have "rerror r = []" using o by (auto simp: observed_def Let_def split: if_splits)
  with o new have step: "\<not> (fkind st = ''file'' \<and> h = [])"
    "(if content_equal ?e ?old then save Q ?old (fstamp st) r1 else local_edit Q ?e (fstamp st) r1) = (True, s)"
    using m1 by (auto simp: observed_def Let_def indexed_def m_def [symmetric] h_def file_fail_def rfail_def split: if_splits)
  have r1: "store_ok Q r1" "rid r1 = rid r" "db r1 = db r"
    using m1 ok by (auto simp: m_def on_files_eq split: if_splits)
  have hash: "fkind st = ''file'' \<and> v = [] \<longrightarrow> fst (fs_hash Q (physical Q path) (fstamp st) (files r)) = Some h"
    using m1 step(1) by (auto simp: m_def on_files_eq h_def split: if_splits option.splits)
  have e: "oget ''kind'' ?e = JStr (fkind st)" "oget ''size'' ?e = jnumstr (fsize st)" "oget ''hash'' ?e = JStr h"
    "oget ''path'' ?e = JStr path" "jobject (oget ''clock'' ?e) = jobject (oget ''clock'' ?old)"
    by (simp_all add: observed_entry_def obj_def)
  show ?thesis
  proof (cases "content_equal ?e ?old")
    case True
    then have k: "oget ''kind'' ?old = JStr (fkind st)" "oget ''size'' ?old = jnumstr (fsize st)" "oget ''hash'' ?old = JStr h"
      using e by (simp_all add: content_equal_def)
    then have "?old \<noteq> []" by auto
    then have "jstr (oget ''path'' ?old) = path" using c(2) by (auto simp: entry_def)
    moreover have "save Q ?old (fstamp st) r1 = (True, s)" using step(2) True by simp
    ultimately have "\<exists>w. map_of (entry_rows (db s)) path = Some w \<and> rstamp w = fstamp st
       \<and> oget ''version'' (rdata w) = oget ''version'' (versioned Q ?old)"
      using save_row(1) [of Q ?old "fstamp st" r1 s] r1(1) by simp
    moreover have "content_equal ?old ?old" by (simp add: content_equal_def)
    ultimately show ?thesis using k hash by metis
  next
    case False
    then have "local_edit Q ?e (fstamp st) r1 = (True, s)" using step(2) by simp
    from local_edit_row [OF this r1(1)] c(1) obtain w c1 where
      "map_of (entry_rows (db s)) path = Some w" "rstamp w = fstamp st"
      "oget ''version'' (rdata w) = oget ''version'' (versioned Q (oput ''clock'' (JObj c1) ?e))"
      "compare_clock c1 (jobject (oget ''clock'' ?old)) = 1"
      by (auto simp: e r1)
    moreover have "\<not> content_equal (oput ''clock'' (JObj c1) ?e) ?old" using False by (simp add: content_equal_def)
    moreover have "oget ''kind'' (oput ''clock'' (JObj c1) ?e) = JStr (fkind st)"
      "oget ''size'' (oput ''clock'' (JObj c1) ?e) = jnumstr (fsize st)"
      "oget ''hash'' (oput ''clock'' (JObj c1) ?e) = JStr h" "jobject (oget ''clock'' (oput ''clock'' (JObj c1) ?e)) = c1"
      using e by simp_all
    ultimately show ?thesis using hash by (metis (no_types, lifting))
  qed
qed

section \<open>Properties of the store\<close>

definition sample_db :: database where
  "sample_db = \<lparr>meta_rows = [(''sequence'', ''0''), (''counter'', ''0'')], entry_rows = [], rev_rows = [],
     loc_rows = [], peer_rows = [], plan_rows = [], snapshot_rows = []\<rparr>"

definition sample_replica :: replica where
  "sample_replica = \<lparr>files = sample_files, db = sample_db, db_open = True, scope = zeros, rid = ''p'',
     drive = Some ''ns'', rerror = [], proposal = [], proposal_base = [], manifests = [], leases = [], faults = []\<rparr>"

lemma sample_store_ok: "store_ok sample_env sample_replica"
  by (simp add: store_ok_def ledger_ok_def space_journal sample_replica_def sample_db_def meta_ll_def meta_def
      jll_def number_eval)

text \<open>Saving keeps the index: whatever the document, stamp and database faults, afterwards the
  ledger is still a chain, paths and sequence numbers are unique and bounded by the counter, each
  row carries the digest of its content, and on the authority each row is the latest revision
  of its path. Revisions are only appended, and files and identities are untouched.\<close>

theorem save_keeps:
  assumes "store_ok Q r"
  shows "store_ok Q (snd (save Q e stamp r)) \<and> (\<exists>ds. rev_rows (db (snd (save Q e stamp r))) = rev_rows (db r) @ ds)
    \<and> files (snd (save Q e stamp r)) = files r \<and> rid (snd (save Q e stamp r)) = rid r"
proof -
  obtain b s where s: "save Q e stamp r = (b, s)" by (cases "save Q e stamp r")
  show ?thesis using save_cases(1,2) [OF s] assms s by (simp add: extends_def same_outside_def)
qed

theorem save_keeps_witness: "store_ok sample_env (snd (save sample_env sample_record ''s'' sample_replica))"
  using save_keeps [OF sample_store_ok, of sample_record "''s''"] by simp

text \<open>C5: saving is all or nothing. Either it fails and the database is exactly as before, or the
  row of the document's path holds the stamp and the digest of the document, and no other row
  has changed; success always means the second.\<close>

theorem save_atomic:
  assumes "store_ok Q r" "save Q e stamp r = (ok, s)"
  shows "(\<not> ok \<and> db s = db r)
    \<or> ((\<exists>w. map_of (entry_rows (db s)) (jstr (oget ''path'' e)) = Some w \<and> rstamp w = stamp
            \<and> oget ''version'' (rdata w) = oget ''version'' (versioned Q e))
       \<and> (\<forall>q. q \<noteq> jstr (oget ''path'' e) \<longrightarrow> map_of (entry_rows (db s)) q = map_of (entry_rows (db r)) q))"
proof -
  have v: "same_view r (snd (sql r))" using sql_frame [of r] by (metis prod.collapse)
  then have k: "store_ok Q (snd (sql r))" "db (snd (sql r)) = db r"
    using view_store_ok [OF v] assms(1) by (simp_all add: same_view_def)
  have row: ?thesis if "save_body Q e stamp (snd (sql r)) = (True, t)" "db s = db t" for t
    using save_body_ok(2,3) [OF that(1) k(1)] k(2) that(2) by simp
  show ?thesis
    using save_cases(3,4) [OF assms(2)] row by (cases ok) auto
qed

theorem save_atomic_witness:
  "entry_rows (db (snd (save sample_env sample_record ''s'' (sample_replica\<lparr>faults := [False, True]\<rparr>)))) = []
   \<or> (\<exists>w. map_of (entry_rows (db (snd (save sample_env sample_record ''s'' (sample_replica\<lparr>faults := [False, True]\<rparr>))))) ''notes/a'' = Some w)"
proof -
  let ?r = "sample_replica\<lparr>faults := [False, True]\<rparr>"
  have "store_ok sample_env ?r" by (simp add: sample_store_ok)
  from save_atomic [OF this prod.collapse [symmetric], of sample_record "''s''"]
  show ?thesis by (auto simp: sample_replica_def sample_db_def)
qed

text \<open>What an observation of a path records. Unless the index already describes the observed
  state, a successful \<open>observed\<close> leaves a row with the observed stamp and the digest of a
  record with the observed kind, size and content hash (taken from the file itself where none
  was given); its clock strictly dominates the old one exactly when the content changed.\<close>

theorem observed_records:
  assumes "observed Q path st verified r = (True, s)" "store_ok Q r" "\<not> indexed path st r"
    "0 \<le> clk (jobject (oget ''clock'' (entry path r))) (rid r)"
    "map_of (entry_rows (db r)) path = None \<or> jstr (oget ''path'' (entry path r)) = path"
  shows "\<exists>w e h. map_of (entry_rows (db s)) path = Some w \<and> rstamp w = fstamp st
     \<and> oget ''version'' (rdata w) = oget ''version'' (versioned Q e)
     \<and> oget ''kind'' e = JStr (fkind st) \<and> oget ''size'' e = jnumstr (fsize st) \<and> oget ''hash'' e = JStr h
     \<and> (fkind st = ''file'' \<and> verified = [] \<longrightarrow> fst (fs_hash Q (physical Q path) (fstamp st) (files r)) = Some h)
     \<and> (if content_equal e (entry path r) then e = entry path r
        else compare_clock (jobject (oget ''clock'' e)) (jobject (oget ''clock'' (entry path r))) = 1)"
  using observed_row [OF assms] .

definition sample_mirror :: replica where
  "sample_mirror = sample_replica\<lparr>db := sample_db\<lparr>meta_rows := [(''sequence'', ''0''), (''counter'', ''0''),
     (''host'', ''h''), (''hostReplica'', ''q'')]\<rparr>\<rparr>"

lemma sample_mirror_ok: "store_ok sample_env sample_mirror"
  by (simp add: store_ok_def ledger_ok_def space_journal sample_mirror_def sample_replica_def sample_db_def
      meta_ll_def meta_def jll_def number_eval)

definition sample_state :: fstate where
  "sample_state = \<lparr>fkind = ''directory'', fstamp = ''x'', fsize = 0\<rparr>"

lemma sample_observed: "fst (observed sample_env ''notes/d'' sample_state [] sample_mirror)"
  by (simp add: observed_def Let_def sample_mirror_def sample_replica_def sample_db_def sample_state_def entry_def
      entry_stamp_def observed_entry_def obj_def content_equal_def local_edit_def meta_ll_def meta_def jll_def
      number_eval set_meta_def sql_def rpoll_def save_def save_body_def stored_def put_row_def
      oget_versioned oget_payload)

theorem observed_records_witness:
  "map_of (entry_rows (db (snd (observed sample_env ''notes/d'' sample_state [] sample_mirror)))) ''notes/d'' \<noteq> None"
proof -
  let ?o = "observed sample_env ''notes/d'' sample_state [] sample_mirror"
  have o: "?o = (True, snd ?o)" using sample_observed by (metis prod.collapse)
  have "entry_rows (db sample_mirror) = []" by (simp add: sample_mirror_def sample_replica_def sample_db_def)
  then have "\<not> indexed ''notes/d'' sample_state sample_mirror" "entry ''notes/d'' sample_mirror = []"
    by (simp_all add: indexed_def entry_def entry_stamp_def sample_state_def)
  from observed_records [OF o sample_mirror_ok this(1)] this(2) show ?thesis by (auto simp: sample_mirror_def sample_replica_def sample_db_def)
qed

end
