(* ===== verification/Merge.thy ===== *)
theory Merge
  imports Store
begin

text \<open>
  \<open>Replica::Private::merge\<close> and the staging of transfers (\<open>src/src/Sync/Replica.cpp\<close>). The
  first pass decides whether the bytes of the incoming record are needed, the commit repeats the
  decision against the freshly observed destination and applies it, keeping a losing file as a
  conflict copy. A step that may return early yields \<open>Some\<close> reply.
\<close>

section \<open>Transfers\<close>

definition transfer :: "env \<Rightarrow> string \<Rightarrow> jobj \<Rightarrow> string" where
  "transfer Q peer e = ''.society-sync/transfers/''
     @ digest Q (utf8 peer @ CHR 0x0A # utf8 (jstr (oget ''version'' e))) @ ''.part''"

definition protect_transfer :: "string \<Rightarrow> replica \<Rightarrow> bool \<times> replica" where
  "protect_transfer part r =
     (if part \<in> set (leases r) then (True, r)
      else let (ok, r) = rpoll r in
      if \<not> ok then rfail ''temporary_area_unavailable'' r
      else (True, r\<lparr>leases := part # leases r\<rparr>))"

section \<open>Decisions\<close>

text \<open>The relation of the incoming record: 0 the same, negative older, 1 newer, 2 concurrent.\<close>

definition merge_relation :: "jobj \<Rightarrow> jobj \<Rightarrow> jobj \<Rightarrow> bool \<Rightarrow> bool \<Rightarrow> bool \<Rightarrow> int" where
  "merge_relation incoming local confirmed mirror proposed absent =
     (if mirror then (if oget ''version'' local = oget ''version'' incoming \<and> \<not> absent then 0 else 1)
      else if proposed then
        (if oget ''version'' local = oget ''version'' incoming then 0
         else if jstr (oget ''baseRevision'' incoming) = jstr (oget ''revision'' confirmed) then 1 else 2)
      else if local = [] then 1
      else compare_clock (jobject (oget ''clock'' incoming)) (jobject (oget ''clock'' local)))"

definition structural :: "jobj \<Rightarrow> jobj \<Rightarrow> bool" where
  "structural incoming local \<longleftrightarrow>
     (oget ''kind'' incoming = JStr ''directory'' \<and> oget ''kind'' local = JStr ''file'')
     \<or> (oget ''kind'' incoming = JStr ''file'' \<and> oget ''kind'' local = JStr ''directory'')"

definition incoming_wins :: "jobj \<Rightarrow> jobj \<Rightarrow> bool \<Rightarrow> bool \<Rightarrow> int \<Rightarrow> bool \<Rightarrow> bool \<Rightarrow> bool" where
  "incoming_wins incoming local mirror proposed relation same retain \<longleftrightarrow>
     \<not> retain \<and> (mirror \<or> relation = 1 \<or> same \<or> oget ''kind'' incoming = JStr ''directory''
       \<or> (\<not> proposed \<and> (rank incoming > rank local
            \<or> (rank incoming = rank local
               \<and> jstr (oget ''hash'' incoming) > jstr (oget ''hash'' local)))))"

definition keeps_conflict :: "jobj \<Rightarrow> jobj \<Rightarrow> bool \<Rightarrow> int \<Rightarrow> bool \<Rightarrow> bool \<Rightarrow> bool \<Rightarrow> bool \<Rightarrow> bool" where
  "keeps_conflict incoming local mirror relation same retain wins absent \<longleftrightarrow>
     (let pending = (mirror \<and> local \<noteq> [] \<and> \<not> has_key ''revision'' local);
          concurrent = (relation = 2 \<or> retain \<or> pending \<or> structural incoming local);
          loser = (if wins then local else incoming)
      in concurrent \<and> \<not> same \<and> oget ''kind'' loser = JStr ''file'' \<and> \<not> (wins \<and> absent))"

definition without_namespace :: "jobj \<Rightarrow> jobj" where
  "without_namespace e = foldl (\<lambda>e k. odel k e) e namespace_keys"

text \<open>A nonempty local directory is kept; the provider's lease file does not count.\<close>

definition retain_directory :: "env \<Rightarrow> jobj \<Rightarrow> jobj \<Rightarrow> string \<Rightarrow> replica \<Rightarrow> bool option \<times> replica" where
  "retain_directory Q incoming local path r =
     (if oget ''kind'' local = JStr ''directory'' \<and> oget ''kind'' incoming \<noteq> JStr ''directory'' then
        (let (ns, r) = on_files (fs_list (physical Q path)) r in
         case ns of
           None \<Rightarrow> (None, r)
         | Some ns \<Rightarrow> (Some (list_ex (\<lambda>n. n \<noteq> ''.iisacc-temporary.lock'') ns), r))
      else (Some False, r))"

section \<open>Steps\<close>

definition save_reply :: "env \<Rightarrow> jobj \<Rightarrow> string \<Rightarrow> replica \<Rightarrow> jobj \<times> replica" where
  "save_reply Q e stamp r = (let (ok, r) = save Q e stamp r in if ok then (result, r) else failed [] r)"

text \<open>The first pass over a file whose bytes are needed: the offset to continue at.\<close>

definition merge_stage :: "env \<Rightarrow> jobj \<Rightarrow> string \<Rightarrow> replica \<Rightarrow> jobj \<times> replica" where
  "merge_stage Q incoming part r =
     (let (st, r) = on_files (fs_state Q part) r in
      case st of
        None \<Rightarrow> file_failed r
      | Some st \<Rightarrow>
          (let (ok, r) = (if fkind st = ''deleted'' then on_files (fs_append part 0 []) r else (True, r)) in
           if \<not> ok then file_failed r
           else if fsize st > jll (oget ''size'' incoming) then failed ''invalid_partial_transfer'' r
           else (obj [(''ok'', JBool True), (''complete'', JBool False), (''offset'', jnumstr (fsize st))], r)))"

text \<open>The commit checks the staged bytes; a corrupt complete part is dropped.\<close>

definition merge_verify :: "env \<Rightarrow> jobj \<Rightarrow> string \<Rightarrow> replica \<Rightarrow> jobj option \<times> replica" where
  "merge_verify Q incoming part r =
     (let (st, r) = on_files (fs_state Q part) r in
      if st = None \<or> fkind (the st) \<noteq> ''file'' \<or> fsize (the st) \<noteq> jll (oget ''size'' incoming)
      then (Some (fst (failed ''incomplete_or_corrupt_transfer'' r)), r)
      else let (hash, r) = on_files (fs_hash Q part (fstamp (the st))) r in
      case hash of
        None \<Rightarrow> (Some (fst (file_failed r)), r)
      | Some hash \<Rightarrow>
          if hash = [] then (Some (fst (file_failed r)), r)
          else if hash = jstr (oget ''hash'' incoming) then (None, r)
          else (let (ok, r) = on_files (remove Q part) r in
                if ok then (Some (fst (failed ''incomplete_or_corrupt_transfer'' r)), r)
                else (Some (fst (file_failed r)), r)))"

definition conflict_copy :: "jobj \<Rightarrow> jobj \<Rightarrow> jobj" where
  "conflict_copy loser clock = oput ''baseRevision'' (JStr [])
     (without_namespace (oput ''clock'' (JObj clock) (oput ''path'' (JStr (conflict_path loser)) loser)))"

text \<open>The losing file becomes a conflict copy beside the winner.\<close>

definition merge_conflict :: "env \<Rightarrow> jobj \<Rightarrow> jobj \<Rightarrow> bool \<Rightarrow> string \<Rightarrow> string \<Rightarrow> replica \<Rightarrow> jobj option \<times> replica" where
  "merge_conflict Q loser clock wins path part r =
     (let copy = conflict_copy loser clock; target = physical Q (jstr (oget ''path'' copy)) in
      if target = [] then (Some (fst (failed ''conflict_path_too_long'' r)), r)
      else let (st, r) = on_files (fs_state Q target) r in
      case st of
        None \<Rightarrow> (Some (fst (file_failed r)), r)
      | Some existing \<Rightarrow>
          (let (error, r) =
             (if fkind existing \<noteq> ''deleted'' then
                (let (hash, r) = (if fkind existing = ''file'' then on_files (fs_hash Q target (fstamp existing)) r
                                  else (None, r)) in
                 if fkind existing \<noteq> ''file''
                    \<or> (case hash of None \<Rightarrow> [] | Some h \<Rightarrow> h) \<noteq> jstr (oget ''hash'' loser)
                 then (Some (fst (failed ''conflict_name_collision'' r)), r) else (None, r))
              else (let (ok, r) = on_files (if wins then preserve (physical Q path) target
                                            else install Q part target) r in
                    if ok then (None, r) else (Some (fst (file_failed r)), r))) in
           case error of
             Some e \<Rightarrow> (Some e, r)
           | None \<Rightarrow>
               (let (st, r) = on_files (fs_state Q target) r in
                case st of
                  None \<Rightarrow> (Some (fst (file_failed r)), r)
                | Some st \<Rightarrow> (let (ok, r) = save Q copy (fstamp st) r in
                             if ok then (None, r) else (Some (fst (file_failed r)), r)))))"

definition replace_entry :: "env \<Rightarrow> jobj \<Rightarrow> jobj \<Rightarrow> string \<Rightarrow> string \<Rightarrow> fsys \<Rightarrow> bool \<times> fsys" where
  "replace_entry Q winner local part target f =
     (let kind = jstr (oget ''kind'' winner) in
      if kind = ''file'' then
        (let (ok, f) = (if oget ''kind'' local = JStr ''directory'' then remove Q target f else (True, f)) in
         if \<not> ok then (False, f) else install Q part target f)
      else if kind = ''directory'' then
        (let (ok, f) = (if oget ''kind'' local = JStr ''file'' then remove Q target f else (True, f)) in
         if \<not> ok then (False, f) else mkdir target f)
      else remove Q target f)"

definition merge_apply :: "env \<Rightarrow> jobj \<Rightarrow> jobj \<Rightarrow> bool \<Rightarrow> jobj \<Rightarrow> string \<Rightarrow> string \<Rightarrow> replica \<Rightarrow> jobj \<times> replica" where
  "merge_apply Q winner local replace clock part target r =
     (let (ok, r) = (if replace then on_files (replace_entry Q winner local part target) r else (True, r)) in
      if \<not> ok then file_failed r
      else let (st, r) = on_files (fs_state Q target) r in
      case st of
        None \<Rightarrow> file_failed r
      | Some st \<Rightarrow> save_reply Q (oput ''clock'' (JObj clock) winner) (fstamp st) r)"

text \<open>The decision and its application, once the incoming record is known to be newer or concurrent.\<close>

definition merge_decide ::
  "env \<Rightarrow> string \<Rightarrow> jobj \<Rightarrow> jobj \<Rightarrow> bool \<Rightarrow> bool \<Rightarrow> bool \<Rightarrow> int \<Rightarrow> bool \<Rightarrow> jobj \<Rightarrow> bool \<Rightarrow> replica \<Rightarrow> jobj \<times> replica" where
  "merge_decide Q peer incoming local mirror proposed absent relation retain clock committing r =
     (let path = jstr (oget ''path'' incoming);
          same = (\<not> absent \<and> content_equal incoming local);
          wins = incoming_wins incoming local mirror proposed relation same retain;
          conflict = keeps_conflict incoming local mirror relation same retain wins absent;
          bytes_needed = (oget ''kind'' incoming = JStr ''file'' \<and> \<not> same \<and> (wins \<or> conflict));
          part = transfer Q peer incoming in
      if bytes_needed \<and> \<not> committing then merge_stage Q incoming part r
      else let (error, r) = (if bytes_needed then merge_verify Q incoming part r else (None, r)) in
      case error of
        Some e \<Rightarrow> (e, r)
      | None \<Rightarrow>
          (let (error, r) = (if conflict
             then merge_conflict Q (if wins then local else incoming) clock wins path part r else (None, r)) in
           case error of
             Some e \<Rightarrow> (e, r)
           | None \<Rightarrow> merge_apply Q (if wins then incoming else local) local (wins \<and> \<not> same) clock part
                       (physical Q path) r))"

definition merge :: "env \<Rightarrow> string \<Rightarrow> jobj \<Rightarrow> bool \<Rightarrow> replica \<Rightarrow> jobj \<times> replica" where
  "merge Q peer incoming committing r =
     (let path = jstr (oget ''path'' incoming); (ok, r) = refresh Q path r in
      if \<not> ok then failed [] r
      else let local = entry path r; stamp = entry_stamp path r; absent = (stamp = ''remote'');
               a = jobject (oget ''clock'' incoming); b = jobject (oget ''clock'' local);
               mirror = (meta ''host'' r \<noteq> []); proposed = (\<not> mirror \<and> has_key ''baseRevision'' incoming) in
      if mirror \<and> (peer \<noteq> meta ''host'' r \<or> \<not> contains_record incoming (journal r))
      then failed ''host_revision_required'' r
      else if mirror \<and> \<not> has_key ''revision'' local \<and> compare_clock b a = 1
      then save_reply Q (oput ''baseRevision'' (oget ''revision'' incoming) local) stamp r
      else let relation = merge_relation incoming local (object path (journal r)) mirror proposed absent in
      if relation = 0 \<and> \<not> content_equal incoming local then failed ''inconsistent_version_clock'' r
      else if relation \<le> 0 then (if mirror then save_reply Q incoming stamp r else (result, r))
      else let clock = (if mirror then a else joined a b) in
      if length clock > 64 then failed ''replica_clock_limit'' r
      else let same = (\<not> absent \<and> content_equal incoming local);
               (retain, r) = retain_directory Q incoming local path r in
      case retain of
        None \<Rightarrow> file_failed r
      | Some retain \<Rightarrow>
          if mirror \<and> retain \<and> \<not> same
          then save_reply Q (oput ''clock'' (JObj (joined a b))
                 (oput ''baseRevision'' (oget ''revision'' incoming) (without_namespace local))) stamp r
          else merge_decide Q peer incoming local mirror proposed absent relation retain clock committing r)"

section \<open>Nothing is lost\<close>

text \<open>The container's sections are directories of the public tree.\<close>

definition sections_ok :: "env \<Rightarrow> bool" where
  "sections_ok Q \<longleftrightarrow> list_all (\<lambda>(k, n). n \<noteq> [] \<and> CHR ''/'' \<notin> set n \<and> n \<noteq> ''.society-sync'') (store_sections Q)"

lemma physical_comps:
  assumes "sections_ok Q" "physical Q key \<noteq> []"
  shows "\<exists>n tail. comps (physical Q key) = n # tail \<and> tail \<noteq> [] \<and> n \<noteq> ''.society-sync'' \<and> CHR ''/'' \<notin> set n
    \<and> tail = comps (section_rest key)"
proof -
  obtain n where n: "map_of (store_sections Q) (section_first key) = Some n"
    "physical Q key = n @ ''/'' @ section_rest key"
    using assms(2) by (auto simp: physical_def Let_def split: if_splits option.splits)
  then have "n \<noteq> ''.society-sync''" "CHR ''/'' \<notin> set n"
    using assms(1) by (auto simp: sections_ok_def list_all_iff dest: map_of_SomeD)
  with n show ?thesis by (auto simp: qsplit_append)
qed

lemma sweepable_physical: "sections_ok Q \<Longrightarrow> physical Q key \<noteq> [] \<Longrightarrow> sweepable (comps (physical Q key))"
proof -
  assume "sections_ok Q" "physical Q key \<noteq> []"
  from physical_comps [OF this] obtain n tail where "comps (physical Q key) = n # tail" "tail \<noteq> []" "n \<noteq> ''.society-sync''"
    by blast
  then show ?thesis by (cases tail) (auto simp: sweepable_def)
qed

lemma physical_not_state: "sections_ok Q \<Longrightarrow> physical Q key \<noteq> [] \<Longrightarrow> \<not> starts_with ''.society-sync/'' (physical Q key)"
proof
  assume a: "sections_ok Q" "physical Q key \<noteq> []" and "starts_with ''.society-sync/'' (physical Q key)"
  then obtain t where "physical Q key = ''.society-sync/'' @ t" by (auto simp: starts_with_iff)
  then have "hd (comps (physical Q key)) = ''.society-sync''" by (simp add: qsplit_append)
  with physical_comps [OF a] show False by auto
qed

lemma staging_transfer [simp]: "staging (comps (transfer Q peer e))"
proof -
  have "comps (transfer Q peer e) = ''.society-sync'' # ''transfers'' # comps (digest Q (utf8 peer @ CHR 0x0A # utf8 (jstr (oget ''version'' e))) @ ''.part'')"
    by (simp add: transfer_def)
  then show ?thesis by (simp only: staging_def) simp
qed

lemma staging_sweepable: "staging p \<Longrightarrow> 3 \<le> length p \<Longrightarrow> sweepable p"
  by (auto simp: staging_def sweepable_def)

lemma keeps_remove_public: "sections_ok Q \<Longrightarrow> physical Q key \<noteq> [] \<Longrightarrow> keeps f (snd (remove Q (physical Q key) f))"
  using keeps_remove sweepable_physical physical_not_state by blast

lemma keeps_remove_transfer: "keeps f (snd (remove Q (transfer Q peer e) f))"
proof (rule keeps_remove)
  show "sweepable (comps (transfer Q peer e))"
    by (rule staging_sweepable [OF staging_transfer]) (simp add: transfer_def Suc_le_eq numeral_3_eq_3)
qed simp

lemma keeps_install_transfer: "keeps f (snd (install Q (transfer Q peer e) dst f))"
  by (rule keeps_install) simp

lemma keeps_mkdir: "keeps f (snd (mkdir p f))"
  by (rule keeps_of_grows) simp

lemma keeps_replace:
  assumes "sections_ok Q" "physical Q key \<noteq> []"
  shows "keeps f (snd (replace_entry Q winner local (transfer Q peer e) (physical Q key) f))"
  unfolding replace_entry_def Let_def
  by (intro keep.cond keep.call)
    (auto intro: keeps_remove_public [OF assms] keeps_install_transfer keeps_mkdir)

section \<open>Every step extends the replica\<close>

lemma extends_op: "keeps (files r) (snd (op (files r))) \<Longrightarrow> extends Q r (snd (on_files op r))"
  by (rule extends_on_files) simp_all

lemma extends_failed [simp]: "extends Q x (snd (failed m r)) = extends Q x r" "extends Q x (snd (file_failed r)) = extends Q x r"
  by (simp_all add: failed_def file_failed_def)

lemma snd_failed [simp]: "snd (failed m r) = r" "snd (file_failed r) = r"
  by (simp_all add: failed_def file_failed_def)

lemma extends_save_reply: "extends Q r (snd (save_reply Q e st r))"
  unfolding save_reply_def Let_def by (intro ext.call ext.cond) auto

lemma extends_protect: "extends Q r (snd (protect_transfer p r))"
  unfolding protect_transfer_def Let_def by (intro ext.cond ext.call) auto

lemmas keeps_grow = keeps_of_grows [OF grows_fs_state] keeps_of_grows [OF grows_fs_hash] keeps_of_grows [OF grows_fs_list]
  keeps_of_grows [OF grows_append_start] keeps_of_grows [OF grows_preserve] keeps_of_grows [OF grows_fs_read]
  keeps_mkdir keeps_install_transfer keeps_remove_transfer

lemma extends_stage: "extends Q r (snd (merge_stage Q incoming p r))"
  unfolding merge_stage_def Let_def
  by (intro ext.call ext.opt ext.cond) (auto intro!: extends_op keeps_grow split: if_splits)

lemma extends_verify: "extends Q r (snd (merge_verify Q incoming (transfer Q peer e) r))"
  unfolding merge_verify_def Let_def
  by (intro ext.call ext.opt ext.cond) (auto intro!: extends_op keeps_grow)

lemma extends_conflict: "extends Q r (snd (merge_conflict Q loser clock wins path (transfer Q peer e) r))"
  unfolding merge_conflict_def Let_def
  by (intro ext.call ext.opt ext.cond; simp?)
    (auto intro!: extends_op keeps_grow)

lemma extends_apply:
  assumes "sections_ok Q" "physical Q key \<noteq> []"
  shows "extends Q r (snd (merge_apply Q winner local replace clock (transfer Q peer e) (physical Q key) r))"
  unfolding merge_apply_def Let_def
  by (intro ext.call ext.opt ext.cond)
    (auto intro!: extends_op keeps_grow keeps_replace [OF assms] extends_save_reply split: if_splits)

lemma extends_retain: "extends Q r (snd (retain_directory Q incoming local path r))"
  unfolding retain_directory_def Let_def
  by (intro ext.cond ext.call ext.opt) (auto intro!: extends_op keeps_grow)

lemma extends_decide:
  assumes "sections_ok Q" "physical Q (jstr (oget ''path'' incoming)) \<noteq> []"
  shows "extends Q r (snd (merge_decide Q peer incoming local mirror proposed absent relation retain clock committing r))"
  unfolding merge_decide_def Let_def
  by (intro ext.cond ext.call ext.opt)
    (auto intro!: extends_stage extends_verify extends_conflict extends_apply [OF assms] split: if_splits)

lemma extends_merge:
  assumes "sections_ok Q" "physical Q (jstr (oget ''path'' incoming)) \<noteq> []"
  shows "extends Q r (snd (merge Q peer incoming committing r))"
  unfolding merge_def Let_def
  by (intro ext.cond ext.call ext.opt)
    (auto intro!: extends_refresh extends_save_reply extends_retain extends_decide [OF assms])

section \<open>What a completed merge records\<close>

lemma complete_failed [simp]: "jbool (oget ''complete'' (fst (failed m r))) = False" "jbool (oget ''complete'' (fst (file_failed r))) = False"
  by (simp_all add: failed_def file_failed_def failure_def obj_def)

lemma failed_eq [simp]: "failed m r = (reply, s) \<longleftrightarrow> reply = fst (failed m r) \<and> s = r"
  "file_failed r = (reply, s) \<longleftrightarrow> reply = fst (file_failed r) \<and> s = r"
  by (auto simp: failed_def file_failed_def)

lemma store_ok_step: "extends Q r (snd m) \<Longrightarrow> m = (x, s) \<Longrightarrow> store_ok Q r \<Longrightarrow> store_ok Q s"
  by (simp add: extends_def)

lemma save_reply_row:
  assumes "save_reply Q e st r = (reply, s)" "jbool (oget ''complete'' reply)" "store_ok Q r"
  shows "\<exists>w. map_of (entry_rows (db s)) (jstr (oget ''path'' e)) = Some w \<and> rstamp w = st
    \<and> oget ''version'' (rdata w) = oget ''version'' (versioned Q e)"
proof -
  obtain b t where b: "save Q e st r = (b, t)" by (cases "save Q e st r")
  have "b" "t = s" using assms(1,2) b by (auto simp: save_reply_def split: if_splits)
  then show ?thesis using save_row(1) [of Q e st r s] b assms(3) by simp
qed

lemma merge_apply_row:
  assumes a: "merge_apply Q winner local replace clock part target r = (reply, s)" "jbool (oget ''complete'' reply)"
    and ok: "store_ok Q r"
  shows "\<exists>w. map_of (entry_rows (db s)) (jstr (oget ''path'' winner)) = Some w
    \<and> oget ''version'' (rdata w) = oget ''version'' (versioned Q (oput ''clock'' (JObj clock) winner))"
proof -
  obtain b r1 where b: "(if replace then on_files (replace_entry Q winner local part target) r else (True, r)) = (b, r1)"
    by (cases "(if replace then on_files (replace_entry Q winner local part target) r else (True, r))")
  have "store_ok Q r1" using b ok by (auto simp: on_files_eq split: if_splits)
  moreover obtain st r2 where st: "on_files (fs_state Q target) r1 = (st, r2)" by (cases "on_files (fs_state Q target) r1")
  ultimately have r2: "store_ok Q r2" by (auto simp: on_files_eq)
  have "\<exists>x :: fstate. save_reply Q (oput ''clock'' (JObj clock) winner) (fstamp x) r2 = (reply, s)"
    using a b st by (auto simp: merge_apply_def Let_def split: if_splits option.splits)
  then obtain x :: fstate where "save_reply Q (oput ''clock'' (JObj clock) winner) (fstamp x) r2 = (reply, s)" ..
  from save_reply_row [OF this a(2) r2] show ?thesis by auto
qed

lemma merge_stage_incomplete: "\<not> jbool (oget ''complete'' (fst (merge_stage Q e p r)))"
  by (auto simp: merge_stage_def Let_def on_files_eq split_beta obj_def split: option.split if_splits)

lemma merge_verify_incomplete: "merge_verify Q e p r = (Some reply, s) \<Longrightarrow> \<not> jbool (oget ''complete'' reply)"
  by (auto simp: merge_verify_def Let_def on_files_eq split: option.splits if_splits prod.splits)

lemma merge_conflict_incomplete: "merge_conflict Q l c w path p r = (Some reply, s) \<Longrightarrow> \<not> jbool (oget ''complete'' reply)"
  by (auto simp: merge_conflict_def Let_def on_files_eq split: option.splits if_splits prod.splits)


lemma merge_decide_row:
  assumes d: "merge_decide Q peer incoming local mirror proposed absent relation retain clock committing r = (reply, s)"
    and c: "jbool (oget ''complete'' reply)" and ok: "store_ok Q r"
    and same: "same = (\<not> absent \<and> content_equal incoming local)"
    and wins: "wins = incoming_wins incoming local mirror proposed relation same retain"
  shows "\<exists>w. map_of (entry_rows (db s)) (jstr (oget ''path'' (if wins then incoming else local))) = Some w
    \<and> oget ''version'' (rdata w) = oget ''version'' (versioned Q (oput ''clock'' (JObj clock) (if wins then incoming else local)))"
proof -
  let ?path = "jstr (oget ''path'' incoming)" and ?part = "transfer Q peer incoming"
  define conflict where "conflict = keeps_conflict incoming local mirror relation same retain wins absent"
  define need where "need \<longleftrightarrow> oget ''kind'' incoming = JStr ''file'' \<and> \<not> same \<and> (wins \<or> conflict)"
  note d' = d [unfolded merge_decide_def Let_def, folded same, folded wins, folded conflict_def, folded need_def]
  have stage: "\<not> (need \<and> \<not> committing)"
  proof
    assume "need \<and> \<not> committing"
    then have "merge_stage Q incoming ?part r = (reply, s)" using d' by simp
    then show False using c merge_stage_incomplete [of Q incoming ?part r] by simp
  qed
  obtain e1 r1 where e1: "(if need then merge_verify Q incoming ?part r else (None, r)) = (e1, r1)"
    by (cases "(if need then merge_verify Q incoming ?part r else (None, r))")
  have "e1 = None" using d' c stage e1 merge_verify_incomplete [of Q incoming ?part r] by (cases e1) (auto split: if_splits)
  have r1: "store_ok Q r1" using e1 store_ok_step [OF extends_verify _ ok] ok by (auto split: if_splits)
  define m where "m = (if conflict then merge_conflict Q (if wins then local else incoming) clock wins ?path ?part r1 else (None, r1))"
  obtain e2 r2 where e2: "m = (e2, r2)" by (cases m)
  have r2: "store_ok Q r2" using e2 store_ok_step [OF extends_conflict _ r1] r1 by (auto simp: m_def split: if_splits)
  have "e2 = None"
    using d' c stage e1 \<open>e1 = None\<close> e2 merge_conflict_incomplete [of Q _ clock wins ?path ?part r1]
    by (cases e2) (auto simp: m_def split: if_splits)
  then have "merge_apply Q (if wins then incoming else local) local (wins \<and> \<not> same) clock ?part (physical Q ?path) r2 = (reply, s)"
    using d' stage e1 \<open>e1 = None\<close> e2 by (simp add: m_def [symmetric])
  from merge_apply_row [OF this c r2] show ?thesis .
qed

text \<open>The steps of a merge before the decision.\<close>

lemma merge_decides:
  assumes m: "merge Q peer incoming committing r = (reply, s)" and c: "jbool (oget ''complete'' reply)" and ok: "store_ok Q r"
    and rf: "refresh Q (jstr (oget ''path'' incoming)) r = (True, r1)"
    and local: "local = entry (jstr (oget ''path'' incoming)) r1" and mirror: "mirror \<longleftrightarrow> meta ''host'' r1 \<noteq> []"
    and absent: "absent \<longleftrightarrow> entry_stamp (jstr (oget ''path'' incoming)) r1 = ''remote''"
    and proposed: "proposed \<longleftrightarrow> \<not> mirror \<and> has_key ''baseRevision'' incoming"
    and early: "\<not> (mirror \<and> \<not> has_key ''revision'' local
          \<and> compare_clock (jobject (oget ''clock'' local)) (jobject (oget ''clock'' incoming)) = 1)"
    and rel: "relation = merge_relation incoming local (object (jstr (oget ''path'' incoming)) (journal r1)) mirror proposed absent"
      "0 < relation"
    and kind: "oget ''kind'' local \<noteq> JStr ''directory'' \<or> oget ''kind'' incoming = JStr ''directory''"
  shows "merge_decide Q peer incoming local mirror proposed absent relation False
      (if mirror then jobject (oget ''clock'' incoming) else joined (jobject (oget ''clock'' incoming)) (jobject (oget ''clock'' local)))
      committing r1 = (reply, s)" "store_ok Q r1"
proof -
  show "store_ok Q r1" using store_ok_step [OF extends_refresh [OF ext.refl] rf ok] .
  have retain: "retain_directory Q incoming local (jstr (oget ''path'' incoming)) r1 = (Some False, r1)"
    using kind by (auto simp: retain_directory_def)
  have "relation \<noteq> 0" "\<not> relation \<le> 0" using rel by auto
  then show "merge_decide Q peer incoming local mirror proposed absent relation False
      (if mirror then jobject (oget ''clock'' incoming) else joined (jobject (oget ''clock'' incoming)) (jobject (oget ''clock'' local)))
      committing r1 = (reply, s)"
    using m c early unfolding merge_def Let_def rf prod.case not_True_eq_False if_False
      local [symmetric] mirror [symmetric] absent [symmetric] proposed [symmetric] rel(1) [symmetric] retain option.case
    by (auto split: if_splits)
qed

lemma entry_path: "store_ok Q r \<Longrightarrow> entry p r \<noteq> [] \<Longrightarrow> jstr (oget ''path'' (entry p r)) = p"
  using store_row(1) [of Q r p] by (auto simp: entry_def row_fits_def split: option.splits)

lemma stale_proposal_row:
  assumes m: "merge Q peer incoming committing r = (reply, s)" "jbool (oget ''complete'' reply)" and ok: "store_ok Q r"
    and rf: "refresh Q (jstr (oget ''path'' incoming)) r = (True, r1)" and host: "meta ''host'' r1 = []"
    and stale: "has_key ''baseRevision'' incoming"
      "jstr (oget ''baseRevision'' incoming) \<noteq> jstr (oget ''revision'' (object (jstr (oget ''path'' incoming)) (journal r1)))"
    and local: "local = entry (jstr (oget ''path'' incoming)) r1" "local \<noteq> []" "oget ''kind'' local \<noteq> JStr ''directory''"
      "oget ''version'' local \<noteq> oget ''version'' incoming" "\<not> content_equal incoming local"
    and kind: "oget ''kind'' incoming \<noteq> JStr ''directory''"
  shows "\<exists>w. map_of (entry_rows (db s)) (jstr (oget ''path'' incoming)) = Some w
     \<and> oget ''version'' (rdata w) = oget ''version'' (versioned Q
         (oput ''clock'' (JObj (joined (jobject (oget ''clock'' incoming)) (jobject (oget ''clock'' local)))) local))"
proof -
  let ?absent = "entry_stamp (jstr (oget ''path'' incoming)) r1 = ''remote''"
  have rel: "2 = merge_relation incoming local (object (jstr (oget ''path'' incoming)) (journal r1)) False True ?absent"
    using stale local by (simp add: merge_relation_def)
  have d: "merge_decide Q peer incoming local False True ?absent 2 False
      (joined (jobject (oget ''clock'' incoming)) (jobject (oget ''clock'' local))) committing r1 = (reply, s)" "store_ok Q r1"
    using merge_decides [OF m ok rf local(1), of False ?absent True 2] host stale rel local(3) by simp_all
  have "incoming_wins incoming local False True 2 (\<not> ?absent \<and> content_equal incoming local) False = False"
    using local(5) kind by (simp add: incoming_wins_def)
  with merge_decide_row [OF d(1) m(2) d(2) refl refl] show ?thesis
    using entry_path [OF d(2)] local(1,2) by simp
qed

lemma valid_record_clock: "valid_record Q e \<Longrightarrow> oget ''clock'' e = JObj (jobject (oget ''clock'' e))"
  by (cases "oget ''clock'' e") (auto simp: valid_record_def valid_clock_def Let_def)

lemma valid_record_version: "valid_record Q e \<Longrightarrow> jstr (oget ''version'' e) = jstr (oget ''version'' (versioned Q e))"
  by (simp add: valid_record_def Let_def)

lemma mirror_row:
  assumes m: "merge Q peer incoming committing r = (reply, s)" "jbool (oget ''complete'' reply)" and ok: "store_ok Q r"
    and rf: "refresh Q (jstr (oget ''path'' incoming)) r = (True, r1)" and host: "meta ''host'' r1 \<noteq> []"
    and local: "local = entry (jstr (oget ''path'' incoming)) r1"
      "\<not> (\<not> has_key ''revision'' local
          \<and> compare_clock (jobject (oget ''clock'' local)) (jobject (oget ''clock'' incoming)) = 1)"
      "oget ''kind'' local \<noteq> JStr ''directory'' \<or> oget ''kind'' incoming = JStr ''directory''"
    and valid: "valid_record Q incoming"
  shows "\<exists>w. map_of (entry_rows (db s)) (jstr (oget ''path'' incoming)) = Some w
     \<and> jstr (oget ''version'' (rdata w)) = jstr (oget ''version'' incoming)"
proof -
  let ?absent = "entry_stamp (jstr (oget ''path'' incoming)) r1 = ''remote''"
  have r1: "store_ok Q r1" using store_ok_step [OF extends_refresh [OF ext.refl] rf ok] .
  define rel where "rel = merge_relation incoming local (object (jstr (oget ''path'' incoming)) (journal r1)) True False ?absent"
  show ?thesis
  proof (cases "rel = 0")
    case True
    then have "save_reply Q incoming (entry_stamp (jstr (oget ''path'' incoming)) r1) r1 = (reply, s)"
      using m local host rf by (auto simp: merge_def Let_def rel_def split: if_splits)
    from save_reply_row [OF this m(2) r1] show ?thesis using valid_record_version [OF valid] by auto
  next
    case False
    then have "rel = 1" by (simp add: rel_def merge_relation_def split: if_splits)
    then have d: "merge_decide Q peer incoming local True False ?absent 1 False (jobject (oget ''clock'' incoming)) committing r1 = (reply, s)"
      using merge_decides(1) [OF m ok rf local(1), of True ?absent False 1] host local(2,3) by (simp add: rel_def)
    have "versioned Q (oput ''clock'' (JObj (jobject (oget ''clock'' incoming))) incoming) = versioned Q incoming"
      by (rule versioned_cong, rule payload_cong) (auto simp: valid_record_clock [OF valid, symmetric])
    with merge_decide_row [OF d m(2) r1 refl refl] show ?thesis
      using valid_record_version [OF valid] by (auto simp: incoming_wins_def)
  qed
qed


section \<open>Conflict copies\<close>

lemma dir_last: "dir_prefix p @ section_last p = p"
proof -
  have ps: "qsplit CHR ''/'' p = butlast (qsplit CHR ''/'' p) @ [last (qsplit CHR ''/'' p)]" by simp
  have "qjoin c (xs @ [x]) = (if xs = [] then x else qjoin c xs @ c # x)" for c x and xs :: "string list"
    by (induction c xs rule: qjoin.induct) auto
  then have "p = (if butlast (qsplit CHR ''/'' p) = [] then last (qsplit CHR ''/'' p)
      else qjoin CHR ''/'' (butlast (qsplit CHR ''/'' p)) @ CHR ''/'' # last (qsplit CHR ''/'' p))"
    using ps by (metis qjoin_qsplit)
  then show ?thesis by (simp add: dir_prefix_def section_last_def Let_def split: if_splits)
qed

lemma utf8_size_simps [simp]: "utf8_size [] = 0" "utf8_size (c # s) = (if (of_char c :: nat) < 128 then 1 else 2) + utf8_size s"
  "utf8_size (s @ t) = utf8_size s + utf8_size t"
  by (simp_all add: utf8_size_def)

lemma utf8_size_le: "utf8_size s \<le> 2 * length s"
  by (induction s) auto

lemma short_name: "utf8_size v \<le> 64 \<Longrightarrow> utf8_size (''file'' @ ''.sync-conflict-'' @ v) \<le> 160"
  by simp

lemma conflict_path_ne: "conflict_path e \<noteq> jstr (oget ''path'' e)"
proof -
  let ?p = "jstr (oget ''path'' e)" and ?v = "take 32 (jstr (oget ''version'' e))"
  have v: "utf8_size ?v \<le> 64" using utf8_size_le [of ?v] by simp
  have "(if utf8_size (section_last ?p) \<le> 160 then section_last ?p else ''file'') @ ''.sync-conflict-'' @ ?v \<noteq> section_last ?p"
    (is "?q \<noteq> ?n")
  proof (cases "utf8_size ?n \<le> 160")
    case False
    moreover have "utf8_size (''file'' @ ''.sync-conflict-'' @ ?v) \<le> 160" by (rule short_name [OF v])
    ultimately have "''file'' @ ''.sync-conflict-'' @ ?v \<noteq> ?n" by metis
    with False show ?thesis by (simp only: if_False) simp
  qed simp
  then have "dir_prefix ?p @ (if utf8_size (section_last ?p) \<le> 160 then section_last ?p else ''file'') @ ''.sync-conflict-'' @ ?v
     \<noteq> dir_prefix ?p @ section_last ?p" by (simp only: same_append_eq not_False_eq_True)
  then show ?thesis unfolding conflict_path_def Let_def dir_last .
qed


text \<open>A conflict step that succeeds has recorded the loser under its conflict path.\<close>

lemma merge_conflict_row:
  assumes c: "merge_conflict Q loser clock wins path part r = (None, s)" and ok: "store_ok Q r"
  shows "\<exists>w. map_of (entry_rows (db s)) (conflict_path loser) = Some w
    \<and> oget ''version'' (rdata w) = oget ''version'' (versioned Q (conflict_copy loser clock))"
proof -
  have p: "jstr (oget ''path'' (conflict_copy loser clock)) = conflict_path loser"
    by (simp add: conflict_copy_def without_namespace_def namespace_keys_def)
  have "\<exists>t x. save Q (conflict_copy loser clock) x t = (True, s) \<and> store_ok Q t"
    using c ok by (auto simp: merge_conflict_def Let_def on_files_eq split: if_splits option.splits prod.splits)
  then obtain t x where "save Q (conflict_copy loser clock) x t = (True, s)" "store_ok Q t" by blast
  from save_row(1) [OF this] show ?thesis using p by auto
qed


lemma merge_apply_other:
  assumes a: "merge_apply Q winner local replace clock part target r = (reply, s)" "jbool (oget ''complete'' reply)"
    and ok: "store_ok Q r" and q: "q \<noteq> jstr (oget ''path'' winner)"
  shows "map_of (entry_rows (db s)) q = map_of (entry_rows (db r)) q"
proof -
  have "\<exists>t x. save Q (oput ''clock'' (JObj clock) winner) x t = (True, s) \<and> store_ok Q t \<and> db t = db r"
    using a ok by (auto simp: merge_apply_def save_reply_def Let_def on_files_eq split: if_splits option.splits prod.splits)
  then obtain t x where "save Q (oput ''clock'' (JObj clock) winner) x t = (True, s)" "store_ok Q t" "db t = db r" by blast
  from save_row(2) [OF this(1,2), of q] this(3) q show ?thesis by simp
qed

lemma merge_decide_conflict:
  assumes d: "merge_decide Q peer incoming local mirror proposed absent relation retain clock committing r = (reply, s)"
    and c: "jbool (oget ''complete'' reply)" and ok: "store_ok Q r"
    and same: "same = (\<not> absent \<and> content_equal incoming local)"
    and wins: "wins = incoming_wins incoming local mirror proposed relation same retain"
    and conflict: "keeps_conflict incoming local mirror relation same retain wins absent"
    and path: "jstr (oget ''path'' local) = jstr (oget ''path'' incoming)"
  shows "\<exists>w. map_of (entry_rows (db s)) (conflict_path (if wins then local else incoming)) = Some w
    \<and> oget ''version'' (rdata w) = oget ''version'' (versioned Q (conflict_copy (if wins then local else incoming) clock))"
proof -
  let ?path = "jstr (oget ''path'' incoming)" and ?part = "transfer Q peer incoming"
    and ?loser = "if wins then local else incoming" and ?winner = "if wins then incoming else local"
  define need where "need \<longleftrightarrow> oget ''kind'' incoming = JStr ''file'' \<and> \<not> same \<and> (wins \<or> True)"
  note d' = d [unfolded merge_decide_def Let_def, folded same, folded wins, unfolded eqTrueI [OF conflict], folded need_def, unfolded if_True]
  have stage: "\<not> (need \<and> \<not> committing)"
  proof
    assume "need \<and> \<not> committing"
    then have "merge_stage Q incoming ?part r = (reply, s)" using d' by simp
    then show False using c merge_stage_incomplete [of Q incoming ?part r] by simp
  qed
  obtain e1 r1 where e1: "(if need then merge_verify Q incoming ?part r else (None, r)) = (e1, r1)"
    by (cases "(if need then merge_verify Q incoming ?part r else (None, r))")
  have "e1 = None" using d' c stage e1 merge_verify_incomplete [of Q incoming ?part r] by (cases e1) (auto split: if_splits)
  have r1: "store_ok Q r1" using e1 store_ok_step [OF extends_verify _ ok] ok by (auto split: if_splits)
  obtain e2 r2 where e2: "merge_conflict Q ?loser clock wins ?path ?part r1 = (e2, r2)"
    by (cases "merge_conflict Q ?loser clock wins ?path ?part r1")
  have r2: "store_ok Q r2" using e2 store_ok_step [OF extends_conflict _ r1] by blast
  have e2': "e2 = None"
    using d' c stage e1 \<open>e1 = None\<close> e2 merge_conflict_incomplete [of Q ?loser clock wins ?path ?part r1] by (cases e2) auto
  then have a: "merge_apply Q ?winner local (wins \<and> \<not> same) clock ?part (physical Q ?path) r2 = (reply, s)"
    using d' stage e1 \<open>e1 = None\<close> e2 by simp
  have "conflict_path ?loser \<noteq> jstr (oget ''path'' ?winner)"
    using conflict_path_ne [of local] conflict_path_ne [of incoming] path by simp
  then show ?thesis
    using merge_apply_other [OF a c r2] merge_conflict_row [OF e2 [unfolded e2'] r1] by simp
qed

section \<open>Properties of merging\<close>

text \<open>C1: a merge never loses content of the user. Whatever record a peer sends, on the first pass
  or the commit, and whatever calls fail on the way, every non-empty file of the public tree or
  of the recovery area is afterwards still found there with the same bytes; the index invariant
  holds and revisions are only appended.\<close>

theorem merge_safe:
  assumes "sections_ok Q" "physical Q (jstr (oget ''path'' incoming)) \<noteq> []" "store_ok Q r" "ino_bound (files r)"
  shows "let s = snd (merge Q peer incoming committing r) in
    store_ok Q s \<and> (\<exists>ds. rev_rows (db s) = rev_rows (db r) @ ds)
    \<and> (\<forall>p i. safe_path p \<and> file_at (files r) p i \<and> content (files r) i \<noteq> [] \<longrightarrow>
         (\<exists>q. safe_path q \<and> file_at (files s) q i) \<and> content (files s) i = content (files r) i)"
  using extends_merge [OF assms(1,2), of r peer committing] assms(3,4)
  unfolding extends_def keeps_def held_def Let_def by blast

lemma sample_sections_ok: "sections_ok sample_env"
  by (simp add: sections_ok_def)

theorem merge_safe_witness:
  "content (files (snd (merge sample_env ''peer'' sample_record True sample_replica))) 5 = ''abc''
   \<and> (\<exists>q. safe_path q \<and> file_at (files (snd (merge sample_env ''peer'' sample_record True sample_replica))) q 5)"
proof -
  have f: "files sample_replica = sample_files" by (simp add: sample_replica_def)
  have "safe_path [''Notes'', ''a'']" "file_at sample_files [''Notes'', ''a''] 5" "content sample_files 5 = ''abc''"
    by (simp_all add: safe_path_def starts_with_def file_at_def sample_files_def content_def)
  then show ?thesis
    using merge_safe [OF sample_sections_ok _ sample_store_ok, of sample_record "''peer''" True]
    by (simp add: f sample_ino_bound sample_physical Let_def)
qed



text \<open>A losing file is kept as a conflict copy: when the conflict step succeeds, the row of the
  conflict path carries the loser's content under the joined clock, the conflict path is another
  path than the loser's, and no other row has changed.\<close>

theorem conflict_recorded:
  assumes "merge_conflict Q loser clock wins path part r = (None, s)" "store_ok Q r"
  shows "conflict_path loser \<noteq> jstr (oget ''path'' loser)
    \<and> (\<exists>w. map_of (entry_rows (db s)) (conflict_path loser) = Some w
        \<and> oget ''version'' (rdata w) = oget ''version'' (versioned Q (conflict_copy loser clock)))
    \<and> (\<forall>q. q \<noteq> conflict_path loser \<longrightarrow> map_of (entry_rows (db s)) q = map_of (entry_rows (db r)) q)"
proof -
  have p: "jstr (oget ''path'' (conflict_copy loser clock)) = conflict_path loser"
    by (simp add: conflict_copy_def without_namespace_def namespace_keys_def)
  have "\<exists>t x. save Q (conflict_copy loser clock) x t = (True, s) \<and> store_ok Q t \<and> db t = db r"
    using assms by (auto simp: merge_conflict_def Let_def on_files_eq split: if_splits option.splits prod.splits)
  then obtain t x where t: "save Q (conflict_copy loser clock) x t = (True, s)" "store_ok Q t" "db t = db r" by blast
  from save_row(1) [OF t(1,2)] save_row(2) [OF t(1,2)] show ?thesis using p t(3) conflict_path_ne [of loser] by auto
qed

text \<open>C22: two hosts that merge each other's concurrent records agree. For different contents that
  are not both directories, exactly one of the two records wins on both sides.\<close>

theorem merge_converges:
  assumes "\<not> content_equal a b" "oget ''kind'' a \<in> {JStr ''file'', JStr ''deleted'', JStr ''directory''}"
    "oget ''kind'' b \<in> {JStr ''file'', JStr ''deleted'', JStr ''directory''}"
    "\<not> (oget ''kind'' a = JStr ''directory'' \<and> oget ''kind'' b = JStr ''directory'')"
    "rank a = rank b \<Longrightarrow> jstr (oget ''hash'' a) \<noteq> jstr (oget ''hash'' b)"
  shows "incoming_wins a b False False 2 False False \<longleftrightarrow> \<not> incoming_wins b a False False 2 False False"
  using assms by (auto simp: incoming_wins_def rank_def)


definition sample_entry :: jobj where
  "sample_entry = projected (new_revision sample_env sample_record 1 [] [] sample_ledger)"

definition sample_held :: replica where
  "sample_held = sample_replica\<lparr>db := sample_db\<lparr>meta_rows := [(''sequence'', ''1''), (''counter'', ''1'')],
     rev_rows := [row_of (new_revision sample_env sample_record 1 [] [] sample_ledger)],
     entry_rows := [(''notes/a'', \<lparr>rdata = sample_entry, rstamp = node_stamp sample_env sample_files (File 5), rseq = 1\<rparr>)]\<rparr>\<rparr>"

lemma sample_entry_get: "oget k sample_entry = (if k = ''namespace'' then JStr ''ns'' else if k = ''authority'' then JStr ''p''
    else if k = ''sequence'' then jnumstr 1 else if k = ''revision'' then JStr zeros else oget k sample_record)"
  by (simp add: sample_entry_def oget_projected oget_new_revision rev_content_sample rev_hash_def)

lemma sample_held_ok: "store_ok sample_env sample_held"
proof -
  have l: "revs (journal sample_held) = revs sample_authority" "space (journal sample_held) = ''ns''" "authority (journal sample_held) = ''p''"
    by (simp_all add: journal_def sample_held_def sample_replica_def sample_db_def meta_def sample_authority_rows)
  then have "ledger_ok sample_env (journal sample_held)"
    using sample_authority_ok by (simp add: ledger_ok_def sample_authority_rows)
  moreover have "oget ''version'' (object ''notes/a'' (journal sample_held)) = JStr zeros"
    unfolding oget_version_object l sample_authority_rows by (simp add: latest_row_def oget_new_revision rev_content_sample)
  ultimately show ?thesis
    by (simp add: store_ok_def sample_held_def sample_replica_def sample_db_def meta_ll_def meta_def jll_def number_eval
        row_fits_def sample_entry_get oget_versioned digest_def)
qed

lemma sample_poll: "poll sample_files = (True, sample_files)" "intact sample_files = (True, sample_files)"
  by (simp_all add: poll_def intact_def sample_files_def)

lemma sample_open: "open_dir [] sample_files = (None, sample_files)" "open_dir ''Notes'' sample_files = (None, sample_files)"
  by (simp_all add: open_dir_def sample_poll relative_def utf8_size_def starts_with_def)
    (simp add: sample_files_def)

lemma sample_list: "fs_list [] sample_files = (Some [''.society-sync'', ''Notes''], sample_files)"
  "fs_list ''Notes'' sample_files = (Some [''a''], sample_files)"
  by (simp_all add: fs_list_def sample_open sample_poll)
    (simp_all add: sample_files_def children_def relative_def utf8_size_def starts_with_def Let_def)

lemma sample_exact: "exact_path sample_env ''Notes/a'' sample_files = (True, sample_files)"
  by (simp add: exact_path_def sample_list)

lemma sample_fs_state: "fs_state sample_env ''Notes/a'' sample_files
   = (Some \<lparr>fkind = ''file'', fstamp = node_stamp sample_env sample_files (File 5), fsize = 3\<rparr>, sample_files)"
proof -
  have "parent_dir ''Notes/a'' False sample_files = (None, sample_files)"
    by (simp add: parent_dir_def dir_part_def sample_open relative_def utf8_size_def starts_with_def)
  moreover have "map_of (names sample_files) [''Notes'', ''a''] = Some (File 5)" "content sample_files 5 = ''abc''"
    by (simp_all add: sample_files_def content_def)
  ultimately show ?thesis by (simp add: fs_state_def sample_poll)
qed

lemma sample_held_files: "files sample_held = sample_files" "rerror sample_held = []"
  by (simp_all add: sample_held_def sample_replica_def)

lemma sample_held_entry: "entry ''notes/a'' sample_held = oput ''sequence'' (jnumstr 1) sample_entry"
  "entry_stamp ''notes/a'' sample_held = node_stamp sample_env sample_files (File 5)"
  by (simp_all add: entry_def entry_stamp_def sample_held_def)

lemma sample_on_files: "op sample_files = (x, sample_files) \<Longrightarrow> on_files op sample_held = (x, sample_held)"
  by (simp add: on_files_def sample_held_def sample_replica_def)

lemma sample_refresh: "refresh sample_env ''notes/a'' sample_held = (True, sample_held)"
proof -
  have "indexed ''notes/a'' \<lparr>fkind = ''file'', fstamp = node_stamp sample_env sample_files (File 5), fsize = 3\<rparr> sample_held"
    by (simp add: indexed_def sample_held_entry sample_entry_get)
  from observed_indexed [OF sample_held_files(2) this] show ?thesis
    by (simp add: refresh_def sample_physical sample_on_files [of "exact_path sample_env ''Notes/a''", OF sample_exact]
      sample_on_files [of "fs_state sample_env ''Notes/a''", OF sample_fs_state])
qed

text \<open>A stale deletion, proposed on no revision at all.\<close>

definition sample_deletion :: jobj where
  "sample_deletion = obj [(''path'', JStr ''notes/a''), (''kind'', JStr ''deleted''), (''size'', JStr ''0''), (''hash'', JStr []),
     (''clock'', JObj [(''q'', JStr ''1'')]), (''version'', JStr ''v''), (''baseRevision'', JStr [])]"

lemma sample_deletion_get: "oget k sample_deletion = (if k = ''path'' then JStr ''notes/a'' else if k = ''kind'' then JStr ''deleted''
    else if k = ''size'' then JStr ''0'' else if k = ''hash'' then JStr [] else if k = ''clock'' then JObj [(''q'', JStr ''1'')]
    else if k = ''version'' then JStr ''v'' else if k = ''baseRevision'' then JStr [] else JUndef)"
  by (simp add: sample_deletion_def obj_def)

lemma sample_deletion_more: "has_key ''baseRevision'' sample_deletion" "zeros \<noteq> ''v''" "zeros \<noteq> []" "[] \<noteq> zeros"
  by (simp_all add: sample_deletion_def obj_def zeros_def)

lemma sample_held_object: "oget ''revision'' (object ''notes/a'' (journal sample_held)) = JStr zeros" "meta ''host'' sample_held = []"
  by (simp_all add: object_def journal_def sample_held_def sample_replica_def sample_db_def latest_row_def meta_def Let_def
    oget_projected oget_new_revision rev_content_sample rev_hash_def)

text \<open>Saving a document whose version the authority has committed always succeeds.\<close>

lemma save_committed:
  assumes "meta ''host'' r = []" "faults r = []" "oget ''version'' (object (jstr (oget ''path'' e)) (journal r)) = oget ''version'' (versioned Q e)"
    "oget ''version'' (entry (jstr (oget ''path'' e)) r) = oget ''version'' (versioned Q e)"
    "odel ''locations'' (object (jstr (oget ''path'' e)) (journal r)) \<noteq> []"
  shows "fst (save Q e st r)"
proof -
  let ?o = "odel ''locations'' (object (jstr (oget ''path'' e)) (journal r))"
  have path: "jstr (oget ''path'' (versioned Q e)) = jstr (oget ''path'' e)" by (simp add: oget_versioned oget_payload)
  have "commit Q (versioned Q e) (proposal r) (proposal_base r) (journal r) = (?o, journal r)"
    using assms(3) by (simp add: commit_def Let_def path)
  then have "stored Q e (entry (jstr (oget ''path'' e)) r) r = (?o, [], r)"
    using assms(1) by (simp add: stored_def Let_def on_journal_def) (simp add: journal_def)
  moreover have "oget ''version'' ?o = oget ''version'' (versioned Q e)" using assms(3) by simp
  moreover have "sql r = (True, r)" using assms(2) by (simp add: sql_def rpoll_def)
  ultimately show ?thesis
    using assms by (simp add: save_def save_body_def Let_def path put_row_def on_journal_def locate_def sql_ok_def journal_def)
      (simp add: sql_def rpoll_def)
qed


lemma odel_version: "oget ''version'' x = JStr v \<Longrightarrow> odel ''locations'' x \<noteq> []"
proof -
  assume v: "oget ''version'' x = JStr v"
  have "oget ''version'' (odel ''locations'' x) = oget ''version'' x" by simp
  then have "oget ''version'' (odel ''locations'' x) \<noteq> oget ''version'' []" unfolding v by simp
  then show ?thesis by metis
qed

lemma sample_stale_complete:
  "jbool (oget ''complete'' (fst (merge sample_env ''q'' sample_deletion True sample_held)))"
proof -
  let ?local = "oput ''sequence'' (jnumstr 1) sample_entry" and ?clock = "joined [(''q'', JStr ''1'')] [(''p'', JStr ''1'')]"
  have get: "oget k ?local = (if k = ''sequence'' then jnumstr 1 else oget k sample_entry)" for k by simp
  have stamp: "entry_stamp ''notes/a'' sample_held \<noteq> ''remote''"
    by (simp add: sample_held_entry node_stamp_def sample_env_def sample_files_def content_def changes_of_def) code_simp
  have "length ?clock = 2" by (simp add: joined_def join_key_def jll_def number_eval oput_def oget_def)
  then have "\<not> 64 < length ?clock" by simp
  then have "merge sample_env ''q'' sample_deletion True sample_held
    = merge_decide sample_env ''q'' sample_deletion ?local False True False 2 False ?clock True sample_held"
    using stamp by (simp add: merge_def sample_deletion_get sample_refresh sample_held_object sample_held_entry merge_relation_def
     Let_def get sample_entry_get content_equal_def retain_directory_def sample_deletion_more)
  also have "\<dots> = merge_apply sample_env ?local ?local False ?clock (transfer sample_env ''q'' sample_deletion) ''Notes/a'' sample_held"
    by (simp add: merge_decide_def Let_def sample_deletion_get get sample_entry_get content_equal_def incoming_wins_def keeps_conflict_def
     structural_def sample_physical)
  also have "\<dots> = save_reply sample_env (oput ''clock'' (JObj ?clock) ?local) (node_stamp sample_env sample_files (File 5)) sample_held"
    by (simp add: merge_apply_def sample_on_files [of "fs_state sample_env ''Notes/a''", OF sample_fs_state])
  finally have m: "merge sample_env ''q'' sample_deletion True sample_held
    = save_reply sample_env (oput ''clock'' (JObj ?clock) ?local) (node_stamp sample_env sample_files (File 5)) sample_held" .
  have "fst (save sample_env (oput ''clock'' (JObj ?clock) ?local) (node_stamp sample_env sample_files (File 5)) sample_held)"
  proof (rule save_committed)
    have v: "oget ''version'' (object ''notes/a'' (journal sample_held)) = JStr zeros"
      using store_row(1) [OF sample_held_ok, of "''notes/a''"]
      by (simp add: row_fits_def sample_held_object) (simp add: sample_held_def sample_entry_get)
    then show "odel ''locations'' (object (jstr (oget ''path'' (oput ''clock'' (JObj ?clock) ?local))) (journal sample_held)) \<noteq> []"
      using odel_version [of "object ''notes/a'' (journal sample_held)"] by (simp add: get sample_entry_get)
    show "oget ''version'' (object (jstr (oget ''path'' (oput ''clock'' (JObj ?clock) ?local))) (journal sample_held))
       = oget ''version'' (versioned sample_env (oput ''clock'' (JObj ?clock) ?local))"
      using v by (simp add: get sample_entry_get oget_versioned digest_def)
  qed (simp_all add: sample_held_object sample_held_entry get sample_entry_get oget_versioned digest_def,
     simp_all add: sample_held_def sample_replica_def)
  then show ?thesis by (simp add: m save_reply_def Let_def split_beta result_def obj_def)
qed



text \<open>A mirror that receives the record it already holds.\<close>

definition sample_follower :: replica where
  "sample_follower = sample_held\<lparr>rid := ''m'', db := (db sample_held)\<lparr>meta_rows := [(''sequence'', ''1''), (''counter'', ''1''),
     (''host'', ''h''), (''hostReplica'', ''p'')]\<rparr>\<rparr>"

lemma sample_follower_simps: "files sample_follower = sample_files" "rerror sample_follower = []" "faults sample_follower = []"
  "meta ''host'' sample_follower = ''h''" "entry p sample_follower = entry p sample_held"
  "entry_stamp p sample_follower = entry_stamp p sample_held"
  "revs (journal sample_follower) = revs sample_authority" "space (journal sample_follower) = ''ns''"
  "authority (journal sample_follower) = ''p''"
  by (simp_all add: sample_follower_def sample_held_def sample_replica_def sample_db_def meta_def entry_def entry_stamp_def
      journal_def sample_authority_rows)

lemma sample_follower_ok: "store_ok sample_env sample_follower"
proof -
  have "ledger_ok sample_env (journal sample_follower)"
    using sample_authority_ok by (simp add: ledger_ok_def sample_follower_simps sample_authority_rows)
  then show ?thesis
    by (simp add: store_ok_def sample_follower_def sample_held_def sample_replica_def sample_db_def meta_ll_def meta_def jll_def
        number_eval row_fits_def sample_entry_get oget_versioned digest_def)
qed

lemma sample_follower_files: "op sample_files = (x, sample_files) \<Longrightarrow> on_files op sample_follower = (x, sample_follower)"
  by (simp add: on_files_def sample_follower_def sample_held_def sample_replica_def)

lemma sample_follower_refresh: "refresh sample_env ''notes/a'' sample_follower = (True, sample_follower)"
proof -
  have "indexed ''notes/a'' \<lparr>fkind = ''file'', fstamp = node_stamp sample_env sample_files (File 5), fsize = 3\<rparr> sample_follower"
    by (simp add: indexed_def sample_held_entry sample_entry_get sample_follower_simps)
  from observed_indexed [OF sample_follower_simps(2) this] show ?thesis
    by (simp add: refresh_def sample_physical sample_follower_files [of "exact_path sample_env ''Notes/a''", OF sample_exact]
      sample_follower_files [of "fs_state sample_env ''Notes/a''", OF sample_fs_state])
qed

lemma save_confirmed:
  assumes "meta ''host'' r \<noteq> []" "faults r = []" "has_key ''revision'' e"
    "oget ''version'' (entry (jstr (oget ''path'' e)) r) = oget ''version'' (versioned Q e)"
  shows "fst (save Q e st r)"
  using assms
  by (simp add: save_def save_body_def stored_def Let_def put_row_def on_journal_def locate_def sql_ok_def journal_def
    sql_def rpoll_def oget_versioned oget_payload oget_namespaced namespace_keys_def)

lemma sample_confirmed: "contains_record sample_entry (journal sample_follower)"
proof -
  let ?d = "new_revision sample_env sample_record 1 [] [] sample_ledger"
  have "revision zeros (journal sample_follower) = ?d"
    by (simp add: revision_def sample_follower_simps sample_authority_rows oget_new_revision rev_hash_def)
  moreover have "?d \<noteq> []" by (metis oget_new_revision oget_Nil json.distinct(7))
  ultimately show ?thesis
    by (simp add: contains_record_def Let_def sample_entry_get sample_follower_simps) (simp add: sample_entry_def)
qed

lemma has_revision: "has_key ''revision'' sample_entry" "has_key ''revision'' (oput k v sample_entry) \<longleftrightarrow> k \<noteq> ''revision'' \<or> v \<noteq> JUndef"
  "\<not> has_key ''baseRevision'' sample_entry"
  by (simp_all add: sample_entry_def projected_def oget_new_revision rev_content_def obj_def)

lemma sample_follower_complete: "jbool (oget ''complete'' (fst (merge sample_env ''h'' sample_entry True sample_follower)))"
proof -
  have "fst (save sample_env sample_entry (node_stamp sample_env sample_files (File 5)) sample_follower)"
    by (rule save_confirmed) (simp_all add: sample_follower_simps sample_held_entry sample_entry_get oget_versioned digest_def
      has_revision)
  moreover have "node_stamp sample_env sample_files (File 5) \<noteq> ''remote''"
    by (simp add: node_stamp_def sample_env_def sample_files_def content_def changes_of_def) code_simp
  ultimately show ?thesis
    by (simp add: merge_def Let_def sample_entry_get sample_follower_refresh sample_follower_simps sample_confirmed has_revision
       sample_held_entry merge_relation_def content_equal_def save_reply_def split_beta result_def obj_def)
qed


text \<open>A conflict whose copy is already on disk.\<close>

definition sample_disputed :: replica where
  "sample_disputed = sample_replica\<lparr>files := sample_files\<lparr>names :=
     ([''Notes'', ''a.sync-conflict-00000000000000000000000000000000''], File 5) # names sample_files\<rparr>\<rparr>"

lemma sample_conflict_path: "conflict_path sample_record = ''notes/a.sync-conflict-'' @ take 32 zeros"
  by (simp add: conflict_path_def section_last_def dir_prefix_def utf8_size_def Let_def)


abbreviation sample_copy_path :: string where
  "sample_copy_path \<equiv> ''Notes/a.sync-conflict-00000000000000000000000000000000''"

lemma sample_copy_comps: "comps sample_copy_path = [''Notes'', ''a.sync-conflict-00000000000000000000000000000000'']"
  by simp

lemma sample_copy_physical: "physical sample_env (conflict_path sample_record) = sample_copy_path"
  unfolding sample_conflict_path zeros_def
  by (simp add: physical_def section_first_def section_rest_def reserved_part_def utf8_size_def starts_with_def)

lemma sample_disputed_names: "map_of (names (files sample_disputed)) (comps sample_copy_path) = Some (File 5)"
  unfolding sample_disputed_def sample_copy_comps by simp

lemma sample_disputed_poll: "poll (files sample_disputed) = (True, files sample_disputed)"
  "intact (files sample_disputed) = (True, files sample_disputed)"
  by (simp_all add: poll_def intact_def sample_disputed_def sample_files_def)

lemma sample_disputed_walk: "walk (names (files sample_disputed)) [] [''Notes''] = None"
  by (simp add: sample_disputed_def sample_files_def)

lemma sample_disputed_parent: "parent_dir sample_copy_path False (files sample_disputed) = (None, files sample_disputed)"
proof -
  have "relative sample_copy_path" by (simp add: relative_def utf8_size_def starts_with_def)
  moreover have "dir_part sample_copy_path = ''Notes''" by (simp add: dir_part_def)
  moreover have "open_dir ''Notes'' (files sample_disputed) = (None, files sample_disputed)"
    using sample_disputed_walk by (simp add: open_dir_def sample_disputed_poll relative_def utf8_size_def starts_with_def)
  ultimately show ?thesis by (simp add: parent_dir_def)
qed

lemma sample_disputed_state: "\<exists>st. fs_state sample_env sample_copy_path (files sample_disputed) = (Some st, files sample_disputed)
    \<and> fkind st = ''file'' \<and> fstamp st = node_stamp sample_env (files sample_disputed) (File 5)"
  using sample_disputed_names
  by (simp add: fs_state_def sample_disputed_parent sample_disputed_poll)


lemma sample_disputed_hash: "fs_hash sample_env sample_copy_path st (files sample_disputed) = (Some zeros, files sample_disputed)"
  if "st = node_stamp sample_env (files sample_disputed) (File 5)"
proof -
  let ?f = "files sample_disputed"
  have f: "?f\<lparr>ferror := []\<rparr> = ?f" by (simp add: sample_disputed_def sample_files_def)
  have "relative sample_copy_path" by (simp add: relative_def utf8_size_def starts_with_def)
  then have "open_node False sample_copy_path ?f = (Some (File 5), ?f)"
    using sample_disputed_names sample_disputed_walk by (simp add: open_node_def sample_disputed_poll)
  then show ?thesis by (simp add: fs_hash_def f that sample_disputed_poll digest_def)
qed

definition sample_copy :: jobj where
  "sample_copy = conflict_copy sample_record [(''p'', JStr ''1'')]"

lemma sample_copy_get: "oget k (versioned sample_env sample_copy) = (if k = ''path'' then JStr (conflict_path sample_record)
    else if k \<in> {''kind'', ''size'', ''hash'', ''clock'', ''version''} then oget k sample_record else JUndef)"
  by (simp add: sample_copy_def conflict_copy_def without_namespace_def namespace_keys_def oget_versioned oget_payload digest_def)

lemma has_key_get: "wf_obj x \<Longrightarrow> has_key k x \<longleftrightarrow> oget k x \<noteq> JUndef"
  using map_of_oget [of x k] by (auto simp: has_key_def)

lemma wf_versioned: "wf_obj (versioned Q e)"
  by (simp add: versioned_def payload_def Let_def)

lemma sample_copy_valid: "valid_record sample_env (versioned sample_env sample_copy)"
proof -
  have ne: "sample_copy_path \<noteq> []" by simp
  show ?thesis
    by (simp add: valid_record_def sample_copy_get sample_number hex_zeros has_key_get wf_versioned sample_copy_physical ne
       valid_clock_def json_bytes_def Let_def del: list.distinct)
qed


text \<open>The first document of an empty authority is saved.\<close>

lemma save_first:
  assumes "meta ''host'' r = []" "faults r = []" "rev_rows (db r) = []" "entry_rows (db r) = []" "meta_ll ''sequence'' r = 0"
    "valid_record Q (versioned Q e)"
  shows "fst (save Q e st r)"
proof -
  let ?l = "journal r" and ?v = "versioned Q e"
  let ?d = "new_revision Q ?v 1 (proposal r) (proposal_base r) ?l"
  have "counter (JStr ''0'') = 0" by (simp add: counter_def number_eval)
  then have "counter (oget ''sequence'' (ledger_state ?l)) = 0"
    using assms(3) by (simp add: ledger_state_def obj_def journal_def)
  moreover have "object (jstr (oget ''path'' ?v)) ?l = []" using assms(3) by (simp add: object_Nil_iff latest_row_def journal_def)
  ultimately have c: "commit Q ?v (proposal r) (proposal_base r) ?l = (projected ?d, ?l\<lparr>revs := [row_of ?d]\<rparr>)"
    using assms(2,3,6) version_not_JUndef [of Q e, THEN not_sym]
    by (simp add: commit_def Let_def append_revision_def sql_ok_def journal_def max_counter_def)
  have "projected ?d \<noteq> []" by (simp add: projected_def oget_new_revision)
  moreover have "oget ''version'' (projected ?d) \<noteq> JUndef" using version_not_JUndef [of Q e] by (simp add: oget_projected oget_new_revision)
  moreover have "entry p r = []" for p using assms(4) by (simp add: entry_def)
  ultimately show ?thesis
    using assms(1,2,5) c
    by (simp add: save_def save_body_def stored_def Let_def on_journal_def journal_def meta_ll_def meta_def set_meta_def
      put_row_def locate_def sql_ok_def sql_def rpoll_def max_counter_def)
qed


lemma sample_disputed_rest: "meta ''host'' sample_disputed = []" "faults sample_disputed = []" "rev_rows (db sample_disputed) = []"
  "entry_rows (db sample_disputed) = []" "meta_ll ''sequence'' sample_disputed = 0" "db sample_disputed = sample_db"
  by (simp_all add: sample_disputed_def sample_replica_def sample_db_def meta_def meta_ll_def jll_def number_eval)

lemma sample_disputed_on: "op (files sample_disputed) = (x, files sample_disputed) \<Longrightarrow> on_files op sample_disputed = (x, sample_disputed)"
  by (simp add: on_files_def)

lemma sample_conflict_done:
  "fst (merge_conflict sample_env sample_record [(''p'', JStr ''1'')] True ''notes/a'' part sample_disputed) = None"
proof -
  obtain st where st: "fs_state sample_env sample_copy_path (files sample_disputed) = (Some st, files sample_disputed)"
    "fkind st = ''file''" "fstamp st = node_stamp sample_env (files sample_disputed) (File 5)"
    using sample_disputed_state by blast
  have path: "jstr (oget ''path'' sample_copy) = conflict_path sample_record"
    by (simp add: sample_copy_def conflict_copy_def without_namespace_def namespace_keys_def)
  have "fst (save sample_env sample_copy (fstamp st) sample_disputed)"
    by (rule save_first [OF sample_disputed_rest(1-5) sample_copy_valid])
  then obtain t where "save sample_env sample_copy (fstamp st) sample_disputed = (True, t)" by (metis prod.collapse)
  then show ?thesis
    using sample_disputed_on [of "fs_state sample_env sample_copy_path", OF st(1)]
      sample_disputed_on [of "fs_hash sample_env sample_copy_path (fstamp st)", OF sample_disputed_hash [OF st(3)]] st(2)
    by (simp add: merge_conflict_def Let_def path sample_copy_physical sample_copy_def [symmetric])
qed

theorem conflict_recorded_witness:
  "\<exists>w. map_of (entry_rows (db (snd (merge_conflict sample_env sample_record [(''p'', JStr ''1'')] True ''notes/a'' [] sample_disputed))))
      (conflict_path sample_record) = Some w"
proof -
  let ?m = "merge_conflict sample_env sample_record [(''p'', JStr ''1'')] True ''notes/a'' [] sample_disputed"
  have m: "?m = (None, snd ?m)" using sample_conflict_done [of "[]"] by (cases ?m) simp
  have ok: "store_ok sample_env sample_disputed"
    using sample_store_ok by (simp add: sample_disputed_def)
  from conflict_recorded [OF m ok] show ?thesis by blast
qed

theorem merge_converges_witness:
  "incoming_wins sample_deletion sample_record False False 2 False False \<longleftrightarrow> \<not> incoming_wins sample_record sample_deletion False False 2 False False"
  by (rule merge_converges) (simp_all add: content_equal_def sample_deletion_get rank_def)

end
