(* ===== verification/Catalog.thy ===== *)
theory Catalog
  imports Merge
begin

text \<open>
  The metadata side of \<open>Replica\<close> (\<open>src/src/Sync/Replica.cpp\<close>): which entries are resident, the
  records and journal pages a mirror takes from its host, the pages it offers, the progress it
  keeps per peer, and the previews of photos. \<open>SaveFile\<close> replaces a file atomically.
\<close>

section \<open>Reading\<close>

definition namespace_state :: "replica \<Rightarrow> jobj" where
  "namespace_state r = oput ''role'' (JStr (if meta ''host'' r = [] then ''authority'' else ''replica''))
     (ledger_state (journal r))"

definition is_open :: "replica \<Rightarrow> bool" where
  "is_open r \<longleftrightarrow> db_open r \<and> scope r \<noteq> [] \<and> rid r \<noteq> []"

definition container_id :: "replica \<Rightarrow> string" where
  "container_id r = (case drive r of None \<Rightarrow> [] | Some i \<Rightarrow> i)"

definition object_metadata :: "string \<Rightarrow> replica \<Rightarrow> jobj" where
  "object_metadata path r = (if is_open r then object path (journal r) else [])"

definition entry_record :: "string \<Rightarrow> replica \<Rightarrow> jobj" where
  "entry_record path r = (if db_open r then entry path r else [])"

definition resident :: "env \<Rightarrow> string \<Rightarrow> replica \<Rightarrow> bool \<times> replica" where
  "resident Q path r =
     (if oget ''kind'' (entry path r) \<noteq> JStr ''file'' \<or> entry_stamp path r = ''remote'' then (False, r)
      else let (st, r) = on_files (fs_state Q (physical Q path)) r in
      (st \<noteq> None \<and> fkind (the st) = ''file'' \<and> fstamp (the st) = entry_stamp path r, r))"

section \<open>Records and journal of the host\<close>

definition accept_metadata :: "env \<Rightarrow> string \<Rightarrow> jobj \<Rightarrow> replica \<Rightarrow> bool \<times> replica" where
  "accept_metadata Q peer incoming r =
     (let (ok, r) = lock Q r in
      if \<not> ok then (False, r)
      else if \<not> valid_record Q incoming \<or> oget ''kind'' incoming \<noteq> JStr ''file'' \<or> peer \<noteq> meta ''host'' r
              \<or> peer = [] \<or> \<not> contains_record incoming (journal r)
      then rfail ''host_revision_required'' r
      else let path = jstr (oget ''path'' incoming); (ok, r) = refresh Q path r in
      if \<not> ok then (False, r)
      else let stamp = entry_stamp path r; old = entry path r in
      if old \<noteq> [] \<and> \<not> has_key ''revision'' old then rfail ''pending_local_change_requires_merge'' r
      else let (res, r) = resident Q path r in
      if res \<and> content_equal old incoming then save Q incoming stamp r
      else if oget ''kind'' old = JStr ''directory'' then rfail ''structural_change_requires_merge'' r
      else let (ok, r) = (if stamp \<noteq> ''remote'' \<and> oget ''kind'' old = JStr ''file''
                          then on_files (remove Q (physical Q path)) r else (True, r)) in
      if \<not> ok then file_fail r else save Q incoming ''remote'' r)"

definition accept_journal :: "env \<Rightarrow> string \<Rightarrow> jobj \<Rightarrow> replica \<Rightarrow> bool \<times> replica" where
  "accept_journal Q peer page r =
     (let (ok, r) = ready Q r in
      if \<not> ok then (False, r)
      else if peer \<noteq> meta ''host'' r \<or> peer = [] then rfail ''host_revision_required'' r
      else if oget ''entries'' page = JArr []
      then (let (ok, why, r) = on_journal (accept Q page) r in if ok then (True, r) else rfail why r)
      else let (ok, r) = lock Q r in
      if \<not> ok then (False, r)
      else if peer \<noteq> meta ''host'' r \<or> peer = [] then rfail ''host_revision_required'' r
      else let (ok, r) = rpoll r in
      if \<not> ok then rfail ''journal_transaction_failed'' r
      else let before = db r; (ok, why, r) = on_journal (accept Q page) r;
               (ok, r) = (if ok then rpoll r else (False, r)) in
      if ok then (True, r)
      else rfail (if why = [] then ''namespace_commit_failed'' else why) (r\<lparr>db := before\<rparr>))"

section \<open>Change pages\<close>

text \<open>The loop of \<open>Replica::changes\<close> on a mirror: confirmed rows only move the cursor.\<close>

definition proposal_entry :: "row \<Rightarrow> jobj" where
  "proposal_entry w = (let e = oput ''sequence'' (jnumstr (rseq w)) (rdata w) in
     if has_key ''baseRevision'' e then e else oput ''baseRevision'' (JStr []) e)"

fun fill_changes :: "env \<Rightarrow> int \<Rightarrow> int \<Rightarrow> row list \<Rightarrow> jobj list \<times> int \<times> bool" where
  "fill_changes Q next used [] = ([], next, False)"
| "fill_changes Q next used (w # rows) =
     (if has_key ''revision'' (rdata w) then fill_changes Q (rseq w) used rows
      else let e = proposal_entry w; len = int (length (json_bytes Q e)) + 1 in
      if used + len > 256 * 1024 then ([], next, True)
      else let (es, n, limited) = fill_changes Q (rseq w) (used + len) rows in (e # es, n, limited))"

definition changed_rows :: "int \<Rightarrow> int \<Rightarrow> replica \<Rightarrow> row list" where
  "changed_rows after through r =
     take 128 (sort_key rseq (filter (\<lambda>w. after < rseq w \<and> rseq w \<le> through) (map snd (entry_rows (db r)))))"

definition local_changes :: "env \<Rightarrow> int \<Rightarrow> int \<Rightarrow> replica \<Rightarrow> jobj" where
  "local_changes Q after through0 r =
     (if meta ''host'' r = [] then
        oput ''replica'' (JStr (rid r)) (oput ''container'' (JStr (container_id r))
          (changes Q after through0 False (journal r)))
      else let current = meta_ll ''sequence'' r; through = (if through0 = 0 then current else through0) in
      if after < 0 \<or> after > through \<or> through > current then fst (failed ''invalid_change_cursor'' r)
      else let rows = changed_rows after through r;
               (entries, next, limited) = fill_changes Q after 0 rows;
               more = (limited \<or> (length rows = 128 \<and> next < through))
           in obj [(''ok'', JBool True), (''container'', JStr (container_id r)), (''replica'', JStr (rid r)),
                   (''entries'', JArr (map JObj entries)), (''through'', jnumstr through),
                   (''next'', jnumstr (if more then next else through)), (''more'', JBool more)])"

definition changes_page :: "env \<Rightarrow> int \<Rightarrow> int \<Rightarrow> replica \<Rightarrow> jobj \<times> replica" where
  "changes_page Q after through r = read_snapshot Q (local_changes Q after through) r"

definition journal_page :: "env \<Rightarrow> int \<Rightarrow> int \<Rightarrow> replica \<Rightarrow> jobj \<times> replica" where
  "journal_page Q after through r = read_snapshot Q (\<lambda>r. changes Q after through True (journal r)) r"

section \<open>Peers\<close>

definition peer_state :: "string \<Rightarrow> replica \<Rightarrow> jobj" where
  "peer_state peer r = (case map_of (peer_rows (db r)) peer of
      None \<Rightarrow> []
    | Some p \<Rightarrow> obj [(''replica'', JStr (preplica p)), (''container'', JStr (pcontainer p)),
                    (''pulled'', jnumstr (pulled p)), (''pushed'', jnumstr (pushed p))])"

definition last_snapshot :: "string \<Rightarrow> replica \<Rightarrow> jobj" where
  "last_snapshot peer r = (if \<not> db_open r then []
     else case map_of (snapshot_rows (db r)) peer of None \<Rightarrow> [] | Some s \<Rightarrow> s)"

definition other_remote :: "jobj \<Rightarrow> string \<Rightarrow> string \<Rightarrow> bool" where
  "other_remote before rep con \<longleftrightarrow> before \<noteq> []
     \<and> (jstr (oget ''replica'' before) \<noteq> rep \<or> jstr (oget ''container'' before) \<noteq> con)"

definition merged_peer :: "peer_row option \<Rightarrow> string \<Rightarrow> string \<Rightarrow> int \<Rightarrow> int \<Rightarrow> peer_row" where
  "merged_peer old rep con n m = (case old of
      None \<Rightarrow> \<lparr>preplica = rep, pcontainer = con, pulled = n, pushed = m\<rparr>
    | Some p \<Rightarrow> p\<lparr>pulled := max (pulled p) n, pushed := max (pushed p) m\<rparr>)"

definition save_peer_state ::
  "env \<Rightarrow> string \<Rightarrow> string \<Rightarrow> string \<Rightarrow> int \<Rightarrow> int \<Rightarrow> replica \<Rightarrow> bool \<times> replica" where
  "save_peer_state Q peer rep con n m r =
     (let (ok, r) = ready Q r in
      if \<not> ok then (False, r)
      else if peer = [] \<or> length peer > 256 \<or> uuid_null Q rep \<or> uuid_null Q con \<or> n < 0 \<or> m < 0
      then rfail ''invalid_peer_state'' r
      else let before = peer_state peer r in
      if other_remote before rep con then rfail ''remote_container_changed'' r
      else if before \<noteq> [] \<and> jll (oget ''pulled'' before) \<ge> n \<and> jll (oget ''pushed'' before) \<ge> m then (True, r)
      else let (ok, r) = lock Q r in
      if \<not> ok then (False, r)
      else if other_remote (peer_state peer r) rep con then rfail ''remote_container_changed'' r
      else let (ok, r) = sql r in
      if \<not> ok then (False, r)
      else (True, r\<lparr>db := (db r)\<lparr>peer_rows :=
             upsert peer (merged_peer (map_of (peer_rows (db r)) peer) rep con n m) (peer_rows (db r))\<rparr>\<rparr>))"

section \<open>Photos\<close>

text \<open>\<open>QFileInfo(path).suffix().toLower()\<close>: what follows the last dot of the file name.\<close>

definition lower :: "string \<Rightarrow> string" where
  "lower s = map (\<lambda>c. let n = (of_char c :: nat) in if 65 \<le> n \<and> n \<le> 90 then char_of (n + 32) else c) s"

definition suffix_of :: "string \<Rightarrow> string" where
  "suffix_of path = (let ps = qsplit (CHR ''.'') (section_last path) in if tl ps = [] then [] else lower (last ps))"

definition image_suffixes :: "string list" where
  "image_suffixes = [''png'', ''jpg'', ''jpeg'', ''webp'', ''heic'', ''heif'']"

definition contains_text :: "string \<Rightarrow> string \<Rightarrow> bool" where
  "contains_text t s \<longleftrightarrow> list_ex (\<lambda>n. starts_with t (drop n s)) [0..<Suc (length s)]"

definition photo_identity :: "string \<Rightarrow> bool" where
  "photo_identity path \<longleftrightarrow> starts_with ''photos/'' path
     \<and> (ends_with ''.societyphoto'' path \<or> starts_with ''photos/.previews/'' path)"

text \<open>At most 16 remote photo identities of at most 512 KiB, in path order.\<close>

definition missing_photo_identities :: "replica \<Rightarrow> jobj list" where
  "missing_photo_identities r =
     (if \<not> is_open r then []
      else take 16 (filter (\<lambda>e. oget ''kind'' e = JStr ''file'' \<and> jll (oget ''size'' e) \<le> 512 * 1024)
        (map (\<lambda>p. odel ''locations'' (object_metadata p r))
          (filter photo_identity (map (\<lambda>pw. jstr (oget ''path'' (rdata (snd pw))))
            (sort_key fst (filter (\<lambda>pw. rstamp (snd pw) = ''remote'') (entry_rows (db r)))))))))"

definition preview_file :: "jobj \<Rightarrow> string \<Rightarrow> string" where
  "preview_file e ext = ''.society-sync/previews/'' @ jstr (oget ''hash'' e) @ ext"

definition wants_preview :: "jobj \<Rightarrow> bool" where
  "wants_preview e \<longleftrightarrow> (let path = jstr (oget ''path'' e) in
     oget ''kind'' e = JStr ''file'' \<and> has_key ''revision'' e \<and> \<not> contains_text ''/.previews/'' path
     \<and> suffix_of path \<in> set image_suffixes)"

definition has_preview :: "env \<Rightarrow> jobj \<Rightarrow> string \<Rightarrow> fsys \<Rightarrow> bool \<times> fsys" where
  "has_preview Q e ext f = (let (st, f) = fs_state Q (preview_file e ext) f in
     (st \<noteq> None \<and> fkind (the st) = ''file'', f))"

fun previews_missing :: "env \<Rightarrow> nat \<Rightarrow> jobj list \<Rightarrow> replica \<Rightarrow> jobj list \<times> replica" where
  "previews_missing Q n [] r = ([], r)"
| "previews_missing Q n (e # es) r =
     (if n = 0 then ([], r)
      else if \<not> wants_preview e then previews_missing Q n es r
      else let (made, r) = on_files (has_preview Q e ''.jpg'') r in
      if made then previews_missing Q n es r
      else let (none, r) = on_files (has_preview Q e ''.none'') r in
      if none then previews_missing Q n es r
      else let (rest, r) = previews_missing Q (n - 1) es r in
           (odel ''locations'' (object_metadata (jstr (oget ''path'' e)) r) # rest, r))"

definition missing_previews :: "env \<Rightarrow> replica \<Rightarrow> jobj list \<times> replica" where
  "missing_previews Q r = (if \<not> is_open r then ([], r)
     else previews_missing Q 16 (map (\<lambda>pw. rdata (snd pw)) (entry_rows (db r))) r)"

definition save_file :: "string \<Rightarrow> string \<Rightarrow> fsys \<Rightarrow> bool \<times> fsys" where
  "save_file path bytes f =
     (let (ok, f) = poll f in
      if \<not> ok \<or> walk (names f) [] (butlast (comps path)) \<noteq> None then (False, f)
      else (case map_of (names f) (comps path) of
              Some (Dir i v) \<Rightarrow> (False, f)
            | _ \<Rightarrow> (True, let (i, f) = sys_create (comps path) f in sys_write i bytes f)))"

definition save_preview :: "env \<Rightarrow> jobj \<Rightarrow> jobj \<Rightarrow> replica \<Rightarrow> bool \<times> replica" where
  "save_preview Q e response r =
     (let (ok, r) = lock Q r in
      if \<not> ok then (False, r)
      else if \<not> valid_record Q e \<or> oget ''version'' response \<noteq> oget ''version'' e
      then rfail ''invalid_preview_version'' r
      else (case unb64 Q (jstr (oget ''data'' response)) of
              None \<Rightarrow> rfail ''invalid_preview'' r
            | Some bytes \<Rightarrow>
                if length bytes > 512 * 1024 then rfail ''invalid_preview'' r
                else let (ok, r) = on_files (mkdir ''.society-sync/previews'') r in
                if \<not> ok then file_fail r
                else if bytes \<noteq> [] \<and> \<not> preview_fits Q bytes then rfail ''invalid_preview_dimensions'' r
                else let target = preview_file e (if bytes = [] then ''.none'' else ''.jpg'');
                         (st, r) = on_files (fs_state Q target) r in
                if st = None then file_fail r
                else on_files (save_file target bytes) r))"

section \<open>What the metadata operations keep\<close>

interpretation view: op_rel same_view
  by unfold_locales (auto simp: same_view_def)

lemma view_fields' [simp]:
  "same_view r (s\<lparr>faults := fl\<rparr>) = same_view r s" "same_view r (s\<lparr>rerror := e\<rparr>) = same_view r s"
  "same_view r (s\<lparr>proposal := e\<rparr>) = same_view r s" "same_view r (s\<lparr>proposal_base := e\<rparr>) = same_view r s"
  "same_view r (s\<lparr>leases := ls\<rparr>) = same_view r s" "same_view r (s\<lparr>files := f\<rparr>) = same_view r s"
  by (simp_all add: same_view_def)

lemma view_steps [simp]:
  "same_view r (snd (rpoll s)) = same_view r s" "same_view r (snd (rfail e s)) = same_view r s"
  "same_view r (snd (sql s)) = same_view r s" "same_view r (snd (on_files op s)) = same_view r s"
  "same_view r (snd (file_fail s)) = same_view r s"
  by (auto simp: rpoll_def rfail_def sql_def on_files_eq file_fail_def split_beta split: list.split)

lemma view_ready [simp]: "same_view r (snd (ready Q r))"
  unfolding ready_def Let_def by (intro view.cond view.call) auto

lemma view_lock [simp]: "same_view r (snd (lock Q r))"
  unfolding lock_def Let_def by (intro view.cond view.call) auto

lemma view_resident [simp]: "same_view r (snd (resident Q path r))"
  unfolding resident_def Let_def by (intro view.cond view.call) auto

lemma extends_clear: "extends Q r (r\<lparr>rerror := [], files := (files r)\<lparr>ferror := []\<rparr>\<rparr>)"
  using extends_new_files [of "r\<lparr>rerror := []\<rparr>" "(files r)\<lparr>ferror := []\<rparr>" Q] by simp

lemma extends_ready: "extends Q r (snd (ready Q r))"
  unfolding ready_def Let_def
  by (rule ext.trans [OF extends_clear]; intro ext.cond ext.call)
    (auto intro!: extends_on_files keeps_of_grows)

lemma extends_lock: "extends Q r (snd (lock Q r))"
  unfolding lock_def Let_def by (intro ext.cond ext.call) (auto intro: extends_ready)

lemma extends_resident: "extends Q r (snd (resident Q path r))"
  unfolding resident_def Let_def by (intro ext.cond ext.call) (auto intro!: extends_on_files keeps_of_grows)

lemma valid_record_physical: "valid_record Q e \<Longrightarrow> physical Q (jstr (oget ''path'' e)) \<noteq> []"
  by (auto simp: valid_record_def Let_def)

lemma extends_metadata:
  assumes "sections_ok Q"
  shows "extends Q r (snd (accept_metadata Q peer incoming r))"
proof (cases "valid_record Q incoming")
  case True
  from valid_record_physical [OF this] show ?thesis
    unfolding accept_metadata_def Let_def
    by (intro ext.cond ext.call)
      (auto intro!: extends_lock extends_resident extends_on_files keeps_remove_public [OF assms])
next
  case False
  then show ?thesis
    unfolding accept_metadata_def Let_def
    by (intro ext.cond ext.call) (auto intro!: extends_lock)
qed

lemma fst_rfail [simp]: "fst (rfail e r) = False" "snd (rfail e r) = r\<lparr>rerror := e\<rparr>"
  by (simp_all add: rfail_def)

lemma rfail_True: "rfail e r \<noteq> (True, s)" "file_fail r \<noteq> (True, s)"
  by (simp_all add: rfail_def file_fail_def)

lemma view_db: "same_view r s \<Longrightarrow> db s = db r" "same_view r s \<Longrightarrow> entry p s = entry p r"
  "same_view r s \<Longrightarrow> entry_stamp p s = entry_stamp p r"
  by (simp_all add: same_view_def entry_def entry_stamp_def)

lemma view_contains: "same_view r s \<Longrightarrow> contains_record e (journal s) = contains_record e (journal r)"
  using view_meta [of r s] by (simp add: contains_record_def revision_def journal_def same_view_def)

lemma metadata_row:
  assumes a: "accept_metadata Q peer incoming r = (True, s)" and ok: "store_ok Q r"
  shows "valid_record Q incoming \<and> peer = meta ''host'' r \<and> peer \<noteq> [] \<and> contains_record incoming (journal r)
    \<and> (\<exists>w. map_of (entry_rows (db s)) (jstr (oget ''path'' incoming)) = Some w
         \<and> oget ''version'' (rdata w) = oget ''version'' (versioned Q incoming))"
proof -
  let ?p = "jstr (oget ''path'' incoming)"
  obtain b r0 where l: "lock Q r = (b, r0)" by (cases "lock Q r")
  have v0: "same_view r r0" using view_lock [of r Q] l by simp
  have g: "b" "valid_record Q incoming" "peer = meta ''host'' r" "peer \<noteq> []" "contains_record incoming (journal r)"
    using a l view_meta [OF v0] view_contains [OF v0] by (auto simp: accept_metadata_def Let_def rfail_True split: if_splits)
  obtain c r1 where f: "refresh Q ?p r0 = (c, r1)" by (cases "refresh Q ?p r0")
  have "extends Q r r1" using extends_refresh [OF extends_lock [of Q r], of ?p] l f by simp
  then have ok1: "store_ok Q r1" using ok by (simp add: extends_def)
  obtain d r2 where q: "resident Q ?p r1 = (d, r2)" by (cases "resident Q ?p r1")
  have ok2: "store_ok Q r2" using view_store_ok [of r1 r2 Q] view_resident [of r1 Q ?p] q ok1 by simp
  have "\<exists>t st. save Q incoming st t = (True, s) \<and> store_ok Q t"
    using a l f q g ok2 v0
    by (auto simp: accept_metadata_def Let_def rfail_True split: if_splits prod.splits)
      (metis on_files_store_ok snd_conv)+
  then show ?thesis using save_row(1) g by blast
qed

lemma metadata_pending:
  assumes a: "accept_metadata Q peer incoming r = (ok, s)" and r: "lock Q r = (True, r0)"
    "refresh Q (jstr (oget ''path'' incoming)) r0 = (True, r1)"
    and p: "entry (jstr (oget ''path'' incoming)) r1 \<noteq> []" "\<not> has_key ''revision'' (entry (jstr (oget ''path'' incoming)) r1)"
  shows "\<not> ok \<and> (db s = db r1 \<or> db s = db r)"
  using a r p view_db(1) [OF view_lock [of r Q]]
  by (auto simp: accept_metadata_def Let_def rfail_def split: if_splits)

text \<open>C8: taking a host's record into the catalog of a mirror is safe: whatever the record and
  whatever fails, the index invariant holds, revisions are only appended and no non-empty public
  file is lost; a local change that the host has not confirmed is never replaced by it; and a
  success means that a valid record the host's journal contains is now the path's row.\<close>

theorem metadata_safe:
  assumes "sections_ok Q" "store_ok Q r" "ino_bound (files r)" "accept_metadata Q peer incoming r = (ok, s)"
  shows "store_ok Q s \<and> (\<exists>ds. rev_rows (db s) = rev_rows (db r) @ ds)
    \<and> (\<forall>p i. safe_path p \<and> file_at (files r) p i \<and> content (files r) i \<noteq> [] \<longrightarrow>
         (\<exists>q. safe_path q \<and> file_at (files s) q i) \<and> content (files s) i = content (files r) i)
    \<and> (\<forall>r0 r1. lock Q r = (True, r0) \<and> refresh Q (jstr (oget ''path'' incoming)) r0 = (True, r1)
         \<and> entry (jstr (oget ''path'' incoming)) r1 \<noteq> [] \<and> \<not> has_key ''revision'' (entry (jstr (oget ''path'' incoming)) r1)
         \<longrightarrow> \<not> ok \<and> (db s = db r1 \<or> db s = db r))
    \<and> (ok \<longrightarrow> valid_record Q incoming \<and> peer = meta ''host'' r \<and> contains_record incoming (journal r)
         \<and> (\<exists>w. map_of (entry_rows (db s)) (jstr (oget ''path'' incoming)) = Some w
              \<and> oget ''version'' (rdata w) = oget ''version'' (versioned Q incoming)))"
proof -
  have e: "extends Q r s" using extends_metadata [OF assms(1), of r peer incoming] assms(4) by simp
  then have "\<forall>p i. safe_path p \<and> file_at (files r) p i \<and> content (files r) i \<noteq> [] \<longrightarrow>
         (\<exists>q. safe_path q \<and> file_at (files s) q i) \<and> content (files s) i = content (files r) i"
    using assms(3) unfolding extends_def keeps_def held_def by blast
  moreover have "\<forall>r0 r1. lock Q r = (True, r0) \<and> refresh Q (jstr (oget ''path'' incoming)) r0 = (True, r1)
       \<and> entry (jstr (oget ''path'' incoming)) r1 \<noteq> [] \<and> \<not> has_key ''revision'' (entry (jstr (oget ''path'' incoming)) r1)
       \<longrightarrow> \<not> ok \<and> (db s = db r1 \<or> db s = db r)"
    using metadata_pending [OF assms(4)] by blast
  moreover have "ok \<longrightarrow> valid_record Q incoming \<and> peer = meta ''host'' r \<and> contains_record incoming (journal r)
       \<and> (\<exists>w. map_of (entry_rows (db s)) (jstr (oget ''path'' incoming)) = Some w
            \<and> oget ''version'' (rdata w) = oget ''version'' (versioned Q incoming))"
  proof
    assume "ok"
    with assms(4) metadata_row [OF _ assms(2), of peer incoming s]
    show "valid_record Q incoming \<and> peer = meta ''host'' r \<and> contains_record incoming (journal r)
       \<and> (\<exists>w. map_of (entry_rows (db s)) (jstr (oget ''path'' incoming)) = Some w
            \<and> oget ''version'' (rdata w) = oget ''version'' (versioned Q incoming))" by auto
  qed
  ultimately show ?thesis using e assms(2) by (simp only: extends_def simp_thms)
qed

definition peers_ok :: "replica \<Rightarrow> bool" where
  "peers_ok r \<longleftrightarrow> list_all (\<lambda>(p, x). in_int64 (pulled x) \<and> in_int64 (pushed x)) (peer_rows (db r))"

lemma peer_state_get:
  assumes "map_of (peer_rows (db r)) p = Some x"
  shows "peer_state p r \<noteq> []" "oget ''replica'' (peer_state p r) = JStr (preplica x)"
    "oget ''container'' (peer_state p r) = JStr (pcontainer x)" "oget ''pulled'' (peer_state p r) = jnumstr (pulled x)"
    "oget ''pushed'' (peer_state p r) = jnumstr (pushed x)"
proof -
  show g: "oget ''replica'' (peer_state p r) = JStr (preplica x)" "oget ''container'' (peer_state p r) = JStr (pcontainer x)"
    "oget ''pulled'' (peer_state p r) = jnumstr (pulled x)" "oget ''pushed'' (peer_state p r) = jnumstr (pushed x)"
    using assms by (simp_all add: peer_state_def oget_obj)
  show "peer_state p r \<noteq> []" using g(1) by auto
qed

lemma peer_state_cong: "db s = db r \<Longrightarrow> peer_state p s = peer_state p r"
  by (simp add: peer_state_def)

text \<open>Progress with a peer never moves back: recording pulled and pushed cursors keeps every known
  peer's replica, container and higher cursors, and a success means that the peer's row names this
  replica and container and has reached both cursors.\<close>

theorem peer_monotone:
  assumes "save_peer_state Q peer rep con n m r = (ok, s)" "peers_ok r"
  shows "(\<forall>p x. map_of (peer_rows (db r)) p = Some x \<longrightarrow> (\<exists>y. map_of (peer_rows (db s)) p = Some y
            \<and> preplica y = preplica x \<and> pcontainer y = pcontainer x \<and> pulled x \<le> pulled y \<and> pushed x \<le> pushed y))
    \<and> (ok \<longrightarrow> (\<exists>y. map_of (peer_rows (db s)) peer = Some y \<and> preplica y = rep \<and> pcontainer y = con
            \<and> n \<le> pulled y \<and> m \<le> pushed y))"
proof -
  have same: ?thesis if "db s = db r" "\<not> ok" using that by auto
  obtain b r0 where r0: "ready Q r = (b, r0)" by (cases "ready Q r")
  have v0: "same_view r r0" using view_ready [of r Q] r0 by simp
  obtain c r1 where r1: "lock Q r0 = (c, r1)" by (cases "lock Q r0")
  have v1: "same_view r r1" using view.trans [OF v0] view_lock [of r0 Q] r1 by simp
  obtain d r2 where r2: "sql r1 = (d, r2)" by (cases "sql r1")
  have v2: "same_view r r2" using view.trans [OF v1] view_steps(3) [of r1 r1] r2 by simp
  note db = view_db(1) [OF v0] view_db(1) [OF v1] view_db(1) [OF v2]
  note step = assms(1) [unfolded save_peer_state_def Let_def r0 r1 r2 prod.case]
  let ?old = "map_of (peer_rows (db r)) peer"
  have in64: "in_int64 (pulled x) \<and> in_int64 (pushed x)" if "?old = Some x" for x
    using map_of_SomeD [OF that] assms(2) by (auto simp: peers_ok_def list_all_iff)
  consider (fail) "\<not> ok" "db s = db r"
    | (known) x where "ok" "db s = db r" "?old = Some x" "preplica x = rep" "pcontainer x = con" "n \<le> pulled x" "m \<le> pushed x"
    | (saved) "ok" "db s = (db r)\<lparr>peer_rows := upsert peer (merged_peer ?old rep con n m) (peer_rows (db r))\<rparr>"
        "\<And>x. ?old = Some x \<Longrightarrow> preplica x = rep \<and> pcontainer x = con"
  proof (cases ?old)
    case None
    then have "peer_state peer r = []" by (simp add: peer_state_def)
    with step None show thesis
      using fail saved db by (auto simp: rfail_def other_remote_def peer_state_cong [OF db(1)] split: if_splits)
  next
    case (Some x)
    note g = peer_state_get [OF Some]
    from step Some in64 [OF Some] show thesis
      using fail known [OF _ _ Some] saved db
      by (auto simp: rfail_def other_remote_def peer_state_cong [OF db(1)] peer_state_cong [OF db(2)] g split: if_splits)
  qed
  then show ?thesis
  proof cases
    case saved
    then show ?thesis by (cases ?old) (auto simp: merged_peer_def)
  qed (use same in auto)
qed

lemma accept_frame:
  assumes "ledger_ok Q l" "\<forall>v\<in>set (jarray (oget ''entries'' page)). wf_obj (jobject v)"
  shows "space (snd (accept Q page l)) = space l" "authority (snd (accept Q page l)) = authority l"
    "oget ''entries'' page = JArr [] \<Longrightarrow> revs (snd (accept Q page l)) = revs l \<and> locations (snd (accept Q page l)) = locations l"
proof -
  have ok: "rows_ok Q (space l) (authority l) (revs l)" using assms by (simp add: ledger_ok_def)
  let ?n = "counter (oget ''sequence'' (ledger_state l))" and ?h = "jstr (oget ''head'' (ledger_state l))"
  have n: "?n = int (length (revs l))" "?h = head_id (revs l)"
    using state_sequence [OF ok] by (simp_all add: counter_jnumstr ledger_state_simps)
  obtain b l' where s: "accept_revisions Q ?n ?h (jarray (oget ''entries'' page)) l = (b, l')"
    by (cases "accept_revisions Q ?n ?h (jarray (oget ''entries'' page)) l")
  have e: "\<exists>k m. k \<in> {l, l'} \<and> snd (accept Q page l) = k\<lparr>jerror := m\<rparr>"
  proof (cases "invalid_page Q page ?n l")
    case True
    then show ?thesis by (auto simp: accept_def jfail_def)
  next
    case False
    then have "snd (accept Q page l) = l' \<or> (\<exists>m. snd (accept Q page l) = l'\<lparr>jerror := m\<rparr>)"
      by (auto simp: accept_def Let_def s jfail_def split: option.split)
    moreover have "l' = l'\<lparr>jerror := jerror l'\<rparr>" by simp
    ultimately show ?thesis by (metis insertI1 insertI2)
  qed
  have l': "space l' = space l" "authority l' = authority l" using accept_revisions_ok [OF ok assms(2) n s] by simp_all
  from e l' show "space (snd (accept Q page l)) = space l" "authority (snd (accept Q page l)) = authority l" by auto
  assume "oget ''entries'' page = JArr []"
  then have "l' = l" using s by auto
  with e show "revs (snd (accept Q page l)) = revs l \<and> locations (snd (accept Q page l)) = locations l" by auto
qed

lemma import_store_ok:
  assumes "store_ok Q r" "meta ''host'' r \<noteq> []" "\<forall>v\<in>set (jarray (oget ''entries'' page)). wf_obj (jobject v)"
    "on_journal (accept Q page) r = (b, why, s)"
  shows "store_ok Q s" "\<exists>ds. rev_rows (db s) = rev_rows (db r) @ ds" "entry_rows (db s) = entry_rows (db r)"
    "oget ''entries'' page = JArr [] \<Longrightarrow> db s = db r"
proof -
  have l: "ledger_ok Q (journal r)" using assms(1) by (simp add: store_ok_def)
  let ?a = "snd (accept Q page (journal r))"
  have s: "s = r\<lparr>db := (db r)\<lparr>rev_rows := revs ?a, loc_rows := locations ?a\<rparr>, faults := sqlfault ?a\<rparr>"
    using assms(4) by (auto simp: on_journal_def split_beta Let_def)
  have m: "meta k s = meta k r" for k by (simp add: s meta_def)
  note f = accept_frame [OF l assms(3)]
  show "\<exists>ds. rev_rows (db s) = rev_rows (db r) @ ds" using accept_chain [OF l assms(3)] by (simp add: s space_journal)
  show "entry_rows (db s) = entry_rows (db r)" by (simp add: s)
  show "oget ''entries'' page = JArr [] \<Longrightarrow> db s = db r" using f(3) by (simp add: s space_journal)
  have "ledger_ok Q (journal s)"
  proof -
    have "revs (journal s) = revs ?a" "space (journal s) = space ?a" "authority (journal s) = authority ?a"
      using f(1,2) m by (simp_all add: space_journal) (simp_all add: s)
    then show ?thesis using accept_chain [OF l assms(3)] by (simp add: ledger_ok_def)
  qed
  then show "store_ok Q s"
    using assms(1,2) m by (simp add: store_ok_def row_fits_def meta_ll_def list_all_iff) (simp add: s)
qed

text \<open>C7: importing a page of the host's journal is atomic and only appends: a failure leaves the
  database as it was, whichever step fails; in every case the index invariant holds, the index
  rows are untouched, and the revisions already held are kept in place.\<close>

theorem journal_import_atomic:
  assumes "accept_journal Q peer page r = (ok, s)" "store_ok Q r"
    "\<forall>v\<in>set (jarray (oget ''entries'' page)). wf_obj (jobject v)"
  shows "store_ok Q s \<and> (\<exists>ds. rev_rows (db s) = rev_rows (db r) @ ds) \<and> entry_rows (db s) = entry_rows (db r)
    \<and> (\<not> ok \<longrightarrow> db s = db r)"
proof -
  obtain b0 r0 where r0: "ready Q r = (b0, r0)" by (cases "ready Q r")
  have v0: "same_view r r0" using view_ready [of r Q] r0 by simp
  obtain b1 r1 where r1: "lock Q r0 = (b1, r1)" by (cases "lock Q r0")
  have v1: "same_view r r1" using view.trans [OF v0] view_lock [of r0 Q] r1 by simp
  obtain b2 r2 where r2: "rpoll r1 = (b2, r2)" by (cases "rpoll r1")
  have v2: "same_view r r2" using view.trans [OF v1] view_steps(1) [of r1 r1] r2 by simp
  obtain a0 w0 t0 where t0: "on_journal (accept Q page) r0 = (a0, w0, t0)" by (metis prod_cases3)
  obtain a2 w2 t2 where t2: "on_journal (accept Q page) r2 = (a2, w2, t2)" by (metis prod_cases3)
  obtain b3 t3 where t3: "rpoll t2 = (b3, t3)" by (cases "rpoll t2")
  have v3: "same_view t2 t3" using view_steps(1) [of t2 t2] t3 by simp
  note ok = view_store_ok [OF v0, of Q] view_store_ok [OF v2, of Q] view_store_ok [OF v3, of Q]
  note db = view_db(1) [OF v0] view_db(1) [OF v1] view_db(1) [OF v2] view_db(1) [OF v3]
  have "same_view r (t2\<lparr>db := db r2\<rparr>)"
    using t2 v2 by (auto simp: on_journal_def same_view_def Let_def split_beta)
  moreover from this have "same_view r (t3\<lparr>db := db r2\<rparr>)" using v3 by (simp add: same_view_def)
  moreover note v3
  ultimately consider (fail) "\<not> ok" "same_view r s" | (empty) "oget ''entries'' page = JArr []" "meta ''host'' r0 \<noteq> []" "same_view t0 s"
    | (taken) "meta ''host'' r2 \<noteq> []" "ok" "same_view t2 s"
    using assms(1) v0 v1 v2 view_meta [OF v0] view_meta [OF v1] view_meta [OF v2]
    by (auto simp: accept_journal_def Let_def r0 r1 r2 t0 t2 t3 rfail_def split: if_splits)
  then show ?thesis
  proof cases
    case empty
    note i = import_store_ok [OF _ empty(2) assms(3) t0]
    show ?thesis using i empty(1) ok(1) assms(2) db view_db(1) [OF empty(3)] view_store_ok [OF empty(3), of Q] by simp
  next
    case taken
    note i = import_store_ok [OF _ taken(1) assms(3) t2]
    show ?thesis using i(1-3) taken(2) ok(2) assms(2) db view_db(1) [OF taken(3)] view_store_ok [OF taken(3), of Q] by simp
  qed (use assms(2) view_store_ok view_db in auto)
qed

section \<open>Witnesses\<close>

lemma sample_sections: "sections_ok sample_env"
  by (simp add: sections_ok_def)

lemma sample_state_area: "fs_state sample_env ''.society-sync'' sample_files
   = (Some \<lparr>fkind = ''directory'', fstamp = node_stamp sample_env sample_files (Dir 1 0), fsize = 0\<rparr>, sample_files)"
proof -
  have "parent_dir ''.society-sync'' False sample_files = (None, sample_files)"
    by (simp add: parent_dir_def dir_part_def sample_open relative_def utf8_size_def starts_with_def)
  moreover have "map_of (names sample_files) [''.society-sync''] = Some (Dir 1 0)" by (simp add: sample_files_def)
  ultimately show ?thesis by (simp add: fs_state_def sample_poll)
qed

lemma ready_open:
  assumes "files r = sample_files" "db_open r" "scope r \<noteq> []" "rid r \<noteq> []" "drive r \<noteq> None" "rerror r = []"
  shows "ready sample_env r = (True, r)"
proof -
  have same: "r\<lparr>rerror := [], files := sample_files\<lparr>ferror := []\<rparr>\<rparr> = r"
    using assms by (simp add: sample_files_def)
  have f: "on_files op r = (fst (op sample_files), r\<lparr>files := snd (op sample_files)\<rparr>)" for op :: "fsys \<Rightarrow> 'b \<times> fsys"
    using assms by (simp add: on_files_eq)
  have f': "r\<lparr>files := sample_files\<rparr> = r" using assms by simp
  have "\<not> redirected sample_files" by (simp add: redirected_def state_files_def sample_files_def)
  then show ?thesis
    using assms by (auto simp: ready_def Let_def same f f' sample_poll sample_state_area)
qed

lemma lock_open:
  assumes "files r = sample_files" "db_open r" "scope r \<noteq> []" "rid r \<noteq> []" "drive r \<noteq> None" "rerror r = []" "faults r = []"
  shows "lock sample_env r = (True, r)"
  using ready_open [OF assms(1-6)] assms(7) by (simp add: lock_def rpoll_def)

theorem metadata_safe_witness:
  "store_ok sample_env (snd (accept_metadata sample_env ''h'' sample_entry sample_follower))
   \<and> (\<exists>q. file_at (files (snd (accept_metadata sample_env ''h'' sample_entry sample_follower))) q 5)"
proof -
  have "ino_bound (files sample_follower)" by (simp add: sample_follower_simps sample_ino_bound)
  note m = metadata_safe [OF sample_sections sample_follower_ok this prod.collapse [symmetric], of "''h''" sample_entry]
  have "safe_path [''Notes'', ''a'']" "file_at (files sample_follower) [''Notes'', ''a''] 5" "content (files sample_follower) 5 \<noteq> []"
    by (simp_all add: safe_path_def starts_with_def file_at_def sample_files_def content_def sample_follower_simps)
  with m show ?thesis by blast
qed

theorem peer_monotone_witness:
  "\<exists>y. map_of (peer_rows (db (snd (save_peer_state sample_env ''h'' ''r'' ''c'' 1 2 sample_replica)))) ''h'' = Some y
     \<and> 1 \<le> pulled y \<and> 2 \<le> pushed y"
proof -
  have l: "ready sample_env sample_replica = (True, sample_replica)" "lock sample_env sample_replica = (True, sample_replica)"
    by (rule ready_open lock_open; simp add: sample_replica_def zeros_def)+
  have k: "fst (save_peer_state sample_env ''h'' ''r'' ''c'' 1 2 sample_replica)"
    by (simp add: save_peer_state_def Let_def l) (simp add: peer_state_def other_remote_def sql_def rpoll_def sample_replica_def sample_db_def)
  have "peers_ok sample_replica" by (simp add: peers_ok_def sample_replica_def sample_db_def)
  from peer_monotone [OF prod.collapse [symmetric] this, of sample_env "''h''" "''r''" "''c''" 1 2] k show ?thesis by blast
qed

theorem journal_import_atomic_witness:
  "store_ok sample_env (snd (accept_journal sample_env ''h'' [] sample_follower))
   \<and> entry_rows (db (snd (accept_journal sample_env ''h'' [] sample_follower))) = entry_rows (db sample_follower)"
proof -
  have "\<forall>v\<in>set (jarray (oget ''entries'' [])). wf_obj (jobject v)" by simp
  from journal_import_atomic [OF prod.collapse [symmetric] sample_follower_ok this, of "''h''"] show ?thesis by blast
qed

end
