(* ===== verification/Serve.thy ===== *)
theory Serve
  imports Catalog
begin

text \<open>
  \<open>Replica::handle\<close> (\<open>src/src/Sync/Replica.cpp\<close>): the requests a peer sends over the
  authenticated channel. Manifest pages announce what a peer will transfer, \<open>begin\<close>, \<open>chunk\<close>,
  \<open>commit\<close> and \<open>apply\<close> transfer and merge records, \<open>read\<close> and \<open>preview\<close> serve content, and
  \<open>snapshot.complete\<close> acknowledges an applied snapshot. Requests whose action starts with
  \<open>drive.\<close> and the index refresh before \<open>changes\<close> are parameters here: they are the functions
  \<open>drive_request\<close> and \<open>scan\<close> of the theories \<open>Drive\<close> and \<open>Scan\<close>.
\<close>

section \<open>Manifests\<close>

definition put_manifest :: "string \<Rightarrow> manifest \<Rightarrow> replica \<Rightarrow> replica" where
  "put_manifest peer m r = r\<lparr>manifests := upsert peer m (manifests r)\<rparr>"

definition drop_manifest :: "string \<Rightarrow> replica \<Rightarrow> replica" where
  "drop_manifest peer r = r\<lparr>manifests := filter (\<lambda>(p, m). p \<noteq> peer) (manifests r)\<rparr>"

definition new_manifest :: "string \<Rightarrow> string \<Rightarrow> jobj \<Rightarrow> int \<Rightarrow> int \<Rightarrow> int \<Rightarrow> manifest" where
  "new_manifest i rep snapshot total_entries after through =
     \<lparr>mid = i, mreplica = rep, msnapshot = snapshot, members = [], applied = [], added = 0, updated = 0, removed = 0,
      unchanged = 0, conflicts = 0, mnext = 0, mtotal = total_entries, mafter = after, mthrough = through,
      msequence = after, mcomplete = False, mbytes = []\<rparr>"

definition manifest_keys :: "string list" where
  "manifest_keys = [''path'', ''kind'', ''size'', ''hash'', ''clock'', ''version'', ''sequence'', ''baseRevision'']"

text \<open>The plan of a snapshot counts what applying an entry would do.\<close>

definition plan_entry :: "jobj \<Rightarrow> jobj \<Rightarrow> manifest \<Rightarrow> manifest" where
  "plan_entry e current m =
     (if current \<noteq> [] \<and> content_equal e current then m\<lparr>unchanged := unchanged m + 1\<rparr>
      else if jstr (oget ''baseRevision'' e) \<noteq> jstr (oget ''revision'' current) then m\<lparr>conflicts := conflicts m + 1\<rparr>
      else if oget ''kind'' e = JStr ''deleted'' then m\<lparr>removed := removed m + 1\<rparr>
      else if current = [] \<or> oget ''kind'' current = JStr ''deleted'' then m\<lparr>added := added m + 1\<rparr>
      else m\<lparr>updated := updated m + 1\<rparr>)"

definition manifest_entry :: "env \<Rightarrow> ledger \<Rightarrow> jobj \<Rightarrow> manifest \<Rightarrow> string + manifest" where
  "manifest_entry Q l e m =
     (case number (oget ''sequence'' e) of
        None \<Rightarrow> Inl ''invalid_manifest_entry''
      | Some sequence \<Rightarrow>
          if \<not> valid_record Q e \<or> sequence \<le> msequence m \<or> sequence > mthrough m
             \<or> \<not> set (okeys e) \<subseteq> set manifest_keys
          then Inl ''invalid_manifest_entry''
          else let m = m\<lparr>mbytes := mbytes m @ json_bytes Q e @ [CHR 0x0A], msequence := sequence\<rparr>;
                   path = jstr (oget ''path'' e) in
          if msnapshot m = [] then Inr m
          else if \<not> has_key ''baseRevision'' e \<or> map_of (members m) path \<noteq> None then Inl ''invalid_snapshot_entry''
          else Inr (plan_entry e (object path l)
                 (m\<lparr>members := upsert path (digest Q (json_bytes Q e)) (members m)\<rparr>)))"

fun manifest_entries :: "env \<Rightarrow> ledger \<Rightarrow> json list \<Rightarrow> manifest \<Rightarrow> string + manifest" where
  "manifest_entries Q l [] m = Inr m"
| "manifest_entries Q l (v # vs) m =
     (case manifest_entry Q l (jobject v) m of
        Inl e \<Rightarrow> Inl e
      | Inr m \<Rightarrow> manifest_entries Q l vs m)"

definition manifest_reply :: "manifest \<Rightarrow> jobj" where
  "manifest_reply m =
     (let response = obj [(''ok'', JBool True), (''manifest'', JStr (mid m)), (''next'', jnumstr (mnext m)),
                          (''complete'', JBool (mcomplete m))] in
      if mcomplete m \<and> msnapshot m \<noteq> []
      then oput ''diff'' (JObj (diff m)) (oput ''snapshot'' (JObj (msnapshot m)) response) else response)"

text \<open>The numbers of a page, when it is well formed.\<close>

definition manifest_numbers :: "env \<Rightarrow> jobj \<Rightarrow> replica \<Rightarrow> (int \<times> int \<times> int \<times> int) option" where
  "manifest_numbers Q request r =
     (let i = jstr (oget ''manifest'' request); rep = jstr (oget ''replica'' request);
          entries = jarray (oget ''entries'' request) in
      case (number (oget ''offset'' request), number (oget ''total'' request),
            number (oget ''after'' request), number (oget ''through'' request)) of
        (Some offset, Some n, Some after, Some through) \<Rightarrow>
          if \<not> hex i \<or> uuid_null Q rep \<or> rep = rid r \<or> after > through \<or> n > 250000 \<or> offset > n
             \<or> length entries > 128 \<or> int (length entries) > n - offset
             \<or> \<not> is_arr (oget ''entries'' request) \<or> (entries = [] \<and> n \<noteq> 0)
          then None else Some (offset, n, after, through)
      | _ \<Rightarrow> None)"

definition snapshot_base_known :: "jobj \<Rightarrow> ledger \<Rightarrow> bool" where
  "snapshot_base_known snapshot l \<longleftrightarrow> snapshot = [] \<or> jll (oget ''baseSequence'' snapshot) = 0
     \<or> oget ''sequence'' (revision (jstr (oget ''baseRevision'' snapshot)) l) = oget ''baseSequence'' snapshot"

text \<open>A page that continues the announced manifest: its entries, then the digest of the whole.\<close>

definition manifest_continue ::
  "env \<Rightarrow> string \<Rightarrow> jobj \<Rightarrow> int \<times> int \<times> int \<times> int \<Rightarrow> jobj \<Rightarrow> replica \<Rightarrow> jobj \<times> replica" where
  "manifest_continue Q peer snapshot nums request r =
     (case nums of (offset, n, after, through) \<Rightarrow>
      case map_of (manifests r) peer of
        None \<Rightarrow> failed ''manifest_page_out_of_order'' r
      | Some m \<Rightarrow>
          if mcomplete m \<or> mid m \<noteq> jstr (oget ''manifest'' request) \<or> mreplica m \<noteq> jstr (oget ''replica'' request)
             \<or> mnext m \<noteq> offset \<or> mtotal m \<noteq> n \<or> mafter m \<noteq> after \<or> mthrough m \<noteq> through \<or> msnapshot m \<noteq> snapshot
          then failed ''manifest_page_out_of_order'' r
          else (case manifest_entries Q (journal r) (jarray (oget ''entries'' request)) m of
                  Inl e \<Rightarrow> failed e (drop_manifest peer r)
                | Inr m \<Rightarrow>
                    let m = m\<lparr>mnext := mnext m + int (length (jarray (oget ''entries'' request)))\<rparr> in
                    if mnext m = n \<and> sha256 Q (mbytes m) \<noteq> mid m
                    then failed ''manifest_hash_mismatch'' (drop_manifest peer r)
                    else let m = m\<lparr>mcomplete := (mnext m = n)\<rparr> in (manifest_reply m, put_manifest peer m r)))"

definition manifest_page :: "env \<Rightarrow> string \<Rightarrow> jobj \<Rightarrow> replica \<Rightarrow> jobj \<times> replica" where
  "manifest_page Q peer request r =
     (let (ok, r) = ready Q r in
      if \<not> ok then failed [] r
      else let snapshot = jobject (oget ''snapshot'' request) in
      if has_key ''snapshot'' request \<and> (\<not> valid_snapshot Q snapshot \<or> meta ''host'' r \<noteq> [])
      then failed ''invalid_snapshot'' r
      else (case manifest_numbers Q request r of
              None \<Rightarrow> failed ''invalid_manifest_page'' r
            | Some (offset, n, after, through) \<Rightarrow>
                if offset = 0 \<and> \<not> snapshot_base_known snapshot (journal r) then failed ''snapshot_base_unknown'' r
                else if offset = 0 \<and> map_of (manifests r) peer = None \<and> length (manifests r) \<ge> 32
                then failed ''manifest_capacity'' r
                else let r = (if offset = 0 then put_manifest peer
                       (new_manifest (jstr (oget ''manifest'' request)) (jstr (oget ''replica'' request)) snapshot n after through) r
                       else r)
                     in manifest_continue Q peer snapshot (offset, n, after, through) request r))"

section \<open>Snapshots\<close>

definition receipt :: "env \<Rightarrow> manifest \<Rightarrow> replica \<Rightarrow> jobj" where
  "receipt Q m r = obj [(''snapshot'', JObj (msnapshot m)), (''manifest'', JStr (mid m)), (''replica'', JStr (mreplica m)),
     (''container'', JStr (container_id r)), (''after'', jnumstr (mafter m)), (''through'', jnumstr (mthrough m)),
     (''diff'', JObj (diff m)), (''receivedAt'', jnumstr (now_ms Q))]"

definition receipt_reply :: "jobj \<Rightarrow> jobj" where
  "receipt_reply x = obj [(''ok'', JBool True), (''receipt'', JObj x)]"

definition complete_snapshot :: "env \<Rightarrow> string \<Rightarrow> jobj \<Rightarrow> replica \<Rightarrow> jobj \<times> replica" where
  "complete_snapshot Q peer request r =
     (let previous = last_snapshot peer r;
          known = (case map_of (manifests r) peer of None \<Rightarrow> None
            | Some m \<Rightarrow> if \<not> mcomplete m \<or> msnapshot m = [] \<or> JStr (mid m) \<noteq> oget ''manifest'' request
                          \<or> oget ''id'' (msnapshot m) \<noteq> oget ''snapshot'' request then None else Some m) in
      case known of
        None \<Rightarrow>
          if previous \<noteq> [] \<and> oget ''manifest'' previous = oget ''manifest'' request
             \<and> oget ''id'' (jobject (oget ''snapshot'' previous)) = oget ''snapshot'' request
          then (receipt_reply previous, r) else failed ''manifest_required_before_transfer'' r
      | Some m \<Rightarrow>
          if length (applied m) \<noteq> length (members m) then failed ''snapshot_transfers_incomplete'' r
          else if oget ''snapshot'' previous = JObj (msnapshot m) \<and> oget ''manifest'' previous = JStr (mid m)
          then (receipt_reply previous, r)
          else let (ok, r) = rpoll r in
          if \<not> ok then failed ''snapshot_receipt_write_failed'' r
          else let x = receipt Q m r in
          (receipt_reply x, r\<lparr>db := (db r)\<lparr>snapshot_rows := upsert peer x (snapshot_rows (db r))\<rparr>\<rparr>))"

section \<open>Content\<close>

text \<open>The loop that reads a source image in blocks of one MiB.\<close>

function read_blocks :: "env \<Rightarrow> string \<Rightarrow> fstate \<Rightarrow> int \<Rightarrow> replica \<Rightarrow> string option \<times> replica" where
  "read_blocks Q path st offset r =
     (if offset \<ge> fsize st then (Some [], r)
      else let (block, r) = on_files (fs_read Q path offset (min (1024 * 1024) (fsize st - offset)) (fstamp st)) r in
      case block of
        None \<Rightarrow> (None, r)
      | Some b \<Rightarrow> (let (rest, r) = read_blocks Q path st (offset + 1024 * 1024) r in
                   (case rest of None \<Rightarrow> None | Some c \<Rightarrow> Some (b @ c), r)))"
  by pat_completeness auto
termination
  by (relation "measure (\<lambda>(Q, path, st, offset, r). nat (fsize st - offset))") auto

definition serve_preview :: "env \<Rightarrow> jobj \<Rightarrow> replica \<Rightarrow> jobj \<times> replica" where
  "serve_preview Q e r =
     (let path = jstr (oget ''path'' e) in
      if meta ''host'' r \<noteq> [] then failed ''preview_requires_authority'' r
      else let (ok, r) = refresh Q path r in
      if \<not> ok then failed ''preview_requires_authority'' r
      else if oget ''version'' (entry path r) \<noteq> oget ''version'' e then failed ''file_changed_or_invalid_offset'' r
      else let (st, r) = on_files (fs_state Q (physical Q path)) r in
      case st of
        None \<Rightarrow> file_failed r
      | Some st \<Rightarrow>
          (let (source, r) =
             (if fkind st = ''file'' \<and> fsize st \<le> 32 * 1024 * 1024 \<and> suffix_of path \<in> set image_suffixes
              then read_blocks Q (physical Q path) st 0 r else (Some [], r)) in
           case source of
             None \<Rightarrow> file_failed r
           | Some s \<Rightarrow> (obj [(''ok'', JBool True), (''version'', oget ''version'' e),
                            (''data'', JStr (b64 Q (if s = [] then [] else render_preview Q s)))], r)))"

definition chunk_bytes :: int where "chunk_bytes = 256 * 1024"
definition inline_bytes :: int where "inline_bytes = 64 * 1024"

definition serve_read :: "env \<Rightarrow> jobj \<Rightarrow> jobj \<Rightarrow> replica \<Rightarrow> jobj \<times> replica" where
  "serve_read Q e request r =
     (let path = jstr (oget ''path'' e); (ok, r) = refresh Q path r in
      if \<not> ok then failed [] r
      else (case number (oget ''offset'' request) of
              None \<Rightarrow> failed ''file_changed_or_invalid_offset'' r
            | Some offset \<Rightarrow>
                if oget ''version'' (entry path r) \<noteq> oget ''version'' e \<or> oget ''kind'' e \<noteq> JStr ''file''
                then failed ''file_changed_or_invalid_offset'' r
                else let (bytes, r) = on_files (fs_read Q (physical Q path) offset chunk_bytes (entry_stamp path r)) r in
                case bytes of
                  None \<Rightarrow> file_failed r
                | Some b \<Rightarrow> (obj [(''ok'', JBool True), (''offset'', jnumstr offset), (''data'', JStr (b64 Q b)),
                                 (''version'', oget ''version'' e)], r)))"

section \<open>Transfers\<close>

definition no_space :: "env \<Rightarrow> int \<Rightarrow> bool" where
  "no_space Q need \<longleftrightarrow> bytes_available Q \<ge> 0 \<and> bytes_available Q < need + 1024 * 1024"

text \<open>The payload of a small file that travels with its commit; \<open>Inl\<close> is the refusal.\<close>

definition inline_payload :: "env \<Rightarrow> jobj \<Rightarrow> jobj \<Rightarrow> string + string" where
  "inline_payload Q e request =
     (case (unb64 Q (jstr (oget ''inlineData'' request)), number (oget ''size'' e)) of
        (Some bytes, Some len) \<Rightarrow>
          if \<not> is_str (oget ''inlineData'' request) \<or> oget ''kind'' e \<noteq> JStr ''file'' \<or> len > inline_bytes
             \<or> int (length bytes) \<noteq> len \<or> digest Q bytes \<noteq> jstr (oget ''hash'' e)
          then Inl ''invalid_inline_payload''
          else if no_space Q len then Inl ''insufficient_storage'' else Inr bytes
      | _ \<Rightarrow> Inl ''invalid_inline_payload'')"

definition stage_inline :: "env \<Rightarrow> string \<Rightarrow> string \<Rightarrow> fsys \<Rightarrow> bool \<times> fsys" where
  "stage_inline Q part bytes f =
     (let (st, f) = fs_state Q part f in
      case st of
        None \<Rightarrow> (False, f)
      | Some st \<Rightarrow>
          (let (ok, f) = (if fkind st \<noteq> ''deleted'' then remove Q part f else (True, f)) in
           if \<not> ok then (False, f) else fs_append part 0 bytes f))"

definition release_lease :: "env \<Rightarrow> string \<Rightarrow> bool \<Rightarrow> jobj \<Rightarrow> replica \<Rightarrow> replica" where
  "release_lease Q part begins reply r =
     (if jbool (oget ''complete'' reply) \<or> (begins \<and> \<not> jbool (oget ''ok'' reply))
      then r\<lparr>leases := filter (\<lambda>p. p \<noteq> part) (leases r)\<rparr>
      else if \<not> jbool (oget ''ok'' reply) then
        (let (st, r) = on_files (fs_state Q part) r in
         if st = None \<or> fkind (the st) \<noteq> ''file'' then r\<lparr>leases := filter (\<lambda>p. p \<noteq> part) (leases r)\<rparr> else r)
      else r)"

definition mark_applied :: "string \<Rightarrow> string \<Rightarrow> jobj \<Rightarrow> replica \<Rightarrow> replica" where
  "mark_applied peer path reply r =
     (case map_of (manifests r) peer of
        None \<Rightarrow> r
      | Some m \<Rightarrow>
          if msnapshot m \<noteq> [] \<and> jbool (oget ''ok'' reply) \<and> jbool (oget ''complete'' reply)
          then put_manifest peer (m\<lparr>applied := (if path \<in> set (applied m) then applied m else path # applied m)\<rparr>) r
          else r)"

definition serve_merge :: "env \<Rightarrow> string \<Rightarrow> bool \<Rightarrow> jobj \<Rightarrow> jobj \<Rightarrow> string \<Rightarrow> replica \<Rightarrow> jobj \<times> replica" where
  "serve_merge Q peer announced e request action r =
     (let part = transfer Q peer e;
          inlined = (action = ''commit'' \<and> has_key ''inlineData'' request) in
      if action = ''apply'' \<and> oget ''kind'' e = JStr ''file'' then failed ''file_requires_transfer'' r
      else (case (if inlined then inline_payload Q e request else Inr []) of
              Inl why \<Rightarrow> failed why r
            | Inr bytes \<Rightarrow>
                (let (ok, r) = (if oget ''kind'' e = JStr ''file'' then protect_transfer part r else (True, r)) in
                 if \<not> ok then failed [] r
                 else let (ok, r) = (if inlined then on_files (stage_inline Q part bytes) r else (True, r)) in
                 if \<not> ok then file_failed r
                 else let r = r\<lparr>proposal := jstr (oget ''version'' e), proposal_base := jstr (oget ''baseRevision'' e)\<rparr>;
                          (reply, r) = merge Q peer e (action \<noteq> ''begin'' \<or> inlined) r;
                          r = r\<lparr>proposal := [], proposal_base := []\<rparr>;
                          (ok, r) = (if inlined \<and> jbool (oget ''complete'' reply) then on_files (remove Q part) r else (True, r)) in
                 if \<not> ok then file_failed r
                 else let r = release_lease Q part (action = ''begin'') reply r;
                          r = (if announced then mark_applied peer (jstr (oget ''path'' e)) reply r else r) in
                 (reply, r))))"

definition serve_chunk :: "env \<Rightarrow> string \<Rightarrow> jobj \<Rightarrow> jobj \<Rightarrow> replica \<Rightarrow> jobj \<times> replica" where
  "serve_chunk Q peer e request r =
     (case (unb64 Q (jstr (oget ''data'' request)), number (oget ''offset'' request)) of
        (Some bytes, Some offset) \<Rightarrow>
          if oget ''kind'' e \<noteq> JStr ''file'' \<or> \<not> is_str (oget ''data'' request) \<or> int (length bytes) > chunk_bytes
             \<or> offset > jll (oget ''size'' e) - int (length bytes)
          then failed ''invalid_chunk'' r
          else let part = transfer Q peer e; (ok, r) = protect_transfer part r in
          if \<not> ok then failed [] r
          else let (st, r) = on_files (fs_state Q part) r in
          if st = None \<or> fkind (the st) \<noteq> ''file''
          then failed ''begin_transfer_first'' (r\<lparr>leases := filter (\<lambda>p. p \<noteq> part) (leases r)\<rparr>)
          else if no_space Q (int (length bytes)) then failed ''insufficient_storage'' r
          else let (ok, r) = on_files (fs_append part offset bytes) r in
          if \<not> ok then file_failed r
          else (obj [(''ok'', JBool True), (''offset'', jnumstr (offset + int (length bytes)))], r)
      | _ \<Rightarrow> failed ''invalid_chunk'' r)"

section \<open>Dispatch\<close>

text \<open>The checks between the announced manifest and the entry of a request; \<open>Some\<close> is the refusal.\<close>

definition announced :: "string \<Rightarrow> replica \<Rightarrow> manifest option" where
  "announced peer r = map_of (manifests r) peer"

definition transfer_actions :: "string list" where
  "transfer_actions = [''begin'', ''chunk'', ''commit'', ''apply'']"

definition guard_transfer :: "env \<Rightarrow> string \<Rightarrow> string \<Rightarrow> jobj \<Rightarrow> replica \<Rightarrow> string option" where
  "guard_transfer Q peer action request r =
     (let m = announced peer r; e = jobject (oget ''entry'' request); path = jstr (oget ''path'' e);
          used = (if has_key ''manifest'' request then m else None) in
      if action \<in> set transfer_actions \<and> (case m of None \<Rightarrow> False | Some m \<Rightarrow> msnapshot m \<noteq> [])
         \<and> \<not> has_key ''manifest'' request
      then Some ''manifest_required_before_transfer''
      else if has_key ''manifest'' request
              \<and> (case m of None \<Rightarrow> True | Some m \<Rightarrow> \<not> mcomplete m \<or> mid m \<noteq> jstr (oget ''manifest'' request))
      then Some ''manifest_required_before_transfer''
      else if \<not> valid_record Q e then Some ''invalid_entry''
      else if has_key ''snapshot'' request \<and> (case used of None \<Rightarrow> True | Some m \<Rightarrow> msnapshot m = [])
      then Some ''manifest_required_before_transfer''
      else if (case used of None \<Rightarrow> False | Some m \<Rightarrow> msnapshot m \<noteq> []
                \<and> (oget ''id'' (msnapshot m) \<noteq> oget ''snapshot'' request
                   \<or> (case map_of (members m) path of None \<Rightarrow> [] | Some d \<Rightarrow> d) \<noteq> digest Q (json_bytes Q e)))
      then Some ''snapshot_entry_mismatch''
      else None)"

text \<open>The revision pinned by a targeted download.\<close>

definition pinned :: "env \<Rightarrow> jobj \<Rightarrow> jobj \<Rightarrow> replica \<Rightarrow> bool \<times> replica" where
  "pinned Q e request r =
     (if \<not> has_key ''expectedVersion'' request then (True, r)
      else if \<not> is_str (oget ''expectedVersion'' request) then (False, r)
      else let (ok, r) = refresh Q (jstr (oget ''path'' e)) r in
      (ok \<and> oget ''version'' (entry (jstr (oget ''path'' e)) r) = oget ''expectedVersion'' request
          \<and> oget ''version'' e = oget ''expectedVersion'' request, r))"

definition serve_entry :: "env \<Rightarrow> string \<Rightarrow> string \<Rightarrow> jobj \<Rightarrow> replica \<Rightarrow> jobj \<times> replica" where
  "serve_entry Q peer action request r =
     (case guard_transfer Q peer action request r of
        Some why \<Rightarrow> failed why r
      | None \<Rightarrow>
          (let e = jobject (oget ''entry'' request); (ok, r) = pinned Q e request r in
           if \<not> ok then failed ''object_changed_select_again'' r
           else if action = ''preview'' then serve_preview Q e r
           else if action = ''read'' then serve_read Q e request r
           else if action = ''begin'' \<or> action = ''commit'' \<or> action = ''apply''
           then serve_merge Q peer (has_key ''manifest'' request) e request action r
           else if action = ''chunk'' then serve_chunk Q peer e request r
           else failed ''unsupported_sync_action'' r))"

definition describe :: "env \<Rightarrow> replica \<Rightarrow> jobj \<times> replica" where
  "describe Q r =
     (let (ok, r) = ready Q r in
      if \<not> ok then failed [] r
      else if meta ''host'' r \<noteq> [] then failed ''mirror_cannot_be_primary_host'' r
      else (obj [(''ok'', JBool True), (''protocol'', JNum 2), (''namespaceVersion'', JNum 1),
                 (''namespace'', JObj (namespace_state r)), (''manifestVersion'', JNum 1), (''snapshotVersion'', JNum 1),
                 (''transferWindow'', JNum 4), (''inlineBytes'', JNum inline_bytes),
                 (''container'', JStr (container_id r)), (''replica'', JStr (rid r))], r))"

definition serve_journal :: "env \<Rightarrow> jobj \<Rightarrow> replica \<Rightarrow> jobj \<times> replica" where
  "serve_journal Q request r =
     (if meta ''host'' r \<noteq> [] then failed ''mirror_cannot_be_primary_host'' r
      else (case (number (oget ''after'' request), number (oget ''through'' request)) of
              (Some after, Some through) \<Rightarrow> journal_page Q after through r
            | _ \<Rightarrow> failed ''invalid_namespace_cursor'' r))"

definition optional_number :: "string \<Rightarrow> jobj \<Rightarrow> int option" where
  "optional_number k request = (if has_key k request then number (oget k request) else Some 0)"

definition serve_changes :: "env \<Rightarrow> (replica \<Rightarrow> bool \<times> replica) \<Rightarrow> bool \<Rightarrow> jobj \<Rightarrow> replica \<Rightarrow> jobj \<times> replica" where
  "serve_changes Q rescan refresh_index request r =
     (case (optional_number ''after'' request, optional_number ''through'' request) of
        (Some after, Some through) \<Rightarrow>
          (let (ok, r) = (if refresh_index \<and> through = 0 then rescan r else (True, r)) in
           if \<not> ok then failed [] r else changes_page Q after through r)
      | _ \<Rightarrow> failed ''invalid_change_cursor'' r)"

definition handle ::
  "env \<Rightarrow> (jobj \<Rightarrow> replica \<Rightarrow> jobj \<times> replica) \<Rightarrow> (replica \<Rightarrow> bool \<times> replica) \<Rightarrow> string \<Rightarrow> jobj \<Rightarrow> bool \<Rightarrow> replica \<Rightarrow> jobj \<times> replica" where
  "handle Q drive_op rescan peer request refresh_index r =
     (let action = jstr (oget ''action'' request) in
      if peer = [] \<or> length peer > 256 \<or> length (json_bytes Q request) > 400000 then failed ''invalid_peer_or_request'' r
      else if has_key ''container'' request \<and> jstr (oget ''container'' request) \<noteq> container_id r
      then failed ''remote_container_changed'' r
      else if starts_with ''drive.'' action then drive_op request r
      else if action = ''describe'' then describe Q r
      else if action = ''journal'' then serve_journal Q request r
      else if action = ''changes'' then serve_changes Q rescan refresh_index request r
      else if action = ''manifest'' then manifest_page Q peer request r
      else let (ok, r) = lock Q r in
      if \<not> ok then failed [] r
      else if action = ''snapshot.complete'' then complete_snapshot Q peer request r
      else serve_entry Q peer action request r)"

end
