(* ===== verification/Scan.thy ===== *)
theory Scan
  imports Catalog "HOL-Library.Product_Lexorder"
begin

text \<open>
  \<open>Replica::scan\<close> (\<open>src/src/Sync/Replica.cpp\<close>) with the names it skips
  (\<open>src/src/Sync/NativeControlPaths_p.h\<close>): the walk over the sections, the order of the work, the
  batches that are written in one transaction each, and the rows whose path has disappeared.
  \<open>slow n\<close> says that the timer of the batch has run out at the n-th item.
\<close>

section \<open>Names the index skips\<close>

definition index_control_name :: "string \<Rightarrow> bool" where
  "index_control_name name0 =
     (let name = map (\<lambda>c. if CHR ''A'' \<le> c \<and> c \<le> CHR ''Z'' then char_of (of_char c + (32 :: nat)) else c) name0 in
      starts_with ''.society-'' name \<or> starts_with ''.iiwebserver-'' name
      \<or> name = ''.iisacc-temporary.lock'' \<or> ends_with ''.iisacc-preview'' name
      \<or> starts_with ''.iifile-stage-'' name \<or> name = ''.iisacc-file-provider''
      \<or> ends_with ''.iisacc-lock'' name)"

section \<open>The walk\<close>

record work =
  wpath :: string
  wstate :: fstate
  whash :: string

record walked =
  wseen :: "string list"
  wchildren :: "(string \<times> string list) list"
  witems :: "work list"

definition children_of :: "string \<Rightarrow> walked \<Rightarrow> string list" where
  "children_of key ws = (case map_of (wchildren ws) key of None \<Rightarrow> [] | Some ns \<Rightarrow> ns)"

definition add_child :: "string \<Rightarrow> string \<Rightarrow> walked \<Rightarrow> walked" where
  "add_child key name ws = ws\<lparr>wchildren := upsert key (List.insert name (children_of key ws)) (wchildren ws)\<rparr>"

definition add_work :: "string \<Rightarrow> fstate \<Rightarrow> walked \<Rightarrow> walked" where
  "add_work path st ws = ws\<lparr>wseen := List.insert path (wseen ws),
     witems := witems ws @ [\<lparr>wpath = path, wstate = st, whash = []\<rparr>]\<rparr>"

lemma physical_bound: "physical Q key \<noteq> [] \<Longrightarrow> length key \<le> 3500"
  by (auto simp: physical_def Let_def split: if_splits)

text \<open>The walk ends because a key that is visited has at most 3500 characters.\<close>

function (sequential) visit_dir :: "env \<Rightarrow> string \<Rightarrow> string \<Rightarrow> walked \<Rightarrow> replica \<Rightarrow> walked option \<times> replica"
  and visit_names :: "env \<Rightarrow> string \<Rightarrow> string \<Rightarrow> string list \<Rightarrow> walked \<Rightarrow> replica \<Rightarrow> walked option \<times> replica" where
  "visit_dir Q native key ws r =
     (let (ns, r) = on_files (fs_list native) r in
      case ns of
        None \<Rightarrow> (None, snd (file_fail r))
      | Some ns \<Rightarrow> visit_names Q native key ns ws r)"
| "visit_names Q native key [] ws r = (Some ws, r)"
| "visit_names Q native key (n # ns) ws r =
     (if index_control_name n then visit_names Q native key ns ws r
      else let ws = add_child key n ws; path = key @ ''/'' @ n in
      if physical Q path = [] \<or> length (wseen ws) \<ge> 250000
      then (None, snd (rfail ''unsupported_or_unavailable_entry'' r))
      else let (st, r) = on_files (fs_state Q (native @ ''/'' @ n)) r in
      case st of
        None \<Rightarrow> (None, snd (rfail ''unsupported_or_unavailable_entry'' r))
      | Some st \<Rightarrow>
          if fkind st = ''deleted'' then (None, snd (rfail ''directory_changed_during_scan'' r))
          else let ws = add_work path st ws;
                   (res, r) = (if fkind st = ''directory'' then visit_dir Q (native @ ''/'' @ n) path ws r else (Some ws, r)) in
          case res of None \<Rightarrow> (None, r) | Some ws \<Rightarrow> visit_names Q native key ns ws r)"
  by pat_completeness auto
termination
  by (relation "inv_image (less_than <*lex*> less_than <*lex*> less_than)
      (\<lambda>x. case x of Inl (Q, native, key, ws, r) \<Rightarrow> (3501 - length key, 1, 0)
        | Inr (Q, native, key, ns, ws, r) \<Rightarrow> (3501 - length key, 0, length ns))")
    (auto dest: physical_bound)

fun visit_sections :: "env \<Rightarrow> (string \<times> string) list \<Rightarrow> walked \<Rightarrow> replica \<Rightarrow> walked option \<times> replica" where
  "visit_sections Q [] ws r = (Some ws, r)"
| "visit_sections Q ((key, name) # ss) ws r =
     (let (res, r) = visit_dir Q name key ws r in
      case res of None \<Rightarrow> (None, r) | Some ws \<Rightarrow> visit_sections Q ss ws r)"

section \<open>The order of the work\<close>

text \<open>Directories first, shallow before deep, then files by size; the path decides the rest.\<close>

definition work_key :: "work \<Rightarrow> nat \<times> nat \<times> int \<times> string" where
  "work_key w = (if fkind (wstate w) = ''directory''
     then (0, count_list (wpath w) (CHR ''/''), fsize (wstate w), wpath w)
     else (1, 0, fsize (wstate w), wpath w))"

section \<open>Batches\<close>

text \<open>A directory whose stamp moved is unchanged when it still has the children the walk saw.\<close>

definition same_children :: "env \<Rightarrow> walked \<Rightarrow> work \<Rightarrow> fstate \<Rightarrow> replica \<Rightarrow> bool \<times> replica" where
  "same_children Q ws w current r =
     (if fkind current = ''directory'' \<and> fkind (wstate w) = ''directory'' \<and> fstamp current \<noteq> fstamp (wstate w)
      then (let (ns, r) = on_files (fs_list (physical Q (wpath w))) r in
            (ns \<noteq> None \<and> set (filter (\<lambda>n. \<not> index_control_name n) (the ns)) = set (children_of (wpath w) ws), r))
      else (False, r))"

fun flush_items :: "env \<Rightarrow> walked \<Rightarrow> work list \<Rightarrow> replica \<Rightarrow> bool \<times> replica" where
  "flush_items Q ws [] r = (True, r)"
| "flush_items Q ws (w # rest) r =
     (let (st, r) = on_files (fs_state Q (physical Q (wpath w))) r in
      case st of
        None \<Rightarrow> file_fail r
      | Some current \<Rightarrow>
          (let (same, r) = same_children Q ws w current r in
           if fkind current \<noteq> fkind (wstate w) \<or> (fstamp current \<noteq> fstamp (wstate w) \<and> \<not> same)
           then rfail ''file_changed_during_scan'' r
           else let (ok, r) = observed Q (wpath w) current (whash w) r in
           if ok then flush_items Q ws rest r else (False, r)))"

text \<open>A transaction: what \<open>body\<close> did to the database is undone when it or the commit fails.\<close>

definition transaction :: "(replica \<Rightarrow> bool \<times> replica) \<Rightarrow> replica \<Rightarrow> bool \<times> replica" where
  "transaction body r =
     (let (ok, r) = rpoll r in
      if \<not> ok then rfail ''journal_transaction_failed'' r
      else let before = db r; (ok, r) = body r in
      if \<not> ok then (False, r\<lparr>db := before\<rparr>)
      else let (ok, r) = rpoll r in
      if ok then (True, r) else rfail ''sql'' (r\<lparr>db := before\<rparr>))"

definition flush :: "env \<Rightarrow> walked \<Rightarrow> work list \<Rightarrow> replica \<Rightarrow> bool \<times> replica" where
  "flush Q ws pending r =
     (if pending = [] then (True, r)
      else let (ok, r) = lock Q r in
      if \<not> ok then (False, r) else transaction (flush_items Q ws pending) r)"

definition large :: "work \<Rightarrow> bool" where
  "large w \<longleftrightarrow> fsize (wstate w) > 1024 * 1024"

text \<open>What is flushed before a large file is hashed, and the hash of a file.\<close>

definition hash_item :: "env \<Rightarrow> walked \<Rightarrow> work \<Rightarrow> work list \<Rightarrow> replica \<Rightarrow> (work \<times> work list) option \<times> replica" where
  "hash_item Q ws w pending r =
     (if fkind (wstate w) \<noteq> ''file'' then (Some (w, pending), r)
      else let (ok, r) = (if large w then flush Q ws pending r else (True, r));
               pending = (if large w then [] else pending) in
      if \<not> ok then (None, r)
      else let (h, r) = on_files (fs_hash Q (physical Q (wpath w)) (fstamp (wstate w))) r in
      if h = None \<or> the h = [] then (None, snd (file_fail r))
      else (Some (w\<lparr>whash := the h\<rparr>, pending), r))"

fun scan_items :: "env \<Rightarrow> (nat \<Rightarrow> bool) \<Rightarrow> walked \<Rightarrow> work list \<Rightarrow> work list \<Rightarrow> replica \<Rightarrow> bool \<times> replica" where
  "scan_items Q slow ws [] pending r = flush Q ws pending r"
| "scan_items Q slow ws (w # rest) pending r =
     (if rerror r \<noteq> [] then (False, r)
      else if oget ''kind'' (entry (wpath w) r) = JStr (fkind (wstate w)) \<and> entry_stamp (wpath w) r = fstamp (wstate w)
      then scan_items Q slow ws rest pending r
      else let (res, r) = hash_item Q ws w pending r in
      case res of
        None \<Rightarrow> (False, r)
      | Some (w, pending) \<Rightarrow>
          (let pending = pending @ [w] in
           if length pending \<ge> 64 \<or> slow (length rest) \<or> large w
           then (let (ok, r) = flush Q ws pending r in
                 if ok then scan_items Q slow ws rest [] r else (False, r))
           else scan_items Q slow ws rest pending r))"

section \<open>Deletions\<close>

definition absent_paths :: "walked \<Rightarrow> replica \<Rightarrow> string list" where
  "absent_paths ws r = map fst (filter (\<lambda>pw. fst pw \<notin> set (wseen ws) \<and> oget ''kind'' (rdata (snd pw)) \<noteq> JStr ''deleted'')
     (entry_rows (db r)))"

fun delete_absent :: "env \<Rightarrow> string list \<Rightarrow> replica \<Rightarrow> bool \<times> replica" where
  "delete_absent Q [] r = (True, r)"
| "delete_absent Q (p # ps) r =
     (let (st, r) = on_files (fs_state Q (physical Q p)) r in
      case st of
        None \<Rightarrow> file_fail r
      | Some st \<Rightarrow>
          (let (ok, r) = (if fkind st = ''deleted'' then observed Q p st [] r else (True, r)) in
           if ok then delete_absent Q ps r else (False, r)))"

definition scan :: "env \<Rightarrow> (nat \<Rightarrow> bool) \<Rightarrow> replica \<Rightarrow> bool \<times> replica" where
  "scan Q slow r =
     (let (ok, r) = ready Q r in
      if \<not> ok then (False, r)
      else let (ws, r) = visit_sections Q (store_sections Q) \<lparr>wseen = [], wchildren = [], witems = []\<rparr> r in
      case ws of
        None \<Rightarrow> (False, r)
      | Some ws \<Rightarrow>
          (let (ok, r) = scan_items Q slow ws (sort_key work_key (witems ws)) [] r in
           if \<not> ok then (False, r)
           else let absent = absent_paths ws r in
           if absent = [] then (True, r)
           else let (ok, r) = lock Q r in
           if \<not> ok then (False, r) else transaction (delete_absent Q absent) r))"

section \<open>The scan keeps the replica\<close>

lemma extends_restore:
  assumes "extends Q r s"
  shows "extends Q r (s\<lparr>db := db r\<rparr>)"
proof -
  have v: "same_view r (s\<lparr>db := db r\<rparr>)" using assms by (simp add: extends_def same_ids_def same_view_def)
  show ?thesis
    using view_store_ok [OF v, of Q] view_same_ids(1) [OF v, of r] view_meta [OF v] assms
    by (simp add: extends_def meta_ll_def)
qed

lemma extends_transaction:
  assumes "\<And>s. extends Q s (snd (body s))"
  shows "extends Q r (snd (transaction body r))"
proof -
  obtain a r1 where r1: "rpoll r = (a, r1)" by (cases "rpoll r")
  have e1: "extends Q r r1" "same_view r r1" using r1 extends_rpoll [of Q r r] view_steps(1) [of r r] by simp_all
  obtain b r2 where r2: "body r1 = (b, r2)" by (cases "body r1")
  have e2: "extends Q r1 r2" using assms [of r1] r2 by simp
  obtain c r3 where r3: "rpoll r2 = (c, r3)" by (cases "rpoll r2")
  have e3: "extends Q r1 r3" using r3 extends_rpoll [of Q r1 r2] e2 by simp
  have tr: "extends Q r x" if "extends Q r1 x" for x by (rule ext.trans [OF e1(1) that])
  show ?thesis
  proof (cases a)
    case False
    then have "snd (transaction body r) = r1\<lparr>rerror := ''journal_transaction_failed''\<rparr>"
      by (simp add: transaction_def r1)
    then show ?thesis using e1(1) by simp
  next
    case True
    then have "snd (transaction body r) = (if \<not> b then r2\<lparr>db := db r1\<rparr> else if c then r3 else r3\<lparr>db := db r1, rerror := ''sql''\<rparr>)"
      by (simp add: transaction_def Let_def r1 r2 r3)
    then show ?thesis using tr [OF extends_restore [OF e2]] tr [OF extends_restore [OF e3]] tr [OF e3] by simp
  qed
qed

declare visit_dir.simps [simp del] visit_names.simps [simp del]

lemma extends_files [simp]: "grows (files r) (snd (op (files r))) \<Longrightarrow> extends Q r (snd (on_files op r))"
  by (intro extends_on_files) (auto intro: keeps_of_grows)

lemma extends_visit:
  "extends Q r (snd (visit_dir Q native key ws r))" "extends Q r (snd (visit_names Q native key ns ws r))"
proof (induction Q native key ws r and Q native key ns ws r rule: visit_dir_visit_names.induct)
  case (1 Q native key ws r)
  show ?case unfolding visit_dir.simps Let_def
    by (intro ext.call ext.opt) (auto intro: 1)
next
  case (3 Q native key n ns ws r)
  note here = 3(1) and sub = 3(2) [OF _ refl refl _ refl sym _ _ refl]
    and rest = 3(3) [OF _ refl refl _ refl sym _ _ refl refl sym]
  show ?case unfolding visit_names.simps Let_def
    by (intro ext.cond ext.call ext.opt; (rule here sub rest; assumption)?; (auto)?)
qed (simp add: visit_names.simps)


lemma extends_sections: "extends Q r (snd (visit_sections Q ss ws r))"
proof (induction ss arbitrary: ws r)
  case (Cons s ss)
  obtain key name where s: "s = (key, name)" by (cases s)
  show ?case unfolding s visit_sections.simps Let_def
    by (intro ext.call ext.opt) (auto intro: extends_visit Cons)
qed simp

lemma extends_flush_items: "extends Q r (snd (flush_items Q ws items r))"
proof (induction items arbitrary: r)
  case (Cons w rest)
  have same: "extends Q s (snd (same_children Q ws w st s))" for s st
    unfolding same_children_def Let_def by (intro ext.cond ext.call) auto
  show ?case unfolding flush_items.simps Let_def
    by (intro ext.call ext.opt ext.cond) (auto intro: Cons same)
qed simp

lemma extends_flush: "extends Q r (snd (flush Q ws items r))"
  unfolding flush_def Let_def
  by (intro ext.cond ext.call) (auto intro: extends_lock extends_transaction extends_flush_items)

lemma extends_hash_item: "extends Q r (snd (hash_item Q ws w pending r))"
  unfolding hash_item_def Let_def
  by (intro ext.cond ext.call) (auto intro: extends_flush split: if_splits)

lemma extends_scan_items: "extends Q r (snd (scan_items Q slow ws items pending r))"
proof (induction items arbitrary: pending r)
  case (Cons w rest)
  show ?case unfolding scan_items.simps Let_def
    by (intro ext.cond ext.call ext.opt ext.pair; (rule Cons extends_flush extends_hash_item)?; simp?)
qed (simp add: extends_flush)

lemma extends_delete_absent: "extends Q r (snd (delete_absent Q ps r))"
proof (induction ps arbitrary: r)
  case (Cons p ps)
  show ?case unfolding delete_absent.simps Let_def
    by (intro ext.call ext.opt ext.cond; (auto intro: Cons split: if_splits)?)
qed simp

lemma extends_scan: "extends Q r (snd (scan Q slow r))"
  unfolding scan_def Let_def
  by (intro ext.call ext.opt ext.cond;
      (auto intro: extends_ready extends_sections extends_scan_items extends_lock extends_transaction extends_delete_absent)?)


section \<open>A successful scan indexes what it saw\<close>

definition other_rows :: "string \<Rightarrow> replica \<Rightarrow> replica \<Rightarrow> bool" where
  "other_rows p r s \<longleftrightarrow> (\<forall>q. q \<noteq> p \<longrightarrow> map_of (entry_rows (db s)) q = map_of (entry_rows (db r)) q)"

lemma save_stamp:
  assumes "save Q i st r = (True, s)" "store_ok Q r"
  shows "entry_stamp (jstr (oget ''path'' i)) s = st" "other_rows (jstr (oget ''path'' i)) r s"
  using save_row [OF assms] by (auto simp: entry_stamp_def other_rows_def)

lemma set_meta_rows: "set_meta k v r = (b, t) \<Longrightarrow> entry_rows (db t) = entry_rows (db r)"
  using sql_frame [of r] by (auto simp: set_meta_def same_view_def split: prod.splits if_splits)

lemma local_edit_stamp:
  assumes e: "local_edit Q e st r = (True, s)" and ok: "store_ok Q r"
  shows "entry_stamp (jstr (oget ''path'' e)) s = st" "other_rows (jstr (oget ''path'' e)) r s"
proof -
  obtain n b t c where t: "set_meta ''counter'' (num_str n) r = (b, t)" and s: "save Q (oput ''clock'' c e) st t = (True, s)"
    using e by (auto simp: local_edit_def Let_def rfail_def split: if_splits prod.splits)
  from save_stamp [OF s set_counter_store_ok [OF t ok]] set_meta_rows [OF t]
  show "entry_stamp (jstr (oget ''path'' e)) s = st" "other_rows (jstr (oget ''path'' e)) r s"
    by (simp_all add: other_rows_def)
qed

lemma observed_rows:
  assumes o: "observed Q path st v r = (True, s)" and ok: "store_ok Q r"
  shows "other_rows path r s" "fkind st \<noteq> ''deleted'' \<Longrightarrow> entry_stamp path s = fstamp st"
proof -
  define m where "m = (if fkind st \<noteq> ''file'' then (Some [], r) else if v \<noteq> [] then (Some v, r)
                            else on_files (fs_hash Q (physical Q path) (fstamp st)) r)"
  obtain h t where m1: "m = (h, t)" by (cases m)
  have t: "store_ok Q t" "entry_rows (db t) = entry_rows (db r)"
    using m1 ok by (auto simp: m_def on_files_eq split: if_splits)
  let ?e = "observed_entry path st (case h of None \<Rightarrow> [] | Some h \<Rightarrow> h) (entry path r)"
  have p: "jstr (oget ''path'' ?e) = path" "oget ''kind'' ?e = JStr (fkind st)" by (simp_all add: observed_entry_def obj_def)
  have "(s = r \<and> (fkind st = ''deleted'' \<or> entry_stamp path r = fstamp st))
    \<or> (if content_equal ?e (entry path r) then save Q (entry path r) (fstamp st) t else local_edit Q ?e (fstamp st) t) = (True, s)"
    using o m1 by (auto simp: observed_def Let_def m_def [symmetric] file_fail_def rfail_def split: if_splits)
  then consider (same) "s = r" "fkind st = ''deleted'' \<or> entry_stamp path r = fstamp st"
    | (old) "content_equal ?e (entry path r)" "save Q (entry path r) (fstamp st) t = (True, s)"
    | (edit) "local_edit Q ?e (fstamp st) t = (True, s)"
    by (auto split: if_splits)
  then have "other_rows path r s \<and> (fkind st \<noteq> ''deleted'' \<longrightarrow> entry_stamp path s = fstamp st)"
  proof cases
    case same
    then show ?thesis by (auto simp: other_rows_def)
  next
    case old
    then have "entry path r \<noteq> []" using p by (auto simp: content_equal_def)
    then have "jstr (oget ''path'' (entry path r)) = path" by (rule entry_path [OF ok])
    with save_stamp [OF old(2) t(1)] t(2) show ?thesis by (simp add: other_rows_def)
  next
    case edit
    with local_edit_stamp [OF edit t(1)] t(2) p show ?thesis by (simp add: other_rows_def)
  qed
  then show "other_rows path r s" "fkind st \<noteq> ''deleted'' \<Longrightarrow> entry_stamp path s = fstamp st" by blast+
qed


definition rows_outside :: "string set \<Rightarrow> replica \<Rightarrow> replica \<Rightarrow> bool" where
  "rows_outside P r s \<longleftrightarrow> (\<forall>q. q \<notin> P \<longrightarrow> map_of (entry_rows (db s)) q = map_of (entry_rows (db r)) q)"

lemma rows_outside_stamp: "rows_outside P r s \<Longrightarrow> p \<notin> P \<Longrightarrow> entry_stamp p s = entry_stamp p r"
  by (simp add: rows_outside_def entry_stamp_def)

lemma rows_outside_trans: "rows_outside P r s \<Longrightarrow> rows_outside P s t \<Longrightarrow> rows_outside P r t"
  by (simp add: rows_outside_def)

lemma rows_outside_mono: "rows_outside P r s \<Longrightarrow> P \<subseteq> P' \<Longrightarrow> rows_outside P' r s"
  by (auto simp: rows_outside_def)

lemma rows_outside_view: "same_view r s \<Longrightarrow> rows_outside P r s"
  by (simp add: rows_outside_def same_view_def)

definition indexed_file :: "replica \<Rightarrow> work \<Rightarrow> bool" where
  "indexed_file s w \<longleftrightarrow> (fkind (wstate w) = ''file'' \<longrightarrow> entry_stamp (wpath w) s = fstamp (wstate w))"

lemma flush_items_rows:
  assumes "flush_items Q ws items r = (True, s)" "store_ok Q r" "distinct (map wpath items)"
  shows "(\<forall>w\<in>set items. indexed_file s w) \<and> rows_outside (wpath ` set items) r s"
  using assms
proof (induction items arbitrary: r)
  case (Cons w rest)
  obtain st r1 where 1: "on_files (fs_state Q (physical Q (wpath w))) r = (st, r1)" by (cases "on_files (fs_state Q (physical Q (wpath w))) r")
  with Cons.prems(1) obtain current where st: "st = Some current" by (cases st) (auto simp: rfail_True)
  obtain same r2 where 2: "same_children Q ws w current r1 = (same, r2)" by (cases "same_children Q ws w current r1")
  obtain ok r3 where 3: "observed Q (wpath w) current (whash w) r2 = (ok, r3)" by (cases "observed Q (wpath w) current (whash w) r2")
  note step = Cons.prems(1) [simplified, unfolded 1 prod.case st option.case 2 3]
  have k: "fkind current = fkind (wstate w)" "fstamp current = fstamp (wstate w) \<or> same" "ok" "flush_items Q ws rest r3 = (True, s)"
    using step by (auto simp: rfail_True 3 split: if_splits)
  have dir: "fkind current = ''directory''" if same
    using 2 that by (auto simp: same_children_def split: if_splits)
  have v: "same_view r r2"
  proof -
    have "same_view r r1" using 1 view_steps(4) [of r "fs_state Q (physical Q (wpath w))" r] by simp
    moreover have "same_view r1 (snd (same_children Q ws w current r1))"
      unfolding same_children_def Let_def by (intro view.cond view.call) auto
    ultimately show ?thesis using 2 view.trans by auto
  qed
  have ok2: "store_ok Q r2" using view_store_ok [OF v] Cons.prems(2) by simp
  have o: "observed Q (wpath w) current (whash w) r2 = (True, r3)" using 3 k(3) by simp
  have ok3: "store_ok Q r3" using extends_observed [OF ext.refl, of Q r2 "wpath w" current "whash w"] o ok2 by (simp add: extends_def)
  from Cons.IH [OF k(4) ok3] Cons.prems(3)
  have ih: "\<forall>w\<in>set rest. indexed_file s w" "rows_outside (wpath ` set rest) r3 s" by auto
  have "entry_stamp (wpath w) r3 = fstamp (wstate w)" if "fkind (wstate w) = ''file''"
    using observed_rows(2) [OF o ok2] k dir that by auto
  moreover have "wpath w \<notin> wpath ` set rest" using Cons.prems(3) by simp
  ultimately have "indexed_file s w" using rows_outside_stamp [OF ih(2)] by (simp add: indexed_file_def)
  moreover have "rows_outside {wpath w} r r3"
    using observed_rows(1) [OF o ok2] v by (simp add: rows_outside_def other_rows_def same_view_def)
  then have "rows_outside (wpath ` set (w # rest)) r s"
    using ih(2) by (auto simp: rows_outside_def)
  ultimately show ?case using ih(1) by simp
qed (simp add: rows_outside_def)

lemma transaction_True:
  assumes "transaction body r = (True, s)"
  shows "\<exists>r1 r2. same_view r r1 \<and> body r1 = (True, r2) \<and> db s = db r2"
proof -
  obtain a r1 where r1: "rpoll r = (a, r1)" by (cases "rpoll r")
  obtain b r2 where r2: "body r1 = (b, r2)" by (cases "body r1")
  obtain c r3 where r3: "rpoll r2 = (c, r3)" by (cases "rpoll r2")
  have "same_view r r1" "same_view r2 r3" using view_steps(1) [of r r] view_steps(1) [of r2 r2] r1 r3 by simp_all
  moreover have "b" "s = r3" using assms by (auto simp: transaction_def Let_def r1 r2 r3 rfail_True split: if_splits)
  ultimately show ?thesis using r2 by (auto simp: same_view_def)
qed

lemma flush_rows:
  assumes "flush Q ws items r = (True, s)" "store_ok Q r" "distinct (map wpath items)"
  shows "\<forall>w\<in>set items. indexed_file s w" "rows_outside (wpath ` set items) r s" "store_ok Q s"
proof -
  show "store_ok Q s" using extends_flush [of Q r ws items] assms by (simp add: extends_def)
  have "(\<forall>w\<in>set items. indexed_file s w) \<and> rows_outside (wpath ` set items) r s"
  proof (cases "items = []")
    case True
    then show ?thesis using assms(1) by (simp add: flush_def rows_outside_def)
  next
    case False
    obtain a r0 where l: "lock Q r = (a, r0)" by (cases "lock Q r")
    then have v: "same_view r r0" using view_lock [of r Q] by simp
    from False assms(1) l have "transaction (flush_items Q ws items) r0 = (True, s)"
      by (auto simp: flush_def split: if_splits)
    from transaction_True [OF this] obtain r1 r2 where
      t: "same_view r0 r1" "flush_items Q ws items r1 = (True, r2)" "db s = db r2" by blast
    have v1: "same_view r r1" by (rule view.trans [OF v t(1)])
    with flush_items_rows [OF t(2) _ assms(3)] view_store_ok [OF v1, of Q] assms(2) t(3)
    show ?thesis by (auto simp: indexed_file_def rows_outside_def entry_stamp_def same_view_def)
  qed
  then show "\<forall>w\<in>set items. indexed_file s w" "rows_outside (wpath ` set items) r s" by blast+
qed


lemma indexed_keep: "indexed_file r v \<Longrightarrow> rows_outside P r s \<Longrightarrow> wpath v \<notin> P \<Longrightarrow> indexed_file s v"
  by (simp add: indexed_file_def rows_outside_stamp)

lemma hash_item_rows:
  assumes "hash_item Q ws w pending r = (Some (w', p'), r1)" "store_ok Q r" "distinct (map wpath pending)"
  shows "wpath w' = wpath w" "wstate w' = wstate w" "store_ok Q r1" "set p' \<subseteq> set pending" "distinct (map wpath p')"
    "\<forall>v\<in>set pending - set p'. indexed_file r1 v" "rows_outside (wpath ` (set pending - set p')) r r1"
proof -
  show "store_ok Q r1" using extends_hash_item [of Q r ws w pending] assms(1,2) by (simp add: extends_def)
  show "wpath w' = wpath w" "wstate w' = wstate w"
    using assms(1) by (auto simp: hash_item_def Let_def split: if_splits prod.splits)
  have "p' = pending \<and> db r1 = db r \<or> p' = [] \<and> (\<exists>r0. flush Q ws pending r = (True, r0) \<and> db r1 = db r0)"
    using assms(1) by (auto simp: hash_item_def Let_def on_files_eq split: if_splits prod.splits)
  with flush_rows(1,2) [OF _ assms(2,3)]
  have "p' = pending \<and> db r1 = db r \<or> p' = [] \<and> (\<forall>v\<in>set pending. indexed_file r1 v) \<and> rows_outside (wpath ` set pending) r r1"
    by (auto simp: rows_outside_def indexed_file_def entry_stamp_def)
  then show "set p' \<subseteq> set pending" "distinct (map wpath p')" "\<forall>v\<in>set pending - set p'. indexed_file r1 v"
    "rows_outside (wpath ` (set pending - set p')) r r1"
    using assms(3) by (auto simp: rows_outside_def)
qed

lemma scan_items_rows:
  assumes "scan_items Q slow ws items pending r = (True, s)" "store_ok Q r" "distinct (map wpath (pending @ items))"
  shows "(\<forall>w\<in>set (pending @ items). indexed_file s w) \<and> rows_outside (wpath ` set (pending @ items)) r s \<and> store_ok Q s"
  using assms
proof (induction items arbitrary: pending r)
  case Nil
  then show ?case using flush_rows [of Q ws pending r s] by simp
next
  case (Cons w rest)
  have d: "distinct (map wpath pending)" "distinct (map wpath rest)" "wpath w \<notin> wpath ` set pending" "wpath w \<notin> wpath ` set rest"
    "\<forall>a\<in>set pending. \<forall>b\<in>set rest. wpath a \<noteq> wpath b" using Cons.prems(3) by auto
  show ?case
  proof (cases "oget ''kind'' (entry (wpath w) r) = JStr (fkind (wstate w)) \<and> entry_stamp (wpath w) r = fstamp (wstate w)")
    case True
    then have "scan_items Q slow ws rest pending r = (True, s)" using Cons.prems(1) by (simp split: if_splits)
    from Cons.IH [OF this Cons.prems(2)] d
    have ih: "\<forall>w\<in>set (pending @ rest). indexed_file s w" "rows_outside (wpath ` set (pending @ rest)) r s" "store_ok Q s" by auto
    then have "indexed_file s w"
      using True rows_outside_stamp [OF ih(2), of "wpath w"] d by (auto simp: indexed_file_def)
    with ih show ?thesis by (auto intro: rows_outside_mono)
  next
    case False
    obtain res r1 where h: "hash_item Q ws w pending r = (res, r1)" by (cases "hash_item Q ws w pending r")
    from Cons.prems(1) False h obtain w' p' where res: "res = Some (w', p')"
      by (cases res) (auto split: if_splits)
    from Cons.prems(1) False h res
    have next_step: "(if 63 \<le> length p' \<or> slow (length rest) \<or> large w'
        then let (ok, r) = flush Q ws (p' @ [w']) r1 in if ok then scan_items Q slow ws rest [] r else (False, r)
        else scan_items Q slow ws rest (p' @ [w']) r1) = (True, s)" by (auto simp: Let_def split: if_splits)
    note h1 = hash_item_rows [OF h [unfolded res] Cons.prems(2) d(1)]
    have "\<exists>r2 P B. rows_outside (wpath ` P) r1 r2 \<and> (\<forall>v\<in>P. indexed_file r2 v) \<and> P \<union> set B = set (p' @ [w']) \<and> P \<inter> set B = {}
      \<and> distinct (map wpath (B @ rest)) \<and> store_ok Q r2 \<and> scan_items Q slow ws rest B r2 = (True, s)"
    proof (cases "63 \<le> length p' \<or> slow (length rest) \<or> large w'")
      case True
      with next_step obtain r2 where f: "flush Q ws (p' @ [w']) r1 = (True, r2)" "scan_items Q slow ws rest [] r2 = (True, s)"
        by (auto split: prod.splits if_splits)
      have dd: "distinct (map wpath (p' @ [w']))" using h1(1,4,5) d(3) by auto
      show ?thesis
        using flush_rows [OF f(1) h1(3) dd] f(2) d(2) by (intro exI [of _ r2] exI [of _ "set (p' @ [w'])"] exI [of _ "[]"]) simp
    next
      case False
      have "distinct (map wpath ((p' @ [w']) @ rest))" using h1(1,4,5) d by fastforce
      then show ?thesis
        using next_step False h1(3) by (intro exI [of _ r1] exI [of _ "{}"] exI [of _ "p' @ [w']"]) (simp add: rows_outside_def)
    qed
    then obtain r2 P B where b: "rows_outside (wpath ` P) r1 r2" "\<forall>v\<in>P. indexed_file r2 v" "P \<union> set B = set (p' @ [w'])"
      "P \<inter> set B = {}" "distinct (map wpath (B @ rest))" "store_ok Q r2" "scan_items Q slow ws rest B r2 = (True, s)" by blast
    from Cons.IH [OF b(7,6,5)]
    have ih: "\<forall>v\<in>set (B @ rest). indexed_file s v" "rows_outside (wpath ` set (B @ rest)) r2 s" "store_ok Q s" by auto
    have dd: "distinct (map wpath (p' @ [w']))" using h1(1,4,5) d(3) by auto
    have inj: "inj_on wpath (set (pending @ [w']))" using d(1,3) h1(1) by (auto simp: distinct_map)
    have apart: "wpath v \<notin> wpath ` T" if "v \<in> set (pending @ [w'])" "T \<subseteq> set (pending @ [w'])" "v \<notin> T" for v T
      using inj_onD [OF inj] that by blast
    have far: "wpath v \<notin> wpath ` set rest" if "v \<in> set (pending @ [w'])" for v
      using that d(4,5) h1(1) by (fastforce simp: image_iff)
    have sub: "set p' \<subseteq> set pending" "set B \<subseteq> set (pending @ [w'])" "P \<subseteq> set (pending @ [w'])"
      using h1(4) b(3) by auto
    have "w' \<notin> set pending" using d(3) h1(1) by (metis image_eqI)
    then have fresh: "v \<notin> set (p' @ [w'])" if "v \<in> set pending - set p'" for v using that by auto
    have all: "indexed_file s v" if v: "v \<in> set pending \<union> {w'} \<union> set rest" for v
    proof -
      consider "v \<in> set (B @ rest)" | "v \<in> P" | "v \<in> set pending - set p'" using v b(3) by auto
      then show ?thesis
      proof cases
        case 2
        then have n: "v \<notin> set B" "v \<in> set (pending @ [w'])" using sub(3) b(4) by auto
        have "wpath v \<notin> wpath ` set (B @ rest)" using apart [OF n(2) sub(2) n(1)] far [OF n(2)] by auto
        then show ?thesis using indexed_keep ih(2) b(2) 2 by blast
      next
        case 3
        then have n: "v \<notin> P" "v \<notin> set B" "v \<in> set (pending @ [w'])" using fresh [OF 3] b(3) by auto
        have "indexed_file r2 v" using indexed_keep [OF _ b(1)] apart [OF n(3) sub(3) n(1)] h1(6) 3 by blast
        moreover have "wpath v \<notin> wpath ` set (B @ rest)" using apart [OF n(3) sub(2) n(2)] far [OF n(3)] by auto
        ultimately show ?thesis using indexed_keep ih(2) by blast
      qed (use ih(1) in blast)
    qed
    moreover have "indexed_file s w" using all [of w'] h1(1,2) by (simp add: indexed_file_def)
    moreover have "rows_outside (wpath ` set (pending @ w # rest)) r s"
    proof -
      have "wpath ` (set pending - set p') \<subseteq> wpath ` set (pending @ w # rest)" "wpath ` P \<subseteq> wpath ` set (pending @ w # rest)"
        "wpath ` set (B @ rest) \<subseteq> wpath ` set (pending @ w # rest)" using sub h1(1) by auto
      then show ?thesis using rows_outside_mono h1(7) b(1) ih(2) rows_outside_trans by meson
    qed
    ultimately show ?thesis using all ih(3) by auto
  qed
qed


text \<open>What the walk hands over: every item is seen and present.\<close>

definition walk_ok :: "walked \<Rightarrow> bool" where
  "walk_ok ws \<longleftrightarrow> list_all (\<lambda>w. wpath w \<in> set (wseen ws) \<and> fkind (wstate w) \<noteq> ''deleted'') (witems ws)"

lemma walk_ok_add: "walk_ok ws \<Longrightarrow> fkind st \<noteq> ''deleted'' \<Longrightarrow> walk_ok (add_work p st (add_child k n ws))"
  by (auto simp: walk_ok_def add_work_def add_child_def list_all_iff)

lemma visit_ok:
  "walk_ok ws \<Longrightarrow> fst (visit_dir Q native key ws r) = Some ws' \<Longrightarrow> walk_ok ws'"
  "walk_ok ws \<Longrightarrow> fst (visit_names Q native key ns ws r) = Some ws' \<Longrightarrow> walk_ok ws'"
proof (induction Q native key ws r and Q native key ns ws r arbitrary: ws' and ws' rule: visit_dir_visit_names.induct)
  case (1 Q native key ws r)
  from 1(3) obtain ns r1 where "on_files (fs_list native) r = (Some ns, r1)"
      "fst (visit_names Q native key ns ws r1) = Some ws'"
    by (auto simp: visit_dir.simps split: prod.splits option.splits)
  with 1(1) [OF refl sym _ 1(2)] show ?case by auto
next
  case (3 Q native key n ns ws r)
  note sub = 3(2) [OF _ refl refl _ refl sym _ _ refl] and rest = 3(3) [OF _ refl refl _ refl sym _ _ refl refl sym]
  show ?case
  proof (cases "index_control_name n")
    case True
    with 3(1) [OF True 3(4)] 3(5) show ?thesis by (simp add: visit_names.simps)
  next
    case False
    let ?path = "key @ ''/'' @ n" let ?ws = "add_child key n ws"
    obtain st r1 where 1: "on_files (fs_state Q (native @ ''/'' @ n)) r = (st, r1)" by (cases "on_files (fs_state Q (native @ ''/'' @ n)) r")
    with 3(5) False obtain st0 where st: "st = Some st0" "fkind st0 \<noteq> ''deleted''"
      "\<not> (physical Q ?path = [] \<or> 250000 \<le> length (wseen ?ws))"
      by (auto simp: visit_names.simps Let_def split: option.splits if_splits)
    let ?m = "if fkind st0 = ''directory'' then visit_dir Q (native @ ''/'' @ n) ?path (add_work ?path st0 ?ws) r1
              else (Some (add_work ?path st0 ?ws), r1)"
    obtain res r2 where m: "?m = (res, r2)" by (cases ?m)
    have "visit_names Q native key (n # ns) ws r
        = (let (res, r) = ?m in case res of None \<Rightarrow> (None, r) | Some ws \<Rightarrow> visit_names Q native key ns ws r)"
      using False st by (simp add: visit_names.simps Let_def 1 [simplified])
    also have "\<dots> = (case res of None \<Rightarrow> (None, r2) | Some ws \<Rightarrow> visit_names Q native key ns ws r2)"
      unfolding m by simp
    finally obtain ws2 where res: "res = Some ws2" "fst (visit_names Q native key ns ws2 r2) = Some ws'"
      using 3(5) by (cases res) auto
    have "walk_ok (add_work ?path st0 ?ws)" by (rule walk_ok_add [OF 3(4) st(2)])
    with sub [OF False st(3) 1 st(1,2) _ _] m res(1) have "walk_ok ws2" by (auto split: if_splits)
    with rest [OF False st(3) 1 st(1,2) m res(1) _ res(2)] show ?thesis by blast
  qed
qed (simp add: visit_names.simps)


lemma sections_walk_ok: "walk_ok ws \<Longrightarrow> visit_sections Q ss ws r = (Some ws', r') \<Longrightarrow> walk_ok ws'"
proof (induction ss arbitrary: ws r)
  case (Cons s ss)
  obtain key name where s: "s = (key, name)" by (cases s)
  obtain res r1 where v: "visit_dir Q name key ws r = (res, r1)" by (cases "visit_dir Q name key ws r")
  with Cons.prems(2) s obtain ws1 where "res = Some ws1" "visit_sections Q ss ws1 r1 = (Some ws', r')"
    by (auto split: option.splits)
  with Cons.IH Cons.prems(1) visit_ok(1) [of ws Q name key r ws1] v show ?case by auto
qed simp

lemma delete_absent_rows:
  assumes "delete_absent Q ps r = (True, s)" "store_ok Q r"
  shows "rows_outside (set ps) r s"
  using assms
proof (induction ps arbitrary: r)
  case (Cons p ps)
  obtain st r1 where 1: "on_files (fs_state Q (physical Q p)) r = (st, r1)" by (cases "on_files (fs_state Q (physical Q p)) r")
  have v: "same_view r r1" using 1 view_steps(4) [of r "fs_state Q (physical Q p)" r] by simp
  have ok1: "store_ok Q r1" using view_store_ok [OF v] Cons.prems(2) by simp
  from Cons.prems(1) 1 obtain st0 r2 where st: "delete_absent Q ps r2 = (True, s)"
    "r2 = r1 \<or> observed Q p st0 [] r1 = (True, r2)"
    by (auto simp: rfail_True split: option.splits if_splits prod.splits)
  have "rows_outside {p} r1 r2 \<and> store_ok Q r2"
    using st(2) ok1 observed_rows(1) [of Q p st0 "[]" r1 r2] extends_observed [OF ext.refl, of Q r1 p st0 "[]"]
    by (auto simp: rows_outside_def other_rows_def extends_def)
  with Cons.IH [OF st(1)] v show ?case by (simp add: rows_outside_def same_view_def)
qed (simp add: rows_outside_def)

text \<open>C16: a successful scan indexes what it saw. Every file the walk over the sections has found is
  afterwards in the index with the stamp it had then, however the work was split into batches and
  transactions and whatever was skipped as unchanged; the index invariant holds, revisions are only
  appended, and no file is touched.\<close>

theorem scan_indexes:
  assumes "scan Q slow r = (True, s)" "store_ok Q r" "ino_bound (files r)" "ready Q r = (True, r0)"
    "visit_sections Q (store_sections Q) \<lparr>wseen = [], wchildren = [], witems = []\<rparr> r0 = (Some ws, r1)"
    "distinct (map wpath (witems ws))"
  shows "(\<forall>w\<in>set (witems ws). fkind (wstate w) = ''file'' \<longrightarrow> entry_stamp (wpath w) s = fstamp (wstate w))
    \<and> store_ok Q s \<and> (\<exists>ds. rev_rows (db s) = rev_rows (db r) @ ds)
    \<and> (\<forall>p i. safe_path p \<and> file_at (files r) p i \<and> content (files r) i \<noteq> [] \<longrightarrow>
         (\<exists>q. safe_path q \<and> file_at (files s) q i) \<and> content (files s) i = content (files r) i)"
proof -
  have e: "extends Q r s" using extends_scan [of Q r slow] assms(1) by simp
  then have "\<forall>p i. safe_path p \<and> file_at (files r) p i \<and> content (files r) i \<noteq> [] \<longrightarrow>
         (\<exists>q. safe_path q \<and> file_at (files s) q i) \<and> content (files s) i = content (files r) i"
    using assms(3) unfolding extends_def keeps_def held_def by blast
  moreover have "\<forall>w\<in>set (witems ws). indexed_file s w"
  proof -
    let ?items = "sort_key work_key (witems ws)"
    have "extends Q r r1" using extends_ready [of Q r] extends_sections [of Q r0] assms(4,5)
      by (metis ext.trans snd_conv)
    then have ok1: "store_ok Q r1" using assms(2) by (simp add: extends_def)
    obtain b r2 where i: "scan_items Q slow ws ?items [] r1 = (b, r2)" by (cases "scan_items Q slow ws ?items [] r1")
    with assms(1,4,5) have b: "b" by (auto simp: scan_def split: if_splits)
    have "distinct (map wpath ?items)"
      using assms(6) by (metis distinct_map distinct_sort set_sort)
    with scan_items_rows [of Q slow ws ?items "[]" r1 r2] i b ok1
    have r2: "\<forall>w\<in>set (witems ws). indexed_file r2 w" "store_ok Q r2" by auto
    let ?absent = "absent_paths ws r2"
    show ?thesis
    proof (cases "?absent = []")
      case True
      then have "s = r2" using assms(1,4,5) i b by (simp add: scan_def Let_def)
      with r2 show ?thesis by simp
    next
      case False
      obtain c r3 where l: "lock Q r2 = (c, r3)" by (cases "lock Q r2")
      have v: "same_view r2 r3" using view_lock [of r2 Q] l by simp
      from False assms(1,4,5) i b l have "transaction (delete_absent Q ?absent) r3 = (True, s)"
        by (auto simp: scan_def Let_def split: if_splits)
      from transaction_True [OF this] obtain r4 r5 where
        t: "same_view r3 r4" "delete_absent Q ?absent r4 = (True, r5)" "db s = db r5" by blast
      have v4: "same_view r2 r4" by (rule view.trans [OF v t(1)])
      have o: "rows_outside (set ?absent) r2 s"
        using delete_absent_rows [OF t(2)] view_store_ok [OF v4, of Q] r2(2) t(3) v4
        by (simp add: rows_outside_def same_view_def)
      have "walk_ok ws" by (rule sections_walk_ok [OF _ assms(5)]) (simp add: walk_ok_def)
      then have "wpath w \<notin> set ?absent" if "w \<in> set (witems ws)" for w
        using that by (auto simp: walk_ok_def list_all_iff absent_paths_def)
      with r2(1) indexed_keep [OF _ o] show ?thesis by blast
    qed
  qed
  ultimately show ?thesis using e assms(2) by (auto simp: extends_def indexed_file_def)
qed


lemma sample_visit:
  "visit_dir sample_env ''Notes'' ''notes'' \<lparr>wseen = [], wchildren = [], witems = []\<rparr> sample_held
   = (Some \<lparr>wseen = [''notes/a''], wchildren = [(''notes'', [''a''])], witems = [\<lparr>wpath = ''notes/a'',
        wstate = \<lparr>fkind = ''file'', fstamp = node_stamp sample_env sample_files (File 5), fsize = 3\<rparr>, whash = []\<rparr>]\<rparr>, sample_held)"
proof -
  have "\<not> index_control_name ''a''" by (simp add: index_control_name_def starts_with_def ends_with_def)
  moreover have "physical sample_env ''notes/a'' \<noteq> []"
    by (simp add: physical_def section_first_def section_rest_def reserved_part_def utf8_size_def starts_with_def)
  ultimately show ?thesis
    by (simp add: visit_dir.simps visit_names.simps sample_on_files [of "fs_list ''Notes''", OF sample_list(2)] sample_on_files [of "fs_state sample_env ''Notes/a''", OF sample_fs_state] add_child_def add_work_def children_of_def Let_def)
qed

lemma sample_walk:
  "visit_sections sample_env (store_sections sample_env) \<lparr>wseen = [], wchildren = [], witems = []\<rparr> sample_held
   = (Some \<lparr>wseen = [''notes/a''], wchildren = [(''notes'', [''a''])], witems = [\<lparr>wpath = ''notes/a'',
        wstate = \<lparr>fkind = ''file'', fstamp = node_stamp sample_env sample_files (File 5), fsize = 3\<rparr>, whash = []\<rparr>]\<rparr>, sample_held)"
  by (simp add: sample_visit)

theorem scan_indexes_witness:
  "fst (scan sample_env (\<lambda>n. False) sample_held)
   \<and> entry_stamp ''notes/a'' (snd (scan sample_env (\<lambda>n. False) sample_held)) = node_stamp sample_env sample_files (File 5)"
proof -
  have r: "ready sample_env sample_held = (True, sample_held)"
    by (rule ready_open) (simp_all add: sample_held_def sample_replica_def zeros_def)
  have d: "entry_stamp ''notes/a'' sample_held = node_stamp sample_env sample_files (File 5)"
    "entry_rows (db sample_held) = [(''notes/a'', \<lparr>rdata = sample_entry, rstamp = node_stamp sample_env sample_files (File 5), rseq = 1\<rparr>)]"
    by (simp_all add: entry_stamp_def sample_held_def)
  have s: "scan sample_env (\<lambda>n. False) sample_held = (True, sample_held)"
    by (simp add: scan_def r sample_visit Let_def sample_held_files sample_held_entry sample_entry_get d flush_def absent_paths_def)
  have "store_ok sample_env sample_held" "ino_bound (files sample_held)"
    by (simp_all add: sample_held_ok sample_held_files sample_ino_bound)
  from scan_indexes [OF s this r sample_walk] s show ?thesis by simp
qed

end
