(* ===== verification/Binding.thy ===== *)
theory Binding
  imports Scan
begin

text \<open>
  How a container becomes a mirror of a host or claims to be the primary host, and how a replica
  is opened (\<open>src/src/Sync/Replica.cpp\<close>). Adoption is a committed plan: the old contents are set
  aside by renames that a later run resumes after a crash. The identity of the container is kept
  by the package that owns it, \<open>adopt_identity\<close> and \<open>complete_replica\<close> of the environment.
\<close>

section \<open>The binding file\<close>

definition binding :: "replica \<Rightarrow> jobj" where
  "binding r = (if meta ''host'' r = [] then []
     else obj [(''schema'', JNum 1), (''host'', JStr (meta ''host'' r)), (''replica'', JStr (meta ''hostReplica'' r)),
       (''container'', JStr (meta ''target'' r)), (''scope'', JStr (meta ''scope'' r)),
       (''complete'', JBool (meta ''bootstrapComplete'' r = ''1'')), (''recovery'', JStr (meta ''detached'' r))])"

definition mirror_file :: string where
  "mirror_file = ''.society-sync/mirror.json''"

definition write_binding :: "env \<Rightarrow> replica \<Rightarrow> bool \<times> replica" where
  "write_binding Q r =
     (if binding r = [] then (True, r)
      else let (st, r) = on_files (fs_state Q mirror_file) r in
      case st of
        None \<Rightarrow> file_fail r
      | Some st \<Rightarrow>
          (let bytes = json_bytes Q (binding r); n = int (length bytes);
               (old, r) = (if fkind st = ''file'' \<and> fsize st = n
                           then on_files (fs_read Q mirror_file 0 n (fstamp st)) r else (Some [], r)) in
           case old of
             None \<Rightarrow> file_fail r
           | Some old \<Rightarrow>
               if fkind st = ''file'' \<and> fsize st = n \<and> old = bytes then (True, r)
               else let (ok, r) = on_files (save_file mirror_file bytes) r in
               if ok then (True, r) else rfail ''mirror_binding_write_failed'' r))"

section \<open>Transactions\<close>

text \<open>A chain of statements joined by \<open>&&\<close>, and a transaction with one error for all its failures.\<close>

fun all_of :: "(replica \<Rightarrow> bool \<times> replica) list \<Rightarrow> replica \<Rightarrow> bool \<times> replica" where
  "all_of [] r = (True, r)"
| "all_of (op # ops) r = (let (ok, r) = op r in if ok then all_of ops r else (False, r))"

definition sql_write :: "(database \<Rightarrow> database) \<Rightarrow> replica \<Rightarrow> bool \<times> replica" where
  "sql_write upd r = (let (ok, r) = sql r in if ok then (True, r\<lparr>db := upd (db r)\<rparr>) else (False, r))"

definition clear_journal :: "replica \<Rightarrow> bool \<times> replica" where
  "clear_journal r = (let (ok, why, r) = on_journal clear_ledger r in (ok, r))"

definition set_new_replica :: "env \<Rightarrow> replica \<Rightarrow> bool \<times> replica" where
  "set_new_replica Q r = (let (i, r) = create_uuid Q r in set_meta ''replica'' i r)"

definition transact :: "string \<Rightarrow> (replica \<Rightarrow> bool \<times> replica) \<Rightarrow> replica \<Rightarrow> bool \<times> replica" where
  "transact why body r =
     (let (ok, r) = rpoll r in
      if \<not> ok then rfail ''journal_transaction_failed'' r
      else let before = db r; (ok, r) = body r; (ok, r) = (if ok then rpoll r else (False, r)) in
      if ok then (True, r) else rfail why (r\<lparr>db := before\<rparr>))"

section \<open>Adoption\<close>

fun detach_plan :: "(string \<times> string) list \<Rightarrow> replica \<Rightarrow> bool \<times> replica" where
  "detach_plan [] r = (True, r)"
| "detach_plan ((path, target) # ps) r =
     (let (ok, r) = on_files (detach path target) r in
      if ok then detach_plan ps r else file_fail r)"

definition adopted_container :: "replica \<Rightarrow> bool \<times> replica" where
  "adopted_container r = set_meta ''container'' (container_id r) r"

definition reset_store :: "env \<Rightarrow> replica \<Rightarrow> bool \<times> replica" where
  "reset_store Q = all_of
     [sql_write (\<lambda>d. d\<lparr>entry_rows := []\<rparr>), sql_write (\<lambda>d. d\<lparr>peer_rows := []\<rparr>), sql_write (\<lambda>d. d\<lparr>plan_rows := []\<rparr>),
      sql_write (\<lambda>d. d\<lparr>snapshot_rows := []\<rparr>), clear_journal, adopted_container,
      set_meta ''sequence'' ''0'', set_meta ''counter'' ''0'', set_new_replica Q, set_meta ''adoption'' ''pulling'']"

definition resume_adoption :: "env \<Rightarrow> replica \<Rightarrow> bool \<times> replica" where
  "resume_adoption Q r =
     (if meta ''adoption'' r \<noteq> ''detaching'' then write_binding Q r
      else let (ok, r) = write_binding Q r in
      if \<not> ok then (False, r)
      else (case adopt_identity Q (meta ''container'' r) (meta ''target'' r) of
              None \<Rightarrow> rfail ''adoption'' r
            | Some i \<Rightarrow>
                (let r = r\<lparr>drive := Some i\<rparr>; (ok, r) = detach_plan (sort_key fst (plan_rows (db r))) r in
                 if \<not> ok then (False, r)
                 else let (ok, r) = transact ''adoption_commit_failed'' (reset_store Q) r in
                 if \<not> ok then (False, r)
                 else write_binding Q (r\<lparr>rid := meta ''replica'' r\<rparr>))))"

section \<open>Binding to a host\<close>

fun plan_names :: "string \<Rightarrow> string \<Rightarrow> string list \<Rightarrow> nat \<Rightarrow> replica \<Rightarrow> nat option \<times> replica" where
  "plan_names recovery native [] n r = (Some n, r)"
| "plan_names recovery native (name # ns) n r =
     (if Suc n > 250000 then (None, r)
      else let path = native @ ''/'' @ name;
               (ok, r) = sql_write (\<lambda>d. d\<lparr>plan_rows := plan_rows d @ [(path, recovery @ ''/'' @ path)]\<rparr>) r in
      if ok then plan_names recovery native ns (Suc n) r else (None, r))"

fun plan_sections :: "string \<Rightarrow> (string \<times> string) list \<Rightarrow> nat \<Rightarrow> replica \<Rightarrow> bool \<times> replica" where
  "plan_sections recovery [] n r = (True, r)"
| "plan_sections recovery ((key, native) # ss) n r =
     (let (ns, r) = on_files (fs_list native) r in
      case ns of
        None \<Rightarrow> (False, r)
      | Some ns \<Rightarrow>
          (let (res, r) = plan_names recovery native ns n r in
           case res of None \<Rightarrow> (False, r) | Some n \<Rightarrow> plan_sections recovery ss n r))"

definition plan_binding :: "env \<Rightarrow> string \<Rightarrow> string \<Rightarrow> string \<Rightarrow> string \<Rightarrow> bool \<Rightarrow> replica \<Rightarrow> bool \<times> replica" where
  "plan_binding Q peer rep con recovery keep_files = all_of
     [sql_write (\<lambda>d. d\<lparr>plan_rows := []\<rparr>),
      (\<lambda>r. if keep_files then (True, r) else plan_sections recovery (store_sections Q) 0 r),
      set_meta ''host'' peer, set_meta ''hostReplica'' rep, set_meta ''target'' con,
      set_meta ''detached'' recovery, set_meta ''bootstrapComplete'' ''0'', set_meta ''adoption'' ''detaching'']"

definition forget_peer :: "string \<Rightarrow> replica \<Rightarrow> bool \<times> replica" where
  "forget_peer peer = sql_write (\<lambda>d. d\<lparr>peer_rows := filter (\<lambda>(p, x). p \<noteq> peer) (peer_rows d)\<rparr>)"

text \<open>The claim of a container to be the primary host, a file beside the journal.\<close>

definition primary_file :: string where
  "primary_file = ''.society-sync/primary.json''"

definition plain_file :: "string \<Rightarrow> fsys \<Rightarrow> string option" where
  "plain_file path f = (case map_of (names f) (comps path) of
     Some (File i) \<Rightarrow> if length (content f i) > 8192 \<or> map_of (names f) (butlast (comps path)) = Some Special then None
                      else Some (content f i)
   | _ \<Rightarrow> None)"

definition primary_host :: "env \<Rightarrow> string option \<Rightarrow> string \<Rightarrow> fsys \<Rightarrow> string" where
  "primary_host Q ident scp f =
     (if ident = None \<or> \<not> hex scp then []
      else (case plain_file primary_file f of
              None \<Rightarrow> []
            | Some bytes \<Rightarrow>
                (let v = parse_obj Q bytes in
                 if oget ''schema'' v \<noteq> JNum 1 \<or> oget ''scope'' v \<noteq> JStr scp \<or> oget ''container'' v \<noteq> JStr (the ident)
                    \<or> length (jstr (oget ''host'' v)) > 128
                 then [] else jstr (oget ''host'' v))))"

definition stored_binding :: "env \<Rightarrow> string option \<Rightarrow> fsys \<Rightarrow> jobj" where
  "stored_binding Q ident f =
     (if ident = None then []
      else (case plain_file mirror_file f of
              None \<Rightarrow> []
            | Some bytes \<Rightarrow>
                (let v = parse_obj Q bytes in
                 if oget ''schema'' v \<noteq> JNum 1 \<or> jstr (oget ''host'' v) = [] \<or> length (jstr (oget ''host'' v)) > 256
                    \<or> uuid_null Q (jstr (oget ''container'' v)) \<or> \<not> hex (jstr (oget ''scope'' v))
                    \<or> \<not> is_bool (oget ''complete'' v)
                 then [] else v)))"

definition claim_document :: "string \<Rightarrow> string \<Rightarrow> string \<Rightarrow> jobj" where
  "claim_document scp ident device =
     obj [(''schema'', JNum 1), (''scope'', JStr scp), (''container'', JStr ident), (''host'', JStr device)]"

definition claim_primary_host :: "env \<Rightarrow> string option \<Rightarrow> string \<Rightarrow> string \<Rightarrow> fsys \<Rightarrow> bool \<times> fsys" where
  "claim_primary_host Q ident scp device f =
     (if ident = None \<or> \<not> hex scp \<or> device = [] \<or> length device > 128 \<or> stored_binding Q ident f \<noteq> [] then (False, f)
      else if primary_host Q ident scp f \<noteq> [] then (primary_host Q ident scp f = device, f)
      else let (ok, f) = poll f; (ok, f) = (if ok then mkdir ''.society-sync'' f else (False, f));
               (ok, f) = (if ok then poll f else (False, f)) in
      if \<not> ok then (False, f)
      else let (st, f) = fs_state Q primary_file f in
      case st of
        None \<Rightarrow> (False, f)
      | Some st \<Rightarrow>
          if fkind st \<noteq> ''deleted'' then (primary_host Q ident scp f = device, f)
          else save_file primary_file (json_bytes Q (claim_document scp (the ident) device)) f)"

definition bootstrapping :: "replica \<Rightarrow> bool" where
  "bootstrapping r \<longleftrightarrow> is_open r \<and> meta ''host'' r \<noteq> [] \<and> meta ''bootstrapComplete'' r \<noteq> ''1''"

definition complete_bootstrap :: "env \<Rightarrow> replica \<Rightarrow> bool \<times> replica" where
  "complete_bootstrap Q r =
     (let (ok, r) = lock Q r in
      if \<not> ok then (False, r)
      else if meta ''adoption'' r \<noteq> ''pulling'' \<or> meta ''target'' r \<noteq> container_id r then rfail ''mirror_not_initialized'' r
      else if \<not> complete_replica Q (container_id r) then rfail ''adoption'' r
      else let (ok, r) = set_meta ''bootstrapComplete'' ''1'' r in
      if ok then write_binding Q r else (False, r))"

definition bind_host :: "env \<Rightarrow> string \<Rightarrow> string \<Rightarrow> string \<Rightarrow> bool \<Rightarrow> replica \<Rightarrow> bool \<times> replica" where
  "bind_host Q peer rep con replace r =
     (let (ok, r) = lock Q r in
      if \<not> ok then (False, r)
      else if primary_host Q (drive r) (scope r) (files r) \<noteq> [] then rfail ''authority_cannot_become_mirror'' r
      else if peer = [] \<or> length peer > 256 \<or> uuid_null Q rep \<or> rep = rid r \<or> uuid_null Q con \<or> uuid_text Q con \<noteq> con
      then rfail ''invalid_host_identity'' r
      else if \<not> replace \<and> meta ''host'' r \<noteq> [] \<and> meta ''host'' r \<noteq> peer then rfail ''different_primary_host'' r
      else let (ok, r) = resume_adoption Q r in
      if \<not> ok then (False, r)
      else if meta ''host'' r = peer \<and> meta ''target'' r = con
      then (let (ok, r) = (if meta ''hostReplica'' r = rep then (True, r)
              else transact ''host_checkpoint_reset_failed''
                     (all_of [forget_peer peer, clear_journal, set_meta ''hostReplica'' rep]) r) in
            if ok then write_binding Q r else (False, r))
      else let (u, r) = create_uuid Q r; recovery = ''.society-sync/detached/'' @ container_id r @ ''-'' @ u;
               (ok, r) = on_files (mkdir recovery) r;
               (ok, r) = (if ok then on_files (preserve ''.society-drive.json'' (recovery @ ''/manifest.json'')) r else (False, r)) in
      if \<not> ok then file_fail r
      else let (ok, r) = transact ''mirror_plan_failed''
                 (plan_binding Q peer rep con recovery (logical_disk Q \<and> meta ''host'' r = [])) r in
      if ok then resume_adoption Q r else (False, r))"

section \<open>Opening a replica\<close>

text \<open>What \<open>open\<close> finds: the type of the file system, the identifier of the drive, the schema
  version of the database and its tables.\<close>

record medium =
  mfilesystem :: string
  mdrive :: "string option"
  mschema :: int
  mstored :: database

definition empty_db :: database where
  "empty_db = \<lparr>meta_rows = [], entry_rows = [], rev_rows = [], loc_rows = [], peer_rows = [], plan_rows = [], snapshot_rows = []\<rparr>"

definition close_replica :: "replica \<Rightarrow> replica" where
  "close_replica r = r\<lparr>manifests := [], leases := [], drive := None, db_open := False, scope := [], rid := []\<rparr>"

definition network_filesystems :: "string list" where
  "network_filesystems = [''nfs'', ''smb'', ''cifs'', ''afp'', ''sshfs'', ''webdav'', ''9p'']"

definition step_or :: "string \<Rightarrow> replica \<Rightarrow> bool \<times> replica" where
  "step_or why r = (let (ok, r) = rpoll r in if ok then (True, r) else rfail why r)"

definition or_fail :: "string \<Rightarrow> (replica \<Rightarrow> bool \<times> replica) \<Rightarrow> replica \<Rightarrow> bool \<times> replica" where
  "or_fail why op r = (let (ok, r) = op r in if ok then (True, r) else rfail why r)"

definition open_files :: "replica \<Rightarrow> bool \<times> replica" where
  "open_files r = (let (ok, r) = on_files poll r in if ok then (True, r) else file_fail r)"

definition make_dir :: "string \<Rightarrow> replica \<Rightarrow> bool \<times> replica" where
  "make_dir path r = (let (ok, r) = on_files (mkdir path) r in if ok then (True, r) else file_fail r)"

definition not_redirected :: "replica \<Rightarrow> bool \<times> replica" where
  "not_redirected r = (if redirected (files r) then rfail ''sync_state_redirected'' r else (True, r))"

definition create_tables :: "env \<Rightarrow> string \<Rightarrow> replica \<Rightarrow> bool \<times> replica" where
  "create_tables Q account = all_of
     [sql, sql, sql, sql, sql, sql_write (\<lambda>d. empty_db),
      or_fail ''journal_initialization_failed'' (all_of [set_meta ''scope'' account, adopted_container, set_new_replica Q,
        set_meta ''sequence'' ''0'', set_meta ''counter'' ''0''])]"

definition prepare_tables :: "env \<Rightarrow> int \<Rightarrow> string \<Rightarrow> replica \<Rightarrow> bool \<times> replica" where
  "prepare_tables Q schema account = all_of
     [(if schema = 0 then create_tables Q account else if schema < 2 then all_of [sql, sql] else (\<lambda>r. (True, r))),
      or_fail ''namespace_initialization_failed'' (all_of [sql, sql, sql]), sql,
      step_or ''journal_initialization_commit_failed'']"

text \<open>The guarded transaction of the set-up: every early return rolls back.\<close>

definition set_up :: "env \<Rightarrow> int \<Rightarrow> string \<Rightarrow> replica \<Rightarrow> bool \<times> replica" where
  "set_up Q schema account r =
     (let (ok, r) = step_or ''journal_transaction_failed'' r in
      if \<not> ok then (False, r)
      else let before = db r; (ok, r) = prepare_tables Q schema account r in
      if ok then (True, r) else (False, r\<lparr>db := before\<rparr>))"

fun save_all :: "env \<Rightarrow> row list \<Rightarrow> replica \<Rightarrow> bool \<times> replica" where
  "save_all Q [] r = (True, r)"
| "save_all Q (w # ws) r = (let (ok, r) = save Q (rdata w) (rstamp w) r in if ok then save_all Q ws r else (False, r))"

definition migrate :: "env \<Rightarrow> replica \<Rightarrow> bool \<times> replica" where
  "migrate Q = transact ''namespace_migration_failed''
     (all_of [(\<lambda>r. if meta ''host'' r = [] then save_all Q (sort_key rseq (map snd (entry_rows (db r)))) r
                   else sql_write (\<lambda>d. d\<lparr>peer_rows := map (\<lambda>(p, x). (p, x\<lparr>pulled := 0, pushed := 0\<rparr>)) (peer_rows d)\<rparr>) r),
              sql])"

definition bound_elsewhere :: "string \<Rightarrow> replica \<Rightarrow> bool" where
  "bound_elsewhere account r \<longleftrightarrow> meta ''scope'' r \<noteq> account
     \<or> (meta ''container'' r \<noteq> container_id r
        \<and> \<not> (meta ''adoption'' r = ''detaching'' \<and> meta ''target'' r = container_id r))"

definition open_database :: "database \<Rightarrow> replica \<Rightarrow> bool \<times> replica" where
  "open_database tables r = (let (ok, r) = step_or ''sql'' r in if ok then (True, r\<lparr>db_open := True, db := tables\<rparr>) else (False, r))"

definition open_replica :: "env \<Rightarrow> medium \<Rightarrow> string \<Rightarrow> replica \<Rightarrow> bool \<times> replica" where
  "open_replica Q x account r =
     (let r = (close_replica r)\<lparr>rerror := []\<rparr> in
      if \<not> hex account then rfail ''invalid_account_scope'' r
      else if list_ex (\<lambda>t. contains_text t (lower (mfilesystem x))) network_filesystems
      then rfail ''sync_requires_device_local_storage'' r
      else if mdrive x = None then rfail ''drive'' r
      else let (ok, r) = all_of [open_files, make_dir ''.society-sync/transfers'', make_dir ''.society-sync/recovery'',
             not_redirected, step_or ''sync_store_busy'', step_or ''cancelled'', step_or ''state_creation_failed'',
             open_database (mstored x), step_or ''state_permissions_failed''] (r\<lparr>drive := mdrive x\<rparr>) in
      if \<not> ok then (False, r)
      else let (known, r) = rpoll r; schema = (if known then mschema x else - 1) in
      if schema < 0 \<or> schema > 3 then rfail ''unsupported_journal_schema'' r
      else let (ok, r) = all_of [sql, sql, set_up Q schema account] r; schema = (if schema = 0 then 3 else schema) in
      if \<not> ok then (False, r)
      else if bound_elsewhere account r then rfail ''container_account_binding_mismatch'' (close_replica r)
      else let (ok, r) = resume_adoption Q (r\<lparr>scope := account\<rparr>) in
      if \<not> ok then (False, r)
      else let r = r\<lparr>rid := meta ''replica'' r\<rparr> in
      if uuid_null Q (rid r) then rfail ''invalid_replica_identity'' (close_replica r)
      else if schema < 3 then migrate Q r else (True, r))"

section \<open>Files that are replaced whole\<close>

lemma map_of_touch: "map_of (names (touch_dir p f)) q = (case map_of (names f) p of
    Some (Dir i v) \<Rightarrow> if q = p then Some (Dir i (Suc v)) else map_of (names f) q | _ \<Rightarrow> map_of (names f) q)"
  by (auto simp: touch_dir_def split: option.split node.split)

lemma content_write: "content (sys_write i bytes f) j = (if j = i then bytes else content f j)"
  by (simp add: sys_write_def content_upsert)

lemma names_write [simp]: "names (sys_write i bytes f) = names f"
  by (simp add: sys_write_def)

lemma saved_file:
  assumes "save_file path bytes f = (True, g)"
  shows "\<exists>i. map_of (names g) (comps path) = Some (File i) \<and> content g i = bytes"
    "q \<noteq> comps path \<Longrightarrow> (map_of (names g) q = Some Special) = (map_of (names f) q = Some Special)"
    "q \<noteq> comps path \<Longrightarrow> (map_of (names g) q = Some (File j)) = (map_of (names f) q = Some (File j))"
proof -
  let ?p = "comps path"
  obtain b h where p: "poll f = (b, h)" by (cases "poll f")
  from poll_frame [OF p] have h: "names h = names f" by auto
  let ?i = "next_ino h"
  let ?k = "h\<lparr>inodes := upsert ?i ([], 0) (inodes h), next_ino := Suc ?i\<rparr>"
  have g: "g = sys_write ?i bytes (touch_dir (butlast ?p) (?k\<lparr>names := upsert ?p (File ?i) (names h)\<rparr>))"
    using assms p by (auto simp: save_file_def Let_def sys_create_def sys_link_def split: if_splits option.splits node.splits)
  have n: "?p \<noteq> butlast ?p"
    by (metis append_butlast_last_id append_self_conv not_Cons_self2 qsplit_not_Nil)
  show "\<exists>i. map_of (names g) ?p = Some (File i) \<and> content g i = bytes"
    using n by (simp add: g content_write map_of_touch split: option.split node.split)
  show "(map_of (names g) q = Some Special) = (map_of (names f) q = Some Special)" if "q \<noteq> ?p"
    using that by (auto simp: g map_of_touch h split: option.split node.split)
  show "(map_of (names g) q = Some (File j)) = (map_of (names f) q = Some (File j))" if "q \<noteq> ?p"
    using that by (auto simp: g map_of_touch h split: option.split node.split)
qed

lemma keeps_save_file:
  assumes "\<not> safe_path (comps path)"
  shows "keeps f (snd (save_file path bytes f))"
proof (cases "fst (save_file path bytes f)")
  case False
  then show ?thesis by (auto simp: save_file_def Let_def split: prod.splits if_splits option.splits node.splits
      dest!: poll_frame)
next
  case True
  let ?p = "comps path"
  obtain b h where p: "poll f = (b, h)" by (cases "poll f")
  from poll_frame [OF p] obtain fl where h: "h = f\<lparr>sysfault := fl\<rparr>" by blast
  let ?i = "next_ino h"
  let ?k = "h\<lparr>inodes := upsert ?i ([], 0) (inodes h), next_ino := Suc ?i\<rparr>"
  let ?g = "sys_write ?i bytes (touch_dir (butlast ?p) (?k\<lparr>names := upsert ?p (File ?i) (names h)\<rparr>))"
  have g: "snd (save_file path bytes f) = ?g"
    using True p by (auto simp: save_file_def Let_def sys_create_def sys_link_def split: if_splits option.splits node.splits)
  have c: "content ?g j = (if j = ?i then bytes else content f j)" for j
    by (simp add: content_write) (simp add: touch_dir_def h content_def split: option.split node.split)
  have at: "file_at ?g q j" if "file_at f q j" "q \<noteq> ?p" for q j
    using that by (auto simp: file_at_def map_of_touch h split: option.split node.split)
  have bound: "ino_bound ?g" if "ino_bound f"
  proof -
    have "ino_bound (?k\<lparr>names := upsert ?p (File ?i) (names h)\<rparr>)"
      using that set_upsert_subset [of ?p "File ?i" "names f"] by (fastforce simp: ino_bound_def h)
    then have "ino_bound (touch_dir (butlast ?p) (?k\<lparr>names := upsert ?p (File ?i) (names h)\<rparr>))" by (rule ino_bound_touch_dir)
    then show ?thesis by (simp add: sys_write_def ino_bound_def)
  qed
  show ?thesis
    unfolding g keeps_def held_def
  proof (intro impI conjI allI)
    assume i: "ino_bound f"
    then show "ino_bound ?g" by (rule bound)
    fix j assume "\<exists>p. safe_path p \<and> file_at f p j"
    then obtain q where q: "safe_path q" "file_at f q j" by blast
    then have "q \<noteq> ?p" using assms by auto
    with q at show "\<exists>p. safe_path p \<and> file_at ?g p j" by blast
    have "j < next_ino f" using i q(2) by (rule ino_bound_at)
    then show "content ?g j = content f j" using c [of j] h by simp
  qed
qed

section \<open>One primary host\<close>

lemma claim_gives_host:
  assumes "claim_primary_host Q (Some i) scp a f = (True, g)"
    "parse_obj Q (json_bytes Q (claim_document scp i a)) = claim_document scp i a"
    "length (json_bytes Q (claim_document scp i a)) \<le> 8192"
  shows "primary_host Q (Some i) scp g = a" "a \<noteq> []" "hex scp"
proof -
  show a: "a \<noteq> []" "hex scp" using assms(1) by (auto simp: claim_primary_host_def split: if_splits)
  have l: "length a \<le> 128" using assms(1) by (auto simp: claim_primary_host_def split: if_splits)
  show "primary_host Q (Some i) scp g = a"
  proof (cases "\<exists>h. save_file primary_file (json_bytes Q (claim_document scp i a)) h = (True, g)
      \<and> map_of (names g) [''.society-sync''] \<noteq> Some Special")
    case False
    have parent: "map_of (names g) [''.society-sync''] \<noteq> Some Special"
      if "save_file primary_file (json_bytes Q (claim_document scp i a)) h = (True, g)" for h
    proof -
      have "map_of (names h) [''.society-sync''] \<noteq> Some Special"
        using that by (auto simp: save_file_def primary_file_def Let_def split: prod.splits if_splits option.splits node.splits
          dest!: poll_frame)
      then show ?thesis using saved_file(2) [OF that, of "[''.society-sync'']"] by (simp add: primary_file_def)
    qed
    with False assms(1) show ?thesis
      by (auto simp: claim_primary_host_def Let_def split: if_splits prod.splits option.splits)
  next
    case True
    then obtain h where s: "save_file primary_file (json_bytes Q (claim_document scp i a)) h = (True, g)"
      "map_of (names g) [''.society-sync''] \<noteq> Some Special" by blast
    have p: "comps primary_file = [''.society-sync'', ''primary.json'']" by (simp add: primary_file_def)
    from saved_file(1) [OF s(1)] obtain k where "map_of (names g) [''.society-sync'', ''primary.json''] = Some (File k)"
      "content g k = json_bytes Q (claim_document scp i a)" unfolding p by blast
    then have "plain_file primary_file g = Some (json_bytes Q (claim_document scp i a))"
      using assms(3) s(2) by (simp add: plain_file_def p)
    then show ?thesis using assms(2) a l by (simp add: primary_host_def claim_document_def obj_def)
  qed
qed


text \<open>A container has at most one primary host. Once a device has claimed it, it is recorded as
  the primary host of that account scope, and no claim by another device can succeed.\<close>

theorem claim_exclusive:
  assumes "claim_primary_host Q (Some i) scp a f = (True, g)"
    "parse_obj Q (json_bytes Q (claim_document scp i a)) = claim_document scp i a"
    "length (json_bytes Q (claim_document scp i a)) \<le> 8192"
  shows "primary_host Q (Some i) scp g = a \<and> (b \<noteq> a \<longrightarrow> claim_primary_host Q (Some i) scp b g = (False, g))"
  using claim_gives_host [OF assms] by (auto simp: claim_primary_host_def)


section \<open>Adoption keeps the user's files\<close>

definition kept :: "replica \<Rightarrow> replica \<Rightarrow> bool" where
  "kept r s \<longleftrightarrow> keeps (files r) (files s)"

interpretation kept: op_rel kept
  by unfold_locales (auto simp: kept_def intro: keep.trans)

lemma kept_files: "files s = files r \<Longrightarrow> kept r s"
  by (simp add: kept_def)

lemma kept_fields [simp]:
  "kept r (s\<lparr>rerror := e\<rparr>) = kept r s" "kept r (s\<lparr>faults := fl\<rparr>) = kept r s" "kept r (s\<lparr>db := d\<rparr>) = kept r s"
  "kept r (s\<lparr>drive := i\<rparr>) = kept r s" "kept r (s\<lparr>rid := n\<rparr>) = kept r s" "kept r (s\<lparr>scope := n\<rparr>) = kept r s"
  by (simp_all add: kept_def)

lemma kept_steps [simp]:
  "kept r (snd (rpoll s)) = kept r s" "kept r (snd (rfail e s)) = kept r s" "kept r (snd (sql s)) = kept r s"
  "kept r (snd (file_fail s)) = kept r s"
  by (auto simp: rpoll_def rfail_def sql_def file_fail_def split_beta split: list.split)

lemma kept_set_meta [simp]: "kept r (snd (set_meta k v s)) = kept r s"
  using kept_steps(3) [of r s] by (simp add: set_meta_def split_beta)

lemma kept_sql_write [simp]: "kept r (snd (sql_write upd s)) = kept r s"
  using kept_steps(3) [of r s] by (simp add: sql_write_def split_beta)

lemma kept_clear [simp]: "kept r (snd (clear_journal s)) = kept r s"
  by (simp add: clear_journal_def on_journal_def split_beta Let_def)

lemma kept_uuid [simp]: "kept r (snd (create_uuid Q s)) = kept r s"
  by (simp add: create_uuid_def kept_def)

lemma kept_set_new_replica [simp]: "kept r (snd (set_new_replica Q s)) = kept r s"
  by (simp add: set_new_replica_def split_beta)

lemma kept_on_files: "keeps (files s) (snd (op (files s))) \<Longrightarrow> kept s (snd (on_files op s))"
  by (simp add: kept_def on_files_eq)

lemma kept_extends: "extends Q r s \<Longrightarrow> kept r s"
  by (simp add: extends_def kept_def)

lemma kept_all_of: "(\<And>op s. op \<in> set ops \<Longrightarrow> kept s (snd (op s))) \<Longrightarrow> kept r (snd (all_of ops r))"
proof (induction ops arbitrary: r)
  case (Cons op ops)
  have "kept s (snd (all_of ops s))" for s by (rule Cons.IH) (rule Cons.prems, simp)
  moreover have "kept s (snd (op s))" for s by (rule Cons.prems) simp
  ultimately show ?case unfolding all_of.simps Let_def by (intro kept.call kept.cond) auto
qed simp

lemma kept_transact: "(\<And>s. kept s (snd (body s))) \<Longrightarrow> kept r (snd (transact why body r))"
  unfolding transact_def Let_def by (intro kept.call kept.cond) (auto split: if_splits)

lemma unsafe_state_files: "\<not> safe_path (comps mirror_file)" "\<not> safe_path (comps primary_file)"
  by (simp_all add: safe_path_def mirror_file_def primary_file_def)

lemma kept_write_binding: "kept r (snd (write_binding Q r))"
  unfolding write_binding_def Let_def
  by (intro kept.call kept.cond kept.opt)
    (auto intro!: kept_on_files keeps_of_grows keeps_save_file unsafe_state_files split: if_splits)

lemma kept_detach_plan: "kept r (snd (detach_plan ps r))"
proof (induction ps arbitrary: r)
  case (Cons p ps)
  obtain a b where p: "p = (a, b)" by (cases p)
  show ?case unfolding p detach_plan.simps Let_def
    by (intro kept.call kept.cond) (auto intro: Cons kept_on_files keeps_detach)
qed simp

lemma kept_reset: "kept r (snd (reset_store Q r))"
  unfolding reset_store_def by (rule kept_all_of) (auto simp: adopted_container_def)

lemma kept_resume: "kept r (snd (resume_adoption Q r))"
  unfolding resume_adoption_def Let_def
  by (intro kept.call kept.cond kept.opt)
    (auto intro!: kept_write_binding kept_transact kept_reset
      intro: kept.trans [OF _ kept_write_binding] kept.trans [OF _ kept_detach_plan])

lemma kept_plan_names: "kept r (snd (plan_names recovery native ns n r))"
proof (induction ns arbitrary: n r)
  case (Cons m ns)
  show ?case unfolding plan_names.simps Let_def
    by (intro kept.call kept.cond) (auto intro: Cons)
qed simp

lemma kept_plan_sections: "kept r (snd (plan_sections recovery ss n r))"
proof (induction ss arbitrary: n r)
  case (Cons p ss)
  obtain a b where p: "p = (a, b)" by (cases p)
  show ?case unfolding p plan_sections.simps Let_def
    by (intro kept.call kept.opt) (auto intro: Cons kept_plan_names intro!: kept_on_files keeps_of_grows)
qed simp

lemma kept_plan_binding: "kept r (snd (plan_binding Q peer rep con recovery keep_files r))"
  unfolding plan_binding_def by (rule kept_all_of) (auto simp: kept_plan_sections)

lemma kept_bind: "kept r (snd (bind_host Q peer rep con replace r))"
  unfolding bind_host_def Let_def
  by (intro kept.call kept.cond kept.pair)
    (auto intro!: kept_write_binding kept_resume kept_transact kept_plan_binding kept_all_of kept_extends [OF extends_lock]
       kept_on_files keeps_of_grows simp: forget_peer_def split: if_splits)

section \<open>What adoption leaves\<close>

lemma all_of_True: "all_of (op # ops) r = (True, s) \<longleftrightarrow> (\<exists>t. op r = (True, t) \<and> all_of ops t = (True, s))"
  by (auto split: prod.splits if_splits)

lemma sql_True: "sql r = (True, s) \<Longrightarrow> \<exists>fl. s = r\<lparr>faults := fl\<rparr>"
  using rpoll_eq [of r] by (auto simp: sql_def rfail_def split: prod.splits if_splits)

lemma sql_write_True: "sql_write upd r = (True, s) \<Longrightarrow> \<exists>fl. s = r\<lparr>faults := fl, db := upd (db r)\<rparr>"
  by (auto simp: sql_write_def split: prod.splits if_splits dest!: sql_True)

lemma set_meta_True: "set_meta k v r = (True, s) \<Longrightarrow> \<exists>fl. s = r\<lparr>faults := fl, db := (db r)\<lparr>meta_rows := upsert k v (meta_rows (db r))\<rparr>\<rparr>"
  by (auto simp: set_meta_def split: prod.splits if_splits dest!: sql_True)

lemma clear_journal_True: "clear_journal r = (True, s) \<Longrightarrow> \<exists>fl. s = r\<lparr>db := (db r)\<lparr>rev_rows := [], loc_rows := []\<rparr>, faults := fl\<rparr>"
  by (auto simp: clear_journal_def on_journal_def clear_ledger_def jfail_def sql_ok_def Let_def split: prod.splits if_splits list.splits)

lemma set_new_replica_True: "set_new_replica Q r = (True, s) \<Longrightarrow> \<exists>fl. s = r\<lparr>files := (files r)\<lparr>fuuid := Suc (fuuid (files r))\<rparr>,
    faults := fl, db := (db r)\<lparr>meta_rows := upsert ''replica'' (new_uuid Q (fuuid (files r))) (meta_rows (db r))\<rparr>\<rparr>"
  by (auto simp: set_new_replica_def create_uuid_def dest!: set_meta_True)

lemma meta_upsert [simp]: "meta k (r\<lparr>db := d\<lparr>meta_rows := upsert k0 v ms\<rparr>\<rparr>) = (if k = k0 then v else meta k (r\<lparr>db := d\<lparr>meta_rows := ms\<rparr>\<rparr>))"
  by (simp add: meta_def)

definition adopted_keys :: "string set" where
  "adopted_keys = {''container'', ''sequence'', ''counter'', ''replica'', ''adoption''}"

lemma write_reads:
  "sql_write upd r = (True, s) \<Longrightarrow> db s = upd (db r) \<and> drive s = drive r \<and> db_open s = db_open r"
  "set_meta k v r = (True, s) \<Longrightarrow> db s = (db r)\<lparr>meta_rows := upsert k v (meta_rows (db r))\<rparr> \<and> drive s = drive r \<and> db_open s = db_open r"
  "clear_journal r = (True, s) \<Longrightarrow> db s = (db r)\<lparr>rev_rows := [], loc_rows := []\<rparr> \<and> drive s = drive r \<and> db_open s = db_open r"
  "set_new_replica Q r = (True, s) \<Longrightarrow> \<exists>u. db s = (db r)\<lparr>meta_rows := upsert ''replica'' u (meta_rows (db r))\<rparr> \<and> drive s = drive r \<and> db_open s = db_open r"
  by (auto dest!: sql_write_True set_meta_True clear_journal_True set_new_replica_True)

lemma reset_True:
  assumes "reset_store Q r = (True, s)"
  shows "entry_rows (db s) = [] \<and> peer_rows (db s) = [] \<and> plan_rows (db s) = [] \<and> snapshot_rows (db s) = [] \<and> rev_rows (db s) = []
    \<and> meta ''adoption'' s = ''pulling'' \<and> meta ''sequence'' s = ''0'' \<and> meta ''container'' s = container_id r
    \<and> (\<forall>k. k \<notin> adopted_keys \<longrightarrow> meta k s = meta k r) \<and> drive s = drive r"
proof -
  obtain t where t: "sql_write (\<lambda>d. d\<lparr>entry_rows := []\<rparr>) r = (True, t 0)" "sql_write (\<lambda>d. d\<lparr>peer_rows := []\<rparr>) (t 0) = (True, t 1)"
    "sql_write (\<lambda>d. d\<lparr>plan_rows := []\<rparr>) (t 1) = (True, t 2)" "sql_write (\<lambda>d. d\<lparr>snapshot_rows := []\<rparr>) (t 2) = (True, t 3)"
    "clear_journal (t 3) = (True, t 4)" "set_meta ''container'' (container_id (t 4)) (t 4) = (True, t 5)"
    "set_meta ''sequence'' ''0'' (t 5) = (True, t 6)" "set_meta ''counter'' ''0'' (t 6) = (True, t 7)"
    "set_new_replica Q (t 7) = (True, t (8 :: nat))" "set_meta ''adoption'' ''pulling'' (t 8) = (True, s)"
  proof -
    from assms obtain t0 t1 t2 t3 t4 t5 t6 t7 t8 where t: "sql_write (\<lambda>d. d\<lparr>entry_rows := []\<rparr>) r = (True, t0)"
      "sql_write (\<lambda>d. d\<lparr>peer_rows := []\<rparr>) t0 = (True, t1)"
      "sql_write (\<lambda>d. d\<lparr>plan_rows := []\<rparr>) t1 = (True, t2)" "sql_write (\<lambda>d. d\<lparr>snapshot_rows := []\<rparr>) t2 = (True, t3)"
      "clear_journal t3 = (True, t4)" "set_meta ''container'' (container_id t4) t4 = (True, t5)"
      "set_meta ''sequence'' ''0'' t5 = (True, t6)" "set_meta ''counter'' ''0'' t6 = (True, t7)"
      "set_new_replica Q t7 = (True, t8)" "set_meta ''adoption'' ''pulling'' t8 = (True, s)"
      unfolding reset_store_def all_of_True all_of.simps(1) adopted_container_def by blast
    show thesis
      using that [of "nth [t0, t1, t2, t3, t4, t5, t6, t7, t8]"] t by simp
  qed
  note w = t(1-4) [THEN write_reads(1)] t(5) [THEN write_reads(3)] t(6-8) [THEN write_reads(2)] t(10) [THEN write_reads(2)]
  obtain u where u: "db (t 8) = (db (t 7))\<lparr>meta_rows := upsert ''replica'' u (meta_rows (db (t 7)))\<rparr>" "drive (t 8) = drive (t 7)"
    using write_reads(4) [OF t(9)] by blast
  show ?thesis using w u by (simp add: meta_def adopted_keys_def container_id_def)
qed

lemma transact_cases:
  assumes "transact why body r = (b, s)"
  shows "b \<Longrightarrow> \<exists>r1 s1. same_view r r1 \<and> body r1 = (True, s1) \<and> same_view s1 s"
    "\<not> b \<Longrightarrow> db s = db r"
proof -
  obtain a r1 where r1: "rpoll r = (a, r1)" by (cases "rpoll r")
  obtain c r2 where r2: "body r1 = (c, r2)" by (cases "body r1")
  obtain d r3 where r3: "rpoll r2 = (d, r3)" by (cases "rpoll r2")
  have v: "same_view r r1" "same_view r2 r3" using view_steps(1) [of r r] view_steps(1) [of r2 r2] r1 r3 by simp_all
  then have d: "db r1 = db r" by (simp add: same_view_def)
  show "b \<Longrightarrow> \<exists>r1 s1. same_view r r1 \<and> body r1 = (True, s1) \<and> same_view s1 s" "\<not> b \<Longrightarrow> db s = db r"
    using assms v d r2 by (auto simp: transact_def Let_def r1 r2 r3 rfail_def split: if_splits)
qed

lemma view_write_binding: "same_view r (snd (write_binding Q r))"
  unfolding write_binding_def Let_def
  by (intro view.call view.cond view.opt) (auto split: if_splits)

lemma view_detach_plan: "same_view r (snd (detach_plan ps r))"
proof (induction ps arbitrary: r)
  case (Cons p ps)
  obtain a b where p: "p = (a, b)" by (cases p)
  show ?case unfolding p detach_plan.simps Let_def
    by (intro view.call view.cond) (auto intro: Cons)
qed simp

lemma resume_cases:
  assumes "resume_adoption Q r = (b, s)"
  shows "db s = db r \<and> (b \<longrightarrow> meta ''adoption'' r \<noteq> ''detaching'') \<or>
    (meta ''adoption'' r = ''detaching'' \<and> entry_rows (db s) = [] \<and> peer_rows (db s) = [] \<and> plan_rows (db s) = []
     \<and> snapshot_rows (db s) = [] \<and> rev_rows (db s) = []
     \<and> meta ''adoption'' s = ''pulling'' \<and> meta ''sequence'' s = ''0'' \<and> (\<forall>k. k \<notin> adopted_keys \<longrightarrow> meta k s = meta k r)
     \<and> adopt_identity Q (meta ''container'' r) (meta ''target'' r) = drive s \<and> meta ''container'' s = container_id s
     \<and> rid s = meta ''replica'' s)"
proof (cases "meta ''adoption'' r = ''detaching''")
  case False
  then show ?thesis using assms view_write_binding [of r Q] by (simp add: resume_adoption_def same_view_def)
next
  case True
  obtain b0 r0 where r0: "write_binding Q r = (b0, r0)" by (cases "write_binding Q r")
  have v0: "same_view r r0" using view_write_binding [of r Q] r0 by simp
  show ?thesis
  proof (cases "b0 \<and> adopt_identity Q (meta ''container'' r) (meta ''target'' r) \<noteq> None")
    case False
    then show ?thesis using assms True r0 view_db(1) [OF v0] view_meta [OF v0]
      by (auto simp: resume_adoption_def rfail_def split: if_splits option.splits)
  next
    case i: True
    then obtain i where i: "b0" "adopt_identity Q (meta ''container'' r) (meta ''target'' r) = Some i" by blast
    let ?r = "r0\<lparr>drive := Some i\<rparr>"
    obtain b1 r1 where r1: "detach_plan (sort_key fst (plan_rows (db r0))) ?r = (b1, r1)"
      by (cases "detach_plan (sort_key fst (plan_rows (db r0))) ?r")
    have v1: "same_view ?r r1" using view_detach_plan [of ?r] r1 by (metis snd_conv)
    obtain b2 r2 where r2: "transact ''adoption_commit_failed'' (reset_store Q) r1 = (b2, r2)"
      by (cases "transact ''adoption_commit_failed'' (reset_store Q) r1")
    have step: "(if \<not> b1 then (False, r1) else if \<not> b2 then (False, r2) else write_binding Q (r2\<lparr>rid := meta ''replica'' r2\<rparr>)) = (b, s)"
      using assms True i view_meta [OF v0] by (cases b1) (simp_all add: resume_adoption_def r0 r1 r2)
    show ?thesis
    proof (cases "b1 \<and> b2")
      case False
      then show ?thesis
        using step True v0 v1 transact_cases(2) [OF r2] by (auto simp: same_view_def split: if_splits)
    next
      case b: True
      from transact_cases(1) [OF r2] b obtain t1 t2 where t: "same_view r1 t1" "reset_store Q t1 = (True, t2)" "same_view t2 r2" by blast
      let ?f = "r2\<lparr>rid := meta ''replica'' r2\<rparr>"
      have s: "same_view ?f s" using step b view_write_binding [of ?f Q] by (metis snd_conv)
      have m: "meta k s = meta k t2" "db s = db t2" "drive s = drive t2" for k
        using s t(3) by (simp_all add: same_view_def meta_def)
      have n: "meta k t1 = meta k r" "drive t1 = Some i" "container_id t1 = i" for k
        using v0 v1 t(1) by (simp_all add: same_view_def meta_def container_id_def)
      have "rid s = meta ''replica'' s" using s t(3) by (simp add: same_view_def meta_def)
      with reset_True [OF t(2)] m n i(2) True show ?thesis by (simp add: container_id_def)
    qed
  qed
qed


text \<open>C11: adopting a host's identity is all or nothing. An interrupted adoption leaves the database with
  the whole plan, so that the next run resumes it; otherwise the index, the journal, the peers and
  the plan are empty, the state is \<open>pulling\<close>, and the host, its replica and the target are those
  of the plan. Whatever fails, every non-empty file of the user is still found with its bytes.\<close>

theorem adoption_atomic:
  assumes "resume_adoption Q r = (ok, s)" "meta ''adoption'' r = ''detaching''" "ino_bound (files r)"
  shows "((db s = db r \<and> \<not> ok)
     \<or> (meta ''adoption'' s = ''pulling'' \<and> entry_rows (db s) = [] \<and> rev_rows (db s) = [] \<and> peer_rows (db s) = []
        \<and> plan_rows (db s) = [] \<and> meta ''host'' s = meta ''host'' r \<and> meta ''hostReplica'' s = meta ''hostReplica'' r
        \<and> meta ''target'' s = meta ''target'' r \<and> meta ''container'' s = container_id s \<and> rid s = meta ''replica'' s))
    \<and> (\<forall>p i. safe_path p \<and> file_at (files r) p i \<and> content (files r) i \<noteq> [] \<longrightarrow>
         (\<exists>q. safe_path q \<and> file_at (files s) q i) \<and> content (files s) i = content (files r) i)"
proof -
  have "kept r s" using kept_resume [of r Q] assms(1) by simp
  then have "\<forall>p i. safe_path p \<and> file_at (files r) p i \<and> content (files r) i \<noteq> [] \<longrightarrow>
         (\<exists>q. safe_path q \<and> file_at (files s) q i) \<and> content (files s) i = content (files r) i"
    using assms(3) unfolding kept_def keeps_def held_def by blast
  with resume_cases [OF assms(1)] assms(2) show ?thesis by (auto simp: adopted_keys_def)
qed

section \<open>Binding to a host\<close>

lemma plan_names_meta: "meta_rows (db (snd (plan_names recovery native ns n r))) = meta_rows (db r)"
proof (induction ns arbitrary: n r)
  case (Cons m ns)
  have "meta_rows (db (snd (sql_write (\<lambda>d. d\<lparr>plan_rows := upd d\<rparr>) r))) = meta_rows (db r)" for upd
    using view_db(1) [of r "snd (sql r)"] by (simp add: sql_write_def split_beta)
  then show ?case by (simp add: Cons split_beta Let_def)
qed simp

lemma plan_sections_meta: "meta_rows (db (snd (plan_sections recovery ss n r))) = meta_rows (db r)"
proof (induction ss arbitrary: n r)
  case (Cons p ss)
  obtain a b where p: "p = (a, b)" by (cases p)
  obtain ns r1 where 1: "on_files (fs_list b) r = (ns, r1)" by (cases "on_files (fs_list b) r")
  have "db r1 = db r" using 1 by (auto simp: on_files_eq)
  moreover have "meta_rows (db (snd (plan_sections recovery ((a, b) # ss) n r))) = meta_rows (db r1)"
  proof (cases ns)
    case (Some ms)
    obtain res r2 where 2: "plan_names recovery b ms n r1 = (res, r2)" by (cases "plan_names recovery b ms n r1")
    with plan_names_meta [of recovery b ms n r1] have "meta_rows (db r2) = meta_rows (db r1)" by simp
    then show ?thesis by (simp add: 1 Some 2 Cons split: option.split)
  qed (simp add: 1)
  ultimately show ?case using p by simp
qed simp

lemma plan_binding_True:
  assumes "plan_binding Q peer rep con recovery keep_files r = (True, s)"
  shows "meta ''host'' s = peer" "meta ''hostReplica'' s = rep" "meta ''target'' s = con" "meta ''adoption'' s = ''detaching''"
proof -
  from assms obtain t0 t1 t2 t3 t4 t5 t6 where t:
    "set_meta ''host'' peer t1 = (True, t2)" "set_meta ''hostReplica'' rep t2 = (True, t3)" "set_meta ''target'' con t3 = (True, t4)"
    "set_meta ''detached'' recovery t4 = (True, t5)" "set_meta ''bootstrapComplete'' ''0'' t5 = (True, t6)"
    "set_meta ''adoption'' ''detaching'' t6 = (True, s)"
    unfolding plan_binding_def all_of_True all_of.simps(1) by blast
  show "meta ''host'' s = peer" "meta ''hostReplica'' s = rep" "meta ''target'' s = con" "meta ''adoption'' s = ''detaching''"
    using t [THEN write_reads(2)] by (simp_all add: meta_def)
qed

lemma checkpoint_True:
  assumes "all_of [forget_peer peer, clear_journal, set_meta ''hostReplica'' rep] r = (True, s)"
  shows "meta ''host'' s = meta ''host'' r" "meta ''hostReplica'' s = rep" "meta ''target'' s = meta ''target'' r"
proof -
  from assms obtain t0 t1 where t: "forget_peer peer r = (True, t0)" "clear_journal t0 = (True, t1)" "set_meta ''hostReplica'' rep t1 = (True, s)"
    unfolding all_of_True all_of.simps(1) by blast
  show "meta ''host'' s = meta ''host'' r" "meta ''hostReplica'' s = rep" "meta ''target'' s = meta ''target'' r"
    using write_reads(1) [OF t(1) [unfolded forget_peer_def]] write_reads(3) [OF t(2)] write_reads(2) [OF t(3)]
    by (simp_all add: meta_def)
qed

lemma bind_host_cases:
  assumes "bind_host Q peer rep con replace r = (True, s)"
  shows "\<exists>r0. lock Q r = (True, r0) \<and> primary_host Q (drive r) (scope r) (files r0) = []
    \<and> meta ''host'' s = peer \<and> meta ''hostReplica'' s = rep \<and> meta ''target'' s = con
    \<and> rep \<noteq> rid r \<and> (replace \<or> meta ''host'' r \<in> {[], peer})"
proof -
  obtain b0 r0 where r0: "lock Q r = (b0, r0)" by (cases "lock Q r")
  have v0: "same_view r r0" using view_lock [of r Q] r0 by simp
  have d0: "drive r0 = drive r" "scope r0 = scope r" "rid r0 = rid r" "meta k r0 = meta k r" for k
    using v0 view_meta [OF v0] by (simp_all add: same_view_def)
  obtain b1 r1 where r1: "resume_adoption Q r0 = (b1, r1)" by (cases "resume_adoption Q r0")
  note step = assms [unfolded bind_host_def r0 r1 prod.case]
  have g: "b0" "primary_host Q (drive r) (scope r) (files r0) = []" "rep \<noteq> rid r" "replace \<or> meta ''host'' r \<in> {[], peer}" "b1"
    using assms d0 by (auto simp: bind_host_def Let_def r0 r1 rfail_True split: if_splits)
  have "meta ''host'' s = peer \<and> meta ''hostReplica'' s = rep \<and> meta ''target'' s = con"
  proof (cases "meta ''host'' r1 = peer \<and> meta ''target'' r1 = con")
    case True
    define m where "m = (if meta ''hostReplica'' r1 = rep then (True, r1)
              else transact ''host_checkpoint_reset_failed''
                     (all_of [forget_peer peer, clear_journal, set_meta ''hostReplica'' rep]) r1)"
    obtain b2 r2 where r2: "m = (b2, r2)" by (cases m)
    have s: "b2" "write_binding Q r2 = (True, s)"
      using assms g d0 True r2 by (auto simp: bind_host_def Let_def r0 r1 rfail_True m_def [symmetric] split: if_splits)
    then have "meta k s = meta k r2" for k using view_meta [OF view_write_binding [of r2 Q]] by simp
    moreover have "meta ''host'' r2 = peer \<and> meta ''hostReplica'' r2 = rep \<and> meta ''target'' r2 = con"
    proof (cases "meta ''hostReplica'' r1 = rep")
      case False
      then have "transact ''host_checkpoint_reset_failed''
          (all_of [forget_peer peer, clear_journal, set_meta ''hostReplica'' rep]) r1 = (True, r2)"
        using r2 s(1) by (simp add: m_def)
      from transact_cases(1) [OF this] obtain t1 t2 where t: "same_view r1 t1"
        "all_of [forget_peer peer, clear_journal, set_meta ''hostReplica'' rep] t1 = (True, t2)" "same_view t2 r2" by blast
      show ?thesis using checkpoint_True [OF t(2)] view_meta [OF t(1)] view_meta [OF t(3)] True by simp
    qed (use True r2 in \<open>simp add: m_def\<close>)
    ultimately show ?thesis by simp
  next
    case False
    then obtain recovery keep r2 r3 where
      p: "transact ''mirror_plan_failed'' (plan_binding Q peer rep con recovery keep) r2 = (True, r3)" "resume_adoption Q r3 = (True, s)"
      using assms g d0 by (auto simp: bind_host_def Let_def r0 r1 rfail_True split: if_splits prod.splits)
    from transact_cases(1) [OF p(1)] obtain t1 t2 where t: "plan_binding Q peer rep con recovery keep t1 = (True, t2)" "same_view t2 r3" by blast
    note m = plan_binding_True [OF t(1)] view_meta [OF t(2)]
    show ?thesis using resume_cases [OF p(2)] m by (auto simp: adopted_keys_def)
  qed
  with g r0 show ?thesis by (intro exI [of _ r0]) simp
qed

text \<open>binding to a host is exclusive and keeps the user's files. A success means that no device had
  claimed this container as primary, that the host was the one bound before unless a replacement
  was asked for, and that the host, its replica and the target container are the given ones;
  whatever fails, every non-empty file is still found with its bytes.\<close>

theorem bind_exclusive:
  assumes "bind_host Q peer rep con replace r = (ok, s)" "ino_bound (files r)"
  shows "(ok \<longrightarrow> (\<exists>r0. lock Q r = (True, r0) \<and> primary_host Q (drive r) (scope r) (files r0) = [])
        \<and> meta ''host'' s = peer \<and> meta ''hostReplica'' s = rep \<and> meta ''target'' s = con
        \<and> (replace \<or> meta ''host'' r \<in> {[], peer}))
    \<and> (\<forall>p i. safe_path p \<and> file_at (files r) p i \<and> content (files r) i \<noteq> [] \<longrightarrow>
         (\<exists>q. safe_path q \<and> file_at (files s) q i) \<and> content (files s) i = content (files r) i)"
proof -
  have "kept r s" using kept_bind [of r Q peer rep con replace] assms(1) by simp
  then have "\<forall>p i. safe_path p \<and> file_at (files r) p i \<and> content (files r) i \<noteq> [] \<longrightarrow>
         (\<exists>q. safe_path q \<and> file_at (files s) q i) \<and> content (files s) i = content (files r) i"
    using assms(2) unfolding kept_def keeps_def held_def by blast
  moreover have "ok \<longrightarrow> (\<exists>r0. lock Q r = (True, r0) \<and> primary_host Q (drive r) (scope r) (files r0) = [])
        \<and> meta ''host'' s = peer \<and> meta ''hostReplica'' s = rep \<and> meta ''target'' s = con
        \<and> (replace \<or> meta ''host'' r \<in> {[], peer})"
    using bind_host_cases [of Q peer rep con replace r s] assms(1) by (cases ok) auto
  ultimately show ?thesis by blast
qed

section \<open>Opening\<close>

definition same_open :: "replica \<Rightarrow> replica \<Rightarrow> bool" where
  "same_open r s \<longleftrightarrow> db_open s = db_open r \<and> scope s = scope r"

interpretation opened: op_rel same_open
  by unfold_locales (auto simp: same_open_def)

lemma open_view: "same_view r s \<Longrightarrow> same_open r s"
  by (simp add: same_open_def same_view_def)

lemma open_set_meta [simp]: "same_open r (snd (set_meta k v s)) = same_open r s"
  using open_view [of s "snd (sql s)"] by (simp add: set_meta_def split_beta same_open_def)

lemma open_steps [simp]:
  "same_open r (snd (sql_write upd s)) = same_open r s" "same_open r (snd (clear_journal s)) = same_open r s"
  using open_view [of s "snd (sql s)"]
  by (simp_all add: sql_write_def clear_journal_def on_journal_def split_beta Let_def same_open_def)

lemma open_set_new_replica [simp]: "same_open r (snd (set_new_replica Q s)) = same_open r s"
  by (simp add: set_new_replica_def create_uuid_def) (simp add: same_open_def)

lemma open_all_of: "(\<And>op s. op \<in> set ops \<Longrightarrow> same_open s (snd (op s))) \<Longrightarrow> same_open r (snd (all_of ops r))"
proof (induction ops arbitrary: r)
  case (Cons op ops)
  have "same_open s (snd (all_of ops s))" for s by (rule Cons.IH) (rule Cons.prems, simp)
  moreover have "same_open s (snd (op s))" for s by (rule Cons.prems) simp
  ultimately show ?case unfolding all_of.simps Let_def by (intro opened.call opened.cond) auto
qed simp

lemma open_transact:
  assumes "\<And>s. same_open s (snd (body s))"
  shows "same_open r (snd (transact why body r))"
proof -
  obtain a r1 where r1: "rpoll r = (a, r1)" by (cases "rpoll r")
  obtain c r2 where r2: "body r1 = (c, r2)" by (cases "body r1")
  obtain d r3 where r3: "rpoll r2 = (d, r3)" by (cases "rpoll r2")
  have v: "same_open r r1" "same_open r2 r3" using open_view view_steps(1) [of r r] view_steps(1) [of r2 r2] r1 r3 by auto
  moreover have "same_open r1 r2" using assms [of r1] r2 by simp
  ultimately show ?thesis
    by (cases a; cases c; cases d) (simp_all add: transact_def Let_def r1 r2 r3 same_open_def)
qed

lemma open_resume: "same_open r (snd (resume_adoption Q r))"
proof -
  have reset: "same_open s (snd (reset_store Q s))" for s
    unfolding reset_store_def by (rule open_all_of) (auto simp: adopted_container_def)
  have wb: "same_open s (snd (write_binding Q s))" "same_open s (snd (detach_plan ps s))" for s ps
    by (auto intro: open_view view_write_binding view_detach_plan)
  have "same_open r s = same_open r (s\<lparr>drive := i\<rparr>)" "same_open r s = same_open r (s\<lparr>rid := n\<rparr>)" for r s i n
    by (simp_all add: same_open_def)
  note fields = this
  have d: "same_open s (snd (detach_plan ps (s\<lparr>drive := i\<rparr>)))" for s ps i
    using wb(2) [of "s\<lparr>drive := i\<rparr>" ps] by (simp add: same_open_def)
  have w: "same_open s (snd (write_binding Q (s\<lparr>rid := i\<rparr>)))" for s i
    using wb(1) [of "s\<lparr>rid := i\<rparr>"] by (simp add: same_open_def)
  show ?thesis
    unfolding resume_adoption_def Let_def
    by (intro opened.call opened.cond opened.opt) (auto intro: wb d w open_transact reset open_view simp: rfail_def)
qed

lemma store_ok_empty:
  assumes "entry_rows (db s) = []" "rev_rows (db s) = []" "meta ''sequence'' s = ''0''"
  shows "store_ok Q s"
  using assms by (simp add: store_ok_def ledger_ok_def space_journal meta_ll_def jll_def number_eval)

text \<open>The set-up either keeps the tables it found or leaves the tables of a new replica.\<close>

lemma all_of_sql: "all_of [sql, sql] r = (True, s) \<Longrightarrow> \<exists>fl. s = r\<lparr>faults := fl\<rparr>"
  unfolding all_of_True all_of.simps(1) by (auto dest!: sql_True)

lemma or_fail_True: "or_fail why op r = (True, s) \<longleftrightarrow> op r = (True, s)"
  by (auto simp: or_fail_def rfail_def split: prod.splits if_splits)

lemma step_or_True: "step_or why r = (True, s) \<Longrightarrow> \<exists>fl. s = r\<lparr>faults := fl\<rparr>"
  using rpoll_eq [of r] by (auto simp: step_or_def rfail_def split: prod.splits if_splits)

lemma create_tables_True:
  assumes "create_tables Q account r = (True, s)"
  shows "entry_rows (db s) = [] \<and> rev_rows (db s) = [] \<and> meta ''sequence'' s = ''0'' \<and> meta ''scope'' s = account
    \<and> meta ''host'' s = [] \<and> meta ''adoption'' s = [] \<and> drive s = drive r \<and> db_open s = db_open r"
proof -
  from assms obtain t0 t1 t2 t3 t4 t5 t6 t7 t8 t9 where t:
    "sql r = (True, t0)" "sql t0 = (True, t1)" "sql t1 = (True, t2)" "sql t2 = (True, t3)" "sql t3 = (True, t4)"
    "sql_write (\<lambda>d. empty_db) t4 = (True, t5)" "set_meta ''scope'' account t5 = (True, t6)"
    "set_meta ''container'' (container_id t6) t6 = (True, t7)" "set_new_replica Q t7 = (True, t8)"
    "set_meta ''sequence'' ''0'' t8 = (True, t9)" "set_meta ''counter'' ''0'' t9 = (True, s)"
    unfolding create_tables_def all_of_True all_of.simps(1) or_fail_True adopted_container_def by blast
  obtain u where u: "db t8 = (db t7)\<lparr>meta_rows := upsert ''replica'' u (meta_rows (db t7))\<rparr>" "drive t8 = drive t7" "db_open t8 = db_open t7"
    using write_reads(4) [OF t(9)] by blast
  have "drive t4 = drive r" "db_open t4 = db_open r" using t(1-5) [THEN sql_True] by auto
  with write_reads(1) [OF t(6)] t(7,8,10,11) [THEN write_reads(2)] u
  show ?thesis by (simp add: empty_db_def meta_def)
qed


lemma set_up_True:
  assumes "set_up Q schema account r = (True, s)"
  shows "drive s = drive r \<and> db_open s = db_open r \<and> (if schema = 0 then entry_rows (db s) = [] \<and> rev_rows (db s) = [] \<and> meta ''sequence'' s = ''0''
      \<and> meta ''scope'' s = account \<and> meta ''host'' s = [] \<and> meta ''adoption'' s = [] else db s = db r)"
proof -
  obtain r1 where r1: "step_or ''journal_transaction_failed'' r = (True, r1)" "prepare_tables Q schema account r1 = (True, s)"
    using assms by (auto simp: set_up_def Let_def split: prod.splits if_splits)
  from r1(2) obtain t0 t1 t2 where t:
    "(if schema = 0 then create_tables Q account else if schema < 2 then all_of [sql, sql] else (\<lambda>r. (True, r))) r1 = (True, t0)"
    "all_of [sql, sql, sql] t0 = (True, t1)" "sql t1 = (True, t2)" "step_or ''journal_initialization_commit_failed'' t2 = (True, s)"
    unfolding prepare_tables_def all_of_True all_of.simps(1) or_fail_True by blast
  obtain a b where "sql t0 = (True, a)" "sql a = (True, b)" "sql b = (True, t1)"
    using t(2) unfolding all_of_True all_of.simps(1) by blast
  then have "db t1 = db t0 \<and> drive t1 = drive t0 \<and> db_open t1 = db_open t0" by (auto dest!: sql_True)
  then have s: "db s = db t0" "drive s = drive t0" "db_open s = db_open t0" using sql_True [OF t(3)] step_or_True [OF t(4)] by auto
  have d1: "db r1 = db r" "drive r1 = drive r" "db_open r1 = db_open r" using step_or_True [OF r1(1)] by auto
  show ?thesis
  proof (cases "schema = 0")
    case True
    with t(1) have "create_tables Q account r1 = (True, t0)" by simp
    from create_tables_True [OF this] s d1 True show ?thesis by (simp add: meta_def)
  next
    case False
    with t(1) have "db t0 = db r1 \<and> drive t0 = drive r1 \<and> db_open t0 = db_open r1"
      by (auto simp del: all_of.simps(2) split: if_splits dest!: all_of_sql)
    with False s d1 show ?thesis by simp
  qed
qed

lemma extends_save_all: "extends Q r (snd (save_all Q ws r))"
proof (induction ws arbitrary: r)
  case (Cons w ws)
  show ?case unfolding save_all.simps Let_def by (intro ext.call ext.cond) (auto intro: Cons)
qed simp

lemma migrate_True:
  assumes "migrate Q r = (True, s)" "store_ok Q r"
  shows "store_ok Q s \<and> meta ''scope'' s = meta ''scope'' r \<and> rid s = rid r \<and> meta ''replica'' s = meta ''replica'' r
    \<and> db_open s = db_open r \<and> scope s = scope r"
proof -
  let ?f = "\<lambda>r. if meta ''host'' r = [] then save_all Q (sort_key rseq (map snd (entry_rows (db r)))) r
                   else sql_write (\<lambda>d. d\<lparr>peer_rows := map (\<lambda>(p, x). (p, x\<lparr>pulled := 0, pushed := 0\<rparr>)) (peer_rows d)\<rparr>) r"
  obtain r1 s1 where t: "same_view r r1" "all_of [?f, sql] r1 = (True, s1)" "same_view s1 s"
    using transact_cases(1) [OF assms(1) [unfolded migrate_def]] by blast
  then obtain t1 where t1: "?f r1 = (True, t1)" "sql t1 = (True, s1)" unfolding all_of_True all_of.simps(1) by blast
  have ok: "store_ok Q r1" using view_store_ok [OF t(1)] assms(2) by simp
  have "store_ok Q t1 \<and> meta ''scope'' t1 = meta ''scope'' r1 \<and> rid t1 = rid r1 \<and> meta ''replica'' t1 = meta ''replica'' r1
    \<and> db_open t1 = db_open r1 \<and> scope t1 = scope r1"
  proof (cases "meta ''host'' r1 = []")
    case True
    have "extends Q r1 t1" using extends_save_all [of Q r1] t1(1) True by (metis snd_conv)
    then show ?thesis using ok by (simp add: extends_def same_ids_def)
  next
    case False
    with t1(1) have "sql_write (\<lambda>d. d\<lparr>peer_rows := map (\<lambda>(p, x). (p, x\<lparr>pulled := 0, pushed := 0\<rparr>)) (peer_rows d)\<rparr>) r1 = (True, t1)" by simp
    from sql_write_True [OF this] obtain fl where e: "t1 = r1\<lparr>faults := fl, db := (db r1)\<lparr>peer_rows :=
       map (\<lambda>(p, x). (p, x\<lparr>pulled := 0, pushed := 0\<rparr>)) (peer_rows (db r1))\<rparr>\<rparr>" by blast
    have "store_ok Q t1 = store_ok Q r1" by (rule store_ok_cong) (simp_all add: e meta_def)
    then show ?thesis using ok by (simp add: e meta_def)
  qed
  moreover have "same_view t1 s1" using sql_True [OF t1(2)] by (auto simp: same_view_def)
  with t(3) have "same_view t1 s" by (rule view.trans [rotated])
  ultimately show ?thesis using t(1) view_meta [OF t(1)] view_meta [of t1 s] view_store_ok [of t1 s Q] by (simp add: same_view_def)
qed

lemma opening_True:
  assumes "all_of [open_files, make_dir a, make_dir b, not_redirected, step_or c, step_or d, step_or e,
     open_database tables, step_or g] r = (True, s)"
  shows "db s = tables" "db_open s" "drive s = drive r"
proof -
  from assms obtain t0 t1 t2 t3 t4 t5 t6 t7 where t: "open_files r = (True, t0)" "make_dir a t0 = (True, t1)" "make_dir b t1 = (True, t2)"
    "not_redirected t2 = (True, t3)" "step_or c t3 = (True, t4)" "step_or d t4 = (True, t5)" "step_or e t5 = (True, t6)"
    "open_database tables t6 = (True, t7)" "step_or g t7 = (True, s)"
    unfolding all_of_True all_of.simps(1) by blast
  have "drive t0 = drive r" "drive t1 = drive t0" "drive t2 = drive t1" "drive t3 = drive t2"
    using t(1-4) by (auto simp: open_files_def make_dir_def not_redirected_def on_files_eq file_fail_def rfail_def split: if_splits prod.splits)
  moreover have "drive t6 = drive t3" using t(5-7) [THEN step_or_True] by auto
  moreover have "db t7 = tables \<and> db_open t7 \<and> drive t7 = drive t6"
    using t(8) by (auto simp: open_database_def split: prod.splits if_splits dest!: step_or_True)
  ultimately show "db s = tables" "db_open s" "drive s = drive r" using step_or_True [OF t(9)] by auto
qed


section \<open>Witnesses\<close>

definition claim_env :: env where
  "claim_env = sample_env\<lparr>parse_obj := (\<lambda>s. claim_document zeros ''ns'' ''h'')\<rparr>"

lemma sample_stat:
  assumes "walk (names sample_files) [] (butlast (comps path)) = None" "relative path" "dir_part path \<noteq> []" "relative (dir_part path)"
    "comps (dir_part path) = butlast (comps path)" "map_of (names sample_files) (comps path) = None"
  shows "fs_state Q path sample_files = (Some deleted_state, sample_files)"
proof -
  have "parent_dir path False sample_files = (None, sample_files)"
    using assms(1-5) by (simp add: parent_dir_def open_dir_def intact_def poll_def sample_files_def)
  then show ?thesis using assms(6) by (simp add: fs_state_def sample_poll)
qed

lemma sample_claimed:
  "fst (claim_primary_host claim_env (Some ''ns'') zeros ''h'' sample_files)"
proof -
  have d: "open_dir ''.society-sync'' sample_files = (None, sample_files)" "open_dir '''' sample_files = (None, sample_files)"
    by (simp_all add: open_dir_def intact_def poll_def sample_files_def relative_def utf8_size_def starts_with_def)
  have m: "mkdir ''.society-sync'' sample_files = (True, sample_files)"
    using d by (simp add: mkdir_def sample_poll relative_def utf8_size_def starts_with_def) (simp add: sample_files_def)
  have st: "fs_state claim_env primary_file sample_files = (Some deleted_state, sample_files)"
    unfolding primary_file_def
    by (rule sample_stat) (simp_all add: dir_part_def relative_def utf8_size_def starts_with_def, simp_all add: sample_files_def)
  have p: "plain_file primary_file sample_files = None" "plain_file mirror_file sample_files = None"
    by (simp_all add: plain_file_def primary_file_def mirror_file_def sample_files_def)
  have s: "fst (save_file primary_file (json_bytes claim_env (claim_document zeros ''ns'' ''h'')) sample_files)"
    by (simp add: save_file_def primary_file_def sample_poll sys_create_def Let_def) (simp add: sample_files_def poll_def)
  show ?thesis
    by (simp add: claim_primary_host_def Let_def sample_poll m st s primary_host_def stored_binding_def p hex_zeros deleted_state_def)
qed

theorem claim_exclusive_witness:
  "\<exists>g. primary_host claim_env (Some ''ns'') zeros g = ''h'' \<and> claim_primary_host claim_env (Some ''ns'') zeros ''k'' g = (False, g)"
proof -
  obtain g where "claim_primary_host claim_env (Some ''ns'') zeros ''h'' sample_files = (True, g)"
    using sample_claimed by (cases "claim_primary_host claim_env (Some ''ns'') zeros ''h'' sample_files") simp
  from claim_exclusive [OF this, of "''k''"] show ?thesis by (auto simp: claim_env_def json_bytes_def)
qed

theorem adoption_atomic_witness:
  "\<exists>q. file_at (files (snd (resume_adoption sample_env
      (sample_replica\<lparr>db := sample_db\<lparr>meta_rows := [(''adoption'', ''detaching'')], plan_rows := [(''Notes/a'', ''.society-sync/detached/u/Notes/a'')]\<rparr>\<rparr>)))) q 5"
proof -
  let ?r = "sample_replica\<lparr>db := sample_db\<lparr>meta_rows := [(''adoption'', ''detaching'')], plan_rows := [(''Notes/a'', ''.society-sync/detached/u/Notes/a'')]\<rparr>\<rparr>"
  have f: "files ?r = sample_files" by (simp add: sample_replica_def)
  have "safe_path [''Notes'', ''a'']" "file_at (files ?r) [''Notes'', ''a''] 5" "content (files ?r) 5 \<noteq> []"
    by (simp_all only: f) (simp_all add: safe_path_def starts_with_def file_at_def sample_files_def content_def)
  moreover have "meta ''adoption'' ?r = ''detaching''" by (simp add: meta_def)
  moreover have "ino_bound (files ?r)" by (simp only: f sample_ino_bound)
  ultimately show ?thesis using adoption_atomic [OF prod.collapse [symmetric]] by blast
qed

theorem bind_exclusive_witness:
  "\<exists>q. file_at (files (snd (bind_host sample_env ''h'' ''r'' ''c'' True sample_replica))) q 5"
proof -
  have f: "files sample_replica = sample_files" by (simp add: sample_replica_def)
  have "safe_path [''Notes'', ''a'']" "file_at (files sample_replica) [''Notes'', ''a''] 5" "content (files sample_replica) 5 \<noteq> []"
    by (simp_all only: f) (simp_all add: safe_path_def starts_with_def file_at_def sample_files_def content_def)
  then show ?thesis using bind_exclusive [OF prod.collapse [symmetric]] sample_ino_bound f by metis
qed

definition sample_medium :: medium where
  "sample_medium = \<lparr>mfilesystem = ''ext4'', mdrive = Some ''ns'', mschema = 3,
     mstored = sample_db\<lparr>meta_rows := [(''sequence'', ''0''), (''counter'', ''0''), (''scope'', zeros), (''container'', ''ns''), (''replica'', ''p'')]\<rparr>\<rparr>"


end
