(* ===== verification/Drive.thy ===== *)
theory Drive
  imports Serve
begin

text \<open>
  The requests of a remote file browser and the object placement of \<open>Replica\<close>
  (\<open>src/src/Sync/Replica.cpp\<close>): \<open>driveRequest\<close> serves the catalog, directories, file information,
  bytes and new files of the authority; \<open>placeObject\<close> and \<open>restoreObject\<close> exchange the content of a file
  with an object provider; \<open>publishStorageMap\<close>, \<open>requestedPaths\<close> and \<open>completeRequests\<close> serve the
  storage map of the container package. \<open>Presentation::prepare\<close> is a parameter: a function on the file system.
  Opening the container once more and taking a lease may fail, which consumes a fault.
\<close>

section \<open>Replies\<close>

definition drive_success :: "jobj \<Rightarrow> replica \<Rightarrow> jobj \<times> replica" where
  "drive_success reply r = (oput ''container'' (JStr (container_id r)) (oput ''ok'' (JBool True) reply), r)"

definition drive_sections :: "env \<Rightarrow> json" where
  "drive_sections Q = JArr (map (\<lambda>(key, name). JObj (obj [(''path'', JStr key), (''key'', JStr key), (''name'', JStr name),
     (''kind'', JStr ''directory''), (''size'', JStr ''0'')])) (store_sections Q))"

definition inspectable :: json where
  "inspectable = JObj (obj [(''provider'', JStr ''iiFileProvider''), (''action'', JStr ''drive.inspect''), (''schema'', JNum 1)])"

definition drive_metadata :: "string \<Rightarrow> fstate \<Rightarrow> jobj" where
  "drive_metadata key st =
     (let e = obj [(''path'', JStr key), (''name'', JStr (section_last key)), (''kind'', JStr (fkind st)),
                   (''size'', jnumstr (fsize st)), (''version'', JStr (fstamp st))] in
      if fkind st = ''file'' then oput ''information'' inspectable e else e)"

definition control_path :: "env \<Rightarrow> string \<Rightarrow> bool" where
  "control_path Q path \<longleftrightarrow> list_ex (control_file Q) (qsplit (CHR ''/'') path)"

definition drive_describe :: "env \<Rightarrow> replica \<Rightarrow> jobj \<times> replica" where
  "drive_describe Q r = drive_success (obj [(''driveProtocol'', JNum 1), (''sections'', drive_sections Q),
     (''chunkBytes'', jnumstr chunk_bytes), (''fileInformationSchema'', JNum 1),
     (''operations'', JArr (map JStr [''catalog'', ''list'', ''stat'', ''inspect'', ''read'', ''write'', ''mkdir'']))]) r"

section \<open>The catalog\<close>

text \<open>What the catalog shows of a row; the modification time only of a file that is as it was indexed.\<close>

definition catalog_public :: "jobj \<Rightarrow> jobj" where
  "catalog_public e =
     (let v = obj (map (\<lambda>k. (k, oget k e)) [''path'', ''kind'', ''size'', ''version'', ''hash'']) in
      if oget ''kind'' e = JStr ''file'' then oput ''information'' inspectable v else v)"

definition catalog_value :: "env \<Rightarrow> string \<Rightarrow> row \<Rightarrow> replica \<Rightarrow> jobj \<times> replica" where
  "catalog_value Q path w r =
     (case modified_ms Q (physical Q path) of
        None \<Rightarrow> (catalog_public (rdata w), r)
      | Some ms \<Rightarrow>
          (let (st, r) = on_files (fs_state Q (physical Q path)) r in
           (if st \<noteq> None \<and> fstamp (the st) = rstamp w then oput ''modified'' (jnumstr ms) (catalog_public (rdata w))
            else catalog_public (rdata w), r)))"

definition catalogued :: "env \<Rightarrow> string \<times> row \<Rightarrow> bool" where
  "catalogued Q pw \<longleftrightarrow> oget ''kind'' (rdata (snd pw)) \<noteq> JStr ''deleted'' \<and> physical Q (fst pw) \<noteq> [] \<and> \<not> control_path Q (fst pw)"

definition page_bytes :: int where "page_bytes = 240 * 1024"

text \<open>The result is the list of the rows that were taken with their values, and whether there are more.\<close>

fun fill_catalog :: "env \<Rightarrow> (string \<times> row) list \<Rightarrow> nat \<Rightarrow> int \<Rightarrow> replica \<Rightarrow> ((string \<times> jobj) list \<times> bool) \<times> replica" where
  "fill_catalog Q [] count bytes r = (([], False), r)"
| "fill_catalog Q (pw # rows) count bytes r =
     (if \<not> catalogued Q pw then fill_catalog Q rows count bytes r
      else let (value, r) = catalog_value Q (fst pw) (snd pw) r; len = int (length (json_bytes Q value)) in
      if count = 128 \<or> bytes + len > page_bytes then (([], True), r)
      else let ((es, more), r) = fill_catalog Q rows (Suc count) (bytes + len) r in (((fst pw, value) # es, more), r))"

definition catalog_rows :: "string \<Rightarrow> replica \<Rightarrow> (string \<times> row) list" where
  "catalog_rows cursor r = sort_key fst (filter (\<lambda>pw. cursor < fst pw) (entry_rows (db r)))"

definition last_or_empty :: "(string \<times> jobj) list \<Rightarrow> string" where
  "last_or_empty es = (if es = [] then [] else fst (last es))"

definition drive_catalog :: "env \<Rightarrow> jobj \<Rightarrow> replica \<Rightarrow> jobj \<times> replica" where
  "drive_catalog Q request r =
     (let revision = jstr (oget ''sequence'' (ledger_state (journal r))); cursor = jstr (oget ''cursor'' request) in
      if (has_key ''cursor'' request \<and> \<not> is_str (oget ''cursor'' request)) \<or> (cursor \<noteq> [] \<and> physical Q cursor = [])
      then failed ''invalid_drive_cursor'' r
      else if (cursor \<noteq> [] \<or> has_key ''revision'' request) \<and> jstr (oget ''revision'' request) \<noteq> revision
      then failed ''drive_snapshot_changed'' r
      else let ((es, more), r) = fill_catalog Q (catalog_rows cursor r) 0 0 r in
      if more \<and> last_or_empty es = [] then failed ''drive_entry_too_large'' r
      else drive_success (obj [(''entries'', JArr (map (\<lambda>e. JObj (snd e)) es)), (''revision'', JStr revision),
             (''nextCursor'', JStr (if more then last_or_empty es else []))]) r)"

section \<open>File information\<close>

definition drive_inspect :: "env \<Rightarrow> string \<Rightarrow> string \<Rightarrow> fstate \<Rightarrow> jobj \<Rightarrow> replica \<Rightarrow> jobj \<times> replica" where
  "drive_inspect Q path native st request r =
     (let offset = (if has_key ''offset'' request then number (oget ''offset'' request) else Some 0);
          expected = jstr (oget ''version'' request); information_version = jstr (oget ''informationVersion'' request) in
      if fkind st \<noteq> ''file'' then failed (if fkind st = ''deleted'' then ''drive_entry_unavailable'' else ''not_file'') r
      else case offset of
        None \<Rightarrow> failed ''invalid_offset'' r
      | Some offset \<Rightarrow>
          if has_key ''version'' request \<and> (\<not> is_str (oget ''version'' request) \<or> expected \<noteq> fstamp st)
          then failed ''drive_file_changed'' r
          else if offset \<noteq> 0 \<and> (expected = [] \<or> \<not> hex information_version) then failed ''inspection_version_required'' r
          else if has_key ''informationVersion'' request \<and> \<not> hex information_version
          then failed ''invalid_information_version'' r
          else let (ok, r) = rpoll r in
          if \<not> ok then failed ''remote_container_changed'' r
          else if map_of (store_sections Q) (section_first path) = None \<or> CHR ''/'' \<notin> set path then failed ''invalid_drive_path'' r
          else let information = file_information Q (section_first path) (section_rest path) in
          if information = [] then failed ''drive_information_unavailable'' r
          else let (after, r) = on_files (fs_state Q native) r in
          if after = None \<or> fstamp (the after) \<noteq> fstamp st then failed ''drive_file_changed'' r
          else let document = json_bytes Q information; token = digest Q document in
          if information_version \<noteq> [] \<and> token \<noteq> information_version then failed ''drive_information_changed'' r
          else if offset > int (length document) then failed ''invalid_offset'' r
          else let bytes = take (nat chunk_bytes) (drop (nat offset) document) in
          drive_success (obj [(''path'', JStr path), (''kind'', JStr ''file''), (''version'', JStr (fstamp (the after))),
            (''informationVersion'', JStr token), (''format'', JStr ''iiFileProvider.FileInformation''), (''schema'', JNum 1),
            (''offset'', jnumstr offset), (''size'', jnumstr (int (length document))), (''data'', JStr (b64 Q bytes)),
            (''eof'', JBool (offset + int (length bytes) = int (length document)))]) r)"

section \<open>Directories and bytes\<close>

fun fill_list :: "env \<Rightarrow> string \<Rightarrow> string \<Rightarrow> string \<Rightarrow> string list \<Rightarrow> nat \<Rightarrow> int \<Rightarrow> replica \<Rightarrow> ((string \<times> jobj) list \<times> bool) \<times> replica" where
  "fill_list Q path native cursor [] count bytes r = (([], False), r)"
| "fill_list Q path native cursor (name # ns) count bytes r =
     (let key = path @ ''/'' @ name in
      if name \<le> cursor \<or> physical Q key = [] \<or> control_path Q key then fill_list Q path native cursor ns count bytes r
      else let (child, r) = on_files (fs_state Q (native @ ''/'' @ name)) r in
      if child = None \<or> fkind (the child) = ''deleted'' then fill_list Q path native cursor ns count bytes r
      else let value = drive_metadata key (the child); len = int (length (json_bytes Q value)) in
      if count = 128 \<or> bytes + len > page_bytes then (([], True), r)
      else let ((es, more), r) = fill_list Q path native cursor ns (Suc count) (bytes + len) r in (((name, value) # es, more), r))"

definition drive_list :: "env \<Rightarrow> string \<Rightarrow> string \<Rightarrow> fstate \<Rightarrow> jobj \<Rightarrow> replica \<Rightarrow> jobj \<times> replica" where
  "drive_list Q path native st request r =
     (let cursor = jstr (oget ''cursor'' request) in
      if fkind st \<noteq> ''directory'' then failed ''not_directory'' r
      else if (has_key ''cursor'' request \<and> \<not> is_str (oget ''cursor'' request)) \<or> CHR ''/'' \<in> set cursor
              \<or> (cursor \<noteq> [] \<and> physical Q (path @ ''/'' @ cursor) = [])
      then failed ''invalid_drive_cursor'' r
      else if (cursor \<noteq> [] \<or> has_key ''version'' request) \<and> jstr (oget ''version'' request) \<noteq> fstamp st
      then failed ''drive_directory_changed'' r
      else let (ns, r) = on_files (fs_list native) r in
      case ns of
        None \<Rightarrow> file_failed r
      | Some ns \<Rightarrow>
          (let ((es, more), r) = fill_list Q path native cursor ns 0 0 r; (after, r) = on_files (fs_state Q native) r in
           if after = None \<or> fstamp (the after) \<noteq> fstamp st then failed ''drive_directory_changed'' r
           else drive_success (obj [(''entries'', JArr (map (\<lambda>e. JObj (snd e)) es)),
                  (''nextCursor'', JStr (if more then last_or_empty es else [])), (''version'', JStr (fstamp st))]) r))"

definition drive_stat :: "env \<Rightarrow> string \<Rightarrow> fstate \<Rightarrow> jobj \<Rightarrow> replica \<Rightarrow> jobj \<times> replica" where
  "drive_stat Q path st request r =
     (if fkind st = ''deleted'' then failed ''drive_entry_unavailable'' r
      else if has_key ''version'' request \<and> jstr (oget ''version'' request) \<noteq> fstamp st then failed ''drive_file_changed'' r
      else drive_success (drive_metadata path st) r)"

definition drive_read :: "env \<Rightarrow> string \<Rightarrow> string \<Rightarrow> fstate \<Rightarrow> jobj \<Rightarrow> replica \<Rightarrow> jobj \<times> replica" where
  "drive_read Q path native st request r =
     (if fkind st = ''deleted'' then failed ''drive_entry_unavailable'' r
      else if has_key ''version'' request \<and> jstr (oget ''version'' request) \<noteq> fstamp st then failed ''drive_file_changed'' r
      else if fkind st \<noteq> ''file'' then failed ''not_file'' r
      else case number (oget ''offset'' request) of
        None \<Rightarrow> failed ''invalid_offset'' r
      | Some offset \<Rightarrow>
          if offset > fsize st then failed ''invalid_offset'' r
          else let (bytes, r) = on_files (fs_read Q native offset chunk_bytes (fstamp st)) r in
          (case bytes of
             None \<Rightarrow> file_failed r
           | Some b \<Rightarrow> drive_success (oput ''eof'' (JBool (offset + int (length b) = fsize st)) (oput ''offset'' (jnumstr offset)
                        (oput ''data'' (JStr (b64 Q b)) (drive_metadata path st)))) r))"

section \<open>New files\<close>

text \<open>Only complete bytes are published, under a name that is free; the staged name is removed on every path.\<close>

definition drive_publish :: "env \<Rightarrow> string \<Rightarrow> string \<Rightarrow> replica \<Rightarrow> bool \<times> replica" where
  "drive_publish Q native bytes r =
     (let (i, r) = create_uuid Q r; temporary = dir_part native @ ''/.society-write-'' @ i;
          (ok, r) = on_files (fs_append temporary 0 bytes) r;
          (ok, r) = (if ok then on_files (preserve temporary native) r else (False, r));
          (gone, r) = on_files (remove Q temporary) r in
      (ok, r))"

definition drive_data :: "env \<Rightarrow> jobj \<Rightarrow> string option" where
  "drive_data Q request =
     (if \<not> is_str (oget ''data'' request) \<or> int (length (jstr (oget ''data'' request))) > (chunk_bytes + 2) div 3 * 4 then None
      else case unb64 Q (jstr (oget ''data'' request)) of
        None \<Rightarrow> None
      | Some bytes \<Rightarrow> if int (length bytes) > chunk_bytes then None else Some bytes)"

definition drive_indexed :: "env \<Rightarrow> string \<Rightarrow> string \<Rightarrow> replica \<Rightarrow> jobj \<times> replica" where
  "drive_indexed Q path native r =
     (let (indexed, r) = refresh Q path r; (st, r) = on_files (fs_state Q native) r in
      case st of
        None \<Rightarrow> drive_success (obj [(''path'', JStr path), (''indexPending'', JBool True)]) r
      | Some st \<Rightarrow> drive_success (oput ''indexPending'' (JBool (\<not> indexed)) (drive_metadata path st)) r)"

definition drive_create :: "env \<Rightarrow> bool \<Rightarrow> string \<Rightarrow> string \<Rightarrow> fstate \<Rightarrow> jobj \<Rightarrow> replica \<Rightarrow> jobj \<times> replica" where
  "drive_create Q folder path native st request r =
     (if CHR ''/'' \<notin> set path \<or> fkind st \<noteq> ''deleted'' then failed ''drive_entry_exists_or_protected'' r
      else let (directory, r) = on_files (fs_state Q (dir_part native)) r in
      if directory = None \<or> fkind (the directory) \<noteq> ''directory'' then failed ''not_directory'' r
      else if folder
      then (let (ok, r) = on_files (mkdir native) r in if ok then drive_indexed Q path native r else file_failed r)
      else case drive_data Q request of
        None \<Rightarrow> failed ''invalid_drive_data'' r
      | Some bytes \<Rightarrow>
          (let (ok, r) = rpoll r in
           if \<not> ok then failed ''temporary_area_unavailable'' r
           else let (ok, r) = drive_publish Q native bytes r in
           if ok then drive_indexed Q path native r else failed ''drive_write_failed_or_exists'' r))"

section \<open>Dispatch\<close>

definition drive_native :: "env \<Rightarrow> string \<Rightarrow> string" where
  "drive_native Q path = (if CHR ''/'' \<in> set path then physical Q path
     else case map_of (store_sections Q) path of Some name \<Rightarrow> name | None \<Rightarrow> physical Q path)"

definition drive_path :: "env \<Rightarrow> (string \<Rightarrow> fsys \<Rightarrow> fsys) \<Rightarrow> string \<Rightarrow> jobj \<Rightarrow> replica \<Rightarrow> jobj \<times> replica" where
  "drive_path Q prepare action request r =
     (let path = jstr (oget ''path'' request); native = drive_native Q path in
      if has_key ''path'' request \<and> \<not> is_str (oget ''path'' request) then failed ''invalid_drive_path'' r
      else if path = [] \<and> action = ''drive.list''
      then drive_success (obj [(''entries'', drive_sections Q), (''nextCursor'', JStr []), (''version'', JStr (container_id r))]) r
      else if native = [] \<or> control_path Q path then failed ''invalid_drive_path'' r
      else let (st, r) = on_files (fs_state Q native) r in
      if st = None then file_failed r
      else if action = ''drive.inspect'' then drive_inspect Q path native (the st) request r
      else let (st, r) = (if action = ''drive.stat'' \<and> fkind (the st) = ''file''
             then on_files (fs_state Q native) (r\<lparr>files := prepare native (files r)\<rparr>) else (st, r)) in
      if st = None then file_failed r
      else if action = ''drive.list'' then drive_list Q path native (the st) request r
      else if action = ''drive.stat'' then drive_stat Q path (the st) request r
      else if action = ''drive.read'' then drive_read Q path native (the st) request r
      else if action = ''drive.write'' then drive_create Q False path native (the st) request r
      else if action = ''drive.mkdir'' then drive_create Q True path native (the st) request r
      else failed ''unsupported_drive_action'' r)"

definition drive_request :: "env \<Rightarrow> (string \<Rightarrow> fsys \<Rightarrow> fsys) \<Rightarrow> jobj \<Rightarrow> replica \<Rightarrow> jobj \<times> replica" where
  "drive_request Q prepare request r =
     (let (ok, r) = lock Q r; action = jstr (oget ''action'' request) in
      if \<not> ok then failed [] r
      else if meta ''host'' r \<noteq> [] then failed ''mirror_cannot_be_primary_host'' r
      else if jstr (oget ''container'' request) \<noteq> container_id r \<or> \<not> drive_ready Q then failed ''remote_container_changed'' r
      else if action = ''drive.describe'' then drive_describe Q r
      else if action = ''drive.catalog'' then drive_catalog Q request r
      else drive_path Q prepare action request r)"

section \<open>No request loses anything\<close>

lemma qsplit_glue: "qsplit c (s @ c # t) = qsplit c s @ qsplit c t"
proof (induction s)
  case (Cons x s)
  obtain p ps where "qsplit c s = p # ps" by (cases "qsplit c s") auto
  with Cons show ?case by auto
qed simp

lemma comps_dir_part: "tl (comps p) \<noteq> [] \<Longrightarrow> comps (dir_part p) = butlast (comps p)"
proof -
  assume "tl (comps p) \<noteq> []"
  then have "butlast (comps p) \<noteq> []" by (cases "comps p") auto
  then show ?thesis unfolding dir_part_def
    by (rule qsplit_qjoin) (meson in_set_butlastD qsplit_parts)
qed

lemma comps_sibling: "tl (comps p) \<noteq> [] \<Longrightarrow> comps (dir_part p @ CHR ''/'' # n) = butlast (comps p) @ comps n"
  using qsplit_glue [of "CHR ''/''" "dir_part p" n] comps_dir_part [of p] by simp

lemma keeps_remove_sibling:
  assumes "sections_ok Q" "physical Q key \<noteq> []"
  shows "keeps f (snd (remove Q (dir_part (physical Q key) @ CHR ''/'' # n) f))"
proof (rule keeps_remove)
  obtain s tail where s: "comps (physical Q key) = s # tail" "tail \<noteq> []" "s \<noteq> ''.society-sync''"
    using physical_comps [OF assms] by blast
  then have c: "comps (dir_part (physical Q key) @ CHR ''/'' # n) = s # butlast tail @ comps n"
    using comps_sibling [of "physical Q key" n] by simp
  moreover have "comps n \<noteq> []" by simp
  ultimately show "sweepable (comps (dir_part (physical Q key) @ CHR ''/'' # n))"
    using s(3) by (cases "butlast tail"; cases "comps n") (auto simp: sweepable_def)
  assume "starts_with ''.society-sync/'' (dir_part (physical Q key) @ CHR ''/'' # n)"
  then obtain t where "dir_part (physical Q key) @ CHR ''/'' # n = ''.society-sync/'' @ t" by (auto simp: starts_with_iff)
  then have "hd (comps (dir_part (physical Q key) @ CHR ''/'' # n)) = ''.society-sync''"
    by (simp only:) (simp add: qsplit_append)
  with c s(3) show "staging (comps (dir_part (physical Q key) @ CHR ''/'' # n))" by simp
qed

lemma extends_success [simp]: "extends Q x (snd (drive_success o1 r)) = extends Q x r"
  by (simp add: drive_success_def)

lemma extends_uuid: "extends Q r (snd (create_uuid Q r))"
  unfolding create_uuid_def snd_conv by (rule extends_new_files) simp

lemma extends_catalog_value: "extends Q r (snd (catalog_value Q p w r))"
  unfolding catalog_value_def Let_def by (intro ext.opt ext.call) (auto intro!: extends_op keeps_grow)

lemma extends_fill_catalog: "extends Q r (snd (fill_catalog Q rows n b r))"
proof (induction rows arbitrary: n b r)
  case (Cons pw rows)
  show ?case unfolding fill_catalog.simps Let_def
    by (intro ext.call2 ext.call ext.cond) (auto intro: Cons extends_catalog_value)
qed simp

lemma extends_fill_list: "extends Q r (snd (fill_list Q p nt c ns n b r))"
proof (induction ns arbitrary: n b r)
  case (Cons m ns)
  show ?case unfolding fill_list.simps Let_def
    by (intro ext.call2 ext.call ext.cond) (auto intro!: Cons extends_op keeps_grow)
qed simp

lemmas drive_steps = extends_op keeps_grow extends_fill_catalog extends_fill_list extends_uuid

lemma extends_inspect: "extends Q r (snd (drive_inspect Q p nt st req r))"
  unfolding drive_inspect_def Let_def
  by (intro ext.cond ext.opt ext.call) (auto intro!: drive_steps)

lemma extends_list: "extends Q r (snd (drive_list Q p nt st req r))"
  unfolding drive_list_def Let_def
  by (intro ext.cond ext.opt ext.call2 ext.call) (auto intro!: drive_steps ext.call)

lemma extends_read: "extends Q r (snd (drive_read Q p nt st req r))"
  unfolding drive_read_def Let_def
  by (intro ext.cond ext.opt ext.call) (auto intro!: drive_steps)

lemma extends_publish:
  assumes "sections_ok Q" "physical Q key \<noteq> []"
  shows "extends Q r (snd (drive_publish Q (physical Q key) bytes r))"
  unfolding drive_publish_def Let_def
  by (intro ext.cond ext.call) (auto intro!: drive_steps keeps_remove_sibling [OF assms] split: if_splits)

lemma extends_indexed: "extends Q r (snd (drive_indexed Q p nt r))"
  unfolding drive_indexed_def Let_def
  by (intro ext.opt ext.call) (auto intro!: drive_steps extends_refresh)

lemma extends_create:
  assumes "sections_ok Q" "physical Q key \<noteq> []"
  shows "extends Q r (snd (drive_create Q folder p (physical Q key) st req r))"
  unfolding drive_create_def Let_def
  by (intro ext.cond ext.opt ext.call) (auto intro!: drive_steps extends_publish [OF assms] extends_indexed)

lemma extends_catalog: "extends Q r (snd (drive_catalog Q req r))"
  unfolding drive_catalog_def Let_def
  by (intro ext.cond ext.call2 ext.call) (auto intro!: drive_steps)

lemma drive_native_file: "CHR ''/'' \<in> set path \<Longrightarrow> drive_native Q path = physical Q path"
  by (simp add: drive_native_def)

lemma create_root: "CHR ''/'' \<notin> set path \<Longrightarrow> snd (drive_create Q folder path nt st req r) = r"
  by (simp add: drive_create_def)

lemma extends_created:
  assumes "sections_ok Q" "drive_native Q path \<noteq> []"
  shows "extends Q r (snd (drive_create Q folder path (drive_native Q path) st req r))"
  using extends_create [OF assms(1)] assms(2) create_root by (cases "CHR ''/'' \<in> set path") (auto simp: drive_native_file)

lemma extends_drive_path:
  assumes "sections_ok Q" "\<And>n f. keeps f (prepare n f)"
  shows "extends Q r (snd (drive_path Q prepare action req r))"
  unfolding drive_path_def Let_def
  by (intro ext.cond ext.call)
    (auto intro!: drive_steps extends_list extends_read extends_inspect extends_created [OF assms(1)]
       ext.trans [OF extends_new_files [OF assms(2)] extends_op] simp: drive_stat_def split: if_splits)

lemma extends_drive:
  assumes "sections_ok Q" "\<And>n f. keeps f (prepare n f)"
  shows "extends Q r (snd (drive_request Q prepare req r))"
  unfolding drive_request_def Let_def
  by (intro ext.cond ext.call)
    (auto intro!: extends_lock extends_catalog extends_drive_path [OF assms] simp: drive_describe_def)

section \<open>Pages of the catalog\<close>

definition live :: "env \<Rightarrow> string \<Rightarrow> replica \<Rightarrow> (string \<times> row) list" where
  "live Q cursor r = filter (catalogued Q) (catalog_rows cursor r)"

definition catalog_paths :: "jobj \<Rightarrow> string list" where
  "catalog_paths reply = map (\<lambda>v. jstr (oget ''path'' (jobject v))) (jarray (oget ''entries'' reply))"

lemma live_eq: "live Q c r = filter (\<lambda>pw. c < fst pw) (filter (catalogued Q) (sort_key fst (entry_rows (db r))))"
  by (simp add: live_def catalog_rows_def filter_sort conj_commute)

lemma filter_after:
  assumes "sorted_wrt (<) (map fst (zs @ rest))" "zs \<noteq> []"
  shows "filter (\<lambda>pw. fst (last zs) < (fst pw :: string)) (zs @ rest) = rest"
proof -
  have "filter (\<lambda>pw. fst (last zs) < fst pw) rest = rest"
    using assms by (auto simp: sorted_wrt_append filter_id_conv dest!: last_in_set)
  moreover have "filter (\<lambda>pw. fst (last zs) < fst pw) zs = []"
  proof (rule filter_False, rule ballI)
    fix x assume x: "x \<in> set zs"
    obtain ys z where z: "zs = ys @ [z]" using assms(2) by (cases zs rule: rev_cases) auto
    have "sorted (map fst zs)" using assms(1) by (simp add: sorted_wrt_append strict_sorted_iff)
    with x z have "fst x \<le> fst (last zs)" by (auto simp: sorted_append)
    then show "\<not> fst (last zs) < fst x" by simp
  qed
  ultimately show ?thesis by simp
qed

lemma sorted_live:
  assumes "distinct (map fst (entry_rows (db r)))"
  shows "sorted_wrt (<) (map fst (live Q c r))"
proof -
  have "distinct (map fst (sort_key fst (entry_rows (db r))))"
    using assms by (simp add: distinct_map)
  then have "sorted_wrt (<) (map fst (sort_key fst (entry_rows (db r))))"
    by (simp add: strict_sorted_iff)
  then show ?thesis unfolding live_eq by (simp add: sorted_wrt_map sorted_wrt_filter)
qed

lemma live_next:
  assumes "distinct (map fst (entry_rows (db r)))" "live Q c r = zs @ rest" "zs \<noteq> []"
  shows "live Q (fst (last zs)) r = rest"
proof -
  have "last zs \<in> set (live Q c r)" using assms(2,3) by simp
  then have "c < fst (last zs)" by (simp add: live_eq)
  then have "live Q (fst (last zs)) r = filter (\<lambda>pw. fst (last zs) < fst pw) (live Q c r)"
    unfolding live_eq by (simp add: conj_commute filter_eq_iff) (metis (mono_tags, lifting) order_less_trans)
  with filter_after [of zs rest] sorted_live [OF assms(1), of Q c] assms(2,3) show ?thesis by simp
qed

lemma catalog_value_path: "catalog_value Q p w r = (v, s) \<Longrightarrow> oget ''path'' v = oget ''path'' (rdata w) \<and> same_view r s"
  unfolding catalog_value_def catalog_public_def Let_def
  by (auto simp: oget_obj on_files_eq split: option.splits prod.splits if_splits)

lemma fill_catalog_rows:
  "fill_catalog Q rows n b r = ((es, rem), s) \<Longrightarrow> \<exists>zs rest. filter (catalogued Q) rows = zs @ rest \<and> (rem \<longleftrightarrow> rest \<noteq> [])
     \<and> list_all2 (\<lambda>e z. fst e = fst z \<and> oget ''path'' (snd e) = oget ''path'' (rdata (snd z))) es zs \<and> same_view r s"
proof (induction Q rows n b r arbitrary: es rem s rule: fill_catalog.induct)
  case (2 Q pw rows n b r)
  show ?case
  proof (cases "catalogued Q pw")
    case False
    with 2 show ?thesis by simp
  next
    case True
    obtain v t where v: "catalog_value Q (fst pw) (snd pw) r = (v, t)" by fastforce
    let ?len = "int (length (json_bytes Q v))"
    have view: "oget ''path'' v = oget ''path'' (rdata (snd pw))" "same_view r t" using catalog_value_path [OF v] by auto
    show ?thesis
    proof (cases "n = 128 \<or> b + ?len > page_bytes")
      case stop: True
      with 2(3) True v have "es = [] \<and> rem \<and> s = t" by (simp add: Let_def)
      with True view show ?thesis by (intro exI [of _ "[]"] exI [of _ "pw # filter (catalogued Q) rows"]) auto
    next
      case go: False
      obtain es' rem1 where f: "fill_catalog Q rows (Suc n) (b + ?len) t = ((es', rem1), s)" "es = (fst pw, v) # es'" "rem1 = rem"
        using 2(3) True v go by (auto simp: Let_def split: prod.splits)
      from 2(2) [OF _ v [symmetric] refl refl go] True f obtain zs rest where
        "filter (catalogued Q) rows = zs @ rest" "rem \<longleftrightarrow> rest \<noteq> []"
        "list_all2 (\<lambda>e z. fst e = fst z \<and> oget ''path'' (snd e) = oget ''path'' (rdata (snd z))) es' zs" "same_view t s" by blast
      with True view f(2) show ?thesis
        by (intro exI [of _ "pw # zs"] exI [of _ rest]) (auto intro: view.trans)
    qed
  qed
qed auto

lemma live_path: "store_ok Q r \<Longrightarrow> z \<in> set (live Q c r) \<Longrightarrow> jstr (oget ''path'' (rdata (snd z))) = fst z \<and> fst z \<noteq> []"
  unfolding live_eq by (auto simp: store_ok_def list_all_iff row_fits_def catalogued_def physical_def section_rest_def Let_def)

lemma failed_not_ok: "oget ''ok'' (fst (failed e r)) \<noteq> JBool True"
  by (simp add: failed_def failure_def oget_obj)

text \<open>C13: the pages of the catalog enumerate what the authority shows. From any cursor, a page lists the next entries that
  are not deleted and not private, in the order of their paths; following \<open>nextCursor\<close> at the same revision
  gives every one of them exactly once, every page that is not the last has entries, and reading changes nothing in the index.\<close>

theorem drive_pages:
  assumes "drive_catalog Q request r = (reply, s)" and "oget ''ok'' reply = JBool True" and "store_ok Q r"
  shows "map fst (live Q (jstr (oget ''cursor'' request)) r) = catalog_paths reply
       @ (if oget ''nextCursor'' reply = JStr [] then [] else map fst (live Q (jstr (oget ''nextCursor'' reply)) r))
     \<and> (oget ''nextCursor'' reply = JStr [] \<or> catalog_paths reply \<noteq> []) \<and> db s = db r"
proof -
  let ?c = "jstr (oget ''cursor'' request)"
  obtain es rem t where f: "fill_catalog Q (catalog_rows ?c r) 0 0 r = ((es, rem), t)" by (metis surj_pair)
  have reply: "\<not> (rem \<and> last_or_empty es = [])" "s = t"
    "oget ''entries'' reply = JArr (map (\<lambda>e. JObj (snd e)) es)" "oget ''nextCursor'' reply = JStr (if rem then last_or_empty es else [])"
    using assms(1,2) failed_not_ok f unfolding drive_catalog_def Let_def
    by (auto simp: drive_success_def oget_obj split: if_splits)
  obtain zs rest where z: "live Q ?c r = zs @ rest" "rem \<longleftrightarrow> rest \<noteq> []" "same_view r t"
    "list_all2 (\<lambda>e z. fst e = fst z \<and> oget ''path'' (snd e) = oget ''path'' (rdata (snd z))) es zs"
    using fill_catalog_rows [OF f] unfolding live_def by blast
  have "map (\<lambda>e. jstr (oget ''path'' (snd e))) es = map fst zs \<and> map fst es = map fst zs"
    using z(4) live_path [OF assms(3), of _ ?c] unfolding z(1) by (induction es zs rule: list_all2_induct) auto
  then have paths: "catalog_paths reply = map fst zs" "map fst es = map fst zs"
    using reply(3) by (auto simp: catalog_paths_def comp_def)
  have last: "es \<noteq> [] \<Longrightarrow> last_or_empty es = fst (last zs) \<and> zs \<noteq> []"
    using paths(2) by (metis last_map last_or_empty_def map_is_Nil_conv)
  have d: "distinct (map fst (entry_rows (db r)))" using assms(3) by (simp add: store_ok_def)
  show ?thesis
  proof (cases rem)
    case True
    with reply(1) have "es \<noteq> []" by (auto simp: last_or_empty_def)
    with last live_next [OF d z(1)] True reply(1,4) paths z show ?thesis
      unfolding reply(2) by (auto simp: view_db)
  next
    case False
    with reply z paths show ?thesis by (auto simp: view_db)
  qed
qed

end
