(* ===== verification/Provider.thy ===== *)
theory Provider
  imports Drive
begin

text \<open>
  Object providers (\<open>src/src/Sync/ObjectProvider.cpp\<close>) and what \<open>Replica\<close> does with them: bytes named by
  namespace, digest and size are put into a directory or a remote store, and every copy is verified
  against the name. The storage map of the container package is a parameter. While an operation
  of the provider runs, the replica's lock is released: what other processes do meanwhile is the
  parameter \<open>during\<close>.
\<close>

section \<open>Identities\<close>

record identity =
  name_space :: string
  sha :: string
  osize :: int

definition identity_valid :: "env \<Rightarrow> identity \<Rightarrow> bool" where
  "identity_valid Q i \<longleftrightarrow> \<not> uuid_null Q (name_space i) \<and> uuid_text Q (name_space i) = name_space i \<and> hex (sha i) \<and> osize i \<ge> 0"

definition identity_key :: "env \<Rightarrow> identity \<Rightarrow> string" where
  "identity_key Q i = (if identity_valid Q i then ''objects/'' @ name_space i @ ''/'' @ take 2 (sha i) @ ''/'' @ sha i else [])"

definition provider_char :: "char \<Rightarrow> bool" where
  "provider_char c \<longleftrightarrow> (let n = (of_char c :: nat) in (48 \<le> n \<and> n \<le> 57) \<or> (65 \<le> n \<and> n \<le> 90) \<or> (97 \<le> n \<and> n \<le> 122) \<or> n = 95 \<or> n = 45)"

definition provider_name :: "string \<Rightarrow> bool" where
  "provider_name s \<longleftrightarrow> s \<noteq> [] \<and> length s \<le> 64 \<and> list_all provider_char s \<and> s \<noteq> ''local''"

section \<open>Verified copies\<close>

text \<open>A file that is not plain (missing, a link, a directory) has no image. The faults are the answers of the next calls:
  opening both files, the cancellation before each block of one MiB, its write, the last cancellation and the commit.\<close>

definition pull :: "bool list \<Rightarrow> bool \<times> bool list" where
  "pull fl = (case fl of [] \<Rightarrow> (True, []) | b # bs \<Rightarrow> (\<not> b, bs))"

function copy_blocks :: "int \<Rightarrow> string \<Rightarrow> int \<Rightarrow> bool list \<Rightarrow> (string + int) \<times> bool list" where
  "copy_blocks len rest copied fl =
     (if rest = [] then (Inr copied, fl)
      else let (ok, fl) = pull fl in
      if \<not> ok then (Inl ''provider_cancelled'', fl)
      else let bytes = take 1048576 rest; (ok, fl) = pull fl in
      if copied > len - int (length bytes) \<or> \<not> ok then (Inl ''provider_io_failed'', fl)
      else copy_blocks len (drop 1048576 rest) (copied + int (length bytes)) fl)"
  by pat_completeness auto
termination
  by (relation "measure (\<lambda>(len, rest, copied, fl). length rest)") auto

declare copy_blocks.simps [simp del]

definition verified_copy :: "env \<Rightarrow> identity \<Rightarrow> string option \<Rightarrow> bool \<Rightarrow> bool list \<Rightarrow> (string + string) \<times> bool list" where
  "verified_copy Q i source target_redirected fl =
     (case source of
        None \<Rightarrow> (Inl ''invalid_provider_object'', fl)
      | Some bytes \<Rightarrow>
          if \<not> identity_valid Q i \<or> target_redirected \<or> int (length bytes) \<noteq> osize i then (Inl ''invalid_provider_object'', fl)
          else let (ok, fl) = pull fl in
          if \<not> ok then (Inl ''provider_file_unavailable'', fl)
          else (case copy_blocks (osize i) bytes 0 fl of
            (Inl e, fl) \<Rightarrow> (Inl e, fl)
          | (Inr n, fl) \<Rightarrow>
              if n \<noteq> osize i \<or> digest Q bytes \<noteq> sha i then (Inl ''provider_hash_mismatch'', fl)
              else let (ok, fl) = pull fl in
              if \<not> ok then (Inl ''provider_cancelled'', fl)
              else let (ok, fl) = pull fl in
              if \<not> ok then (Inl ''provider_commit_failed'', fl) else (Inr bytes, fl)))"

section \<open>The directory provider\<close>

datatype pnode = PFile string | PDir | PLink

record directory =
  provider_id :: string
  nas :: bool
  root_usable :: bool
  pnodes :: "(string list \<times> pnode) list"
  pfaults :: "bool list"

definition provider_kind :: "directory \<Rightarrow> string" where
  "provider_kind d = (if nas d then ''nas'' else ''local'')"

text \<open>The walk along the parts of the key; with \<open>create\<close> the missing directories are made.\<close>

fun provider_walk :: "bool \<Rightarrow> string list \<Rightarrow> string list \<Rightarrow> directory \<Rightarrow> string option \<times> directory" where
  "provider_walk create pre [] d = (None, d)"
| "provider_walk create pre [p] d = (if map_of (pnodes d) (pre @ [p]) = Some PLink then Some ''provider_path_redirected'' else None, d)"
| "provider_walk create pre (p # ps) d =
     (if map_of (pnodes d) (pre @ [p]) = Some PLink then (Some ''provider_path_redirected'', d)
      else let missing = (map_of (pnodes d) (pre @ [p]) = None \<and> create); (ok, fl) = (if missing then pull (pfaults d) else (True, pfaults d)) in
      if \<not> ok then (Some ''provider_directory_failed'', d\<lparr>pfaults := fl\<rparr>)
      else let d = d\<lparr>pfaults := fl, pnodes := (if missing then upsert (pre @ [p]) PDir (pnodes d) else pnodes d)\<rparr> in
      if map_of (pnodes d) (pre @ [p]) \<noteq> Some PDir then (Some ''provider_object_unavailable'', d)
      else provider_walk create (pre @ [p]) ps d)"

definition provider_path :: "env \<Rightarrow> identity \<Rightarrow> bool \<Rightarrow> directory \<Rightarrow> (string + string list) \<times> directory" where
  "provider_path Q i create d =
     (if \<not> provider_name (provider_id d) \<or> \<not> identity_valid Q i \<or> \<not> root_usable d then (Inl ''provider_root_unavailable'', d)
      else let parts = qsplit (CHR ''/'') (identity_key Q i); (e, d) = provider_walk create [] parts d in
      (case e of Some e \<Rightarrow> Inl e | None \<Rightarrow> Inr parts, d))"

definition directory_put :: "env \<Rightarrow> identity \<Rightarrow> string option \<Rightarrow> directory \<Rightarrow> string option \<times> directory" where
  "directory_put Q i source d =
     (let (target, d) = provider_path Q i True d in
      case target of
        Inl e \<Rightarrow> (Some e, d)
      | Inr p \<Rightarrow>
          (let (copy, fl) = verified_copy Q i source (map_of (pnodes d) p = Some PLink) (pfaults d) in
           case copy of
             Inl e \<Rightarrow> (Some e, d\<lparr>pfaults := fl\<rparr>)
           | Inr bytes \<Rightarrow>
               if map_of (pnodes d) p = Some PDir then (Some ''provider_commit_failed'', d\<lparr>pfaults := fl\<rparr>)
               else (None, d\<lparr>pfaults := fl, pnodes := upsert p (PFile bytes) (pnodes d)\<rparr>)))"

definition image :: "directory \<Rightarrow> string list \<Rightarrow> string option" where
  "image d p = (case map_of (pnodes d) p of Some (PFile bytes) \<Rightarrow> Some bytes | _ \<Rightarrow> None)"

definition directory_get :: "env \<Rightarrow> identity \<Rightarrow> bool \<Rightarrow> directory \<Rightarrow> (string + string) \<times> directory" where
  "directory_get Q i target_redirected d =
     (let (source, d) = provider_path Q i False d in
      case source of
        Inl e \<Rightarrow> (Inl e, d)
      | Inr p \<Rightarrow> (let (copy, fl) = verified_copy Q i (image d p) target_redirected (pfaults d) in (copy, d\<lparr>pfaults := fl\<rparr>)))"

section \<open>The remote provider\<close>

text \<open>The storage bridge copies a file to or from the remote store: two operations on its own state, which may
  do anything; \<open>None\<close> and \<open>Inr\<close> are success. The faults are the lease, the staging files and the cancellation.\<close>

record 's bridge =
  upload :: "string \<Rightarrow> string \<Rightarrow> 's \<Rightarrow> string option \<times> 's"
  download :: "string \<Rightarrow> 's \<Rightarrow> (string + string) \<times> 's"

record 's remote =
  remote_id :: string
  remote_kind :: string
  remote_prefix :: string
  runtime_private :: bool
  store :: 's
  sfaults :: "bool list"

definition remote_name :: "string \<Rightarrow> bool" where
  "remote_name s \<longleftrightarrow> (let name = takeWhile (\<lambda>c. c \<noteq> CHR '':'') s; rest = dropWhile (\<lambda>c. c \<noteq> CHR '':'') s in
     name \<noteq> [] \<and> rest \<noteq> [] \<and> list_all provider_char name \<and> hd name \<noteq> CHR ''-'' \<and> list_all (\<lambda>c. (of_char c :: nat) \<ge> 32) (tl rest))"

definition clean_prefix :: "string \<Rightarrow> string" where
  "clean_prefix s = rev (dropWhile (\<lambda>c. c = CHR ''/'') (rev s))"

definition staged :: "'s remote \<Rightarrow> bool \<times> 's remote" where
  "staged d = (let (ok, fl) = pull (sfaults d) in if \<not> ok then (False, d\<lparr>sfaults := fl\<rparr>)
     else let (ok, fl) = pull fl in (ok, d\<lparr>sfaults := fl\<rparr>))"

definition remote_copy :: "('s \<Rightarrow> (string + string) \<times> 's) \<Rightarrow> 's remote \<Rightarrow> (string + string) \<times> 's remote" where
  "remote_copy run d =
     (if \<not> provider_name (remote_id d) \<or> (remote_kind d \<noteq> ''s3'' \<and> remote_kind d \<noteq> ''nas'') \<or> \<not> remote_name (clean_prefix (remote_prefix d))
      then (Inl ''invalid_remote_provider'', d)
      else let (ok, fl) = pull (sfaults d) in
      if \<not> ok then (Inl ''provider_cancelled'', d\<lparr>sfaults := fl\<rparr>)
      else let (answer, s) = run (store d) in (answer, d\<lparr>sfaults := fl, store := s\<rparr>))"

definition remote_object :: "env \<Rightarrow> identity \<Rightarrow> 's remote \<Rightarrow> string" where
  "remote_object Q i d = clean_prefix (remote_prefix d) @ ''/'' @ identity_key Q i"

definition remote_get :: "env \<Rightarrow> 's bridge \<Rightarrow> identity \<Rightarrow> bool \<Rightarrow> 's remote \<Rightarrow> (string + string) \<times> 's remote" where
  "remote_get Q B i target_redirected d =
     (if \<not> identity_valid Q i then (Inl ''invalid_provider_object'', d)
      else if \<not> runtime_private d then (Inl ''private_runtime_directory_required'', d)
      else let (ok, d) = staged d in
      if \<not> ok then (Inl ''provider_staging_unavailable'', d)
      else let (answer, d) = remote_copy (download B (remote_object Q i d)) d in
      case answer of
        Inl e \<Rightarrow> (Inl e, d)
      | Inr bytes \<Rightarrow> (let (copy, fl) = verified_copy Q i (Some bytes) target_redirected (sfaults d) in (copy, d\<lparr>sfaults := fl\<rparr>)))"

definition remote_put :: "env \<Rightarrow> 's bridge \<Rightarrow> identity \<Rightarrow> string option \<Rightarrow> 's remote \<Rightarrow> string option \<times> 's remote" where
  "remote_put Q B i source d =
     (if \<not> runtime_private d then (Some ''private_runtime_directory_required'', d)
      else let (ok, d) = staged d in
      if \<not> ok then (Some ''provider_staging_unavailable'', d)
      else let (frozen, fl) = verified_copy Q i source False (sfaults d); d = d\<lparr>sfaults := fl\<rparr> in
      case frozen of
        Inl e \<Rightarrow> (Some e, d)
      | Inr bytes \<Rightarrow>
          (let run = (\<lambda>s. let (e, s) = upload B (remote_object Q i d) bytes s in (case e of None \<Rightarrow> Inr bytes | Some e \<Rightarrow> Inl e, s));
               (answer, d) = remote_copy run d in
           case answer of
             Inl e \<Rightarrow> (Some e, d)
           | Inr bytes \<Rightarrow> (let (back, d) = remote_get Q B i False d in (case back of Inl e \<Rightarrow> Some e | Inr bytes \<Rightarrow> None, d))))"

section \<open>What a provider promises\<close>

text \<open>The bytes named by an identity.\<close>

definition names_bytes :: "env \<Rightarrow> identity \<Rightarrow> string \<Rightarrow> bool" where
  "names_bytes Q i bytes \<longleftrightarrow> digest Q bytes = sha i \<and> int (length bytes) = osize i \<and> identity_valid Q i"

locale object_store =
  fixes Q :: env
    and put :: "identity \<Rightarrow> string option \<Rightarrow> 's \<Rightarrow> string option \<times> 's"
    and get :: "identity \<Rightarrow> bool \<Rightarrow> 's \<Rightarrow> (string + string) \<times> 's"
  assumes put_names: "put i source s = (None, s1) \<Longrightarrow> \<exists>bytes. source = Some bytes \<and> names_bytes Q i bytes"
    and get_names: "get i linked s = (Inr bytes, s1) \<Longrightarrow> names_bytes Q i bytes"
begin

lemma returns:
  assumes "put i (Some bytes) s = (None, s1)" "get i linked s2 = (Inr c, s3)"
    "digest Q c = digest Q bytes \<Longrightarrow> c = bytes"
  shows "c = bytes"
proof -
  have "names_bytes Q i bytes" using put_names [OF assms(1)] by auto
  moreover have "names_bytes Q i c" using get_names [OF assms(2)] .
  ultimately show ?thesis using assms(3) by (simp add: names_bytes_def)
qed

lemma same_object:
  assumes "get i linked s = (Inr b, s1)" "get i linked2 s2 = (Inr c, s3)" "digest Q b = digest Q c \<Longrightarrow> b = c"
  shows "b = c"
  using get_names [OF assms(1)] get_names [OF assms(2)] assms(3) by (simp add: names_bytes_def)

end

lemma copy_length: "copy_blocks len rest n fl = (Inr m, fl1) \<Longrightarrow> m = n + int (length rest)"
proof (induction len rest n fl rule: copy_blocks.induct)
  case (1 len rest n fl)
  show ?case
  proof (cases "rest = []")
    case False
    obtain fa where a: "pull fl = (True, fa)" using 1(2) False by (subst (asm) copy_blocks.simps) (auto simp: Let_def split: prod.splits if_splits)
    obtain fb where b: "pull fa = (True, fb)" "\<not> n > len - int (length (take 1048576 rest))"
      using 1(2) False a by (subst (asm) copy_blocks.simps) (auto simp: Let_def split: prod.splits if_splits)
    have "copy_blocks len (drop 1048576 rest) (n + int (length (take 1048576 rest))) fb = (Inr m, fl1)"
      using 1(2) False a b by (subst (asm) copy_blocks.simps) (simp add: Let_def)
    with 1(1) False a b have "m = n + int (length (take 1048576 rest)) + int (length (drop 1048576 rest))" by simp
    then show ?thesis by simp
  qed (use 1(2) in \<open>simp add: copy_blocks.simps\<close>)
qed

lemma verified_names: "verified_copy Q i source t fl = (Inr bytes, fl1) \<Longrightarrow> source = Some bytes \<and> names_bytes Q i bytes"
  unfolding verified_copy_def Let_def names_bytes_def by (auto split: option.splits if_splits prod.splits sum.splits)

lemma directory_put_names: "directory_put Q i source d = (None, d1) \<Longrightarrow> \<exists>bytes. source = Some bytes \<and> names_bytes Q i bytes"
  unfolding directory_put_def Let_def by (auto dest!: verified_names split: prod.splits sum.splits if_splits)

lemma directory_get_names: "directory_get Q i t d = (Inr bytes, d1) \<Longrightarrow> names_bytes Q i bytes"
  unfolding directory_get_def Let_def by (auto dest!: verified_names split: prod.splits sum.splits)

lemma remote_get_names: "remote_get Q B i t d = (Inr bytes, d1) \<Longrightarrow> names_bytes Q i bytes"
  unfolding remote_get_def Let_def by (auto dest!: verified_names split: prod.splits sum.splits if_splits)

lemma remote_put_names: "remote_put Q B i source d = (None, d1) \<Longrightarrow> \<exists>bytes. source = Some bytes \<and> names_bytes Q i bytes"
  unfolding remote_put_def Let_def by (auto dest!: verified_names split: prod.splits sum.splits if_splits)

interpretation disk: object_store Q "directory_put Q" "directory_get Q" for Q
  by unfold_locales (fact directory_put_names directory_get_names)+

interpretation cloud: object_store Q "remote_put Q B" "remote_get Q B" for Q B
  by unfold_locales (fact remote_put_names remote_get_names)+

section \<open>Put, then get\<close>

text \<open>The directories along a key.\<close>

definition passable :: "string list \<Rightarrow> string list \<Rightarrow> directory \<Rightarrow> bool" where
  "passable pre ps d \<longleftrightarrow> (\<forall>k. 0 < k \<and> k < length ps \<longrightarrow> map_of (pnodes d) (pre @ take k ps) = Some PDir) \<and> map_of (pnodes d) (pre @ ps) \<noteq> Some PLink"

lemma walk_step:
  assumes "provider_walk c pre (p # q # ps) d = (e, d1)"
  obtains ns fl where "d1 = d\<lparr>pfaults := fl, pnodes := ns\<rparr>" "e \<noteq> None" "\<And>x n. map_of (pnodes d) x = Some n \<Longrightarrow> map_of ns x = Some n"
  | ns fl where "\<And>x n. map_of (pnodes d) x = Some n \<Longrightarrow> map_of ns x = Some n" "map_of ns (pre @ [p]) = Some PDir"
      "provider_walk c (pre @ [p]) (q # ps) (d\<lparr>pfaults := fl, pnodes := ns\<rparr>) = (e, d1)"
proof (cases "map_of (pnodes d) (pre @ [p])")
  case None
  show ?thesis
  proof (cases c)
    case False
    with None assms have "d1 = d\<lparr>pfaults := pfaults d, pnodes := pnodes d\<rparr>" "e \<noteq> None" by (auto simp: Let_def)
    then show ?thesis by (rule that(1)) simp
  next
    case True
    obtain ok fl where fl: "pull (pfaults d) = (ok, fl)" by fastforce
    show ?thesis
    proof (cases ok)
      case False
      with True fl None assms have "d1 = d\<lparr>pfaults := fl, pnodes := pnodes d\<rparr>" "e \<noteq> None" by (auto simp: Let_def)
      then show ?thesis by (rule that(1)) simp
    next
      case ok: True
      show ?thesis
      proof (rule that(2) [of "upsert (pre @ [p]) PDir (pnodes d)" fl])
        show "provider_walk c (pre @ [p]) (q # ps) (d\<lparr>pfaults := fl, pnodes := upsert (pre @ [p]) PDir (pnodes d)\<rparr>) = (e, d1)"
          using True fl None assms ok by (simp add: Let_def)
      qed (use None in auto)
    qed
  qed
next
  case (Some x)
  show ?thesis
  proof (cases "x = PDir")
    case True
    show ?thesis by (rule that(2) [of "pnodes d" "pfaults d"]) (use Some True assms in \<open>simp_all add: Let_def\<close>)
  next
    case False
    with Some assms have "d1 = d\<lparr>pfaults := pfaults d, pnodes := pnodes d\<rparr>" "e \<noteq> None" by (auto simp: Let_def split: if_splits)
    then show ?thesis by (rule that(1)) simp
  qed
qed

lemma walk_grows:
  "provider_walk c pre ps d = (e, d1) \<Longrightarrow> provider_id d1 = provider_id d \<and> root_usable d1 = root_usable d
     \<and> (map_of (pnodes d) x = Some n \<longrightarrow> map_of (pnodes d1) x = Some n)"
proof (induction ps arbitrary: pre d)
  case (Cons p ps)
  show ?case
  proof (cases ps)
    case (Cons q qs)
    with Cons.prems have "provider_walk c pre (p # q # qs) d = (e, d1)" by simp
    then show ?thesis
    proof (cases rule: walk_step)
      case (2 ns fl)
      with Cons.IH [of "pre @ [p]" "d\<lparr>pfaults := fl, pnodes := ns\<rparr>"] Cons show ?thesis by auto
    qed auto
  qed (use Cons.prems in auto)
qed simp

lemma passable_step:
  "map_of (pnodes d) (pre @ [p]) = Some PDir \<Longrightarrow> passable (pre @ [p]) (q # ps) d \<Longrightarrow> passable pre (p # q # ps) d"
  unfolding passable_def
proof safe
  fix k assume a: "map_of (pnodes d) (pre @ [p]) = Some PDir" "0 < k" "k < length (p # q # ps)"
    "\<forall>k. 0 < k \<and> k < length (q # ps) \<longrightarrow> map_of (pnodes d) ((pre @ [p]) @ take k (q # ps)) = Some PDir"
  obtain j where "k = Suc j" using a(2) by (cases k) auto
  with a show "map_of (pnodes d) (pre @ take k (p # q # ps)) = Some PDir" by (cases j) auto
qed auto

lemma walk_passable: "provider_walk c pre ps d = (None, d1) \<Longrightarrow> ps \<noteq> [] \<Longrightarrow> passable pre ps d1"
proof (induction ps arbitrary: pre d)
  case (Cons p ps)
  show ?case
  proof (cases ps)
    case Nil
    with Cons.prems show ?thesis by (auto simp: passable_def split: if_splits)
  next
    case (Cons q qs)
    with Cons.prems have "provider_walk c pre (p # q # qs) d = (None, d1)" by simp
    then show ?thesis
    proof (cases rule: walk_step)
      case (2 ns fl)
      have "passable (pre @ [p]) (q # qs) d1" using Cons.IH [of "pre @ [p]"] 2(3) Cons by simp
      moreover have "map_of (pnodes d1) (pre @ [p]) = Some PDir" using walk_grows [OF 2(3)] 2(2) by simp
      ultimately show ?thesis unfolding Cons by (rule passable_step [rotated])
    qed simp
  qed
qed simp

lemma passable_walk: "passable pre ps d \<Longrightarrow> ps \<noteq> [] \<Longrightarrow> provider_walk False pre ps d = (None, d)"
proof (induction ps arbitrary: pre)
  case (Cons p ps)
  show ?case
  proof (cases ps)
    case (Cons q qs)
    have a: "map_of (pnodes d) (pre @ [p]) = Some PDir" using Cons.prems(1) Cons by (auto simp: passable_def dest!: spec [of _ 1])
    have "passable (pre @ [p]) ps d" using Cons.prems(1) unfolding passable_def
    proof safe
      fix k assume b: "\<forall>k. 0 < k \<and> k < length (p # ps) \<longrightarrow> map_of (pnodes d) (pre @ take k (p # ps)) = Some PDir" "0 < k" "k < length ps"
      then show "map_of (pnodes d) ((pre @ [p]) @ take k ps) = Some PDir" using spec [OF b(1), of "Suc k"] by simp
    qed auto
    from Cons.IH [OF this] a Cons show ?thesis by (simp add: Let_def)
  qed (use Cons.prems in \<open>simp add: passable_def\<close>)
qed simp

lemma copy_quiet: "n + int (length rest) \<le> len \<Longrightarrow> copy_blocks len rest n [] = (Inr (n + int (length rest)), [])"
proof (induction len rest n "[] :: bool list" rule: copy_blocks.induct)
  case (1 len rest n)
  show ?case
  proof (cases "rest = []")
    case False
    have "int (length rest) = int (length (take 1048576 rest)) + int (length (drop 1048576 rest))" by simp
    with 1 False show ?thesis by (subst copy_blocks.simps) (simp add: pull_def Let_def)
  qed (simp add: copy_blocks.simps)
qed

lemma verified_quiet: "names_bytes Q i bytes \<Longrightarrow> verified_copy Q i (Some bytes) False [] = (Inr bytes, [])"
  using copy_quiet [of 0 bytes "osize i"] by (simp add: verified_copy_def names_bytes_def pull_def)

text \<open>C14: what a directory provider has accepted it returns: after a successful \<open>put\<close>, a \<open>get\<close> of the same identity that meets no failure
  returns the same bytes, whatever the directory held before and however many of its directories had to be made.\<close>

theorem provider_roundtrip:
  assumes "directory_put Q i (Some bytes) d = (None, d1)"
  shows "directory_get Q i False (d1\<lparr>pfaults := []\<rparr>) = (Inr bytes, d1\<lparr>pfaults := []\<rparr>)"
proof -
  let ?p = "qsplit (CHR ''/'') (identity_key Q i)"
  have g: "provider_name (provider_id d) \<and> identity_valid Q i \<and> root_usable d"
  proof (rule ccontr)
    assume "\<not> ?thesis"
    then have "provider_path Q i True d = (Inl ''provider_root_unavailable'', d)" by (auto simp: provider_path_def)
    with assms show False by (simp add: directory_put_def)
  qed
  obtain e t where t: "provider_walk True [] ?p d = (e, t)" by fastforce
  have e: "e = None" using assms g t by (cases e) (auto simp: directory_put_def provider_path_def Let_def)
  have n: "names_bytes Q i bytes" using directory_put_names [OF assms] by auto
  have d1: "pnodes d1 = upsert ?p (PFile bytes) (pnodes t) \<and> provider_id d1 = provider_id t \<and> root_usable d1 = root_usable t \<and> map_of (pnodes t) ?p \<noteq> Some PDir"
    using assms g t e by (auto simp: directory_put_def provider_path_def Let_def dest!: verified_names split: prod.splits sum.splits if_splits)
  have id: "provider_id t = provider_id d \<and> root_usable t = root_usable d" using walk_grows [OF t] by blast
  have "passable [] ?p t" using walk_passable t e by simp
  then have "passable [] ?p (d1\<lparr>pfaults := []\<rparr>)" using d1 by (auto simp: passable_def)
  from passable_walk [OF this] have w: "provider_walk False [] ?p (d1\<lparr>pfaults := []\<rparr>) = (None, d1\<lparr>pfaults := []\<rparr>)" by simp
  have "image (d1\<lparr>pfaults := []\<rparr>) ?p = Some bytes" using d1 by (simp add: image_def)
  with w verified_quiet [OF n] g id d1 show ?thesis by (simp add: directory_get_def provider_path_def Let_def)
qed

section \<open>Placing and restoring content\<close>

text \<open>A provider as the replica sees it, and the states of the replica and of the provider.\<close>

record 's provider =
  place_id :: string
  place_kind :: string
  put_object :: "identity \<Rightarrow> string option \<Rightarrow> 's \<Rightarrow> string option \<times> 's"
  get_object :: "identity \<Rightarrow> bool \<Rightarrow> 's \<Rightarrow> (string + string) \<times> 's"

definition file_image :: "string \<Rightarrow> fsys \<Rightarrow> string option" where
  "file_image path f = (case map_of (names f) (comps path) of Some (File i) \<Rightarrow> Some (content f i) | _ \<Rightarrow> None)"

definition object_identity :: "jobj \<Rightarrow> replica \<Rightarrow> identity" where
  "object_identity e r = \<lparr>name_space = container_id r, sha = jstr (oget ''hash'' e), osize = jll (oget ''size'' e)\<rparr>"

definition place_object :: "env \<Rightarrow> 's provider \<Rightarrow> (replica \<Rightarrow> replica) \<Rightarrow> string \<Rightarrow> replica \<Rightarrow> 's \<Rightarrow> bool \<times> replica \<times> 's" where
  "place_object Q P during path r s =
     (let (ok, r) = lock Q r in
      if \<not> ok then (False, r, s)
      else if meta ''host'' r \<noteq> [] then (False, snd (rfail ''provider_requires_authority'' r), s)
      else let (ok, r) = (if physical Q path = [] then (False, r) else refresh Q path r) in
      if \<not> ok then (False, snd (rfail ''invalid_provider_object'' r), s)
      else let e = object path (journal r) in
      if oget ''kind'' e \<noteq> JStr ''file'' then (False, snd (rfail ''provider_requires_file'' r), s)
      else let identity = object_identity e r; r = during r; (error, s) = put_object P identity (file_image (physical Q path) (files r)) s in
      case error of
        Some why \<Rightarrow> (False, snd (rfail why r), s)
      | None \<Rightarrow>
          (let (ok, r) = lock Q r in
           if \<not> ok then (False, r, s)
           else let (ok, why, r) = on_journal (locate (jstr (oget ''version'' e))
                    (obj [(''provider'', JStr (place_id P)), (''kind'', JStr (place_kind P)), (''key'', JStr (identity_key Q identity))])) r in
           if ok then (True, r, s) else (False, snd (rfail why r), s)))"

definition restorable :: "env \<Rightarrow> string \<Rightarrow> jobj \<Rightarrow> replica \<Rightarrow> bool \<times> replica" where
  "restorable Q path e r =
     (let (st, r) = on_files (fs_state Q (physical Q path)) r in
      (st \<noteq> None \<and> fkind (the st) = ''deleted'' \<and> oget ''version'' (entry path r) = oget ''version'' e, r))"

text \<open>\<open>FileDevice::remove\<close>.\<close>

definition drop_file :: "string \<Rightarrow> fsys \<Rightarrow> fsys" where
  "drop_file path f = (case map_of (names f) (comps path) of Some (File i) \<Rightarrow> sys_unlink (comps path) f | _ \<Rightarrow> f)"

definition abandon :: "string \<Rightarrow> string \<Rightarrow> replica \<Rightarrow> bool \<times> replica" where
  "abandon temporary why r = (False, r\<lparr>files := drop_file temporary (files r), rerror := why\<rparr>)"

definition provider_part :: "string \<Rightarrow> string" where
  "provider_part i = ''.society-sync/transfers/provider-'' @ i @ ''.part''"

definition restore_object :: "env \<Rightarrow> 's provider \<Rightarrow> (replica \<Rightarrow> replica) \<Rightarrow> string \<Rightarrow> replica \<Rightarrow> 's \<Rightarrow> bool \<times> replica \<times> 's" where
  "restore_object Q P during path r s =
     (let (ok, r) = lock Q r in
      if \<not> ok then (False, r, s)
      else if meta ''host'' r \<noteq> [] then (False, snd (rfail ''provider_requires_authority'' r), s)
      else let e = object path (journal r);
               (ok, r) = (if physical Q path = [] \<or> oget ''kind'' e \<noteq> JStr ''file'' then (False, r) else restorable Q path e r) in
      if \<not> ok then (False, snd (rfail ''provider_restore_would_overwrite_change'' r), s)
      else let (i, r) = create_uuid Q r; temporary = provider_part i; (ok, r) = rpoll r in
      if \<not> ok then (False, snd (rfail ''temporary_area_unavailable'' r), s)
      else let identity = object_identity e r; r = during r;
               (answer, s) = get_object P identity (map_of (names (files r)) (comps temporary) = Some Special) s in
      case answer of
        Inl why \<Rightarrow> (let (ok, r) = abandon temporary why r in (ok, r, s))
      | Inr bytes \<Rightarrow>
          (let (ok, r) = on_files (save_file temporary bytes) r in
           if \<not> ok then (let (ok, r) = abandon temporary ''provider_commit_failed'' r in (ok, r, s))
           else let (ok, r) = lock Q r; (ok, r) = (if ok then restorable Q path e r else (False, r)) in
           if \<not> ok then (let (ok, r) = abandon temporary ''provider_restore_would_overwrite_change'' r in (ok, r, s))
           else let (ok, r) = on_files (install Q temporary (physical Q path)) r;
                    (st, r) = (if ok then on_files (fs_state Q (physical Q path)) r else (None, r)) in
           (case st of
              None \<Rightarrow> (let (ok, r) = abandon temporary (ferror (files r)) r in (ok, r, s))
            | Some st \<Rightarrow> (let (ok, r) = save Q e (fstamp st) r in (ok, r, s)))))"

section \<open>The storage map\<close>

text \<open>The map of the container package, with its own state: it publishes a list of objects, and keeps the requests
  of other programs until they are finished with an error or none. The versions are those of the database connection.\<close>

record 's storage_map =
  publish_objects :: "jobj list \<Rightarrow> 's \<Rightarrow> bool \<times> 's"
  pending_requests :: "'s \<Rightarrow> jobj list"
  finish_request :: "string \<Rightarrow> string \<Rightarrow> 's \<Rightarrow> 's"

record 's published =
  map_state :: 's
  map_file :: bool
  data_version :: int
  total_changes :: int
  published_version :: int
  published_changes :: int

definition map_current :: "'s published \<Rightarrow> bool" where
  "map_current m \<longleftrightarrow> published_version m = data_version m \<and> published_changes m = total_changes m \<and> map_file m"

definition map_objects :: "replica \<Rightarrow> jobj list" where
  "map_objects r = map (\<lambda>pw. oput ''resident'' (JBool (oget ''kind'' (rdata (snd pw)) = JStr ''file'' \<and> rstamp (snd pw) \<noteq> ''remote'')) (rdata (snd pw)))
     (sort_key fst (entry_rows (db r)))"

definition publish_storage_map :: "env \<Rightarrow> 's storage_map \<Rightarrow> replica \<Rightarrow> 's published \<Rightarrow> bool \<times> replica \<times> 's published" where
  "publish_storage_map Q S r m =
     (let (ok, r) = ready Q r in
      if \<not> ok then (False, r, m)
      else if map_current m then (True, r, m)
      else let (ok, r) = lock Q r in
      if \<not> ok then (False, r, m)
      else if map_current m then (True, r, m)
      else let (ok, s) = publish_objects S (map_objects r) (map_state m) in
      if \<not> ok then (False, snd (rfail ''storage_map'' r), m\<lparr>map_state := s\<rparr>)
      else (True, r, m\<lparr>map_state := s, map_file := True, published_version := data_version m, published_changes := total_changes m\<rparr>))"

definition wanted_object :: "replica \<Rightarrow> jobj \<Rightarrow> bool" where
  "wanted_object r wanted =
     (let path = jstr (oget ''path'' wanted); current = object_metadata path r;
          current = (if current = [] then entry_record path r else current) in
      oget ''kind'' current = JStr ''file'' \<and> oget ''version'' current = oget ''version'' wanted)"

definition wanted_objects :: "jobj \<Rightarrow> jobj list" where
  "wanted_objects request = map jobject (jarray (oget ''objects'' request))"

fun requested_from :: "'s storage_map \<Rightarrow> replica \<Rightarrow> jobj list \<Rightarrow> 's \<Rightarrow> string list \<times> 's" where
  "requested_from S r [] s = ([], s)"
| "requested_from S r (request # requests) s =
     (if list_all (wanted_object r) (wanted_objects request)
      then (let (paths, s) = requested_from S r requests s in
            (map (\<lambda>e. jstr (oget ''path'' e)) (wanted_objects request) @ paths, s))
      else requested_from S r requests (finish_request S (jstr (oget ''id'' request)) ''object_changed_select_again'' s))"

text \<open>\<open>QStringList::removeDuplicates\<close> keeps the first of equal texts.\<close>

definition first_of_each :: "string list \<Rightarrow> string list" where
  "first_of_each xs = rev (remdups (rev xs))"

definition requested_paths :: "'s storage_map \<Rightarrow> replica \<Rightarrow> 's \<Rightarrow> string list \<times> 's" where
  "requested_paths S r s =
     (if \<not> is_open r then ([], s)
      else let (paths, s) = requested_from S r (pending_requests S s) s in (first_of_each paths, s))"

fun all_resident :: "env \<Rightarrow> string list \<Rightarrow> replica \<Rightarrow> bool \<times> replica" where
  "all_resident Q [] r = (True, r)"
| "all_resident Q (p # ps) r = (let (here, r) = resident Q p r; (rest, r) = all_resident Q ps r in (here \<and> rest, r))"

fun complete_from :: "env \<Rightarrow> 's storage_map \<Rightarrow> jobj list \<Rightarrow> replica \<Rightarrow> 's \<Rightarrow> replica \<times> 's" where
  "complete_from Q S [] r s = (r, s)"
| "complete_from Q S (request # requests) r s =
     (let (here, r) = all_resident Q (map (\<lambda>e. jstr (oget ''path'' e)) (wanted_objects request)) r in
      complete_from Q S requests r (if here then finish_request S (jstr (oget ''id'' request)) [] s else s))"

definition complete_requests :: "env \<Rightarrow> 's storage_map \<Rightarrow> replica \<Rightarrow> 's \<Rightarrow> replica \<times> 's" where
  "complete_requests Q S r s =
     (if \<not> is_open r then (r, s)
      else let s = snd (requested_paths S r s) in complete_from Q S (pending_requests S s) r s)"

section \<open>Nothing is lost\<close>

lemma ext_pair3: "(\<And>x t. m = (x, t) \<Longrightarrow> extends Q s (fst (snd (k x t)))) \<Longrightarrow> extends Q s (fst (snd (case m of (x, t) \<Rightarrow> k x t)))"
  by (cases m) simp

lemma extends_locations: "extends Q r (r\<lparr>db := (db r)\<lparr>loc_rows := ls\<rparr>, faults := fl\<rparr>)"
proof -
  have "store_ok Q (r\<lparr>db := (db r)\<lparr>loc_rows := ls\<rparr>\<rparr>) = store_ok Q r" by (rule store_ok_cong) (simp_all add: meta_def)
  then show ?thesis by (simp add: extends_def same_ids_def meta_def meta_ll_def)
qed

lemma extends_locate: "on_journal (locate v w) r = (b, why, s) \<Longrightarrow> extends Q r s"
  using on_journal_locate extends_locations by blast

lemma extends_during: "(\<And>x. extends Q x (during x)) \<Longrightarrow> extends Q (during r) (fst (snd m)) \<Longrightarrow> extends Q r (fst (snd m))"
  using ext.trans by blast

lemma extends_place:
  assumes "\<And>x. extends Q x (during x)"
  shows "extends Q r (fst (snd (place_object Q P during path r s)))"
  unfolding place_object_def Let_def
  apply (intro ext.call3 ext.cond3 ext_pair3)
            apply (auto intro!: extends_lock extends_refresh split: if_splits)[6]
  apply (rule extends_during [OF assms])
  apply (intro ext.opt3 ext.call3 ext.cond3 ext_pair3)
  apply (auto intro!: extends_lock extends_locate)
  done

lemma keeps_create_file:
  assumes "\<not> safe_path (comps path)" "sys_create (comps path) f = (i, g)"
  shows "keeps f (sys_write i bytes g)"
proof -
  have i: "i = next_ino f" and g: "g = sys_link (comps path) (File i) (f\<lparr>inodes := upsert i ([], 0) (inodes f), next_ino := Suc i\<rparr>)"
    using assms(2) by (auto simp: sys_create_def Let_def)
  have at: "file_at (sys_write i bytes g) q j \<longleftrightarrow> (if q = comps path then j = i else file_at f q j)" for q j
    using g by (auto simp: sys_write_def file_at_def [of "_\<lparr>inodes := _\<rparr>"] file_at_def [of "_\<lparr>inodes := _, next_ino := _\<rparr>"])
      (auto simp: file_at_def)
  have c: "content (sys_write i bytes g) j = content f j" if "j < next_ino f" for j
    using that i g by (simp add: sys_write_def content_upsert) (simp add: sys_link_def content_upsert)
  have b: "ino_bound (sys_write i bytes g)" if "ino_bound f"
  proof -
    have "ino_bound (f\<lparr>inodes := upsert i ([], 0) (inodes f), next_ino := Suc i\<rparr>)"
      using that i by (auto simp: ino_bound_def less_SucI)
    then have "ino_bound g" unfolding g sys_link_def by (intro ino_bound_touch_dir ino_bound_upsert) auto
    then show ?thesis by (simp add: ino_bound_def sys_write_def)
  qed
  have "held (sys_write i bytes g) j \<and> content (sys_write i bytes g) j = content f j" if bound: "ino_bound f" and h: "held f j" for j
  proof -
    obtain q where q: "safe_path q" "file_at f q j" using h by (auto simp: held_def)
    then have "file_at (sys_write i bytes g) q j" using at assms(1) by auto
    with q c ino_bound_at [OF bound q(2)] show ?thesis by (auto simp: held_def)
  qed
  with b show ?thesis by (auto simp: keeps_def)
qed

lemma keeps_saved_file:
  assumes "\<not> safe_path (comps path)"
  shows "keeps f (snd (save_file path bytes f))"
  unfolding save_file_def Let_def
  by (intro keep.call keep.cond) (auto split: option.split node.split prod.split dest!: poll_frame keeps_create_file [OF assms])

lemma keeps_drop_file:
  assumes "staging (comps path)"
  shows "keeps f (drop_file path f)"
  unfolding drop_file_def using assms staging_not_safe' by (auto split: option.split node.split intro!: keeps_unlink)

lemma extends_abandon: "staging (comps t) \<Longrightarrow> extends Q r (snd (abandon t why r))"
  using extends_new_files [of r "drop_file t (files r)" Q] keeps_drop_file [of t] by (simp add: abandon_def)

lemma extends_restorable: "extends Q r (snd (restorable Q path e r))"
  unfolding restorable_def Let_def by (intro ext.call) (auto intro!: extends_op keeps_grow)

lemma staging_provider: "staging (comps (provider_part i))"
proof -
  have "comps (provider_part i) = ''.society-sync'' # ''transfers'' # comps (''provider-'' @ i @ ''.part'')" by (simp add: provider_part_def)
  then show ?thesis by (simp only: staging_def) simp
qed

lemma extends_restored:
  assumes "sections_ok Q" "\<And>x. extends Q x (during x)"
  shows "extends Q r (fst (snd (restore_object Q P during path r s)))"
  unfolding restore_object_def Let_def
  apply (intro ext.call3 ext.cond3 ext_pair3)
            apply (auto intro!: extends_lock extends_restorable extends_uuid split: if_splits)[8]
  apply (rule extends_during [OF assms(2)])
  apply (intro ext.sum3 ext.opt3 ext.call3 ext.cond3 ext_pair3)
  apply (auto intro!: extends_lock extends_abandon staging_provider extends_op keeps_saved_file extends_restorable keeps_install keeps_grow
      staging_not_safe' split: if_splits)
  done

end
