(* ===== verification/Requests.thy ===== *)
theory Requests
  imports Drive Provider Scan
begin

text \<open>
  The requests of \<open>Replica::handle\<close> with the drive requests and the scan of the index they run, and the
  exchange of content with providers: every one of them keeps the files, the index and the revisions.
\<close>


section \<open>Requests\<close>

text \<open>What every request keeps: the files, the identity of the replica, the index invariant and the revisions.\<close>

definition retains :: "env \<Rightarrow> replica \<Rightarrow> replica \<Rightarrow> bool" where
  "retains Q r s \<longleftrightarrow> keeps (files r) (files s) \<and> drive s = drive r \<and> rid s = rid r \<and> meta ''host'' s = meta ''host'' r
     \<and> (store_ok Q r \<longrightarrow> store_ok Q s \<and> (\<exists>ds. rev_rows (db s) = rev_rows (db r) @ ds))"

interpretation retain: op_rel "retains Q" for Q
proof
  show "retains Q r r" for r by (simp add: retains_def)
  show "retains Q r t" if "retains Q r s" "retains Q s t" for r s t
    using that keep.trans unfolding retains_def by (metis append.assoc)
qed

lemma retains_extends: "extends Q r s \<Longrightarrow> retains Q r s"
  by (simp add: extends_def retains_def same_ids_def)

lemma retains_view: "same_view r s \<Longrightarrow> files s = files r \<Longrightarrow> retains Q r s"
  using view_store_ok [of r s Q] view_meta [of r s] by (simp add: retains_def same_view_def)

lemma retains_manifests [simp]: "retains Q r (s\<lparr>manifests := ms\<rparr>) = retains Q r s"
proof -
  have "store_ok Q (s\<lparr>manifests := ms\<rparr>) = store_ok Q s" by (rule store_ok_cong) (simp_all add: meta_def)
  then show ?thesis by (simp add: retains_def meta_def)
qed

lemma retains_snapshots [simp]: "retains Q r (s\<lparr>db := (db s)\<lparr>snapshot_rows := rows\<rparr>\<rparr>) = retains Q r s"
proof -
  have "store_ok Q (s\<lparr>db := (db s)\<lparr>snapshot_rows := rows\<rparr>\<rparr>) = store_ok Q s" by (rule store_ok_cong) (simp_all add: meta_def)
  then show ?thesis by (simp add: retains_def meta_def)
qed

lemma retains_fields [simp]:
  "retains Q r (s\<lparr>proposal := a, proposal_base := b\<rparr>) = retains Q r s" "retains Q r (s\<lparr>leases := ls\<rparr>) = retains Q r s"
  by (simp_all add: retains_def meta_def store_ok_cong [of "s\<lparr>proposal := a, proposal_base := b\<rparr>" s] store_ok_cong [of "s\<lparr>leases := ls\<rparr>" s])

lemma retains_fields' [simp]: "retains Q (s\<lparr>proposal := a, proposal_base := b\<rparr>) r = retains Q s r"
  by (simp add: retains_def meta_def store_ok_cong [of "s\<lparr>proposal := a, proposal_base := b\<rparr>" s])

lemma retains_failed [simp]: "retains Q r (snd (failed e s)) = retains Q r s" "retains Q r (snd (file_failed s)) = retains Q r s"
  by simp_all

lemma retains_rpoll [simp]: "retains Q r (snd (rpoll r))" "retains Q r (snd (ready Q r))" "retains Q r (snd (lock Q r))"
  "retains Q r (snd (refresh Q p r))"
  by (rule retains_extends; simp add: extends_ready extends_lock extends_refresh)+

lemma retains_files: "keeps (files r) (snd (op (files r))) \<Longrightarrow> retains Q r (snd (on_files op r))"
  by (rule retains_extends) (rule extends_op)

lemma retains_pages: "retains Q r (snd (manifest_page Q peer req r))"
  unfolding manifest_page_def manifest_continue_def Let_def put_manifest_def drop_manifest_def
  by (intro retain.cond retain.call retain.opt retain.pair)
    (auto split: option.split prod.split sum.split)

lemma retains_complete: "retains Q r (snd (complete_snapshot Q peer req r))"
  unfolding complete_snapshot_def Let_def
  by (intro retain.cond retain.call retain.opt) auto

lemma keeps_read: "keeps f (snd (fs_read Q p a b c f))"
  by (rule keeps_of_grows) simp

declare read_blocks.simps [simp del]

lemma retains_blocks: "retains Q r (snd (read_blocks Q path st offset r))"
proof (induction Q path st offset r rule: read_blocks.induct)
  case (1 Q path st offset r)
  have step: "retains Q s (snd (read_blocks Q path st (offset + 1024 * 1024) s))" if "\<not> fsize st \<le> offset" "on_files (fs_read Q path offset (min (1024 * 1024) (fsize st - offset)) (fstamp st)) r = (Some b, s)" for b s
    using that by (intro 1) auto
  show ?case
    by (subst read_blocks.simps, unfold Let_def, intro retain.cond retain.call retain.opt)
      (auto intro!: retains_files keeps_read intro: step [simplified])
qed

lemma retains_preview: "retains Q r (snd (serve_preview Q e r))"
  unfolding serve_preview_def Let_def
  by (intro retain.cond retain.call retain.opt) (auto intro!: retains_files keeps_grow retains_blocks split: if_splits)

lemma retains_read: "retains Q r (snd (serve_read Q e req r))"
  unfolding serve_read_def Let_def
  by (intro retain.cond retain.call retain.opt) (auto intro!: retains_files keeps_grow)

lemma retains_merge_request:
  assumes "sections_ok Q" "valid_record Q e"
  shows "retains Q r (snd (serve_merge Q peer ann e req action r))"
proof -
  have part: "keeps f (snd (stage_inline Q (transfer Q peer e) bytes f))" for bytes f
    unfolding stage_inline_def Let_def by (intro keep.call keep.opt keep.cond) (auto intro!: keeps_grow split: if_splits)
  have lease: "retains Q s (release_lease Q p b reply s)" for s p b reply
    using retains_files [of s "fs_state Q p" Q] by (auto simp: release_lease_def Let_def keeps_grow split: prod.splits)
  have mark: "retains Q x (mark_applied peer p reply s) = retains Q x s" for x s p reply
    by (auto simp: mark_applied_def put_manifest_def split: option.split)
  have m: "retains Q s (snd (merge Q peer e c s))" for c s
    using extends_merge [OF assms(1) valid_record_physical [OF assms(2)]] by (rule retains_extends)
  have m': "retains Q s (snd (merge Q peer e c (s\<lparr>proposal := a, proposal_base := b\<rparr>)))" for c s a b
    using m [of "s\<lparr>proposal := a, proposal_base := b\<rparr>" c] by simp
  have clean: "retains Q s (snd (on_files (remove Q (transfer Q peer e)) (s\<lparr>proposal := a, proposal_base := b\<rparr>)))" for s a b
    using retains_files [of "s\<lparr>proposal := a, proposal_base := b\<rparr>" "remove Q (transfer Q peer e)" Q] by (simp add: keeps_grow)
  have protect: "retains Q s (snd (protect_transfer p s))" for p s by (rule retains_extends) (rule extends_protect)
  show ?thesis
    unfolding serve_merge_def Let_def
    apply (intro retain.cond)
     apply simp
    apply (split sum.split, intro conjI allI impI, simp)
    apply (intro retain.call retain.cond)
    apply (auto intro!: protect retains_files part keeps_grow m' clean lease simp: mark split: if_splits)
    done
qed

lemma guard_valid: "guard_transfer Q peer action req r = None \<Longrightarrow> valid_record Q (jobject (oget ''entry'' req))"
  by (auto simp: guard_transfer_def Let_def split: if_splits)

lemma retains_pinned: "retains Q r (snd (pinned Q e req r))"
  unfolding pinned_def Let_def by (intro retain.cond retain.call) auto

lemma retains_entry:
  assumes "sections_ok Q" "action \<noteq> ''chunk''"
  shows "retains Q r (snd (serve_entry Q peer action req r))"
proof (cases "guard_transfer Q peer action req r")
  case None
  note v = guard_valid [OF None]
  show ?thesis
    unfolding serve_entry_def None Let_def option.case
    by (intro retain.call retain.cond)
      (auto intro!: retains_pinned retains_preview retains_read retains_merge_request [OF assms(1) v] simp: assms(2))
qed (simp add: serve_entry_def)

lemma retains_snapshot_read: "retains Q r (snd (read_snapshot Q rd r))"
  unfolding read_snapshot_def Let_def
  by (intro retain.call retain.cond) (auto intro!: retains_extends)

lemma retains_changes: "(\<And>x. retains Q x (snd (rescan x))) \<Longrightarrow> retains Q r (snd (serve_changes Q rescan b req r))"
  unfolding serve_changes_def changes_page_def Let_def
  by (auto split: option.split intro!: retain.call retain.cond retains_snapshot_read)

lemma retains_handle:
  assumes "sections_ok Q" "\<And>n f. keeps f (prepare n f)" "jstr (oget ''action'' req) \<noteq> ''chunk''"
  shows "retains Q r (snd (handle Q (drive_request Q prepare) (scan Q slow) peer req b r))"
proof -
  have d: "retains Q x (snd (drive_request Q prepare req x))" "retains Q x (snd (scan Q slow x))" for x
    by (rule retains_extends, rule extends_drive [OF assms(1,2)]) (rule retains_extends, rule extends_scan)
  have j: "retains Q x (snd (serve_journal Q req x))" for x
    by (auto simp: serve_journal_def journal_page_def split: option.split intro!: retains_snapshot_read)
  have e: "retains Q x (snd (describe Q x))" for x
    unfolding describe_def Let_def by (intro retain.call retain.cond) auto
  show ?thesis
    unfolding handle_def Let_def
    by (intro retain.cond retain.call)
      (auto intro!: d j e retains_changes retains_pages retains_complete retains_entry [OF assms(1)] simp: assms(3))
qed


text \<open>C12: moving content to a provider and back loses nothing. Whatever the provider answers, and whatever other
  processes do to the replica while it works (as long as they keep it themselves), placing and restoring an
  object keep the index invariant, only append revisions, and keep every non-empty public or recovered file.\<close>

theorem objects_safe:
  assumes "sections_ok Q" and "\<And>x. extends Q x (during x)" and "store_ok Q r" and "ino_bound (files r)"
    and "s \<in> {fst (snd (place_object Q P during path r w)), fst (snd (restore_object Q P during path r w))}"
  shows "store_ok Q s \<and> (\<exists>ds. rev_rows (db s) = rev_rows (db r) @ ds)
    \<and> (\<forall>p i. safe_path p \<and> file_at (files r) p i \<and> content (files r) i \<noteq> [] \<longrightarrow>
         (\<exists>q. safe_path q \<and> file_at (files s) q i) \<and> content (files s) i = content (files r) i)"
proof -
  have "extends Q r s" using assms(5) extends_place [where during = during, OF assms(2), where r = r and P = P and path = path and s = w]
      extends_restored [where during = during, OF assms(1,2), where r = r and P = P and path = path and s = w] by auto
  then show ?thesis using assms(3,4) unfolding extends_def keeps_def held_def by blast
qed

section \<open>Concrete requests\<close>

definition sample_write :: jobj where
  "sample_write = [(''action'', JStr ''drive.write''), (''container'', JStr ''ns''), (''data'', JStr ''xyz''), (''path'', JStr ''notes/b'')]"


definition sample_directory :: directory where
  "sample_directory = \<lparr>provider_id = ''nas1'', nas = True, root_usable = True, pnodes = [], pfaults = []\<rparr>"

definition sample_provider :: "directory provider" where
  "sample_provider = \<lparr>place_id = ''nas1'', place_kind = ''nas'', put_object = directory_put sample_env, get_object = directory_get sample_env\<rparr>"

theorem objects_safe_witness:
  "let s = fst (snd (restore_object sample_env sample_provider (\<lambda>x. x) ''notes/b'' sample_replica sample_directory)) in
   store_ok sample_env s \<and> content (files s) 5 = ''abc'' \<and> (\<exists>q. safe_path q \<and> file_at (files s) q 5)"
proof -
  have f: "files sample_replica = sample_files" by (simp add: sample_replica_def)
  have "safe_path [''Notes'', ''a'']" "file_at sample_files [''Notes'', ''a''] 5" "content sample_files 5 = ''abc''"
    by (simp_all add: safe_path_def starts_with_def file_at_def sample_files_def content_def)
  then show ?thesis
    using objects_safe [where during = "\<lambda>x. x", OF sample_sections_ok ext.refl sample_store_ok _ insertI2 [OF singletonI], of sample_provider "''notes/b''" sample_directory]
    by (simp add: f sample_ino_bound Let_def)
qed

lemma sample_catalogued: "catalogued sample_env (''notes/a'', w) \<longleftrightarrow> oget ''kind'' (rdata w) \<noteq> JStr ''deleted''"
  by (simp add: catalogued_def sample_physical control_path_def list_ex_iff)

lemma sample_catalog:
  "\<exists>reply. drive_catalog sample_env [] sample_held = (reply, sample_held) \<and> oget ''ok'' reply = JBool True"
proof -
  have r: "catalog_rows [] sample_held = entry_rows (db sample_held)"
    by (simp add: catalog_rows_def sample_held_def sample_db_def)
  have "fill_catalog sample_env (entry_rows (db sample_held)) 0 0 sample_held = (([(''notes/a'', catalog_public sample_entry)], False), sample_held)"
    by (simp add: sample_held_def sample_catalogued sample_entry_get catalog_value_def sample_physical json_bytes_def page_bytes_def Let_def)
  then show ?thesis by (simp add: drive_catalog_def r last_or_empty_def drive_success_def Let_def)
qed

theorem drive_pages_witness:
  "\<exists>reply. fst (drive_catalog sample_env [] sample_held) = reply \<and> oget ''ok'' reply = JBool True
     \<and> map fst (live sample_env [] sample_held) = catalog_paths reply
       @ (if oget ''nextCursor'' reply = JStr [] then [] else map fst (live sample_env (jstr (oget ''nextCursor'' reply)) sample_held))"
proof -
  obtain reply where r: "drive_catalog sample_env [] sample_held = (reply, sample_held)" "oget ''ok'' reply = JBool True"
    using sample_catalog by blast
  from drive_pages [OF r sample_held_ok] r show ?thesis by simp
qed

theorem provider_roundtrip_witness:
  "\<exists>d. fst (directory_get sample_env \<lparr>name_space = ''ns'', sha = zeros, osize = 3\<rparr> False d) = Inr ''abc''"
proof -
  let ?i = "\<lparr>name_space = ''ns'', sha = zeros, osize = 3\<rparr>"
  have n: "names_bytes sample_env ?i ''abc''" by (simp add: names_bytes_def identity_valid_def hex_zeros digest_def)
  have p: "provider_name ''nas1''" by (simp add: provider_name_def provider_char_def)
  have k: "qsplit (CHR ''/'') (identity_key sample_env ?i) = [''objects'', ''ns'', ''00'', zeros]"
    using n by (simp add: identity_key_def names_bytes_def zeros_def)
  have "\<exists>d. directory_put sample_env ?i (Some ''abc'') sample_directory = (None, d)"
    using n by (simp add: directory_put_def provider_path_def k p sample_directory_def Let_def pull_def verified_quiet) (simp add: names_bytes_def)
  then obtain d where "directory_put sample_env ?i (Some ''abc'') sample_directory = (None, d)" by blast
  from provider_roundtrip [OF this] show ?thesis by (intro exI [of _ "d\<lparr>pfaults := []\<rparr>"]) simp
qed

end
