(* ===== verification/Synchronizer.thy ===== *)
theory Synchronizer
  imports Requests Binding
begin

text \<open>
  The client of the protocol (\<open>src/src/Sync/Synchronizer.cpp\<close>): it describes the host, pulls its changes and
  journal, announces the local changes, downloads and uploads content in windows of chunks and
  acknowledges a snapshot. Its callbacks are values (\<open>callback\<close>), and what it defers to the event loop is a list of tasks, each
  with the generation in which it was scheduled: a handler is a function of the state that a
  response, a task or a timeout runs. The replica is the modelled one. Elapsed time is an
  observation (\<open>slice_expired\<close>), and the signals it emits are listed in the state.
\<close>

section \<open>State\<close>

datatype policy = FullReplica | MetadataFirst

text \<open>\<open>StatusCode\<close>.\<close>

datatype status_code = Before | InProgress | Complete | Failed | Cancelled

text \<open>What follows the acknowledgement of a snapshot, and of a manifest.\<close>

datatype after_snapshot = ThenFinish | ThenPush

datatype after_manifest = ThenPull | ThenPushAll

datatype callback =
    OnSnapshot after_snapshot
  | OnPreview jobj
  | OnDescribe
  | OnPage int int
  | OnJournal int
  | OnManifest
  | OnRead int int
  | OnBegin bool int
  | OnCommit
  | OnChunk int int int

datatype task = RunPull | RunPullChunk | RunPushChunk | RunPreview | Transmit string | Resend string

datatype signal = Finished string bool string | MirrorChanged jobj | HostValidated string | RequestReady string string jobj
  | Progress string int int

record request =
  envelope :: jobj
  done_with :: callback
  poll_delay :: int
  due :: int

record 's sync =
  replica_of :: replica
  map_of_storage :: "'s published"
  status_of :: status_code
  snapshot :: jobj
  snapshot_acknowledged :: bool
  active :: bool
  generation :: nat
  content_policy :: policy
  requested :: "string list"
  photo_identities :: "string list"
  hydrated :: "string list"
  previews :: "jobj list"
  preview_index :: nat
  previews_done :: bool
  metadata_published :: bool
  early_push :: bool
  peer_id :: string
  remote_replica :: string
  remote_container :: string
  expected_host :: string
  expected_container :: string
  requests :: "(string \<times> request) list"
  configured_window :: int
  window :: int
  pending_chunks :: int
  inline_limit :: int
  received_chunks :: "(int \<times> jobj) list"
  acknowledged_chunks :: "(int \<times> int) list"
  entries :: "jobj list"
  index :: nat
  pulled_to :: int
  pushed_to :: int
  through_to :: int
  offset_of :: int
  current :: jobj
  manifests_used :: bool
  outgoing :: "jobj list"
  push_through :: int
  manifest_index :: nat
  manifest_id :: string
  manifest_ready :: "after_manifest option"
  slice_valid :: bool
  slice_expired :: bool
  transferred :: bool
  tasks :: "(nat \<times> task) list"
  drawn :: nat
  signals :: "signal list"

text \<open>What the handlers run on: the environment, the effects of the packages, the storage map, and the UUIDs the
  synchronizer draws, in their order.\<close>

record 's setting =
  qt :: env
  prepare_file :: "string \<Rightarrow> fsys \<Rightarrow> fsys"
  slow_scan :: "nat \<Rightarrow> bool"
  storage :: "'s storage_map"
  fresh_id :: "nat \<Rightarrow> string"

section \<open>Helpers\<close>

definition on_replica :: "(replica \<Rightarrow> 'a \<times> replica) \<Rightarrow> 's sync \<Rightarrow> 'a \<times> 's sync" where
  "on_replica op s = (let (x, r) = op (replica_of s) in (x, s\<lparr>replica_of := r\<rparr>))"

definition store_error :: "'s sync \<Rightarrow> string" where
  "store_error s = rerror (replica_of s)"

definition nonnegative :: "json \<Rightarrow> int option" where
  "nonnegative v = (case to_ll (jstr v) of None \<Rightarrow> None | Some n \<Rightarrow> if n \<ge> 0 then Some n else None)"

definition path_of :: "jobj \<Rightarrow> string" where
  "path_of e = jstr (oget ''path'' e)"

definition size_of :: "jobj \<Rightarrow> int" where
  "size_of e = jll (oget ''size'' e)"

definition order_rank :: "jobj \<Rightarrow> nat" where
  "order_rank e = (if oget ''kind'' e = JStr ''directory'' then 0 else if oget ''kind'' e = JStr ''file'' then 2 else 1)"

definition order_key :: "jobj \<Rightarrow> nat \<times> int \<times> int \<times> string" where
  "order_key e = (let n = int (count_list (path_of e) (CHR ''/'')) in
     (order_rank e, if order_rank e = 2 then size_of e else 0, if order_rank e = 1 then - n else n, path_of e))"

definition in_order :: "jobj list \<Rightarrow> jobj list" where
  "in_order es = sort_key order_key es"

section \<open>Requests\<close>

definition emit :: "signal \<Rightarrow> 's sync \<Rightarrow> 's sync" where
  "emit x s = s\<lparr>signals := signals s @ [x]\<rparr>"

definition draw :: "'s setting \<Rightarrow> 's sync \<Rightarrow> string \<times> 's sync" where
  "draw E s = (fresh_id E (drawn s), s\<lparr>drawn := Suc (drawn s)\<rparr>)"

definition later :: "task \<Rightarrow> 's sync \<Rightarrow> 's sync" where
  "later t s = s\<lparr>tasks := tasks s @ [(generation s, t)]\<rparr>"

definition transmit :: "string \<Rightarrow> 's sync \<Rightarrow> 's sync" where
  "transmit i s = (if \<not> active s then s else later (Transmit i) s)"

definition addressed :: "jobj \<Rightarrow> 's sync \<Rightarrow> jobj" where
  "addressed message s =
     (let message = (if remote_container s \<noteq> [] then oput ''container'' (JStr (remote_container s)) message else message) in
      if manifests_used s \<and> oget ''action'' message \<in> {JStr ''begin'', JStr ''chunk'', JStr ''commit''}
      then oput ''snapshot'' (oget ''id'' (snapshot s)) (oput ''manifest'' (JStr (manifest_id s)) message) else message)"

definition send :: "'s setting \<Rightarrow> jobj \<Rightarrow> callback \<Rightarrow> 's sync \<Rightarrow> 's sync" where
  "send E message f s =
     (if \<not> active s then s
      else let m = addressed message s; (i, s) = draw E s; (token, s) = draw E s;
               e = obj [(''op'', JStr ''society.sync''), (''protocol'', JNum 2), (''namespaceVersion'', JNum 1),
                        (''scope'', JStr (scope (replica_of s))), (''token'', JStr token), (''message'', JObj m)];
               x = \<lparr>envelope = e, done_with = f, poll_delay = 1, due = now_ms (qt E) + 120000\<rparr> in
      transmit i (s\<lparr>requests := upsert i x (requests s)\<rparr>))"

section \<open>The end of a run\<close>

definition publish_map :: "'s setting \<Rightarrow> 's sync \<Rightarrow> bool \<times> 's sync" where
  "publish_map E s = (let (ok, r, m) = publish_storage_map (qt E) (storage E) (replica_of s) (map_of_storage s) in
     (ok, s\<lparr>replica_of := r, map_of_storage := m\<rparr>))"

definition complete_all :: "'s setting \<Rightarrow> 's sync \<Rightarrow> 's sync" where
  "complete_all E s = (let (r, m) = complete_requests (qt E) (storage E) (replica_of s) (map_state (map_of_storage s)) in
     s\<lparr>replica_of := r, map_of_storage := (map_of_storage s)\<lparr>map_state := m\<rparr>\<rparr>)"

definition end_run :: "bool \<Rightarrow> string \<Rightarrow> 's sync \<Rightarrow> 's sync" where
  "end_run ok error s = emit (Finished (peer_id s) ok error)
     (s\<lparr>active := False, early_push := False, generation := Suc (generation s), requests := [], pending_chunks := 0, received_chunks := [],
        acknowledged_chunks := [], manifest_ready := None, entries := [], outgoing := [],
        status_of := (if ok then Complete else if error = ''cancelled'' then Cancelled else Failed)\<rparr>)"

definition stop_with :: "string \<Rightarrow> 's sync \<Rightarrow> 's sync" where
  "stop_with error s = (if \<not> active s then s else end_run False error s)"

definition store_failed :: "'s sync \<Rightarrow> 's sync" where
  "store_failed s = stop_with (store_error s) s"

definition acknowledge_snapshot :: "'s setting \<Rightarrow> after_snapshot \<Rightarrow> 's sync \<Rightarrow> 's sync" where
  "acknowledge_snapshot E after s =
     send E (obj [(''action'', JStr ''snapshot.complete''), (''manifest'', JStr (manifest_id s)), (''snapshot'', oget ''id'' (snapshot s))]) (OnSnapshot after) s"

text \<open>\<open>finish(true)\<close>, where the previews come before the end of a run that has not had them.\<close>

definition finish_with :: "'s setting \<Rightarrow> ('s sync \<Rightarrow> 's sync) \<Rightarrow> 's sync \<Rightarrow> 's sync" where
  "finish_with E first_previews s =
     (if \<not> active s then s
      else if \<not> snapshot_acknowledged s then acknowledge_snapshot E ThenFinish s
      else let (ok, s) = publish_map E s in
      if \<not> ok then store_failed s
      else let s = complete_all E s in
      if content_policy s = MetadataFirst \<and> \<not> previews_done s then
        (let s = s\<lparr>previews_done := True\<rparr>; (ps, s) = on_replica (missing_previews (qt E)) s in
         first_previews (s\<lparr>previews := ps, preview_index := 0\<rparr>))
      else end_run True [] s)"

definition preview_next :: "'s setting \<Rightarrow> 's sync \<Rightarrow> 's sync" where
  "preview_next E s =
     (if preview_index s \<ge> length (previews s) then finish_with E (\<lambda>s. s) s
      else let e = previews s ! preview_index s in
      send E (obj [(''action'', JStr ''preview''), (''entry'', JObj e)]) (OnPreview e) (s\<lparr>preview_index := Suc (preview_index s)\<rparr>))"

definition finish_run :: "'s setting \<Rightarrow> 's sync \<Rightarrow> 's sync" where
  "finish_run E s = finish_with E (preview_next E) s"

text \<open>\<open>accepted\<close>: a refusal ends the run.\<close>

definition accepted :: "jobj \<Rightarrow> bool" where
  "accepted r \<longleftrightarrow> jbool (oget ''ok'' r)"

definition refused :: "jobj \<Rightarrow> 's sync \<Rightarrow> 's sync" where
  "refused r s = stop_with (text_or ''sync_request_failed'' (oget ''error'' r)) s"

definition on_snapshot :: "'s setting \<Rightarrow> ('s sync \<Rightarrow> 's sync) \<Rightarrow> jobj \<Rightarrow> 's sync \<Rightarrow> 's sync" where
  "on_snapshot E continue response s =
     (if \<not> accepted response then refused response s
      else let x = jobject (oget ''receipt'' response) in
      if oget ''snapshot'' x \<noteq> JObj (snapshot s) \<or> oget ''manifest'' x \<noteq> JStr (manifest_id s)
         \<or> oget ''replica'' x \<noteq> JStr (rid (replica_of s)) \<or> oget ''container'' x \<noteq> JStr (remote_container s)
      then stop_with ''invalid_snapshot_receipt'' s
      else continue (s\<lparr>snapshot_acknowledged := True\<rparr>))"

definition on_preview :: "'s setting \<Rightarrow> jobj \<Rightarrow> jobj \<Rightarrow> 's sync \<Rightarrow> 's sync" where
  "on_preview E e response s =
     (let s = (if accepted response then snd (on_replica (save_preview (qt E) e response) s) else s) in later RunPreview s)"

section \<open>The local announcement\<close>

text \<open>The pages of the local changes; a page that is not the last moves the cursor over at least one row, so the
  number of rows bounds the pages.\<close>

fun local_pages :: "'s setting \<Rightarrow> nat \<Rightarrow> int \<Rightarrow> int \<Rightarrow> jobj list \<Rightarrow> 's sync \<Rightarrow> (jobj list \<times> int) option \<times> 's sync" where
  "local_pages E 0 cursor upper es s = (None, stop_with ''manifest_capacity'' s)"
| "local_pages E (Suc n) cursor upper es s =
     (let (page, s) = on_replica (changes_page (qt E) cursor upper) s in
      if \<not> accepted page then (None, refused page s)
      else let upper = jll (oget ''through'' page); cursor = jll (oget ''next'' page);
               es = es @ map jobject (jarray (oget ''entries'' page)) in
      if length es > 250000 then (None, stop_with ''manifest_capacity'' s)
      else if jbool (oget ''more'' page) then local_pages E n cursor upper es s
      else (Some (es, upper), s))"

definition row_count :: "'s sync \<Rightarrow> nat" where
  "row_count s = length (entry_rows (db (replica_of s))) + length (rev_rows (db (replica_of s)))"

fun manifest_part :: "env \<Rightarrow> nat \<Rightarrow> int \<Rightarrow> jobj list \<Rightarrow> jobj list" where
  "manifest_part Q n used [] = []"
| "manifest_part Q n used (e # es) =
     (let len = int (length (json_bytes Q e)) in
      if n = 0 \<or> used + len > 256 * 1024 then [] else e # manifest_part Q (n - 1) (used + len) es)"

definition announce_page :: "'s setting \<Rightarrow> 's sync \<Rightarrow> 's sync" where
  "announce_page E s =
     (let start = manifest_index s; part = manifest_part (qt E) 128 0 (drop start (outgoing s)) in
      send E (obj [(''action'', JStr ''manifest''), (''manifest'', JStr (manifest_id s)), (''replica'', JStr (rid (replica_of s))),
         (''offset'', jnumstr (int start)), (''total'', jnumstr (int (length (outgoing s)))), (''after'', jnumstr (pushed_to s)),
         (''through'', jnumstr (push_through s)), (''entries'', JArr (map JObj part)), (''snapshot'', JObj (snapshot s))]) OnManifest
        (s\<lparr>manifest_index := start + length part\<rparr>))"

definition new_snapshot :: "'s setting \<Rightarrow> 's sync \<Rightarrow> 's sync" where
  "new_snapshot E s =
     (let (i, s) = draw E s; base = namespace_state (replica_of s) in
      s\<lparr>snapshot := obj [(''schema'', JNum 1), (''id'', JStr i), (''capturedAt'', jnumstr (now_ms (qt E))),
          (''baseSequence'', oget ''sequence'' base), (''baseRevision'', oget ''head'' base)], snapshot_acknowledged := False\<rparr>)"

definition announce_local :: "'s setting \<Rightarrow> after_manifest \<Rightarrow> ('s sync \<Rightarrow> 's sync) \<Rightarrow> 's sync \<Rightarrow> 's sync" where
  "announce_local E after continue s =
     (let s = s\<lparr>outgoing := [], push_through := pushed_to s\<rparr>;
          (found, s) = (if bootstrapping (replica_of s) then (Some ([], pushed_to s), s)
                        else local_pages E (Suc (row_count s)) (pushed_to s) 0 [] s) in
      case found of
        None \<Rightarrow> s
      | Some (es, upper) \<Rightarrow>
          (let s = s\<lparr>outgoing := es, push_through := upper\<rparr> in
           if \<not> manifests_used s \<or> (es = [] \<and> snapshot_acknowledged s) then continue s
           else announce_page E (new_snapshot E (s\<lparr>manifest_id := digest (qt E) (concat (map (\<lambda>e. json_bytes (qt E) e @ [CHR 0x0A]) es)),
                  manifest_index := 0, manifest_ready := Some after\<rparr>))))"

section \<open>Pages of the host\<close>

definition page :: "'s setting \<Rightarrow> int \<Rightarrow> int \<Rightarrow> 's sync \<Rightarrow> 's sync" where
  "page E after upper s =
     send E (obj [(''action'', JStr ''changes''), (''after'', jnumstr after), (''through'', jnumstr upper)]) (OnPage after upper) s"

definition next_journal :: "'s setting \<Rightarrow> int \<Rightarrow> 's sync \<Rightarrow> 's sync" where
  "next_journal E upper s =
     send E (obj [(''action'', JStr ''journal''), (''after'', JStr (jstr (oget ''sequence'' (namespace_state (replica_of s))))), (''through'', jnumstr upper)])
       (OnJournal upper) s"

definition describe_host :: "'s setting \<Rightarrow> 's sync \<Rightarrow> 's sync" where
  "describe_host E s = send E (obj [(''action'', JStr ''describe'')]) OnDescribe
     (s\<lparr>remote_container := [], remote_replica := [], early_push := False\<rparr>)"

definition host_binding :: "'s sync \<Rightarrow> jobj" where
  "host_binding s = (if is_open (replica_of s) then binding (replica_of s) else [])"

definition rescan :: "'s setting \<Rightarrow> 's sync \<Rightarrow> bool \<times> 's sync" where
  "rescan E s = on_replica (scan (qt E) (slow_scan E)) s"

text \<open>What the host must be before its identity is taken; the text is the refusal.\<close>

definition host_refusal :: "jobj \<Rightarrow> 's sync \<Rightarrow> string" where
  "host_refusal r s =
     (let a = jobject (oget ''namespace'' r) in
      if oget ''namespaceVersion'' r \<noteq> JNum 1 \<or> oget ''role'' a \<noteq> JStr ''authority''
         \<or> oget ''namespace'' a \<noteq> oget ''container'' r \<or> oget ''authority'' a \<noteq> oget ''replica'' r
      then ''namespace_authority_protocol_required''
      else if (expected_host s \<noteq> [] \<or> expected_container s \<noteq> [])
         \<and> (peer_id s \<noteq> expected_host s \<or> jstr (oget ''container'' r) \<noteq> expected_container s)
      then ''account_host_mismatch''
      else if oget ''protocol'' r \<noteq> JNum 2 then ''host_mirror_protocol_required'' else [])"

definition on_describe :: "'s setting \<Rightarrow> jobj \<Rightarrow> 's sync \<Rightarrow> 's sync" where
  "on_describe E r s =
     (if \<not> accepted r then refused r s
      else if host_refusal r s \<noteq> [] then stop_with (host_refusal r s) s
      else let (ok, s) = on_replica (bind_host (qt E) (peer_id s) (jstr (oget ''replica'' r)) (jstr (oget ''container'' r))
                 (expected_host s \<noteq> [] \<and> expected_container s \<noteq> [])) s in
      if \<not> ok then store_failed s
      else let s = emit (MirrorChanged (host_binding s)) s;
               s = (if bootstrapping (replica_of s) then s else emit (HostValidated (peer_id s)) s);
               s = s\<lparr>manifests_used := (int_or 0 (oget ''manifestVersion'' r) = 1)\<rparr> in
      if \<not> manifests_used s \<or> oget ''snapshotVersion'' r \<noteq> JNum 1 then stop_with ''snapshot_protocol_required'' s
      else let s = s\<lparr>inline_limit := max 0 (min (int_or 0 (oget ''inlineBytes'' r)) inline_bytes),
                     window := min (configured_window s) (max 1 (min (int_or 1 (oget ''transferWindow'' r)) 4)),
                     remote_replica := jstr (oget ''replica'' r), remote_container := jstr (oget ''container'' r)\<rparr>;
               x = peer_state (peer_id s) (replica_of s);
               s = s\<lparr>pulled_to := jll (oget ''pulled'' x), pushed_to := jll (oget ''pushed'' x)\<rparr>;
               (ok, s) = (if bootstrapping (replica_of s) then (True, s) else rescan E s) in
      if \<not> ok then store_failed s else page E (pulled_to s) 0 s)"

definition save_peer :: "'s setting \<Rightarrow> 's sync \<Rightarrow> bool \<times> 's sync" where
  "save_peer E s = on_replica (save_peer_state (qt E) (peer_id s) (remote_replica s) (remote_container s) (pulled_to s) (pushed_to s)) s"

text \<open>The entries of a page in the order of their sequence numbers; \<open>None\<close> is an invalid one.\<close>

fun page_entries :: "env \<Rightarrow> json list \<Rightarrow> int \<Rightarrow> int \<Rightarrow> jobj list \<Rightarrow> jobj list option" where
  "page_entries Q [] previous next es = Some es"
| "page_entries Q (v # vs) previous next es =
     (case nonnegative (oget ''sequence'' (jobject v)) of
        None \<Rightarrow> None
      | Some n \<Rightarrow> if \<not> valid_record Q (jobject v) \<or> n \<le> previous \<or> n > next \<or> length es \<ge> 250000 then None
                  else page_entries Q vs n next (es @ [jobject v]))"

text \<open>The numbers \<open>next\<close> and \<open>through\<close> of a page that continues this one.\<close>

definition page_numbers :: "env \<Rightarrow> int \<Rightarrow> int \<Rightarrow> jobj \<Rightarrow> 's sync \<Rightarrow> (int \<times> int) option" where
  "page_numbers Q after upper r s =
     (let rep = jstr (oget ''replica'' r); con = jstr (oget ''container'' r) in
      case (nonnegative (oget ''next'' r), nonnegative (oget ''through'' r)) of
        (Some next, Some limit) \<Rightarrow>
          if uuid_null Q rep \<or> uuid_null Q con \<or> rep = rid (replica_of s)
             \<or> (remote_replica s \<noteq> [] \<and> (remote_replica s \<noteq> rep \<or> remote_container s \<noteq> con))
             \<or> \<not> is_arr (oget ''entries'' r) \<or> next < after \<or> next > limit \<or> (upper \<noteq> 0 \<and> upper \<noteq> limit)
             \<or> (jbool (oget ''more'' r) \<and> next \<le> after) then None else Some (next, limit)
      | _ \<Rightarrow> None)"

definition on_page :: "'s setting \<Rightarrow> int \<Rightarrow> int \<Rightarrow> jobj \<Rightarrow> 's sync \<Rightarrow> 's sync" where
  "on_page E after upper r s =
     (if \<not> accepted r then refused r s
      else case page_numbers (qt E) after upper r s of
        None \<Rightarrow> stop_with ''remote_container_or_manifest_changed'' s
      | Some (next, limit) \<Rightarrow>
          (let s = s\<lparr>remote_replica := jstr (oget ''replica'' r), remote_container := jstr (oget ''container'' r)\<rparr>;
               (ok, s) = save_peer E s in
           if \<not> ok then store_failed s
           else case page_entries (qt E) (jarray (oget ''entries'' r)) after next (entries s) of
             None \<Rightarrow> stop_with ''invalid_remote_manifest'' s
           | Some es \<Rightarrow>
               (let s = s\<lparr>entries := es, through_to := limit\<rparr> in
                if jbool (oget ''more'' r) then page E next limit s else next_journal E 0 s)))"


section \<open>Uploads\<close>

definition ask_store :: "'s setting \<Rightarrow> jobj \<Rightarrow> 's sync \<Rightarrow> jobj \<times> 's sync" where
  "ask_store E request s =
     on_replica (handle (qt E) (drive_request (qt E) (prepare_file E)) (scan (qt E) (slow_scan E)) (peer_id s) request True) s"

definition local_read :: "'s setting \<Rightarrow> int \<Rightarrow> 's sync \<Rightarrow> jobj \<times> 's sync" where
  "local_read E position s =
     ask_store E (obj [(''action'', JStr ''read''), (''entry'', JObj (current s)), (''offset'', jnumstr position)]) s"

definition push_end :: "'s setting \<Rightarrow> 's sync \<Rightarrow> 's sync" where
  "push_end E s =
     (if early_push s then page E (pulled_to s) 0 (s\<lparr>early_push := False, entries := []\<rparr>)
      else if \<not> snapshot_acknowledged s then acknowledge_snapshot E ThenPush s
      else let s = s\<lparr>pushed_to := through_to s\<rparr>; (ok, s) = save_peer E s in
      if \<not> ok then store_failed s
      else if entries s \<noteq> [] then page E (pulled_to s) 0 (s\<lparr>entries := []\<rparr>)
      else finish_run E s)"

definition push_begin :: "'s setting \<Rightarrow> 's sync \<Rightarrow> 's sync" where
  "push_begin E s =
     (let e = current s; len = size_of e; inlined = (inline_limit s > 0 \<and> oget ''kind'' e = JStr ''file'' \<and> len \<le> inline_limit s);
          begin = obj [(''action'', JStr ''begin''), (''entry'', JObj e)] in
      if \<not> inlined then send E begin (OnBegin False len) s
      else let (data, s) = local_read E 0 s in
      if \<not> accepted data then refused data s
      else case unb64 (qt E) (jstr (oget ''data'' data)) of
        None \<Rightarrow> stop_with ''invalid_local_chunk'' s
      | Some bytes \<Rightarrow>
          if int (length bytes) \<noteq> len then stop_with ''invalid_local_chunk'' s
          else send E (oput ''inlineData'' (oget ''data'' data) (oput ''action'' (JStr ''commit'') begin)) (OnBegin True len) s)"

definition push_next :: "'s setting \<Rightarrow> 's sync \<Rightarrow> 's sync" where
  "push_next E s =
     (if \<not> active s then s
      else if index s \<ge> length (entries s) then push_end E s
      else push_begin E (s\<lparr>current := entries s ! index s\<rparr>))"

definition begin_new_uploads :: "'s setting \<Rightarrow> 's sync \<Rightarrow> bool \<times> 's sync" where
  "begin_new_uploads E s =
     (if content_policy s \<noteq> MetadataFirst \<or> bootstrapping (replica_of s) then (False, s)
      else let fresh = filter (\<lambda>e. oget ''kind'' e \<in> {JStr ''directory'', JStr ''file''} \<and> object_metadata (path_of e) (replica_of s) = []) (outgoing s) in
      if fresh = [] then (False, s)
      else let fresh = sort_key (\<lambda>e. if oget ''kind'' e = JStr ''directory'' then (0::nat, 0) else (1, - jll (oget ''sequence'' e))) (in_order fresh) in
      (True, push_next E (s\<lparr>early_push := True, entries := fresh, index := 0\<rparr>)))"

text \<open>A run gives way to a fresh snapshot when a second of transfer has passed.\<close>

definition refresh_between_chunks :: "'s setting \<Rightarrow> 's sync \<Rightarrow> bool \<times> 's sync" where
  "refresh_between_chunks E s =
     (let s = (if slice_valid s then s else s\<lparr>slice_valid := True, slice_expired := False\<rparr>) in
      if \<not> transferred s \<or> \<not> slice_expired s then (False, s)
      else let s = s\<lparr>slice_valid := False, transferred := False, entries := [], outgoing := [], index := 0, early_push := False\<rparr>;
               (ok, s) = (if bootstrapping (replica_of s) then (True, s) else rescan E s) in
      (True, if \<not> ok then store_failed s else page E (pulled_to s) 0 s))"

definition window_size :: "int \<Rightarrow> 's sync \<Rightarrow> int" where
  "window_size len s = min (window s) ((len - offset_of s + chunk_bytes - 1) div chunk_bytes)"

definition window_positions :: "int \<Rightarrow> 's sync \<Rightarrow> int list" where
  "window_positions len s = map (\<lambda>i. offset_of s + int i * chunk_bytes) [0..<nat (window_size len s)]"

fun push_window :: "'s setting \<Rightarrow> int \<Rightarrow> int list \<Rightarrow> 's sync \<Rightarrow> 's sync" where
  "push_window E len [] s = s"
| "push_window E len (position # ps) s =
     (let (r, s) = local_read E position s in
      if \<not> accepted r then refused r s
      else case unb64 (qt E) (jstr (oget ''data'' r)) of
        None \<Rightarrow> stop_with ''invalid_local_chunk'' s
      | Some bytes \<Rightarrow>
          if int (length bytes) \<noteq> min chunk_bytes (len - position) then stop_with ''invalid_local_chunk'' s
          else push_window E len ps (send E (obj [(''action'', JStr ''chunk''), (''entry'', JObj (current s)), (''offset'', jnumstr position),
                 (''data'', oget ''data'' r)]) (OnChunk position (position + int (length bytes)) len) s))"

definition push_chunk :: "'s setting \<Rightarrow> 's sync \<Rightarrow> 's sync" where
  "push_chunk E s =
     (let len = size_of (current s) in
      if offset_of s = len then send E (obj [(''action'', JStr ''commit''), (''entry'', JObj (current s))]) OnCommit s
      else let (done, s) = refresh_between_chunks E s in
      if done then s
      else push_window E len (window_positions len s) (s\<lparr>pending_chunks := window_size len s\<rparr>))"

definition next_entry :: "'s sync \<Rightarrow> 's sync" where
  "next_entry s = s\<lparr>index := Suc (index s)\<rparr>"

definition on_begin :: "'s setting \<Rightarrow> bool \<Rightarrow> int \<Rightarrow> jobj \<Rightarrow> 's sync \<Rightarrow> 's sync" where
  "on_begin E inlined len r s =
     (if \<not> accepted r then refused r s
      else if jbool (oget ''complete'' r) then
        push_next E (next_entry (if inlined \<and> len > 0 then emit (Progress (path_of (current s)) len len) (s\<lparr>transferred := True\<rparr>) else s))
      else if inlined then stop_with ''invalid_inline_acknowledgement'' s
      else case nonnegative (oget ''offset'' r) of
        None \<Rightarrow> stop_with ''invalid_transfer_offset'' s
      | Some position \<Rightarrow>
          if oget ''kind'' (current s) \<noteq> JStr ''file'' \<or> position > size_of (current s) then stop_with ''invalid_transfer_offset'' s
          else push_chunk E (s\<lparr>offset_of := position\<rparr>))"

definition on_commit :: "'s setting \<Rightarrow> jobj \<Rightarrow> 's sync \<Rightarrow> 's sync" where
  "on_commit E r s = (if \<not> accepted r then refused r s else push_next E (next_entry s))"

text \<open>The acknowledgements that continue the upload at its offset, at most as many as have arrived.\<close>

fun drain_acknowledged :: "int \<Rightarrow> nat \<Rightarrow> 's sync \<Rightarrow> 's sync" where
  "drain_acknowledged len 0 s = s"
| "drain_acknowledged len (Suc n) s =
     (if \<not> active s then s
      else case map_of (acknowledged_chunks s) (offset_of s) of
        None \<Rightarrow> s
      | Some next \<Rightarrow>
          drain_acknowledged len n (emit (Progress (path_of (current s)) next len)
            (s\<lparr>acknowledged_chunks := filter (\<lambda>c. fst c \<noteq> offset_of s) (acknowledged_chunks s), offset_of := next, transferred := True\<rparr>)))"

definition on_chunk :: "'s setting \<Rightarrow> int \<Rightarrow> int \<Rightarrow> int \<Rightarrow> jobj \<Rightarrow> 's sync \<Rightarrow> 's sync" where
  "on_chunk E position next len r s =
     (if \<not> accepted r then refused r s
      else if jstr (oget ''offset'' r) \<noteq> num_str next then stop_with ''invalid_upload_acknowledgement'' s
      else let s = s\<lparr>acknowledged_chunks := upsert position next (acknowledged_chunks s), pending_chunks := pending_chunks s - 1\<rparr>;
               s = drain_acknowledged len (length (acknowledged_chunks s)) s in
      if active s \<and> pending_chunks s = 0 then later RunPushChunk s else s)"


section \<open>Downloads\<close>

definition in_entries :: "string \<Rightarrow> 's sync \<Rightarrow> bool" where
  "in_entries path s \<longleftrightarrow> list_ex (\<lambda>e. oget ''path'' e = JStr path) (entries s)"

definition is_resident :: "'s setting \<Rightarrow> string \<Rightarrow> 's sync \<Rightarrow> bool \<times> 's sync" where
  "is_resident E path s = on_replica (resident (qt E) path) s"

definition wanted_paths :: "'s setting \<Rightarrow> 's sync \<Rightarrow> string list \<times> 's sync" where
  "wanted_paths E s = (let (ps, m) = requested_paths (storage E) (replica_of s) (map_state (map_of_storage s)) in
     (ps, s\<lparr>map_of_storage := (map_of_storage s)\<lparr>map_state := m\<rparr>\<rparr>))"

text \<open>The requested originals that are not here and that the host did not list.\<close>

fun add_requested :: "'s setting \<Rightarrow> string list \<Rightarrow> 's sync \<Rightarrow> 's sync" where
  "add_requested E [] s = s"
| "add_requested E (path # paths) s =
     (let (here, s) = is_resident E path s; e = odel ''locations'' (object_metadata path (replica_of s)) in
      add_requested E paths
        (if \<not> here \<and> \<not> in_entries path s \<and> oget ''kind'' e = JStr ''file'' then s\<lparr>entries := entries s @ [e]\<rparr> else s))"

text \<open>At most 16 photo identities in a run.\<close>

fun add_identities :: "jobj list \<Rightarrow> 's sync \<Rightarrow> 's sync" where
  "add_identities [] s = s"
| "add_identities (e # es) s =
     (if path_of e \<in> set (hydrated s) then add_identities es s
      else if length (photo_identities s) + length (hydrated s) \<ge> 16 then s
      else add_identities es (s\<lparr>photo_identities := photo_identities s @ [path_of e],
             entries := (if in_entries (path_of e) s then entries s else entries s @ [e])\<rparr>))"

definition model_index :: "jobj \<Rightarrow> bool" where
  "model_index e \<longleftrightarrow> starts_with ''models/'' (path_of e) \<and> ends_with ''/model_index.json'' (path_of e) \<and> size_of e \<le> 1024 * 1024"

definition metadata_only :: "jobj \<Rightarrow> 's sync \<Rightarrow> bool" where
  "metadata_only e s \<longleftrightarrow> content_policy s = MetadataFirst \<and> oget ''kind'' e = JStr ''file''
     \<and> (let here = entry_record (path_of e) (replica_of s);
            identity = (path_of e \<in> set (photo_identities s) \<or> model_index e);
            pending = (here \<noteq> [] \<and> \<not> has_key ''revision'' here) in
        \<not> identity \<and> path_of e \<notin> set (requested s) \<and> \<not> pending \<and> oget ''kind'' here \<noteq> JStr ''directory'')"

definition has_local_payload :: "'s setting \<Rightarrow> jobj \<Rightarrow> 's sync \<Rightarrow> bool \<times> 's sync" where
  "has_local_payload E e s =
     (let here = entry_record (path_of e) (replica_of s) in
      if oget ''kind'' e = JStr ''file'' \<and> oget ''kind'' here = JStr ''file'' \<and> oget ''hash'' here = oget ''hash'' e
         \<and> oget ''size'' here = oget ''size'' e
      then is_resident E (path_of e) s else (False, s))"

definition priority :: "'s setting \<Rightarrow> jobj \<Rightarrow> 's sync \<Rightarrow> nat \<times> 's sync" where
  "priority E e s =
     (if oget ''kind'' e = JStr ''directory'' then (0, s)
      else if oget ''kind'' e \<noteq> JStr ''file'' then (1, s)
      else if metadata_only e s then (2, s)
      else let (here, s) = has_local_payload E e s in
      (if here then 3 else if path_of e \<in> set (requested s) then 4 else 5, s))"

fun priorities :: "'s setting \<Rightarrow> jobj list \<Rightarrow> (string \<times> nat) list \<Rightarrow> 's sync \<Rightarrow> (string \<times> nat) list \<times> 's sync" where
  "priorities E [] ps s = (ps, s)"
| "priorities E (e # es) ps s = (let (p, s) = priority E e s in priorities E es (upsert (path_of e) p ps) s)"

definition priority_of :: "(string \<times> nat) list \<Rightarrow> jobj \<Rightarrow> nat" where
  "priority_of ps e = (case map_of ps (path_of e) of None \<Rightarrow> 0 | Some p \<Rightarrow> p)"

definition order_downloads :: "'s setting \<Rightarrow> 's sync \<Rightarrow> 's sync" where
  "order_downloads E s =
     (let s = s\<lparr>entries := in_order (entries s), metadata_published := False\<rparr> in
      if content_policy s \<noteq> MetadataFirst then s
      else let (ps, s) = priorities E (entries s) [] s in s\<lparr>entries := sort_key (priority_of ps) (entries s)\<rparr>)"

text \<open>\<open>publishMetadata\<close> and \<open>completeSelected\<close>: \<open>False\<close> when the run has failed.\<close>

definition publish_metadata :: "'s setting \<Rightarrow> 's sync \<Rightarrow> bool \<times> 's sync" where
  "publish_metadata E s =
     (if content_policy s \<noteq> MetadataFirst \<or> metadata_published s then (True, s)
      else let (ok, s) = publish_map E s in
      if \<not> ok then (False, store_failed s) else (True, s\<lparr>metadata_published := True\<rparr>))"

definition complete_selected :: "'s setting \<Rightarrow> 's sync \<Rightarrow> bool \<times> 's sync" where
  "complete_selected E s =
     (if content_policy s \<noteq> MetadataFirst \<or> path_of (current s) \<notin> set (requested s) then (True, s)
      else let (ok, s) = publish_map E s in
      if \<not> ok then (False, store_failed s) else (True, complete_all E s))"

definition start_push :: "'s setting \<Rightarrow> 's sync \<Rightarrow> 's sync" where
  "start_push E s = push_next E (s\<lparr>entries := in_order (outgoing s), through_to := push_through s, index := 0\<rparr>)"

definition announce_changes :: "'s setting \<Rightarrow> 's sync \<Rightarrow> 's sync" where
  "announce_changes E s =
     (let (ok, s) = rescan E s in if \<not> ok then store_failed s else announce_local E ThenPushAll (start_push E) s)"

text \<open>The last entry has been taken: the cursor moves, and a mirror that has caught up becomes usable.\<close>

definition pull_end :: "'s setting \<Rightarrow> 's sync \<Rightarrow> 's sync" where
  "pull_end E s =
     (let (ok, s) = publish_metadata E s in
      if \<not> ok then s
      else let (begun, s) = begin_new_uploads E s in
      if begun then s
      else let caught_up = (through_to s = pulled_to s \<and> entries s = []); s = s\<lparr>pulled_to := through_to s\<rparr>; (ok, s) = save_peer E s in
      if \<not> ok then store_failed s
      else let s = s\<lparr>entries := []\<rparr> in
      if \<not> bootstrapping (replica_of s) then announce_changes E s
      else if \<not> caught_up then page E (pulled_to s) 0 s
      else let (ok, s) = on_replica (complete_bootstrap (qt E)) s in
      if \<not> ok then store_failed s
      else announce_changes E (emit (HostValidated (peer_id s)) (emit (MirrorChanged (host_binding s)) s)))"

definition pull_chunk :: "'s setting \<Rightarrow> 's sync \<Rightarrow> 's sync" where
  "pull_chunk E s =
     (let path = path_of (current s);
          (still, s) = (if content_policy s = MetadataFirst \<and> path \<in> set (requested s)
                        then (let (ps, s) = wanted_paths E s in (path \<in> set ps, s)) else (True, s)) in
      if \<not> still then later RunPull (next_entry s)
      else let len = size_of (current s) in
      if offset_of s = len then
        (let (r, s) = ask_store E (obj [(''action'', JStr ''commit''), (''entry'', JObj (current s))]) s in
         if \<not> accepted r then refused r s
         else let (ok, s) = complete_selected E s in
         if \<not> ok then s
         else let s = (if path \<in> set (photo_identities s) then s\<lparr>hydrated := List.insert path (hydrated s)\<rparr> else s) in
         later RunPull (next_entry s))
      else let (done, s) = refresh_between_chunks E s in
      if done then s
      else foldl (\<lambda>s position. send E (obj [(''action'', JStr ''read''), (''entry'', JObj (current s)), (''offset'', jnumstr position)]) (OnRead len position) s)
             (s\<lparr>pending_chunks := window_size len s\<rparr>) (window_positions len s))"

definition pull_entry :: "'s setting \<Rightarrow> 's sync \<Rightarrow> 's sync" where
  "pull_entry E s =
     (if metadata_only (current s) s then
        (let (ok, s) = on_replica (accept_metadata (qt E) (peer_id s) (current s)) s in
         if \<not> ok then store_failed s else later RunPull (next_entry s))
      else let (payload_here, s) = (if content_policy s = MetadataFirst then has_local_payload E (current s) s else (False, s));
               fetch = (oget ''kind'' (current s) = JStr ''file'' \<and> \<not> payload_here);
               (ok, s) = (if fetch then publish_metadata E s else (True, s)) in
      if \<not> ok then s
      else let (begun, s) = (if fetch \<and> path_of (current s) \<notin> set (requested s) then begin_new_uploads E s else (False, s)) in
      if begun then s
      else let (r, s) = ask_store E (obj [(''action'', JStr ''begin''), (''entry'', JObj (current s))]) s in
      if \<not> accepted r then refused r s
      else if jbool (oget ''complete'' r) then
        (let (ok, s) = complete_selected E s in if \<not> ok then s else later RunPull (next_entry s))
      else let (ok, s) = publish_metadata E s in
      if \<not> ok then s
      else case nonnegative (oget ''offset'' r) of
        None \<Rightarrow> stop_with ''invalid_transfer_offset'' s
      | Some position \<Rightarrow>
          if position > size_of (current s) then stop_with ''invalid_transfer_offset'' s
          else pull_chunk E (s\<lparr>offset_of := position\<rparr>))"

definition pull_next :: "'s setting \<Rightarrow> 's sync \<Rightarrow> 's sync" where
  "pull_next E s =
     (if \<not> active s then s
      else if index s \<ge> length (entries s) then pull_end E s
      else pull_entry E (s\<lparr>current := entries s ! index s\<rparr>))"

definition start_pull :: "'s setting \<Rightarrow> 's sync \<Rightarrow> 's sync" where
  "start_pull E s = pull_next E ((order_downloads E s)\<lparr>index := 0\<rparr>)"

definition on_journal_page :: "'s setting \<Rightarrow> int \<Rightarrow> jobj \<Rightarrow> 's sync \<Rightarrow> 's sync" where
  "on_journal_page E upper r s =
     (if \<not> accepted r then refused r s
      else let (ok, s) = (if upper \<noteq> 0 \<and> jstr (oget ''through'' r) \<noteq> num_str upper then (False, s)
                          else on_replica (accept_journal (qt E) (peer_id s) r) s) in
      if \<not> ok then stop_with (if store_error s = [] then ''invalid_namespace_page'' else store_error s) s
      else if jbool (oget ''more'' r) then next_journal E (jll (oget ''through'' r)) s
      else let (ps, s) = wanted_paths E s; s = s\<lparr>requested := ps, photo_identities := []\<rparr>;
               s = (if content_policy s = MetadataFirst then add_requested E (requested s) s else s);
               s = (if content_policy s = MetadataFirst \<and> \<not> bootstrapping (replica_of s)
                    then add_identities (missing_photo_identities (replica_of s)) s else s) in
      announce_local E ThenPull (start_pull E) s)"

definition on_manifest :: "'s setting \<Rightarrow> jobj \<Rightarrow> 's sync \<Rightarrow> 's sync" where
  "on_manifest E r s =
     (if \<not> accepted r then refused r s
      else let whole = (manifest_index s = length (outgoing s)) in
      if oget ''manifest'' r \<noteq> JStr (manifest_id s) \<or> jstr (oget ''next'' r) \<noteq> num_str (int (manifest_index s))
         \<or> \<not> is_bool (oget ''complete'' r) \<or> jbool (oget ''complete'' r) \<noteq> whole
      then stop_with ''invalid_manifest_acknowledgement'' s
      else if \<not> whole then announce_page E s
      else if oget ''snapshot'' r \<noteq> JObj (snapshot s) \<or> \<not> is_obj (oget ''diff'' r) then stop_with ''invalid_snapshot_analysis'' s
      else case manifest_ready s of
        None \<Rightarrow> s
      | Some ThenPull \<Rightarrow> start_pull E (s\<lparr>manifest_ready := None\<rparr>)
      | Some ThenPushAll \<Rightarrow> start_push E (s\<lparr>manifest_ready := None\<rparr>))"

text \<open>The chunks that continue the download at its offset go to the store in order.\<close>

fun drain_received :: "'s setting \<Rightarrow> int \<Rightarrow> nat \<Rightarrow> 's sync \<Rightarrow> 's sync" where
  "drain_received E len 0 s = s"
| "drain_received E len (Suc n) s =
     (if \<not> active s then s
      else case map_of (received_chunks s) (offset_of s) of
        None \<Rightarrow> s
      | Some chunk \<Rightarrow>
          (let s = s\<lparr>received_chunks := filter (\<lambda>c. fst c \<noteq> offset_of s) (received_chunks s)\<rparr>;
               (r, s) = ask_store E (obj [(''action'', JStr ''chunk''), (''entry'', JObj (current s)), (''offset'', jnumstr (offset_of s)),
                  (''data'', oget ''data'' chunk)]) s in
           if \<not> accepted r then refused r s
           else let s = s\<lparr>offset_of := offset_of s + min chunk_bytes (len - offset_of s), transferred := True\<rparr> in
           drain_received E len n (emit (Progress (path_of (current s)) (offset_of s) len) s)))"

definition on_read :: "'s setting \<Rightarrow> int \<Rightarrow> int \<Rightarrow> jobj \<Rightarrow> 's sync \<Rightarrow> 's sync" where
  "on_read E len position r s =
     (if \<not> accepted r then refused r s
      else case unb64 (qt E) (jstr (oget ''data'' r)) of
        None \<Rightarrow> stop_with ''invalid_download_chunk'' s
      | Some bytes \<Rightarrow>
          if int (length bytes) \<noteq> min chunk_bytes (len - position) \<or> nonnegative (oget ''offset'' r) \<noteq> Some position
             \<or> oget ''version'' r \<noteq> oget ''version'' (current s)
          then stop_with ''invalid_download_chunk'' s
          else let s = s\<lparr>received_chunks := upsert position r (received_chunks s), pending_chunks := pending_chunks s - 1\<rparr>;
                   s = drain_received E len (length (received_chunks s)) s in
          if active s \<and> pending_chunks s = 0 then later RunPullChunk s else s)"

section \<open>The synchronizer\<close>

definition new_sync :: "replica \<Rightarrow> 's published \<Rightarrow> 's sync" where
  "new_sync r m = \<lparr>replica_of = r, map_of_storage = m, status_of = Before, snapshot = [], snapshot_acknowledged = False, active = False,
     generation = 0, content_policy = FullReplica, requested = [], photo_identities = [], hydrated = [], previews = [], preview_index = 0,
     previews_done = False, metadata_published = False, early_push = False, peer_id = [], remote_replica = [], remote_container = [],
     expected_host = [], expected_container = [], requests = [], configured_window = 4, window = 1, pending_chunks = 0, inline_limit = 0,
     received_chunks = [], acknowledged_chunks = [], entries = [], index = 0, pulled_to = 0, pushed_to = 0, through_to = 0, offset_of = 0,
     current = [], manifests_used = False, outgoing = [], push_through = 0, manifest_index = 0, manifest_id = [], manifest_ready = None,
     slice_valid = False, slice_expired = False, transferred = False, tasks = [], drawn = 0, signals = []\<rparr>"

definition stop_sync :: "'s sync \<Rightarrow> 's sync" where
  "stop_sync s = stop_with ''cancelled'' s"

definition set_content_policy :: "policy \<Rightarrow> 's sync \<Rightarrow> bool \<times> 's sync" where
  "set_content_policy p s = (if active s then (False, s) else (True, s\<lparr>content_policy := p\<rparr>))"

definition set_transfer_window :: "int \<Rightarrow> 's sync \<Rightarrow> bool \<times> 's sync" where
  "set_transfer_window n s = (if active s \<or> n < 1 \<or> n > 4 then (False, s) else (True, s\<lparr>configured_window := n\<rparr>))"

definition set_expected_host :: "string \<Rightarrow> string \<Rightarrow> 's sync \<Rightarrow> 's sync" where
  "set_expected_host host con s = (stop_sync s)\<lparr>expected_host := host, expected_container := con\<rparr>"

definition start_sync :: "'s setting \<Rightarrow> string \<Rightarrow> 's sync \<Rightarrow> bool \<times> 's sync" where
  "start_sync E peer s =
     (if active s \<or> \<not> is_open (replica_of s) \<or> peer = [] then (False, s)
      else (True, describe_host E (s\<lparr>active := True, generation := Suc (generation s), peer_id := peer, entries := [], snapshot := [],
              snapshot_acknowledged := False, status_of := InProgress, slice_valid := False, transferred := False, previews_done := False,
              previews := [], preview_index := 0, photo_identities := [], hydrated := [], pulled_to := 0, pushed_to := 0\<rparr>)))"

definition respond :: "'s setting \<Rightarrow> callback \<Rightarrow> jobj \<Rightarrow> 's sync \<Rightarrow> 's sync" where
  "respond E f r s =
     (case f of
        OnSnapshot after \<Rightarrow> on_snapshot E (case after of ThenFinish \<Rightarrow> finish_run E | ThenPush \<Rightarrow> push_next E) r s
      | OnPreview e \<Rightarrow> on_preview E e r s
      | OnDescribe \<Rightarrow> on_describe E r s
      | OnPage after upper \<Rightarrow> on_page E after upper r s
      | OnJournal upper \<Rightarrow> on_journal_page E upper r s
      | OnManifest \<Rightarrow> on_manifest E r s
      | OnRead len position \<Rightarrow> on_read E len position r s
      | OnBegin inlined len \<Rightarrow> on_begin E inlined len r s
      | OnCommit \<Rightarrow> on_commit E r s
      | OnChunk position next len \<Rightarrow> on_chunk E position next len r s)"

definition receive :: "'s setting \<Rightarrow> string \<Rightarrow> jobj \<Rightarrow> 's sync \<Rightarrow> 's sync" where
  "receive E i response s =
     (case map_of (requests s) i of
        None \<Rightarrow> s
      | Some x \<Rightarrow>
          if \<not> active s then s
          else if \<not> accepted response then stop_with (text_or ''transport_failed'' (oget ''error'' response)) s
          else if jbool (oget ''pending'' response) then
            later (Resend i) (s\<lparr>requests := upsert i (x\<lparr>poll_delay := min 100 (poll_delay x * 2)\<rparr>) (requests s)\<rparr>)
          else if \<not> is_obj (oget ''result'' response) then stop_with ''invalid_sync_response'' s
          else respond E (done_with x) (jobject (oget ''result'' response))
                 (s\<lparr>requests := filter (\<lambda>y. fst y \<noteq> i) (requests s)\<rparr>))"

definition expire :: "'s setting \<Rightarrow> 's sync \<Rightarrow> 's sync" where
  "expire E s = (if list_ex (\<lambda>y. due (snd y) \<le> now_ms (qt E)) (requests s) then stop_with ''sync_request_timeout'' s else s)"

definition run_task :: "'s setting \<Rightarrow> nat \<Rightarrow> task \<Rightarrow> 's sync \<Rightarrow> 's sync" where
  "run_task E g t s =
     (if \<not> active s \<or> g \<noteq> generation s then s
      else case t of
        RunPull \<Rightarrow> pull_next E s
      | RunPullChunk \<Rightarrow> pull_chunk E s
      | RunPushChunk \<Rightarrow> push_chunk E s
      | RunPreview \<Rightarrow> preview_next E s
      | Resend i \<Rightarrow> transmit i s
      | Transmit i \<Rightarrow> (case map_of (requests s) i of None \<Rightarrow> s | Some x \<Rightarrow> emit (RequestReady i (peer_id s) (envelope x)) s))"

text \<open>The runs of the event loop: the owner's calls, responses and expiries in any order, a task at a time, changes of
  the replica and of the storage map by others between them, and the passing of time.\<close>

inductive sync_step :: "(nat \<Rightarrow> string) \<Rightarrow> 's sync \<Rightarrow> 's sync \<Rightarrow> bool" for ids where
  step_start: "fresh_id E = ids \<Longrightarrow> sync_step ids s (snd (start_sync E peer s))"
| step_stop: "sync_step ids s (stop_sync s)"
| step_expected: "sync_step ids s (set_expected_host host con s)"
| step_policy: "sync_step ids s (snd (set_content_policy p s))"
| step_window: "sync_step ids s (snd (set_transfer_window n s))"
| step_receive: "fresh_id E = ids \<Longrightarrow> sync_step ids s (receive E i r s)"
| step_expire: "fresh_id E = ids \<Longrightarrow> sync_step ids s (expire E s)"
| step_task: "fresh_id E = ids \<Longrightarrow> tasks s = before @ (g, t) # after \<Longrightarrow> sync_step ids s (run_task E g t (s\<lparr>tasks := before @ after\<rparr>))"
| step_others: "sync_step ids s (s\<lparr>replica_of := r, map_of_storage := m\<rparr>)"
| step_time: "sync_step ids s (s\<lparr>slice_expired := True\<rparr>)"

end
