(* ===== verification/SyncRuns.thy ===== *)
theory SyncRuns
  imports Synchronizer
begin

text \<open>
  The runs of the synchronizer. A run that is active has one thread of control: one request whose answer continues
  it, one scheduled task, or a window of chunk requests that are contiguous with the transfer's offset; a run that has
  ended leaves nothing behind.
\<close>

section \<open>Windows of chunks\<close>

text \<open>The positions in flight and those that have arrived are the consecutive chunks from the offset on.\<close>

definition windowed :: "int list \<Rightarrow> int list \<Rightarrow> int \<Rightarrow> int \<Rightarrow> bool" where
  "windowed ps qs off len \<longleftrightarrow> off \<le> len \<and> distinct (ps @ qs)
     \<and> (\<exists>k. set (ps @ qs) = (\<lambda>i. off + int i * chunk_bytes) ` {..<k} \<and> (k > 0 \<longrightarrow> off + (int k - 1) * chunk_bytes < len))"

lemma windowed_bound: "windowed ps qs off len \<Longrightarrow> off \<le> len"
  by (simp add: windowed_def)

lemma windowed_arrives:
  assumes "windowed (as @ p # bs) qs off len"
  shows "windowed (as @ bs) (p # qs) off len" "p \<notin> set qs"
  using assms by (auto simp: windowed_def)

lemma windowed_set: "set ps' = set ps \<Longrightarrow> set qs' = set qs \<Longrightarrow> distinct ps' \<Longrightarrow> distinct qs' \<Longrightarrow> windowed ps qs off len \<Longrightarrow> windowed ps' qs' off len"
  unfolding windowed_def by auto

lemma windowed_done:
  assumes "windowed [] qs off len" "off \<notin> set qs"
  shows "qs = []"
proof -
  obtain k where k: "set qs = (\<lambda>i. off + int i * chunk_bytes) ` {..<k}" using assms(1) by (auto simp: windowed_def)
  have "k = 0"
  proof (rule ccontr)
    assume "k \<noteq> 0"
    then have "off + int 0 * chunk_bytes \<in> (\<lambda>i. off + int i * chunk_bytes) ` {..<k}" by (intro imageI) simp
    then show False using k assms(2) by simp
  qed
  then show ?thesis using k by simp
qed

lemma chunk_image:
  "(\<lambda>i. off + int i * chunk_bytes) ` {..<Suc k} - {off} = (\<lambda>i. (off + chunk_bytes) + int i * chunk_bytes) ` {..<k}"
proof -
  have "(\<lambda>i. off + int i * chunk_bytes) ` {..<Suc k} - {off} = (\<lambda>i. off + int i * chunk_bytes) ` (Suc ` {..<k})"
    by (auto simp: chunk_bytes_def image_iff lessThan_Suc_eq_insert_0)
  then show ?thesis by (simp add: image_image algebra_simps)
qed

lemma windowed_takes:
  assumes w: "windowed ps qs off len" and off: "off \<in> set qs"
  shows "windowed ps (filter (\<lambda>q. q \<noteq> off) qs) (off + min chunk_bytes (len - off)) len"
proof -
  obtain n where n: "set (ps @ qs) = (\<lambda>i. off + int i * chunk_bytes) ` {..<n}"
    and last: "n > 0 \<longrightarrow> off + (int n - 1) * chunk_bytes < len" and d: "distinct (ps @ qs)"
    using w by (auto simp: windowed_def)
  obtain k where k: "n = Suc k" using n off by (cases n) auto
  have "off \<notin> set ps" using d off by auto
  then have "set (ps @ filter (\<lambda>q. q \<noteq> off) qs) = set (ps @ qs) - {off}" by auto
  then have rest: "set (ps @ filter (\<lambda>q. q \<noteq> off) qs) = (\<lambda>i. (off + chunk_bytes) + int i * chunk_bytes) ` {..<k}"
    using n chunk_image [of off k] k by simp
  have "off + int k * chunk_bytes < len" using last k by simp
  moreover have "int k * chunk_bytes \<ge> 0" by (simp add: chunk_bytes_def)
  moreover have "k > 0 \<Longrightarrow> chunk_bytes \<le> int k * chunk_bytes" by (simp add: chunk_bytes_def)
  ultimately have "off < len" and "k > 0 \<Longrightarrow> off + min chunk_bytes (len - off) = off + chunk_bytes"
    by linarith+
  moreover have "off + chunk_bytes + (int k - 1) * chunk_bytes < len" using last k by (simp add: algebra_simps)
  ultimately show ?thesis
    unfolding windowed_def using rest d by (intro conjI exI [of _ k]) (auto simp: min_def)
qed

section \<open>The states of a run\<close>

fun read_position :: "int \<Rightarrow> callback \<Rightarrow> int option" where
  "read_position len (OnRead l p) = (if l = len then Some p else None)"
| "read_position len f = None"

fun chunk_position :: "int \<Rightarrow> callback \<Rightarrow> int option" where
  "chunk_position len (OnChunk p next l) = (if l = len \<and> next = p + min chunk_bytes (len - p) then Some p else None)"
| "chunk_position len f = None"

definition is_delivery :: "task \<Rightarrow> bool" where
  "is_delivery t \<longleftrightarrow> (case t of Transmit i \<Rightarrow> True | Resend i \<Rightarrow> True | _ \<Rightarrow> False)"

definition threads :: "'s sync \<Rightarrow> task list" where
  "threads s = map snd (filter (\<lambda>(g, t). g = generation s \<and> \<not> is_delivery t) (tasks s))"

text \<open>What holds in every state.\<close>

definition sound :: "(nat \<Rightarrow> string) \<Rightarrow> 's sync \<Rightarrow> bool" where
  "sound ids s \<longleftrightarrow> configured_window s \<in> {1..4} \<and> window s \<in> {1..4} \<and> distinct (map fst (requests s))
     \<and> fst ` set (requests s) \<subseteq> ids ` {..<drawn s} \<and> (\<forall>(g, t) \<in> set (tasks s). g \<le> generation s)"

definition quiet :: "'s sync \<Rightarrow> bool" where
  "quiet s \<longleftrightarrow> requests s = [] \<and> threads s = [] \<and> pending_chunks s = 0 \<and> received_chunks s = [] \<and> acknowledged_chunks s = []"

definition idle :: "'s sync \<Rightarrow> bool" where
  "idle s \<longleftrightarrow> \<not> active s \<and> quiet s \<and> entries s = [] \<and> outgoing s = [] \<and> manifest_ready s = None"

text \<open>A handler holds the one thread of control.\<close>

definition running :: "(nat \<Rightarrow> string) \<Rightarrow> 's sync \<Rightarrow> bool" where
  "running ids s \<longleftrightarrow> sound ids s \<and> active s \<and> quiet s"

definition answer_ok :: "'s sync \<Rightarrow> callback \<Rightarrow> bool" where
  "answer_ok s f \<longleftrightarrow> (case f of OnManifest \<Rightarrow> manifest_ready s \<noteq> None | OnPreview e \<Rightarrow> previews_done s
     | OnRead l p \<Rightarrow> False | OnChunk p n l \<Rightarrow> False | _ \<Rightarrow> True)"

definition task_ok :: "'s sync \<Rightarrow> task \<Rightarrow> bool" where
  "task_ok s t \<longleftrightarrow> (case t of RunPullChunk \<Rightarrow> offset_of s \<le> size_of (current s) | RunPushChunk \<Rightarrow> offset_of s \<le> size_of (current s)
     | RunPreview \<Rightarrow> previews_done s | _ \<Rightarrow> True)"

definition awaiting :: "'s sync \<Rightarrow> bool" where
  "awaiting s \<longleftrightarrow> (\<exists>i x. requests s = [(i, x)] \<and> answer_ok s (done_with x)) \<and> threads s = [] \<and> pending_chunks s = 0
     \<and> received_chunks s = [] \<and> acknowledged_chunks s = []"

definition deferred :: "'s sync \<Rightarrow> bool" where
  "deferred s \<longleftrightarrow> requests s = [] \<and> (\<exists>t. threads s = [t] \<and> task_ok s t) \<and> pending_chunks s = 0
     \<and> received_chunks s = [] \<and> acknowledged_chunks s = []"

definition in_flight :: "'s sync \<Rightarrow> bool" where
  "in_flight s \<longleftrightarrow> threads s = [] \<and> pending_chunks s = int (length (requests s)) \<and> requests s \<noteq> [] \<and> pending_chunks s \<le> 4"

definition downloading :: "'s sync \<Rightarrow> bool" where
  "downloading s \<longleftrightarrow> in_flight s \<and> acknowledged_chunks s = []
     \<and> (\<exists>ps. map (\<lambda>y. read_position (size_of (current s)) (done_with (snd y))) (requests s) = map Some ps
          \<and> windowed ps (map fst (received_chunks s)) (offset_of s) (size_of (current s)))"

definition uploading :: "'s sync \<Rightarrow> bool" where
  "uploading s \<longleftrightarrow> in_flight s \<and> received_chunks s = []
     \<and> (\<forall>(p, n) \<in> set (acknowledged_chunks s). n = p + min chunk_bytes (size_of (current s) - p))
     \<and> (\<exists>ps. map (\<lambda>y. chunk_position (size_of (current s)) (done_with (snd y))) (requests s) = map Some ps
          \<and> windowed ps (map fst (acknowledged_chunks s)) (offset_of s) (size_of (current s)))"

definition settled :: "(nat \<Rightarrow> string) \<Rightarrow> 's sync \<Rightarrow> bool" where
  "settled ids s \<longleftrightarrow> sound ids s \<and> (if active s then awaiting s \<or> deferred s \<or> downloading s \<or> uploading s else idle s)"

lemmas state_defs = running_def sound_def quiet_def threads_def

lemma running_fields [simp]:
  "running ids (s\<lparr>replica_of := r\<rparr>) = running ids s" "running ids (s\<lparr>map_of_storage := m\<rparr>) = running ids s"
  "running ids (s\<lparr>snapshot := x\<rparr>) = running ids s" "running ids (s\<lparr>snapshot_acknowledged := b\<rparr>) = running ids s"
  "running ids (s\<lparr>requested := ps\<rparr>) = running ids s" "running ids (s\<lparr>photo_identities := ps\<rparr>) = running ids s"
  "running ids (s\<lparr>hydrated := ps\<rparr>) = running ids s" "running ids (s\<lparr>previews := es\<rparr>) = running ids s"
  "running ids (s\<lparr>preview_index := n\<rparr>) = running ids s" "running ids (s\<lparr>previews_done := b\<rparr>) = running ids s"
  "running ids (s\<lparr>metadata_published := b\<rparr>) = running ids s" "running ids (s\<lparr>early_push := b\<rparr>) = running ids s"
  "running ids (s\<lparr>remote_replica := i\<rparr>) = running ids s" "running ids (s\<lparr>remote_container := i\<rparr>) = running ids s"
  "running ids (s\<lparr>inline_limit := z\<rparr>) = running ids s" "running ids (s\<lparr>entries := es\<rparr>) = running ids s"
  "running ids (s\<lparr>index := n\<rparr>) = running ids s" "running ids (s\<lparr>pulled_to := z\<rparr>) = running ids s"
  "running ids (s\<lparr>pushed_to := z\<rparr>) = running ids s" "running ids (s\<lparr>through_to := z\<rparr>) = running ids s"
  "running ids (s\<lparr>offset_of := z\<rparr>) = running ids s" "running ids (s\<lparr>current := e\<rparr>) = running ids s"
  "running ids (s\<lparr>manifests_used := b\<rparr>) = running ids s" "running ids (s\<lparr>outgoing := es\<rparr>) = running ids s"
  "running ids (s\<lparr>push_through := z\<rparr>) = running ids s" "running ids (s\<lparr>manifest_index := n\<rparr>) = running ids s"
  "running ids (s\<lparr>manifest_id := i\<rparr>) = running ids s" "running ids (s\<lparr>manifest_ready := a\<rparr>) = running ids s"
  "running ids (s\<lparr>slice_valid := b\<rparr>) = running ids s" "running ids (s\<lparr>slice_expired := b\<rparr>) = running ids s"
  "running ids (s\<lparr>transferred := b\<rparr>) = running ids s" "running ids (s\<lparr>signals := xs\<rparr>) = running ids s"
  by (simp_all add: state_defs)


lemma running_active: "running ids s \<Longrightarrow> active s"
  by (simp add: running_def)

lemma running_emit [simp]: "running ids (emit x s) = running ids s"
  by (simp add: emit_def)

lemma running_on_replica [simp]: "running ids (snd (on_replica op s)) = running ids s"
  by (simp add: on_replica_def split_beta Let_def)

lemma running_draw: "running ids s \<Longrightarrow> running ids (snd (draw E s))"
  by (simp add: draw_def state_defs)

lemma running_window: "running ids s \<Longrightarrow> w \<in> {1..4} \<Longrightarrow> running ids (s\<lparr>window := w\<rparr>)"
  by (simp add: state_defs)

section \<open>Handlers keep one thread of control\<close>

text \<open>Weakest-precondition rules over the states a handler passes through.\<close>

definition exits :: "(nat \<Rightarrow> string) \<Rightarrow> bool \<Rightarrow> bool \<times> 's sync \<Rightarrow> bool" where
  "exits ids b p \<longleftrightarrow> (if fst p = b then settled ids (snd p) else running ids (snd p))"

lemma settled_op:
  "running ids (snd p) \<Longrightarrow> (\<And>x t. p = (x, t) \<Longrightarrow> running ids t \<Longrightarrow> settled ids (k x t)) \<Longrightarrow> settled ids (case p of (x, t) \<Rightarrow> k x t)"
  by (cases p) simp

lemma settled_exit:
  "exits ids b p \<Longrightarrow> (\<And>t. settled ids t \<Longrightarrow> settled ids (k b t)) \<Longrightarrow> (\<And>t. p = (\<not> b, t) \<Longrightarrow> running ids t \<Longrightarrow> settled ids (k (\<not> b) t))
     \<Longrightarrow> settled ids (case p of (x, t) \<Rightarrow> k x t)"
  by (cases p) (auto simp: exits_def split: if_splits)

lemma settled_if: "(b \<Longrightarrow> settled ids s) \<Longrightarrow> (\<not> b \<Longrightarrow> settled ids t) \<Longrightarrow> settled ids (if b then s else t)"
  by simp

lemma settled_stop: "sound ids s \<Longrightarrow> active s \<Longrightarrow> settled ids (stop_with e s)"
proof -
  assume s: "sound ids s" "active s"
  then have "\<And>g t. (g, t) \<in> set (tasks s) \<Longrightarrow> g \<noteq> Suc (generation s)" unfolding sound_def by fastforce
  then have "filter (\<lambda>(g, t). g = Suc (generation s) \<and> \<not> is_delivery t) (tasks s) = []" by (auto simp: filter_empty_conv)
  then show ?thesis using s
    by (auto simp: stop_with_def end_run_def emit_def settled_def sound_def idle_def quiet_def threads_def le_SucI)
qed

lemma settled_end: "running ids s \<Longrightarrow> settled ids (end_run ok e s)"
proof -
  assume s: "running ids s"
  then have "\<And>g t. (g, t) \<in> set (tasks s) \<Longrightarrow> g \<noteq> Suc (generation s)" unfolding running_def sound_def by fastforce
  then have "filter (\<lambda>(g, t). g = Suc (generation s) \<and> \<not> is_delivery t) (tasks s) = []" by (auto simp: filter_empty_conv)
  then show ?thesis using s
    by (auto simp: end_run_def emit_def settled_def running_def sound_def idle_def quiet_def threads_def le_SucI)
qed

lemma settled_stopped: "running ids s \<Longrightarrow> settled ids (stop_with e s)"
  by (simp add: running_def settled_stop)

lemma settled_refused: "running ids s \<Longrightarrow> settled ids (refused r s)" "running ids s \<Longrightarrow> settled ids (store_failed s)"
  by (simp_all add: refused_def store_failed_def settled_stopped)

lemma settled_later: "running ids s \<Longrightarrow> \<not> is_delivery t \<Longrightarrow> task_ok s t \<Longrightarrow> settled ids (later t s)"
  unfolding settled_def
  by (auto simp: later_def state_defs deferred_def task_ok_def split: task.splits)

lemma settled_send:
  assumes "running ids s" "fresh_id E = ids" "answer_ok s f"
  shows "settled ids (send E m f s)"
proof -
  have "awaiting (send E m f s)"
    using assms unfolding awaiting_def send_def
    by (auto simp: draw_def transmit_def later_def state_defs is_delivery_def answer_ok_def split: callback.splits)
  moreover have "sound ids (send E m f s)" "active (send E m f s)"
    using assms by (auto simp: send_def draw_def transmit_def later_def state_defs)
  ultimately show ?thesis by (simp add: settled_def)
qed

lemmas settle = settled_refused settled_stopped settled_end settled_later settled_send

lemma settled_snapshot: "running ids s \<Longrightarrow> fresh_id E = ids \<Longrightarrow> settled ids (acknowledge_snapshot E a s)"
  unfolding acknowledge_snapshot_def by (rule settled_send) (simp_all add: answer_ok_def)

lemma settled_page: "running ids s \<Longrightarrow> fresh_id E = ids \<Longrightarrow> settled ids (page E a u s)"
  unfolding page_def by (rule settled_send) (simp_all add: answer_ok_def)

lemma settled_journal: "running ids s \<Longrightarrow> fresh_id E = ids \<Longrightarrow> settled ids (next_journal E u s)"
  unfolding next_journal_def by (rule settled_send) (simp_all add: answer_ok_def)

text \<open>The operations of the store change only the store.\<close>

definition store_only :: "'s sync \<Rightarrow> 's sync \<Rightarrow> bool" where
  "store_only s t \<longleftrightarrow> (\<exists>r m. t = s\<lparr>replica_of := r, map_of_storage := m\<rparr>)"

lemma store_onlyI: "t = s\<lparr>replica_of := r, map_of_storage := m\<rparr> \<Longrightarrow> store_only s t"
  unfolding store_only_def by blast

lemma store_only_refl [simp]: "store_only s s"
  by (rule store_only_def [THEN iffD2]) (rule exI [of _ "replica_of s"], rule exI [of _ "map_of_storage s"], simp)

lemma store_only_update [simp]: "store_only s (s\<lparr>replica_of := r\<rparr>)" "store_only s (s\<lparr>map_of_storage := m\<rparr>)"
  "store_only s (s\<lparr>replica_of := r, map_of_storage := m\<rparr>)"
proof -
  show "store_only s (s\<lparr>replica_of := r\<rparr>)" unfolding store_only_def
    by (rule exI [of _ r], rule exI [of _ "map_of_storage s"]) simp
  show "store_only s (s\<lparr>map_of_storage := m\<rparr>)" unfolding store_only_def
    by (rule exI [of _ "replica_of s"], rule exI [of _ m]) simp
  show "store_only s (s\<lparr>replica_of := r, map_of_storage := m\<rparr>)" by (auto simp: store_only_def)
qed

interpretation store: op_rel store_only
proof
  show "store_only r r" for r :: "'s sync" by simp
  show "store_only r t" if "store_only r s" "store_only s t" for r s t :: "'s sync"
    using that by (auto simp: store_only_def [of r s] store_only_def [of s t] intro: store_onlyI)
qed

lemma store_replica [simp]: "store_only s (snd (on_replica op s))"
  by (simp add: on_replica_def split_beta Let_def)

lemma store_ops [simp]: "store_only s (snd (publish_map E s))" "store_only s (complete_all E s)" "store_only s (snd (save_peer E s))"
  "store_only s (snd (rescan E s))" "store_only s (snd (ask_store E q s))" "store_only s (snd (local_read E z s))"
  "store_only s (snd (is_resident E p s))" "store_only s (snd (wanted_paths E s))"
  by (simp_all add: publish_map_def complete_all_def save_peer_def rescan_def ask_store_def local_read_def is_resident_def
      wanted_paths_def split_beta Let_def)

lemma settled_store:
  assumes "store_only s (snd p)" "\<And>x r m. settled ids (k x (s\<lparr>replica_of := r, map_of_storage := m\<rparr>))"
  shows "settled ids (case p of (x, t) \<Rightarrow> k x t)"
  using assms by (cases p) (auto simp: store_only_def)

lemma complete_fields [simp]: "running ids (complete_all E s) = running ids s" "previews_done (complete_all E s) = previews_done s"
  "content_policy (complete_all E s) = content_policy s" "current (complete_all E s) = current s" "offset_of (complete_all E s) = offset_of s"
  by (simp_all add: complete_all_def split_beta Let_def)

lemma running_store: "store_only s t \<Longrightarrow> running ids t = running ids s"
  by (auto simp: store_only_def)

lemmas running_ops [simp] = store_ops [THEN running_store]

lemmas settled_stores = store_ops(1) [THEN settled_store] store_ops(3) [THEN settled_store] store_ops(4) [THEN settled_store]
  store_ops(5) [THEN settled_store] store_ops(6) [THEN settled_store] store_ops(7) [THEN settled_store] store_ops(8) [THEN settled_store]
  store_replica [THEN settled_store]

lemma settled_finish_with:
  assumes "running ids s" "fresh_id E = ids"
    and "\<And>t. running ids t \<Longrightarrow> previews_done t \<Longrightarrow> \<not> previews_done s \<Longrightarrow> settled ids (f t)"
  shows "settled ids (finish_with E f s)"
  unfolding finish_with_def Let_def
  using assms
  by (intro settled_if settled_stores) (auto simp: running_active intro!: settled_snapshot settle assms(3))

lemma settled_preview: "running ids s \<Longrightarrow> fresh_id E = ids \<Longrightarrow> previews_done s \<Longrightarrow> settled ids (preview_next E s)"
  unfolding preview_next_def Let_def
  by (intro settled_if settled_finish_with settled_send) (simp_all add: answer_ok_def)

lemma settled_finish: "running ids s \<Longrightarrow> fresh_id E = ids \<Longrightarrow> settled ids (finish_run E s)"
  unfolding finish_run_def by (rule settled_finish_with) (simp_all add: settled_preview)

lemma settled_announce_page:
  "running ids s \<Longrightarrow> fresh_id E = ids \<Longrightarrow> manifest_ready s \<noteq> None \<Longrightarrow> settled ids (announce_page E s)"
  unfolding announce_page_def Let_def
  by (intro settled_send) (simp_all add: answer_ok_def)

lemma exits_pages: "running ids s \<Longrightarrow> case local_pages E n c u es s of (None, t) \<Rightarrow> settled ids t | (Some x, t) \<Rightarrow> running ids t"
proof (induction E n c u es s rule: local_pages.induct)
  case (2 E n c u es s)
  obtain q t where q: "on_replica (changes_page (qt E) c u) s = (q, t)" by (cases "on_replica (changes_page (qt E) c u) s")
  then have "running ids t" using 2(2) running_on_replica [of ids "changes_page (qt E) c u" s] by simp
  then show ?case using 2(1) [OF q [symmetric]] q by (auto simp: Let_def intro: settle)
qed (simp add: settle)

lemma running_new_snapshot: "running ids s \<Longrightarrow> running ids (new_snapshot E s)" "manifest_ready (new_snapshot E s) = manifest_ready s"
  using running_draw [of ids s E] by (auto simp: new_snapshot_def draw_def Let_def)

lemma settled_announce_local:
  assumes "running ids s" "fresh_id E = ids" "\<And>t. running ids t \<Longrightarrow> settled ids (f t)"
  shows "settled ids (announce_local E a f s)"
proof -
  let ?s = "s\<lparr>outgoing := [], push_through := pushed_to s\<rparr>"
  define p where "p = (if bootstrapping (replica_of ?s) then (Some ([], pushed_to ?s), ?s)
    else local_pages E (Suc (row_count ?s)) (pushed_to ?s) 0 [] ?s)"
  have p: "case p of (None, t) \<Rightarrow> settled ids t | (Some x, t) \<Rightarrow> running ids t"
    unfolding p_def using assms(1) exits_pages [of ids ?s E "Suc (row_count ?s)" "pushed_to ?s" 0 "[]"] by auto
  show ?thesis unfolding announce_local_def Let_def p_def [symmetric, unfolded Let_def]
    using p assms(2,3)
    by (cases p) (auto split: option.splits intro!: settled_announce_page simp: running_new_snapshot)
qed


lemma settled_push_end: "running ids s \<Longrightarrow> fresh_id E = ids \<Longrightarrow> settled ids (push_end E s)"
  unfolding push_end_def Let_def
  by (intro settled_if settled_stores settled_page settled_snapshot settled_finish settle) simp_all

lemma settled_push_begin: "running ids s \<Longrightarrow> fresh_id E = ids \<Longrightarrow> settled ids (push_begin E s)"
  unfolding push_begin_def Let_def
  by (intro settled_if settled_stores settled_send) (auto simp: answer_ok_def split: option.split intro!: settle)

lemma settled_push: "running ids s \<Longrightarrow> fresh_id E = ids \<Longrightarrow> settled ids (push_next E s)"
  unfolding push_next_def by (auto simp: running_active intro!: settled_push_end settled_push_begin)

lemma exits_uploads: "running ids s \<Longrightarrow> fresh_id E = ids \<Longrightarrow> exits ids True (begin_new_uploads E s)"
  by (auto simp: exits_def begin_new_uploads_def Let_def intro!: settled_push)

lemma settled_push_all: "running ids s \<Longrightarrow> fresh_id E = ids \<Longrightarrow> settled ids (start_push E s)"
  unfolding start_push_def by (rule settled_push) simp_all

lemma exits_refresh: "running ids s \<Longrightarrow> fresh_id E = ids \<Longrightarrow> exits ids True (refresh_between_chunks E s)"
proof -
  assume "running ids s" "fresh_id E = ids"
  then show ?thesis by (auto simp: exits_def refresh_between_chunks_def Let_def split_beta intro!: settled_page settle)
qed

lemma refresh_same: "refresh_between_chunks E s = (False, t) \<Longrightarrow> current t = current s \<and> offset_of t = offset_of s"
  by (auto simp: refresh_between_chunks_def Let_def split_beta split: if_splits)

lemma exits_metadata: "running ids s \<Longrightarrow> exits ids False (publish_metadata E s)"
  "running ids s \<Longrightarrow> exits ids False (complete_selected E s)"
  by (auto simp: exits_def publish_metadata_def complete_selected_def Let_def split_beta intro!: settle)

section \<open>Filling a window\<close>

definition filling :: "(nat \<Rightarrow> string) \<Rightarrow> (int \<Rightarrow> callback \<Rightarrow> int option) \<Rightarrow> int \<Rightarrow> int list \<Rightarrow> 's sync \<Rightarrow> bool" where
  "filling ids pos len ps s \<longleftrightarrow> sound ids s \<and> active s \<and> threads s = [] \<and> received_chunks s = [] \<and> acknowledged_chunks s = []
     \<and> map (\<lambda>y. pos len (done_with (snd y))) (requests s) = map Some ps"

lemma upsert_new: "k \<notin> fst ` set xs \<Longrightarrow> upsert k v xs = xs @ [(k, v)]"
  by (induction xs) auto

lemma filling_send:
  assumes "filling ids pos len ps s" "inj ids" "fresh_id E = ids" "pos len f = Some p"
  shows "filling ids pos len (ps @ [p]) (send E m f s)" "pending_chunks (send E m f s) = pending_chunks s"
    "current (send E m f s) = current s" "offset_of (send E m f s) = offset_of s"
proof -
  have new: "ids (drawn s) \<notin> fst ` set (requests s)"
  proof
    assume "ids (drawn s) \<in> fst ` set (requests s)"
    then have "ids (drawn s) \<in> ids ` {..<drawn s}" using assms(1) by (auto simp: filling_def sound_def)
    then show False using assms(2) by (auto simp: inj_eq)
  qed
  have "fst ` set (requests s) \<subseteq> ids ` {..<Suc (Suc (drawn s))}"
    using assms(1) unfolding filling_def sound_def by (auto simp: lessThan_Suc)
  then show "filling ids pos len (ps @ [p]) (send E m f s)"
    using assms new
    by (auto simp: filling_def sound_def send_def draw_def transmit_def later_def upsert_new threads_def is_delivery_def addressed_def Let_def)
  show "pending_chunks (send E m f s) = pending_chunks s" "current (send E m f s) = current s" "offset_of (send E m f s) = offset_of s"
    by (simp_all add: send_def draw_def transmit_def later_def Let_def)
qed

lemma window_windowed:
  assumes "offset_of s < len" "window s \<in> {1..4}"
  shows "windowed (window_positions len s) [] (offset_of s) len" "window_positions len s \<noteq> []"
    "window_size len s = int (length (window_positions len s))" "window_size len s \<le> 4"
proof -
  let ?n = "nat (window_size len s)"
  have "(len - offset_of s + chunk_bytes - 1) div chunk_bytes \<ge> 1"
    using assms(1) by (simp add: chunk_bytes_def)
  then have n: "window_size len s \<ge> 1" using assms(2) by (simp add: window_size_def)
  have "window_size len s * chunk_bytes \<le> len - offset_of s + chunk_bytes - 1"
    by (simp add: window_size_def chunk_bytes_def)
  then have "offset_of s + (int ?n - 1) * chunk_bytes < len" using n by (simp add: algebra_simps)
  moreover have "set (window_positions len s) = (\<lambda>i. offset_of s + int i * chunk_bytes) ` {..<?n}"
    by (simp add: window_positions_def lessThan_atLeast0)
  moreover have "distinct (window_positions len s)"
    by (simp add: window_positions_def distinct_map inj_on_def chunk_bytes_def)
  ultimately show "windowed (window_positions len s) [] (offset_of s) len"
    using assms(1) unfolding windowed_def by auto
  show "window_positions len s \<noteq> []" "window_size len s = int (length (window_positions len s))" using n
    by (simp_all add: window_positions_def)
  show "window_size len s \<le> 4" using assms(2) by (auto simp: window_size_def min_le_iff_disj)
qed


lemma filling_running: "running ids s \<Longrightarrow> filling ids pos len [] s"
  by (simp add: filling_def running_def quiet_def)

lemma filling_pending [simp]: "filling ids pos len ps (s\<lparr>pending_chunks := n\<rparr>) = filling ids pos len ps s"
  by (simp add: filling_def sound_def threads_def)

lemma filling_store: "store_only s t \<Longrightarrow> filling ids pos len ps t = filling ids pos len ps s"
  unfolding store_only_def by (elim exE) (simp add: filling_def sound_def threads_def)

lemma filled:
  assumes "filling ids pos len ps s" "windowed ps [] (offset_of s) len" "ps \<noteq> []" "pending_chunks s = int (length ps)"
    "pending_chunks s \<le> 4" "len = size_of (current s)" "pos = read_position \<or> pos = chunk_position"
  shows "settled ids s"
proof -
  have "length (requests s) = length ps" using assms(1) map_eq_imp_length_eq [of "\<lambda>y. pos len (done_with (snd y))" "requests s" Some ps]
    by (simp add: filling_def)
  then have "in_flight s" using assms by (auto simp: in_flight_def filling_def)
  then have "downloading s \<or> uploading s" using assms by (auto simp: filling_def downloading_def uploading_def)
  then show ?thesis using assms(1) by (auto simp: settled_def filling_def)
qed

lemma filled_pulls:
  assumes "filling ids read_position len as s" "inj ids" "fresh_id E = ids" "windowed (as @ ps) [] (offset_of s) len" "as @ ps \<noteq> []"
    "pending_chunks s = int (length (as @ ps))" "pending_chunks s \<le> 4" "len = size_of (current s)"
  shows "settled ids (foldl (\<lambda>s position. send E (message s position) (OnRead len position) s) s ps)"
  using assms
proof (induction ps arbitrary: as s)
  case Nil
  then show ?case by (auto intro: filled)
next
  case (Cons p ps)
  note next_state = filling_send [OF Cons.prems(1) Cons.prems(2) Cons.prems(3), of "OnRead len p" p "message s p"]
  show ?case unfolding foldl.simps by (rule Cons.IH [of "as @ [p]"]) (use Cons.prems(2-) next_state in simp_all)
qed

lemma filled_pushes:
  assumes "filling ids chunk_position len as s" "inj ids" "fresh_id E = ids" "windowed (as @ ps) [] (offset_of s) len" "as @ ps \<noteq> []"
    "pending_chunks s = int (length (as @ ps))" "pending_chunks s \<le> 4" "len = size_of (current s)"
  shows "settled ids (push_window E len ps s)"
  using assms
proof (induction ps arbitrary: as s)
  case Nil
  then show ?case by (auto intro: filled)
next
  case (Cons p ps)
  obtain q r m where read: "local_read E p s = (q, s\<lparr>replica_of := r, map_of_storage := m\<rparr>)"
    using store_ops(6) [of s E p] by (cases "local_read E p s") (auto simp: store_only_def)
  let ?t = "s\<lparr>replica_of := r, map_of_storage := m\<rparr>"
  have fill: "filling ids chunk_position len as ?t" using Cons.prems(1) filling_store [of s ?t] by simp
  then have stop: "settled ids (stop_with e ?t)" for e by (auto intro: settled_stop simp: filling_def)
  note next_state = filling_send [OF fill Cons.prems(2) Cons.prems(3)]
  have go: "settled ids (push_window E len ps (send E message (OnChunk p (p + min chunk_bytes (len - p)) len) ?t))" for message
    by (rule Cons.IH [of "as @ [p]"])
      (use Cons.prems(2-) next_state [of "OnChunk p (p + min chunk_bytes (len - p)) len" p] in simp_all)
  show ?case using stop go by (auto simp: read refused_def Let_def split: option.split)
qed

lemma settled_push_chunk:
  assumes "running ids s" "fresh_id E = ids" "inj ids" "offset_of s \<le> size_of (current s)"
  shows "settled ids (push_chunk E s)"
  unfolding push_chunk_def Let_def
proof (intro settled_if settled_exit [OF exits_refresh [OF assms(1,2)]])
  fix t assume off: "offset_of s \<noteq> size_of (current s)" and t: "refresh_between_chunks E s = (\<not> True, t)" "running ids t"
  have same: "current t = current s" "offset_of t = offset_of s" using refresh_same t(1) by auto
  have w: "window t \<in> {1..4}" using t(2) by (simp add: running_def sound_def)
  note win = window_windowed [of t "size_of (current s)", OF _ w]
  show "settled ids (push_window E (size_of (current s)) (window_positions (size_of (current s)) t)
      (t\<lparr>pending_chunks := window_size (size_of (current s)) t\<rparr>))"
    by (rule filled_pushes [where as = "[]", OF _ assms(3) assms(2)]) (use win off same filling_running [OF t(2)] assms(4) in auto)
qed (use assms in \<open>auto intro!: settled_send simp: answer_ok_def\<close>)


section \<open>Downloads\<close>

lemma settled_announce_changes: "running ids s \<Longrightarrow> fresh_id E = ids \<Longrightarrow> settled ids (announce_changes E s)"
  unfolding announce_changes_def Let_def
  by (intro settled_stores settled_if settled_announce_local settle settled_push_all) simp_all

lemma settled_pull_end: "running ids s \<Longrightarrow> fresh_id E = ids \<Longrightarrow> settled ids (pull_end E s)"
  unfolding pull_end_def Let_def
  by (intro settled_if settled_stores settled_page settled_announce_changes settle
      settled_exit [OF exits_metadata(1)] settled_exit [OF exits_uploads]) simp_all

lemma settled_pull_chunk:
  assumes "running ids s" "fresh_id E = ids" "inj ids" "offset_of s \<le> size_of (current s)"
  shows "settled ids (pull_chunk E s)"
proof -
  define p where "p = (if content_policy s = MetadataFirst \<and> path_of (current s) \<in> set (requested s)
      then (let (ps, t) = wanted_paths E s in (path_of (current s) \<in> set ps, t)) else (True, s))"
  have "store_only s (snd p)" using store_ops(8) [of s E] by (simp add: p_def split_beta)
  then obtain still r m where p: "p = (still, s\<lparr>replica_of := r, map_of_storage := m\<rparr>)"
    by (cases p) (auto simp: store_only_def)
  let ?s = "s\<lparr>replica_of := r, map_of_storage := m\<rparr>"
  have s: "running ids ?s" using assms(1) by simp
  have next_one: "settled ids (later RunPull (next_entry t))" if "running ids t" for t
    using that by (auto intro!: settled_later simp: next_entry_def is_delivery_def task_ok_def)
  have window: "settled ids (foldl (\<lambda>s position. send E (message s position) (OnRead len position) s)
      (t\<lparr>pending_chunks := window_size len t\<rparr>) (window_positions len t))"
    if "offset_of s \<noteq> size_of (current s)" "refresh_between_chunks E ?s = (False, t)" "running ids t" "len = size_of (current s)"
    for t len message
  proof -
    have same: "current t = current s" "offset_of t = offset_of s" using refresh_same [of E ?s t] that(2) by auto
    have w: "window t \<in> {1..4}" using that(3) by (simp add: running_def sound_def)
    note win = window_windowed [of t len, OF _ w]
    show ?thesis
      by (rule filled_pulls [where as = "[]", OF _ assms(3) assms(2)])
        (use win that same filling_running [OF that(3)] assms(4) in auto)
  qed
  show ?thesis
    unfolding pull_chunk_def Let_def p_def [symmetric, unfolded Let_def] p prod.case
    using assms(1,4) s
    by (intro settled_if settled_stores settled_exit [OF exits_metadata(2)] settled_exit [OF exits_refresh [OF _ assms(2)]])
      (auto intro!: settled_refused next_one window)
qed

lemma running_fill: "running ids s \<Longrightarrow> running ids (add_requested E ps s)"
proof (induction E ps s rule: add_requested.induct)
  case (2 E p ps s)
  obtain here t where t: "is_resident E p s = (here, t)" by (cases "is_resident E p s")
  then have "running ids t" using running_ops(7) [of ids E p s] 2(2) by simp
  then show ?case using t 2(1) [OF t [symmetric] refl] by (simp add: Let_def)
qed simp

lemma running_identities: "running ids s \<Longrightarrow> running ids (add_identities es s)"
  by (induction es s rule: add_identities.induct) auto

lemma store_priority: "store_only s (snd (priority E e s))"
  by (auto simp: priority_def has_local_payload_def Let_def split_beta)

lemma store_payload [simp]: "store_only s (snd (has_local_payload E e s))"
  by (auto simp: has_local_payload_def Let_def)

lemma store_priorities: "store_only s (snd (priorities E es ps s))"
proof (induction E es ps s rule: priorities.induct)
  case (2 E e es ps s)
  obtain x t where t: "priority E e s = (x, t)" by (cases "priority E e s")
  then have "store_only s t" using store_priority [of s E e] by simp
  then show ?case using 2 [OF t [symmetric] refl] t store.trans by (auto simp: Let_def)
qed simp

lemmas running_priorities [simp] = store_priorities [THEN running_store]

lemma running_order: "running ids s \<Longrightarrow> running ids (order_downloads E s)"
  by (simp add: order_downloads_def Let_def split_beta)

lemma settled_pull_entry:
  assumes "running ids s" "fresh_id E = ids" "inj ids"
  shows "settled ids (pull_entry E s)"
proof -
  have next_one: "settled ids (later RunPull (next_entry t))" if "running ids t" for t
    using that by (auto intro!: settled_later simp: next_entry_def is_delivery_def task_ok_def)
  have fetched: "exits ids False (if b then publish_metadata E t else (True, t))" if "running ids t" for b t
    using that exits_metadata(1) [of ids t E] by (simp add: exits_def)
  have begun: "exits ids True (if b then begin_new_uploads E t else (False, t))" if "running ids t" for b t
    using that exits_uploads [of ids t E] assms(2) by (simp add: exits_def)
  have payload: "store_only s (snd (if b then has_local_payload E e s else (False, s)))" for b e by simp
  show ?thesis
    unfolding pull_entry_def Let_def
    using assms(1)
    apply (intro settled_if settled_stores settled_store [OF payload] settled_exit [OF fetched] settled_exit [OF begun]
        settled_exit [OF exits_metadata(1)] settled_exit [OF exits_metadata(2)])
    apply (auto intro!: settled_refused settled_stopped next_one settled_pull_chunk [OF _ assms(2,3)] split: option.split)
    done
qed


lemma settled_pull: "running ids s \<Longrightarrow> fresh_id E = ids \<Longrightarrow> inj ids \<Longrightarrow> settled ids (pull_next E s)"
  unfolding pull_next_def by (simp add: running_active settled_pull_end settled_pull_entry)

lemma settled_pull_all: "running ids s \<Longrightarrow> fresh_id E = ids \<Longrightarrow> inj ids \<Longrightarrow> settled ids (start_pull E s)"
  unfolding start_pull_def by (rule settled_pull) (simp_all add: running_order)

section \<open>Answers\<close>

lemma settled_on_snapshot:
  "running ids s \<Longrightarrow> (\<And>t. running ids t \<Longrightarrow> settled ids (f t)) \<Longrightarrow> settled ids (on_snapshot E f r s)"
  unfolding on_snapshot_def Let_def by (intro settled_if settle) simp_all

lemma settled_on_preview: "running ids s \<Longrightarrow> previews_done s \<Longrightarrow> settled ids (on_preview E e r s)"
proof -
  assume s: "running ids s" "previews_done s"
  have "store_only s (if accepted r then snd (on_replica (save_preview (qt E) e r) s) else s)" by simp
  then show ?thesis using s unfolding on_preview_def Let_def store_only_def
    by (auto intro!: settled_later simp: is_delivery_def task_ok_def)
qed

lemma settled_on_describe: "running ids s \<Longrightarrow> fresh_id E = ids \<Longrightarrow> settled ids (on_describe E r s)"
proof -
  assume s: "running ids s" "fresh_id E = ids"
  have rescanned: "store_only t (snd (if b then (True, t) else rescan E t))" for b and t :: "'a sync" by simp
  have w: "min (configured_window s) (max 1 (min n 4)) \<in> {1..4}" for n
    using s(1) by (auto simp: running_def sound_def)
  show ?thesis
    unfolding on_describe_def Let_def using s
    by (intro settled_if settled_stores settled_store [OF rescanned])
      (auto intro!: settled_refused settled_stopped settled_page running_window simp: w [simplified] emit_def split: if_splits)
qed

lemma settled_on_page: "running ids s \<Longrightarrow> fresh_id E = ids \<Longrightarrow> settled ids (on_page E a u r s)"
proof -
  assume s: "running ids s" "fresh_id E = ids"
  have "settled ids (if \<not> ok then store_failed t else case page_entries (qt E) es a next (entries t) of
           None \<Rightarrow> stop_with ''invalid_remote_manifest'' t
         | Some es \<Rightarrow> (if more then page E next limit (t\<lparr>entries := es, through_to := limit\<rparr>)
               else next_journal E 0 (t\<lparr>entries := es, through_to := limit\<rparr>)))"
    if "running ids t" for t ok es "next" limit more
    using that s(2) by (auto intro!: settled_refused settled_stopped settled_page settled_journal split: option.split)
  then show ?thesis using s unfolding on_page_def Let_def
    by (auto split: option.split intro!: settled_refused settled_stopped settled_stores)
qed

lemma settled_on_journal:
  assumes "running ids s" "fresh_id E = ids" "inj ids"
  shows "settled ids (on_journal_page E u r s)"
proof -
  define p where "p = (if u \<noteq> 0 \<and> jstr (oget ''through'' r) \<noteq> num_str u then (False, s) else on_replica (accept_journal (qt E) (peer_id s) r) s)"
  have "store_only s (snd p)" by (simp add: p_def)
  then obtain ok x m where p: "p = (ok, s\<lparr>replica_of := x, map_of_storage := m\<rparr>)" by (cases p) (auto simp: store_only_def)
  show ?thesis
    unfolding on_journal_page_def p_def [symmetric] p prod.case Let_def
    using assms(1)
    by (intro settled_if settled_stores settled_announce_local [OF _ assms(2)])
      (auto intro!: settled_refused settled_stopped settled_journal [OF _ assms(2)] settled_pull_all [OF _ assms(2,3)]
         running_identities running_fill)
qed

lemma settled_on_manifest:
  assumes "running ids s" "fresh_id E = ids" "inj ids" "manifest_ready s \<noteq> None"
  shows "settled ids (on_manifest E r s)"
  unfolding on_manifest_def Let_def using assms(1,4)
  by (intro settled_if)
    (auto intro!: settled_refused settled_stopped settled_announce_page [OF _ assms(2)] settled_pull_all [OF _ assms(2,3)]
       settled_push_all [OF _ assms(2)] split: option.split after_manifest.split)

lemma settled_on_begin:
  assumes "running ids s" "fresh_id E = ids" "inj ids"
  shows "settled ids (on_begin E inlined len r s)"
  unfolding on_begin_def next_entry_def using assms(1)
  by (intro settled_if)
    (auto intro!: settled_refused settled_stopped settled_push [OF _ assms(2)] settled_push_chunk [OF _ assms(2,3)] split: option.split)

lemma settled_on_commit: "running ids s \<Longrightarrow> fresh_id E = ids \<Longrightarrow> settled ids (on_commit E r s)"
  unfolding on_commit_def next_entry_def by (intro settled_if settled_refused settled_push) simp_all

section \<open>Chunks\<close>

lemma answered:
  assumes "sound ids s" "map_of (requests s) i = Some x"
  obtains as bs where "requests s = as @ (i, x) # bs" "filter (\<lambda>y. fst y \<noteq> i) (requests s) = as @ bs"
    "sound ids (s\<lparr>requests := as @ bs\<rparr>)"
proof -
  have "(i, x) \<in> set (requests s)" using assms(2) by (rule map_of_SomeD)
  then obtain as bs where r: "requests s = as @ (i, x) # bs" by (meson split_list)
  have d: "distinct (map fst (requests s))" using assms(1) by (simp add: sound_def)
  have "filter (\<lambda>y. fst y \<noteq> i) (requests s) = as @ bs"
  proof -
    have "i \<notin> fst ` set as" "i \<notin> fst ` set bs" using d by (auto simp: r)
    then have "filter (\<lambda>y. fst y \<noteq> i) as = as" "filter (\<lambda>y. fst y \<noteq> i) bs = bs" by (auto intro!: filter_True)
    then show ?thesis by (simp add: r)
  qed
  moreover have "sound ids (s\<lparr>requests := as @ bs\<rparr>)" using assms(1) r by (auto simp: sound_def)
  ultimately show thesis using that r by blast
qed


text \<open>Between an answer and the next chunk: the positions still in flight are \<open>ps\<close>.\<close>

definition receiving :: "(nat \<Rightarrow> string) \<Rightarrow> int list \<Rightarrow> 's sync \<Rightarrow> bool" where
  "receiving ids ps s \<longleftrightarrow> sound ids s \<and> active s \<and> threads s = [] \<and> pending_chunks s = int (length (requests s)) \<and> pending_chunks s \<le> 4
     \<and> acknowledged_chunks s = [] \<and> map (\<lambda>y. read_position (size_of (current s)) (done_with (snd y))) (requests s) = map Some ps
     \<and> windowed ps (map fst (received_chunks s)) (offset_of s) (size_of (current s))"

definition acknowledging :: "(nat \<Rightarrow> string) \<Rightarrow> int list \<Rightarrow> 's sync \<Rightarrow> bool" where
  "acknowledging ids ps s \<longleftrightarrow> sound ids s \<and> active s \<and> threads s = [] \<and> pending_chunks s = int (length (requests s)) \<and> pending_chunks s \<le> 4
     \<and> received_chunks s = [] \<and> map (\<lambda>y. chunk_position (size_of (current s)) (done_with (snd y))) (requests s) = map Some ps
     \<and> (\<forall>(p, n) \<in> set (acknowledged_chunks s). n = p + min chunk_bytes (size_of (current s) - p))
     \<and> windowed ps (map fst (acknowledged_chunks s)) (offset_of s) (size_of (current s))"

lemma map_fst_filter: "map fst (filter (\<lambda>c. fst c \<noteq> k) xs) = filter (\<lambda>q. q \<noteq> k) (map fst xs)"
  by (induction xs) auto

lemma length_taken: "map_of xs k = Some v \<Longrightarrow> length xs \<le> Suc n \<Longrightarrow> length (filter (\<lambda>c. fst c \<noteq> k) xs) \<le> n"
  using length_filter_less [of "(k, v)" xs "\<lambda>c. fst c \<noteq> k"] by (auto dest: map_of_SomeD)

lemma drained:
  assumes "receiving ids ps s" "length (received_chunks s) \<le> n" "len = size_of (current s)"
  shows "settled ids (drain_received E len n s) \<and> \<not> active (drain_received E len n s)
    \<or> receiving ids ps (drain_received E len n s) \<and> map_of (received_chunks (drain_received E len n s)) (offset_of (drain_received E len n s)) = None"
  using assms
proof (induction n arbitrary: s)
  case 0
  then show ?case by simp
next
  case (Suc n)
  show ?case
  proof (cases "map_of (received_chunks s) (offset_of s)")
    case None
    then show ?thesis using Suc.prems by (simp add: receiving_def)
  next
    case (Some c)
    let ?s = "s\<lparr>received_chunks := filter (\<lambda>c. fst c \<noteq> offset_of s) (received_chunks s)\<rparr>"
    let ?q = "obj [(''action'', JStr ''chunk''), (''entry'', JObj (current s)), (''offset'', jnumstr (offset_of s)), (''data'', oget ''data'' c)]"
    obtain r x m where ask: "ask_store E ?q ?s = (r, ?s\<lparr>replica_of := x, map_of_storage := m\<rparr>)"
      using store_ops(5) [of ?s E ?q] by (cases "ask_store E ?q ?s") (auto simp: store_only_def)
    let ?t = "?s\<lparr>replica_of := x, map_of_storage := m\<rparr>"
    have "offset_of s \<in> set (map fst (received_chunks s))" using map_of_SomeD [OF Some] by force
    then have w: "windowed ps (map fst (received_chunks ?t)) (offset_of s + min chunk_bytes (len - offset_of s)) len"
      using windowed_takes Suc.prems unfolding receiving_def by (simp add: map_fst_filter)
    have ok: "receiving ids ps (emit e (?t\<lparr>offset_of := offset_of s + min chunk_bytes (len - offset_of s), transferred := True\<rparr>))" for e
      using w Suc.prems unfolding receiving_def by (simp add: sound_def threads_def emit_def)
    have act: "active s" using Suc.prems(1) by (simp add: receiving_def)
    have "sound ids ?t" "active ?t" using Suc.prems(1) by (simp_all add: receiving_def sound_def)
    then have stop: "settled ids (stop_with e ?t)" "\<not> active (stop_with e ?t)" for e
      by (simp_all add: settled_stop) (simp add: stop_with_def end_run_def emit_def)
    have small: "length (received_chunks ?t) \<le> n" using length_taken [OF Some] Suc.prems(2) by simp
    show ?thesis
    proof (cases "accepted r")
      case True
      then show ?thesis using Some act ask Suc.IH [OF ok] small Suc.prems(3) by (simp add: Let_def emit_def)
    next
      case False
      then show ?thesis using Some act ask stop by (simp add: Let_def refused_def)
    qed
  qed
qed

lemma receiving_settled:
  assumes "receiving ids ps s" "map_of (received_chunks s) (offset_of s) = None"
  shows "settled ids (if active s \<and> pending_chunks s = 0 then later RunPullChunk s else s)"
proof -
  have len: "length (requests s) = length ps"
    using assms(1) map_eq_imp_length_eq [of "\<lambda>y. read_position (size_of (current s)) (done_with (snd y))" "requests s" Some ps]
    by (simp add: receiving_def)
  show ?thesis
  proof (cases "ps = []")
    case True
    then have "requests s = []" using len by simp
    moreover have "map fst (received_chunks s) = []"
      by (rule windowed_done) (use assms True in \<open>auto simp: receiving_def map_of_None_iff\<close>)
    ultimately have "running ids s" "offset_of s \<le> size_of (current s)" "pending_chunks s = 0"
      using assms(1) windowed_bound by (auto simp: receiving_def running_def quiet_def)
    then show ?thesis by (auto intro: settled_later simp: running_active is_delivery_def task_ok_def)
  next
    case False
    then have "in_flight s" "pending_chunks s \<noteq> 0" using assms(1) len by (auto simp: receiving_def in_flight_def)
    then show ?thesis using assms(1) by (auto simp: receiving_def settled_def downloading_def)
  qed
qed


lemma map_split:
  assumes "map f (as @ y # bs) = map Some ps"
  obtains us p vs where "ps = us @ p # vs" "map f as = map Some us" "f y = Some p" "map f bs = map Some vs"
proof -
  obtain us ws where u: "ps = us @ ws" "map f as = map Some us" "map f (y # bs) = map Some ws"
    using assms by (auto simp: append_eq_map_conv)
  then obtain p vs where "ws = p # vs" by (cases ws) auto
  then show thesis using u that by auto
qed

lemma settled_on_read:
  assumes "downloading s" "active s" "requests s = as @ (i, x) # bs" "sound ids (s\<lparr>requests := as @ bs\<rparr>)"
  obtains p where "done_with x = OnRead (size_of (current s)) p"
    "settled ids (on_read E (size_of (current s)) p r (s\<lparr>requests := as @ bs\<rparr>))"
proof -
  let ?len = "size_of (current s)" and ?s = "s\<lparr>requests := as @ bs\<rparr>"
  obtain ps where ps: "map (\<lambda>y. read_position ?len (done_with (snd y))) (requests s) = map Some ps"
    and w: "windowed ps (map fst (received_chunks s)) (offset_of s) ?len" using assms(1) by (auto simp: downloading_def)
  obtain us p vs where parts: "ps = us @ p # vs" "map (\<lambda>y. read_position ?len (done_with (snd y))) as = map Some us"
      "read_position ?len (done_with x) = Some p" "map (\<lambda>y. read_position ?len (done_with (snd y))) bs = map Some vs"
    using ps unfolding assms(3) by (elim map_split) simp
  have x: "done_with x = OnRead ?len p" using parts(3) by (cases "done_with x") (auto split: if_splits)
  have new: "p \<notin> set (map fst (received_chunks s))" and w': "windowed (us @ vs) (p # map fst (received_chunks s)) (offset_of s) ?len"
    using windowed_arrives [OF w [unfolded parts(1)]] by simp_all
  let ?t = "?s\<lparr>received_chunks := upsert p r (received_chunks ?s), pending_chunks := pending_chunks ?s - 1\<rparr>"
  have "windowed (us @ vs) (map fst (received_chunks ?t)) (offset_of s) ?len"
    by (rule windowed_set [OF _ _ _ _ w']) (use new w' in \<open>auto simp: upsert_new windowed_def\<close>)
  then have t: "receiving ids (us @ vs) ?t"
    using assms parts by (auto simp: receiving_def downloading_def in_flight_def threads_def sound_def)
  define u where "u = drain_received E ?len (length (received_chunks ?t)) ?t"
  have "settled ids u \<and> \<not> active u \<or> receiving ids (us @ vs) u \<and> map_of (received_chunks u) (offset_of u) = None"
    unfolding u_def by (rule drained [OF t]) simp_all
  then have last: "settled ids (if active u \<and> pending_chunks u = 0 then later RunPullChunk u else u)"
    by (elim disjE conjE) (simp, rule receiving_settled)
  have stop: "settled ids (stop_with e ?s)" for e using assms by (simp add: settled_stop)
  have "settled ids (on_read E ?len p r ?s)"
    unfolding on_read_def Let_def refused_def
    by (rule settled_if, rule stop, split option.split, intro conjI allI impI, rule stop, rule settled_if, rule stop, rule last [unfolded u_def])
  then show thesis using that x by blast
qed

lemma drained_acks:
  assumes "acknowledging ids ps s" "length (acknowledged_chunks s) \<le> n" "len = size_of (current s)"
  shows "acknowledging ids ps (drain_acknowledged len n s)
    \<and> map_of (acknowledged_chunks (drain_acknowledged len n s)) (offset_of (drain_acknowledged len n s)) = None"
  using assms
proof (induction n arbitrary: s)
  case 0
  then show ?case by simp
next
  case (Suc n)
  show ?case
  proof (cases "map_of (acknowledged_chunks s) (offset_of s)")
    case None
    then show ?thesis using Suc.prems by (simp add: acknowledging_def)
  next
    case (Some v)
    have v: "v = offset_of s + min chunk_bytes (len - offset_of s)"
      using map_of_SomeD [OF Some] Suc.prems by (auto simp: acknowledging_def)
    let ?t = "s\<lparr>acknowledged_chunks := filter (\<lambda>c. fst c \<noteq> offset_of s) (acknowledged_chunks s), offset_of := v, transferred := True\<rparr>"
    have "offset_of s \<in> set (map fst (acknowledged_chunks s))" using map_of_SomeD [OF Some] by force
    then have "windowed ps (map fst (acknowledged_chunks ?t)) v len"
      using windowed_takes Suc.prems v unfolding acknowledging_def by (simp add: map_fst_filter)
    then have ok: "acknowledging ids ps (emit e ?t)" for e
      using Suc.prems unfolding acknowledging_def by (auto simp: sound_def threads_def emit_def)
    have act: "active s" using Suc.prems(1) by (simp add: acknowledging_def)
    have small: "length (acknowledged_chunks ?t) \<le> n" using length_taken [OF Some] Suc.prems(2) by simp
    show ?thesis using Some act Suc.IH [OF ok] small Suc.prems(3) by (simp add: emit_def)
  qed
qed

lemma acknowledging_settled:
  assumes "acknowledging ids ps s" "map_of (acknowledged_chunks s) (offset_of s) = None"
  shows "settled ids (if active s \<and> pending_chunks s = 0 then later RunPushChunk s else s)"
proof -
  have len: "length (requests s) = length ps"
    using assms(1) map_eq_imp_length_eq [of "\<lambda>y. chunk_position (size_of (current s)) (done_with (snd y))" "requests s" Some ps]
    by (simp add: acknowledging_def)
  show ?thesis
  proof (cases "ps = []")
    case True
    then have "requests s = []" using len by simp
    moreover have "map fst (acknowledged_chunks s) = []"
      by (rule windowed_done) (use assms True in \<open>auto simp: acknowledging_def map_of_None_iff\<close>)
    ultimately have "running ids s" "offset_of s \<le> size_of (current s)" "pending_chunks s = 0"
      using assms(1) windowed_bound by (auto simp: acknowledging_def running_def quiet_def)
    then show ?thesis by (auto intro: settled_later simp: running_active is_delivery_def task_ok_def)
  next
    case False
    then have "in_flight s" "pending_chunks s \<noteq> 0" using assms(1) len by (auto simp: acknowledging_def in_flight_def)
    then show ?thesis using assms(1) by (auto simp: acknowledging_def settled_def uploading_def)
  qed
qed

lemma settled_on_chunk:
  assumes "uploading s" "active s" "requests s = as @ (i, x) # bs" "sound ids (s\<lparr>requests := as @ bs\<rparr>)"
  obtains p n where "done_with x = OnChunk p n (size_of (current s))"
    "settled ids (on_chunk E p n (size_of (current s)) r (s\<lparr>requests := as @ bs\<rparr>))"
proof -
  let ?len = "size_of (current s)" and ?s = "s\<lparr>requests := as @ bs\<rparr>"
  obtain ps where ps: "map (\<lambda>y. chunk_position ?len (done_with (snd y))) (requests s) = map Some ps"
    and w: "windowed ps (map fst (acknowledged_chunks s)) (offset_of s) ?len" using assms(1) by (auto simp: uploading_def)
  obtain us p vs where parts: "ps = us @ p # vs" "map (\<lambda>y. chunk_position ?len (done_with (snd y))) as = map Some us"
      "chunk_position ?len (done_with x) = Some p" "map (\<lambda>y. chunk_position ?len (done_with (snd y))) bs = map Some vs"
    using ps unfolding assms(3) by (elim map_split) simp
  let ?n = "p + min chunk_bytes (?len - p)"
  have x: "done_with x = OnChunk p ?n ?len" using parts(3) by (cases "done_with x") (auto split: if_splits)
  have new: "p \<notin> set (map fst (acknowledged_chunks s))" and w': "windowed (us @ vs) (p # map fst (acknowledged_chunks s)) (offset_of s) ?len"
    using windowed_arrives [OF w [unfolded parts(1)]] by simp_all
  let ?t = "?s\<lparr>acknowledged_chunks := upsert p ?n (acknowledged_chunks ?s), pending_chunks := pending_chunks ?s - 1\<rparr>"
  have "windowed (us @ vs) (map fst (acknowledged_chunks ?t)) (offset_of s) ?len"
    by (rule windowed_set [OF _ _ _ _ w']) (use new w' in \<open>auto simp: upsert_new windowed_def\<close>)
  then have t: "acknowledging ids (us @ vs) ?t"
    using assms parts new by (auto simp: acknowledging_def uploading_def in_flight_def threads_def sound_def upsert_new)
  define u where "u = drain_acknowledged ?len (length (acknowledged_chunks ?t)) ?t"
  have "acknowledging ids (us @ vs) u \<and> map_of (acknowledged_chunks u) (offset_of u) = None"
    unfolding u_def by (rule drained_acks [OF t]) simp_all
  then have last: "settled ids (if active u \<and> pending_chunks u = 0 then later RunPushChunk u else u)"
    by (elim conjE) (rule acknowledging_settled)
  have stop: "settled ids (stop_with e ?s)" for e using assms by (simp add: settled_stop)
  have "settled ids (on_chunk E p ?n ?len r ?s)"
    unfolding on_chunk_def Let_def refused_def
    by (rule settled_if, rule stop, rule settled_if, rule stop, rule last [unfolded u_def])
  then show thesis using that x by blast
qed


section \<open>Steps\<close>

lemma settled_sound: "settled ids s \<Longrightarrow> sound ids s"
  by (simp add: settled_def)

lemma upsert_same: "map_of xs k = Some v \<Longrightarrow> f v' = f v \<Longrightarrow> map (\<lambda>y. f (snd y)) (upsert k v' xs) = map (\<lambda>y. f (snd y)) xs"
  by (induction k v' xs rule: upsert.induct) (auto split: if_splits)

lemma upsert_keys: "map_of xs k = Some v \<Longrightarrow> map fst (upsert k v' xs) = map fst xs"
  by (induction k v' xs rule: upsert.induct) (auto split: if_splits)

text \<open>A state that differs in the deliveries that are scheduled and in the delays only.\<close>

lemma settled_alike:
  assumes "settled ids s" "threads t = threads s" "sound ids t"
    "map (\<lambda>y. done_with (snd y)) (requests t) = map (\<lambda>y. done_with (snd y)) (requests s)"
    "active t = active s" "pending_chunks t = pending_chunks s" "received_chunks t = received_chunks s"
    "acknowledged_chunks t = acknowledged_chunks s" "entries t = entries s" "outgoing t = outgoing s" "manifest_ready t = manifest_ready s"
    "previews_done t = previews_done s" "offset_of t = offset_of s" "current t = current s"
  shows "settled ids t"
proof -
  have calls: "map (\<lambda>y. f (done_with (snd y))) (requests t) = map (\<lambda>y. f (done_with (snd y))) (requests s)" for f :: "callback \<Rightarrow> int option"
    using arg_cong [OF assms(4), of "map f"] by (simp add: comp_def)
  have n: "length (requests t) = length (requests s)" using map_eq_imp_length_eq [OF assms(4)] .
  have none: "requests t = [] \<longleftrightarrow> requests s = []" using n by auto
  have ok: "answer_ok t f = answer_ok s f" "task_ok t u = task_ok s u" for f u
    using assms by (cases f; simp add: answer_ok_def) (cases u; simp add: task_ok_def assms)
  have "awaiting s \<Longrightarrow> awaiting t" using assms unfolding awaiting_def ok by (auto simp: map_eq_Cons_conv)
  moreover have "deferred s \<Longrightarrow> deferred t" using assms none unfolding deferred_def ok by auto
  moreover have "in_flight s \<Longrightarrow> in_flight t" using assms n none by (simp add: in_flight_def)
  moreover have "idle s \<Longrightarrow> idle t" using assms none by (simp add: idle_def quiet_def)
  ultimately show ?thesis using assms unfolding settled_def downloading_def uploading_def calls by auto
qed

lemma settled_deliver: "settled ids s \<Longrightarrow> is_delivery t \<Longrightarrow> settled ids (later t s)"
  by (rule settled_alike) (auto simp: later_def threads_def settled_def sound_def)

lemma answered_running:
  assumes "running ids s" "fresh_id E = ids" "inj ids" "answer_ok s f"
  shows "settled ids (respond E f r s)"
  using assms(1,4)
  by (auto simp: respond_def answer_ok_def split: callback.splits after_snapshot.split
      intro!: settled_on_snapshot settled_finish [OF _ assms(2)] settled_push [OF _ assms(2)] settled_on_preview settled_on_describe [OF _ assms(2)]
        settled_on_page [OF _ assms(2)] settled_on_journal [OF _ assms(2,3)] settled_on_manifest [OF _ assms(2,3)]
        settled_on_begin [OF _ assms(2,3)] settled_on_commit [OF _ assms(2)])

lemma settled_respond:
  assumes "settled ids s" "active s" "map_of (requests s) i = Some x" "fresh_id E = ids" "inj ids"
  shows "settled ids (respond E (done_with x) r (s\<lparr>requests := filter (\<lambda>y. fst y \<noteq> i) (requests s)\<rparr>))"
proof -
  obtain as bs where req: "requests s = as @ (i, x) # bs" and rest: "filter (\<lambda>y. fst y \<noteq> i) (requests s) = as @ bs"
    and snd: "sound ids (s\<lparr>requests := as @ bs\<rparr>)"
    using answered [OF settled_sound [OF assms(1)] assms(3)] .
  consider "awaiting s" | "downloading s" | "uploading s"
    using assms(1,2) req by (auto simp: settled_def deferred_def)
  then show ?thesis
  proof cases
    case 1
    then have "as = []" "bs = []" "answer_ok s (done_with x)" using req by (auto simp: awaiting_def append_eq_Cons_conv)
    moreover have "running ids (s\<lparr>requests := []\<rparr>)"
      using 1 snd assms(2) calculation by (auto simp: running_def quiet_def awaiting_def threads_def)
    ultimately show ?thesis unfolding rest
      by (intro answered_running [OF _ assms(4,5)]) (auto simp: answer_ok_def split: callback.splits)
  next
    case 2
    obtain p where "done_with x = OnRead (size_of (current s)) p"
      "settled ids (on_read E (size_of (current s)) p r (s\<lparr>requests := as @ bs\<rparr>))" using settled_on_read [OF 2 assms(2) req snd] .
    then show ?thesis unfolding rest by (simp add: respond_def)
  next
    case 3
    obtain p n where "done_with x = OnChunk p n (size_of (current s))"
      "settled ids (on_chunk E p n (size_of (current s)) r (s\<lparr>requests := as @ bs\<rparr>))" using settled_on_chunk [OF 3 assms(2) req snd] .
    then show ?thesis unfolding rest by (simp add: respond_def)
  qed
qed

lemma settled_receive:
  assumes "settled ids s" "fresh_id E = ids" "inj ids"
  shows "settled ids (receive E i r s)"
proof (cases "map_of (requests s) i")
  case (Some x)
  have mem: "i \<in> fst ` set (requests s)" using map_of_SomeD [OF Some] by force
  have "settled ids (s\<lparr>requests := upsert i (x\<lparr>poll_delay := d\<rparr>) (requests s)\<rparr>)" for d
    by (rule settled_alike [OF assms(1)])
      (use mem settled_sound [OF assms(1)] upsert_same [OF Some, of done_with] upsert_keys [OF Some] in
        \<open>simp_all add: threads_def sound_def insert_absorb del: map_map\<close>)
  then have "settled ids (later (Resend i) (s\<lparr>requests := upsert i (x\<lparr>poll_delay := d\<rparr>) (requests s)\<rparr>))" for d
    by (rule settled_deliver) (simp add: is_delivery_def)
  then show ?thesis
    using assms(1) settled_stop [OF settled_sound [OF assms(1)]] settled_respond [OF assms(1) _ Some assms(2,3)]
    by (simp add: receive_def Some)
qed (simp add: receive_def assms)

lemma settled_task:
  assumes "settled ids s" "fresh_id E = ids" "inj ids" "tasks s = before @ (g, t) # after"
  shows "settled ids (run_task E g t (s\<lparr>tasks := before @ after\<rparr>))"
proof (cases "active s \<and> g = generation s \<and> \<not> is_delivery t")
  case False
  let ?s = "s\<lparr>tasks := before @ after\<rparr>"
  have "settled ids ?s" if "g \<noteq> generation s \<or> is_delivery t \<or> \<not> active s"
  proof (cases "g \<noteq> generation s \<or> is_delivery t")
    case True
    then show ?thesis using assms(4) settled_sound [OF assms(1)]
      by (intro settled_alike [OF assms(1)]) (auto simp: threads_def sound_def)
  next
    case False
    then have "idle s" "t \<in> set (threads s)" using assms(1,4) that by (auto simp: settled_def threads_def)
    then show ?thesis by (simp add: idle_def quiet_def)
  qed
  then have s: "settled ids ?s" using False by blast
  have "settled ids (transmit i ?s)" for i
    using s settled_deliver [OF s, of "Transmit i"] by (simp add: transmit_def is_delivery_def)
  moreover have "settled ids (emit x ?s)" for x
    by (rule settled_alike [OF s]) (use settled_sound [OF s] in \<open>auto simp: emit_def threads_def sound_def\<close>)
  ultimately show ?thesis using s False
    by (auto simp: run_task_def is_delivery_def split: task.splits option.split)
next
  case True
  let ?s = "s\<lparr>tasks := before @ after\<rparr>"
  have mem: "t \<in> set (threads s)" using assms(4) True by (simp add: threads_def)
  then have d: "deferred s" using assms(1) True by (auto simp: settled_def awaiting_def downloading_def uploading_def in_flight_def)
  have threads: "threads s = threads (s\<lparr>tasks := before\<rparr>) @ t # threads (s\<lparr>tasks := after\<rparr>)" using assms(4) True by (simp add: threads_def)
  obtain u where u: "threads s = [u]" "task_ok s u" using d by (auto simp: deferred_def)
  then have parts: "threads (s\<lparr>tasks := before\<rparr>) = []" "threads (s\<lparr>tasks := after\<rparr>) = []" "u = t"
    using threads by (auto simp: append_eq_Cons_conv)
  then have "threads ?s = []" by (simp add: threads_def)
  have ok: "task_ok ?s t" using u(2) unfolding parts(3) by (cases t) (simp_all add: task_ok_def)
  have run: "running ids ?s"
    using \<open>threads ?s = []\<close> d settled_sound [OF assms(1)] True assms(4) by (auto simp: running_def quiet_def deferred_def sound_def)
  show ?thesis using run ok True
    by (auto simp: run_task_def is_delivery_def task_ok_def split: task.splits
        intro!: settled_pull [OF _ assms(2,3)] settled_pull_chunk [OF _ assms(2,3)] settled_push_chunk [OF _ assms(2,3)]
          settled_preview [OF _ assms(2)])
qed


lemma settled_start: "settled ids s \<Longrightarrow> fresh_id E = ids \<Longrightarrow> settled ids (snd (start_sync E peer s))"
proof -
  assume s: "settled ids s" "fresh_id E = ids"
  show ?thesis
  proof (cases "active s \<or> \<not> is_open (replica_of s) \<or> peer = []")
    case False
    have old: "(g, t) \<in> set (tasks s) \<Longrightarrow> g \<noteq> Suc (generation s)" for g t
      using settled_sound [OF s(1)] unfolding sound_def by fastforce
    have "idle s" using s(1) False by (simp add: settled_def)
    then have "running ids (s\<lparr>active := True, generation := Suc (generation s)\<rparr>)"
      using settled_sound [OF s(1)] old by (auto simp: running_def idle_def quiet_def sound_def threads_def filter_empty_conv)
    then show ?thesis using False s(2) unfolding start_sync_def describe_host_def
      by (simp, intro settled_send) (simp_all add: answer_ok_def state_defs)
  qed (use s in \<open>simp add: start_sync_def\<close>)
qed

lemma settled_stops: "settled ids s \<Longrightarrow> settled ids (stop_with e s)"
  using settled_stop [OF settled_sound, of ids s e] by (cases "active s") (simp, simp add: stop_with_def)

lemma settled_step: "sync_step ids s t \<Longrightarrow> inj ids \<Longrightarrow> settled ids s \<Longrightarrow> settled ids t"
proof (induction rule: sync_step.induct)
  case (step_start E s peer)
  then show ?case by (simp add: settled_start)
next
  case (step_stop s)
  then show ?case by (simp add: stop_sync_def settled_stops)
next
  case (step_expected s host con)
  have "settled ids (stop_sync s)" using step_expected by (simp add: stop_sync_def settled_stops)
  then show ?case unfolding set_expected_host_def
    by (rule settled_alike) (use \<open>settled ids (stop_sync s)\<close> in \<open>auto simp: threads_def settled_def sound_def\<close>)
next
  case (step_policy s p)
  then show ?case
    by (auto simp: set_content_policy_def intro!: settled_alike [of ids s]) (auto simp: threads_def settled_def sound_def)
next
  case (step_window s n)
  then show ?case
    by (auto simp: set_transfer_window_def intro!: settled_alike [of ids s]) (auto simp: threads_def settled_def sound_def)
next
  case (step_receive E s i r)
  then show ?case by (simp add: settled_receive)
next
  case (step_expire E s)
  then show ?case by (simp add: expire_def settled_stops)
next
  case (step_task E s before g t after)
  then show ?case by (simp add: settled_task)
next
  case (step_others s r m)
  then show ?case by (intro settled_alike [OF step_others(2)]) (auto simp: threads_def settled_def sound_def)
next
  case (step_time s)
  then show ?case by (intro settled_alike [OF step_time(2)]) (auto simp: threads_def settled_def sound_def)
qed

lemma settled_new: "settled ids (new_sync r m)"
  by (simp add: new_sync_def settled_def sound_def idle_def quiet_def threads_def)

lemma settled_runs: "(sync_step ids)\<^sup>*\<^sup>* (new_sync r m) s \<Longrightarrow> inj ids \<Longrightarrow> settled ids s"
  by (induction rule: rtranclp_induct) (auto intro: settled_new settled_step)

section \<open>The local pages come to an end\<close>

lemma view_trans: "same_view r s \<Longrightarrow> same_view s t \<Longrightarrow> same_view r t"
  by (simp add: same_view_def)

lemma unmoved_ready: "same_view r (snd (ready Q r))" "same_view r (snd (sql r))"
proof -
  have f: "same_view r (snd (on_files op r))" for op :: "fsys \<Rightarrow> 'z \<times> fsys" and r by (simp add: on_files_def split_beta same_view_def Let_def)
  have e: "same_view r (snd (rfail x r))" for x and r by (simp add: rfail_def same_view_def)
  show "same_view r (snd (sql r))" using sql_frame [of r] by (cases "sql r") auto
  show "same_view r (snd (ready Q r))"
    by (auto simp: ready_def on_files_def rfail_def split_beta same_view_def Let_def)
qed

lemma view_changes: "same_view r s \<Longrightarrow> meta ''host'' r \<noteq> [] \<Longrightarrow> local_changes Q a u s = local_changes Q a u r"
proof -
  assume v: "same_view r s" and h: "meta ''host'' r \<noteq> []"
  have d: "db s = db r" "rid s = rid r" "drive s = drive r" using v by (simp_all add: same_view_def)
  have same: "meta_ll ''sequence'' s = meta_ll ''sequence'' r" "changed_rows a t s = changed_rows a t r"
    "container_id s = container_id r" "(meta ''host'' s = []) = False" "(meta ''host'' r = []) = False"
    "fst (failed ''invalid_change_cursor'' s) = fst (failed ''invalid_change_cursor'' r)" for t
    using h by (simp_all add: view_meta [OF v] meta_ll_def changed_rows_def container_id_def d failed_def)
  show ?thesis unfolding local_changes_def same d if_False by (rule refl)
qed

lemma changes_page_cases:
  assumes "changes_page Q a u r = (p, s)" "meta ''host'' r \<noteq> []"
  shows "same_view r s \<and> (p = local_changes Q a u r \<or> \<not> accepted p)"
proof -
  obtain ok r1 where 1: "ready Q r = (ok, r1)" by (cases "ready Q r")
  obtain ok2 r2 where 2: "sql r1 = (ok2, r2)" by (cases "sql r1")
  obtain ok3 r3 where 3: "sql r2 = (ok3, r3)" by (cases "sql r2")
  have v: "same_view r r1" "same_view r1 r2" "same_view r2 r3"
    using unmoved_ready(1) [of r Q] unmoved_ready(2) [of r1] unmoved_ready(2) [of r2] 1 2 3 by simp_all
  have bad: "same_view x (snd (failed e x))" "\<not> accepted (failure e)" for e and x :: replica
    by (simp_all add: failed_def accepted_def same_view_def failure_def oget_obj)
  have l: "local_changes Q a u r2 = local_changes Q a u r"
    by (rule view_changes [OF view_trans [OF v(1,2)] assms(2)])
  show ?thesis using assms(1) v bad unmoved_ready(2) [of r3] l
    unfolding changes_page_def read_snapshot_def
    by (auto simp: 1 2 3 Let_def failed_def split: if_splits intro: view_trans)
qed


lemma fill_changes_from: "fill_changes Q nx u rows = (es, n, lim) \<Longrightarrow> n \<in> insert nx (rseq ` set rows)"
proof (induction rows arbitrary: nx u es n lim)
  case (Cons w rows)
  then show ?case by (auto simp: Let_def split: if_splits prod.splits dest!: Cons.IH)
qed simp

lemma fill_changes_next:
  assumes "fill_changes Q nx u (w # rows) = (es, n, lim)" "u + int (length (json_bytes Q (proposal_entry w))) + 1 \<le> 256 * 1024"
  shows "n \<in> rseq ` set (w # rows)"
  using assms by (auto simp: Let_def split: if_splits prod.splits dest!: fill_changes_from)

text \<open>A mirror whose rows each fit in a page.\<close>

definition rows_page :: "env \<Rightarrow> replica \<Rightarrow> bool" where
  "rows_page Q r \<longleftrightarrow> meta ''host'' r \<noteq> [] \<and> store_ok Q r
     \<and> (\<forall>pw \<in> set (entry_rows (db r)). length (json_bytes Q (proposal_entry (snd pw))) < 256 * 1024)"

definition rows_beyond :: "int \<Rightarrow> replica \<Rightarrow> nat" where
  "rows_beyond c r = length (filter (\<lambda>pw. c < rseq (snd pw)) (entry_rows (db r)))"

lemma local_changes_more:
  assumes "rows_page Q r" "accepted (local_changes Q c u r)" "jbool (oget ''more'' (local_changes Q c u r))"
  shows "rows_beyond (jll (oget ''next'' (local_changes Q c u r))) r < rows_beyond c r"
proof -
  let ?t = "if u = 0 then meta_ll ''sequence'' r else u"
  have h: "(meta ''host'' r = []) = False" and ok: "store_ok Q r" using assms(1) by (simp_all add: rows_page_def)
  obtain es n lim where f: "fill_changes Q c 0 (changed_rows c ?t r) = (es, n, lim)" using prod_cases3 by blast
  have range: "\<not> (c < 0 \<or> ?t < c \<or> meta_ll ''sequence'' r < ?t)"
    using assms(2) by (auto simp: local_changes_def h Let_def accepted_def failed_def failure_def oget_obj split: if_splits)
  have page: "oget ''more'' (local_changes Q c u r) = JBool (lim \<or> length (changed_rows c ?t r) = 128 \<and> n < ?t)"
    "oget ''next'' (local_changes Q c u r) = jnumstr (if lim \<or> length (changed_rows c ?t r) = 128 \<and> n < ?t then n else ?t)"
    using range by (simp_all add: local_changes_def h Let_def f oget_obj)
  have m: "lim \<or> length (changed_rows c ?t r) = 128 \<and> n < ?t" using assms(3) page(1) by simp
  have "changed_rows c ?t r \<noteq> []" using m f by auto
  then obtain w ws where ws: "changed_rows c ?t r = w # ws" by (cases "changed_rows c ?t r") auto
  have rows: "\<exists>p. (p, v) \<in> set (entry_rows (db r)) \<and> c < rseq v" if "v \<in> set (changed_rows c ?t r)" for v
    using that set_take_subset unfolding changed_rows_def by fastforce
  have "n \<in> rseq ` set (changed_rows c ?t r)"
    using fill_changes_next f ws rows [of w] assms(1) unfolding rows_page_def by fastforce
  then obtain p v where v: "(p, v) \<in> set (entry_rows (db r))" "c < rseq v" "n = rseq v" using rows by blast
  have "in_int64 n" using ok v(1,3) unfolding store_ok_def list_all_iff row_fits_def
    by (intro max_counter_int64) force+
  then have n: "jll (oget ''next'' (local_changes Q c u r)) = n" using page(2) m by simp
  have "set (filter (\<lambda>pw. n < rseq (snd pw)) xs) \<subseteq> set (filter (\<lambda>pw. c < rseq (snd pw)) xs)" for xs :: "(string \<times> row) list"
    using v by auto
  have "length (filter (\<lambda>pw. n < rseq (snd pw)) xs) < length (filter (\<lambda>pw. c < rseq (snd pw)) xs)"
    if "(p, v) \<in> set xs" for xs
    using that
  proof (induction xs)
    case (Cons x xs)
    have "length (filter (\<lambda>pw. n < rseq (snd pw)) xs) \<le> length (filter (\<lambda>pw. c < rseq (snd pw)) xs)"
      using v by (induction xs) auto
    then show ?case using Cons v by auto
  qed simp
  then show ?thesis using v(1) by (simp add: rows_beyond_def n)
qed

lemma rows_view: "same_view r s \<Longrightarrow> rows_page Q s = rows_page Q r" "same_view r s \<Longrightarrow> rows_beyond c s = rows_beyond c r"
  using view_store_ok [of r s Q] view_meta [of r s] by (simp_all add: rows_page_def rows_beyond_def same_view_def)

lemma local_pages_fuel:
  assumes "rows_page (qt E) (replica_of s)" "rows_beyond c (replica_of s) < n" "n \<le> m"
  shows "local_pages E m c u es s = local_pages E n c u es s"
  using assms
proof (induction n arbitrary: m c u es s)
  case (Suc n)
  obtain m' where m: "m = Suc m'" using Suc.prems(3) by (cases m) auto
  obtain p r where p: "changes_page (qt E) c u (replica_of s) = (p, r)" by (cases "changes_page (qt E) c u (replica_of s)")
  have v: "same_view (replica_of s) r" "p = local_changes (qt E) c u (replica_of s) \<or> \<not> accepted p"
    using changes_page_cases [OF p] Suc.prems(1) by (simp_all add: rows_page_def)
  have "local_pages E m' (jll (oget ''next'' p)) u' es' (s\<lparr>replica_of := r\<rparr>) = local_pages E n (jll (oget ''next'' p)) u' es' (s\<lparr>replica_of := r\<rparr>)"
    if "accepted p" "jbool (oget ''more'' p)" for u' es'
  proof (rule Suc.IH)
    have l: "p = local_changes (qt E) c u (replica_of s)" using v(2) that by simp
    show "rows_beyond (jll (oget ''next'' p)) (replica_of (s\<lparr>replica_of := r\<rparr>)) < n"
      using local_changes_more [OF Suc.prems(1)] that Suc.prems(2) rows_view(2) [OF v(1)] unfolding l by fastforce
  qed (use rows_view(1) [OF v(1)] Suc.prems m in simp_all)
  then show ?case unfolding m by (simp add: on_replica_def p Let_def)
qed simp


text \<open>A settled state waits for something that comes.\<close>

lemma settled_waits:
  assumes s: "settled ids s" and "active s"
  shows "threads s \<noteq> [] \<or> (\<exists>d. \<forall>E. d \<le> now_ms (qt E) \<longrightarrow> idle (expire E s))"
proof -
  have "requests s \<noteq> [] \<or> threads s \<noteq> []"
    using s assms(2) by (auto simp: settled_def awaiting_def deferred_def downloading_def uploading_def in_flight_def)
  moreover have "\<forall>E. due (snd (hd (requests s))) \<le> now_ms (qt E) \<longrightarrow> idle (expire E s)" if "requests s \<noteq> []"
  proof (intro allI impI)
    fix E :: "'a setting" assume "due (snd (hd (requests s))) \<le> now_ms (qt E)"
    then have "list_ex (\<lambda>y. due (snd y) \<le> now_ms (qt E)) (requests s)" using that by (cases "requests s") auto
    then have e: "expire E s = stop_with ''sync_request_timeout'' s" by (simp add: expire_def)
    have "settled ids (expire E s)" unfolding e by (rule settled_stops [OF s])
    moreover have "\<not> active (expire E s)" unfolding e by (simp add: stop_with_def end_run_def emit_def)
    ultimately show "idle (expire E s)" by (simp add: settled_def)
  qed
  ultimately show ?thesis by blast
qed

section \<open>Properties\<close>

text \<open>C17: in every run of the event loop, whatever the host answers and in whatever order, an active synchronizer is
  at exactly one point: it awaits one answer, has scheduled one continuation, or has up to four chunk requests of the
  current file in flight whose positions, with those that have arrived, are the consecutive chunks from the
  transfer's offset; and a synchronizer that has stopped keeps no request, task, entry, chunk or continuation.\<close>

theorem sync_runs:
  assumes "inj ids" and "(sync_step ids)\<^sup>*\<^sup>* (new_sync r m) s"
  shows "(if active s then awaiting s \<or> deferred s \<or> downloading s \<or> uploading s else idle s) \<and> length (requests s) \<le> 4"
proof -
  have s: "settled ids s" by (rule settled_runs [OF assms(2,1)])
  have "length (requests s) \<le> 4" if "awaiting s \<or> deferred s \<or> downloading s \<or> uploading s \<or> idle s"
    using that by (auto simp: awaiting_def deferred_def downloading_def uploading_def in_flight_def idle_def quiet_def)
  then show ?thesis using s by (auto simp: settled_def split: if_splits)
qed

text \<open>C18: an active synchronizer never hangs: there is a continuation that the event loop will run, or a deadline after
  which the next tick of the timer ends the run.\<close>

theorem sync_never_hangs:
  assumes "inj ids" and "(sync_step ids)\<^sup>*\<^sup>* (new_sync r m) s" and "active s"
  shows "threads s \<noteq> [] \<or> (\<exists>d. \<forall>E. d \<le> now_ms (qt E) \<longrightarrow> idle (expire E s))"
  by (rule settled_waits [OF settled_runs [OF assms(2,1)] assms(3)])

text \<open>The loop that collects the local changes ends on a mirror whose rows each fit in a page: the bound by the
  number of rows is never reached, so that any larger bound gives the same result.\<close>

theorem announcement_ends:
  assumes "rows_page (qt E) (replica_of s)" and "Suc (row_count s) \<le> n"
  shows "local_pages E n (pushed_to s) 0 [] s = local_pages E (Suc (row_count s)) (pushed_to s) 0 [] s"
proof -
  have "rows_beyond (pushed_to s) (replica_of s) < Suc (row_count s)"
    by (simp add: rows_beyond_def row_count_def le_imp_less_Suc trans_le_add1)
  then show ?thesis by (rule local_pages_fuel [OF assms(1) _ assms(2)])
qed

section \<open>Concrete runs\<close>

definition sample_ids :: "nat \<Rightarrow> string" where
  "sample_ids n = replicate n (CHR ''i'')"

definition sample_setting :: "jobj list setting" where
  "sample_setting = \<lparr>qt = sample_env, prepare_file = (\<lambda>n f. f), slow_scan = (\<lambda>n. False),
     storage = \<lparr>publish_objects = (\<lambda>es rs. (True, rs)), pending_requests = (\<lambda>rs. rs), finish_request = (\<lambda>i e rs. [])\<rparr>, fresh_id = sample_ids\<rparr>"

definition sample_map :: "jobj list published" where
  "sample_map = \<lparr>map_state = [], map_file = False, data_version = 0, total_changes = 0, published_version = 0, published_changes = 0\<rparr>"

definition sample_started :: "jobj list sync" where
  "sample_started = snd (start_sync sample_setting ''host'' (new_sync sample_mirror sample_map))"

lemma sample_ids_inj: "inj sample_ids"
  by (rule injI) (metis length_replicate sample_ids_def)

lemma sample_step: "(sync_step sample_ids)\<^sup>*\<^sup>* (new_sync sample_mirror sample_map) sample_started"
  unfolding sample_started_def by (rule r_into_rtranclp, rule step_start) (simp add: sample_setting_def)

lemma sample_active: "active sample_started" "threads sample_started = []" "length (requests sample_started) = 1"
  by (simp_all add: sample_started_def start_sync_def new_sync_def is_open_def sample_mirror_def sample_replica_def zeros_def
      describe_host_def send_def draw_def transmit_def later_def threads_def is_delivery_def Let_def)

theorem sync_runs_witness:
  "active sample_started \<and> length (requests sample_started) = 1
    \<and> (awaiting sample_started \<or> deferred sample_started \<or> downloading sample_started \<or> uploading sample_started)"
  using sync_runs [OF sample_ids_inj sample_step] sample_active by simp

theorem sync_never_hangs_witness: "\<exists>d. idle (expire (sample_setting\<lparr>qt := sample_env\<lparr>now_ms := d\<rparr>\<rparr>) sample_started)"
proof -
  obtain d where "\<forall>E. d \<le> now_ms (qt E) \<longrightarrow> idle (expire E sample_started)"
    using sync_never_hangs [OF sample_ids_inj sample_step sample_active(1)] sample_active(2) by blast
  then have "idle (expire (sample_setting\<lparr>qt := sample_env\<lparr>now_ms := d\<rparr>\<rparr>) sample_started)"
    by (elim allE impE) simp_all
  then show ?thesis by blast
qed

lemma sample_rows: "rows_page sample_env sample_follower" "row_count (new_sync sample_follower sample_map) = 2"
  by (simp_all add: rows_page_def sample_follower_ok sample_follower_simps json_bytes_def)
    (simp add: row_count_def new_sync_def sample_follower_def sample_held_def sample_db_def)

theorem announcement_ends_witness:
  "local_pages sample_setting 7 0 0 [] (new_sync sample_follower sample_map) = local_pages sample_setting 3 0 0 [] (new_sync sample_follower sample_map)"
proof -
  have s: "replica_of (new_sync sample_follower sample_map) = sample_follower" "pushed_to (new_sync sample_follower sample_map) = 0"
    "qt sample_setting = sample_env" by (simp_all add: new_sync_def sample_setting_def)
  show ?thesis using announcement_ends [of sample_setting "new_sync sample_follower sample_map" 7] sample_rows
    by (simp add: s numeral_3_eq_3)
qed

end
