(* ===== verification/Watch.thy ===== *)
theory Watch
  imports Scan
begin

text \<open>
  Discovery of the paths a native watcher observes (\<open>src/src/Sync/WatchPaths.h\<close>): breadth first from
  the section roots, within a budget of paths and of visited entries. \<open>disk\<close> is what the file system
  answers: the kind of a path that is no link, and the entries an iterator yields before it ends or
  fails. Each call of \<open>cancelled\<close> takes the next answer of a list. The loop over the directories
  takes the budget of paths as fuel; \<open>watch_fuel\<close> shows that it is enough.
\<close>

section \<open>Discovery\<close>

datatype wkind = WDirectory | WFile | WOther

record disk =
  kind_of :: "string \<Rightarrow> wkind"
  entries_of :: "string \<Rightarrow> (string \<times> wkind) list"

record watch =
  wpaths :: "string list"
  wdirectories :: "string list"
  visited :: nat
  answers :: "bool list"
  wcancelled :: bool

definition ask_cancelled :: "watch \<Rightarrow> bool \<times> watch" where
  "ask_cancelled x = (case answers x of [] \<Rightarrow> (False, x) | b # bs \<Rightarrow> (b, x\<lparr>answers := bs\<rparr>))"

definition stop_cancelled :: "watch \<Rightarrow> bool \<times> watch" where
  "stop_cancelled x = (True, x\<lparr>wcancelled := True\<rparr>)"

definition inspection_limit :: "nat \<Rightarrow> nat" where
  "inspection_limit limit = (if limit > 18446744073709551615 div 8 then 18446744073709551615 else limit * 8)"

text \<open>\<open>seen\<close> holds exactly the included paths.\<close>

definition include_path :: "string \<Rightarrow> bool \<Rightarrow> watch \<Rightarrow> watch" where
  "include_path p directory x =
     (if p \<in> set (wpaths x) then x
      else x\<lparr>wpaths := wpaths x @ [p], wdirectories := (if directory then wdirectories x @ [p] else wdirectories x)\<rparr>)"

text \<open>The loops return whether the whole discovery ends because it was cancelled.\<close>

fun root_loop :: "disk \<Rightarrow> nat \<Rightarrow> string list \<Rightarrow> watch \<Rightarrow> bool \<times> watch" where
  "root_loop k limit [] x = (False, x)"
| "root_loop k limit (r # rs) x =
     (let (c, x) = ask_cancelled x in
      if c then stop_cancelled x
      else if length (wpaths x) \<ge> limit then (False, x)
      else root_loop k limit rs (if kind_of k r = WDirectory then include_path r True x else x))"

definition within :: "nat \<Rightarrow> watch \<Rightarrow> bool" where
  "within limit x \<longleftrightarrow> length (wpaths x) < limit \<and> visited x < inspection_limit limit"

definition visit_entry :: "string \<Rightarrow> string \<times> wkind \<Rightarrow> watch \<Rightarrow> watch" where
  "visit_entry dir e x =
     (let x = x\<lparr>visited := Suc (visited x)\<rparr> in
      if \<not> index_control_name (fst e) \<and> snd e \<noteq> WOther
      then include_path (dir @ CHR ''/'' # fst e) (snd e = WDirectory) x else x)"

fun entry_loop :: "nat \<Rightarrow> string \<Rightarrow> (string \<times> wkind) list \<Rightarrow> watch \<Rightarrow> bool \<times> watch" where
  "entry_loop limit dir [] x = (False, x)"
| "entry_loop limit dir (e # es) x =
     (if \<not> within limit x then (False, x)
      else let (c, x) = ask_cancelled x in
      if c then stop_cancelled x
      else let x = visit_entry dir e x in
      if \<not> within limit x then (False, x)
      else let (c, x) = ask_cancelled x in
      if c then stop_cancelled x else entry_loop limit dir es x)"

fun directory_loop :: "disk \<Rightarrow> nat \<Rightarrow> nat \<Rightarrow> nat \<Rightarrow> watch \<Rightarrow> bool \<times> watch" where
  "directory_loop k limit 0 next x = (False, x)"
| "directory_loop k limit (Suc fuel) next x =
     (if next < length (wdirectories x) \<and> within limit x then
        (let (c, x) = ask_cancelled x in
         if c then stop_cancelled x
         else let dir = wdirectories x ! next; (c, x) = entry_loop limit dir (entries_of k dir) x in
         if c then (True, x) else directory_loop k limit fuel (Suc next) x)
      else (False, x))"

definition collect_watch_paths :: "disk \<Rightarrow> string list \<Rightarrow> nat \<Rightarrow> bool list \<Rightarrow> watch" where
  "collect_watch_paths k roots limit cs =
     (let x = \<lparr>wpaths = [], wdirectories = [], visited = 0, answers = cs, wcancelled = False\<rparr>; (c, x) = ask_cancelled x in
      if c then snd (stop_cancelled x)
      else if limit = 0 then x
      else let (c, x) = root_loop k limit roots x in
      if c then x
      else let (c, x) = directory_loop k limit limit 0 x in
      if c then x
      else let (c, x) = ask_cancelled x in x\<lparr>wcancelled := c\<rparr>)"

section \<open>Bounds\<close>

definition watch_ok :: "nat \<Rightarrow> watch \<Rightarrow> bool" where
  "watch_ok limit x \<longleftrightarrow> length (wpaths x) \<le> limit \<and> visited x \<le> inspection_limit limit \<and> distinct (wpaths x)
     \<and> length (wdirectories x) \<le> length (wpaths x)"

text \<open>The state after has all the paths and directories of the state before, in the same order.\<close>

definition longer :: "watch \<Rightarrow> watch \<Rightarrow> bool" where
  "longer x y \<longleftrightarrow> (\<exists>ps. wpaths y = wpaths x @ ps) \<and> (\<exists>ds. wdirectories y = wdirectories x @ ds)"

interpretation longer: op_rel longer
proof unfold_locales
  show "longer s s" for s by (simp add: longer_def)
  show "longer s u" if "longer s t" "longer t u" for s t u using that by (auto simp: longer_def)
qed

lemma ask_fields:
  "ask_cancelled x = (c, y) \<Longrightarrow> wpaths y = wpaths x \<and> wdirectories y = wdirectories x \<and> visited y = visited x"
  by (auto simp: ask_cancelled_def split: list.splits)

lemma ask_ok: "ask_cancelled x = (c, y) \<Longrightarrow> watch_ok limit y = watch_ok limit x \<and> within limit y = within limit x \<and> longer x y"
  using ask_fields [of x c y] by (simp add: watch_ok_def within_def longer_def)

lemma stop_ok: "watch_ok limit (snd (stop_cancelled x)) = watch_ok limit x" "longer y (snd (stop_cancelled x)) = longer y x"
  by (simp_all add: stop_cancelled_def watch_ok_def longer_def)

lemma include_ok: "watch_ok limit x \<Longrightarrow> length (wpaths x) < limit \<Longrightarrow> watch_ok limit (include_path p d x) \<and> longer x (include_path p d x)"
  by (auto simp: include_path_def watch_ok_def longer_def)

lemma visiting_ok: "watch_ok limit x \<Longrightarrow> within limit x \<Longrightarrow> watch_ok limit (visit_entry dir e x) \<and> longer x (visit_entry dir e x)"
proof -
  assume x: "watch_ok limit x" "within limit x"
  let ?x = "x\<lparr>visited := Suc (visited x)\<rparr>"
  have "watch_ok limit ?x" "length (wpaths ?x) < limit" "longer x ?x" using x by (auto simp: watch_ok_def within_def longer_def)
  then show ?thesis using include_ok [of limit ?x] longer.trans [of x ?x] by (simp add: visit_entry_def Let_def)
qed

lemma root_loop_ok: "watch_ok limit x \<Longrightarrow> watch_ok limit (snd (root_loop k limit rs x)) \<and> longer x (snd (root_loop k limit rs x))"
proof (induction rs arbitrary: x)
  case (Cons r rs)
  obtain c y where y: "ask_cancelled x = (c, y)" by (cases "ask_cancelled x")
  note a = ask_ok [OF y, of limit]
  show ?case
  proof (cases "c \<or> length (wpaths y) \<ge> limit")
    case True
    with a Cons.prems show ?thesis by (auto simp: y stop_ok)
  next
    case False
    let ?z = "if kind_of k r = WDirectory then include_path r True y else y"
    have z: "watch_ok limit ?z" "longer x ?z" using include_ok [of limit y] a Cons.prems False by (auto intro: longer.trans)
    then show ?thesis using Cons.IH [OF z(1)] False y longer.trans [OF z(2)] by simp
  qed
qed simp

lemma entry_loop_ok: "watch_ok limit x \<Longrightarrow> watch_ok limit (snd (entry_loop limit dir es x)) \<and> longer x (snd (entry_loop limit dir es x))"
proof (induction es arbitrary: x)
  case (Cons e es)
  obtain c y where y: "ask_cancelled x = (c, y)" by (cases "ask_cancelled x")
  let ?z = "visit_entry dir e y"
  note a = ask_ok [OF y, of limit]
  show ?case
  proof (cases "within limit x \<and> \<not> c")
    case False
    with a Cons.prems show ?thesis by (auto simp: y stop_ok)
  next
    case True
    with a Cons.prems have v: "watch_ok limit ?z" "longer y ?z" and "longer x y" using visiting_ok [of limit y dir e] by blast+
    then have z: "watch_ok limit ?z" "longer x ?z" using longer.trans [of x y ?z] by blast+
    obtain d v where v: "ask_cancelled ?z = (d, v)" by (cases "ask_cancelled ?z")
    note b = ask_ok [OF v, of limit]
    show ?thesis
    proof (cases "within limit ?z \<and> \<not> d")
      case False
      with True z b show ?thesis by (auto simp: y v stop_ok intro: longer.trans)
    next
      case inner: True
      have "watch_ok limit v" "longer x v" using z b by (auto intro: longer.trans)
      then show ?thesis using Cons.IH [of v] True inner y v longer.trans [of x v] by simp
    qed
  qed
qed simp

lemma directory_loop_ok:
  "watch_ok limit x \<Longrightarrow> watch_ok limit (snd (directory_loop k limit fuel next x)) \<and> longer x (snd (directory_loop k limit fuel next x))"
proof (induction fuel arbitrary: "next" x)
  case (Suc fuel)
  obtain c y where y: "ask_cancelled x = (c, y)" by (cases "ask_cancelled x")
  let ?dir = "wdirectories y ! next"
  obtain d v where v: "entry_loop limit ?dir (entries_of k ?dir) y = (d, v)" by (cases "entry_loop limit ?dir (entries_of k ?dir) y")
  note a = ask_ok [OF y, of limit]
  show ?case
  proof (cases "next < length (wdirectories x) \<and> within limit x \<and> \<not> c")
    case False
    with a Suc.prems show ?thesis by (auto simp: y stop_ok)
  next
    case True
    have z: "watch_ok limit v" "longer x v"
      using entry_loop_ok [of limit y ?dir "entries_of k ?dir"] v a Suc.prems by (auto intro: longer.trans)
    then show ?thesis using Suc.IH [OF z(1), of "Suc next"] longer.trans [OF z(2)] True y v by (cases d) (simp_all add: Let_def)
  qed
qed simp

lemma watch_fuel:
  "watch_ok limit x \<Longrightarrow> limit \<le> fuel + next \<Longrightarrow> limit \<le> fuel' + next \<Longrightarrow>
   directory_loop k limit fuel next x = directory_loop k limit fuel' next x"
proof (induction fuel arbitrary: "next" x fuel')
  case 0
  then have "\<not> (next < length (wdirectories x) \<and> within limit x)" by (auto simp: watch_ok_def within_def)
  then show ?case by (cases fuel') auto
next
  case (Suc fuel)
  show ?case
  proof (cases fuel')
    case 0
    with Suc.prems have "\<not> (next < length (wdirectories x) \<and> within limit x)" by (auto simp: watch_ok_def within_def)
    with 0 show ?thesis by auto
  next
    case (Suc m)
    obtain c y where y: "ask_cancelled x = (c, y)" by (cases "ask_cancelled x")
    let ?dir = "wdirectories y ! next"
    obtain d v where v: "entry_loop limit ?dir (entries_of k ?dir) y = (d, v)" by (cases "entry_loop limit ?dir (entries_of k ?dir) y")
    have "watch_ok limit v" using entry_loop_ok [of limit y] ask_ok [OF y, of limit] v Suc.prems(1) by (metis snd_conv)
    from Suc.IH [OF this, of "Suc next" m] Suc.prems Suc y v show ?thesis by (simp add: Let_def)
  qed
qed


lemma root_loop_roots:
  "root_loop k limit rs x = (False, y) \<Longrightarrow> distinct (wpaths x @ rs) \<Longrightarrow> length (wpaths x) \<le> limit \<Longrightarrow>
   wpaths y = take limit (wpaths x @ filter (\<lambda>r. kind_of k r = WDirectory) rs)"
proof (induction rs arbitrary: x)
  case (Cons r rs)
  obtain c z where z: "ask_cancelled x = (c, z)" by (cases "ask_cancelled x")
  note a = ask_fields [OF z]
  from Cons.prems(1) z have c: "\<not> c" by (auto simp: stop_cancelled_def split: if_splits)
  show ?case
  proof (cases "length (wpaths z) \<ge> limit")
    case True
    with Cons.prems a c z show ?thesis by simp
  next
    case False
    let ?u = "if kind_of k r = WDirectory then include_path r True z else z"
    have u: "wpaths ?u = wpaths x @ (if kind_of k r = WDirectory then [r] else [])"
      using Cons.prems(2) a by (auto simp: include_path_def)
    have "wpaths y = take limit (wpaths ?u @ filter (\<lambda>r. kind_of k r = WDirectory) rs)"
      by (rule Cons.IH) (use Cons.prems False a c z u in auto)
    moreover have "wpaths ?u @ filter (\<lambda>r. kind_of k r = WDirectory) rs = wpaths x @ filter (\<lambda>r. kind_of k r = WDirectory) (r # rs)"
      unfolding u by simp
    ultimately show ?thesis by (simp only:)
  qed
qed simp

text \<open>discovery stays within its budget and serves every section first. Whatever the tree and whenever it
  is cancelled, at most \<open>limit\<close> distinct paths are returned and at most eight times as many entries
  are visited; unless cancelled, the section roots that are directories come first, as many as the
  budget allows, before any of their descendants; and more fuel does not change the result.\<close>

theorem watch_bounded:
  assumes "distinct roots" "y = collect_watch_paths k roots limit cs"
  shows "length (wpaths y) \<le> limit \<and> visited y \<le> 8 * limit \<and> distinct (wpaths y)
    \<and> (wcancelled y \<or> (\<exists>ps. wpaths y = take limit (filter (\<lambda>r. kind_of k r = WDirectory) roots) @ ps))
    \<and> (\<forall>z next. watch_ok limit z \<longrightarrow> directory_loop k limit (limit + n) next z = directory_loop k limit limit next z)"
proof -
  let ?x = "\<lparr>wpaths = [], wdirectories = [], visited = 0, answers = cs, wcancelled = False\<rparr>"
  let ?roots = "take limit (filter (\<lambda>r. kind_of k r = WDirectory) roots)"
  obtain a x1 where 1: "ask_cancelled ?x = (a, x1)" by (cases "ask_cancelled ?x")
  obtain b x2 where 2: "root_loop k limit roots x1 = (b, x2)" by (cases "root_loop k limit roots x1")
  obtain c x3 where 3: "directory_loop k limit limit 0 x2 = (c, x3)" by (cases "directory_loop k limit limit 0 x2")
  obtain d x4 where 4: "ask_cancelled x3 = (d, x4)" by (cases "ask_cancelled x3")
  have ok1: "watch_ok limit x1" "wpaths x1 = []" using ask_ok [OF 1, of limit] ask_fields [OF 1] by (simp_all add: watch_ok_def)
  have ok2: "watch_ok limit x2" using root_loop_ok [OF ok1(1), of k roots] 2 by simp
  have ok3: "watch_ok limit x3" "longer x2 x3" using directory_loop_ok [OF ok2, of k limit 0] 3 by simp_all
  have y: "y = (if a then snd (stop_cancelled x1) else if limit = 0 then x1 else if b then x2 else if c then x3 else x4\<lparr>wcancelled := d\<rparr>)"
    using 1 2 3 4 by (simp add: assms(2) collect_watch_paths_def Let_def)
  have "watch_ok limit (x4\<lparr>wcancelled := d\<rparr>)" using ask_ok [OF 4, of limit] ok3 by (simp add: watch_ok_def)
  then have ok: "watch_ok limit y" using y ok1(1) ok2 ok3(1) by (cases a; cases "limit = 0"; cases b; cases c) (simp_all add: stop_ok)
  have marked: "wcancelled w" if "root_loop k limit rs z = (True, w)" for rs z w
    using that by (induction rs arbitrary: z) (auto simp: stop_cancelled_def split: prod.splits if_splits)
  have marked2: "wcancelled w" if "entry_loop limit dir es z = (True, w)" for dir es z w
    using that by (induction es arbitrary: z) (auto simp: stop_cancelled_def Let_def split: prod.splits if_splits)
  have marked3: "wcancelled w" if "directory_loop k limit f m z = (True, w)" for f m z w
    using that marked2 by (induction f arbitrary: m z) (auto simp: stop_cancelled_def Let_def split: prod.splits if_splits)
  have r: "wcancelled y \<or> (\<exists>ps. wpaths y = ?roots @ ps)"
  proof (cases "a \<or> limit = 0 \<or> b \<or> c")
    case True
    then show ?thesis using y marked marked3 2 3 ok1 by (auto simp: stop_cancelled_def)
  next
    case False
    then have "wpaths x2 = ?roots" using root_loop_roots [of k limit roots x1 x2] 2 ok1 assms(1) by simp
    moreover obtain ps where "wpaths x3 = wpaths x2 @ ps" using ok3(2) by (auto simp: longer_def)
    ultimately show ?thesis using y False ask_fields [OF 4] by auto
  qed
  have "inspection_limit limit \<le> 8 * limit" by (simp add: inspection_limit_def)
  then have "visited y \<le> 8 * limit" using ok by (simp add: watch_ok_def)
  moreover have "\<forall>z next. watch_ok limit z \<longrightarrow> directory_loop k limit (limit + n) next z = directory_loop k limit limit next z"
    by (intro allI impI watch_fuel) simp_all
  ultimately show ?thesis using ok r by (simp add: watch_ok_def)
qed

theorem watch_bounded_witness:
  "length (wpaths (collect_watch_paths \<lparr>kind_of = (\<lambda>p. WDirectory), entries_of = (\<lambda>p. [(''a'', WDirectory)])\<rparr> [''/c/Files'', ''/c/Photos''] 3 [])) \<le> 3"
  using watch_bounded [of "[''/c/Files'', ''/c/Photos'']" "collect_watch_paths \<lparr>kind_of = (\<lambda>p. WDirectory), entries_of = (\<lambda>p. [(''a'', WDirectory)])\<rparr> [''/c/Files'', ''/c/Photos''] 3 []"
    "\<lparr>kind_of = (\<lambda>p. WDirectory), entries_of = (\<lambda>p. [(''a'', WDirectory)])\<rparr>" 3 "[]" 0] by simp

end
