(* ===== verification/Worker.thy ===== *)
theory Worker
  imports SyncRuns Watch
begin

text \<open>
  The worker behind the controller (\<open>SyncWorker\<close> in \<open>src/src/Sync/Controller.cpp\<close>): it owns the replica and the
  synchronizer, serves the requests of peers, keeps the index of a host up to date and starts a run with one host
  after the other. It lives on a thread of its own: what it is asked is a message, and what it emits is a list of news
  for the controller's thread. The indexing and the archiving threads work on connections of their own; the model
  has their starts and their results.
\<close>

section \<open>State\<close>

datatype news =
    ResultNews nat string jobj
  | StatusNews nat bool bool string
  | RequestNews nat string string jobj
  | NamespaceNews nat jobj
  | MirrorNews nat jobj
  | ValidatedNews nat string
  | SynchronizedNews nat string
  | ProgressNews nat string int int
  | InspectedNews nat string string jobj string string

text \<open>A request of a peer that is to be served: its controller generation, key, peer, message, deadline and delay.\<close>

record errand =
  errand_mark :: nat
  errand_key :: string
  errand_peer :: string
  errand_message :: jobj
  errand_deadline :: int
  errand_delay :: int

record 's worker =
  sync_of :: "'s sync"
  made :: bool
  run_mark :: nat
  root_dir :: string
  primary_claim :: string
  again :: bool
  direct_host :: bool
  wanted_policy :: policy
  host_list :: "string list"
  host_queue :: "string list"
  account_host :: string
  account_container :: string
  namespace_seen :: jobj
  indexing :: bool
  index_dirty :: bool
  index_recent :: bool
  archiving :: bool
  archive_again :: bool
  archive_armed :: bool
  changes_armed :: bool
  next_due :: nat
  errands :: "errand list"
  watched :: "string list"
  news :: "news list"

text \<open>The packages and the system: \<open>SharedStorage::open\<close> gives the root of a drive or an error, \<open>medium_at\<close> is what opening
  the replica there finds, \<open>container_at\<close> the identifier and the files of the container at a path, \<open>watch_disk\<close>, \<open>descriptors\<close>, \<open>mobile\<close> and \<open>watch_answers\<close> are for the watches.\<close>

record 's post =
  base :: "'s setting"
  shared_open :: "string \<Rightarrow> string + string"
  container_at :: "string \<Rightarrow> (string \<times> fsys) option"
  medium_at :: "string \<Rightarrow> medium"
  watch_disk :: disk
  descriptors :: "nat option"
  mobile :: bool
  watch_answers :: "bool list"

definition store_of :: "'s worker \<Rightarrow> replica" where
  "store_of w = replica_of (sync_of w)"

definition store_open :: "'s worker \<Rightarrow> bool" where
  "store_open w \<longleftrightarrow> made w \<and> is_open (store_of w)"

definition tell :: "news \<Rightarrow> 's worker \<Rightarrow> 's worker" where
  "tell x w = w\<lparr>news := news w @ [x]\<rparr>"

definition on_store :: "(replica \<Rightarrow> 'a \<times> replica) \<Rightarrow> 's worker \<Rightarrow> 'a \<times> 's worker" where
  "on_store op w = (let (x, s) = on_replica op (sync_of w) in (x, w\<lparr>sync_of := s\<rparr>))"

definition publish_store :: "'s post \<Rightarrow> 's worker \<Rightarrow> bool \<times> 's worker" where
  "publish_store P w = (let (ok, s) = publish_map (base P) (sync_of w) in (ok, w\<lparr>sync_of := s\<rparr>))"

section \<open>Watches and namespace\<close>

definition watch_path_limit :: "'s post \<Rightarrow> nat" where
  "watch_path_limit P =
     (let limit = (case descriptors P of None \<Rightarrow> 8192 | Some n \<Rightarrow> min 8192 (n div 8)) in
      if mobile P then min limit 128 else limit)"

definition refresh_watches :: "'s post \<Rightarrow> 's worker \<Rightarrow> 's worker" where
  "refresh_watches P w =
     (if root_dir w = [] then w
      else let roots = map (\<lambda>(k, n). root_dir w @ CHR ''/'' # n) (store_sections (qt (base P)));
               found = collect_watch_paths (watch_disk P) roots (watch_path_limit P) (watch_answers P) in
      if wcancelled found then w else w\<lparr>watched := wpaths found\<rparr>)"

definition publish_namespace :: "'s worker \<Rightarrow> 's worker" where
  "publish_namespace w =
     (let x = namespace_state (store_of w) in
      if x = namespace_seen w then w else tell (NamespaceNews (run_mark w) x) (w\<lparr>namespace_seen := x\<rparr>))"

section \<open>Background threads\<close>

definition stop_indexing :: "'s worker \<Rightarrow> 's worker" where
  "stop_indexing w = w\<lparr>archive_armed := False, archive_again := False, archiving := False, indexing := False\<rparr>"

definition archive_files :: "'s worker \<Rightarrow> 's worker" where
  "archive_files w =
     (if \<not> store_open w then w
      else if indexing w \<or> active (sync_of w) \<or> host_queue w \<noteq> [] \<or> changes_armed w then w\<lparr>archive_armed := True\<rparr>
      else if archiving w then w\<lparr>archive_again := True\<rparr>
      else w\<lparr>archiving := True\<rparr>)"

definition archive_finished :: "nat \<Rightarrow> bool \<Rightarrow> string \<Rightarrow> 's worker \<Rightarrow> 's worker" where
  "archive_finished mark ok error w =
     (if \<not> archiving w then w
      else let w = w\<lparr>archiving := False\<rparr> in
      if mark \<noteq> run_mark w \<or> \<not> store_open w then w
      else let w = (if ok then w else tell (StatusNews (run_mark w) True False error) w) in
      if archive_again w then w\<lparr>archive_again := False, archive_armed := True\<rparr> else w)"

definition index_host :: "'s worker \<Rightarrow> 's worker" where
  "index_host w =
     (if indexing w \<or> \<not> store_open w \<or> (\<not> index_dirty w \<and> index_recent w) then w
      else w\<lparr>index_dirty := False, index_recent := True, indexing := True\<rparr>)"

definition index_finished :: "'s post \<Rightarrow> nat \<Rightarrow> bool \<Rightarrow> string \<Rightarrow> 's worker \<Rightarrow> 's worker" where
  "index_finished P mark ok error w =
     (if \<not> indexing w then w
      else let w = w\<lparr>indexing := False\<rparr> in
      if mark \<noteq> run_mark w \<or> \<not> store_open w then w
      else let (done, w) = (if ok then publish_store P w else (False, w));
               w = publish_namespace (refresh_watches P (if done then w else w\<lparr>index_dirty := True\<rparr>));
               error = (if ok then rerror (store_of w) else error);
               w = tell (StatusNews (run_mark w) True False (if done then [] else error)) w in
      if done then w\<lparr>archive_armed := True\<rparr> else w)"

section \<open>The synchronizer's signals\<close>

definition route :: "'s post \<Rightarrow> signal \<Rightarrow> 's worker \<Rightarrow> 's worker" where
  "route P x w =
     (case x of
        RequestReady i peer message \<Rightarrow> tell (RequestNews (run_mark w) i peer message) w
      | Progress path part whole \<Rightarrow> tell (ProgressNews (run_mark w) path part whole) w
      | MirrorChanged b \<Rightarrow> tell (MirrorNews (run_mark w) b) (stop_indexing w)
      | HostValidated peer \<Rightarrow> tell (ValidatedNews (run_mark w) peer) w
      | Finished peer ok error \<Rightarrow>
          (let w = publish_namespace (refresh_watches P w);
               w = tell (StatusNews (run_mark w) (is_open (store_of w)) False (if ok then [] else error)) w;
               w = (if ok then tell (SynchronizedNews (run_mark w) peer) w else w)
           in w\<lparr>next_due := Suc (next_due w)\<rparr>))"

definition on_sync :: "'s post \<Rightarrow> ('s sync \<Rightarrow> 's sync) \<Rightarrow> 's worker \<Rightarrow> 's worker" where
  "on_sync P op w = (let s = op (sync_of w) in foldl (\<lambda>w x. route P x w) (w\<lparr>sync_of := s\<lparr>signals := []\<rparr>\<rparr>) (signals s))"

section \<open>Requests of peers\<close>

definition pin_primary :: "'s post \<Rightarrow> 's worker \<Rightarrow> bool \<times> 's worker" where
  "pin_primary P w =
     (if primary_claim w = [] then (True, w)
      else if \<not> store_open w then (False, w)
      else let (ok, w) = on_store (\<lambda>r. on_files (claim_primary_host (qt (base P)) (drive r) (scope r) (primary_claim w)) r) w in
      if ok then (True, w\<lparr>primary_claim := []\<rparr>) else (False, w))"

definition refusal :: "string \<Rightarrow> jobj" where
  "refusal e = obj [(''ok'', JBool False), (''error'', JStr e)]"

definition serve :: "'s post \<Rightarrow> string \<Rightarrow> jobj \<Rightarrow> 's worker \<Rightarrow> jobj \<times> 's worker" where
  "serve P peer message w =
     (let (ok, w) = pin_primary P w in
      if \<not> ok then (refusal ''primary_host_unavailable'', w)
      else if host_binding (sync_of w) \<noteq> [] then (refusal ''mirror_cannot_be_primary_host'', w)
      else let E = base P in
      on_store (handle (qt E) (drive_request (qt E) (prepare_file E)) (scan (qt E) (slow_scan E)) peer message False) w)"

definition handle_errand :: "'s post \<Rightarrow> nat \<Rightarrow> errand \<Rightarrow> 's worker \<Rightarrow> 's worker" where
  "handle_errand P mark x w =
     (if run_mark w \<noteq> errand_mark x \<or> mark \<noteq> errand_mark x then w
      else if now_ms (qt (base P)) \<ge> errand_deadline x
      then tell (ResultNews (errand_mark x) (errand_key x) (refusal ''sync_request_timeout'')) w
      else let (response, w) = serve P (errand_peer x) (errand_message x) w in
      if oget ''error'' response = JStr ''sync_store_busy'' \<and> now_ms (qt (base P)) < errand_deadline x
      then w\<lparr>errands := errands w @ [x\<lparr>errand_delay := min 50 (errand_delay x * 2)\<rparr>]\<rparr>
      else let w = (if accepted response \<and> oget ''action'' (errand_message x) \<in> {JStr ''drive.write'', JStr ''drive.mkdir''}
                    then (publish_namespace (snd (publish_store P w)))\<lparr>index_dirty := True\<rparr> else w) in
      tell (ResultNews (errand_mark x) (errand_key x) response) w)"

section \<open>Runs with the hosts\<close>

definition next_host :: "'s post \<Rightarrow> nat \<Rightarrow> 's worker \<Rightarrow> 's worker" where
  "next_host P mark w =
     (if \<not> store_open w \<or> active (sync_of w) \<or> mark \<noteq> run_mark w then w
      else case host_queue w of
        [] \<Rightarrow> (if again w \<and> \<not> changes_armed w then w\<lparr>changes_armed := True\<rparr> else w)
      | peer # rest \<Rightarrow>
          on_sync P (\<lambda>s. snd (start_sync (base P) peer s)) (tell (StatusNews (run_mark w) True True []) (w\<lparr>host_queue := rest\<rparr>)))"

text \<open>A device without hosts commits its own changes: the authority publishes and indexes, a mirror stages proposals.\<close>

definition local_round :: "'s post \<Rightarrow> 's worker \<Rightarrow> 's worker" where
  "local_round P w =
     (let (ok, w) = (if host_binding (sync_of w) = []
            then (let (ok, w) = publish_store P w in (ok, if ok then index_host w else w))
            else (let (ok, w) = on_store (scan (qt (base P)) (slow_scan (base P))) w;
                      (ok, w) = (if ok then publish_store P w else (False, w)) in (ok, refresh_watches P w)));
          w = publish_namespace w in
      tell (StatusNews (run_mark w) True False (if ok then [] else rerror (store_of w))) w)"

definition tick :: "'s post \<Rightarrow> nat \<Rightarrow> 's worker \<Rightarrow> 's worker" where
  "tick P mark w =
     (if \<not> store_open w \<or> mark \<noteq> run_mark w \<or> direct_host w then w
      else let (pinned, w) = pin_primary P w in
      if \<not> pinned then tell (StatusNews (run_mark w) True False ''primary_host_unavailable'') w
      else if active (sync_of w) then w\<lparr>again := True\<rparr>
      else let w = w\<lparr>again := False\<rparr>;
               w = (if host_list w = [] \<and> \<not> bootstrapping (store_of w) then local_round P w else w) in
      next_host P mark (w\<lparr>host_queue := host_list w\<rparr>))"

definition files_changed :: "'s worker \<Rightarrow> 's worker" where
  "files_changed w = w\<lparr>index_dirty := True, again := True, archive_armed := True, changes_armed := True\<rparr>"

section \<open>What the controller asks\<close>

definition make_store :: "'s worker \<Rightarrow> 's worker" where
  "make_store w = w\<lparr>made := True, sync_of := snd (set_content_policy (wanted_policy w) (sync_of w))\<rparr>"

definition configure :: "'s post \<Rightarrow> nat \<Rightarrow> string \<Rightarrow> string \<Rightarrow> nat \<Rightarrow> bool \<Rightarrow> 's worker \<Rightarrow> 's worker" where
  "configure P mark path account asked direct w =
     (if mark \<noteq> asked then w
      else let w = stop_indexing (if made w then w else make_store w);
               w = on_sync P (set_expected_host [] []) (w\<lparr>account_host := [], account_container := []\<rparr>);
               w = on_sync P stop_sync w;
               w = w\<lparr>run_mark := asked, host_queue := [], host_list := []\<rparr>;
               w = snd (on_store (\<lambda>r. ((), close_replica r)) w);
               w = w\<lparr>again := False, changes_armed := False, root_dir := [], primary_claim := [], direct_host := direct, index_dirty := True,
                     index_recent := False, namespace_seen := [], watched := []\<rparr> in
      if account = [] then tell (StatusNews asked False False []) w
      else case shared_open P path of
        Inl e \<Rightarrow> tell (StatusNews asked False False e) w
      | Inr root \<Rightarrow>
          (let (ok, w) = on_store (open_replica (qt (base P)) (medium_at P root) account) w in
           if \<not> ok then tell (StatusNews asked False False (rerror (store_of w))) w
           else let w = w\<lparr>root_dir := root\<rparr>; w = (if direct then w else refresh_watches P w);
                    w = tell (MirrorNews asked (host_binding (sync_of w))) w in
           tell (StatusNews asked True False []) w))"

definition set_hosts :: "'s post \<Rightarrow> nat \<Rightarrow> string list \<Rightarrow> nat \<Rightarrow> string \<Rightarrow> string \<Rightarrow> 's worker \<Rightarrow> 's worker" where
  "set_hosts P mark values asked host con w =
     (if run_mark w \<noteq> asked \<or> \<not> made w then w
      else let values = sort (first_of_each values) in
      if host_list w = values \<and> account_host w = host \<and> account_container w = con then w
      else let w = on_sync P (set_expected_host host con) (w\<lparr>account_host := host, account_container := con\<rparr>);
               w = on_sync P stop_sync w in
      tick P mark (w\<lparr>host_list := values, host_queue := []\<rparr>))"

definition synchronize_now :: "'s post \<Rightarrow> nat \<Rightarrow> nat \<Rightarrow> 's worker \<Rightarrow> 's worker" where
  "synchronize_now P mark asked w = (if run_mark w = asked then tick P mark (w\<lparr>index_dirty := True\<rparr>) else w)"

definition change_policy :: "'s post \<Rightarrow> nat \<Rightarrow> policy \<Rightarrow> 's worker \<Rightarrow> 's worker" where
  "change_policy P mark p w =
     (let w = w\<lparr>wanted_policy := p\<rparr> in
      if \<not> made w then w
      else tick P mark (on_sync P (\<lambda>s. snd (set_content_policy p s)) (on_sync P stop_sync w)))"

definition claim_host :: "'s post \<Rightarrow> nat \<Rightarrow> string \<Rightarrow> nat \<Rightarrow> 's worker \<Rightarrow> 's worker" where
  "claim_host P mark device asked w =
     (if run_mark w \<noteq> asked \<or> mark \<noteq> asked then w
      else let (ok, w) = pin_primary P (w\<lparr>primary_claim := device\<rparr>) in
      if ok then w else tell (StatusNews asked (store_open w) False ''primary_host_unavailable'') w)"

definition forward_response :: "'s post \<Rightarrow> nat \<Rightarrow> string \<Rightarrow> jobj \<Rightarrow> 's worker \<Rightarrow> 's worker" where
  "forward_response P asked i response w = (if run_mark w = asked then on_sync P (receive (base P) i response) w else w)"

definition inspect :: "'s post \<Rightarrow> nat \<Rightarrow> string \<Rightarrow> string \<Rightarrow> nat \<Rightarrow> 's worker \<Rightarrow> 's worker" where
  "inspect P mark path account asked w =
     (if mark \<noteq> asked then w
      else if path = [] then tell (InspectedNews asked path account [] [] []) w
      else let Q = qt (base P); found = container_at P path;
               b = (case found of None \<Rightarrow> [] | Some (i, f) \<Rightarrow> stored_binding Q (Some i) f);
               primary = (if b = [] then (case found of None \<Rightarrow> [] | Some (i, f) \<Rightarrow> primary_host Q (Some i) account f) else jstr (oget ''host'' b)) in
      tell (InspectedNews asked path account b (case found of None \<Rightarrow> [] | Some (i, f) \<Rightarrow> i) primary) w)"

definition stop_worker :: "'s post \<Rightarrow> 's worker \<Rightarrow> 's worker" where
  "stop_worker P w = (if \<not> made w then w else snd (on_store (\<lambda>r. ((), close_replica r)) (on_sync P stop_sync w)))"

definition new_worker :: "'s sync \<Rightarrow> 's worker" where
  "new_worker s = \<lparr>sync_of = s, made = False, run_mark = 0, root_dir = [], primary_claim = [], again = False, direct_host = False,
     wanted_policy = MetadataFirst, host_list = [], host_queue = [], account_host = [], account_container = [], namespace_seen = [],
     indexing = False, index_dirty = True, index_recent = False, archiving = False, archive_again = False, archive_armed = False,
     changes_armed = False, next_due = 0, errands = [], watched = [], news = []\<rparr>"

end
