(* ===== verification/Controller.thy ===== *)
theory Controller
  imports Worker
begin

text \<open>
  The controller (\<open>src/src/Sync/Controller.cpp\<close>): it admits the requests of authorized peers as jobs, once per token, and
  passes them to the worker; it opens and closes containers, names the hosts, relays requests and responses between
  the worker's synchronizer and the transport, and publishes the status. The two threads exchange messages in
  order: \<open>letters\<close> go to the worker, the worker's \<open>news\<close> come back. The counter \<open>cancellation\<close> that both read is
  \<open>open_mark\<close>.
\<close>

section \<open>State\<close>

datatype letter =
    Configure string string nat bool
  | SetHosts "string list" nat string string
  | SynchronizeNow nat
  | SetPolicy policy
  | ClaimHost string nat
  | Serve errand
  | Respond nat string jobj
  | Inspect string string nat
  | StopWorker

datatype event = Changed | NamespaceEvent jobj | MirrorEvent jobj | ValidatedEvent string | SynchronizedEvent string
  | ProgressEvent string int int | ContainerInspected string string jobj string string | ProviderFinished string string bool bool string

record job =
  job_request :: jobj
  job_result :: jobj
  job_finished :: bool
  job_created :: int
  job_peer :: string

text \<open>A thread that moves an object to a provider or back.\<close>

record provider_task =
  task_mark :: nat
  task_path :: string
  task_provider :: string
  task_restore :: bool
  task_done :: bool

record 's controller =
  open_mark :: nat
  inspect_mark :: nat
  jobs :: "(string \<times> job) list"
  transport_ids :: "(string \<times> string) list"
  authorized :: "string list"
  incoming :: "(string \<times> int) list"
  sync_status :: status_code
  open_path :: string
  open_scope :: string
  last_error :: string
  is_ready :: bool
  is_busy :: bool
  is_opening :: bool
  is_shut :: bool
  host_access :: bool
  provider_tasks :: "provider_task list"
  worker_of :: "'s worker"
  letters :: "letter list"
  events :: "event list"

definition happen :: "event \<Rightarrow> 's controller \<Rightarrow> 's controller" where
  "happen x c = c\<lparr>events := events c @ [x]\<rparr>"

definition post_letter :: "letter \<Rightarrow> 's controller \<Rightarrow> 's controller" where
  "post_letter x c = c\<lparr>letters := letters c @ [x]\<rparr>"

section \<open>Requests of peers\<close>

definition proposing_actions :: "json set" where
  "proposing_actions = {JStr ''begin'', JStr ''chunk'', JStr ''commit'', JStr ''apply''}"

definition unreadable :: "env \<Rightarrow> jobj \<Rightarrow> bool" where
  "unreadable Q e \<longleftrightarrow> oget ''op'' e \<noteq> JStr ''society.sync'' \<or> int_or 0 (oget ''protocol'' e) \<noteq> 2 \<or> uuid_null Q (jstr (oget ''token'' e))
     \<or> \<not> is_obj (oget ''message'' e) \<or> length (json_bytes Q e) > 410000"

definition proposal_missing :: "env \<Rightarrow> jobj \<Rightarrow> bool" where
  "proposal_missing Q message \<longleftrightarrow> JStr (jstr (oget ''action'' message)) \<in> proposing_actions
     \<and> (let e = jobject (oget ''entry'' message) in \<not> has_key ''baseRevision'' e \<or> has_key ''revision'' e \<or> \<not> valid_record Q e)"

text \<open>The refusal of an envelope; an empty text admits it.\<close>

definition envelope_refusal :: "env \<Rightarrow> string \<Rightarrow> jobj \<Rightarrow> 's controller \<Rightarrow> string" where
  "envelope_refusal Q peer e c =
     (let message = jobject (oget ''message'' e) in
      if peer \<notin> set (authorized c) \<or> open_scope c = [] \<or> jstr (oget ''scope'' e) \<noteq> open_scope c then ''sync_peer_not_authorized''
      else if \<not> is_ready c then ''sync_container_unavailable''
      else if oget ''namespaceVersion'' e \<noteq> JNum 1 then ''namespace_authority_protocol_required''
      else if unreadable Q e then ''invalid_sync_envelope''
      else if host_access c \<and> \<not> starts_with ''drive.'' (jstr (oget ''action'' message)) then ''host_access_operation_required''
      else if proposal_missing Q message then ''namespace_proposal_required''
      else if oget ''action'' message \<noteq> JStr ''describe'' \<and> uuid_null Q (jstr (oget ''container'' message)) then ''logical_container_required''
      else [])"

definition pending_reply :: jobj where
  "pending_reply = obj [(''ok'', JBool True), (''pending'', JBool True)]"

text \<open>Jobs that have been answered are kept for a minute; when 32 are kept, the oldest answered one goes.\<close>

definition oldest_finished :: "(string \<times> job) list \<Rightarrow> string option" where
  "oldest_finished js =
     (case sort_key (\<lambda>(k, x). (job_created x, k)) (filter (\<lambda>(k, x). job_finished x) js) of [] \<Rightarrow> None | (k, x) # ys \<Rightarrow> Some k)"

fun make_room :: "nat \<Rightarrow> (string \<times> job) list \<Rightarrow> bool \<times> (string \<times> job) list" where
  "make_room 0 js = (length js < 32, js)"
| "make_room (Suc n) js =
     (if length js < 32 then (True, js)
      else case oldest_finished js of None \<Rightarrow> (False, js) | Some k \<Rightarrow> make_room n (filter (\<lambda>y. fst y \<noteq> k) js))"

definition recent_jobs :: "int \<Rightarrow> (string \<times> job) list \<Rightarrow> (string \<times> job) list" where
  "recent_jobs now js = filter (\<lambda>(k, x). \<not> (job_finished x \<and> now - job_created x > 60000)) js"

definition note_snapshot :: "string \<Rightarrow> jobj \<Rightarrow> int \<Rightarrow> 's controller \<Rightarrow> 's controller" where
  "note_snapshot peer message elapsed c =
     (let c = (if oget ''action'' message = JStr ''manifest'' \<and> is_obj (oget ''snapshot'' message)
               then c\<lparr>incoming := upsert peer (elapsed + 120000) (incoming c)\<rparr> else c) in
      if peer \<in> fst ` set (incoming c)
      then c\<lparr>incoming := upsert peer (elapsed + 120000) (incoming c), sync_status := InProgress\<rparr> else c)"

definition admit :: "env \<Rightarrow> int \<Rightarrow> string \<Rightarrow> jobj \<Rightarrow> string \<Rightarrow> 's controller \<Rightarrow> jobj \<times> 's controller" where
  "admit Q elapsed peer e key c =
     (let (room, js) = (let js = recent_jobs (now_ms Q) (jobs c) in make_room (length js) js); c = c\<lparr>jobs := js\<rparr> in
      if \<not> room then (refusal ''sync_endpoint_busy'', c)
      else let message = jobject (oget ''message'' e);
               x = \<lparr>job_request = e, job_result = [], job_finished = False, job_created = now_ms Q, job_peer = peer\<rparr>;
               c = note_snapshot peer message elapsed (c\<lparr>jobs := upsert key x (jobs c)\<rparr>) in
      (pending_reply, post_letter (Serve \<lparr>errand_mark = open_mark c, errand_key = key, errand_peer = peer, errand_message = message,
                                     errand_deadline = now_ms Q + 120000, errand_delay = 1\<rparr>) c))"

definition handle_envelope :: "env \<Rightarrow> int \<Rightarrow> string \<Rightarrow> jobj \<Rightarrow> 's controller \<Rightarrow> jobj \<times> 's controller" where
  "handle_envelope Q elapsed peer e c =
     (let why = envelope_refusal Q peer e c; key = peer @ CHR ''/'' # jstr (oget ''token'' e) in
      if why \<noteq> [] then (refusal why, c)
      else case map_of (jobs c) key of
        Some x \<Rightarrow>
          (if job_request x \<noteq> e then refusal ''different_request_token_reuse''
           else if job_finished x then obj [(''ok'', JBool True), (''result'', JObj (job_result x))] else pending_reply, c)
      | None \<Rightarrow> admit Q elapsed peer e key c)"

section \<open>The owner's calls\<close>

definition open_internal :: "string \<Rightarrow> string \<Rightarrow> bool \<Rightarrow> 's controller \<Rightarrow> 's controller" where
  "open_internal path account direct c =
     (if is_shut c \<or> (open_path c = path \<and> open_scope c = account \<and> host_access c = direct \<and> account \<noteq> [] \<and> (is_ready c \<or> is_opening c)) then c
      else let asked = Suc (open_mark c); cancelled = (path = [] \<and> (is_busy c \<or> incoming c \<noteq> []));
               c = c\<lparr>open_mark := asked, incoming := [], sync_status := (if cancelled then Cancelled else Before), open_path := path,
                     open_scope := account, is_ready := False, is_busy := False, last_error := [], is_opening := (account \<noteq> []),
                     host_access := direct, jobs := [], transport_ids := [], authorized := []\<rparr> in
      happen Changed (post_letter (Configure path account asked direct) c))"

definition close_controller :: "'s controller \<Rightarrow> 's controller" where
  "close_controller c = (if open_scope c = [] \<and> open_path c = [] then c else open_internal [] [] False c)"

definition inspect_container :: "string \<Rightarrow> string \<Rightarrow> 's controller \<Rightarrow> 's controller" where
  "inspect_container path account c =
     (if is_shut c then c
      else post_letter (Inspect path account (Suc (inspect_mark c))) (c\<lparr>inspect_mark := Suc (inspect_mark c)\<rparr>))"

definition shut_down :: "'s controller \<Rightarrow> 's controller" where
  "shut_down c =
     (if is_shut c then c
      else let c = (if is_busy c \<or> incoming c \<noteq> [] then c\<lparr>sync_status := Cancelled\<rparr> else c) in
      post_letter StopWorker (c\<lparr>is_shut := True, incoming := [], is_ready := False, is_busy := False, is_opening := False, jobs := [],
        transport_ids := [], authorized := [], open_mark := Suc (open_mark c), inspect_mark := Suc (inspect_mark c)\<rparr>))"

definition set_peers :: "string list \<Rightarrow> string list \<Rightarrow> string \<Rightarrow> string \<Rightarrow> 's controller \<Rightarrow> 's controller" where
  "set_peers peers remote host con c =
     (if is_shut c then c
      else let kept = filter (\<lambda>y. fst y \<in> set peers) (incoming c); cancelled = (kept \<noteq> incoming c);
               c = c\<lparr>authorized := peers, incoming := kept\<rparr>;
               c = (if cancelled \<and> kept = [] \<and> \<not> is_busy c then c\<lparr>sync_status := Cancelled\<rparr> else c) in
      post_letter (SetHosts (filter (\<lambda>h. h \<in> set peers) remote) (open_mark c) host con) c)"

definition ask_worker :: "(nat \<Rightarrow> letter) \<Rightarrow> 's controller \<Rightarrow> 's controller" where
  "ask_worker x c = (if is_shut c then c else post_letter (x (open_mark c)) c)"

definition claim_primary :: "string \<Rightarrow> 's controller \<Rightarrow> 's controller" where
  "claim_primary device c = (if device = [] then c else ask_worker (ClaimHost device) c)"

definition receive_transport :: "string \<Rightarrow> jobj \<Rightarrow> 's controller \<Rightarrow> 's controller" where
  "receive_transport network response c =
     (if is_shut c then c
      else case map_of (transport_ids c) network of
        None \<Rightarrow> c
      | Some i \<Rightarrow>
          (let c = c\<lparr>transport_ids := filter (\<lambda>y. fst y \<noteq> network) (transport_ids c)\<rparr> in
           if i = [] then c else post_letter (Respond (open_mark c) i response) c))"

definition provider_start :: "string \<Rightarrow> string \<Rightarrow> bool \<Rightarrow> 's controller \<Rightarrow> 's controller" where
  "provider_start path provider restore c =
     (if is_shut c then c
      else if \<not> is_ready c \<or> length (provider_tasks c) \<ge> 2
      then happen (ProviderFinished path provider restore False (if \<not> is_ready c then ''sync_container_unavailable'' else ''provider_busy'')) c
      else c\<lparr>provider_tasks := provider_tasks c @
              [\<lparr>task_mark = open_mark c, task_path = path, task_provider = provider, task_restore = restore, task_done = False\<rparr>]\<rparr>)"

text \<open>A task reports its result, then its thread ends.\<close>

definition provider_report :: "nat \<Rightarrow> bool \<Rightarrow> string \<Rightarrow> 's controller \<Rightarrow> 's controller" where
  "provider_report n ok error c =
     (if n \<ge> length (provider_tasks c) \<or> task_done (provider_tasks c ! n) then c
      else let x = provider_tasks c ! n; c = c\<lparr>provider_tasks := (provider_tasks c)[n := x\<lparr>task_done := True\<rparr>]\<rparr> in
      if task_mark x = open_mark c then happen (ProviderFinished (task_path x) (task_provider x) (task_restore x) ok error) c else c)"

definition provider_end :: "nat \<Rightarrow> 's controller \<Rightarrow> 's controller" where
  "provider_end n c =
     (if n \<ge> length (provider_tasks c) \<or> \<not> task_done (provider_tasks c ! n) then c
      else c\<lparr>provider_tasks := take n (provider_tasks c) @ drop (Suc n) (provider_tasks c)\<rparr>)"

section \<open>The worker's thread\<close>

definition on_worker :: "('s worker \<Rightarrow> 's worker) \<Rightarrow> 's controller \<Rightarrow> 's controller" where
  "on_worker op c = c\<lparr>worker_of := op (worker_of c)\<rparr>"

definition obey :: "'s post \<Rightarrow> letter \<Rightarrow> 's controller \<Rightarrow> 's controller" where
  "obey P x c =
     (let mark = open_mark c in
      on_worker (case x of
          Configure path account asked direct \<Rightarrow> configure P mark path account asked direct
        | SetHosts hs asked host con \<Rightarrow> set_hosts P mark hs asked host con
        | SynchronizeNow asked \<Rightarrow> synchronize_now P mark asked
        | SetPolicy p \<Rightarrow> change_policy P mark p
        | ClaimHost device asked \<Rightarrow> claim_host P mark device asked
        | Serve y \<Rightarrow> handle_errand P mark y
        | Respond asked i response \<Rightarrow> forward_response P asked i response
        | Inspect path account asked \<Rightarrow> inspect P (inspect_mark c) path account asked
        | StopWorker \<Rightarrow> stop_worker P) c)"

section \<open>News of the worker\<close>

definition take_result :: "string \<Rightarrow> jobj \<Rightarrow> 's controller \<Rightarrow> 's controller" where
  "take_result key r c =
     (case map_of (jobs c) key of
        None \<Rightarrow> c
      | Some x \<Rightarrow>
          (let c = c\<lparr>jobs := upsert key (x\<lparr>job_result := r, job_finished := True\<rparr>) (jobs c)\<rparr>; peer = job_peer x;
               message = jobject (oget ''message'' (job_request x)) in
           if peer \<in> fst ` set (incoming c) \<and> (\<not> accepted r \<or> oget ''action'' message = JStr ''snapshot.complete'')
           then (let left = filter (\<lambda>y. fst y \<noteq> peer) (incoming c); c = c\<lparr>incoming := left\<rparr> in
                 if \<not> is_busy c \<and> left = [] then c\<lparr>sync_status := (if accepted r then Complete else Failed)\<rparr> else c)
           else c))"

definition take_status :: "bool \<Rightarrow> bool \<Rightarrow> string \<Rightarrow> 's controller \<Rightarrow> 's controller" where
  "take_status available working message c =
     (let c = (if working \<or> incoming c \<noteq> [] then c\<lparr>sync_status := InProgress\<rparr>
               else if message \<noteq> [] then c\<lparr>sync_status := (if message = ''cancelled'' then Cancelled else Failed)\<rparr> else c) in
      if \<not> is_opening c \<and> is_ready c = available \<and> is_busy c = working \<and> last_error c = message then c
      else happen Changed (c\<lparr>is_ready := available, is_busy := working, is_opening := False, last_error := message\<rparr>))"

text \<open>The transport gives the identifier of the request it sends, or an empty text; \<open>None\<close> is a controller without transport.\<close>

definition take_request :: "string option \<Rightarrow> nat \<Rightarrow> string \<Rightarrow> string \<Rightarrow> 's controller \<Rightarrow> 's controller" where
  "take_request network mark i peer c =
     (if peer \<notin> set (authorized c) then c
      else case network of
        None \<Rightarrow> c
      | Some n \<Rightarrow>
          if n = [] then post_letter (Respond mark i (refusal ''transport_unavailable'')) c
          else c\<lparr>transport_ids := upsert n i (transport_ids c)\<rparr>)"

definition take_news :: "string option \<Rightarrow> news \<Rightarrow> 's controller \<Rightarrow> 's controller" where
  "take_news network x c =
     (case x of
        InspectedNews asked path account b i primary \<Rightarrow>
          if \<not> is_shut c \<and> inspect_mark c = asked then happen (ContainerInspected path account b i primary) c else c
      | ResultNews mark key r \<Rightarrow> if mark = open_mark c then take_result key r c else c
      | StatusNews mark available working message \<Rightarrow> if mark = open_mark c then take_status available working message c else c
      | RequestNews mark i peer message \<Rightarrow> if mark = open_mark c then take_request network mark i peer c else c
      | NamespaceNews mark v \<Rightarrow> if mark = open_mark c then happen (NamespaceEvent v) c else c
      | MirrorNews mark b \<Rightarrow> if mark = open_mark c then happen (MirrorEvent b) c else c
      | ValidatedNews mark peer \<Rightarrow> if mark = open_mark c then happen (ValidatedEvent peer) c else c
      | SynchronizedNews mark peer \<Rightarrow>
          if mark = open_mark c
          then happen (SynchronizedEvent peer) (c\<lparr>sync_status := (if incoming c = [] then Complete else InProgress)\<rparr>) else c
      | ProgressNews mark path part whole \<Rightarrow> if mark = open_mark c then happen (ProgressEvent path part whole) c else c)"

definition expire_snapshots :: "int \<Rightarrow> 's controller \<Rightarrow> 's controller" where
  "expire_snapshots elapsed c =
     (let left = filter (\<lambda>y. elapsed < snd y) (incoming c); expired = (left \<noteq> incoming c); c = c\<lparr>incoming := left\<rparr> in
      if expired \<and> left = [] \<and> \<not> is_busy c then c\<lparr>sync_status := Failed\<rparr> else c)"

section \<open>Runs\<close>

definition new_controller :: "'s sync \<Rightarrow> 's controller" where
  "new_controller s = \<lparr>open_mark = 0, inspect_mark = 0, jobs = [], transport_ids = [], authorized = [], incoming = [], sync_status = Before,
     open_path = [], open_scope = [], last_error = [], is_ready = False, is_busy = False, is_opening = False, is_shut = False,
     host_access = False, provider_tasks = [], worker_of = new_worker s, letters = [], events = []\<rparr>"

text \<open>What happens on the worker's thread beside the letters: timers, watchers, the end of its background threads, a
  scheduled continuation, the synchronizer's own timers, and changes of the container by other connections.\<close>

inductive worker_step :: "(nat \<Rightarrow> string) \<Rightarrow> nat \<Rightarrow> 's worker \<Rightarrow> 's worker \<Rightarrow> bool" for ids mark where
  timer_step: "fresh_id (base P) = ids \<Longrightarrow> worker_step ids mark w (tick P mark w)"
| changed_step: "fresh_id (base P) = ids \<Longrightarrow> changes_armed w \<Longrightarrow> worker_step ids mark w (tick P mark (w\<lparr>changes_armed := False\<rparr>))"
| archive_step: "archive_armed w \<Longrightarrow> worker_step ids mark w (archive_files (w\<lparr>archive_armed := False\<rparr>))"
| watcher_step: "worker_step ids mark w (files_changed w)"
| archived_step: "worker_step ids mark w (archive_finished mark ok error w)"
| indexed_step: "fresh_id (base P) = ids \<Longrightarrow> worker_step ids mark w (index_finished P mark ok error w)"
| stale_step: "worker_step ids mark w (w\<lparr>index_recent := False\<rparr>)"
| next_step: "fresh_id (base P) = ids \<Longrightarrow> next_due w = Suc n \<Longrightarrow> worker_step ids mark w (next_host P mark (w\<lparr>next_due := n\<rparr>))"
| retry_step: "fresh_id (base P) = ids \<Longrightarrow> errands w = xs @ x # ys \<Longrightarrow> worker_step ids mark w (handle_errand P mark x (w\<lparr>errands := xs @ ys\<rparr>))"
| task_step: "fresh_id (base P) = ids \<Longrightarrow> tasks (sync_of w) = xs @ (g, t) # ys \<Longrightarrow>
    worker_step ids mark w (on_sync P (\<lambda>s. run_task (base P) g t (s\<lparr>tasks := xs @ ys\<rparr>)) w)"
| expire_step: "fresh_id (base P) = ids \<Longrightarrow> worker_step ids mark w (on_sync P (expire (base P)) w)"
| others_step: "worker_step ids mark w (w\<lparr>sync_of := (sync_of w)\<lparr>replica_of := r, map_of_storage := m, slice_expired := b\<rparr>\<rparr>)"

inductive controller_step :: "(nat \<Rightarrow> string) \<Rightarrow> 's controller \<Rightarrow> 's controller \<Rightarrow> bool" for ids where
  handle_step: "controller_step ids c (snd (handle_envelope Q elapsed peer e c))"
| open_step: "controller_step ids c (open_internal path account direct c)"
| close_step: "controller_step ids c (close_controller c)"
| inspect_step: "controller_step ids c (inspect_container path account c)"
| shut_step: "controller_step ids c (shut_down c)"
| peers_step: "controller_step ids c (set_peers peers remote host con c)"
| now_step: "controller_step ids c (ask_worker SynchronizeNow c)"
| policy_step: "controller_step ids c (ask_worker (\<lambda>m. SetPolicy p) c)"
| claim_step: "controller_step ids c (claim_primary device c)"
| transport_step: "controller_step ids c (receive_transport network response c)"
| provider_step: "controller_step ids c (provider_start path provider restore c)"
| report_step: "controller_step ids c (provider_report n ok error c)"
| end_step: "controller_step ids c (provider_end n c)"
| snapshots_step: "controller_step ids c (expire_snapshots elapsed c)"
| letter_step: "fresh_id (base P) = ids \<Longrightarrow> letters c = x # xs \<Longrightarrow> controller_step ids c (obey P x (c\<lparr>letters := xs\<rparr>))"
| news_step: "news (worker_of c) = x # xs \<Longrightarrow> controller_step ids c (take_news network x (c\<lparr>worker_of := (worker_of c)\<lparr>news := xs\<rparr>\<rparr>))"
| worker_steps: "worker_step ids (open_mark c) (worker_of c) w \<Longrightarrow> controller_step ids c (c\<lparr>worker_of := w\<rparr>)"

end
