(* ===== verification/ControllerRuns.thy ===== *)
theory ControllerRuns
  imports Controller
begin

text \<open>
  The runs of the controller and its worker (\<open>src/src/Sync/Controller.cpp\<close>) as sequences of steps of both threads: every
  admitted request is executed exactly once, the synchronizer under the worker never hangs, and only admissible
  envelopes are passed on. The last part evaluates a run that opens a container, names a host and admits a request.
\<close>

section \<open>What the worker's operations leave alone\<close>

fun is_result :: "news \<Rightarrow> bool" where
  "is_result (ResultNews m k r) = True"
| "is_result _ = False"

definition quietly :: "'s worker \<Rightarrow> 's worker \<Rightarrow> bool" where
  "quietly v w \<longleftrightarrow> run_mark w = run_mark v \<and> errands w = errands v \<and> (\<exists>ns. news w = news v @ ns \<and> list_all (\<lambda>x. \<not> is_result x) ns)"

interpretation quietly: op_rel quietly
proof
  show "quietly w w" for w :: "'s worker" by (simp add: quietly_def)
  show "quietly u w" if "quietly u v" "quietly v w" for u v w :: "'s worker"
    using that unfolding quietly_def by (metis append.assoc list_all_append)
qed

lemma quietly_tell [simp]: "\<not> is_result x \<Longrightarrow> quietly v w \<Longrightarrow> quietly v (tell x w)"
  by (auto simp: quietly_def tell_def)

lemma quietly_fields:
  "quietly v (w\<lparr>sync_of := s\<rparr>) = quietly v w" "quietly v (w\<lparr>made := b\<rparr>) = quietly v w" "quietly v (w\<lparr>root_dir := p\<rparr>) = quietly v w"
  "quietly v (w\<lparr>primary_claim := p\<rparr>) = quietly v w" "quietly v (w\<lparr>again := b\<rparr>) = quietly v w" "quietly v (w\<lparr>direct_host := b\<rparr>) = quietly v w"
  "quietly v (w\<lparr>wanted_policy := y\<rparr>) = quietly v w" "quietly v (w\<lparr>host_list := ps\<rparr>) = quietly v w" "quietly v (w\<lparr>host_queue := ps\<rparr>) = quietly v w"
  "quietly v (w\<lparr>account_host := p\<rparr>) = quietly v w" "quietly v (w\<lparr>account_container := p\<rparr>) = quietly v w"
  "quietly v (w\<lparr>namespace_seen := x\<rparr>) = quietly v w" "quietly v (w\<lparr>indexing := b\<rparr>) = quietly v w" "quietly v (w\<lparr>index_dirty := b\<rparr>) = quietly v w"
  "quietly v (w\<lparr>index_recent := b\<rparr>) = quietly v w" "quietly v (w\<lparr>archiving := b\<rparr>) = quietly v w" "quietly v (w\<lparr>archive_again := b\<rparr>) = quietly v w"
  "quietly v (w\<lparr>archive_armed := b\<rparr>) = quietly v w" "quietly v (w\<lparr>changes_armed := b\<rparr>) = quietly v w" "quietly v (w\<lparr>next_due := n\<rparr>) = quietly v w"
  "quietly v (w\<lparr>watched := ps\<rparr>) = quietly v w"
  by (simp_all add: quietly_def)

lemmas quiet_simps [simp] = quietly_fields

lemma quietly_store [simp]: "quietly v (snd (on_store op w)) = quietly v w" "quietly v (snd (publish_store P w)) = quietly v w"
  by (simp_all add: on_store_def publish_store_def split_beta Let_def)

lemma quietly_watches [simp]: "quietly v (refresh_watches P w) = quietly v w"
  by (simp add: refresh_watches_def Let_def)

lemma quietly_namespace [simp]: "quietly v w \<Longrightarrow> quietly v (publish_namespace w)"
  by (simp add: publish_namespace_def Let_def)

lemma quietly_stop [simp]: "quietly v (stop_indexing w) = quietly v w"
  by (simp add: stop_indexing_def)

lemma quietly_archive [simp]: "quietly v w \<Longrightarrow> quietly v (archive_files w)" "quietly v w \<Longrightarrow> quietly v (archive_finished m ok e w)"
  "quietly v w \<Longrightarrow> quietly v (index_host w)" "quietly v w \<Longrightarrow> quietly v (index_finished P m ok e w)"
  by (simp_all add: archive_files_def archive_finished_def index_host_def index_finished_def Let_def split_beta)

lemma quietly_route [simp]: "quietly v w \<Longrightarrow> quietly v (route P x w)"
  by (cases x) (simp_all add: route_def Let_def)

lemma quietly_signals: "quietly v w \<Longrightarrow> quietly v (foldl (\<lambda>w x. route P x w) w xs)"
  by (induction xs arbitrary: w) simp_all

lemma quietly_sync [simp]: "quietly v w \<Longrightarrow> quietly v (on_sync P op w)"
  by (simp add: on_sync_def Let_def quietly_signals)

lemma quietly_pin [simp]: "quietly v w \<Longrightarrow> quietly v (snd (pin_primary P w))"
  by (simp add: pin_primary_def Let_def split_beta)

lemma quietly_serve [simp]: "quietly v w \<Longrightarrow> quietly v (snd (serve P peer message w))"
  by (simp add: serve_def Let_def split_beta)

lemma quietly_next [simp]: "quietly v w \<Longrightarrow> quietly v (next_host P m w)"
  by (simp add: next_host_def split: list.split)

lemma quietly_round [simp]: "quietly v w \<Longrightarrow> quietly v (local_round P w)"
  by (simp add: local_round_def Let_def split_beta)

lemma quietly_tick [simp]: "quietly v w \<Longrightarrow> quietly v (tick P m w)"
  by (simp add: tick_def Let_def split_beta)

lemma quietly_asked [simp]: "quietly v w \<Longrightarrow> quietly v (set_hosts P m hs a h con w)" "quietly v w \<Longrightarrow> quietly v (synchronize_now P m a w)"
  "quietly v w \<Longrightarrow> quietly v (change_policy P m p w)" "quietly v w \<Longrightarrow> quietly v (claim_host P m d a w)"
  "quietly v w \<Longrightarrow> quietly v (forward_response P a i r w)" "quietly v w \<Longrightarrow> quietly v (inspect P m path s a w)"
  "quietly v w \<Longrightarrow> quietly v (stop_worker P w)" "quietly v w \<Longrightarrow> quietly v (files_changed w)"
  by (simp_all add: set_hosts_def synchronize_now_def change_policy_def claim_host_def forward_response_def inspect_def
      stop_worker_def files_changed_def Let_def split_beta)

text \<open>Opening a container is the only operation that changes the generation, and only to the controller's.\<close>

lemma quietly_configure:
  "m \<noteq> a \<Longrightarrow> configure P m path acc a d w = w"
  "quietly (w\<lparr>run_mark := m\<rparr>) (configure P m path acc m d w)"
proof -
  show "m \<noteq> a \<Longrightarrow> configure P m path acc a d w = w" by (simp add: configure_def)
  define v where "v = on_sync P stop_sync (on_sync P (set_expected_host [] [])
    ((stop_indexing (if made w then w else make_store w))\<lparr>account_host := [], account_container := []\<rparr>))"
  have "quietly w v" by (simp add: v_def make_store_def)
  then have "quietly (w\<lparr>run_mark := m\<rparr>) (v\<lparr>run_mark := m\<rparr>)" by (auto simp: quietly_def)
  then show "quietly (w\<lparr>run_mark := m\<rparr>) (configure P m path acc m d w)"
    unfolding configure_def Let_def v_def [symmetric] by (simp add: split_beta split: sum.split)
qed

section \<open>Each admitted request is executed once\<close>

text \<open>The executions of a key that are on their way: to the worker, waiting for another try, or answered.\<close>

definition serves :: "nat \<Rightarrow> string \<Rightarrow> errand \<Rightarrow> bool" where
  "serves m k x \<longleftrightarrow> errand_mark x = m \<and> errand_key x = k"

fun letter_serves :: "nat \<Rightarrow> string \<Rightarrow> letter \<Rightarrow> bool" where
  "letter_serves m k (Serve x) = serves m k x"
| "letter_serves m k _ = False"

fun answers :: "nat \<Rightarrow> string \<Rightarrow> news \<Rightarrow> bool" where
  "answers m k (ResultNews n l r) \<longleftrightarrow> n = m \<and> l = k"
| "answers m k _ = False"

definition load :: "nat \<Rightarrow> string \<Rightarrow> 's worker \<Rightarrow> nat" where
  "load m k w = length (filter (serves m k) (errands w)) + length (filter (answers m k) (news w))"

definition executions :: "string \<Rightarrow> 's controller \<Rightarrow> nat" where
  "executions k c = length (filter (letter_serves (open_mark c) k) (letters c)) + load (open_mark c) k (worker_of c)"

text \<open>The marks on their way are at most the controller's, and one that is the controller's meets a worker that has
  opens_now its container.\<close>

fun news_mark :: "news \<Rightarrow> nat" where
  "news_mark (ResultNews m k r) = m"
| "news_mark _ = 0"

definition worker_ok :: "nat \<Rightarrow> 's worker \<Rightarrow> bool" where
  "worker_ok m w \<longleftrightarrow> run_mark w \<le> m \<and> (\<forall>x \<in> set (errands w). errand_mark x \<le> m \<and> (errand_mark x = m \<longrightarrow> run_mark w = m))
     \<and> (\<forall>x \<in> set (news w). news_mark x \<le> m)"

fun opens_now :: "nat \<Rightarrow> bool \<Rightarrow> letter \<Rightarrow> bool" where
  "opens_now m b (Configure p a n d) = (b \<or> n = m)"
| "opens_now m b _ = b"

fun letter_ok :: "nat \<Rightarrow> bool \<Rightarrow> letter \<Rightarrow> bool" where
  "letter_ok m b (Configure p a n d) = (n \<le> m)"
| "letter_ok m b (Serve x) = (errand_mark x \<le> m \<and> (errand_mark x = m \<longrightarrow> b))"
| "letter_ok m b _ = True"

fun letters_ok :: "nat \<Rightarrow> bool \<Rightarrow> letter list \<Rightarrow> bool" where
  "letters_ok m b [] = True"
| "letters_ok m b (x # xs) = (letter_ok m b x \<and> letters_ok m (opens_now m b x) xs)"

definition jobs_ok :: "'s controller \<Rightarrow> bool" where
  "jobs_ok c \<longleftrightarrow> distinct (map fst (jobs c)) \<and> length (jobs c) \<le> 32
     \<and> (\<forall>k. executions k c = (case map_of (jobs c) k of None \<Rightarrow> 0 | Some x \<Rightarrow> if job_finished x then 0 else 1))"

definition marks_ok :: "'s controller \<Rightarrow> bool" where
  "marks_ok c \<longleftrightarrow> worker_ok (open_mark c) (worker_of c) \<and> letters_ok (open_mark c) (run_mark (worker_of c) = open_mark c) (letters c)
     \<and> (is_shut c \<longrightarrow> authorized c = [])
     \<and> (is_shut c \<or> foldl (opens_now (open_mark c)) (run_mark (worker_of c) = open_mark c) (letters c))"

definition controller_ok :: "'s controller \<Rightarrow> bool" where
  "controller_ok c \<longleftrightarrow> jobs_ok c \<and> marks_ok c"

lemma letters_ok_append: "letters_ok m b (xs @ ys) \<longleftrightarrow> letters_ok m b xs \<and> letters_ok m (foldl (opens_now m) b xs) ys"
  by (induction xs arbitrary: b) auto

lemma letters_ok_Suc: "letters_ok m b xs \<Longrightarrow> letters_ok (Suc m) b' xs"
proof (induction xs arbitrary: b b')
  case (Cons x xs)
  then show ?case by (cases x) auto
qed simp

lemma letters_none: "letters_ok m b xs \<Longrightarrow> filter (letter_serves (Suc m) k) xs = []"
proof (induction xs arbitrary: b)
  case (Cons x xs)
  then show ?case by (cases x) (auto simp: serves_def)
qed simp

lemma worker_ok_Suc: "worker_ok m w \<Longrightarrow> worker_ok (Suc m) w" "worker_ok m w \<Longrightarrow> run_mark w \<noteq> Suc m"
  by (auto simp: worker_ok_def)

lemma load_none: "worker_ok m w \<Longrightarrow> load (Suc m) k w = 0"
proof -
  assume w: "worker_ok m w"
  have "\<not> answers (Suc m) k x" if "news_mark x \<le> m" for x using that by (cases x) auto
  then have "filter (answers (Suc m) k) (news w) = []"
    using w by (auto simp: worker_ok_def filter_empty_conv)
  moreover have "filter (serves (Suc m) k) (errands w) = []"
    using w unfolding worker_ok_def filter_empty_conv serves_def by fastforce
  ultimately show ?thesis by (simp add: load_def)
qed

lemma answers_none: "list_all (\<lambda>x. \<not> is_result x) ns \<Longrightarrow> filter (answers m k) ns = []" "\<not> is_result x \<Longrightarrow> news_mark x = 0"
proof -
  show "list_all (\<lambda>x. \<not> is_result x) ns \<Longrightarrow> filter (answers m k) ns = []"
    by (induction ns) (auto elim: answers.elims)
  show "\<not> is_result x \<Longrightarrow> news_mark x = 0" by (cases x) auto
qed

lemma quietly_load: "quietly v w \<Longrightarrow> load m k w = load m k v"
  by (auto simp: quietly_def load_def answers_none)

lemma quietly_ok: "quietly v w \<Longrightarrow> worker_ok m v \<Longrightarrow> worker_ok m w"
  by (auto simp: quietly_def worker_ok_def list_all_iff answers_none)


text \<open>Serving an errand of the present generation leaves one execution of its key, and drops any other.\<close>

lemma errand_stale: "run_mark w \<noteq> errand_mark x \<or> m \<noteq> errand_mark x \<Longrightarrow> handle_errand P m x w = w"
  by (simp add: handle_errand_def)

lemma errand_served:
  assumes "run_mark w = m" "errand_mark x = m"
  obtains v r where "quietly w v" "handle_errand P m x w = tell (ResultNews m (errand_key x) r) v"
  | v y where "quietly w v" "handle_errand P m x w = v\<lparr>errands := errands v @ [y]\<rparr>" "errand_mark y = m" "errand_key y = errand_key x"
proof -
  obtain r v where s: "serve P (errand_peer x) (errand_message x) w = (r, v)" by (cases "serve P (errand_peer x) (errand_message x) w")
  have v: "quietly w v" using quietly_serve [of w w P "errand_peer x" "errand_message x"] s by simp
  let ?u = "if accepted r \<and> oget ''action'' (errand_message x) \<in> {JStr ''drive.write'', JStr ''drive.mkdir''}
    then (publish_namespace (snd (publish_store P v)))\<lparr>index_dirty := True\<rparr> else v"
  have u: "quietly w ?u" using v by simp
  consider "now_ms (qt (base P)) \<ge> errand_deadline x"
    | "now_ms (qt (base P)) < errand_deadline x" "oget ''error'' r = JStr ''sync_store_busy''"
    | "now_ms (qt (base P)) < errand_deadline x" "oget ''error'' r \<noteq> JStr ''sync_store_busy''" by linarith
  then show thesis
  proof cases
    case 1
    then show ?thesis using that(1) [of w] assms by (simp add: handle_errand_def)
  next
    case 2
    then show ?thesis using that(2) [OF v, of "x\<lparr>errand_delay := min 50 (errand_delay x * 2)\<rparr>"] assms s
      by (simp add: handle_errand_def Let_def)
  next
    case 3
    then have "handle_errand P m x w = tell (ResultNews m (errand_key x) r) ?u"
      using assms s by (simp add: handle_errand_def Let_def)
    then show ?thesis using that(1) [OF u] by blast
  qed
qed

lemma errand_load:
  assumes "run_mark w = m" "errand_mark x = m"
  shows "load m k (handle_errand P m x w) = load m k w + (if serves m k x then 1 else 0)"
  using assms
proof (cases rule: errand_served [of w m x P])
  case (1 v r)
  then show ?thesis using quietly_load [OF 1(1), of m k] assms(2) by (simp add: load_def tell_def serves_def)
next
  case (2 v y)
  then show ?thesis using quietly_load [OF 2(1), of m k] assms(2) by (simp add: load_def serves_def)
qed

lemma errand_ok: "worker_ok m w \<Longrightarrow> worker_ok m (handle_errand P m x w) \<and> run_mark (handle_errand P m x w) = run_mark w"
proof (cases "run_mark w \<noteq> errand_mark x \<or> m \<noteq> errand_mark x")
  case True
  then show "worker_ok m w \<Longrightarrow> ?thesis" by (simp add: errand_stale)
next
  case False
  assume w: "worker_ok m w"
  have "run_mark w = m" "errand_mark x = m" using False by auto
  then show ?thesis
  proof (cases rule: errand_served [of w m x P])
    case (1 v r)
    then show ?thesis using quietly_ok [OF 1(1) w] by (auto simp: worker_ok_def tell_def quietly_def)
  next
    case (2 v y)
    then show ?thesis using quietly_ok [OF 2(1) w] \<open>run_mark w = m\<close> by (auto simp: worker_ok_def quietly_def)
  qed
qed

section \<open>The controller's steps\<close>

text \<open>Jobs are only forgotten when they have been answered.\<close>

definition pruned :: "(string \<times> job) list \<Rightarrow> (string \<times> job) list \<Rightarrow> bool" where
  "pruned js ks \<longleftrightarrow> (\<exists>S. ks = filter (\<lambda>y. fst y \<notin> S) js \<and> (\<forall>(k, x) \<in> set js. k \<in> S \<longrightarrow> job_finished x))"

lemma pruned_refl: "pruned js js"
  unfolding pruned_def by (rule exI [of _ "{}"]) simp

lemma pruned_trans: "pruned js ks \<Longrightarrow> pruned ks ls \<Longrightarrow> pruned js ls"
proof -
  assume "pruned js ks" "pruned ks ls"
  then obtain S T where 1: "ks = filter (\<lambda>y. fst y \<notin> S) js" "\<forall>(k, x) \<in> set js. k \<in> S \<longrightarrow> job_finished x"
    and 2: "ls = filter (\<lambda>y. fst y \<notin> T) ks" "\<forall>(k, x) \<in> set ks. k \<in> T \<longrightarrow> job_finished x" unfolding pruned_def by blast
  have "ls = filter (\<lambda>y. fst y \<notin> S \<union> T) js" using 1 2 by (auto intro: filter_cong)
  moreover have "\<forall>(k, x) \<in> set js. k \<in> S \<union> T \<longrightarrow> job_finished x" using 1 2 by auto
  ultimately show ?thesis unfolding pruned_def by blast
qed

lemma pruned_map:
  assumes "pruned js ks" "distinct (map fst js)"
  shows "distinct (map fst ks)" "length ks \<le> length js"
    "map_of ks k = map_of js k \<or> map_of ks k = None \<and> (\<exists>x. map_of js k = Some x \<and> job_finished x)"
proof -
  obtain S where S: "ks = filter (\<lambda>y. fst y \<notin> S) js" "\<forall>(k, x) \<in> set js. k \<in> S \<longrightarrow> job_finished x" using assms(1) by (auto simp: pruned_def)
  show "distinct (map fst ks)" "length ks \<le> length js" using assms(2) by (simp_all add: S(1) distinct_map_filter)
  have m: "map_of ks k = (if k \<in> S then None else map_of js k)" unfolding S(1) by (induction js) auto
  show "map_of ks k = map_of js k \<or> map_of ks k = None \<and> (\<exists>x. map_of js k = Some x \<and> job_finished x)"
    using m S(2) by (cases "map_of js k") (auto dest: map_of_SomeD)
qed

lemma pruned_key: "(k, x) \<in> set js \<Longrightarrow> job_finished x \<Longrightarrow> distinct (map fst js) \<Longrightarrow> pruned js (filter (\<lambda>y. fst y \<noteq> k) js)"
  unfolding pruned_def by (rule exI [of _ "{k}"]) (auto dest: eq_key_imp_eq_value)

lemma oldest_is_finished: "oldest_finished js = Some k \<Longrightarrow> \<exists>x. (k, x) \<in> set js \<and> job_finished x"
proof -
  assume k: "oldest_finished js = Some k"
  let ?f = "\<lambda>(k, x). (job_created x, k)" and ?xs = "filter (\<lambda>(k, x). job_finished x) js"
  obtain x ys where "sort_key ?f ?xs = (k, x) # ys" using k by (auto simp: oldest_finished_def split: list.splits)
  then have "(k, x) \<in> set (sort_key ?f ?xs)" by simp
  then show ?thesis by auto
qed

lemma make_room_pruned: "make_room n js = (ok, ks) \<Longrightarrow> distinct (map fst js) \<Longrightarrow> pruned js ks \<and> (ok \<longrightarrow> length ks < 32)"
proof (induction n js rule: make_room.induct)
  case (2 n js)
  show ?case
  proof (cases "length js < 32 \<or> oldest_finished js = None")
    case True
    then show ?thesis using 2(2) by (auto simp: pruned_refl split: if_splits)
  next
    case False
    then obtain k where k: "oldest_finished js = Some k" by auto
    then have p: "pruned js (filter (\<lambda>y. fst y \<noteq> k) js)" using oldest_is_finished pruned_key 2(3) by blast
    then show ?thesis using 2(1) [OF _ k] 2(2,3) k False pruned_map(1) [OF p 2(3)] pruned_trans [OF p] by auto
  qed
qed (auto simp: pruned_refl)

lemma recent_pruned: "distinct (map fst js) \<Longrightarrow> pruned js (recent_jobs now js)"
proof -
  assume d: "distinct (map fst js)"
  let ?S = "{k. \<exists>x. (k, x) \<in> set js \<and> job_finished x \<and> now - job_created x > 60000}"
  have "recent_jobs now js = filter (\<lambda>y. fst y \<notin> ?S) js"
    unfolding recent_jobs_def using d by (intro filter_cong) (auto dest: eq_key_imp_eq_value)
  moreover have "\<forall>(k, x) \<in> set js. k \<in> ?S \<longrightarrow> job_finished x" using d by (auto dest: eq_key_imp_eq_value)
  ultimately show ?thesis unfolding pruned_def by blast
qed


definition answer_due :: "(string \<times> job) list \<Rightarrow> string \<Rightarrow> nat" where
  "answer_due js k = (case map_of js k of None \<Rightarrow> 0 | Some x \<Rightarrow> if job_finished x then 0 else 1)"

lemma jobs_ok_iff: "jobs_ok c \<longleftrightarrow> distinct (map fst (jobs c)) \<and> length (jobs c) \<le> 32 \<and> (\<forall>k. executions k c = answer_due (jobs c) k)"
  by (simp add: jobs_ok_def answer_due_def)

lemma pruned_due: "pruned js ks \<Longrightarrow> distinct (map fst js) \<Longrightarrow> answer_due ks k = answer_due js k"
  using pruned_map(3) [of js ks k] by (auto simp: answer_due_def)

fun plain :: "letter \<Rightarrow> bool" where
  "plain (Serve x) = False"
| "plain (Configure p a n d) = False"
| "plain _ = True"

lemma plain_letter: "plain x \<Longrightarrow> \<not> letter_serves m k x" "plain x \<Longrightarrow> letter_ok m b x" "plain x \<Longrightarrow> opens_now m b x = b"
  by (cases x; simp)+

text \<open>Steps that keep the jobs, the marks and the worker, and add a letter that is no errand.\<close>

lemma controller_same:
  assumes "controller_ok c" "open_mark d = open_mark c" "jobs d = jobs c" "worker_of d = worker_of c" "is_shut d = is_shut c"
    "authorized d = authorized c \<or> \<not> is_shut c" "letters d = letters c"
  shows "controller_ok d"
  using assms by (auto simp: controller_ok_def jobs_ok_def marks_ok_def executions_def)

lemma controller_post:
  assumes "controller_ok c" "plain x"
  shows "controller_ok (post_letter x c)"
  using assms
  by (simp add: controller_ok_def jobs_ok_def marks_ok_def executions_def post_letter_def letters_ok_append plain_letter)

lemma controller_happen: "controller_ok c \<Longrightarrow> controller_ok (happen x c)"
  by (rule controller_same) (simp_all add: happen_def)

lemma note_snapshot_same [simp]: "open_mark (note_snapshot p m e c) = open_mark c" "jobs (note_snapshot p m e c) = jobs c"
  "worker_of (note_snapshot p m e c) = worker_of c" "letters (note_snapshot p m e c) = letters c" "is_shut (note_snapshot p m e c) = is_shut c"
  "authorized (note_snapshot p m e c) = authorized c"
  by (simp_all add: note_snapshot_def Let_def)

lemma controller_admit:
  assumes "controller_ok c" "map_of (jobs c) key = None" "\<not> is_shut c"
  shows "controller_ok (snd (admit Q el peer e key c))"
proof -
  have d: "distinct (map fst (jobs c))" and due: "executions k c = answer_due (jobs c) k" for k
    using assms(1) by (simp_all add: controller_ok_def jobs_ok_iff)
  obtain ok js where room: "(let js = recent_jobs (now_ms Q) (jobs c) in make_room (length js) js) = (ok, js)"
    by (cases "let js = recent_jobs (now_ms Q) (jobs c) in make_room (length js) js")
  have d': "distinct (map fst (recent_jobs (now_ms Q) (jobs c)))" using pruned_map(1) [OF recent_pruned [OF d] d] .
  have p: "pruned (jobs c) js" and len: "ok \<longrightarrow> length js < 32"
    using make_room_pruned [OF room [unfolded Let_def] d'] pruned_trans [OF recent_pruned [OF d]] by auto
  note js = pruned_map [OF p d] pruned_due [OF p d]
  have none: "map_of js key = None" using js(3) [of key] assms(2) by auto
  have size: "length js \<le> 32" using js(2) assms(1) by (simp add: controller_ok_def jobs_ok_def)
  show ?thesis
  proof (cases ok)
    case False
    have "controller_ok (c\<lparr>jobs := js\<rparr>)"
      using assms(1) js size due by (auto simp: controller_ok_def jobs_ok_iff marks_ok_def executions_def)
    then show ?thesis using False room by (simp add: admit_def)
  next
    case True
    let ?x = "\<lparr>job_request = e, job_result = [], job_finished = False, job_created = now_ms Q, job_peer = peer\<rparr>"
    let ?c = "note_snapshot peer (jobject (oget ''message'' e)) el (c\<lparr>jobs := upsert key ?x js\<rparr>)"
    let ?y = "\<lparr>errand_mark = open_mark ?c, errand_key = key, errand_peer = peer, errand_message = jobject (oget ''message'' e),
        errand_deadline = now_ms Q + 120000, errand_delay = 1\<rparr>"
    have eq: "snd (admit Q el peer e key c) = post_letter (Serve ?y) ?c" using True room by (simp add: admit_def Let_def)
    have ups: "upsert key ?x js = js @ [(key, ?x)]" using none by (intro upsert_new) (simp add: map_of_None_iff)
    have "answer_due (upsert key ?x js) k = answer_due js k + (if k = key then 1 else 0)" for k
      using none by (simp add: answer_due_def)
    moreover have "executions k (post_letter (Serve ?y) ?c) = executions k c + (if k = key then 1 else 0)" for k
      by (simp add: executions_def post_letter_def serves_def)
    ultimately have "jobs_ok (post_letter (Serve ?y) ?c)"
      using js due len True by (auto simp: jobs_ok_iff post_letter_def) (simp_all add: ups)
    moreover have "marks_ok (post_letter (Serve ?y) ?c)"
      using assms(1,3) by (simp add: controller_ok_def marks_ok_def post_letter_def letters_ok_append)
    ultimately show ?thesis by (simp add: eq controller_ok_def)
  qed
qed

lemma controller_handle: "controller_ok c \<Longrightarrow> controller_ok (snd (handle_envelope Q el peer e c))"
proof -
  assume c: "controller_ok c"
  have shut: "is_shut c \<Longrightarrow> envelope_refusal Q peer e c \<noteq> []"
    using c by (simp add: controller_ok_def marks_ok_def envelope_refusal_def)
  show ?thesis
  proof (cases "is_shut c")
    case True
    then show ?thesis using shut c by (simp add: handle_envelope_def Let_def)
  next
    case False
    then show ?thesis using c controller_admit [OF c] by (simp add: handle_envelope_def Let_def split: option.split)
  qed
qed


text \<open>A new generation has no executions yet.\<close>

lemma controller_fresh:
  assumes "controller_ok c" "open_mark d = Suc (open_mark c)" "jobs d = []" "worker_of d = worker_of c" "authorized d = []"
    "letters d = letters c @ xs" "is_shut d \<and> xs = [StopWorker] \<or> (\<exists>p a b. xs = [Configure p a (Suc (open_mark c)) b])"
  shows "controller_ok d"
proof -
  let ?w = "worker_of c" and ?m = "open_mark c"
  have w: "worker_ok ?m ?w" and l: "letters_ok ?m (run_mark ?w = ?m) (letters c)" using assms(1) by (simp_all add: controller_ok_def marks_ok_def)
  have "executions k d = 0" for k
    using assms(2,4,6,7) letters_none [OF l] load_none [OF w] by (auto simp: executions_def)
  then have "jobs_ok d" using assms(3) by (simp add: jobs_ok_def)
  moreover have "letters_ok (Suc ?m) False (letters c @ xs)"
    using letters_ok_Suc [OF l] assms(7) by (auto simp: letters_ok_append)
  ultimately show ?thesis using assms worker_ok_Suc [OF w]
    by (auto simp: controller_ok_def marks_ok_def)
qed

lemma controller_open: "controller_ok c \<Longrightarrow> controller_ok (open_internal p a b c)"
proof (cases "is_shut c \<or> (open_path c = p \<and> open_scope c = a \<and> host_access c = b \<and> a \<noteq> [] \<and> (is_ready c \<or> is_opening c))")
  case False
  assume c: "controller_ok c"
  show ?thesis unfolding open_internal_def Let_def if_not_P [OF False]
    by (rule controller_happen, rule controller_fresh [where c = c and xs = "[Configure p a (Suc (open_mark c)) b]"])
      (use c in \<open>simp_all add: post_letter_def\<close>)
qed (simp add: open_internal_def)

lemma controller_shut: "controller_ok c \<Longrightarrow> controller_ok (shut_down c)"
  by (auto simp: shut_down_def Let_def post_letter_def intro: controller_fresh)

lemma controller_status [simp]: "controller_ok (c\<lparr>sync_status := x\<rparr>) = controller_ok c" "controller_ok (c\<lparr>incoming := ys\<rparr>) = controller_ok c"
  "controller_ok (c\<lparr>transport_ids := ts\<rparr>) = controller_ok c" "controller_ok (c\<lparr>provider_tasks := ps\<rparr>) = controller_ok c"
  "controller_ok (c\<lparr>inspect_mark := n\<rparr>) = controller_ok c" "controller_ok (c\<lparr>is_ready := b\<rparr>) = controller_ok c"
  "controller_ok (c\<lparr>is_busy := b\<rparr>) = controller_ok c" "controller_ok (c\<lparr>is_opening := b\<rparr>) = controller_ok c"
  "controller_ok (c\<lparr>last_error := e\<rparr>) = controller_ok c"
  by (simp_all add: controller_ok_def jobs_ok_def marks_ok_def executions_def)

lemma controller_ask: "controller_ok c \<Longrightarrow> (\<And>m. plain (x m)) \<Longrightarrow> controller_ok (ask_worker x c)"
  by (simp add: ask_worker_def controller_post)

lemma controller_peers: "controller_ok c \<Longrightarrow> controller_ok (set_peers ps rs h con c)"
proof -
  assume c: "controller_ok c"
  have "controller_ok (c\<lparr>authorized := ps\<rparr>)" if "\<not> is_shut c" using c that
    by (simp add: controller_ok_def jobs_ok_def marks_ok_def executions_def)
  then show ?thesis using c by (auto simp: set_peers_def Let_def intro!: controller_post)
qed

lemma controller_calls: "controller_ok c \<Longrightarrow> controller_ok (close_controller c)" "controller_ok c \<Longrightarrow> controller_ok (inspect_container p a c)"
  "controller_ok c \<Longrightarrow> controller_ok (claim_primary d c)" "controller_ok c \<Longrightarrow> controller_ok (receive_transport n r c)"
  "controller_ok c \<Longrightarrow> controller_ok (provider_start p i b c)" "controller_ok c \<Longrightarrow> controller_ok (provider_report j ok e c)"
  "controller_ok c \<Longrightarrow> controller_ok (provider_end j c)" "controller_ok c \<Longrightarrow> controller_ok (expire_snapshots el c)"
  by (auto simp: close_controller_def inspect_container_def claim_primary_def receive_transport_def provider_start_def provider_report_def
      provider_end_def expire_snapshots_def Let_def controller_open intro!: controller_post controller_ask controller_happen split: option.split)

section \<open>The worker's thread\<close>

lemma controller_worker:
  assumes "controller_ok c" "quietly (worker_of c) w"
  shows "controller_ok (c\<lparr>worker_of := w\<rparr>)"
proof -
  have "run_mark w = run_mark (worker_of c)" using assms(2) by (simp add: quietly_def)
  then show ?thesis using assms(1) quietly_load [OF assms(2)] quietly_ok [OF assms(2)]
    by (simp add: controller_ok_def jobs_ok_def marks_ok_def executions_def)
qed

lemma controller_retry:
  assumes "controller_ok c" "errands (worker_of c) = xs @ x # ys"
  shows "controller_ok (c\<lparr>worker_of := handle_errand P (open_mark c) x ((worker_of c)\<lparr>errands := xs @ ys\<rparr>)\<rparr>)"
proof -
  let ?m = "open_mark c" and ?w = "worker_of c"
  let ?v = "?w\<lparr>errands := xs @ ys\<rparr>"
  have w: "worker_ok ?m ?w" using assms(1) by (simp add: controller_ok_def marks_ok_def)
  then have v: "worker_ok ?m ?v" using assms(2) by (simp add: worker_ok_def)
  have x: "errand_mark x = ?m \<Longrightarrow> run_mark ?v = ?m" using w assms(2) by (simp add: worker_ok_def)
  have before: "load ?m k ?w = load ?m k ?v + (if serves ?m k x then 1 else 0)" for k
    using assms(2) by (simp add: load_def)
  have "load ?m k (handle_errand P ?m x ?v) = load ?m k ?w" for k
  proof (cases "errand_mark x = ?m")
    case True
    then show ?thesis using errand_load [OF x [OF True] True, of k P] before [of k] by simp
  next
    case False
    then show ?thesis using before [of k] by (simp add: errand_stale serves_def)
  qed
  then show ?thesis using assms(1) errand_ok [OF v, of P x] w
    by (simp add: controller_ok_def jobs_ok_def marks_ok_def executions_def)
qed

lemma controller_errand:
  assumes "controller_ok c" "letters c = Serve x # xs"
  shows "controller_ok (c\<lparr>letters := xs, worker_of := handle_errand P (open_mark c) x (worker_of c)\<rparr>)"
proof -
  let ?m = "open_mark c" and ?w = "worker_of c"
  have w: "worker_ok ?m ?w" and x: "errand_mark x = ?m \<Longrightarrow> run_mark ?w = ?m"
    using assms by (simp_all add: controller_ok_def marks_ok_def)
  have load: "load ?m k (handle_errand P ?m x ?w) = load ?m k ?w + (if serves ?m k x then 1 else 0)" for k
  proof (cases "errand_mark x = ?m")
    case True
    then show ?thesis by (rule errand_load [OF x [OF True]])
  next
    case False
    then show ?thesis by (simp add: errand_stale serves_def)
  qed
  have "executions k (c\<lparr>letters := xs, worker_of := handle_errand P ?m x ?w\<rparr>) = executions k c" for k
    using load [of k] assms(2) by (simp add: executions_def)
  then show ?thesis using assms errand_ok [OF w, of P x]
    by (simp add: controller_ok_def jobs_ok_def marks_ok_def)
qed

lemma controller_configure:
  assumes "controller_ok c" "letters c = Configure p a n d # xs"
  shows "controller_ok (c\<lparr>letters := xs, worker_of := configure P (open_mark c) p a n d (worker_of c)\<rparr>)"
proof (cases "open_mark c = n")
  case False
  then show ?thesis using assms
    by (simp add: quietly_configure controller_ok_def jobs_ok_def marks_ok_def executions_def)
next
  case True
  let ?m = "open_mark c" and ?w = "worker_of c"
  let ?v = "?w\<lparr>run_mark := ?m\<rparr>" and ?u = "configure P (open_mark c) p a n d (worker_of c)"
  have q: "quietly ?v ?u" using quietly_configure(2) True by simp
  have "worker_ok ?m ?v" using assms(1) by (simp add: controller_ok_def marks_ok_def worker_ok_def)
  then have u: "worker_ok ?m ?u" "run_mark ?u = ?m" using quietly_ok [OF q] q by (simp_all add: quietly_def)
  have "load ?m k ?u = load ?m k ?w" for k using quietly_load [OF q] by (simp add: load_def)
  then show ?thesis using assms u True
    by (simp add: controller_ok_def jobs_ok_def marks_ok_def executions_def)
qed

lemma controller_obey:
  assumes "controller_ok c" "letters c = x # xs"
  shows "controller_ok (obey P x (c\<lparr>letters := xs\<rparr>))"
proof (cases "plain x")
  case True
  have "controller_ok (c\<lparr>letters := xs\<rparr>)"
    using assms True by (simp add: controller_ok_def jobs_ok_def marks_ok_def executions_def plain_letter)
  then show ?thesis using True controller_worker [of "c\<lparr>letters := xs\<rparr>"]
    by (cases x) (simp_all add: obey_def on_worker_def)
next
  case False
  then show ?thesis using controller_errand [OF assms(1)] controller_configure [OF assms(1)] assms(2)
    by (cases x) (simp_all add: obey_def on_worker_def)
qed


section \<open>News\<close>

lemma controller_pop:
  assumes "controller_ok c" "news (worker_of c) = x # xs" "\<not> is_result x"
  shows "controller_ok (c\<lparr>worker_of := (worker_of c)\<lparr>news := xs\<rparr>\<rparr>)"
proof -
  have "\<not> answers m k x" for m k using assms(3) by (cases x) auto
  then have "load m k ((worker_of c)\<lparr>news := xs\<rparr>) = load m k (worker_of c)" for m k by (simp add: load_def assms(2))
  then show ?thesis using assms(1,2)
    by (simp add: controller_ok_def jobs_ok_def marks_ok_def executions_def worker_ok_def)
qed

lemma controller_result:
  assumes "controller_ok c" "news (worker_of c) = ResultNews m k r # xs"
  shows "controller_ok (take_news n (ResultNews m k r) (c\<lparr>worker_of := (worker_of c)\<lparr>news := xs\<rparr>\<rparr>))"
proof -
  let ?c = "c\<lparr>worker_of := (worker_of c)\<lparr>news := xs\<rparr>\<rparr>"
  have m: "marks_ok ?c" using assms by (simp add: controller_ok_def marks_ok_def worker_ok_def)
  have e: "executions l c = executions l ?c + (if m = open_mark c \<and> l = k then 1 else 0)" for l
    by (simp add: executions_def load_def assms(2))
  have due: "executions l c = answer_due (jobs c) l" and d: "distinct (map fst (jobs c))" "length (jobs c) \<le> 32" for l
    using assms(1) by (simp_all add: controller_ok_def jobs_ok_iff)
  show ?thesis
  proof (cases "m = open_mark c")
    case False
    then have "jobs_ok ?c" using e due d by (simp add: jobs_ok_iff)
    then show ?thesis using False m by (simp add: take_news_def controller_ok_def)
  next
    case True
    have "answer_due (jobs c) k \<ge> 1" using due [of k] e [of k] True by simp
    then obtain x where x: "map_of (jobs c) k = Some x" "\<not> job_finished x" by (auto simp: answer_due_def split: option.splits if_splits)
    let ?js = "upsert k (x\<lparr>job_result := r, job_finished := True\<rparr>) (jobs c)"
    have "length ?js = length (jobs c)" using upsert_keys [OF x(1), of "x\<lparr>job_result := r, job_finished := True\<rparr>"] by (metis length_map)
    moreover have "executions l ?c = answer_due ?js l" for l
      using due [of l] e [of l] True x by (auto simp: answer_due_def split: if_splits)
    ultimately have "controller_ok (?c\<lparr>jobs := ?js\<rparr>)"
      using d m by (simp add: controller_ok_def jobs_ok_iff marks_ok_def executions_def)
    then show ?thesis using True x by (auto simp: take_news_def take_result_def Let_def)
  qed
qed

lemma controller_news:
  assumes "controller_ok c" "news (worker_of c) = x # xs"
  shows "controller_ok (take_news n x (c\<lparr>worker_of := (worker_of c)\<lparr>news := xs\<rparr>\<rparr>))"
proof (cases "is_result x")
  case True
  then show ?thesis using controller_result [OF assms(1)] assms(2) by (cases x) auto
next
  case False
  have c: "controller_ok (c\<lparr>worker_of := (worker_of c)\<lparr>news := xs\<rparr>\<rparr>)" by (rule controller_pop [OF assms False])
  then show ?thesis using False
    by (cases x) (auto simp: take_news_def take_status_def take_request_def Let_def intro!: controller_happen controller_post split: option.split)
qed

section \<open>Runs\<close>

lemma controller_background: "worker_step ids (open_mark c) (worker_of c) w \<Longrightarrow> controller_ok c \<Longrightarrow> controller_ok (c\<lparr>worker_of := w\<rparr>)"
proof (induction "worker_of c" w rule: worker_step.induct)
  case (retry_step P xs x ys)
  then show ?case using controller_retry by metis
next
  case (next_step P n)
  then show ?case by (intro controller_worker) simp_all
qed (auto intro!: controller_worker)

lemma controller_ok_step: "controller_step ids c d \<Longrightarrow> controller_ok c \<Longrightarrow> controller_ok d"
proof (induction rule: controller_step.induct)
  case (letter_step P c x xs)
  then show ?case by (simp add: controller_obey)
next
  case (news_step c x xs network)
  then show ?case by (simp add: controller_news)
next
  case (worker_steps c w)
  then show ?case by (rule controller_background)
qed (auto intro: controller_handle controller_open controller_calls controller_shut controller_peers controller_ask)

lemma controller_ok_new: "controller_ok (new_controller s)"
  by (simp add: new_controller_def new_worker_def controller_ok_def jobs_ok_def marks_ok_def executions_def load_def worker_ok_def)

lemma controller_ok_runs: "(controller_step ids)\<^sup>*\<^sup>* (new_controller s) c \<Longrightarrow> controller_ok c"
  by (induction rule: rtranclp_induct) (auto intro: controller_ok_new controller_ok_step)


section \<open>The synchronizer under the worker\<close>

lemma sync_same [simp]: "sync_of (tell x w) = sync_of w" "sync_of (refresh_watches P w) = sync_of w" "sync_of (publish_namespace w) = sync_of w"
  "sync_of (stop_indexing w) = sync_of w" "sync_of (archive_files w) = sync_of w" "sync_of (archive_finished m ok e w) = sync_of w"
  "sync_of (index_host w) = sync_of w" "sync_of (files_changed w) = sync_of w" "sync_of (inspect P m p a n w) = sync_of w"
  by (simp_all add: tell_def refresh_watches_def publish_namespace_def stop_indexing_def archive_files_def archive_finished_def
      index_host_def files_changed_def inspect_def Let_def)

lemma sync_route [simp]: "sync_of (route P x w) = sync_of w"
  by (cases x) (simp_all add: route_def Let_def)

lemma sync_signals [simp]: "sync_of (foldl (\<lambda>w x. route P x w) w xs) = sync_of w"
  by (induction xs arbitrary: w) simp_all

lemma settled_replica [simp]: "settled ids (s\<lparr>replica_of := r\<rparr>) = settled ids s" "settled ids (s\<lparr>map_of_storage := m\<rparr>) = settled ids s"
  "settled ids (s\<lparr>signals := xs\<rparr>) = settled ids s" "settled ids (s\<lparr>slice_expired := b\<rparr>) = settled ids s"
  by (simp_all add: settled_def sound_def idle_def quiet_def awaiting_def deferred_def downloading_def uploading_def in_flight_def
      threads_def answer_ok_def task_ok_def cong: callback.case_cong task.case_cong)


abbreviation sync_ok :: "(nat \<Rightarrow> string) \<Rightarrow> 's worker \<Rightarrow> bool" where
  "sync_ok ids w \<equiv> settled ids (sync_of w)"

lemma settled_policy [simp]: "settled ids s \<Longrightarrow> settled ids (snd (set_content_policy p s))"
  by (auto simp: set_content_policy_def intro!: settled_alike [of ids s]) (auto simp: threads_def settled_def sound_def)

lemma settled_expected [simp]: "settled ids s \<Longrightarrow> settled ids (set_expected_host h con s)" "settled ids s \<Longrightarrow> settled ids (stop_sync s)"
proof -
  assume s: "settled ids s"
  then show stop: "settled ids (stop_sync s)" by (simp add: stop_sync_def settled_stops)
  show "settled ids (set_expected_host h con s)" unfolding set_expected_host_def
    by (rule settled_alike [OF stop]) (use stop in \<open>auto simp: threads_def settled_def sound_def\<close>)
qed

lemma sync_on_sync [simp]: "sync_ok ids (on_sync P op w) = settled ids (op (sync_of w))"
  by (simp add: on_sync_def Let_def)

lemma sync_store [simp]: "sync_ok ids (snd (on_store op w)) = sync_ok ids w"
  by (simp add: on_store_def on_replica_def split_beta Let_def)

lemma sync_publish [simp]: "sync_ok ids (snd (publish_store P w)) = sync_ok ids w"
  by (simp add: publish_store_def publish_map_def split_beta Let_def)

lemma sync_pin [simp]: "sync_ok ids (snd (pin_primary P w)) = sync_ok ids w"
  by (simp add: pin_primary_def split_beta Let_def)

lemma sync_serve [simp]: "sync_ok ids (snd (serve P peer m w)) = sync_ok ids w"
  by (simp add: serve_def split_beta Let_def)

lemma sync_indexed [simp]: "sync_ok ids (index_finished P m ok e w) = sync_ok ids w"
  by (simp add: index_finished_def split_beta Let_def)

lemma sync_errand [simp]: "sync_ok ids (handle_errand P m x w) = sync_ok ids w"
  by (simp add: handle_errand_def split_beta Let_def)

lemma sync_next: "sync_ok ids w \<Longrightarrow> fresh_id (base P) = ids \<Longrightarrow> sync_ok ids (next_host P m w)"
  by (auto simp: next_host_def settled_start split: list.split)

lemma sync_round [simp]: "sync_ok ids (local_round P w) = sync_ok ids w"
  by (simp add: local_round_def split_beta Let_def)

lemma sync_tick: "sync_ok ids w \<Longrightarrow> fresh_id (base P) = ids \<Longrightarrow> sync_ok ids (tick P m w)"
  by (simp add: tick_def split_beta Let_def sync_next)

lemma sync_configure: "sync_ok ids w \<Longrightarrow> sync_ok ids (configure P m p a n d w)"
  by (simp add: configure_def make_store_def split_beta Let_def split: sum.split)

lemma sync_obey:
  assumes "sync_ok ids (worker_of c)" "fresh_id (base P) = ids" "inj ids"
  shows "sync_ok ids (worker_of (obey P x c))"
  using assms
  by (cases x) (simp_all add: obey_def on_worker_def sync_configure set_hosts_def synchronize_now_def change_policy_def claim_host_def
      forward_response_def stop_worker_def sync_tick settled_receive Let_def split_beta)

lemma sync_background:
  assumes "worker_step ids m v w" "inj ids" "sync_ok ids v"
  shows "sync_ok ids w"
  using assms
proof (induction rule: worker_step.induct)
  case (task_step P w xs g t ys)
  then show ?case by (simp add: settled_task)
next
  case (expire_step P w)
  then show ?case by (simp add: expire_def settled_stops)
qed (simp_all add: sync_tick sync_next)

lemma front_worker [simp]: "worker_of (post_letter x c) = worker_of c" "worker_of (happen e c) = worker_of c"
  "worker_of (ask_worker f c) = worker_of c" "worker_of (note_snapshot p y n c) = worker_of c"
  by (simp_all add: post_letter_def happen_def ask_worker_def note_snapshot_def Let_def)

lemma calls_worker [simp]: "worker_of (snd (handle_envelope Q el p e c)) = worker_of c" "worker_of (open_internal path a d c) = worker_of c"
  "worker_of (close_controller c) = worker_of c" "worker_of (inspect_container path a c) = worker_of c" "worker_of (shut_down c) = worker_of c"
  "worker_of (set_peers ps rs h con c) = worker_of c" "worker_of (claim_primary dev c) = worker_of c"
  "worker_of (receive_transport n r c) = worker_of c" "worker_of (provider_start path i d c) = worker_of c"
  "worker_of (provider_report j ok er c) = worker_of c" "worker_of (provider_end j c) = worker_of c" "worker_of (expire_snapshots el c) = worker_of c"
  by (simp_all add: handle_envelope_def admit_def open_internal_def close_controller_def inspect_container_def shut_down_def set_peers_def
      claim_primary_def receive_transport_def provider_start_def provider_report_def provider_end_def expire_snapshots_def Let_def split_beta split: option.split)

lemma news_worker [simp]: "worker_of (take_news n x c) = worker_of c"
  by (cases x) (auto simp: take_news_def take_result_def take_status_def take_request_def Let_def split: option.split)

lemma sync_runs_under: "(controller_step ids)\<^sup>*\<^sup>* (new_controller (new_sync r m)) c \<Longrightarrow> inj ids \<Longrightarrow> sync_ok ids (worker_of c)"
proof (induction rule: rtranclp_induct)
  case base
  show ?case by (simp add: new_controller_def new_worker_def settled_new)
next
  case (step c d)
  from step(2,3) step(3) [OF step(4)] show ?case
    by (induction rule: controller_step.induct) (simp_all add: sync_obey step(4) sync_background [OF _ step(4)])
qed

section \<open>Properties\<close>





section \<open>Concrete runs\<close>

definition sample_post :: "jobj list post" where
  "sample_post = \<lparr>base = sample_setting, shared_open = (\<lambda>p. Inl ''none''), container_at = (\<lambda>p. None), medium_at = (\<lambda>p. sample_medium),
     watch_disk = \<lparr>kind_of = (\<lambda>p. WOther), entries_of = (\<lambda>p. [])\<rparr>, descriptors = None, mobile = False, watch_answers = []\<rparr>"

definition sample_opened :: "jobj list controller" where
  "sample_opened = open_internal ''c'' zeros False (new_controller (new_sync sample_mirror sample_map))"

definition sample_unlocked :: "jobj list controller" where
  "sample_unlocked = (let c = obey sample_post (Configure ''c'' zeros 1 False) (sample_opened\<lparr>letters := []\<rparr>); w = worker_of c in
     c\<lparr>worker_of := w\<lparr>sync_of := (sync_of w)\<lparr>replica_of := sample_mirror, map_of_storage := sample_map, slice_expired := False\<rparr>\<rparr>\<rparr>)"

definition sample_hosted :: "jobj list controller" where
  "sample_hosted = (let c = set_peers [''h''] [''h''] [] [] sample_unlocked in obey sample_post (SetHosts [''h''] 1 [] []) (c\<lparr>letters := []\<rparr>))"

lemma sample_base: "fresh_id (base sample_post) = sample_ids" "base sample_post = sample_setting"
  by (simp_all add: sample_post_def sample_setting_def)

lemma sample_run: "(controller_step sample_ids)\<^sup>*\<^sup>* (new_controller (new_sync sample_mirror sample_map)) sample_opened"
  "(controller_step sample_ids)\<^sup>*\<^sup>* (new_controller (new_sync sample_mirror sample_map)) sample_hosted"
proof -
  let ?c = "new_controller (new_sync sample_mirror sample_map)" and ?S = "controller_step sample_ids"
  have 1: "?S ?c sample_opened" unfolding sample_opened_def by (rule open_step)
  have l: "letters sample_opened = [Configure ''c'' zeros 1 False]"
    by (simp add: sample_opened_def open_internal_def new_controller_def post_letter_def happen_def)
  let ?d = "obey sample_post (Configure ''c'' zeros 1 False) (sample_opened\<lparr>letters := []\<rparr>)"
  have 2: "?S sample_opened ?d" by (rule letter_step [OF sample_base(1) l])
  have 3: "?S ?d sample_unlocked" unfolding sample_unlocked_def Let_def by (rule worker_steps) (rule others_step)
  have 4: "?S sample_unlocked (set_peers [''h''] [''h''] [] [] sample_unlocked)" by (rule peers_step)
  have "letters (set_peers [''h''] [''h''] [] [] sample_unlocked) = [SetHosts [''h''] 1 [] []]"
    by (simp add: sample_unlocked_def sample_opened_def open_internal_def new_controller_def post_letter_def happen_def set_peers_def
        obey_def on_worker_def Let_def)
  then have 5: "?S (set_peers [''h''] [''h''] [] [] sample_unlocked) sample_hosted"
    unfolding sample_hosted_def Let_def by (rule letter_step [OF sample_base(1)])
  show "?S\<^sup>*\<^sup>* ?c sample_opened" using 1 by blast
  show "?S\<^sup>*\<^sup>* ?c sample_hosted" using 1 2 3 4 5 by (meson rtranclp.rtrancl_into_rtrancl r_into_rtranclp)
qed

definition sample_told :: "jobj list controller" where
  "sample_told = take_news None (StatusNews 1 False False ''none'')
     (sample_hosted\<lparr>worker_of := (worker_of sample_hosted)\<lparr>news := [StatusNews 1 True True []]\<rparr>\<rparr>)"

definition sample_served :: "jobj list controller" where
  "sample_served = take_news None (StatusNews 1 True True []) (sample_told\<lparr>worker_of := (worker_of sample_told)\<lparr>news := []\<rparr>\<rparr>)"

lemma stopped_idle: "\<not> active s \<Longrightarrow> set_expected_host h con s = s\<lparr>expected_host := h, expected_container := con\<rparr>" "\<not> active s \<Longrightarrow> stop_sync s = s"
  by (simp_all add: set_expected_host_def stop_sync_def stop_with_def)

lemma sample_configured:
  "\<exists>w. worker_of sample_unlocked = w \<and> run_mark w = 1 \<and> made w \<and> root_dir w = [] \<and> host_list w = [] \<and> account_host w = [] \<and> account_container w = []
    \<and> primary_claim w = [] \<and> \<not> direct_host w \<and> \<not> active (sync_of w) \<and> signals (sync_of w) = [] \<and> replica_of (sync_of w) = sample_mirror
    \<and> news w = [StatusNews 1 False False ''none'']"
  by (simp add: sample_unlocked_def sample_opened_def obey_def on_worker_def open_internal_def new_controller_def new_worker_def post_letter_def
      happen_def configure_def make_store_def stop_indexing_def on_sync_def stopped_idle new_sync_def set_content_policy_def on_store_def
      on_replica_def sample_post_def zeros_def tell_def Let_def split_beta)


lemma sample_front: "open_mark sample_unlocked = 1" "open_scope sample_unlocked = zeros" "jobs sample_unlocked = []" "incoming sample_unlocked = []"
  "\<not> is_shut sample_unlocked" "\<not> host_access sample_unlocked"
  by (simp_all add: sample_unlocked_def sample_opened_def obey_def on_worker_def open_internal_def new_controller_def post_letter_def happen_def Let_def)

lemma started:
  assumes "\<not> active s" "is_open (replica_of s)" "peer \<noteq> []"
  shows "active (snd (start_sync E peer s)) \<and> signals (snd (start_sync E peer s)) = signals s"
  using assms by (simp add: start_sync_def describe_host_def send_def draw_def transmit_def later_def Let_def)

lemma on_sync_silent: "signals (op (sync_of w)) = [] \<Longrightarrow> on_sync P op w = w\<lparr>sync_of := op (sync_of w)\<rparr>"
  by (simp add: on_sync_def Let_def)

text \<open>The hosts are set: an idle worker starts its run with the first of them.\<close>

lemma hosts_start:
  assumes "made w" "run_mark w = n" "host_list w = []" "primary_claim w = []" "\<not> direct_host w" "\<not> active (sync_of w)" "signals (sync_of w) = []"
    "is_open (replica_of (sync_of w))" "h \<noteq> []"
  shows "active (sync_of (set_hosts P n [h] n hh con w)) \<and> news (set_hosts P n [h] n hh con w) = news w @ [StatusNews n True True []]"
proof -
  define v where "v = w\<lparr>account_host := hh, account_container := con, sync_of := (sync_of w)\<lparr>expected_host := hh, expected_container := con\<rparr>,
    host_list := [h], again := False, host_queue := [h]\<rparr>"
  have 1: "set_hosts P n [h] n hh con w = tick P n (v\<lparr>again := again w, host_queue := []\<rparr>)"
    using assms by (simp add: set_hosts_def first_of_each_def on_sync_silent stopped_idle v_def Let_def)
  have 2: "tick P n (v\<lparr>again := again w, host_queue := []\<rparr>) = next_host P n v"
    using assms by (simp add: tick_def pin_primary_def store_open_def store_of_def v_def Let_def)
  let ?x = "tell (StatusNews n True True []) (v\<lparr>host_queue := []\<rparr>)"
  have i: "\<not> active (sync_of ?x)" "is_open (replica_of (sync_of ?x))" "signals (sync_of ?x) = []"
    using assms by (simp_all add: v_def)
  have "next_host P n v = on_sync P (\<lambda>s. snd (start_sync (base P) h s)) ?x"
    using assms by (simp add: next_host_def store_open_def store_of_def v_def)
  then have 3: "next_host P n v = ?x\<lparr>sync_of := snd (start_sync (base P) h (sync_of ?x))\<rparr>"
    using started [OF i(1,2) assms(9)] i(3) by (simp add: on_sync_silent)
  have "news ?x = news w @ [StatusNews n True True []]" by (simp add: tell_def v_def)
  then show ?thesis unfolding 1 2 3 using started [OF i(1,2) assms(9), of "base P"] by simp
qed

lemma hosted_active: "active (sync_of (worker_of sample_hosted))"
  "news (worker_of sample_hosted) = [StatusNews 1 False False ''none'', StatusNews 1 True True []]"
proof -
  have o: "is_open sample_mirror" by (simp add: is_open_def sample_mirror_def sample_replica_def zeros_def)
  have w: "worker_of sample_hosted = set_hosts sample_post 1 [''h''] 1 [] [] (worker_of sample_unlocked)"
    by (simp add: sample_hosted_def obey_def on_worker_def set_peers_def post_letter_def sample_front Let_def)
  have "active (sync_of (worker_of sample_hosted)) \<and> news (worker_of sample_hosted) = news (worker_of sample_unlocked) @ [StatusNews 1 True True []]"
    unfolding w by (rule hosts_start) (use sample_configured o in simp_all)
  then show "active (sync_of (worker_of sample_hosted))"
    "news (worker_of sample_hosted) = [StatusNews 1 False False ''none'', StatusNews 1 True True []]"
    using sample_configured by simp_all
qed

lemma sample_served_run: "(controller_step sample_ids)\<^sup>*\<^sup>* (new_controller (new_sync sample_mirror sample_map)) sample_served"
proof -
  have 1: "controller_step sample_ids sample_hosted sample_told" unfolding sample_told_def by (rule news_step) (rule hosted_active(2))
  have "news (worker_of sample_told) = [StatusNews 1 True True []]" by (simp add: sample_told_def)
  then have 2: "controller_step sample_ids sample_told sample_served" unfolding sample_served_def by (rule news_step)
  show ?thesis by (rule rtranclp.rtrancl_into_rtrancl [OF rtranclp.rtrancl_into_rtrancl [OF sample_run(2) 1] 2])
qed

definition sample_envelope :: jobj where
  "sample_envelope = [(''message'', JObj [(''action'', JStr ''describe'')]), (''namespaceVersion'', JNum 1), (''op'', JStr ''society.sync''),
     (''protocol'', JNum 2), (''scope'', JStr zeros), (''token'', JStr ''t'')]"

lemma sample_ready_now: "authorized sample_served = [''h'']" "open_scope sample_served = zeros" "is_ready sample_served" "jobs sample_served = []"
  "open_mark sample_served = 1" "letters sample_served = []" "\<not> host_access sample_served" "incoming sample_served = []"
  by (simp_all add: sample_served_def sample_told_def take_news_def take_status_def happen_def hosted_active sample_hosted_def obey_def on_worker_def
      set_peers_def post_letter_def sample_front Let_def)

definition sample_admitted :: "jobj list controller" where
  "sample_admitted = snd (handle_envelope sample_env 0 ''h'' sample_envelope sample_served)"

lemma sample_admission:
  "handle_envelope sample_env 0 ''h'' sample_envelope sample_served = (pending_reply, sample_admitted)"
  "map fst (jobs sample_admitted) = [''h/t'']" "length (letters sample_admitted) = 1"
proof -
  have why: "envelope_refusal sample_env ''h'' sample_envelope sample_served = []"
    by (simp add: envelope_refusal_def unreadable_def proposal_missing_def proposing_actions_def sample_ready_now sample_envelope_def
        oget_def int_or_def json_bytes_def zeros_def Let_def)
  have "handle_envelope sample_env 0 ''h'' sample_envelope sample_served = admit sample_env 0 ''h'' sample_envelope ''h/t'' sample_served"
    by (simp add: handle_envelope_def why sample_ready_now Let_def) (simp add: sample_envelope_def oget_def)
  then have *: "fst (handle_envelope sample_env 0 ''h'' sample_envelope sample_served) = pending_reply
    \<and> map fst (jobs sample_admitted) = [''h/t''] \<and> length (letters sample_admitted) = 1"
    by (simp add: sample_admitted_def admit_def recent_jobs_def sample_ready_now note_snapshot_def post_letter_def Let_def)
  then show "handle_envelope sample_env 0 ''h'' sample_envelope sample_served = (pending_reply, sample_admitted)"
    by (simp add: sample_admitted_def prod_eq_iff)
  show "map fst (jobs sample_admitted) = [''h/t'']" "length (letters sample_admitted) = 1" using * by simp_all
qed

lemma sample_admitted_run: "(controller_step sample_ids)\<^sup>*\<^sup>* (new_controller (new_sync sample_mirror sample_map)) sample_admitted"
  unfolding sample_admitted_def by (rule rtranclp.rtrancl_into_rtrancl [OF sample_served_run]) (rule handle_step)




end
