(* ===== verification/Delivery.thy ===== *)
theory Delivery
  imports Samples
begin

text \<open>
  Durable delivery between the applications of one user (\<open>src/src/Delivery\<close>): senders append
  messages to an outbox, the daemon moves them to an inbox in one transaction, and consumers
  read pages of the inbox and acknowledge a position in it. The state is the database with its
  tables, the directory it lives in as the file system shows it, and a list of faults: each
  statement the database executes fails when the next fault says so.
\<close>

section \<open>Local directories\<close>

text \<open>The file system as \<open>validateDirectory\<close> asks it. \<open>opened\<close> is the runtime directory of
  the container at a path, when the container package can open it.\<close>

record host_fs =
  clean_path :: "string \<Rightarrow> string"
  path_exists :: "string \<Rightarrow> bool"
  canonical :: "string \<Rightarrow> string"
  manifest_at :: "string \<Rightarrow> bool"
  opened :: "string \<Rightarrow> string option"
  below_runtime :: "string \<Rightarrow> string \<Rightarrow> string"
  relative_to :: "string \<Rightarrow> string \<Rightarrow> string"
  fs_type :: "string \<Rightarrow> string"

text \<open>A path and its ancestors up to the root, nearest first; \<open>cdUp\<close> stops at a missing directory.\<close>

definition path_parts :: "string \<Rightarrow> string list" where
  "path_parts p = filter (\<lambda>x. x \<noteq> []) (qsplit (CHR ''/'') p)"

definition ancestors :: "string \<Rightarrow> string list" where
  "ancestors p = map (\<lambda>n. CHR ''/'' # qjoin (CHR ''/'') (take n (path_parts p))) (rev [0..<Suc (length (path_parts p))])"

definition climb :: "host_fs \<Rightarrow> string \<Rightarrow> string list" where
  "climb h p = (case ancestors p of [] \<Rightarrow> [] | a # as \<Rightarrow> a # takeWhile (path_exists h) as)"

definition existing_ancestor :: "host_fs \<Rightarrow> string \<Rightarrow> string" where
  "existing_ancestor h p = (case dropWhile (\<lambda>a. \<not> path_exists h a) (butlast (ancestors p)) of [] \<Rightarrow> ''/'' | a # as \<Rightarrow> a)"

definition in_runtime :: "host_fs \<Rightarrow> string \<Rightarrow> string \<Rightarrow> bool" where
  "in_runtime h path a =
     (case opened h a of
        None \<Rightarrow> False
      | Some runtime \<Rightarrow>
          (let rel = (if runtime = [] then [] else relative_to h runtime (clean_path h path)) in
           runtime \<noteq> [] \<and> below_runtime h a (if rel = ''.'' then [] else rel) = clean_path h path))"

definition remote_types :: "string list" where
  "remote_types = [''nfs'', ''smb'', ''cifs'', ''afp'', ''sshfs'', ''webdav'', ''9p'']"

definition lower_char :: "char \<Rightarrow> char" where
  "lower_char c = (let n = (of_char c :: nat) in if 65 \<le> n \<and> n \<le> 90 then char_of (n + 32) else c)"

definition mentions :: "string \<Rightarrow> string \<Rightarrow> bool" where
  "mentions t s \<longleftrightarrow> list_ex (\<lambda>n. starts_with t (drop n s)) [0..<Suc (length s)]"

text \<open>The message of the failure, empty when the directory is valid.\<close>

definition validate_directory :: "host_fs \<Rightarrow> string \<Rightarrow> string" where
  "validate_directory h path =
     (if \<not> starts_with ''/'' path \<or> starts_with ''//'' path then ''not_local''
      else let existing = existing_ancestor h (clean_path h path);
               starts = filter (\<lambda>s. s \<noteq> []) [clean_path h path, canonical h existing] in
      if \<not> list_all (\<lambda>s. list_all (\<lambda>a. \<not> manifest_at h a \<or> in_runtime h path a) (climb h s)) starts then ''not_runtime''
      else if list_ex (\<lambda>t. mentions t (map lower_char (fs_type h existing))) remote_types then ''network''
      else [])"

section \<open>State\<close>

record message =
  msg_id :: string
  msg_sender :: string
  msg_topic :: string
  msg_payload :: string
  queued_at :: string

record receipt_row =
  rsequence :: int
  rmessage :: message
  received_at :: string

text \<open>What the file system shows of the delivery directory. \<open>links\<close> are the database files that are
  symbolic links before the schema lease is taken, \<open>late_links\<close> those after.\<close>

record place =
  observed_dir :: string
  observed_plain :: bool
  dir_existed :: bool
  dir_link :: bool
  root_path :: string
  root_plain :: bool
  lock_link :: bool
  late_lock_link :: bool
  lock_free :: bool
  links :: bool
  late_links :: bool
  file_size :: int
  host :: host_fs

record delivery =
  dplace :: place
  dopen :: bool
  derror :: string
  dschema :: int
  dwal :: bool
  outbox :: "message list"
  inbox :: "receipt_row list"
  numbered :: int
  consumers :: "(string \<times> int) list"
  daemon_row :: "string option"
  dfaults :: "bool list"
  duuid :: nat

definition dfail :: "string \<Rightarrow> delivery \<Rightarrow> bool \<times> delivery" where
  "dfail why d = (False, d\<lparr>derror := why\<rparr>)"

definition dpoll :: "delivery \<Rightarrow> bool \<times> delivery" where
  "dpoll d = (case dfaults d of [] \<Rightarrow> (True, d) | b # bs \<Rightarrow> (\<not> b, d\<lparr>dfaults := bs\<rparr>))"

definition exec_sql :: "delivery \<Rightarrow> bool \<times> delivery" where
  "exec_sql d = (let (ok, d) = dpoll d in if ok then (True, d) else dfail ''sql'' d)"

definition delivery_ready :: "delivery \<Rightarrow> bool \<times> delivery" where
  "delivery_ready d =
     (let d = d\<lparr>derror := []\<rparr> in
      if \<not> dopen d then dfail ''not_open'' d
      else if \<not> root_plain (dplace d) then dfail ''disappeared'' d
      else if validate_directory (host (dplace d)) (root_path (dplace d)) \<noteq> []
      then dfail (validate_directory (host (dplace d)) (root_path (dplace d))) d
      else if links (dplace d) then dfail ''linked'' d
      else (True, d))"

section \<open>Opening\<close>

definition close_delivery :: "delivery \<Rightarrow> delivery" where
  "close_delivery d = d\<lparr>dopen := False\<rparr>"

definition open_fail :: "string \<Rightarrow> delivery \<Rightarrow> bool \<times> delivery" where
  "open_fail why d = dfail why (close_delivery d)"

definition user_version :: "delivery \<Rightarrow> int \<times> delivery" where
  "user_version d = (let (ok, d) = dpoll d in (if ok then dschema d else - 1, d))"

definition journal_wal :: "delivery \<Rightarrow> bool \<times> delivery" where
  "journal_wal d = (let (ok, d) = dpoll d in (ok \<and> dwal d, d))"

definition configure_connection :: "delivery \<Rightarrow> bool \<times> delivery" where
  "configure_connection d =
     (let (ok, d) = dpoll d in
      if \<not> ok then open_fail ''permissions'' d
      else let (ok, d) = exec_sql d in if ok then (True, d) else open_fail (derror d) d)"

fun exec_all :: "nat \<Rightarrow> delivery \<Rightarrow> bool \<times> delivery" where
  "exec_all 0 d = (True, d)"
| "exec_all (Suc n) d = (let (ok, d) = exec_sql d in if ok then exec_all n d else (False, d))"

text \<open>The first schema: \<open>BEGIN\<close>, four tables that are created unless they exist and the version.\<close>

definition create_schema :: "delivery \<Rightarrow> bool \<times> delivery" where
  "create_schema d =
     (let (ok, d) = exec_sql d in
      if \<not> ok then open_fail (derror d) d
      else let (ok, d) = exec_all 5 d in
      if \<not> ok then open_fail (derror d) d
      else let (ok, d) = dpoll d in
      if ok then (True, d\<lparr>dschema := 1\<rparr>) else open_fail ''commit'' d)"

definition initialize :: "delivery \<Rightarrow> bool \<times> delivery" where
  "initialize d =
     (if \<not> lock_free (dplace d) then open_fail ''busy'' d
      else if late_lock_link (dplace d) \<or> late_links (dplace d) then open_fail ''linked'' d
      else let (ok, d) = dpoll d in
      if \<not> ok then open_fail ''create'' d
      else let (ok, d) = dpoll d in
      if \<not> ok then open_fail ''sql'' d
      else let (schema, d) = user_version (d\<lparr>dopen := True\<rparr>) in
      if schema \<noteq> 0 \<and> schema \<noteq> 1 then open_fail ''schema'' d
      else let (wal, d) = journal_wal d; (ok, d) = (if wal then (True, d) else exec_sql d) in
      if \<not> ok then open_fail (derror d) d
      else let (ok, d) = configure_connection (if wal then d else d\<lparr>dwal := True\<rparr>) in
      if \<not> ok then (False, d)
      else if schema = 0 then create_schema d else (True, d))"

definition open_delivery :: "place \<Rightarrow> delivery \<Rightarrow> bool \<times> delivery" where
  "open_delivery p d =
     (let d = (close_delivery d)\<lparr>derror := [], dplace := p\<rparr> in
      if \<not> observed_plain p then open_fail ''not_absolute'' d
      else if validate_directory (host p) (observed_dir p) \<noteq> [] then open_fail (validate_directory (host p) (observed_dir p)) d
      else let (ok, d) = (if dir_link p then (False, d) else dpoll d) in
      if \<not> ok then open_fail ''mkpath'' d
      else let (ok, d) = (if dir_existed p then (True, d) else dpoll d) in
      if \<not> ok then open_fail ''restrict'' d
      else if lock_link p then open_fail ''lock'' d
      else if links p then open_fail ''linked'' d
      else let (found, d) = (if file_size p > 0 then dpoll d else (False, d)) in
      if \<not> found then initialize d
      else let (schema, d) = user_version (d\<lparr>dopen := True\<rparr>) in
      if schema > 1 then open_fail ''schema'' d
      else let (wal, d) = (if schema = 1 then journal_wal d else (False, d)) in
      if wal then configure_connection d else initialize (close_delivery d))"

section \<open>Messages\<close>

datatype activity = Foreground | Background | Unknown

record peer =
  application_id :: string
  application_name :: string
  application_version :: string
  instance_id :: string
  process_id :: int
  peer_activity :: activity
  started_at :: string
  last_seen_at :: string

fun activity_name :: "activity \<Rightarrow> string" where
  "activity_name Foreground = ''foreground''"
| "activity_name Background = ''background''"
| "activity_name Unknown = ''unknown''"

definition peer_map :: "peer \<Rightarrow> jobj" where
  "peer_map p = obj [(''applicationId'', JStr (application_id p)), (''name'', JStr (application_name p)),
     (''version'', JStr (application_version p)), (''instanceId'', JStr (instance_id p)), (''processId'', JNum (process_id p)),
     (''activity'', JStr (activity_name (peer_activity p))), (''startedAt'', JStr (started_at p)),
     (''lastSeenAt'', JStr (last_seen_at p))]"

text \<open>\<open>^[A-Za-z0-9][A-Za-z0-9._-]{0,127}$\<close>, where \<open>$\<close> also matches before a final line feed.\<close>

definition alphanumeric :: "char \<Rightarrow> bool" where
  "alphanumeric c = (let n = (of_char c :: nat) in (48 \<le> n \<and> n \<le> 57) \<or> (65 \<le> n \<and> n \<le> 90) \<or> (97 \<le> n \<and> n \<le> 122))"

definition valid_name :: "string \<Rightarrow> bool" where
  "valid_name s = (let t = (if s \<noteq> [] \<and> last s = CHR 0x0A then butlast s else s) in
     t \<noteq> [] \<and> alphanumeric (hd t) \<and> length t \<le> 128
     \<and> list_all (\<lambda>c. alphanumeric c \<or> c = CHR ''.'' \<or> c = CHR ''_'' \<or> c = CHR ''-'') (tl t))"

definition enqueue :: "env \<Rightarrow> peer \<Rightarrow> string \<Rightarrow> jobj \<Rightarrow> delivery \<Rightarrow> string \<times> delivery" where
  "enqueue Q sender topic body d =
     (let (ok, d) = delivery_ready d in
      if \<not> ok then ([], d)
      else let bytes = json_bytes Q body in
      if \<not> valid_name topic \<or> application_id sender = [] \<or> uuid_null Q (instance_id sender) \<or> length bytes > 65536
      then ([], snd (dfail ''invalid_message'' d))
      else let i = new_uuid Q (duuid d); d = d\<lparr>duuid := Suc (duuid d)\<rparr>;
               (ok, d) = exec_sql d in
      if \<not> ok then ([], d)
      else if i \<in> msg_id ` set (outbox d) then ([], snd (dfail ''unique'' d))
      else (i, d\<lparr>outbox := outbox d @ [\<lparr>msg_id = i, msg_sender = json_bytes Q (peer_map sender), msg_topic = topic,
                 msg_payload = bytes, queued_at = iso_now Q\<rparr>]\<rparr>))"

text \<open>\<open>INSERT OR IGNORE\<close> into a table with \<open>AUTOINCREMENT\<close>: the number of a new row is one more than
  the largest ever used, and the insertion fails at the largest 64-bit number. An ignored row could
  use up a number as well; identifiers are fresh, so that no row is ignored.\<close>

definition insert_receipt :: "env \<Rightarrow> message \<Rightarrow> delivery \<Rightarrow> bool \<times> delivery" where
  "insert_receipt Q m d =
     (let (ok, d) = exec_sql d in
      if \<not> ok then (False, d)
      else if numbered d \<ge> 9223372036854775807 then dfail ''full'' d
      else if msg_id m \<in> (msg_id \<circ> rmessage) ` set (inbox d) then (True, d)
      else (True, d\<lparr>numbered := numbered d + 1, inbox := inbox d @ [\<lparr>rsequence = numbered d + 1, rmessage = m,
              received_at = iso_now Q\<rparr>]\<rparr>))"

fun receive_rows :: "env \<Rightarrow> message list \<Rightarrow> delivery \<Rightarrow> bool \<times> delivery" where
  "receive_rows Q [] d = (True, d)"
| "receive_rows Q (m # ms) d =
     (let (ok, d) = insert_receipt Q m d in
      if \<not> ok then (False, d)
      else let (ok, d) = exec_sql d in
      if \<not> ok then (False, d)
      else receive_rows Q ms (d\<lparr>outbox := filter (\<lambda>x. msg_id x \<noteq> msg_id m) (outbox d)\<rparr>))"

definition receive_body :: "env \<Rightarrow> int \<Rightarrow> delivery \<Rightarrow> int option \<times> delivery" where
  "receive_body Q limit d =
     (let (ok, d) = exec_sql d in
      if \<not> ok then (None, d)
      else let rows = take (nat limit) (outbox d); (ok, d) = receive_rows Q rows d in
      if \<not> ok then (None, d)
      else let (ok, d) = exec_sql d in
      if ok then (Some (int (length rows)), d) else (None, d))"

definition receive_pending :: "env \<Rightarrow> int \<Rightarrow> delivery \<Rightarrow> int \<times> delivery" where
  "receive_pending Q limit d =
     (let (ok, d) = delivery_ready d in
      if \<not> ok then (- 1, d)
      else if limit < 1 \<or> limit > 256 then (- 1, snd (dfail ''batch'' d))
      else let (ok, d) = exec_sql d in
      if \<not> ok then (- 1, d)
      else let (n, e) = receive_body Q limit d in
      (case n of
         Some n \<Rightarrow> (n, e)
       | None \<Rightarrow> (- 1, e\<lparr>outbox := outbox d, inbox := inbox d, numbered := numbered d\<rparr>)))"

definition pending_count :: "delivery \<Rightarrow> int \<times> delivery" where
  "pending_count d =
     (let (ok, d) = delivery_ready d in
      if \<not> ok then (- 1, d)
      else let (ok, d) = exec_sql d in
      if ok then (int (length (outbox d)), d) else (- 1, d))"

definition read_after :: "int \<Rightarrow> int \<Rightarrow> delivery \<Rightarrow> receipt_row list \<times> delivery" where
  "read_after sequence limit d =
     (let (ok, d) = delivery_ready d in
      if \<not> ok then ([], d)
      else if sequence < 0 \<or> limit < 1 \<or> limit > 256 then ([], snd (dfail ''cursor'' d))
      else let (ok, d) = exec_sql d in
      if \<not> ok then ([], d)
      else (take (nat limit) (sort_key rsequence (filter (\<lambda>x. rsequence x > sequence) (inbox d))), d))"

text \<open>What a reader of a page sees of a row.\<close>

definition receipt_map :: "env \<Rightarrow> receipt_row \<Rightarrow> jobj" where
  "receipt_map Q x = obj [(''sequence'', JNum (rsequence x)), (''id'', JStr (msg_id (rmessage x))),
     (''sender'', JObj (parse_obj Q (msg_sender (rmessage x)))), (''topic'', JStr (msg_topic (rmessage x))),
     (''payload'', JObj (parse_obj Q (msg_payload (rmessage x)))), (''queuedAt'', JStr (queued_at (rmessage x))),
     (''receivedAt'', JStr (received_at x))]"

definition last_sequence :: "delivery \<Rightarrow> int" where
  "last_sequence d = (if inbox d = [] then 0 else Max (set (map rsequence (inbox d))))"

definition acknowledge :: "string \<Rightarrow> int \<Rightarrow> delivery \<Rightarrow> bool \<times> delivery" where
  "acknowledge consumer sequence d =
     (let (ok, d) = delivery_ready d in
      if \<not> ok then (False, d)
      else if \<not> valid_name consumer \<or> sequence < 0 then dfail ''acknowledgement'' d
      else let (ok, d) = exec_sql d in
      if \<not> ok then (False, d)
      else if sequence > last_sequence d then dfail ''not_received'' d
      else let (ok, d) = exec_sql d in
      if \<not> ok then (False, d)
      else (True, d\<lparr>consumers := upsert consumer
              (case map_of (consumers d) consumer of None \<Rightarrow> sequence | Some n \<Rightarrow> max n sequence) (consumers d)\<rparr>))"

definition acknowledged :: "string \<Rightarrow> delivery \<Rightarrow> int \<times> delivery" where
  "acknowledged consumer d =
     (let (ok, d) = delivery_ready d in
      if \<not> ok then (- 1, d)
      else let (ok, d) = exec_sql d in
      if \<not> ok then (- 1, d)
      else (case map_of (consumers d) consumer of None \<Rightarrow> 0 | Some n \<Rightarrow> n, d))"

definition set_daemon_snapshot :: "env \<Rightarrow> jobj \<Rightarrow> delivery \<Rightarrow> bool \<times> delivery" where
  "set_daemon_snapshot Q snap d =
     (let (ok, d) = delivery_ready d in
      if \<not> ok then (False, d)
      else let (ok, d) = exec_sql d in
      if ok then (True, d\<lparr>daemon_row := Some (json_bytes Q snap)\<rparr>) else (False, d))"

definition daemon_snapshot :: "env \<Rightarrow> delivery \<Rightarrow> jobj \<times> delivery" where
  "daemon_snapshot Q d =
     (let (ok, d) = delivery_ready d in
      if \<not> ok then ([], d)
      else let (ok, d) = exec_sql d in
      if \<not> ok then ([], d)
      else (case daemon_row d of None \<Rightarrow> [] | Some s \<Rightarrow> parse_obj Q s, d))"

section \<open>The invariant\<close>

definition sent :: "delivery \<Rightarrow> message list" where
  "sent d = map rmessage (inbox d) @ outbox d"

definition delivery_ok :: "env \<Rightarrow> delivery \<Rightarrow> bool" where
  "delivery_ok Q d \<longleftrightarrow> distinct (map msg_id (sent d)) \<and> msg_id ` set (sent d) \<subseteq> new_uuid Q ` {..<duuid d}
     \<and> map rsequence (inbox d) = [1..int (length (inbox d))] \<and> numbered d = int (length (inbox d))
     \<and> distinct (map fst (consumers d)) \<and> (\<forall>(c, n) \<in> set (consumers d). 0 \<le> n \<and> n \<le> numbered d)"

text \<open>What no failing statement and no query changes.\<close>

definition same_tables :: "delivery \<Rightarrow> delivery \<Rightarrow> bool" where
  "same_tables d e \<longleftrightarrow> outbox e = outbox d \<and> inbox e = inbox d \<and> numbered e = numbered d
     \<and> consumers e = consumers d \<and> daemon_row e = daemon_row d \<and> duuid e = duuid d"

interpretation tables: op_rel same_tables
  by unfold_locales (auto simp: same_tables_def)

lemma same_tables_fields [simp]:
  "same_tables d (e\<lparr>derror := w\<rparr>) = same_tables d e" "same_tables d (e\<lparr>dfaults := fl\<rparr>) = same_tables d e"
  "same_tables d (e\<lparr>dopen := b\<rparr>) = same_tables d e" "same_tables d (e\<lparr>dplace := p\<rparr>) = same_tables d e"
  "same_tables d (e\<lparr>dschema := n\<rparr>) = same_tables d e" "same_tables d (e\<lparr>dwal := b\<rparr>) = same_tables d e"
  by (simp_all add: same_tables_def)

lemma tables_steps [simp]:
  "same_tables d (snd (dpoll e)) = same_tables d e" "same_tables d (snd (dfail w e)) = same_tables d e"
  "same_tables d (snd (exec_sql e)) = same_tables d e" "same_tables d (snd (delivery_ready e)) = same_tables d e"
  "same_tables d (snd (open_fail w e)) = same_tables d e" "same_tables d (close_delivery e) = same_tables d e"
  "same_tables d (snd (user_version e)) = same_tables d e" "same_tables d (snd (journal_wal e)) = same_tables d e"
  by (auto simp: dpoll_def dfail_def exec_sql_def delivery_ready_def open_fail_def close_delivery_def user_version_def
      journal_wal_def Let_def split: list.split)

lemma tables_ok: "same_tables d e \<Longrightarrow> delivery_ok Q e = delivery_ok Q d"
  by (simp add: same_tables_def delivery_ok_def sent_def)

lemma tables_get:
  "exec_sql d = (b, e) \<Longrightarrow> same_tables d e" "delivery_ready d = (b, e) \<Longrightarrow> same_tables d e" "dpoll d = (b, e) \<Longrightarrow> same_tables d e"
  using tables_steps(1,3,4) [of d d] by auto

lemma tables_configure: "same_tables d (snd (configure_connection d))"
  unfolding configure_connection_def Let_def by (intro tables.call tables.cond) auto

lemma tables_exec_all: "same_tables d (snd (exec_all n d))"
  by (induction n arbitrary: d) (auto intro!: tables.call simp: Let_def)

lemma tables_create: "same_tables d (snd (create_schema d))"
  unfolding create_schema_def Let_def by (intro tables.call tables.cond) (auto simp: tables_exec_all)

lemma tables_initialize: "same_tables d (snd (initialize d))"
proof -
  have "same_tables e (snd (configure_connection (e\<lparr>dwal := w\<rparr>)))" for e w
    using tables_configure [of "e\<lparr>dwal := w\<rparr>"] by (simp add: same_tables_def)
  moreover have "same_tables e (snd (user_version (e\<lparr>dopen := b\<rparr>)))" for e b
    using tables_steps(7) [of e "e\<lparr>dopen := b\<rparr>"] by simp
  ultimately show ?thesis
    unfolding initialize_def Let_def by (intro tables.call tables.cond) (auto simp: tables_create tables_configure)
qed

lemma tables_open: "same_tables d (snd (open_delivery p d))"
proof -
  let ?c = "(close_delivery d)\<lparr>derror := [], dplace := p\<rparr>"
  have s: "same_tables e (snd (user_version (e\<lparr>dopen := b\<rparr>)))" for e b
    using tables_steps(7) [of e "e\<lparr>dopen := b\<rparr>"] by simp
  have i: "same_tables e (snd (initialize (close_delivery e)))" for e
    using tables_initialize [of "close_delivery e"] by (simp add: same_tables_def close_delivery_def)
  have "same_tables ?c (snd (open_delivery p d))"
    unfolding open_delivery_def Let_def
    by (intro tables.call tables.cond) (auto simp: s i tables_initialize tables_configure)
  then show ?thesis by (simp add: same_tables_def close_delivery_def)
qed

section \<open>Each operation\<close>

lemma enqueue_cases:
  assumes "enqueue Q sender topic body d = (i, e)"
  shows "(i = [] \<and> same_tables d (e\<lparr>duuid := duuid d\<rparr>) \<and> duuid d \<le> duuid e)
    \<or> (i = new_uuid Q (duuid d) \<and> duuid e = Suc (duuid d) \<and> i \<notin> msg_id ` set (outbox d)
       \<and> outbox e = outbox d @ [\<lparr>msg_id = i, msg_sender = json_bytes Q (peer_map sender), msg_topic = topic,
              msg_payload = json_bytes Q body, queued_at = iso_now Q\<rparr>]
       \<and> inbox e = inbox d \<and> numbered e = numbered d \<and> consumers e = consumers d \<and> daemon_row e = daemon_row d)"
proof -
  obtain b d1 where 1: "delivery_ready d = (b, d1)" by (cases "delivery_ready d")
  obtain c d2 where 2: "exec_sql (d1\<lparr>duuid := Suc (duuid d1)\<rparr>) = (c, d2)" by (cases "exec_sql (d1\<lparr>duuid := Suc (duuid d1)\<rparr>)")
  from 1 [THEN tables_get(2)] 2 [THEN tables_get(1)] assms 1 2 show ?thesis
    by (auto simp: enqueue_def Let_def same_tables_def dfail_def split: if_splits)
qed

lemma enqueue_ok:
  assumes "delivery_ok Q d" "inj (new_uuid Q)"
  shows "delivery_ok Q (snd (enqueue Q sender topic body d))"
proof -
  obtain i e where e: "enqueue Q sender topic body d = (i, e)" by (cases "enqueue Q sender topic body d")
  have new: "new_uuid Q (duuid d) \<notin> msg_id ` set (sent d)"
  proof
    assume "new_uuid Q (duuid d) \<in> msg_id ` set (sent d)"
    then have "new_uuid Q (duuid d) \<in> new_uuid Q ` {..<duuid d}" using assms(1) unfolding delivery_ok_def by blast
    then show False using assms(2) by (auto dest: injD)
  qed
  have mono: "new_uuid Q ` {..<duuid d} \<subseteq> new_uuid Q ` {..<n}" if "duuid d \<le> n" for n using that by auto
  from enqueue_cases [OF e] show ?thesis
  proof
    assume "i = [] \<and> same_tables d (e\<lparr>duuid := duuid d\<rparr>) \<and> duuid d \<le> duuid e"
    then have "sent e = sent d" "inbox e = inbox d" "numbered e = numbered d" "consumers e = consumers d" "duuid d \<le> duuid e"
      by (simp_all add: sent_def same_tables_def)
    moreover have "msg_id ` set (sent d) \<subseteq> new_uuid Q ` {..<duuid e}"
      using assms(1) mono [OF calculation(5)] unfolding delivery_ok_def by blast
    ultimately show ?thesis using assms(1) e unfolding delivery_ok_def by auto
  next
    assume a: "i = new_uuid Q (duuid d) \<and> duuid e = Suc (duuid d) \<and> i \<notin> msg_id ` set (outbox d)
       \<and> outbox e = outbox d @ [\<lparr>msg_id = i, msg_sender = json_bytes Q (peer_map sender), msg_topic = topic,
              msg_payload = json_bytes Q body, queued_at = iso_now Q\<rparr>]
       \<and> inbox e = inbox d \<and> numbered e = numbered d \<and> consumers e = consumers d \<and> daemon_row e = daemon_row d"
    then have "sent e = sent d @ [\<lparr>msg_id = i, msg_sender = json_bytes Q (peer_map sender), msg_topic = topic,
              msg_payload = json_bytes Q body, queued_at = iso_now Q\<rparr>]" by (simp add: sent_def)
    moreover have "msg_id ` set (sent d) \<subseteq> new_uuid Q ` {..<duuid e}"
      using assms(1) mono [of "duuid e"] a unfolding delivery_ok_def by auto
    ultimately show ?thesis using assms(1) e new a unfolding delivery_ok_def by auto
  qed
qed

lemma insert_receipt_cases:
  assumes "insert_receipt Q m d = (True, e)" "msg_id m \<notin> msg_id ` set (map rmessage (inbox d))"
  shows "inbox e = inbox d @ [\<lparr>rsequence = numbered d + 1, rmessage = m, received_at = iso_now Q\<rparr>]"
    "numbered e = numbered d + 1" "outbox e = outbox d" "consumers e = consumers d" "daemon_row e = daemon_row d" "duuid e = duuid d"
proof -
  obtain b d1 where 1: "exec_sql d = (b, d1)" by (cases "exec_sql d")
  from 1 [THEN tables_get(1)] 1 assms
  show "inbox e = inbox d @ [\<lparr>rsequence = numbered d + 1, rmessage = m, received_at = iso_now Q\<rparr>]"
    "numbered e = numbered d + 1" "outbox e = outbox d" "consumers e = consumers d" "daemon_row e = daemon_row d" "duuid e = duuid d"
    by (auto simp: insert_receipt_def dfail_def same_tables_def image_image split: if_splits)
qed

lemma filter_head_id: "distinct (map msg_id (m # ms)) \<Longrightarrow> filter (\<lambda>x. msg_id x \<noteq> msg_id m) (m # ms) = ms"
  by (auto simp: filter_id_conv image_iff)

lemma receive_rows_True:
  assumes "receive_rows Q ms d = (True, e)" "outbox d = ms @ rest" "distinct (map msg_id (sent d))"
  shows "outbox e = rest \<and> consumers e = consumers d \<and> daemon_row e = daemon_row d \<and> duuid e = duuid d
    \<and> numbered e = numbered d + int (length ms)
    \<and> (\<exists>rs. inbox e = inbox d @ rs \<and> map rmessage rs = ms \<and> map rsequence rs = [numbered d + 1..numbered d + int (length ms)])"
  using assms
proof (induction Q ms d rule: receive_rows.induct)
  case (2 Q m ms d)
  obtain b d1 where 1: "insert_receipt Q m d = (b, d1)" by (cases "insert_receipt Q m d")
  obtain c d2 where 2: "exec_sql d1 = (c, d2)" by (cases "exec_sql d1")
  let ?d = "d2\<lparr>outbox := filter (\<lambda>x. msg_id x \<noteq> msg_id m) (outbox d2)\<rparr>"
  from "2.prems"(1) 1 2 have bc: "b" "c" and r: "receive_rows Q ms ?d = (True, e)" by (auto split: if_splits)
  have m: "msg_id m \<notin> msg_id ` set (map rmessage (inbox d))"
    using "2.prems"(2,3) by (auto simp: sent_def)
  note i = insert_receipt_cases [OF 1 [unfolded bc(1)[THEN eqTrueI]] m]
  from 2 [THEN tables_get(1)] have t: "outbox d2 = outbox d1" "inbox d2 = inbox d1" "numbered d2 = numbered d1" "consumers d2 = consumers d1"
    "daemon_row d2 = daemon_row d1" "duuid d2 = duuid d1" by (simp_all add: same_tables_def)
  have "distinct (map msg_id (m # (ms @ rest)))" using "2.prems"(2,3) by (simp add: sent_def)
  then have o: "outbox ?d = ms @ rest" using filter_head_id [of m "ms @ rest"] t i "2.prems"(2) by simp
  have "sent ?d = sent d" unfolding sent_def o using t i "2.prems"(2) by simp
  with "2.IH" [OF _ refl _ _] 1 2 bc r o "2.prems"(3)
  have ih: "outbox e = rest" "consumers e = consumers ?d" "daemon_row e = daemon_row ?d" "duuid e = duuid ?d"
    "numbered e = numbered ?d + int (length ms)"
    "\<exists>rs. inbox e = inbox ?d @ rs \<and> map rmessage rs = ms \<and> map rsequence rs = [numbered ?d + 1..numbered ?d + int (length ms)]"
    by auto
  then obtain rs where rs: "inbox e = inbox ?d @ rs" "map rmessage rs = ms" "map rsequence rs = [numbered ?d + 1..numbered ?d + int (length ms)]"
    by blast
  let ?x = "\<lparr>rsequence = numbered d + 1, rmessage = m, received_at = iso_now Q\<rparr>"
  have "inbox e = inbox d @ (?x # rs)" "map rmessage (?x # rs) = m # ms"
    "map rsequence (?x # rs) = [numbered d + 1..numbered d + int (length (m # ms))]"
    using rs t i by (simp_all add: upto_rec1 add.assoc)
  then show ?case using ih t i by (auto intro!: exI [of _ "?x # rs"])
qed simp

lemma receive_rows_frame:
  "consumers (snd (receive_rows Q ms d)) = consumers d \<and> daemon_row (snd (receive_rows Q ms d)) = daemon_row d
   \<and> duuid (snd (receive_rows Q ms d)) = duuid d"
proof (induction Q ms d rule: receive_rows.induct)
  case (2 Q m ms d)
  obtain b d1 where 1: "insert_receipt Q m d = (b, d1)" by (cases "insert_receipt Q m d")
  obtain c d2 where 2: "exec_sql d1 = (c, d2)" by (cases "exec_sql d1")
  obtain a d0 where 0: "exec_sql d = (a, d0)" by (cases "exec_sql d")
  have "consumers d1 = consumers d \<and> daemon_row d1 = daemon_row d \<and> duuid d1 = duuid d"
    using 1 0 tables_get(1) [OF 0] by (auto simp: insert_receipt_def same_tables_def dfail_def split: if_splits)
  moreover have "consumers d2 = consumers d1 \<and> daemon_row d2 = daemon_row d1 \<and> duuid d2 = duuid d1"
    using tables_get(1) [OF 2] by (simp add: same_tables_def)
  ultimately show ?case using "2.IH" [OF _ refl _ _] 1 2 by (cases b; cases c) auto
qed simp

lemma receive_body_True:
  assumes "receive_body Q limit d = (Some n, e)" "delivery_ok Q d"
  shows "n = int (min (nat limit) (length (outbox d))) \<and> outbox e = drop (nat n) (outbox d)
    \<and> consumers e = consumers d \<and> daemon_row e = daemon_row d \<and> duuid e = duuid d \<and> numbered e = numbered d + n
    \<and> (\<exists>rs. inbox e = inbox d @ rs \<and> map rmessage rs = take (nat n) (outbox d) \<and> map rsequence rs = [numbered d + 1..numbered d + n])"
proof -
  obtain b d1 where 1: "exec_sql d = (b, d1)" by (cases "exec_sql d")
  let ?rows = "take (nat limit) (outbox d1)"
  obtain c d2 where 2: "receive_rows Q ?rows d1 = (c, d2)" by (cases "receive_rows Q ?rows d1")
  obtain a d3 where 3: "exec_sql d2 = (a, d3)" by (cases "exec_sql d2")
  have ok: "receive_rows Q ?rows d1 = (True, d2)" "n = int (length ?rows)" "e = d3"
    using assms(1) 1 2 3 by (auto simp: receive_body_def Let_def split: if_splits)
  have t1: "same_tables d d1" "same_tables d2 e" using tables_get(1) [OF 1] tables_get(1) [OF 3] ok(3) by simp_all
  have "outbox d1 = ?rows @ drop (nat limit) (outbox d1)" by simp
  moreover have "distinct (map msg_id (sent d1))" using assms(2) t1(1) by (simp add: delivery_ok_def same_tables_def sent_def)
  ultimately have r: "outbox d2 = drop (nat limit) (outbox d1) \<and> consumers d2 = consumers d1 \<and> daemon_row d2 = daemon_row d1
    \<and> duuid d2 = duuid d1 \<and> numbered d2 = numbered d1 + int (length ?rows)
    \<and> (\<exists>rs. inbox d2 = inbox d1 @ rs \<and> map rmessage rs = ?rows \<and> map rsequence rs = [numbered d1 + 1..numbered d1 + int (length ?rows)])"
    by (rule receive_rows_True [OF ok(1)])
  have d1: "outbox d1 = outbox d" "inbox d1 = inbox d" "numbered d1 = numbered d" "consumers d1 = consumers d"
    "daemon_row d1 = daemon_row d" "duuid d1 = duuid d" using t1(1) by (simp_all add: same_tables_def)
  have n: "n = int (min (nat limit) (length (outbox d)))" using ok(2) d1(1) by (simp add: min.commute)
  have "take (nat limit) (outbox d) = take (nat n) (outbox d)" "drop (nat limit) (outbox d) = drop (nat n) (outbox d)"
    unfolding n by (simp_all add: min_def)
  with r ok(2) d1 have "outbox d2 = drop (nat n) (outbox d) \<and> consumers d2 = consumers d \<and> daemon_row d2 = daemon_row d
    \<and> duuid d2 = duuid d \<and> numbered d2 = numbered d + n
    \<and> (\<exists>rs. inbox d2 = inbox d @ rs \<and> map rmessage rs = take (nat n) (outbox d) \<and> map rsequence rs = [numbered d + 1..numbered d + n])"
    by metis
  with t1(2) n show ?thesis unfolding same_tables_def by metis
qed

lemma receive_cases:
  assumes "receive_pending Q limit d = (n, e)" "delivery_ok Q d"
  shows "(n = - 1 \<and> same_tables d e)
    \<or> (1 \<le> limit \<and> n = int (min (nat limit) (length (outbox d))) \<and> outbox e = drop (nat n) (outbox d)
      \<and> consumers e = consumers d \<and> daemon_row e = daemon_row d \<and> duuid e = duuid d \<and> numbered e = numbered d + n
      \<and> (\<exists>rs. inbox e = inbox d @ rs \<and> map rmessage rs = take (nat n) (outbox d) \<and> map rsequence rs = [numbered d + 1..numbered d + n]))"
proof -
  obtain b d1 where 1: "delivery_ready d = (b, d1)" by (cases "delivery_ready d")
  obtain c d2 where 2: "exec_sql d1 = (c, d2)" by (cases "exec_sql d1")
  obtain m d3 where 3: "receive_body Q limit d2 = (m, d3)" by (cases "receive_body Q limit d2")
  have s: "same_tables d d1" "same_tables d d2" "\<And>w. same_tables d (snd (dfail w d1))"
    using tables_get(2) [OF 1] tables_get(1) [OF 2] by (auto intro: tables.trans)
  show ?thesis
  proof (cases "b \<and> \<not> (limit < 1 \<or> limit > 256) \<and> c")
    case False
    then show ?thesis using assms(1) 1 2 s by (auto simp: receive_pending_def Let_def split: if_splits)
  next
    case True
    show ?thesis
    proof (cases m)
      case None
      obtain a0 e0 where e0: "exec_sql d2 = (a0, e0)" by (cases "exec_sql d2")
      obtain a1 e1 where e1: "receive_rows Q (take (nat limit) (outbox e0)) e0 = (a1, e1)" by (cases "receive_rows Q (take (nat limit) (outbox e0)) e0")
      have "same_tables d2 e0" "same_tables e1 (snd (exec_sql e1))" using tables_get(1) [OF e0] by simp_all
      moreover have "consumers e1 = consumers e0 \<and> daemon_row e1 = daemon_row e0 \<and> duuid e1 = duuid e0"
        using receive_rows_frame [of Q "take (nat limit) (outbox e0)" e0] e1 by simp
      ultimately have "consumers d3 = consumers d2 \<and> daemon_row d3 = daemon_row d2 \<and> duuid d3 = duuid d2"
        using 3 e0 e1 None by (auto simp: receive_body_def Let_def same_tables_def split: if_splits prod.splits)
      then have "same_tables d2 (d3\<lparr>outbox := outbox d2, inbox := inbox d2, numbered := numbered d2\<rparr>)" by (simp add: same_tables_def)
      then have "same_tables d (d3\<lparr>outbox := outbox d2, inbox := inbox d2, numbered := numbered d2\<rparr>)" by (rule tables.trans [OF s(2)])
      then show ?thesis using assms(1) 1 2 3 True None by (auto simp: receive_pending_def)
    next
      case (Some k)
      have ok: "delivery_ok Q d2" using tables_ok [OF s(2), of Q] assms(2) by simp
      have "k = n" "d3 = e" using assms(1) 1 2 3 True Some by (simp_all add: receive_pending_def)
      with 3 Some have "receive_body Q limit d2 = (Some n, e)" by simp
      from receive_body_True [OF this ok] s(2) True show ?thesis unfolding same_tables_def by auto
    qed
  qed
qed

lemma receive_sent:
  assumes "receive_pending Q limit d = (n, e)" "delivery_ok Q d"
  shows "sent e = sent d \<and> length (inbox d) \<le> length (inbox e) \<and> delivery_ok Q e"
  using receive_cases [OF assms]
proof
  assume "n = - 1 \<and> same_tables d e"
  then have t: "same_tables d e" by simp
  then show ?thesis using tables_ok [OF t, of Q] assms(2) by (simp add: same_tables_def sent_def)
next
  assume r: "1 \<le> limit \<and> n = int (min (nat limit) (length (outbox d))) \<and> outbox e = drop (nat n) (outbox d)
      \<and> consumers e = consumers d \<and> daemon_row e = daemon_row d \<and> duuid e = duuid d \<and> numbered e = numbered d + n
      \<and> (\<exists>rs. inbox e = inbox d @ rs \<and> map rmessage rs = take (nat n) (outbox d) \<and> map rsequence rs = [numbered d + 1..numbered d + n])"
  then obtain rs where rs: "inbox e = inbox d @ rs" "map rmessage rs = take (nat n) (outbox d)" "map rsequence rs = [numbered d + 1..numbered d + n]"
    by blast
  from r have o: "outbox e = drop (nat n) (outbox d)" and m: "n = int (min (nat limit) (length (outbox d)))" by blast+
  have s: "sent e = sent d" by (simp add: sent_def rs o)
  have l: "int (length rs) = n" using arg_cong [OF rs(2), of length] unfolding m by simp
  have "map rsequence (inbox e) = [1..int (length (inbox d))] @ [int (length (inbox d)) + 1..int (length (inbox d)) + n]"
    using rs(1,3) assms(2) by (simp add: delivery_ok_def)
  also have "\<dots> = [1..int (length (inbox d)) + n]"
    using l upto_split2 [of 1 "int (length (inbox d))" "int (length (inbox d)) + n"] by (cases "inbox d = []") (simp_all add: Suc_le_eq)
  finally have q: "map rsequence (inbox e) = [1..int (length (inbox e))]" using rs l by simp
  have c: "consumers e = consumers d" "duuid e = duuid d" "numbered e = numbered d + n" "0 \<le> n" using r m by (blast, blast, blast, simp)
  have "numbered e = int (length (inbox e))" "numbered d \<le> numbered e"
    using c(3,4) l assms(2) by (auto simp: rs(1) delivery_ok_def)
  moreover have "\<forall>(x, k) \<in> set (consumers e). 0 \<le> k \<and> k \<le> numbered e"
    using calculation(2) c(1) assms(2) unfolding delivery_ok_def by fastforce
  moreover have "distinct (map msg_id (sent e)) \<and> msg_id ` set (sent e) \<subseteq> new_uuid Q ` {..<duuid e} \<and> distinct (map fst (consumers e))"
    unfolding s c(1,2) using assms(2) by (simp add: delivery_ok_def)
  ultimately have "delivery_ok Q e" using q unfolding delivery_ok_def by blast
  then show ?thesis using s rs(1) by simp
qed

section \<open>Pages and acknowledgements\<close>

lemma rows_after:
  assumes "delivery_ok Q d" "0 \<le> k"
  shows "sort_key rsequence (filter (\<lambda>x. rsequence x > k) (inbox d)) = drop (nat k) (inbox d)"
proof -
  have at: "rsequence (inbox d ! i) = int i + 1" if "i < length (inbox d)" for i
  proof -
    have "map rsequence (inbox d) ! i = [1..int (length (inbox d))] ! i" using assms(1) by (simp add: delivery_ok_def)
    then show ?thesis using that by simp
  qed
  let ?a = "take (nat k) (inbox d)" and ?b = "drop (nat k) (inbox d)"
  have "filter (\<lambda>x. rsequence x > k) ?a = []" using assms(2) by (auto simp: filter_empty_conv in_set_conv_nth at)
  moreover have "filter (\<lambda>x. rsequence x > k) ?b = ?b" using assms(2) by (auto simp: filter_id_conv in_set_conv_nth at)
  ultimately have f: "filter (\<lambda>x. rsequence x > k) (inbox d) = ?b"
    using filter_append [of "\<lambda>x. rsequence x > k" ?a ?b] by simp
  have "sorted (map rsequence (inbox d))" using assms(1) by (simp add: delivery_ok_def sorted_upto)
  then have "sorted (map rsequence ?b)" by (simp add: sorted_wrt_drop flip: drop_map)
  then show ?thesis unfolding f by (rule sort_key_id_if_sorted)
qed

lemma last_sequence_eq: "delivery_ok Q d \<Longrightarrow> last_sequence d = int (length (inbox d))"
proof -
  assume ok: "delivery_ok Q d"
  show ?thesis
  proof (cases "inbox d = []")
    case False
    then have "Max (set (map rsequence (inbox d))) = Max {1..int (length (inbox d))}" using ok by (simp add: delivery_ok_def del: set_map)
    also have "\<dots> = int (length (inbox d))" using False by (intro Max_eqI) (auto simp: Suc_le_eq)
    finally show ?thesis using False by (simp add: last_sequence_def)
  qed (simp add: last_sequence_def)
qed

section \<open>A first-in first-out channel\<close>

text \<open>The contract of a durable queue: the messages ever queued only grow at the end, and the number of
  those taken only grows. What was taken stays the same prefix for ever.\<close>

locale fifo =
  fixes step :: "'s \<Rightarrow> 's \<Rightarrow> bool" and inv :: "'s \<Rightarrow> bool" and queued :: "'s \<Rightarrow> 'm list" and taken :: "'s \<Rightarrow> nat"
  assumes keep: "inv s \<Longrightarrow> step s t \<Longrightarrow> inv t"
    and grow: "inv s \<Longrightarrow> step s t \<Longrightarrow> \<exists>ms. queued t = queued s @ ms"
    and forward: "inv s \<Longrightarrow> step s t \<Longrightarrow> taken s \<le> taken t"
    and bound: "inv s \<Longrightarrow> taken s \<le> length (queued s)"
begin

lemma run: "step\<^sup>*\<^sup>* s t \<Longrightarrow> inv s \<Longrightarrow> inv t \<and> (\<exists>ms. queued t = queued s @ ms) \<and> taken s \<le> taken t"
proof (induction rule: rtranclp_induct)
  case (step t u)
  then have t: "inv t" "taken s \<le> taken t" and "\<exists>ms. queued t = queued s @ ms" by auto
  moreover have "inv u" "\<exists>ms. queued u = queued t @ ms" "taken t \<le> taken u"
    using keep grow forward t(1) step.hyps(2) by auto
  ultimately show ?case by fastforce
qed simp

lemma prefix: "step\<^sup>*\<^sup>* s t \<Longrightarrow> inv s \<Longrightarrow> take (taken s) (queued t) = take (taken s) (queued s)"
  using run bound by fastforce

end

section \<open>All runs of the delivery store\<close>

text \<open>A step is a call of any operation, or the world: the directory may change and faults may come.\<close>

inductive delivery_step :: "env \<Rightarrow> delivery \<Rightarrow> delivery \<Rightarrow> bool" for Q where
  start: "delivery_step Q d (snd (open_delivery p d))"
| closing: "delivery_step Q d (close_delivery d)"
| enqueuing: "delivery_step Q d (snd (enqueue Q sender topic body d))"
| receiving: "delivery_step Q d (snd (receive_pending Q limit d))"
| counting: "delivery_step Q d (snd (pending_count d))"
| reading: "delivery_step Q d (snd (read_after n limit d))"
| acknowledging: "delivery_step Q d (snd (acknowledge consumer n d))"
| asking: "delivery_step Q d (snd (acknowledged consumer d))"
| setting: "delivery_step Q d (snd (set_daemon_snapshot Q snap d))"
| getting: "delivery_step Q d (snd (daemon_snapshot Q d))"
| world: "delivery_step Q d (d\<lparr>dplace := p, dfaults := fl\<rparr>)"

definition new_delivery :: "place \<Rightarrow> delivery" where
  "new_delivery p = \<lparr>dplace = p, dopen = False, derror = [], dschema = 0, dwal = False, outbox = [], inbox = [], numbered = 0,
     consumers = [], daemon_row = None, dfaults = [], duuid = 0\<rparr>"

lemma acknowledge_cases:
  assumes "acknowledge consumer n d = (ok, e)"
  shows "if ok then valid_name consumer \<and> 0 \<le> n \<and> n \<le> last_sequence d
      \<and> consumers e = upsert consumer (case map_of (consumers d) consumer of None \<Rightarrow> n | Some k \<Rightarrow> max k n) (consumers d)
      \<and> outbox e = outbox d \<and> inbox e = inbox d \<and> numbered e = numbered d \<and> daemon_row e = daemon_row d \<and> duuid e = duuid d
    else same_tables d e"
proof -
  obtain b d1 where 1: "delivery_ready d = (b, d1)" by (cases "delivery_ready d")
  obtain c d2 where 2: "exec_sql d1 = (c, d2)" by (cases "exec_sql d1")
  obtain a d3 where 3: "exec_sql d2 = (a, d3)" by (cases "exec_sql d2")
  have s: "same_tables d d1" "same_tables d d2" "same_tables d d3"
    using tables_get(2) [OF 1] tables_get(1) [OF 2] tables_get(1) [OF 3] by (auto intro: tables.trans)
  then have "last_sequence d2 = last_sequence d" by (simp add: last_sequence_def same_tables_def)
  with assms 1 2 3 s show ?thesis
    by (auto simp: acknowledge_def Let_def dfail_def same_tables_def split: if_splits)
qed

lemma upsert_bounds:
  "(\<forall>(c, n) \<in> set xs. P n) \<Longrightarrow> P k \<Longrightarrow> \<forall>(c, n) \<in> set (upsert a k xs). P n"
  using set_upsert_subset [of a k xs] by fastforce

lemma acknowledge_ok:
  assumes "delivery_ok Q d"
  shows "delivery_ok Q (snd (acknowledge consumer n d)) \<and> sent (snd (acknowledge consumer n d)) = sent d
    \<and> inbox (snd (acknowledge consumer n d)) = inbox d"
proof -
  obtain ok e where e: "acknowledge consumer n d = (ok, e)" by (cases "acknowledge consumer n d")
  note c = acknowledge_cases [OF e]
  show ?thesis
  proof (cases ok)
    case False
    with c have "same_tables d e" by simp
    then show ?thesis using tables_ok [of d e Q] assms e by (simp add: same_tables_def sent_def)
  next
    case True
    let ?k = "case map_of (consumers d) consumer of None \<Rightarrow> n | Some k \<Rightarrow> max k n"
    from c True have f: "0 \<le> n" "n \<le> last_sequence d" "consumers e = upsert consumer ?k (consumers d)" "outbox e = outbox d"
      "inbox e = inbox d" "numbered e = numbered d" "duuid e = duuid d" by simp_all
    have l: "last_sequence d = numbered d" using last_sequence_eq [OF assms] assms by (simp add: delivery_ok_def)
    have old: "\<forall>(c, k) \<in> set (consumers d). 0 \<le> k \<and> k \<le> numbered d" using assms unfolding delivery_ok_def by blast
    then have "0 \<le> ?k \<and> ?k \<le> numbered d" using f(1,2) l by (auto split: option.splits dest!: map_of_SomeD)
    with old have "\<forall>(c, k) \<in> set (consumers e). 0 \<le> k \<and> k \<le> numbered d" unfolding f(3) by (rule upsert_bounds)
    moreover have "sent e = sent d" by (simp add: sent_def f)
    ultimately show ?thesis using assms f e by (simp add: delivery_ok_def)
  qed
qed

lemma tables_sent: "same_tables d e \<Longrightarrow> sent e = sent d \<and> inbox e = inbox d"
  by (simp add: same_tables_def sent_def)

lemma step_ok:
  assumes "delivery_step Q d e" "inj (new_uuid Q)" "delivery_ok Q d"
  shows "delivery_ok Q e \<and> (\<exists>ms. sent e = sent d @ ms) \<and> length (inbox d) \<le> length (inbox e)"
  using assms
proof cases
  case (enqueuing sender topic body)
  obtain i f where f: "enqueue Q sender topic body d = (i, f)" by (cases "enqueue Q sender topic body d")
  from enqueue_cases [OF f] have "(\<exists>ms. sent e = sent d @ ms) \<and> inbox e = inbox d"
    using enqueuing f by (auto simp: sent_def same_tables_def)
  then show ?thesis using enqueue_ok [OF assms(3,2)] enqueuing by auto
next
  case (receiving limit)
  then show ?thesis using receive_sent [OF prod.collapse [symmetric] assms(3), of limit] by auto
next
  case (acknowledging consumer n)
  then show ?thesis using acknowledge_ok [OF assms(3), of consumer n] by auto
next
  case (setting snap)
  obtain b d1 where 1: "delivery_ready d = (b, d1)" by (cases "delivery_ready d")
  obtain c d2 where 2: "exec_sql d1 = (c, d2)" by (cases "exec_sql d1")
  have "same_tables d d1" "same_tables d d2" using tables_get(2) [OF 1] tables_get(1) [OF 2] by (auto intro: tables.trans)
  then have "outbox e = outbox d \<and> inbox e = inbox d \<and> numbered e = numbered d \<and> consumers e = consumers d \<and> duuid e = duuid d"
    using setting 1 2 by (auto simp: set_daemon_snapshot_def same_tables_def split: if_splits)
  then show ?thesis using assms(3) unfolding delivery_ok_def sent_def by auto
next
  case (start p)
  then have t: "same_tables d e" using tables_open by simp
  then show ?thesis using tables_ok [OF t, of Q] tables_sent [OF t] assms(3) by simp
next
  case closing
  then have t: "same_tables d e" by simp
  then show ?thesis using tables_ok [OF t, of Q] tables_sent [OF t] assms(3) by simp
next
  case counting
  then have t: "same_tables d e" unfolding counting pending_count_def Let_def by (intro tables.call tables.cond) auto
  then show ?thesis using tables_ok [OF t, of Q] tables_sent [OF t] assms(3) by simp
next
  case (reading n limit)
  then have t: "same_tables d e" unfolding reading read_after_def Let_def by (intro tables.call tables.cond) auto
  then show ?thesis using tables_ok [OF t, of Q] tables_sent [OF t] assms(3) by simp
next
  case (asking consumer)
  then have t: "same_tables d e" unfolding asking acknowledged_def Let_def by (intro tables.call tables.cond) auto
  then show ?thesis using tables_ok [OF t, of Q] tables_sent [OF t] assms(3) by simp
next
  case getting
  then have t: "same_tables d e" unfolding getting daemon_snapshot_def Let_def by (intro tables.call tables.cond) auto
  then show ?thesis using tables_ok [OF t, of Q] tables_sent [OF t] assms(3) by simp
next
  case (world p fl)
  then have t: "same_tables d e" by (simp add: same_tables_def)
  then show ?thesis using tables_ok [OF t, of Q] tables_sent [OF t] assms(3) by simp
qed

interpretation channel: fifo "delivery_step Q" "\<lambda>d. inj (new_uuid Q) \<and> delivery_ok Q d" sent "\<lambda>d. length (inbox d)" for Q
  by unfold_locales (use step_ok in \<open>auto simp: sent_def\<close>)

lemma new_delivery_ok: "delivery_ok Q (new_delivery p)"
  by (simp add: delivery_ok_def new_delivery_def sent_def)

section \<open>Properties of the delivery store\<close>

text \<open>C28: messages are delivered once, in order, and never lost. In every run from a new store, with any
  faults, the invariant holds: identifiers are unique across outbox and inbox and the inbox is
  numbered from 1 without gaps; every later state has the same messages in the same order before
  any new ones, and what the inbox already held stays in its place.\<close>

theorem delivery_fifo:
  assumes "inj (new_uuid Q)" "(delivery_step Q)\<^sup>*\<^sup>* (new_delivery p) d" "(delivery_step Q)\<^sup>*\<^sup>* d e"
  shows "delivery_ok Q d \<and> (\<exists>ms. sent e = sent d @ ms)
    \<and> take (length (inbox d)) (map rmessage (inbox e)) = map rmessage (inbox d)"
proof -
  have d: "delivery_ok Q d" using channel.run [OF assms(2)] assms(1) new_delivery_ok by blast
  have "take (length (inbox d)) (sent e) = take (length (inbox d)) (sent d)" "length (inbox d) \<le> length (inbox e)"
    "\<exists>ms. sent e = sent d @ ms"
    using channel.prefix [OF assms(3)] channel.run [OF assms(3)] assms(1) d by blast+
  with d show ?thesis by (simp add: sent_def)
qed

text \<open>C34: receiving is atomic. Either it fails and every table is as before, or the oldest messages of the
  outbox, as many as asked for, are at the end of the inbox in their order with the next numbers,
  and the outbox holds the rest.\<close>

theorem receive_atomic:
  assumes "receive_pending Q limit d = (n, e)" "delivery_ok Q d"
  shows "(n = - 1 \<and> outbox e = outbox d \<and> inbox e = inbox d \<and> consumers e = consumers d)
    \<or> (n = int (min (nat limit) (length (outbox d))) \<and> outbox e = drop (nat n) (outbox d)
       \<and> map rmessage (inbox e) = map rmessage (inbox d) @ take (nat n) (outbox d)
       \<and> map rsequence (inbox e) = [1..int (length (inbox d)) + n] \<and> consumers e = consumers d)"
  using receive_cases [OF assms]
proof
  assume r: "1 \<le> limit \<and> n = int (min (nat limit) (length (outbox d))) \<and> outbox e = drop (nat n) (outbox d)
      \<and> consumers e = consumers d \<and> daemon_row e = daemon_row d \<and> duuid e = duuid d \<and> numbered e = numbered d + n
      \<and> (\<exists>rs. inbox e = inbox d @ rs \<and> map rmessage rs = take (nat n) (outbox d) \<and> map rsequence rs = [numbered d + 1..numbered d + n])"
  have "delivery_ok Q e" "numbered e = numbered d + n" using receive_sent [OF assms] r by blast+
  then have "map rsequence (inbox e) = [1..int (length (inbox d)) + n]" using assms(2) unfolding delivery_ok_def by metis
  with r show ?thesis by auto
qed (simp add: same_tables_def)

text \<open>Pages enumerate the inbox. A page after a position is the next receipts in order; reading on
  from the last number of a page continues exactly behind it.\<close>

theorem pages_complete:
  assumes "read_after k limit d = (page, e)" "page \<noteq> []" "delivery_ok Q d"
  shows "page = take (nat limit) (drop (nat k) (inbox d)) \<and> inbox e = inbox d
    \<and> drop (nat k) (inbox d) = page @ drop (nat (rsequence (last page))) (inbox d)"
proof -
  obtain b d1 where 1: "delivery_ready d = (b, d1)" by (cases "delivery_ready d")
  obtain c d2 where 2: "exec_sql d1 = (c, d2)" by (cases "exec_sql d1")
  have s: "same_tables d d2" using tables_get(2) [OF 1] tables_get(1) [OF 2] by (auto intro: tables.trans)
  then have i: "inbox d2 = inbox d" by (simp add: same_tables_def)
  have "0 \<le> k" "e = d2" "page = take (nat limit) (sort_key rsequence (filter (\<lambda>x. rsequence x > k) (inbox d2)))"
    using assms(1,2) 1 2 by (auto simp: read_after_def split: if_splits)
  then have k: "0 \<le> k" "e = d2" and p: "page = take (nat limit) (drop (nat k) (inbox d))" using rows_after [OF assms(3)] i by simp_all
  let ?n = "nat k + length page"
  have n: "length page \<le> length (inbox d) - nat k" "0 < length page" using p assms(2) by simp_all
  have "last page = take (nat limit) (drop (nat k) (inbox d)) ! (length page - 1)"
    using assms(2) by (simp add: last_conv_nth flip: p)
  also have "\<dots> = inbox d ! (nat k + (length page - 1))"
  proof -
    have "length page \<le> nat limit" using p by simp
    then have "length page - 1 < nat limit" using n(2) by linarith
    moreover have "nat k \<le> length (inbox d)" using n by linarith
    ultimately show ?thesis by (simp only: nth_take nth_drop)
  qed
  finally have "last page = inbox d ! (?n - 1)" using n by simp
  moreover have "map rsequence (inbox d) ! (?n - 1) = [1..int (length (inbox d))] ! (?n - 1)" using assms(3) by (simp add: delivery_ok_def)
  moreover have "[1..int (length (inbox d))] ! (?n - 1) = 1 + int (?n - 1)" by (rule nth_upto) (use n in linarith)
  ultimately have "rsequence (last page) = int ?n" using n by simp
  then have l: "nat (rsequence (last page)) = ?n" by (simp only: nat_int)
  have "drop (length page) (drop (nat k) (inbox d)) = drop ?n (inbox d)" by (simp add: add.commute)
  moreover have "page = take (length page) (drop (nat k) (inbox d))" by (subst (1 2) p) (simp add: min_def)
  ultimately have "drop (nat k) (inbox d) = page @ drop (nat (rsequence (last page))) (inbox d)" unfolding l by (metis append_take_drop_id)
  then show ?thesis using p k i by simp
qed

text \<open>Acknowledgements only move forward. An accepted acknowledgement sets the consumer's position to
  the larger of the old and the given one, never past what was received, and no other consumer's;
  a refused one changes no table.\<close>

theorem acknowledge_forward:
  assumes "acknowledge consumer n d = (ok, e)" "delivery_ok Q d"
  shows "if ok then map_of (consumers e) = (map_of (consumers d))(consumer \<mapsto>
        (case map_of (consumers d) consumer of None \<Rightarrow> n | Some k \<Rightarrow> max k n)) \<and> n \<le> int (length (inbox d))
    else consumers e = consumers d \<and> inbox e = inbox d \<and> outbox e = outbox d"
  using acknowledge_cases [OF assms(1)] last_sequence_eq [OF assms(2)] by (simp add: same_tables_def split: if_splits)

section \<open>Witnesses\<close>

definition sample_place :: place where
  "sample_place = \<lparr>observed_dir = ''/o'', observed_plain = True, dir_existed = True, dir_link = False, root_path = ''/o/delivery'', root_plain = True,
     lock_link = False, late_lock_link = False, lock_free = True, links = False, late_links = False, file_size = 0,
     host = \<lparr>clean_path = (\<lambda>p. p), path_exists = (\<lambda>p. True), canonical = (\<lambda>p. p), manifest_at = (\<lambda>p. False), opened = (\<lambda>p. None),
       below_runtime = (\<lambda>a b. b), relative_to = (\<lambda>a b. b), fs_type = (\<lambda>p. ''ext4'')\<rparr>\<rparr>"

definition sample_peer :: peer where
  "sample_peer = \<lparr>application_id = ''app.a'', application_name = ''A'', application_version = [], instance_id = ''i'', process_id = 1,
     peer_activity = Unknown, started_at = [], last_seen_at = []\<rparr>"

definition sample_delivery :: delivery where
  "sample_delivery = snd (enqueue sample_env sample_peer ''topic'' [] ((new_delivery sample_place)\<lparr>dopen := True\<rparr>))"

lemma sample_inj: "inj (new_uuid sample_env)"
proof (rule injI)
  fix a b assume "new_uuid sample_env a = new_uuid sample_env b"
  then have "nat_str a = nat_str b" by simp
  then show "a = b" by (metis digits_val_nat_str option.inject of_nat_eq_iff)
qed

lemma sample_ready:
  assumes "dopen d" "dplace d = sample_place" "derror d = []"
  shows "delivery_ready d = (True, d)"
proof -
  have "map lower_char ''ext4'' = ''ext4''" by (simp add: lower_char_def)
  moreover have "\<not> list_ex (\<lambda>t. mentions t ''ext4'') remote_types" by (simp add: mentions_def remote_types_def starts_with_def)
  moreover have "starts_with ''/'' ''/o/delivery''" "\<not> starts_with ''//'' ''/o/delivery''" by (simp_all add: starts_with_def)
  ultimately have "validate_directory (host sample_place) (root_path sample_place) = []"
    by (simp add: sample_place_def validate_directory_def Let_def list.pred_set del: list.map)
  moreover have "root_plain sample_place" "\<not> links sample_place" by (simp_all add: sample_place_def)
  ultimately show ?thesis using assms by (simp add: delivery_ready_def)
qed

lemma first_uuid: "nat_str 0 = ''0''"
  by code_simp

lemma sample_exec: "dfaults d = [] \<Longrightarrow> exec_sql d = (True, d)"
  by (simp add: exec_sql_def dpoll_def)

lemma sample_delivery_eq:
  "sample_delivery = (new_delivery sample_place)\<lparr>dopen := True, duuid := 1, outbox := [\<lparr>msg_id = ''u0'', msg_sender = ''{}'',
     msg_topic = ''topic'', msg_payload = ''{}'', queued_at = ''now''\<rparr>]\<rparr>"
proof -
  let ?d = "(new_delivery sample_place)\<lparr>dopen := True\<rparr>"
  have "delivery_ready ?d = (True, ?d)" by (rule sample_ready) (simp_all add: new_delivery_def)
  moreover have "valid_name ''topic''" by (simp add: valid_name_def alphanumeric_def)
  moreover have "exec_sql (?d\<lparr>duuid := n\<rparr>) = (True, ?d\<lparr>duuid := n\<rparr>)" for n by (rule sample_exec) (simp add: new_delivery_def)
  ultimately show ?thesis
    by (simp add: sample_delivery_def enqueue_def Let_def sample_peer_def json_bytes_def) (simp add: new_delivery_def first_uuid)
qed

lemma sample_delivery_ok: "delivery_ok sample_env sample_delivery"
  by (simp add: delivery_ok_def sample_delivery_eq new_delivery_def sent_def) (simp add: first_uuid lessThan_Suc)

lemma sample_received:
  "receive_pending sample_env 1 sample_delivery = (1, sample_delivery\<lparr>outbox := [], numbered := 1, inbox :=
     [\<lparr>rsequence = 1, rmessage = hd (outbox sample_delivery), received_at = ''now''\<rparr>]\<rparr>)"
proof -
  have r: "delivery_ready sample_delivery = (True, sample_delivery)"
    by (rule sample_ready) (simp_all add: sample_delivery_eq new_delivery_def)
  let ?x = "\<lparr>rsequence = 1, rmessage = hd (outbox sample_delivery), received_at = ''now''\<rparr>"
  let ?m = "hd (outbox sample_delivery)"
  let ?d = "sample_delivery\<lparr>numbered := 1, inbox := [?x]\<rparr>"
  have e: "exec_sql sample_delivery = (True, sample_delivery)" "exec_sql ?d = (True, ?d)"
    "exec_sql (?d\<lparr>outbox := []\<rparr>) = (True, ?d\<lparr>outbox := []\<rparr>)"
    by (rule sample_exec, simp add: sample_delivery_eq new_delivery_def)+
  have i: "insert_receipt sample_env ?m sample_delivery = (True, ?d)"
    by (simp add: insert_receipt_def e) (simp add: sample_delivery_eq new_delivery_def)
  have o: "take (Suc 0) (outbox sample_delivery) = [?m]" "filter (\<lambda>x. msg_id x \<noteq> msg_id ?m) (outbox ?d) = []" by (simp_all add: sample_delivery_eq)
  have "receive_rows sample_env [?m] sample_delivery = (True, ?d\<lparr>outbox := []\<rparr>)" using i e(2) o(2) by simp
  with e o(1) have "receive_body sample_env 1 sample_delivery = (Some 1, ?d\<lparr>outbox := []\<rparr>)" by (simp add: receive_body_def Let_def e o(1) del: receive_rows.simps)
  then show ?thesis using r e(1) by (simp add: receive_pending_def)
qed

theorem delivery_fifo_witness:
  "delivery_ok sample_env (new_delivery sample_place)
   \<and> (\<exists>ms. sent (close_delivery (new_delivery sample_place)) = sent (new_delivery sample_place) @ ms)"
  using delivery_fifo [OF sample_inj rtranclp.rtrancl_refl r_into_rtranclp [of "delivery_step sample_env", OF closing]] by blast

theorem receive_atomic_witness:
  "map rmessage (inbox (snd (receive_pending sample_env 1 sample_delivery))) = outbox sample_delivery"
  using receive_atomic [OF sample_received sample_delivery_ok] sample_received by (simp add: sample_delivery_eq new_delivery_def)

definition sample_inbox :: delivery where
  "sample_inbox = snd (receive_pending sample_env 1 sample_delivery)"

lemma sample_inbox_eq: "sample_inbox = (new_delivery sample_place)\<lparr>dopen := True, duuid := 1, outbox := [], numbered := 1,
   inbox := [\<lparr>rsequence = 1, rmessage = hd (outbox sample_delivery), received_at = ''now''\<rparr>]\<rparr>"
  unfolding sample_inbox_def sample_received snd_conv by (simp add: sample_delivery_eq)

lemma sample_inbox_ok: "delivery_ok sample_env sample_inbox"
  using receive_sent [OF sample_received sample_delivery_ok] by (simp only: sample_inbox_def sample_received snd_conv)

lemma sample_inbox_ready: "delivery_ready sample_inbox = (True, sample_inbox)" "exec_sql sample_inbox = (True, sample_inbox)"
  by (rule sample_ready sample_exec; simp add: sample_inbox_eq new_delivery_def)+

theorem pages_complete_witness:
  "\<exists>x. read_after 0 5 sample_inbox = ([x], sample_inbox) \<and> inbox sample_inbox = [x] @ drop (nat (rsequence x)) (inbox sample_inbox)"
proof -
  have "\<exists>x. read_after 0 5 sample_inbox = ([x], sample_inbox)"
    by (simp add: read_after_def sample_inbox_ready) (simp add: sample_inbox_eq)
  then obtain x where x: "read_after 0 5 sample_inbox = ([x], sample_inbox)" by blast
  have "drop (nat 0) (inbox sample_inbox) = [x] @ drop (nat (rsequence (last [x]))) (inbox sample_inbox)"
    using pages_complete [OF x _ sample_inbox_ok] by blast
  then have "inbox sample_inbox = [x] @ drop (nat (rsequence x)) (inbox sample_inbox)" by simp
  with x show ?thesis by blast
qed

theorem acknowledge_forward_witness:
  "map_of (consumers (snd (acknowledge ''c'' 1 sample_inbox))) ''c'' = Some 1"
proof -
  have "valid_name ''c''" by (simp add: valid_name_def alphanumeric_def)
  moreover have "last_sequence sample_inbox = 1" "map_of (consumers sample_inbox) ''c'' = None"
    by (simp_all add: last_sequence_def sample_inbox_eq new_delivery_def)
  ultimately obtain e where e: "acknowledge ''c'' 1 sample_inbox = (True, e)"
    by (simp add: acknowledge_def sample_inbox_ready)
  from acknowledge_forward [OF e sample_inbox_ok] e \<open>map_of (consumers sample_inbox) ''c'' = None\<close> show ?thesis by simp
qed

end
