(* ===== verification/Codec.thy ===== *)
theory Codec
  imports Samples
begin

text \<open>
  Objects as messages (\<open>src/src/Objects/ObjectCodec.cpp\<close>): a value, or a snapshot of a \<open>QObject\<close>, becomes
  an envelope of bounded size and comes back as the same value. Objects live in a store from
  addresses to what their getters answer, so that references may form cycles. The recursions of the
  code count the depth up to a limit; the model counts down from it and recurses on it.
\<close>

section \<open>Values\<close>

datatype variant =
    VInvalid
  | VScalar string string
  | VPointer string
  | VObject "nat option"
  | VMap "(string \<times> variant) list"
  | VHash "(string \<times> variant) list"
  | VList "variant list"
  | VSnapshot string "(string \<times> variant) list"

text \<open>What Qt's type system and the serializers of the types answer. \<open>save\<close> writes a value to a stream,
  \<open>load\<close> reads one of the named type and returns it with the bytes that are left; \<open>None\<close> is an error
  or an exception. \<open>receivable\<close> says that a name is that of a registered, default constructible
  type with stream operators that is no pointer; \<open>stream_version\<close> is the number of \<open>Qt_6_8\<close>.\<close>

record types =
  registered :: "string \<Rightarrow> bool"
  valid_utf16 :: "string \<Rightarrow> bool"
  save_value :: "variant \<Rightarrow> string option"
  load_value :: "string \<Rightarrow> string \<Rightarrow> (variant \<times> string) option"
  receivable :: "string \<Rightarrow> bool"
  stream_version :: int

definition max_payload :: nat where "max_payload = 64 * 1024"
definition max_stream :: nat where "max_stream = 48 * 1024"
definition levels :: nat where "levels = 17"
definition max_nodes :: nat where "max_nodes = 4096"

definition valid_type_name :: "types \<Rightarrow> string \<Rightarrow> bool" where
  "valid_type_name T n \<longleftrightarrow> n \<noteq> [] \<and> length n \<le> 256 \<and> valid_utf16 T n \<and> CHR 0x00 \<notin> set n"

definition snapshot_type :: string where
  "snapshot_type = ''iiSocietyHelper::ObjectSnapshot''"

fun type_name :: "variant \<Rightarrow> string" where
  "type_name VInvalid = []"
| "type_name (VScalar t d) = t"
| "type_name (VPointer t) = t"
| "type_name (VObject a) = ''QObject*''"
| "type_name (VMap m) = ''QVariantMap''"
| "type_name (VHash m) = ''QVariantHash''"
| "type_name (VList l) = ''QVariantList''"
| "type_name (VSnapshot c m) = snapshot_type"

definition null_value :: variant where
  "null_value = VScalar ''std::nullptr_t'' []"

section \<open>Checking\<close>

text \<open>\<open>checkValue\<close>: the first argument is the number of levels left, the result an error or the number
  of nodes counted so far.\<close>

function (sequential) check_value :: "types \<Rightarrow> nat \<Rightarrow> variant \<Rightarrow> nat \<Rightarrow> string + nat"
and check_map :: "types \<Rightarrow> nat \<Rightarrow> (string \<times> variant) list \<Rightarrow> nat \<Rightarrow> string + nat"
and check_list :: "types \<Rightarrow> nat \<Rightarrow> variant list \<Rightarrow> nat \<Rightarrow> string + nat" where
  "check_value T 0 v nodes = Inl ''limit''"
| "check_value T (Suc left) v nodes =
     (if Suc nodes > max_nodes then Inl ''limit''
      else case v of
        VInvalid \<Rightarrow> Inr (Suc nodes)
      | VPointer t \<Rightarrow> Inl ''pointer''
      | VObject a \<Rightarrow> Inl ''pointer''
      | VScalar t d \<Rightarrow> if registered T t then Inr (Suc nodes) else Inl ''operators''
      | VSnapshot c m \<Rightarrow> if valid_type_name T c then check_value T left (VMap m) (Suc nodes) else Inl ''class''
      | VMap m \<Rightarrow> check_map T left m (Suc nodes)
      | VHash m \<Rightarrow> check_map T left m (Suc nodes)
      | VList l \<Rightarrow> check_list T left l (Suc nodes))"
| "check_map T left [] nodes = Inr nodes"
| "check_map T left ((k, v) # m) nodes =
     (if \<not> valid_utf16 T k then Inl ''name''
      else case check_value T left v nodes of Inl e \<Rightarrow> Inl e | Inr n \<Rightarrow> check_map T left m n)"
| "check_list T left [] nodes = Inr nodes"
| "check_list T left (v # l) nodes =
     (case check_value T left v nodes of Inl e \<Rightarrow> Inl e | Inr n \<Rightarrow> check_list T left l n)"
  by pat_completeness auto
termination
  by (relation "measures [\<lambda>x. case x of Inl (T, left, v, n) \<Rightarrow> left | Inr (Inl (T, left, m, n)) \<Rightarrow> left | Inr (Inr (T, left, l, n)) \<Rightarrow> left,
      \<lambda>x. case x of Inl (T, left, v, n) \<Rightarrow> 0 | Inr (Inl (T, left, m, n)) \<Rightarrow> Suc (length m) | Inr (Inr (T, left, l, n)) \<Rightarrow> Suc (length l)]") auto

section \<open>Snapshots of objects\<close>

text \<open>A property with its value, invalid when it cannot be read; a getter may destroy the object.\<close>

record property =
  pname :: string
  readable :: bool
  stored_property :: bool
  pvalue :: variant
  destroys :: bool

text \<open>How an object shows its values: by its const \<open>toVariantMap\<close>, or by its properties.\<close>

datatype contract = Values "(string \<times> variant) list option" bool | Properties "property list"

record qobject =
  oclass :: string
  own_thread :: bool
  ocontract :: contract

text \<open>The maps of properties are sorted by name, as \<open>QMap\<close> keeps them.\<close>

fun insert_entry :: "string \<Rightarrow> variant \<Rightarrow> (string \<times> variant) list \<Rightarrow> (string \<times> variant) list" where
  "insert_entry k v [] = [(k, v)]"
| "insert_entry k v ((a, b) # m) = (if a < k then (a, b) # insert_entry k v m else (k, v) # (a, b) # m)"

type_synonym objects = "nat \<Rightarrow> qobject"

function (sequential) capture_value :: "objects \<Rightarrow> nat list \<Rightarrow> nat \<Rightarrow> variant \<Rightarrow> nat \<Rightarrow> (string + variant) \<times> nat"
and capture_map :: "objects \<Rightarrow> nat list \<Rightarrow> nat \<Rightarrow> (string \<times> variant) list \<Rightarrow> nat \<Rightarrow> (string + (string \<times> variant) list) \<times> nat"
and capture_list :: "objects \<Rightarrow> nat list \<Rightarrow> nat \<Rightarrow> variant list \<Rightarrow> nat \<Rightarrow> (string + variant list) \<times> nat"
and capture_properties :: "objects \<Rightarrow> nat list \<Rightarrow> nat \<Rightarrow> property list \<Rightarrow> nat \<Rightarrow> (string + (string \<times> variant) list) \<times> nat"
and capture_object :: "objects \<Rightarrow> nat list \<Rightarrow> nat \<Rightarrow> nat \<Rightarrow> nat \<Rightarrow> (string + variant) \<times> nat" where
  "capture_value H active 0 v nodes = (Inl ''limit'', nodes)"
| "capture_value H active (Suc left) v nodes =
     (if Suc nodes > max_nodes then (Inl ''limit'', Suc nodes)
      else case v of
        VObject None \<Rightarrow> (Inr null_value, Suc nodes)
      | VObject (Some a) \<Rightarrow> capture_object H active left a (Suc nodes)
      | VMap m \<Rightarrow> (case capture_map H active left m (Suc nodes) of (Inl e, n) \<Rightarrow> (Inl e, n) | (Inr r, n) \<Rightarrow> (Inr (VMap r), n))
      | VHash m \<Rightarrow> (case capture_map H active left m (Suc nodes) of (Inl e, n) \<Rightarrow> (Inl e, n) | (Inr r, n) \<Rightarrow> (Inr (VHash r), n))
      | VList l \<Rightarrow> (case capture_list H active left l (Suc nodes) of (Inl e, n) \<Rightarrow> (Inl e, n) | (Inr r, n) \<Rightarrow> (Inr (VList r), n))
      | v \<Rightarrow> (Inr v, Suc nodes))"
| "capture_map H active left [] nodes = (Inr [], nodes)"
| "capture_map H active left ((k, v) # m) nodes =
     (case capture_value H active left v nodes of
        (Inl e, n) \<Rightarrow> (Inl e, n)
      | (Inr r, n) \<Rightarrow> (case capture_map H active left m n of (Inl e, n) \<Rightarrow> (Inl e, n) | (Inr rs, n) \<Rightarrow> (Inr ((k, r) # rs), n)))"
| "capture_list H active left [] nodes = (Inr [], nodes)"
| "capture_list H active left (v # l) nodes =
     (case capture_value H active left v nodes of
        (Inl e, n) \<Rightarrow> (Inl e, n)
      | (Inr r, n) \<Rightarrow> (case capture_list H active left l n of (Inl e, n) \<Rightarrow> (Inl e, n) | (Inr rs, n) \<Rightarrow> (Inr (r # rs), n)))"
| "capture_properties H active left [] nodes = (Inr [], nodes)"
| "capture_properties H active left (p # ps) nodes =
     (if \<not> readable p \<or> \<not> stored_property p then capture_properties H active left ps nodes
      else if destroys p then (Inl ''destroyed'', nodes)
      else if pvalue p = VInvalid then (Inl ''property'', nodes)
      else case capture_value H active left (pvalue p) nodes of
        (Inl e, n) \<Rightarrow> (Inl e, n)
      | (Inr r, n) \<Rightarrow> (case capture_properties H active left ps n of (Inl e, n) \<Rightarrow> (Inl e, n) | (Inr rs, n) \<Rightarrow> (Inr (if pname p \<in> fst ` set rs then rs else insert_entry (pname p) r rs), n)))"
| "capture_object H active 0 a nodes = (Inl (if own_thread (H a) then ''limit'' else ''thread''), nodes)"
| "capture_object H active (Suc left) a nodes =
     (if \<not> own_thread (H a) then (Inl ''thread'', nodes)
      else if Suc nodes > max_nodes then (Inl ''limit'', Suc nodes)
      else if a \<in> set active then (Inl ''cycle'', Suc nodes)
      else case ocontract (H a) of
        Values None d \<Rightarrow> (Inl ''contract'', Suc nodes)
      | Values (Some m) d \<Rightarrow>
          (if d then (Inl ''destroyed'', Suc nodes)
           else case capture_value H (a # active) left (VMap m) (Suc nodes) of
             (Inl e, n) \<Rightarrow> (Inl e, n)
           | (Inr (VMap r), n) \<Rightarrow> (Inr (VSnapshot (oclass (H a)) r), n)
           | (Inr r, n) \<Rightarrow> (Inr (VSnapshot (oclass (H a)) []), n))
      | Properties ps \<Rightarrow>
          (case capture_properties H (a # active) left ps (Suc nodes) of
             (Inl e, n) \<Rightarrow> (Inl e, n)
           | (Inr r, n) \<Rightarrow> (Inr (VSnapshot (oclass (H a)) r), n)))"
  by pat_completeness auto
termination
  by (relation "measures [\<lambda>x. case x of Inl (Inl (H, active, left, v, n)) \<Rightarrow> left | Inl (Inr (H, active, left, m, n)) \<Rightarrow> left
        | Inr (Inl (H, active, left, l, n)) \<Rightarrow> left | Inr (Inr (Inl (H, active, left, ps, n))) \<Rightarrow> left | Inr (Inr (Inr (H, active, left, a, n))) \<Rightarrow> left,
      \<lambda>x. case x of Inl (Inl (H, active, left, v, n)) \<Rightarrow> 0 | Inl (Inr (H, active, left, m, n)) \<Rightarrow> Suc (length m)
        | Inr (Inl (H, active, left, l, n)) \<Rightarrow> Suc (length l) | Inr (Inr (Inl (H, active, left, ps, n))) \<Rightarrow> Suc (length ps)
        | Inr (Inr (Inr (H, active, left, a, n))) \<Rightarrow> 0]") auto

section \<open>Envelopes\<close>

definition envelope :: "env \<Rightarrow> types \<Rightarrow> string \<Rightarrow> string \<Rightarrow> jobj" where
  "envelope Q T name bytes = obj [(''format'', JStr ''iisacc.qt-object''), (''version'', JNum 1), (''streamVersion'', JNum (stream_version T)),
     (''typeName'', JStr name), (''data'', JStr (b64 Q bytes))]"

definition encode_value :: "env \<Rightarrow> types \<Rightarrow> variant \<Rightarrow> string + jobj" where
  "encode_value Q T v =
     (if v = VInvalid then Inl ''invalid''
      else case check_value T levels v 0 of
        Inl e \<Rightarrow> Inl e
      | Inr n \<Rightarrow>
          (if \<not> valid_type_name T (type_name v) then Inl ''type''
           else case save_value T v of
             None \<Rightarrow> Inl ''serializer''
           | Some bytes \<Rightarrow>
               if length bytes > max_stream then Inl ''serializer''
               else if length (json_bytes Q (envelope Q T (type_name v) bytes)) > max_payload then Inl ''size''
               else Inr (envelope Q T (type_name v) bytes)))"

definition encode_object :: "env \<Rightarrow> types \<Rightarrow> objects \<Rightarrow> nat option \<Rightarrow> string + jobj" where
  "encode_object Q T H a =
     (case a of
        None \<Rightarrow> Inl ''null''
      | Some a \<Rightarrow> (case fst (capture_object H [] levels a 0) of Inl e \<Rightarrow> Inl e | Inr v \<Rightarrow> encode_value Q T v))"

definition decode_value :: "env \<Rightarrow> types \<Rightarrow> jobj \<Rightarrow> string + variant" where
  "decode_value Q T p =
     (if length p \<noteq> 5 \<or> oget ''format'' p \<noteq> JStr ''iisacc.qt-object'' \<or> \<not> is_str (oget ''typeName'' p) \<or> \<not> is_str (oget ''data'' p)
         \<or> length (jstr (oget ''data'' p)) > max_payload then Inl ''envelope''
      else if oget ''version'' p \<noteq> JNum 1 \<or> oget ''streamVersion'' p \<noteq> JNum (stream_version T) \<or> length (json_bytes Q p) > max_payload
      then Inl ''version''
      else let name = jstr (oget ''typeName'' p) in
      if \<not> valid_type_name T name then Inl ''type''
      else if \<not> receivable T name then Inl ''register''
      else case unb64 Q (jstr (oget ''data'' p)) of
        None \<Rightarrow> Inl ''base64''
      | Some bytes \<Rightarrow>
          (if length bytes > max_stream \<or> b64 Q bytes \<noteq> jstr (oget ''data'' p) then Inl ''base64''
           else case load_value T name bytes of
             None \<Rightarrow> Inl ''stream''
           | Some (v, rest) \<Rightarrow>
               if rest \<noteq> [] then Inl ''stream''
               else (case check_value T levels v 0 of Inl e \<Rightarrow> Inl e | Inr n \<Rightarrow> Inr v)))"

section \<open>What is captured\<close>

text \<open>The objects a value refers to, outside the snapshots it already holds, and the objects an object refers to.\<close>

inductive holds :: "variant \<Rightarrow> nat \<Rightarrow> bool" where
  itself: "holds (VObject (Some a)) a"
| in_map: "(k, x) \<in> set m \<Longrightarrow> holds x a \<Longrightarrow> holds (VMap m) a"
| in_hash: "(k, x) \<in> set m \<Longrightarrow> holds x a \<Longrightarrow> holds (VHash m) a"
| in_list: "x \<in> set l \<Longrightarrow> holds x a \<Longrightarrow> holds (VList l) a"

inductive_cases holds_object: "holds (VObject p) a"
inductive_cases holds_map: "holds (VMap m) a"
inductive_cases holds_hash: "holds (VHash m) a"
inductive_cases holds_list: "holds (VList l) a"

inductive refers :: "objects \<Rightarrow> nat \<Rightarrow> nat \<Rightarrow> bool" for H where
  by_values: "ocontract (H a) = Values (Some m) d \<Longrightarrow> holds (VMap m) b \<Longrightarrow> refers H a b"
| by_property: "ocontract (H a) = Properties ps \<Longrightarrow> p \<in> set ps \<Longrightarrow> readable p \<Longrightarrow> stored_property p \<Longrightarrow> holds (pvalue p) b \<Longrightarrow> refers H a b"

inductive_cases refers_cases: "refers H a b"

definition captured :: "objects \<Rightarrow> nat list \<Rightarrow> nat \<Rightarrow> bool" where
  "captured H active b \<longleftrightarrow> (\<exists>left n v n'. capture_object H active left b n = (Inr v, n'))"

lemma capture_refs:
  "capture_value H active left v nodes = (Inr r, n) \<Longrightarrow> (\<forall>b. holds v b \<longrightarrow> captured H active b) \<and> (nodes \<le> max_nodes \<longrightarrow> n \<le> max_nodes)"
  "capture_map H active left m nodes = (Inr rm, n) \<Longrightarrow> (\<forall>(k, x)\<in>set m. \<forall>b. holds x b \<longrightarrow> captured H active b) \<and> (nodes \<le> max_nodes \<longrightarrow> n \<le> max_nodes)"
  "capture_list H active left l nodes = (Inr rl, n) \<Longrightarrow> (\<forall>x\<in>set l. \<forall>b. holds x b \<longrightarrow> captured H active b) \<and> (nodes \<le> max_nodes \<longrightarrow> n \<le> max_nodes)"
  "capture_properties H active left ps nodes = (Inr rp, n) \<Longrightarrow>
     (\<forall>p\<in>set ps. readable p \<longrightarrow> stored_property p \<longrightarrow> (\<forall>b. holds (pvalue p) b \<longrightarrow> captured H active b)) \<and> (nodes \<le> max_nodes \<longrightarrow> n \<le> max_nodes)"
  "capture_object H active left a nodes = (Inr ro, n) \<Longrightarrow> a \<notin> set active \<and> (\<forall>b. refers H a b \<longrightarrow> captured H (a # active) b) \<and> n \<le> max_nodes"
proof (induction H active left v nodes and H active left m nodes and H active left l nodes and H active left ps nodes and H active left a nodes
    arbitrary: r n and rm n and rl n and rp n and ro n rule: capture_value_capture_map_capture_list_capture_properties_capture_object.induct)
  case (2 H active left v nodes)
  have limit: "\<not> max_nodes < Suc nodes" using 2(5) by (simp split: if_splits)
  show ?case
  proof (cases v)
    case (VObject a)
    show ?thesis
    proof (cases a)
      case None
      then show ?thesis using 2(5) limit VObject by (auto elim: holds_object)
    next
      case (Some x)
      have c: "capture_object H active left x (Suc nodes) = (Inr r, n)" using 2(5) limit VObject Some by simp
      then have "captured H active x" unfolding captured_def by blast
      with 2(1)[OF limit VObject Some c] show ?thesis using VObject Some by (auto elim: holds_object)
    qed
  next
    case (VMap m)
    obtain r' where r': "capture_map H active left m (Suc nodes) = (Inr r', n)" "r = VMap r'"
      using 2(5) limit VMap by (auto split: prod.splits sum.splits)
    from 2(2)[OF limit VMap r'(1)] limit VMap show ?thesis by (force elim: holds_map)
  next
    case (VHash m)
    obtain r' where r': "capture_map H active left m (Suc nodes) = (Inr r', n)" "r = VHash r'"
      using 2(5) limit VHash by (auto split: prod.splits sum.splits)
    from 2(3)[OF limit VHash r'(1)] limit VHash show ?thesis by (force elim: holds_hash)
  next
    case (VList l)
    obtain r' where r': "capture_list H active left l (Suc nodes) = (Inr r', n)" "r = VList r'"
      using 2(5) limit VList by (auto split: prod.splits sum.splits)
    from 2(4)[OF limit VList r'(1)] limit VList show ?thesis by (force elim: holds_list)
  qed (use 2(5) limit in \<open>auto elim: holds.cases\<close>)
next
  case (4 H active left k v m nodes)
  obtain r n' r' where r: "capture_value H active left v nodes = (Inr r, n')" "capture_map H active left m n' = (Inr r', n)"
    using 4(3) by (auto split: prod.splits sum.splits)
  from 4(1)[OF r(1)] 4(2)[OF r(1)[symmetric] refl r(2)] show ?case by auto
next
  case (6 H active left v l nodes)
  obtain r n' r' where r: "capture_value H active left v nodes = (Inr r, n')" "capture_list H active left l n' = (Inr r', n)"
    using 6(3) by (auto split: prod.splits sum.splits)
  from 6(1)[OF r(1)] 6(2)[OF r(1)[symmetric] refl r(2)] show ?case by auto
next
  case (8 H active left p ps nodes)
  show ?case
  proof (cases "\<not> readable p \<or> \<not> stored_property p")
    case True
    with 8(4) have "capture_properties H active left ps nodes = (Inr rp, n)" by simp
    from 8(1)[OF True this] True show ?thesis by auto
  next
    case False
    have d: "\<not> destroys p" "pvalue p \<noteq> VInvalid" using 8(4) False by (auto split: if_splits)
    obtain r n' r' where r: "capture_value H active left (pvalue p) nodes = (Inr r, n')" "capture_properties H active left ps n' = (Inr r', n)"
      using 8(4) False d by (auto split: prod.splits sum.splits)
    from 8(2)[OF False d r(1)] 8(3)[OF False d r(1)[symmetric] refl r(2)] show ?thesis by auto
  qed
next
  case (10 H active left a nodes)
  have c: "\<not> \<not> own_thread (H a)" "\<not> max_nodes < Suc nodes" "a \<notin> set active" using 10(3) by (auto split: if_splits)
  show ?case
  proof (cases "ocontract (H a)")
    case (Values m d)
    then obtain m' where m: "m = Some m'" "\<not> d" using 10(3) c by (cases m) (auto split: if_splits)
    obtain r n' where r: "capture_value H (a # active) left (VMap m') (Suc nodes) = (Inr r, n')"
      using 10(3) c Values m by (auto split: prod.splits sum.splits)
    have "n = n'" using 10(3) c Values m r by (auto split: variant.splits)
    with 10(1)[OF c Values m r] c Values m show ?thesis by (auto elim: refers_cases)
  next
    case (Properties ps)
    obtain r where r: "capture_properties H (a # active) left ps (Suc nodes) = (Inr r, n)"
      using 10(3) c Properties by (auto split: prod.splits sum.splits)
    from 10(2)[OF c Properties r] c Properties show ?thesis by (auto elim!: refers_cases)
  qed
qed auto

lemma captured_refers:
  assumes "captured H active a" "refers H a b"
  shows "captured H (a # active) b"
  using assms capture_refs(5) unfolding captured_def by blast

lemma captured_reaches:
  assumes "(refers H)\<^sup>+\<^sup>+ a b" "captured H active a"
  shows "\<exists>active'. set active \<subseteq> set active' \<and> a \<in> set active' \<and> captured H active' b"
  using assms(1)
proof (induction rule: tranclp_induct)
  case (base b)
  then show ?case using captured_refers [OF assms(2)] by (metis list.set_intros(1) set_subset_Cons)
next
  case (step b c)
  then show ?case using captured_refers by (metis list.set_intros(2) set_subset_Cons subset_trans)
qed

lemma captured_acyclic:
  assumes "captured H active a"
  shows "\<not> (refers H)\<^sup>+\<^sup>+ a a"
  using captured_reaches [OF _ assms] capture_refs(5) unfolding captured_def by metis

text \<open>C38: A snapshot of an object is taken only when no object reachable from it through the values it shows
  refers back to itself, directly or through others, and it counts at most 4096 nodes: the capture ends on
  every graph of objects, and a cycle anywhere below the object is an error.\<close>

theorem capture_acyclic:
  assumes "capture_object H [] levels a 0 = (Inr v, n)" and "(refers H)\<^sup>*\<^sup>* a b"
  shows "\<not> (refers H)\<^sup>+\<^sup>+ b b \<and> n \<le> max_nodes"
proof
  have a: "captured H [] a" using assms(1) unfolding captured_def by blast
  have "\<exists>active. captured H active b"
    using assms(2) a captured_reaches [OF _ a] by (metis rtranclpD)
  then show "\<not> (refers H)\<^sup>+\<^sup>+ b b" using captured_acyclic by blast
  show "n \<le> max_nodes" using capture_refs(5) [OF assms(1)] by blast
qed

section \<open>What is sent and received\<close>

text \<open>The values of at most so many levels that the codec transfers, and the nodes of a value.\<close>

primrec transferable :: "types \<Rightarrow> nat \<Rightarrow> variant \<Rightarrow> bool" where
  "transferable T 0 v = False"
| "transferable T (Suc left) v = (case v of
     VInvalid \<Rightarrow> True
   | VScalar t d \<Rightarrow> registered T t
   | VPointer t \<Rightarrow> False
   | VObject a \<Rightarrow> False
   | VMap m \<Rightarrow> (\<forall>(k, x)\<in>set m. valid_utf16 T k \<and> transferable T left x)
   | VHash m \<Rightarrow> (\<forall>(k, x)\<in>set m. valid_utf16 T k \<and> transferable T left x)
   | VList l \<Rightarrow> (\<forall>x\<in>set l. transferable T left x)
   | VSnapshot c m \<Rightarrow> valid_type_name T c \<and> transferable T left (VMap m))"

primrec nodes_of :: "variant \<Rightarrow> nat" where
  "nodes_of VInvalid = 1"
| "nodes_of (VScalar t d) = 1"
| "nodes_of (VPointer t) = 1"
| "nodes_of (VObject a) = 1"
| "nodes_of (VMap m) = Suc (sum_list (map snd (map (map_prod id nodes_of) m)))"
| "nodes_of (VHash m) = Suc (sum_list (map snd (map (map_prod id nodes_of) m)))"
| "nodes_of (VList l) = Suc (sum_list (map nodes_of l))"
| "nodes_of (VSnapshot c m) = Suc (Suc (sum_list (map snd (map (map_prod id nodes_of) m))))"

lemma check_spec:
  "n \<le> max_nodes \<Longrightarrow> check_value T left v n = Inr n' \<longleftrightarrow> transferable T left v \<and> n' = n + nodes_of v \<and> n' \<le> max_nodes"
  "n \<le> max_nodes \<Longrightarrow> check_map T left m n = Inr n' \<longleftrightarrow> (\<forall>(k, x)\<in>set m. valid_utf16 T k \<and> transferable T left x)
     \<and> n' = n + sum_list (map snd (map (map_prod id nodes_of) m)) \<and> n' \<le> max_nodes"
  "n \<le> max_nodes \<Longrightarrow> check_list T left l n = Inr n' \<longleftrightarrow> (\<forall>x\<in>set l. transferable T left x) \<and> n' = n + sum_list (map nodes_of l) \<and> n' \<le> max_nodes"
proof (induction T left v n and T left m n and T left l n arbitrary: n' and n' and n' rule: check_value_check_map_check_list.induct)
  case (2 T left v n)
  show ?case
  proof (cases "max_nodes < Suc n")
    case False
    with 2 show ?thesis by (cases v) auto
  qed (use 2(5) in \<open>auto split: variant.splits\<close>)
next
  case (4 T left k v m n)
  show ?case
  proof (cases "check_value T left v n")
    case (Inl e)
    have "\<not> (valid_utf16 T k \<and> transferable T left v \<and> n + nodes_of v \<le> max_nodes)"
      using 4(1)[of "n + nodes_of v"] 4(3) Inl by auto
    with Inl show ?thesis by auto
  next
    case (Inr n1)
    show ?thesis
    proof (cases "valid_utf16 T k")
      case True
      have v: "transferable T left v" "n1 = n + nodes_of v" "n1 \<le> max_nodes" using 4(1)[of n1] True 4(3) Inr by auto
      have "check_map T left m n1 = Inr n' \<longleftrightarrow> (\<forall>(k, x)\<in>set m. valid_utf16 T k \<and> transferable T left x)
        \<and> n' = n1 + sum_list (map snd (map (map_prod id nodes_of) m)) \<and> n' \<le> max_nodes"
        using 4(2)[of n1 n'] True Inr v(3) by blast
      with v True Inr show ?thesis by auto
    qed auto
  qed
next
  case (6 T left v l n)
  show ?case
  proof (cases "check_value T left v n")
    case (Inl e)
    have "\<not> (transferable T left v \<and> n + nodes_of v \<le> max_nodes)" using 6(1)[of "n + nodes_of v"] 6(3) Inl by auto
    with Inl show ?thesis by auto
  next
    case (Inr n1)
    have v: "transferable T left v" "n1 = n + nodes_of v" "n1 \<le> max_nodes" using 6(1)[of n1] 6(3) Inr by auto
    have "check_list T left l n1 = Inr n' \<longleftrightarrow> (\<forall>x\<in>set l. transferable T left x) \<and> n' = n1 + sum_list (map nodes_of l) \<and> n' \<le> max_nodes"
      using 6(2)[of n1 n'] Inr v(3) by blast
    with v Inr show ?thesis by auto
  qed
qed auto


text \<open>C40: Whatever bytes arrive, a value that is decoded is one the sender could have encoded: its type is
  registered for reception, the value contains no pointer and no object without stream operators, it is nested at most sixteen deep and has
  at most 4096 nodes; and the envelope took at most 64 KiB.\<close>

theorem decoded_bounded:
  assumes "decode_value Q T p = Inr v"
  shows "receivable T (jstr (oget ''typeName'' p)) \<and> transferable T levels v \<and> nodes_of v \<le> 4096 \<and> length (json_bytes Q p) \<le> 65536"
proof -
  obtain n where "check_value T levels v 0 = Inr n"
    and p: "receivable T (jstr (oget ''typeName'' p))" "length (json_bytes Q p) \<le> max_payload"
    using assms unfolding decode_value_def Let_def by (auto split: if_splits option.splits sum.splits)
  with check_spec(1)[of 0 T levels v n] have "transferable T levels v" "nodes_of v \<le> max_nodes" by auto
  with p show ?thesis by (simp add: max_nodes_def max_payload_def)
qed

lemma envelope_get:
  "oget ''format'' (envelope Q T name bytes) = JStr ''iisacc.qt-object''" "oget ''version'' (envelope Q T name bytes) = JNum 1"
  "oget ''streamVersion'' (envelope Q T name bytes) = JNum (stream_version T)" "oget ''typeName'' (envelope Q T name bytes) = JStr name"
  "oget ''data'' (envelope Q T name bytes) = JStr (b64 Q bytes)" "length (envelope Q T name bytes) = 5"
  by (simp_all add: envelope_def oget_obj) (simp add: obj_def oput_def)

text \<open>C39: A value survives the trip: what encoding accepts, decoding on a side that knows the type returns
  unchanged, given that the type's own stream operators read back what they wrote and that Base64 is a
  code of four characters for three bytes.\<close>

theorem codec_roundtrip:
  assumes "encode_value Q T v = Inr p"
    and "receivable T (type_name v)"
    and "save_value T v = Some bytes" "load_value T (type_name v) bytes = Some (v, [])"
    and "unb64 Q (b64 Q bytes) = Some bytes" "length (b64 Q bytes) = 4 * ((length bytes + 2) div 3)"
  shows "decode_value Q T p = Inr v"
proof -
  obtain n where c: "check_value T levels v 0 = Inr n" and t: "valid_type_name T (type_name v)"
    and b: "length bytes \<le> max_stream" "length (json_bytes Q (envelope Q T (type_name v) bytes)) \<le> max_payload"
    and p: "p = envelope Q T (type_name v) bytes"
    using assms(1,3) unfolding encode_value_def by (auto split: if_splits sum.splits)
  have "length (b64 Q bytes) \<le> max_payload" using b(1) assms(6) by (simp add: max_stream_def max_payload_def)
  with assms c t b show ?thesis unfolding p decode_value_def by (simp add: envelope_get Let_def)
qed

section \<open>Concrete values\<close>

definition sample_types :: types where
  "sample_types = \<lparr>registered = (\<lambda>t. True), valid_utf16 = (\<lambda>s. True), save_value = (\<lambda>v. Some ''abc''),
     load_value = (\<lambda>t s. Some (VList [VScalar ''int'' ''1''], [])), receivable = (\<lambda>t. True), stream_version = 22\<rparr>"

definition sample_code :: env where
  "sample_code = sample_env\<lparr>b64 := \<lambda>s. ''YWJj'', unb64 := \<lambda>s. Some ''abc''\<rparr>"

lemma levels_eq: "levels = Suc (Suc (Suc (Suc 13)))"
  by (simp add: levels_def)

lemma sample_types_simps:
  "registered sample_types t" "valid_utf16 sample_types s" "save_value sample_types v = Some ''abc''"
  "load_value sample_types t s = Some (VList [VScalar ''int'' ''1''], [])" "receivable sample_types t" "length (json_bytes sample_code j) = 2"
  "b64 sample_code s = ''YWJj''" "unb64 sample_code s = Some ''abc''"
  by (simp_all add: sample_types_def sample_code_def json_bytes_def)

lemma sample_checked: "check_value sample_types levels (VList [VScalar ''int'' ''1'']) 0 = Inr 2"
proof -
  have "check_value sample_types (Suc (Suc left)) (VList [VScalar ''int'' ''1'']) 0 = Inr 2" for left
    by (simp add: max_nodes_def sample_types_simps)
  then show ?thesis unfolding levels_eq .
qed

lemma sample_encoded:
  "encode_value sample_code sample_types (VList [VScalar ''int'' ''1'']) = Inr (envelope sample_code sample_types ''QVariantList'' ''abc'')"
  unfolding encode_value_def sample_checked
  by (simp add: valid_type_name_def max_stream_def max_payload_def sample_types_simps)

theorem codec_roundtrip_witness:
  "\<exists>p. encode_value sample_code sample_types (VList [VScalar ''int'' ''1'']) = Inr p \<and> decode_value sample_code sample_types p = Inr (VList [VScalar ''int'' ''1''])"
  using sample_encoded codec_roundtrip [OF sample_encoded, of "''abc''"] by (simp add: sample_types_simps)

theorem decoded_bounded_witness:
  "transferable sample_types levels (VList [VScalar ''int'' ''1''])"
proof -
  have "decode_value sample_code sample_types (envelope sample_code sample_types ''QVariantList'' ''abc'') = Inr (VList [VScalar ''int'' ''1''])"
    unfolding decode_value_def Let_def
    by (simp add: envelope_get sample_checked valid_type_name_def max_stream_def max_payload_def sample_types_simps)
  from decoded_bounded [OF this] show ?thesis by blast
qed

definition sample_objects :: objects where
  "sample_objects a = \<lparr>oclass = ''Root'', own_thread = True,
     ocontract = (if a = 0 then Properties [\<lparr>pname = ''child'', readable = True, stored_property = True, pvalue = VObject (Some 1), destroys = False\<rparr>]
       else Properties [])\<rparr>"

theorem capture_acyclic_witness:
  "\<not> (refers sample_objects)\<^sup>+\<^sup>+ 1 1"
proof -
  have "capture_object sample_objects [] (Suc (Suc (Suc left))) 0 0 = (Inr (VSnapshot ''Root'' [(''child'', VSnapshot ''Root'' [])]), 3)" for left
    by (simp add: sample_objects_def max_nodes_def)
  then have "capture_object sample_objects [] levels 0 0 = (Inr (VSnapshot ''Root'' [(''child'', VSnapshot ''Root'' [])]), 3)"
    unfolding levels_eq .
  moreover have "refers sample_objects 0 1"
    by (rule by_property) (auto simp: sample_objects_def intro: holds.itself)
  ultimately show ?thesis using capture_acyclic by blast
qed

end
