(* ===== verification/Presence.thy ===== *)
theory Presence
  imports Delivery Codec "HOL-Library.Word"
begin

text \<open>
  The presence of applications on one device (\<open>src/src/Core/Helper.cpp\<close>): a helper publishes a record with a growing
  heartbeat in a shared directory, observes the records of its peers and tells its subscribers who appeared, changed and
  left; its own messages go through the delivery store. Inspections of the directory and the delivery of automatic
  messages run on workers (\<open>src/src/Discovery/PresenceWorker_p.h\<close>) and come back as events of the main thread. A date is its
  ISO text; subscribers do not call the helper from their slots.
\<close>

section \<open>Workers\<close>

record 'j lane =
  pending_job :: "'j option"
  active_job :: "'j option"

definition post_job :: "'j \<Rightarrow> 'j lane \<Rightarrow> 'j lane" where
  "post_job j w = w\<lparr>pending_job := Some j\<rparr>"

definition begin_job :: "'j lane \<Rightarrow> 'j lane" where
  "begin_job w = (if active_job w = None then w\<lparr>active_job := pending_job w, pending_job := None\<rparr> else w)"

definition idle_lane :: "'j lane" where
  "idle_lane = \<lparr>pending_job = None, active_job = None\<rparr>"

section \<open>Records of peers\<close>

datatype reason = Withdrawn | TimedOut

record application =
  app_id :: string
  app_name :: string
  app_version :: string

text \<open>\<open>^[A-Za-z0-9]+(?:[.-][A-Za-z0-9]+)+$\<close>, where \<open>$\<close> also matches before a final line feed.\<close>

definition reverse_dns :: "string \<Rightarrow> bool" where
  "reverse_dns s =
     (let t = (if s \<noteq> [] \<and> last s = CHR 0x0A then butlast s else s);
          parts = qsplit (CHR ''.'') (map (\<lambda>c. if c = CHR ''-'' then CHR ''.'' else c) t) in
      length parts \<ge> 2 \<and> list_all (\<lambda>p. p \<noteq> [] \<and> list_all alphanumeric p) parts)"

definition valid_application :: "application \<Rightarrow> bool" where
  "valid_application a \<longleftrightarrow> length (app_id a) \<le> 255 \<and> reverse_dns (app_id a) \<and> trimmed (app_name a) \<noteq> []
     \<and> length (app_name a) \<le> 256 \<and> length (app_version a) \<le> 128"

definition application_of :: "peer \<Rightarrow> application" where
  "application_of p = \<lparr>app_id = application_id p, app_name = application_name p, app_version = application_version p\<rparr>"

definition same_metadata :: "peer \<Rightarrow> peer \<Rightarrow> bool" where
  "same_metadata a b \<longleftrightarrow> application_of a = application_of b \<and> process_id a = process_id b
     \<and> peer_activity a = peer_activity b \<and> started_at a = started_at b"

record heart =
  heart_peer :: peer
  heart_sequence :: "64 word"

text \<open>An entry of the directory, and its content when it is opened.\<close>

record dir_entry =
  base_name :: string
  plain_file :: bool
  stat_size :: int
  file_bytes :: "string option"

definition record_limit :: nat where
  "record_limit = 8192"

definition canonical_instance :: "env \<Rightarrow> string \<Rightarrow> bool" where
  "canonical_instance Q i \<longleftrightarrow> \<not> uuid_null Q i \<and> uuid_text Q i = i"

definition activity_of :: "string \<Rightarrow> activity option" where
  "activity_of s = (if s = ''foreground'' then Some Foreground else if s = ''background'' then Some Background
     else if s = ''unknown'' then Some Unknown else None)"

definition record_of :: "env \<Rightarrow> string \<Rightarrow> jobj \<Rightarrow> heart option" where
  "record_of Q i x =
     (if int_or 0 (oget ''protocol'' x) \<noteq> 1 \<or> jstr (oget ''instanceId'' x) \<noteq> i then None
      else case activity_of (jstr (oget ''activity'' x)) of
        None \<Rightarrow> None
      | Some act \<Rightarrow>
          (let app = \<lparr>app_id = jstr (oget ''applicationId'' x), app_name = jstr (oget ''name'' x), app_version = jstr (oget ''version'' x)\<rparr>;
               process = json_integer (oget ''processId'' x); date = parse_date Q (jstr (oget ''startedAt'' x));
               n = to_ull (jstr (oget ''heartbeat'' x)) in
           if \<not> valid_application app \<or> process \<le> 0 \<or> date = None \<or> n = None \<or> n = Some 0 then None
           else Some \<lparr>heart_peer = \<lparr>application_id = app_id app, application_name = app_name app, application_version = app_version app,
                  instance_id = i, process_id = process, peer_activity = act, started_at = the date, last_seen_at = []\<rparr>,
                heart_sequence = word_of_int (the n)\<rparr>))"

definition read_record :: "env \<Rightarrow> dir_entry \<Rightarrow> heart option" where
  "read_record Q e =
     (if \<not> plain_file e \<or> stat_size e > int record_limit \<or> \<not> canonical_instance Q (base_name e) then None
      else case file_bytes e of
        None \<Rightarrow> None
      | Some content \<Rightarrow>
          (let data = take (record_limit + 1) content in
           if length data > record_limit then None else record_of Q (base_name e) (parse_obj Q data)))"

section \<open>One inspection of the directory\<close>

text \<open>What the file system shows: the directory, whether the own record is a link, the error of writing it if it fails, and
  the records (\<open>*.json\<close>, no links, by name).\<close>

record board =
  root_dir_plain :: bool
  board_host :: host_fs
  own_redirected :: bool
  write_error :: "string option"
  listing :: "dir_entry list"

definition intact_root :: "board \<Rightarrow> string \<Rightarrow> bool" where
  "intact_root b root \<longleftrightarrow> root_dir_plain b \<and> validate_directory (board_host b) root = []"

record presence_result =
  presence_error :: string
  published_at :: string
  heard :: "heart list"
  present_ids :: "string list"

definition record_object :: "peer \<Rightarrow> 64 word \<Rightarrow> jobj" where
  "record_object p n = oput ''heartbeat'' (JStr (num_str (uint n))) (oput ''protocol'' (JNum 1)
     (oput ''startedAt'' (JStr (started_at p)) (odel ''lastSeenAt'' (peer_map p))))"

definition scan_board :: "env \<Rightarrow> peer \<Rightarrow> board \<Rightarrow> presence_result \<Rightarrow> presence_result" where
  "scan_board Q own b r = r\<lparr>
     present_ids := filter (\<lambda>i. canonical_instance Q i \<and> i \<noteq> instance_id own) (map base_name (listing b)),
     heard := filter (\<lambda>x. instance_id (heart_peer x) \<noteq> instance_id own) (List.map_filter (read_record Q) (listing b))\<rparr>"

text \<open>The second component is the record that has been written, if it has.\<close>

definition inspect_presence :: "env \<Rightarrow> board \<Rightarrow> string \<Rightarrow> peer \<Rightarrow> 64 word \<Rightarrow> bool \<Rightarrow> bool \<Rightarrow> presence_result \<times> string option" where
  "inspect_presence Q b root own n publish scanning =
     (let r = \<lparr>presence_error = [], published_at = [], heard = [], present_ids = []\<rparr> in
      if \<not> intact_root b root then (r\<lparr>presence_error := ''redirected''\<rparr>, None)
      else if \<not> publish then (if scanning then scan_board Q own b r else r, None)
      else if own_redirected b then (r\<lparr>presence_error := ''redirected_record''\<rparr>, None)
      else case write_error b of
        Some e \<Rightarrow> (r\<lparr>presence_error := ''cannot_publish: '' @ e\<rparr>, None)
      | None \<Rightarrow> (let r = r\<lparr>published_at := iso_now Q\<rparr> in
          (if scanning then scan_board Q own b r else r, Some (json_bytes Q (record_object own n)))))"

section \<open>State\<close>

record observation =
  seen_record :: heart
  last_advance :: int
  visible :: bool

datatype hsignal = RunningChanged | PeersChanged | PeerAppeared peer | PeerUpdated peer | PeerDisappeared peer reason
  | ErrorChanged | ErrorOccurred string | DataQueued string | AccountManagerChanged | AccountChanged

record cycle_job =
  job_epoch :: nat
  job_root :: string
  job_local :: peer
  job_heartbeat :: "64 word"
  job_publish :: bool

type_synonym automatic = "peer \<times> string \<times> jobj"

record helper =
  heartbeat_ms :: int
  timeout_ms :: int
  help_root :: string
  help_error :: string
  own :: peer
  sequence :: "64 word"
  is_running :: bool
  last_scan :: int
  observations :: "(string \<times> observation) list"
  outgoing_store :: delivery
  epoch :: nat
  in_flight_cycle :: bool
  scan_pending :: bool
  publish_pending :: bool
  automatic_in_flight :: bool
  automatic_messages :: "automatic list"
  presence_lane :: "cycle_job lane"
  automatic_lane :: "(nat \<times> automatic list) lane"
  presence_results :: "(nat \<times> presence_result) list"
  automatic_results :: "(nat \<times> string list \<times> string) list"
  own_file :: "string option"
  instances :: nat
  account_manager :: "nat option"
  account_connected :: bool
  account_revision :: nat
  hsignals :: "hsignal list"

definition emit_signal :: "hsignal \<Rightarrow> helper \<Rightarrow> helper" where
  "emit_signal x h = h\<lparr>hsignals := hsignals h @ [x]\<rparr>"

definition help_fail :: "string \<Rightarrow> helper \<Rightarrow> helper" where
  "help_fail e h =
     (let h = (if help_error h \<noteq> e then emit_signal ErrorChanged (h\<lparr>help_error := e\<rparr>) else h) in emit_signal (ErrorOccurred e) h)"

definition peers :: "helper \<Rightarrow> peer list" where
  "peers h = map (\<lambda>(i, x). heart_peer (seen_record x)) (filter (\<lambda>(i, x). visible x) (observations h))"

section \<open>Automatic messages\<close>

definition schedule_automatic :: "helper \<Rightarrow> helper" where
  "schedule_automatic h =
     (if \<not> is_running h \<or> automatic_in_flight h \<or> automatic_messages h = [] then h
      else h\<lparr>automatic_in_flight := True, automatic_messages := [],
             automatic_lane := post_job (epoch h, automatic_messages h) (automatic_lane h)\<rparr>)"

definition queue_automatic :: "string \<Rightarrow> jobj \<Rightarrow> helper \<Rightarrow> helper" where
  "queue_automatic topic body h =
     (if \<not> is_running h then h
      else schedule_automatic (h\<lparr>automatic_messages := automatic_messages h @ [(own h, topic, body)]\<rparr>))"

fun enqueue_all :: "env \<Rightarrow> automatic list \<Rightarrow> string list \<times> string \<Rightarrow> delivery \<Rightarrow> (string list \<times> string) \<times> delivery" where
  "enqueue_all Q [] (ids, error) d = ((ids, error), d)"
| "enqueue_all Q ((sender, topic, body) # ms) (ids, error) d =
     (let (i, d) = enqueue Q sender topic body d in
      enqueue_all Q ms (if i = [] then (ids, derror d) else (ids @ [i], error)) d)"

text \<open>The worker's own connection to the database: it shares the tables with the helper's.\<close>

definition own_connection :: "(delivery \<Rightarrow> 'a \<times> delivery) \<Rightarrow> delivery \<Rightarrow> 'a \<times> delivery" where
  "own_connection op d = (let (x, e) = op (d\<lparr>dopen := False, derror := []\<rparr>) in (x, e\<lparr>dopen := dopen d, derror := derror d, dplace := dplace d\<rparr>))"

definition deliver_automatic :: "env \<Rightarrow> place \<Rightarrow> automatic list \<Rightarrow> delivery \<Rightarrow> (string list \<times> string) \<times> delivery" where
  "deliver_automatic Q p ms = own_connection (\<lambda>d. let (ok, d) = open_delivery p d in
     if ok then enqueue_all Q ms ([], []) d else (([], derror d), d))"

definition run_automatic :: "env \<Rightarrow> place \<Rightarrow> helper \<Rightarrow> helper" where
  "run_automatic Q p h =
     (case active_job (automatic_lane h) of
        None \<Rightarrow> h
      | Some (e, ms) \<Rightarrow>
          (let ((ids, error), d) = deliver_automatic Q p ms (outgoing_store h) in
           h\<lparr>outgoing_store := d, automatic_results := automatic_results h @ [(e, ids, error)],
             automatic_lane := (automatic_lane h)\<lparr>active_job := None\<rparr>\<rparr>))"

definition begin_automatic :: "helper \<Rightarrow> helper" where
  "begin_automatic h = h\<lparr>automatic_lane := begin_job (automatic_lane h)\<rparr>"

definition take_automatic :: "helper \<Rightarrow> helper" where
  "take_automatic h =
     (case automatic_results h of
        [] \<Rightarrow> h
      | (e, ids, error) # rest \<Rightarrow>
          (let h = h\<lparr>automatic_results := rest\<rparr>;
               h = (if epoch h = e then h\<lparr>automatic_in_flight := False\<rparr> else h);
               h = fold (\<lambda>i. emit_signal (DataQueued i)) ids h in
           if \<not> is_running h \<or> epoch h \<noteq> e then h
           else schedule_automatic (if error \<noteq> [] then help_fail error h else h)))"

fun flush_all :: "env \<Rightarrow> automatic list \<Rightarrow> helper \<Rightarrow> helper" where
  "flush_all Q [] h = h"
| "flush_all Q ((sender, topic, body) # ms) h =
     (let (i, d) = enqueue Q sender topic body (outgoing_store h); h = h\<lparr>outgoing_store := d\<rparr> in
      flush_all Q ms (if i = [] then help_fail (derror d) h else emit_signal (DataQueued i) h))"

definition flush_automatic :: "env \<Rightarrow> helper \<Rightarrow> helper" where
  "flush_automatic Q h = flush_all Q (automatic_messages h) (h\<lparr>automatic_messages := []\<rparr>)"

definition send_data :: "env \<Rightarrow> string \<Rightarrow> jobj \<Rightarrow> helper \<Rightarrow> string \<times> helper" where
  "send_data Q topic body h =
     (if \<not> is_running h then ([], help_fail ''not_running'' h)
      else let (i, d) = enqueue Q (own h) topic body (outgoing_store h); h = h\<lparr>outgoing_store := d\<rparr> in
      (i, if i = [] then help_fail (derror d) h else emit_signal (DataQueued i) h))"

text \<open>The object is encoded when it is sent; the encoder gives an error or the payload.\<close>

definition send_object :: "env \<Rightarrow> string \<Rightarrow> string + jobj \<Rightarrow> helper \<Rightarrow> string \<times> helper" where
  "send_object Q topic encoded h =
     (if \<not> is_running h then ([], help_fail ''not_running'' h)
      else case encoded of Inl e \<Rightarrow> ([], help_fail e h) | Inr body \<Rightarrow> send_data Q topic body h)"

section \<open>Observing the peers\<close>

record tally =
  watching :: "(string \<times> observation) list"
  appeared :: "peer list"
  updated :: "peer list"
  departed :: "(peer \<times> reason) list"

definition see_record :: "env \<Rightarrow> int \<Rightarrow> heart \<Rightarrow> tally \<Rightarrow> tally" where
  "see_record Q now r t =
     (let i = instance_id (heart_peer r) in
      case map_of (watching t) i of
        None \<Rightarrow> t\<lparr>watching := put_sorted i \<lparr>seen_record = r, last_advance = now, visible = False\<rparr> (watching t)\<rparr>
      | Some x \<Rightarrow>
          (if heart_sequence (seen_record x) < heart_sequence r
           then let p = (heart_peer r)\<lparr>last_seen_at := iso_now Q\<rparr>;
                    t = (if \<not> visible x then t\<lparr>appeared := appeared t @ [p]\<rparr>
                         else if \<not> same_metadata p (heart_peer (seen_record x)) then t\<lparr>updated := updated t @ [p]\<rparr> else t) in
                t\<lparr>watching := put_sorted i \<lparr>seen_record = r\<lparr>heart_peer := p\<rparr>, last_advance = now, visible = True\<rparr> (watching t)\<rparr>
           else t))"

fun sweep :: "int \<Rightarrow> int \<Rightarrow> string list \<Rightarrow> (string \<times> observation) list \<Rightarrow> (string \<times> observation) list \<times> (peer \<times> reason) list" where
  "sweep timeout now present [] = ([], [])"
| "sweep timeout now present ((i, x) # xs) =
     (let (kept, gone) = sweep timeout now present xs; p = heart_peer (seen_record x) in
      if i \<notin> set present then (kept, if visible x then (p, Withdrawn) # gone else gone)
      else if visible x \<and> now - last_advance x \<ge> timeout then ((i, x\<lparr>visible := False\<rparr>) # kept, (p, TimedOut) # gone)
      else ((i, x) # kept, gone))"

text \<open>After a pause of the own event loop old files prove nothing: every visible peer is lost and the observation starts anew.\<close>

definition start_tally :: "int \<Rightarrow> helper \<Rightarrow> tally" where
  "start_tally now h =
     (if now - last_scan h \<ge> timeout_ms h
      then \<lparr>watching = [], appeared = [], updated = [], departed = map (\<lambda>p. (p, TimedOut)) (peers h)\<rparr>
      else \<lparr>watching = observations h, appeared = [], updated = [], departed = []\<rparr>)"

definition observe :: "env \<Rightarrow> int \<Rightarrow> heart list \<Rightarrow> string list \<Rightarrow> helper \<Rightarrow> tally" where
  "observe Q now rs present h =
     (let t = fold (see_record Q now) rs (start_tally now h);
          (kept, gone) = sweep (timeout_ms h) now (present @ map (\<lambda>r. instance_id (heart_peer r)) rs) (watching t) in
      t\<lparr>watching := kept, departed := departed t @ gone\<rparr>)"

definition reason_name :: "reason \<Rightarrow> string" where
  "reason_name r = (case r of Withdrawn \<Rightarrow> ''withdrawn'' | TimedOut \<Rightarrow> ''timed-out'')"

definition tell_appeared :: "peer \<Rightarrow> helper \<Rightarrow> helper" where
  "tell_appeared p h = queue_automatic ''helper.peerAppeared'' (peer_map p) (emit_signal (PeerAppeared p) h)"

definition tell_updated :: "peer \<Rightarrow> helper \<Rightarrow> helper" where
  "tell_updated p h = queue_automatic ''helper.peerUpdated'' (peer_map p) (emit_signal (PeerUpdated p) h)"

definition tell_departed :: "peer \<times> reason \<Rightarrow> helper \<Rightarrow> helper" where
  "tell_departed = (\<lambda>(p, r) h. queue_automatic ''helper.peerDisappeared'' (oput ''reason'' (JStr (reason_name r)) (peer_map p))
     (emit_signal (PeerDisappeared p r) h))"

definition scan_peers :: "env \<Rightarrow> int \<Rightarrow> heart list \<Rightarrow> string list \<Rightarrow> helper \<Rightarrow> helper" where
  "scan_peers Q now rs present h =
     (if \<not> is_running h then h
      else let t = observe Q now rs present h;
               h = h\<lparr>observations := watching t, last_scan := now\<rparr>;
               h = fold tell_departed (departed t) (fold tell_updated (updated t) (fold tell_appeared (appeared t) h)) in
      if appeared t \<noteq> [] \<or> updated t \<noteq> [] \<or> departed t \<noteq> [] then emit_signal PeersChanged h else h)"

section \<open>Cycles\<close>

definition request_cycle :: "bool \<Rightarrow> helper \<Rightarrow> helper" where
  "request_cycle publish h =
     (if \<not> is_running h then h
      else if in_flight_cycle h then h\<lparr>scan_pending := True, publish_pending := publish_pending h \<or> publish\<rparr>
      else let h = (if publish then h\<lparr>sequence := sequence h + 1\<rparr> else h) in
      h\<lparr>in_flight_cycle := True, presence_lane := post_job \<lparr>job_epoch = epoch h, job_root = help_root h, job_local = own h,
         job_heartbeat = sequence h, job_publish = publish\<rparr> (presence_lane h)\<rparr>)"

definition begin_cycle :: "helper \<Rightarrow> helper" where
  "begin_cycle h = h\<lparr>presence_lane := begin_job (presence_lane h)\<rparr>"

definition run_cycle :: "env \<Rightarrow> board \<Rightarrow> helper \<Rightarrow> helper" where
  "run_cycle Q b h =
     (case active_job (presence_lane h) of
        None \<Rightarrow> h
      | Some j \<Rightarrow>
          (let (r, written) = inspect_presence Q b (job_root j) (job_local j) (job_heartbeat j) (job_publish j) True in
           h\<lparr>presence_results := presence_results h @ [(job_epoch j, r)], own_file := (if written = None then own_file h else written),
             presence_lane := (presence_lane h)\<lparr>active_job := None\<rparr>\<rparr>))"

text \<open>What stopping sees: the directory when an inspection is under way and when the own record is removed, and the
  directory of the delivery store.\<close>

record farewell =
  last_board :: board
  final_board :: board
  last_place :: place

definition stop_helper :: "env \<Rightarrow> farewell \<Rightarrow> helper \<Rightarrow> helper" where
  "stop_helper Q v h =
     (let h = h\<lparr>epoch := Suc (epoch h), presence_lane := (presence_lane h)\<lparr>pending_job := None\<rparr>\<rparr>;
          h = run_cycle Q (last_board v) h;
          h = run_automatic Q (last_place v) (begin_automatic (run_automatic Q (last_place v) h));
          h = h\<lparr>in_flight_cycle := False, scan_pending := False, publish_pending := False, automatic_in_flight := False\<rparr>;
          h = flush_automatic Q h; was = is_running h; had = (peers h \<noteq> []);
          h = (if was then snd (send_data Q ''helper.stopped'' (peer_map (own h)) h) else h);
          h = h\<lparr>is_running := False,
                own_file := (if instance_id (own h) \<noteq> [] \<and> intact_root (final_board v) (help_root h) then None else own_file h),
                observations := [], outgoing_store := close_delivery (outgoing_store h)\<rparr>;
          h = (if was then emit_signal RunningChanged h else h) in
      if had then emit_signal PeersChanged h else h)"

definition take_cycle :: "env \<Rightarrow> int \<Rightarrow> farewell \<Rightarrow> helper \<Rightarrow> helper" where
  "take_cycle Q now v h =
     (case presence_results h of
        [] \<Rightarrow> h
      | (e, r) # rest \<Rightarrow>
          (let h = h\<lparr>presence_results := rest\<rparr> in
           if \<not> is_running h \<or> epoch h \<noteq> e then h
           else let h = h\<lparr>in_flight_cycle := False\<rparr> in
           if presence_error r \<noteq> [] then help_fail (presence_error r) (stop_helper Q v h)
           else let h = (if published_at r \<noteq> [] then h\<lparr>own := (own h)\<lparr>last_seen_at := published_at r\<rparr>\<rparr> else h);
                    h = scan_peers Q now (heard r) (present_ids r) h in
           if \<not> is_running h \<or> epoch h \<noteq> e then h
           else if scan_pending h then request_cycle (publish_pending h) (h\<lparr>scan_pending := False, publish_pending := False\<rparr>) else h))"

section \<open>Starting\<close>

text \<open>What starting sees: the calling thread, the directory named in the environment, the runtime paths of the container or the
  error of opening it, paths, the directory, the process.\<close>

record launch =
  on_event_loop :: bool
  named_directory :: string
  runtime_path :: "string + (string \<Rightarrow> string + string)"
  absolute_path :: "string \<Rightarrow> bool"
  launch_host :: host_fs
  root_existed :: bool
  root_made :: bool
  root_restricted :: bool
  real_path :: string
  launch_place :: place
  launch_board :: board
  launch_process :: int
  launch_date :: string
  launch_time :: int

definition default_directory :: "launch \<Rightarrow> string + string" where
  "default_directory L =
     (case runtime_path L of
        Inl e \<Rightarrow> Inl e
      | Inr path \<Rightarrow>
          (let override = named_directory L; h = launch_host L in
           if override = [] then path ''helpers/v1''
           else let runtime = (case path [] of Inl e \<Rightarrow> [] | Inr p \<Rightarrow> p); rel = relative_to h runtime (clean_path h override) in
           if runtime = [] \<or> \<not> absolute_path L override \<or> path (if rel = ''.'' then [] else rel) \<noteq> Inr (clean_path h override)
           then Inl ''override_outside_runtime'' else Inr (clean_path h override)))"

definition publish_helper :: "env \<Rightarrow> board \<Rightarrow> farewell \<Rightarrow> helper \<Rightarrow> bool \<times> helper" where
  "publish_helper Q b v h =
     (let h = h\<lparr>sequence := sequence h + 1\<rparr>; (r, written) = inspect_presence Q b (help_root h) (own h) (sequence h) True False;
          h = h\<lparr>own_file := (if written = None then own_file h else written)\<rparr> in
      if presence_error r = [] then (True, h\<lparr>own := (own h)\<lparr>last_seen_at := published_at r\<rparr>\<rparr>)
      else (False, help_fail (presence_error r) (stop_helper Q v h)))"

definition start_checked :: "env \<Rightarrow> launch \<Rightarrow> farewell \<Rightarrow> application \<Rightarrow> int \<Rightarrow> int \<Rightarrow> helper \<Rightarrow> bool \<times> helper" where
  "start_checked Q L v a beat timeout h =
     (let (ok, d) = open_delivery (launch_place L) (outgoing_store h); h = h\<lparr>help_root := real_path L, outgoing_store := d\<rparr> in
      if \<not> ok then (False, help_fail (derror d) h)
      else let p = \<lparr>application_id = app_id a, application_name = app_name a, application_version = app_version a,
                   instance_id = new_uuid Q (instances h), process_id = launch_process L, peer_activity = Unknown,
                   started_at = launch_date L, last_seen_at = []\<rparr>;
               h = h\<lparr>heartbeat_ms := beat, timeout_ms := timeout, own := p, instances := Suc (instances h), sequence := 0,
                     epoch := Suc (epoch h), last_scan := launch_time L, observations := []\<rparr>;
               (ok, h) = publish_helper Q (launch_board L) v h in
      if \<not> ok then (False, h)
      else let h = (if help_error h \<noteq> [] then emit_signal ErrorChanged (h\<lparr>help_error := []\<rparr>) else h);
               h = h\<lparr>is_running := True\<rparr>;
               h = snd (send_data Q ''helper.started'' (peer_map (own h)) h) in
      (True, emit_signal RunningChanged (request_cycle False h)))"

definition start_helper :: "env \<Rightarrow> launch \<Rightarrow> farewell \<Rightarrow> application \<Rightarrow> string \<Rightarrow> int \<Rightarrow> int \<Rightarrow> helper \<Rightarrow> bool \<times> helper" where
  "start_helper Q L v a dir beat timeout h =
     (let refuse = (\<lambda>e. (False, help_fail e h)) in
      if \<not> on_event_loop L then refuse ''thread''
      else if is_running h then refuse ''already_observing''
      else if \<not> valid_application a then refuse ''application''
      else if beat < 20 \<or> beat > 60000 \<or> timeout < beat * 3 \<or> timeout > 300000 then refuse ''options''
      else let (root, why) = (if dir \<noteq> [] then (dir, []) else case default_directory L of Inl e \<Rightarrow> ([], e) | Inr d \<Rightarrow> (d, [])) in
      if root = [] \<or> \<not> absolute_path L root then refuse (if why = [] then ''absolute'' else why)
      else let root = clean_path (launch_host L) root; why = validate_directory (launch_host L) root in
      if why \<noteq> [] then refuse why
      else if \<not> root_made L then refuse ''create''
      else if \<not> root_existed L \<and> \<not> root_restricted L then refuse ''restrict''
      else start_checked Q L v a beat timeout h)"

definition set_activity :: "activity \<Rightarrow> helper \<Rightarrow> helper" where
  "set_activity a h =
     (if peer_activity (own h) = a then h
      else let h = h\<lparr>own := (own h)\<lparr>peer_activity := a\<rparr>\<rparr> in
      if is_running h then let h = request_cycle True h in queue_automatic ''helper.activity'' (peer_map (own h)) h else h)"

text \<open>The manager of the user's account is borrowed; a manager that is destroyed is no longer pointed to when it is detached.\<close>

definition set_account_manager :: "bool \<Rightarrow> nat option \<Rightarrow> helper \<Rightarrow> bool \<times> helper" where
  "set_account_manager same_thread m h =
     (if \<not> same_thread then (False, h)
      else if m = account_manager h \<and> (m \<noteq> None \<or> \<not> account_connected h) then (True, h)
      else (True, emit_signal AccountChanged (emit_signal AccountManagerChanged
        (h\<lparr>account_manager := m, account_connected := (m \<noteq> None), account_revision := Suc (account_revision h)\<rparr>))))"

definition manager_destroyed :: "helper \<Rightarrow> helper" where
  "manager_destroyed h = (if account_connected h then snd (set_account_manager True None (h\<lparr>account_manager := None\<rparr>)) else h)"

section \<open>Runs\<close>

definition new_helper :: "delivery \<Rightarrow> helper" where
  "new_helper d = \<lparr>heartbeat_ms = 1000, timeout_ms = 5000, help_root = [], help_error = [],
     own = \<lparr>application_id = [], application_name = [], application_version = [], instance_id = [], process_id = 0,
            peer_activity = Unknown, started_at = [], last_seen_at = []\<rparr>,
     sequence = 0, is_running = False, last_scan = 0, observations = [], outgoing_store = d, epoch = 0, in_flight_cycle = False,
     scan_pending = False, publish_pending = False, automatic_in_flight = False, automatic_messages = [], presence_lane = idle_lane,
     automatic_lane = idle_lane, presence_results = [], automatic_results = [], own_file = None, instances = 0,
     account_manager = None, account_connected = False, account_revision = 0, hsignals = []\<rparr>"

text \<open>Calls of the application, timer and watcher, the workers and their results, and other processes that use the delivery
  tables. A directory has one entry of a name.\<close>

definition one_of_a_name :: "board \<Rightarrow> bool" where
  "one_of_a_name b \<longleftrightarrow> distinct (map base_name (listing b))"

inductive helper_step :: "env \<Rightarrow> helper \<Rightarrow> helper \<Rightarrow> bool" for Q where
  starting: "one_of_a_name (last_board v) \<Longrightarrow> helper_step Q h (snd (start_helper Q L v a dir beat timeout h))"
| stopping: "one_of_a_name (last_board v) \<Longrightarrow> helper_step Q h (stop_helper Q v h)"
| acting: "helper_step Q h (set_activity a h)"
| sending: "helper_step Q h (snd (send_data Q topic body h))"
| sending_object: "helper_step Q h (snd (send_object Q topic (encode_value Q T x) h))"
| beating: "helper_step Q h (request_cycle True h)"
| noticing: "helper_step Q h (request_cycle False h)"
| cycle_begins: "helper_step Q h (begin_cycle h)"
| cycle_runs: "one_of_a_name b \<Longrightarrow> helper_step Q h (run_cycle Q b h)"
| cycle_ends: "one_of_a_name (last_board v) \<Longrightarrow> helper_step Q h (take_cycle Q now v h)"
| automatic_begins: "helper_step Q h (begin_automatic h)"
| automatic_runs: "helper_step Q h (run_automatic Q p h)"
| automatic_ends: "helper_step Q h (take_automatic h)"
| binding_account: "helper_step Q h (snd (set_account_manager t m h))"
| losing_account: "helper_step Q h (manager_destroyed h)"
| others: "helper_step Q h (h\<lparr>outgoing_store := d\<rparr>)"

end
