(* ===== verification/PresenceRuns.thy ===== *)
theory PresenceRuns
  imports Presence
begin

text \<open>
  The runs of a helper (\<open>src/src/Core/Helper.cpp\<close>): its state stays well formed, inspections are neither lost nor doubled, a
  subscriber that follows the signals knows the visible peers, a peer is visible only on the evidence of an advancing
  heartbeat, and a published record is what another helper reads.
\<close>

section \<open>What a subscriber knows\<close>

definition same_peer :: "peer \<Rightarrow> peer \<Rightarrow> bool" where
  "same_peer a b \<longleftrightarrow> same_metadata a b \<and> instance_id a = instance_id b"

lemma same_peer_refl [simp]: "same_peer a a"
  by (simp add: same_peer_def same_metadata_def)

lemma same_peer_sym: "same_peer a b \<Longrightarrow> same_peer b a"
  by (simp add: same_peer_def same_metadata_def)

lemma same_peer_trans: "same_peer a b \<Longrightarrow> same_peer b c \<Longrightarrow> same_peer a c"
  by (simp add: same_peer_def same_metadata_def)

lemma same_peer_seen [simp]: "same_peer (p\<lparr>last_seen_at := s\<rparr>) q = same_peer p q" "same_peer q (p\<lparr>last_seen_at := s\<rparr>) = same_peer q p"
  by (simp_all add: same_peer_def same_metadata_def application_of_def)

fun follow :: "hsignal \<Rightarrow> (string \<rightharpoonup> peer) \<Rightarrow> (string \<rightharpoonup> peer)" where
  "follow (PeerAppeared p) m = m(instance_id p \<mapsto> p)"
| "follow (PeerUpdated p) m = m(instance_id p \<mapsto> p)"
| "follow (PeerDisappeared p r) m = m(instance_id p := None)"
| "follow RunningChanged m = Map.empty"
| "follow _ m = m"

definition followed :: "hsignal list \<Rightarrow> (string \<rightharpoonup> peer)" where
  "followed xs = fold follow xs Map.empty"

definition visible_at :: "(string \<times> observation) list \<Rightarrow> (string \<rightharpoonup> peer)" where
  "visible_at os i = (case map_of os i of Some x \<Rightarrow> if visible x then Some (heart_peer (seen_record x)) else None | None \<Rightarrow> None)"

definition agrees :: "(string \<rightharpoonup> peer) \<Rightarrow> (string \<rightharpoonup> peer) \<Rightarrow> bool" where
  "agrees m v \<longleftrightarrow> (\<forall>i. rel_option same_peer (m i) (v i))"

definition keyed :: "(string \<times> observation) list \<Rightarrow> bool" where
  "keyed os \<longleftrightarrow> sorted_wrt (<) (map fst os) \<and> (\<forall>(i, x) \<in> set os. instance_id (heart_peer (seen_record x)) = i)"

abbreviation by_instance :: "peer list \<Rightarrow> (string \<rightharpoonup> peer)" where
  "by_instance ps \<equiv> map_of (rev (map (\<lambda>p. (instance_id p, p)) ps))"

lemma follow_appeared: "fold follow (map PeerAppeared ps) m = m ++ by_instance ps"
  by (induction ps arbitrary: m) (simp_all add: map_add_def fun_eq_iff split: option.split)

lemma follow_updated: "fold follow (map PeerUpdated ps) m = m ++ by_instance ps"
  by (induction ps arbitrary: m) (simp_all add: map_add_def fun_eq_iff split: option.split)

lemma follow_departed: "fold follow (map (\<lambda>(p, r). PeerDisappeared p r) ds) m = m |` (- (instance_id \<circ> fst) ` set ds)"
  by (induction ds arbitrary: m) (auto simp: restrict_map_def fun_eq_iff)

lemma by_instance_None: "by_instance ps i = None \<longleftrightarrow> i \<notin> instance_id ` set ps"
  by (force simp: map_of_eq_None_iff)

lemma by_instance_snoc: "by_instance (ps @ [p]) = (by_instance ps)(instance_id p \<mapsto> p)"
  by simp

lemma keyed_distinct: "keyed os \<Longrightarrow> distinct (map fst os)"
  by (auto simp: keyed_def strict_sorted_iff)

lemma set_put_sorted: "set (put_sorted k v xs) \<subseteq> insert (k, v) (set xs)"
  by (induction k v xs rule: put_sorted.induct) auto

lemma keyed_put: "keyed os \<Longrightarrow> instance_id (heart_peer (seen_record x)) = i \<Longrightarrow> keyed (put_sorted i x os)"
  unfolding keyed_def using set_put_sorted [of i x os] by auto

lemma keyed_get: "keyed os \<Longrightarrow> map_of os i = Some x \<Longrightarrow> instance_id (heart_peer (seen_record x)) = i"
  by (auto simp: keyed_def dest: map_of_SomeD)

lemma visible_at_put: "visible_at (put_sorted i x os) = (visible_at os)(i := if visible x then Some (heart_peer (seen_record x)) else None)"
  by (simp add: visible_at_def fun_eq_iff)

lemma visible_out: "i \<notin> fst ` set os \<Longrightarrow> visible_at os i = None"
  by (simp add: visible_at_def map_of_eq_None_iff [THEN iffD2])

lemma visible_in: "keyed os \<Longrightarrow> visible_at os i = Some p \<longleftrightarrow> (\<exists>x. (i, x) \<in> set os \<and> visible x \<and> heart_peer (seen_record x) = p)"
proof -
  assume "keyed os"
  then have "(i, x) \<in> set os \<longleftrightarrow> map_of os i = Some x" for x using map_of_eq_Some_iff [OF keyed_distinct] by fast
  then show ?thesis by (auto simp: visible_at_def split: option.split)
qed

section \<open>One scan\<close>

text \<open>The signals of the records seen so far tell what is visible.\<close>

definition told :: "(string \<rightharpoonup> peer) \<Rightarrow> tally \<Rightarrow> (string \<rightharpoonup> peer)" where
  "told m t = m ++ by_instance (appeared t) ++ by_instance (updated t)"

definition tally_ok :: "(string \<rightharpoonup> peer) \<Rightarrow> tally \<Rightarrow> bool" where
  "tally_ok m t \<longleftrightarrow> keyed (watching t) \<and> agrees (told m t) (visible_at (watching t))
     \<and> (\<forall>p\<in>set (updated t). visible_at (watching t) (instance_id p) \<noteq> None)"

lemma tally_see: "tally_ok m t \<Longrightarrow> tally_ok m (see_record Q now r t)"
proof -
  assume t: "tally_ok m t"
  let ?i = "instance_id (heart_peer r)" and ?p = "(heart_peer r)\<lparr>last_seen_at := iso_now Q\<rparr>"
  let ?x = "\<lparr>seen_record = r\<lparr>heart_peer := ?p\<rparr>, last_advance = now, visible = True\<rparr>"
  have k: "keyed (put_sorted ?i ?x (watching t))" using t by (simp add: tally_ok_def keyed_put)
  show ?thesis
  proof (cases "map_of (watching t) ?i")
    case None
    then have "visible_at (watching t) ?i = None" by (simp add: visible_at_def)
    then show ?thesis using t None
      by (auto simp: see_record_def tally_ok_def told_def keyed_put visible_at_put Let_def fun_upd_idem)
  next
    case (Some x)
    note some = Some
    show ?thesis
    proof (cases "heart_sequence (seen_record x) < heart_sequence r")
      case False
      then show ?thesis using t some by (simp add: see_record_def Let_def)
    next
      case True
      consider (new) "\<not> visible x" | (changed) "visible x" "\<not> same_metadata ?p (heart_peer (seen_record x))"
        | (same) "visible x" "same_metadata ?p (heart_peer (seen_record x))" by blast
      then show ?thesis
      proof cases
        case new
        then have "visible_at (watching t) ?i = None" using some by (simp add: visible_at_def)
        then have "by_instance (updated t) ?i = None"
          using t unfolding by_instance_None tally_ok_def by auto
        then have "told m (t\<lparr>appeared := appeared t @ [?p]\<rparr>) = (told m t)(?i \<mapsto> ?p)"
          by (auto simp: told_def map_add_def fun_eq_iff split: option.split)
        then show ?thesis using t k new some True
          by (auto simp: see_record_def tally_ok_def visible_at_put agrees_def Let_def told_def)
      next
        case changed
        have "told m (t\<lparr>updated := updated t @ [?p]\<rparr>) = (told m t)(?i \<mapsto> ?p)"
          by (auto simp: told_def)
        then show ?thesis using t k changed some True
          by (auto simp: see_record_def tally_ok_def visible_at_put agrees_def Let_def told_def)
      next
        case same
        have "instance_id (heart_peer (seen_record x)) = ?i" using t some by (auto simp: tally_ok_def intro: keyed_get)
        then have q: "same_peer (heart_peer (seen_record x)) ?p" using same(2) by (simp add: same_peer_def same_metadata_def)
        have "rel_option same_peer (told m t ?i) (Some (heart_peer (seen_record x)))"
          using t same(1) some by (auto simp: tally_ok_def agrees_def visible_at_def dest: spec [of _ ?i])
        then have "rel_option same_peer (told m t ?i) (Some ?p)"
          by (cases "told m t ?i") (use q in \<open>auto intro: same_peer_trans\<close>)
        then show ?thesis using t k same some True
          by (auto simp: see_record_def tally_ok_def visible_at_put agrees_def Let_def told_def)
      qed
    qed
  qed
qed

lemma tally_sees: "tally_ok m t \<Longrightarrow> tally_ok m (fold (see_record Q now) rs t)"
  by (induction rs arbitrary: t) (simp_all add: tally_see)

text \<open>The end of a scan removes what has not been seen and hides what is late.\<close>

lemma sweep_gone: "sweep timeout now present os = (kept, gone) \<Longrightarrow> distinct (map fst os) \<Longrightarrow>
    (\<forall>(i, x) \<in> set os. instance_id (heart_peer (seen_record x)) = i) \<Longrightarrow>
    fst ` set kept \<subseteq> fst ` set os \<and> (instance_id \<circ> fst) ` set gone \<subseteq> fst ` set os
    \<and> visible_at kept = visible_at os |` (- (instance_id \<circ> fst) ` set gone)
    \<and> (\<forall>(i, x) \<in> set kept. instance_id (heart_peer (seen_record x)) = i)
    \<and> (sorted_wrt (<) (map fst os) \<longrightarrow> sorted_wrt (<) (map fst kept))"
proof (induction timeout now present os arbitrary: kept gone rule: sweep.induct)
  case (2 timeout now present i x xs)
  obtain kept' gone' where s: "sweep timeout now present xs = (kept', gone')" by (cases "sweep timeout now present xs")
  from 2(1) [OF s] 2(3,4) have ih: "fst ` set kept' \<subseteq> fst ` set xs" "(instance_id \<circ> fst) ` set gone' \<subseteq> fst ` set xs"
    "visible_at kept' = visible_at xs |` (- (instance_id \<circ> fst) ` set gone')" "\<forall>(i, x) \<in> set kept'. instance_id (heart_peer (seen_record x)) = i"
    "sorted_wrt (<) (map fst xs) \<longrightarrow> sorted_wrt (<) (map fst kept')" by auto
  have i: "instance_id (heart_peer (seen_record x)) = i" "i \<notin> fst ` set xs" using 2(3,4) by auto
  have none: "visible_at xs i = None" "visible_at kept' i = None"
    using i(2) ih(1) by (auto intro: visible_out)
  have v: "visible_at ((i, y) # ys) = (visible_at ys)(i := if visible y then Some (heart_peer (seen_record y)) else None)" for y ys
    by (simp add: visible_at_def fun_eq_iff)
  have o: "sorted_wrt (<) (i # map fst xs) \<longrightarrow> sorted_wrt (<) (map fst kept') \<and> sorted_wrt (<) (i # map fst kept')"
    using ih(1,5) by fastforce
  let ?G = "(instance_id \<circ> fst) ` set gone'"
  have n: "i \<notin> ?G" using ih(2) i(2) by blast
  have p: "visible_at kept' a = (if a \<in> ?G then None else visible_at xs a)" for a by (simp add: ih(3) restrict_map_def)
  have late_p: "visible_at ((i, y) # kept') = visible_at ((i, x) # xs) |` (- ?G)" if "visible y = visible x" "seen_record y = seen_record x" for y
    using n that by (auto simp: v p restrict_map_def fun_eq_iff)
  have gone_p: "visible_at kept' = visible_at ((i, x) # xs) |` (- insert i ?G)"
    "visible_at ((i, x\<lparr>visible := False\<rparr>) # kept') = visible_at ((i, x) # xs) |` (- insert i ?G)"
    using none by (auto simp: v p restrict_map_def fun_eq_iff)
  have drop_p: "visible_at kept' = visible_at ((i, x) # xs) |` (- ?G)" if "\<not> visible x"
    using none that n by (auto simp: v p restrict_map_def fun_eq_iff)
  consider (lost) "i \<notin> set present" "visible x" | (dropped) "i \<notin> set present" "\<not> visible x"
    | (late) "i \<in> set present" "visible x \<and> now - last_advance x \<ge> timeout"
    | (kept) "i \<in> set present" "\<not> (visible x \<and> now - last_advance x \<ge> timeout)" by blast
  then show ?case
  proof cases
    case lost
    then have "kept = kept'" "gone = (heart_peer (seen_record x), Withdrawn) # gone'" using 2(2) s by auto
    then show ?thesis using ih(1,2,4) i gone_p(1) o by auto
  next
    case dropped
    then have "kept = kept'" "gone = gone'" using 2(2) s by auto
    then show ?thesis using ih(1,2,4) i drop_p dropped o by auto
  next
    case late
    then have "kept = (i, x\<lparr>visible := False\<rparr>) # kept'" "gone = (heart_peer (seen_record x), TimedOut) # gone'" using 2(2) s by auto
    then show ?thesis using ih(1,2,4) i gone_p(2) o by auto
  next
    case kept
    then have "kept = (i, x) # kept'" "gone = gone'" using 2(2) s by (auto split: if_splits)
    then show ?thesis using ih(1,2,4) i late_p [of x] o by auto
  qed
qed (auto simp: visible_at_def fun_eq_iff)

lemma sweep_late: "sweep timeout now present os = (kept, gone) \<Longrightarrow> (i, x) \<in> set kept \<Longrightarrow> visible x \<Longrightarrow>
    (i, x) \<in> set os \<and> i \<in> set present \<and> now - last_advance x < timeout"
  by (induction timeout now present os arbitrary: kept gone rule: sweep.induct) (auto simp: Let_def split: if_splits prod.splits)

text \<open>After a pause nothing is visible.\<close>

definition unseen :: "tally \<Rightarrow> bool" where
  "unseen t \<longleftrightarrow> appeared t = [] \<and> updated t = [] \<and> (\<forall>(i, x) \<in> set (watching t). \<not> visible x)"

lemma unseen_records:
  "unseen t \<Longrightarrow> distinct (map (instance_id \<circ> heart_peer) rs) \<Longrightarrow> fst ` set (watching t) \<inter> (instance_id \<circ> heart_peer) ` set rs = {} \<Longrightarrow>
    unseen (fold (see_record Q now) rs t) \<and> departed (fold (see_record Q now) rs t) = departed t"
proof (induction rs arbitrary: t)
  case (Cons r rs)
  let ?i = "instance_id (heart_peer r)" and ?x = "\<lparr>seen_record = r, last_advance = now, visible = False\<rparr>"
  have "map_of (watching t) ?i = None" using Cons.prems(3) by (force simp: map_of_eq_None_iff)
  then have s: "see_record Q now r t = t\<lparr>watching := put_sorted ?i ?x (watching t)\<rparr>" by (simp add: see_record_def Let_def)
  have "unseen (see_record Q now r t)"
    using Cons.prems(1) set_put_sorted [of ?i ?x "watching t"] unfolding s unseen_def by auto
  moreover have "fst ` set (watching (see_record Q now r t)) \<inter> (instance_id \<circ> heart_peer) ` set rs = {}"
    using Cons.prems(2,3) by (auto simp: s)
  ultimately show ?case using Cons.IH [of "see_record Q now r t"] Cons.prems(2) by (simp add: s)
qed simp

lemma unseen_sweep: "sweep timeout now present os = (kept, gone) \<Longrightarrow> (\<forall>(i, x) \<in> set os. \<not> visible x) \<Longrightarrow> gone = [] \<and> visible_at kept = Map.empty"
proof (induction timeout now present os arbitrary: kept gone rule: sweep.induct)
  case (2 timeout now present i x xs)
  then show ?case by (auto simp: visible_at_def fun_eq_iff Let_def split: if_splits prod.splits)
qed (simp add: visible_at_def fun_eq_iff)

text \<open>What the scan tells is what becomes visible.\<close>

definition tell_all :: "tally \<Rightarrow> hsignal list" where
  "tell_all t = map PeerAppeared (appeared t) @ map PeerUpdated (updated t) @ map (\<lambda>(p, r). PeerDisappeared p r) (departed t)
     @ (if appeared t \<noteq> [] \<or> updated t \<noteq> [] \<or> departed t \<noteq> [] then [PeersChanged] else [])"

lemma follow_all: "fold follow (tell_all t) m = told m t |` (- (instance_id \<circ> fst) ` set (departed t))"
  by (simp add: tell_all_def told_def follow_appeared follow_updated follow_departed)

lemma keyed_sees: "keyed (watching t) \<Longrightarrow> keyed (watching (fold (see_record Q now) rs t))"
proof (induction rs arbitrary: t)
  case (Cons r rs)
  have "keyed (watching (see_record Q now r t))"
    using Cons.prems by (auto simp: see_record_def Let_def keyed_put split: option.split)
  then show ?case using Cons.IH by simp
qed simp

lemma departed_sees: "departed (fold (see_record Q now) rs t) = departed t"
proof (induction rs arbitrary: t)
  case (Cons r rs)
  have "departed (see_record Q now r t) = departed t" by (simp add: see_record_def Let_def split: option.split)
  then show ?case using Cons.IH by simp
qed simp

lemma peers_visible: "keyed (observations h) \<Longrightarrow> instance_id ` set (peers h) = dom (visible_at (observations h))"
proof -
  assume k: "keyed (observations h)"
  have "i \<in> instance_id ` set (peers h) \<longleftrightarrow> (\<exists>x. (i, x) \<in> set (observations h) \<and> visible x)" for i
    using k unfolding peers_def keyed_def by force
  moreover have "i \<in> dom (visible_at (observations h)) \<longleftrightarrow> (\<exists>x. (i, x) \<in> set (observations h) \<and> visible x)" for i
    using visible_in [OF k] by (auto simp: dom_def)
  ultimately show ?thesis by blast
qed

lemma observe_agrees:
  assumes "keyed (observations h)" "agrees m (visible_at (observations h))" "distinct (map (instance_id \<circ> heart_peer) rs)"
  shows "keyed (watching (observe Q now rs present h))
    \<and> agrees (fold follow (tell_all (observe Q now rs present h)) m) (visible_at (watching (observe Q now rs present h)))"
proof -
  define t where "t = fold (see_record Q now) rs (start_tally now h)"
  obtain kept gone where s: "sweep (timeout_ms h) now (present @ map (\<lambda>r. instance_id (heart_peer r)) rs) (watching t) = (kept, gone)"
    by (cases "sweep (timeout_ms h) now (present @ map (\<lambda>r. instance_id (heart_peer r)) rs) (watching t)")
  have o: "observe Q now rs present h = t\<lparr>watching := kept, departed := departed t @ gone\<rparr>"
    by (simp add: observe_def t_def [symmetric] s Let_def)
  have d: "departed t = departed (start_tally now h)" by (simp add: t_def departed_sees)
  have k0: "keyed (watching (start_tally now h))" using assms(1) by (simp add: start_tally_def keyed_def)
  then have k: "keyed (watching t)" by (simp add: t_def keyed_sees)
  note g = sweep_gone [OF s keyed_distinct [OF k]]
  have kk: "keyed kept" using g k by (auto simp: keyed_def)
  have f: "fold follow (tell_all (observe Q now rs present h)) m = told m t |` (- (instance_id \<circ> fst) ` set (departed t @ gone))"
    by (simp add: o follow_all told_def)
  have "agrees (told m t |` (- (instance_id \<circ> fst) ` set (departed t @ gone))) (visible_at kept)"
  proof (cases "now - last_scan h \<ge> timeout_ms h")
    case False
    then have "tally_ok m (start_tally now h)" using assms by (simp add: tally_ok_def start_tally_def told_def)
    then have "agrees (told m t) (visible_at (watching t))" using tally_sees by (auto simp: t_def tally_ok_def)
    moreover have "departed t = []" using False d by (simp add: start_tally_def)
    moreover have "visible_at kept = visible_at (watching t) |` (- (instance_id \<circ> fst) ` set gone)" using g k by (simp add: keyed_def)
    ultimately show ?thesis by (auto simp: agrees_def restrict_map_def)
  next
    case True
    then have "unseen (start_tally now h)" "watching (start_tally now h) = []" by (simp_all add: unseen_def start_tally_def)
    then have u: "unseen t" using unseen_records [of "start_tally now h" rs] assms(3) by (simp add: t_def)
    then have v: "gone = []" "visible_at kept = Map.empty" using unseen_sweep [OF s] by (auto simp: unseen_def)
    have t: "told m t = m" using u by (simp add: unseen_def told_def)
    have "departed t = map (\<lambda>p. (p, TimedOut)) (peers h)" using True d by (simp add: start_tally_def)
    then have "(instance_id \<circ> fst) ` set (departed t @ gone) = dom (visible_at (observations h))"
      using peers_visible [OF assms(1)] v(1) by (simp add: image_image)
    moreover have "m i = None" if "visible_at (observations h) i = None" for i
      using assms(2) that unfolding agrees_def by (metis option.rel_distinct(2) option.exhaust)
    ultimately show ?thesis unfolding t v by (auto simp: agrees_def restrict_map_def)
  qed
  then show ?thesis unfolding f using kk by (simp add: o)
qed

section \<open>What the messages leave alone\<close>

definition core :: "helper \<Rightarrow> _" where
  "core h = ((heartbeat_ms h, timeout_ms h, help_root h, own h, sequence h, is_running h, last_scan h, observations h),
     (epoch h, in_flight_cycle h, scan_pending h, publish_pending h, presence_lane h, presence_results h, own_file h, instances h))"

definition aside :: "helper \<Rightarrow> helper \<Rightarrow> bool" where
  "aside h k \<longleftrightarrow> core k = core h \<and> (\<exists>xs. hsignals k = hsignals h @ xs \<and> list_all (\<lambda>x. follow x = id) xs)"

interpretation aside: op_rel aside
proof
  show "aside h h" for h by (simp add: aside_def)
  show "aside h l" if "aside h k" "aside k l" for h k l
  proof -
    from that obtain xs ys where "hsignals k = hsignals h @ xs" "hsignals l = hsignals k @ ys"
      "list_all (\<lambda>x. follow x = id) xs" "list_all (\<lambda>x. follow x = id) ys" "core l = core h" by (auto simp: aside_def)
    then have "hsignals l = hsignals h @ (xs @ ys) \<and> list_all (\<lambda>x. follow x = id) (xs @ ys) \<and> core l = core h" by simp
    then show ?thesis unfolding aside_def by blast
  qed
qed

lemma aside_fields [simp]:
  "aside h (k\<lparr>help_error := e\<rparr>) = aside h k" "aside h (k\<lparr>outgoing_store := d\<rparr>) = aside h k"
  "aside h (k\<lparr>automatic_in_flight := b\<rparr>) = aside h k" "aside h (k\<lparr>automatic_messages := ms\<rparr>) = aside h k"
  "aside h (k\<lparr>account_manager := m\<rparr>) = aside h k" "aside h (k\<lparr>account_connected := b\<rparr>) = aside h k"
  "aside h (k\<lparr>account_revision := n\<rparr>) = aside h k"
  "aside h (k\<lparr>automatic_lane := l\<rparr>) = aside h k" "aside h (k\<lparr>automatic_results := rs\<rparr>) = aside h k"
  by (simp_all add: aside_def core_def)

lemma aside_emit [simp]: "follow x = id \<Longrightarrow> aside h k \<Longrightarrow> aside h (emit_signal x k)"
  by (auto simp: aside_def core_def emit_signal_def)

lemma follow_plain [simp]: "follow PeersChanged = id" "follow ErrorChanged = id" "follow (ErrorOccurred e) = id" "follow (DataQueued i) = id"
  "follow AccountManagerChanged = id" "follow AccountChanged = id"
  by (simp_all add: fun_eq_iff)

lemma aside_fail [simp]: "aside h k \<Longrightarrow> aside h (help_fail e k)"
  by (simp add: help_fail_def Let_def)

lemma aside_queue [simp]: "aside h k \<Longrightarrow> aside h (schedule_automatic k)" "aside h k \<Longrightarrow> aside h (queue_automatic topic body k)"
  by (simp_all add: schedule_automatic_def queue_automatic_def)

lemma aside_worker [simp]: "aside h k \<Longrightarrow> aside h (begin_automatic k)" "aside h k \<Longrightarrow> aside h (run_automatic Q p k)"
  by (simp_all add: begin_automatic_def run_automatic_def Let_def split_beta split: option.split)

lemma aside_queued: "aside h k \<Longrightarrow> aside h (fold (\<lambda>i. emit_signal (DataQueued i)) ids k)"
  by (induction ids arbitrary: k) simp_all

lemma aside_take [simp]: "aside h k \<Longrightarrow> aside h (take_automatic k)"
  by (simp add: take_automatic_def Let_def split_beta aside_queued split: list.split)

lemma aside_flush [simp]: "aside h k \<Longrightarrow> aside h (flush_automatic Q k)"
proof -
  have "aside h k \<Longrightarrow> aside h (flush_all Q ms k)" for ms k
    by (induction Q ms k rule: flush_all.induct) (simp_all add: Let_def split_beta)
  then show "aside h k \<Longrightarrow> aside h (flush_automatic Q k)" by (simp add: flush_automatic_def)
qed

lemma aside_send [simp]: "aside h k \<Longrightarrow> aside h (snd (send_data Q topic body k))" "aside h k \<Longrightarrow> aside h (snd (send_object Q topic enc k))"
  by (simp_all add: send_data_def send_object_def Let_def split_beta split: sum.split)

lemma aside_account [simp]: "aside h k \<Longrightarrow> aside h (snd (set_account_manager t m k))" "aside h k \<Longrightarrow> aside h (manager_destroyed k)"
  by (simp_all add: set_account_manager_def manager_destroyed_def)

section \<open>The invariant\<close>

definition heart_ok :: "env \<Rightarrow> heart \<Rightarrow> bool" where
  "heart_ok Q r \<longleftrightarrow> valid_application (application_of (heart_peer r)) \<and> 0 < process_id (heart_peer r)
     \<and> canonical_instance Q (instance_id (heart_peer r)) \<and> heart_sequence r \<noteq> 0"

definition lane_list :: "'j lane \<Rightarrow> 'j list" where
  "lane_list w = (case pending_job w of None \<Rightarrow> [] | Some j \<Rightarrow> [j]) @ (case active_job w of None \<Rightarrow> [] | Some j \<Rightarrow> [j])"

text \<open>What each part of the state is, and who may be in it.\<close>

definition options_ok :: "helper \<Rightarrow> bool" where
  "options_ok h \<longleftrightarrow> valid_application (application_of (own h)) \<and> 20 \<le> heartbeat_ms h \<and> heartbeat_ms h \<le> 60000
     \<and> 3 * heartbeat_ms h \<le> timeout_ms h \<and> timeout_ms h \<le> 300000"

definition watching_ok :: "env \<Rightarrow> string \<Rightarrow> (string \<times> observation) list \<Rightarrow> bool" where
  "watching_ok Q me os \<longleftrightarrow> keyed os \<and> (\<forall>(i, x) \<in> set os. heart_ok Q (seen_record x) \<and> i \<noteq> me)"

definition job_ok :: "nat \<Rightarrow> string \<Rightarrow> cycle_job \<Rightarrow> bool" where
  "job_ok n me j \<longleftrightarrow> job_epoch j \<le> n \<and> (job_epoch j = n \<longrightarrow> instance_id (job_local j) = me)"

definition result_ok :: "env \<Rightarrow> nat \<Rightarrow> string \<Rightarrow> nat \<times> presence_result \<Rightarrow> bool" where
  "result_ok Q n me x \<longleftrightarrow> fst x \<le> n \<and> distinct (map (instance_id \<circ> heart_peer) (heard (snd x)))
     \<and> (\<forall>r\<in>set (heard (snd x)). heart_ok Q r \<and> (fst x = n \<longrightarrow> instance_id (heart_peer r) \<noteq> me))"

definition typed :: "env \<Rightarrow> helper \<Rightarrow> bool" where
  "typed Q h \<longleftrightarrow> (is_running h \<longrightarrow> options_ok h) \<and> (\<not> is_running h \<longrightarrow> observations h = [])
     \<and> watching_ok Q (instance_id (own h)) (observations h)
     \<and> list_all (job_ok (epoch h) (instance_id (own h))) (lane_list (presence_lane h))
     \<and> list_all (result_ok Q (epoch h) (instance_id (own h))) (presence_results h)"

text \<open>The inspections of the present epoch that are under way.\<close>

definition under_way :: "helper \<Rightarrow> nat" where
  "under_way h = length (filter (\<lambda>j. job_epoch j = epoch h) (lane_list (presence_lane h)))
     + length (filter (\<lambda>x. fst x = epoch h) (presence_results h))"

definition cycles_ok :: "helper \<Rightarrow> bool" where
  "cycles_ok h \<longleftrightarrow> under_way h = (if in_flight_cycle h then 1 else 0) \<and> (in_flight_cycle h \<longrightarrow> is_running h)
     \<and> (scan_pending h \<longrightarrow> in_flight_cycle h) \<and> (publish_pending h \<longrightarrow> scan_pending h)"

definition helper_ok :: "env \<Rightarrow> helper \<Rightarrow> bool" where
  "helper_ok Q h \<longleftrightarrow> typed Q h \<and> cycles_ok h \<and> agrees (followed (hsignals h)) (visible_at (observations h))"

lemma follow_quiet: "list_all (\<lambda>x. follow x = id) xs \<Longrightarrow> fold follow xs m = m"
  by (induction xs arbitrary: m) auto

lemma followed_append: "followed (xs @ ys) = fold follow ys (followed xs)"
  by (simp add: followed_def)

lemma core_ok: "core k = core h \<Longrightarrow> typed Q k = typed Q h \<and> cycles_ok k = cycles_ok h \<and> observations k = observations h"
  unfolding core_def by (auto simp: typed_def options_ok_def cycles_ok_def under_way_def)

lemma aside_ok: "helper_ok Q h \<Longrightarrow> aside h k \<Longrightarrow> helper_ok Q k"
proof -
  assume h: "helper_ok Q h" and k: "aside h k"
  then obtain xs where x: "hsignals k = hsignals h @ xs" "list_all (\<lambda>x. follow x = id) xs" and c: "core k = core h"
    by (auto simp: aside_def)
  then show "helper_ok Q k" using h core_ok [OF c] by (simp add: helper_ok_def followed_append follow_quiet)
qed

section \<open>Records\<close>

lemma digits_val_nonneg: "digits_val acc s = Some n \<Longrightarrow> 0 \<le> acc \<Longrightarrow> 0 \<le> n"
  by (induction acc s rule: digits_val.induct) (auto simp: digit_val_def Let_def split: option.splits if_splits)

lemma to_ull_bounds: "to_ull s = Some n \<Longrightarrow> 0 \<le> n \<and> n < 2 ^ 64"
  by (auto simp: to_ull_def Let_def split: if_splits option.splits dest: digits_val_nonneg)

lemma word_not_0: "0 < n \<Longrightarrow> n < 2 ^ 64 \<Longrightarrow> (word_of_int n :: 64 word) \<noteq> 0"
proof
  assume n: "0 < n" "n < 2 ^ 64" "(word_of_int n :: 64 word) = 0"
  then have "uint (word_of_int n :: 64 word) = 0" by simp
  then show False using n(1,2) by (simp add: uint_word_of_int)
qed

lemma record_of_ok: "record_of Q i x = Some r \<Longrightarrow> canonical_instance Q i \<Longrightarrow> heart_ok Q r \<and> instance_id (heart_peer r) = i"
proof -
  assume r: "record_of Q i x = Some r" and c: "canonical_instance Q i"
  define n where "n = to_ull (jstr (oget ''heartbeat'' x))"
  have "n \<noteq> None" "n \<noteq> Some 0" "0 < process_id (heart_peer r)" "valid_application (application_of (heart_peer r))"
    "instance_id (heart_peer r) = i" "heart_sequence r = word_of_int (the n)"
    using r by (auto simp: record_of_def n_def [symmetric] application_of_def Let_def split: if_splits option.splits)
  moreover from this(1,2) have "word_of_int (the n) \<noteq> (0 :: 64 word)"
    using to_ull_bounds [of "jstr (oget ''heartbeat'' x)"] by (intro word_not_0) (auto simp: n_def order_le_less)
  ultimately show ?thesis using c by (simp add: heart_ok_def)
qed

lemma read_record_ok: "read_record Q e = Some r \<Longrightarrow> heart_ok Q r \<and> instance_id (heart_peer r) = base_name e"
  by (auto simp: read_record_def Let_def dest: record_of_ok split: if_splits option.splits)

lemma heard_listing: "distinct (map base_name es) \<Longrightarrow> distinct (map (instance_id \<circ> heart_peer) (List.map_filter (read_record Q) es))
    \<and> (instance_id \<circ> heart_peer) ` set (List.map_filter (read_record Q) es) \<subseteq> base_name ` set es
    \<and> (\<forall>r \<in> set (List.map_filter (read_record Q) es). heart_ok Q r)"
proof (induction es)
  case (Cons e es)
  then have ih: "distinct (map (instance_id \<circ> heart_peer) (List.map_filter (read_record Q) es))"
    "(instance_id \<circ> heart_peer) ` set (List.map_filter (read_record Q) es) \<subseteq> base_name ` set es"
    "\<forall>r \<in> set (List.map_filter (read_record Q) es). heart_ok Q r" "base_name e \<notin> base_name ` set es" by (auto simp: comp_def)
  show ?case
  proof (cases "read_record Q e")
    case None
    then have "List.map_filter (read_record Q) (e # es) = List.map_filter (read_record Q) es" by (simp add: List.map_filter_simps)
    then show ?thesis using ih by (auto simp: comp_def)
  next
    case (Some r)
    then have "List.map_filter (read_record Q) (e # es) = r # List.map_filter (read_record Q) es" by (simp add: List.map_filter_simps)
    moreover have "(instance_id \<circ> heart_peer) r \<notin> (instance_id \<circ> heart_peer) ` set (List.map_filter (read_record Q) es)"
      using ih(2,4) read_record_ok [OF Some] by auto
    ultimately show ?thesis using ih read_record_ok [OF Some] by (auto simp: comp_def)
  qed
qed (simp add: List.map_filter_simps)

lemma scan_board_ok:
  assumes "distinct (map base_name (listing b))"
  shows "distinct (map (instance_id \<circ> heart_peer) (heard (scan_board Q p b r)))
    \<and> (\<forall>x\<in>set (heard (scan_board Q p b r)). heart_ok Q x \<and> instance_id (heart_peer x) \<noteq> instance_id p)"
proof -
  have "distinct (map (instance_id \<circ> heart_peer) (filter P xs))" if "distinct (map (instance_id \<circ> heart_peer) xs)" for P and xs :: "heart list"
    using that by (induction xs) auto
  then show ?thesis using heard_listing [OF assms, of Q] by (simp add: scan_board_def)
qed

lemma inspect_ok:
  assumes "distinct (map base_name (listing b))" "inspect_presence Q b root p n pub sc = (r, written)"
  shows "distinct (map (instance_id \<circ> heart_peer) (heard r)) \<and> (\<forall>x\<in>set (heard r). heart_ok Q x \<and> instance_id (heart_peer x) \<noteq> instance_id p)"
  using assms scan_board_ok [OF assms(1)] by (auto simp: inspect_presence_def Let_def split: if_splits option.splits)

section \<open>Each operation\<close>

lemma lane_begin [simp]: "set (lane_list (begin_job w)) = set (lane_list w)"
  "length (filter P (lane_list (begin_job w))) = length (filter P (lane_list w))"
  by (auto simp: lane_list_def begin_job_def split: option.splits)

lemma lane_post: "set (lane_list (post_job j w)) \<subseteq> insert j (set (lane_list w))"
  "filter P (lane_list w) = [] \<Longrightarrow> length (filter P (lane_list (post_job j w))) = (if P j then 1 else 0)"
  by (auto simp: lane_list_def post_job_def split: option.splits if_splits)

lemma request_ok: "helper_ok Q h \<Longrightarrow> helper_ok Q (request_cycle b h)"
proof -
  assume h: "helper_ok Q h"
  show ?thesis
  proof (cases "is_running h \<and> \<not> in_flight_cycle h")
    case False
    then show ?thesis using h
      by (auto simp: request_cycle_def helper_ok_def typed_def cycles_ok_def under_way_def options_ok_def)
  next
    case True
    define k where "k = (if b then h\<lparr>sequence := sequence h + 1\<rparr> else h)"
    define j where "j = \<lparr>job_epoch = epoch k, job_root = help_root k, job_local = own k, job_heartbeat = sequence k, job_publish = b\<rparr>"
    have r: "request_cycle b h = k\<lparr>in_flight_cycle := True, presence_lane := post_job j (presence_lane k)\<rparr>"
      using True by (simp add: request_cycle_def k_def j_def Let_def)
    have k: "helper_ok Q k" "is_running k" "\<not> in_flight_cycle k"
      using h True by (auto simp: k_def helper_ok_def typed_def cycles_ok_def under_way_def options_ok_def)
    have none: "filter (\<lambda>j. job_epoch j = epoch k) (lane_list (presence_lane k)) = []" "filter (\<lambda>x. fst x = epoch k) (presence_results k) = []"
      using k(1,3) by (auto simp: helper_ok_def cycles_ok_def under_way_def)
    have "job_ok (epoch k) (instance_id (own k)) j" by (simp add: job_ok_def j_def)
    then have "list_all (job_ok (epoch k) (instance_id (own k))) (lane_list (post_job j (presence_lane k)))"
      using k(1) lane_post(1) [of j "presence_lane k"] by (auto simp: helper_ok_def typed_def list_all_iff)
    moreover have "length (filter (\<lambda>j. job_epoch j = epoch k) (lane_list (post_job j (presence_lane k)))) = 1"
      using lane_post(2) [OF none(1)] by (simp add: j_def)
    ultimately show ?thesis unfolding r using k none(2)
      by (auto simp: helper_ok_def typed_def cycles_ok_def under_way_def options_ok_def)
  qed
qed

lemma cycle_begin_ok: "helper_ok Q h \<Longrightarrow> helper_ok Q (begin_cycle h)"
  by (simp add: begin_cycle_def helper_ok_def typed_def cycles_ok_def under_way_def options_ok_def list_all_iff)

definition seen_ok :: "env \<Rightarrow> helper \<Rightarrow> bool" where
  "seen_ok Q h \<longleftrightarrow> typed Q h \<and> agrees (followed (hsignals h)) (visible_at (observations h))"

lemma helper_ok_iff: "helper_ok Q h \<longleftrightarrow> seen_ok Q h \<and> cycles_ok h"
  by (auto simp: helper_ok_def seen_ok_def)

lemma aside_seen: "seen_ok Q h \<Longrightarrow> aside h k \<Longrightarrow> seen_ok Q k"
proof -
  assume h: "seen_ok Q h" and k: "aside h k"
  then obtain xs where x: "hsignals k = hsignals h @ xs" "list_all (\<lambda>x. follow x = id) xs" and c: "core k = core h"
    by (auto simp: aside_def)
  then show "seen_ok Q k" using h core_ok [OF c] by (simp add: seen_ok_def followed_append follow_quiet)
qed

text \<open>What an inspection leaves alone.\<close>

definition beside :: "helper \<Rightarrow> _" where
  "beside h = (is_running h, in_flight_cycle h, scan_pending h, publish_pending h, epoch h, own h, observations h, hsignals h)"

lemma run_seen:
  assumes "seen_ok Q h" "one_of_a_name b"
  shows "seen_ok Q (run_cycle Q b h)" and "under_way (run_cycle Q b h) = under_way h"
    and "beside (run_cycle Q b h) = beside h"
proof -
  have P: "seen_ok Q (run_cycle Q b h) \<and> under_way (run_cycle Q b h) = under_way h
    \<and> beside (run_cycle Q b h) = beside h"
  proof (cases "active_job (presence_lane h)")
    case None
    then show ?thesis using assms by (simp add: run_cycle_def)
  next
    case (Some j)
    obtain r written where i: "inspect_presence Q b (job_root j) (job_local j) (job_heartbeat j) (job_publish j) True = (r, written)"
      by (cases "inspect_presence Q b (job_root j) (job_local j) (job_heartbeat j) (job_publish j) True")
    let ?l = "(presence_lane h)\<lparr>active_job := None\<rparr>"
    have l: "lane_list (presence_lane h) = lane_list ?l @ [j]" using Some by (simp add: lane_list_def)
    have j: "job_ok (epoch h) (instance_id (own h)) j" using assms by (auto simp: seen_ok_def typed_def l)
    then have o: "result_ok Q (epoch h) (instance_id (own h)) (job_epoch j, r)"
      using inspect_ok [OF assms(2) [unfolded one_of_a_name_def] i] by (auto simp: result_ok_def job_ok_def)
    define k where "k = h\<lparr>presence_results := presence_results h @ [(job_epoch j, r)], own_file := (if written = None then own_file h else written),
      presence_lane := ?l\<rparr>"
    have r: "run_cycle Q b h = k" by (simp add: run_cycle_def Some i k_def)
    have "seen_ok Q k" using assms(1) o l by (auto simp: k_def seen_ok_def typed_def options_ok_def)
    moreover have "under_way k = under_way h" using l by (simp add: k_def under_way_def)
    moreover have "beside k = beside h" by (simp add: k_def beside_def)
    ultimately show ?thesis unfolding r by blast
  qed
  show "seen_ok Q (run_cycle Q b h)" by (rule P [THEN conjunct1])
  show "under_way (run_cycle Q b h) = under_way h" by (rule P [THEN conjunct2, THEN conjunct1])
  show "beside (run_cycle Q b h) = beside h" by (rule P [THEN conjunct2, THEN conjunct2])
qed

lemma run_ok: "helper_ok Q h \<Longrightarrow> one_of_a_name b \<Longrightarrow> helper_ok Q (run_cycle Q b h)"
  using run_seen [of Q h b] by (simp add: helper_ok_iff cycles_ok_def beside_def)

lemma activity_ok: "helper_ok Q h \<Longrightarrow> helper_ok Q (set_activity a h)"
proof -
  assume h: "helper_ok Q h"
  let ?k = "h\<lparr>own := (own h)\<lparr>peer_activity := a\<rparr>\<rparr>"
  have k: "helper_ok Q ?k" using h
    by (auto simp: helper_ok_def typed_def cycles_ok_def under_way_def options_ok_def application_of_def)
  have "helper_ok Q (queue_automatic t body (request_cycle True ?k))" for t body
    by (rule aside_ok [OF request_ok [OF k, of True]]) simp
  then show ?thesis using h k by (simp add: set_activity_def Let_def)
qed

text \<open>The scan.\<close>

lemma tell_signals:
  "core (fold tell_appeared ps h) = core h \<and> hsignals (fold tell_appeared ps h) = hsignals h @ map PeerAppeared ps"
  "core (fold tell_updated ps h) = core h \<and> hsignals (fold tell_updated ps h) = hsignals h @ map PeerUpdated ps"
  "core (fold tell_departed ds h) = core h \<and> hsignals (fold tell_departed ds h) = hsignals h @ map (\<lambda>(p, r). PeerDisappeared p r) ds"
proof -
  have q: "core (queue_automatic t b k) = core k \<and> hsignals (queue_automatic t b k) = hsignals k" for t b k
    by (simp add: queue_automatic_def schedule_automatic_def core_def)
  have e: "core (emit_signal x k) = core k \<and> hsignals (emit_signal x k) = hsignals k @ [x]" for x k
    by (simp add: emit_signal_def core_def)
  show "core (fold tell_appeared ps h) = core h \<and> hsignals (fold tell_appeared ps h) = hsignals h @ map PeerAppeared ps"
    by (induction ps arbitrary: h) (simp_all add: tell_appeared_def q e)
  show "core (fold tell_updated ps h) = core h \<and> hsignals (fold tell_updated ps h) = hsignals h @ map PeerUpdated ps"
    by (induction ps arbitrary: h) (simp_all add: tell_updated_def q e)
  show "core (fold tell_departed ds h) = core h \<and> hsignals (fold tell_departed ds h) = hsignals h @ map (\<lambda>(p, r). PeerDisappeared p r) ds"
    by (induction ds arbitrary: h) (auto simp: tell_departed_def q e)
qed

lemma scan_effect:
  assumes "is_running h"
  shows "core (scan_peers Q now rs present h) = core (h\<lparr>observations := watching (observe Q now rs present h), last_scan := now\<rparr>)"
    and "hsignals (scan_peers Q now rs present h) = hsignals h @ tell_all (observe Q now rs present h)"
proof -
  define t where "t = observe Q now rs present h"
  have e: "core (emit_signal x k) = core k \<and> hsignals (emit_signal x k) = hsignals k @ [x]" for x k
    by (simp add: emit_signal_def core_def)
  show "core (scan_peers Q now rs present h) = core (h\<lparr>observations := watching (observe Q now rs present h), last_scan := now\<rparr>)"
    using assms by (simp add: scan_peers_def t_def [symmetric] tell_signals e Let_def)
  show "hsignals (scan_peers Q now rs present h) = hsignals h @ tell_all (observe Q now rs present h)"
    using assms by (simp add: scan_peers_def t_def [symmetric] tell_signals tell_all_def e Let_def)
qed

lemma watch_see:
  assumes "watching_ok Q me (watching t)" "heart_ok Q r" "instance_id (heart_peer r) \<noteq> me"
  shows "watching_ok Q me (watching (see_record Q now r t))"
proof -
  have put: "watching_ok Q me (put_sorted (instance_id (heart_peer r)) x (watching t))"
    if "heart_ok Q (seen_record x)" "instance_id (heart_peer (seen_record x)) = instance_id (heart_peer r)" for x
    using assms that set_put_sorted [of "instance_id (heart_peer r)" x "watching t"] by (auto simp: watching_ok_def keyed_put)
  have "heart_ok Q (r\<lparr>heart_peer := (heart_peer r)\<lparr>last_seen_at := s\<rparr>\<rparr>)" for s
    using assms(2) by (simp add: heart_ok_def application_of_def)
  then show ?thesis using assms put by (auto simp: see_record_def Let_def split: option.split)
qed

lemma sweep_kept: "sweep timeout now present os = (kept, gone) \<Longrightarrow> (i, y) \<in> set kept \<Longrightarrow> \<exists>x. (i, x) \<in> set os \<and> seen_record y = seen_record x"
  by (induction timeout now present os arbitrary: kept gone rule: sweep.induct) (force simp: Let_def split: if_splits prod.splits)+

lemma watch_observe:
  assumes "watching_ok Q me (observations h)" "\<forall>r\<in>set rs. heart_ok Q r \<and> instance_id (heart_peer r) \<noteq> me"
  shows "watching_ok Q me (watching (observe Q now rs present h))"
proof -
  have "watching_ok Q me (watching (fold (see_record Q now) rs t))" if "watching_ok Q me (watching t)" for t
    using that assms(2) by (induction rs arbitrary: t) (simp_all add: watch_see)
  moreover have "watching_ok Q me (watching (start_tally now h))" using assms(1) by (simp add: start_tally_def watching_ok_def keyed_def)
  ultimately have w: "watching_ok Q me (watching (fold (see_record Q now) rs (start_tally now h)))" by blast
  obtain kept gone where s: "sweep (timeout_ms h) now (present @ map (\<lambda>r. instance_id (heart_peer r)) rs)
      (watching (fold (see_record Q now) rs (start_tally now h))) = (kept, gone)" by fastforce
  have k: "keyed (watching (fold (see_record Q now) rs (start_tally now h)))" using w by (simp add: watching_ok_def)
  have "keyed kept" using sweep_gone [OF s keyed_distinct [OF k]] k by (auto simp: keyed_def)
  moreover have "heart_ok Q (seen_record y) \<and> i \<noteq> me" if "(i, y) \<in> set kept" for i y
    using sweep_kept [OF s that] w by (auto simp: watching_ok_def)
  ultimately show ?thesis by (auto simp: observe_def s watching_ok_def Let_def)
qed

lemma scan_seen:
  assumes "seen_ok Q h" "is_running h" "result_ok Q (epoch h) (instance_id (own h)) (epoch h, r)"
  shows "seen_ok Q (scan_peers Q now (heard r) present h)"
proof -
  let ?t = "observe Q now (heard r) present h" and ?k = "scan_peers Q now (heard r) present h"
  note e = scan_effect [OF assms(2), of Q now "heard r" present]
  have w: "watching_ok Q (instance_id (own h)) (watching ?t)"
    using assms by (intro watch_observe) (auto simp: seen_ok_def typed_def result_ok_def)
  have "typed Q (h\<lparr>observations := watching ?t, last_scan := now\<rparr>)"
    using assms(1,2) w by (simp add: seen_ok_def typed_def options_ok_def)
  then have "typed Q ?k" "observations ?k = watching ?t" using core_ok [OF e(1)] by auto
  moreover have "agrees (followed (hsignals ?k)) (visible_at (watching ?t))"
    unfolding e(2) followed_append using assms
    by (intro observe_agrees [THEN conjunct2]) (auto simp: seen_ok_def typed_def watching_ok_def result_ok_def)
  ultimately show ?thesis by (simp add: seen_ok_def)
qed

text \<open>Stopping, whatever is under way.\<close>

lemma stopped_under_way: "typed Q h \<Longrightarrow> under_way (h\<lparr>epoch := Suc (epoch h), presence_lane := w\<rparr>) = 0"
  if "set (lane_list w) \<subseteq> set (lane_list (presence_lane h))"
  using that by (force simp: typed_def under_way_def list_all_iff job_ok_def result_ok_def filter_empty_conv)

lemma next_epoch: "typed Q h \<Longrightarrow> set (lane_list w) \<subseteq> set (lane_list (presence_lane h)) \<Longrightarrow>
    list_all (job_ok (Suc (epoch h)) me) (lane_list w) \<and> list_all (result_ok Q (Suc (epoch h)) me) (presence_results h)"
proof -
  assume t: "typed Q h" and w: "set (lane_list w) \<subseteq> set (lane_list (presence_lane h))"
  have "job_epoch j \<le> epoch h" if "j \<in> set (lane_list w)" for j
    using t w that unfolding typed_def list_all_iff job_ok_def by blast
  then have "job_ok (Suc (epoch h)) me j" if "j \<in> set (lane_list w)" for j using that by (force simp: job_ok_def)
  moreover have "result_ok Q (Suc (epoch h)) me x" if "x \<in> set (presence_results h)" for x
  proof -
    have "result_ok Q (epoch h) (instance_id (own h)) x" using t that by (simp add: typed_def list_all_iff)
    then show ?thesis by (auto simp: result_ok_def)
  qed
  ultimately show ?thesis by (simp add: list_all_iff)
qed

lemma stop_helper_ok:
  assumes "seen_ok Q h" "one_of_a_name (last_board v)"
  shows "helper_ok Q (stop_helper Q v h) \<and> \<not> is_running (stop_helper Q v h) \<and> \<not> in_flight_cycle (stop_helper Q v h)"
proof -
  let ?w = "(presence_lane h)\<lparr>pending_job := None\<rparr>"
  define h1 where "h1 = h\<lparr>epoch := Suc (epoch h), presence_lane := ?w\<rparr>"
  have w: "set (lane_list ?w) \<subseteq> set (lane_list (presence_lane h))" by (auto simp: lane_list_def split: option.splits)
  have t: "typed Q h" using assms(1) by (simp add: seen_ok_def)
  have s1: "seen_ok Q h1" "under_way h1 = 0"
    using assms(1) next_epoch [OF t w] stopped_under_way [OF w t] by (auto simp: h1_def seen_ok_def typed_def options_ok_def)
  define h2 where "h2 = run_cycle Q (last_board v) h1"
  have s2: "seen_ok Q h2" "under_way h2 = 0" using run_seen [OF s1(1) assms(2)] s1(2) by (simp_all add: h2_def)
  define h3 where "h3 = run_automatic Q (last_place v) (begin_automatic (run_automatic Q (last_place v) h2))"
  have a3: "aside h2 h3" by (simp add: h3_def)
  define h4 where "h4 = h3\<lparr>in_flight_cycle := False, scan_pending := False, publish_pending := False, automatic_in_flight := False\<rparr>"
  have "seen_ok Q h3" by (rule aside_seen [OF s2(1) a3])
  moreover have "under_way h3 = 0" using a3 s2(2) unfolding aside_def core_def by (simp add: under_way_def)
  ultimately have s4: "helper_ok Q h4"
    by (simp add: h4_def helper_ok_iff seen_ok_def cycles_ok_def typed_def options_ok_def under_way_def)
  define h5 where "h5 = flush_automatic Q h4"
  have s5: "helper_ok Q h5" by (rule aside_ok [OF s4]) (simp add: h5_def)
  define h6 where "h6 = (if is_running h5 then snd (send_data Q ''helper.stopped'' (peer_map (own h5)) h5) else h5)"
  have a6: "aside h4 h6" by (simp add: h6_def h5_def)
  then have s6: "helper_ok Q h6" by (rule aside_ok [OF s4])
  have f6: "\<not> in_flight_cycle h6" "is_running h6 = is_running h5"
    using a6 aside_flush [of h4 h4 Q, folded h5_def] unfolding aside_def core_def by (simp_all add: h4_def)
  define h7 where "h7 = h6\<lparr>is_running := False,
    own_file := (if instance_id (own h6) \<noteq> [] \<and> intact_root (final_board v) (help_root h6) then None else own_file h6),
    observations := [], outgoing_store := close_delivery (outgoing_store h6)\<rparr>"
  have t7: "typed Q h7" "cycles_ok h7"
    using s6 f6(1) by (auto simp: h7_def helper_ok_def typed_def cycles_ok_def under_way_def options_ok_def watching_ok_def keyed_def)
  have o: "agrees Map.empty (visible_at [])" by (simp add: agrees_def visible_at_def)
  have e: "core (emit_signal x k) = core k \<and> hsignals (emit_signal x k) = hsignals k @ [x]" for x k
    by (simp add: emit_signal_def core_def)
  define h8 where "h8 = (if is_running h5 then emit_signal RunningChanged h7 else h7)"
  have c8: "core h8 = core h7" by (simp add: h8_def e)
  have "agrees (followed (hsignals h8)) (visible_at (observations h8))"
  proof (cases "is_running h5")
    case True
    then show ?thesis using o by (simp add: h8_def followed_append) (simp add: emit_signal_def h7_def followed_def)
  next
    case False
    then have "observations h6 = []" using s6 f6(2) by (simp add: helper_ok_def typed_def)
    then show ?thesis using False s6 by (simp add: h8_def h7_def helper_ok_def)
  qed
  then have s8: "helper_ok Q h8" "\<not> is_running h8" "\<not> in_flight_cycle h8"
    using core_ok [OF c8] t7 c8 f6(1) by (simp_all add: helper_ok_def core_def h7_def)
  have "stop_helper Q v h = (if peers h5 \<noteq> [] then emit_signal PeersChanged h8 else h8)"
    unfolding stop_helper_def Let_def h1_def [symmetric] h2_def [symmetric] h3_def [symmetric] h4_def [symmetric] h5_def [symmetric]
      h6_def [symmetric] h7_def [symmetric] h8_def [symmetric] ..
  moreover have "helper_ok Q (emit_signal PeersChanged h8)" by (rule aside_ok [OF s8(1)]) simp
  ultimately show ?thesis using s8 by (simp add: emit_signal_def)
qed

lemma aside_core: "aside h k \<Longrightarrow> core k = core h"
  by (simp add: aside_def)

lemma take_shape:
  assumes "presence_results h = (epoch h, r) # rest" "is_running h" "presence_error r = []"
    and "l = h\<lparr>presence_results := rest, in_flight_cycle := False\<rparr>"
    and "n = (if published_at r \<noteq> [] then l\<lparr>own := (own l)\<lparr>last_seen_at := published_at r\<rparr>\<rparr> else l)"
    and "s = scan_peers Q now (heard r) (present_ids r) n"
  shows "take_cycle Q now v h = (if scan_pending s then request_cycle (publish_pending s) (s\<lparr>scan_pending := False, publish_pending := False\<rparr>) else s)"
    and "core s = core (n\<lparr>observations := watching (observe Q now (heard r) (present_ids r) n), last_scan := now\<rparr>)"
proof -
  define k where "k = h\<lparr>presence_results := rest\<rparr>"
  have l: "l = k\<lparr>in_flight_cycle := False\<rparr>" by (simp add: assms(4) k_def)
  have n: "is_running n" "epoch n = epoch h" using assms(2) by (simp_all add: assms(4,5))
  show c: "core s = core (n\<lparr>observations := watching (observe Q now (heard r) (present_ids r) n), last_scan := now\<rparr>)"
    using scan_effect(1) [OF n(1)] by (simp add: assms(6))
  have f: "(\<not> is_running k \<or> epoch k \<noteq> epoch h) = False" "(presence_error r \<noteq> []) = False" "(\<not> is_running s \<or> epoch s \<noteq> epoch h) = False"
    using assms(2,3) c n by (simp_all add: k_def core_def)
  show "take_cycle Q now v h = (if scan_pending s then request_cycle (publish_pending s) (s\<lparr>scan_pending := False, publish_pending := False\<rparr>) else s)"
    unfolding take_cycle_def assms(1) list.case prod.case Let_def k_def [symmetric] f(1,2) if_False l [symmetric] assms(5) [symmetric]
      assms(6) [symmetric] f(3) ..
qed

lemma take_ok:
  assumes "helper_ok Q h" "one_of_a_name (last_board v)"
  shows "helper_ok Q (take_cycle Q now v h)"
proof (cases "presence_results h")
  case (Cons x rest)
  obtain e r where x: "x = (e, r)" by (cases x)
  define k where "k = h\<lparr>presence_results := rest\<rparr>"
  show ?thesis
  proof (cases "\<not> is_running h \<or> epoch h \<noteq> e")
    case True
    then have "helper_ok Q k" using assms(1) Cons x
      by (auto simp: k_def helper_ok_def typed_def cycles_ok_def under_way_def options_ok_def split: if_splits)
    then show ?thesis using True by (simp add: take_cycle_def Cons x k_def)
  next
    case False
    have ok: "result_ok Q (epoch h) (instance_id (own h)) (epoch h, r)" using assms(1) Cons x False by (simp add: helper_ok_def typed_def)
    have u: "in_flight_cycle h" "under_way k = 0"
      using assms(1) Cons x False by (auto simp: k_def helper_ok_def cycles_ok_def under_way_def split: if_splits)
    define l where "l = k\<lparr>in_flight_cycle := False\<rparr>"
    have sl: "seen_ok Q l" "under_way l = 0"
      using assms(1) Cons u(2) by (auto simp: l_def k_def helper_ok_def seen_ok_def typed_def options_ok_def under_way_def)
    show ?thesis
    proof (cases "presence_error r = []")
      case err: False
      have "helper_ok Q (help_fail (presence_error r) (stop_helper Q v l))"
        by (rule aside_ok [OF stop_helper_ok [OF sl(1) assms(2), THEN conjunct1]]) simp
      then show ?thesis using False err by (simp add: take_cycle_def Cons x k_def l_def)
    next
      case True
      define n where "n = (if published_at r \<noteq> [] then l\<lparr>own := (own l)\<lparr>last_seen_at := published_at r\<rparr>\<rparr> else l)"
      have n: "seen_ok Q n" "under_way n = 0" "is_running n" "epoch n = epoch h" "instance_id (own n) = instance_id (own h)"
        "scan_pending n = scan_pending h" "publish_pending n = publish_pending h" "\<not> in_flight_cycle n"
        using sl False by (auto simp: n_def l_def k_def seen_ok_def typed_def options_ok_def under_way_def application_of_def)
      define s where "s = scan_peers Q now (heard r) (present_ids r) n"
      have s: "seen_ok Q s" using scan_seen [OF n(1,3)] ok by (simp add: s_def n)
      have c: "under_way s = 0" "is_running s" "epoch s = epoch h" "\<not> in_flight_cycle s" "scan_pending s = scan_pending h"
        "publish_pending s = publish_pending h"
        using scan_effect(1) [OF n(3), of Q now "heard r" "present_ids r"] n unfolding s_def [symmetric] core_def
        by (simp_all add: under_way_def)
      have "helper_ok Q (s\<lparr>scan_pending := False, publish_pending := False\<rparr>)"
        using s c by (auto simp: helper_ok_iff seen_ok_def cycles_ok_def typed_def options_ok_def under_way_def)
      then have again: "helper_ok Q (request_cycle b (s\<lparr>scan_pending := False, publish_pending := False\<rparr>))" for b by (rule request_ok)
      have still: "helper_ok Q s" if "\<not> scan_pending s"
        using s c that assms(1) by (auto simp: helper_ok_iff cycles_ok_def)
      have e: "e = epoch h" using False by simp
      have "l = h\<lparr>presence_results := rest, in_flight_cycle := False\<rparr>" by (simp add: l_def k_def)
      from take_shape(1) [OF Cons [unfolded x e] _ True this n_def s_def]
      have "take_cycle Q now v h = (if scan_pending s then request_cycle (publish_pending s) (s\<lparr>scan_pending := False, publish_pending := False\<rparr>) else s)"
        using False by simp
      then show ?thesis using again still by simp
    qed
  qed
qed (use assms in \<open>simp add: take_cycle_def\<close>)

text \<open>Starting.\<close>

lemma application_of_new: "application_of \<lparr>application_id = app_id a, application_name = app_name a, application_version = app_version a,
    instance_id = i, process_id = n, peer_activity = act, started_at = s, last_seen_at = l\<rparr> = a"
  by (simp add: application_of_def)

lemma emit_core: "core (emit_signal x k) = core k"
  by (simp add: emit_signal_def core_def)

lemma publish_ok:
  assumes "helper_ok Q h" "\<not> is_running h" "one_of_a_name (last_board v)" "publish_helper Q b v h = (ok, k)"
  shows "helper_ok Q k \<and> \<not> is_running k \<and> (ok \<longrightarrow> heartbeat_ms k = heartbeat_ms h \<and> timeout_ms k = timeout_ms h
    \<and> application_of (own k) = application_of (own h))"
proof -
  let ?n = "sequence h + 1"
  obtain r written where i: "inspect_presence Q b (help_root h) (own h) ?n True False = (r, written)"
    by (cases "inspect_presence Q b (help_root h) (own h) ?n True False")
  define g where "g = h\<lparr>sequence := ?n, own_file := (if written = None then own_file h else written)\<rparr>"
  have g: "helper_ok Q g" using assms(1) by (simp add: g_def helper_ok_def typed_def cycles_ok_def under_way_def options_ok_def)
  have p: "publish_helper Q b v h = (if presence_error r = [] then (True, g\<lparr>own := (own g)\<lparr>last_seen_at := published_at r\<rparr>\<rparr>)
      else (False, help_fail (presence_error r) (stop_helper Q v g)))"
    by (simp add: publish_helper_def i g_def Let_def)
  show ?thesis
  proof (cases "presence_error r = []")
    case True
    then have k: "k = g\<lparr>own := (own g)\<lparr>last_seen_at := published_at r\<rparr>\<rparr>" "ok" using p assms(4) by auto
    have "helper_ok Q k" using g by (simp add: k helper_ok_def typed_def cycles_ok_def under_way_def options_ok_def application_of_def)
    then show ?thesis using assms(2) by (simp add: k g_def application_of_def)
  next
    case False
    then have k: "k = help_fail (presence_error r) (stop_helper Q v g)" "\<not> ok" using p assms(4) by auto
    have s: "helper_ok Q (stop_helper Q v g)" "\<not> is_running (stop_helper Q v g)"
      using stop_helper_ok [of Q g v] g assms(3) by (auto simp: helper_ok_iff)
    have a: "aside (stop_helper Q v g) k" by (simp add: k)
    show ?thesis using aside_ok [OF s(1) a] aside_core [OF a] s(2) k(2) by (simp add: core_def)
  qed
qed

lemma started_ok:
  assumes "helper_ok Q h" "\<not> is_running h" "one_of_a_name (last_board v)" "valid_application a" "20 \<le> beat" "beat \<le> 60000"
    "beat * 3 \<le> timeout" "timeout \<le> 300000"
  shows "helper_ok Q (snd (start_checked Q L v a beat timeout h))"
proof -
  obtain opened d where o: "open_delivery (launch_place L) (outgoing_store h) = (opened, d)" by (cases "open_delivery (launch_place L) (outgoing_store h)")
  define h1 where "h1 = h\<lparr>help_root := real_path L, outgoing_store := d\<rparr>"
  have h1: "helper_ok Q h1" using assms(1) by (simp add: h1_def helper_ok_def typed_def cycles_ok_def under_way_def options_ok_def)
  define p where "p = \<lparr>application_id = app_id a, application_name = app_name a, application_version = app_version a,
    instance_id = new_uuid Q (instances h1), process_id = launch_process L, peer_activity = Unknown, started_at = launch_date L, last_seen_at = []\<rparr>"
  define h2 where "h2 = h1\<lparr>heartbeat_ms := beat, timeout_ms := timeout, own := p, instances := Suc (instances h1), sequence := 0,
    epoch := Suc (epoch h1), last_scan := launch_time L, observations := []\<rparr>"
  have t: "typed Q h1" "observations h1 = []" "\<not> in_flight_cycle h1" "\<not> is_running h1" "\<not> scan_pending h1" "\<not> publish_pending h1"
    using h1 assms(2) by (auto simp: helper_ok_def typed_def cycles_ok_def h1_def)
  have "under_way h2 = 0" using stopped_under_way [OF order_refl t(1)] by (simp add: h2_def under_way_def)
  moreover have "typed Q h2" using next_epoch [OF t(1) order_refl] t(4) by (simp add: h2_def typed_def watching_ok_def keyed_def)
  ultimately have h2: "helper_ok Q h2" "\<not> is_running h2" "application_of (own h2) = a" "heartbeat_ms h2 = beat" "timeout_ms h2 = timeout"
    using h1 t application_of_new by (simp_all add: helper_ok_def cycles_ok_def h2_def p_def)
  obtain ok h3 where q: "publish_helper Q (launch_board L) v h2 = (ok, h3)" by (cases "publish_helper Q (launch_board L) v h2")
  note h3 = publish_ok [OF h2(1,2) assms(3) q]
  define h4 where "h4 = (if help_error h3 \<noteq> [] then emit_signal ErrorChanged (h3\<lparr>help_error := []\<rparr>) else h3)"
  have a4: "aside h3 h4" by (simp add: h4_def)
  have h4: "helper_ok Q h4" using aside_ok [OF _ a4] h3 by blast
  define h5 where "h5 = h4\<lparr>is_running := True\<rparr>"
  have o5: "options_ok h5" if ok using h3 h2 that assms aside_core [OF a4] by (simp add: h5_def options_ok_def core_def)
  have "\<not> is_running h4" using aside_core [OF a4] h3 by (simp add: core_def)
  then have e4: "observations h4 = []" using h4 by (simp add: helper_ok_def typed_def)
  have h5: "helper_ok Q h5" if ok
    using h4 o5 [OF that] e4 by (simp add: h5_def helper_ok_def typed_def cycles_ok_def under_way_def)
  define h6 where "h6 = request_cycle False (snd (send_data Q ''helper.started'' (peer_map (own h5)) h5))"
  have s5: "helper_ok Q (snd (send_data Q ''helper.started'' (peer_map (own h5)) h5))" if ok
    by (rule aside_ok [OF h5 [OF that]]) simp
  have h6: "helper_ok Q h6" if ok using request_ok [OF s5 [OF that]] by (simp add: h6_def)
  have "observations (snd (send_data Q ''helper.started'' (peer_map (own h5)) h5)) = observations h5"
    using aside_core [of h5 "snd (send_data Q ''helper.started'' (peer_map (own h5)) h5)"] by (simp add: core_def)
  then have e6: "observations h6 = []" using e4 by (simp add: h6_def request_cycle_def h5_def Let_def)
  have h7: "helper_ok Q (emit_signal RunningChanged h6)" if ok
    using h6 [OF that] core_ok [OF emit_core [of RunningChanged h6]] e6
    by (simp add: helper_ok_def followed_append) (simp add: emit_signal_def followed_def agrees_def visible_at_def)
  have s: "start_checked Q L v a beat timeout h = (if \<not> opened then (False, help_fail (derror d) h1)
      else if \<not> ok then (False, h3) else (True, emit_signal RunningChanged h6))"
    unfolding start_checked_def Let_def o prod.case h1_def [symmetric] p_def [symmetric] h2_def [symmetric] q h4_def [symmetric]
      h5_def [symmetric] h6_def [symmetric] ..
  have "helper_ok Q (help_fail (derror d) h1)" by (rule aside_ok [OF h1]) simp
  then show ?thesis unfolding s using h3 h7 by auto
qed

lemma start_ok:
  assumes "helper_ok Q h" "one_of_a_name (last_board v)"
  shows "helper_ok Q (snd (start_helper Q L v a dir beat timeout h))"
proof -
  have f: "helper_ok Q (help_fail e h)" for e by (rule aside_ok [OF assms(1)]) simp
  show ?thesis using f started_ok [OF assms(1) _ assms(2), of a beat timeout L]
    by (simp add: start_helper_def Let_def split: prod.split sum.split)
qed

lemma helper_step_ok: "helper_step Q h k \<Longrightarrow> helper_ok Q h \<Longrightarrow> helper_ok Q k"
proof (induction rule: helper_step.induct)
  case (stopping v h)
  then show ?case using stop_helper_ok [of Q h v] by (simp add: helper_ok_iff)
next
  case (sending h topic body)
  show ?case by (rule aside_ok [OF sending]) simp
next
  case (sending_object h topic T x)
  show ?case by (rule aside_ok [OF sending_object]) simp
next
  case (automatic_begins h)
  show ?case by (rule aside_ok [OF automatic_begins]) simp
next
  case (automatic_runs h p)
  show ?case by (rule aside_ok [OF automatic_runs]) simp
next
  case (automatic_ends h)
  show ?case by (rule aside_ok [OF automatic_ends]) simp
next
  case (binding_account h t m)
  show ?case by (rule aside_ok [OF binding_account]) simp
next
  case (losing_account h)
  show ?case by (rule aside_ok [OF losing_account]) simp
next
  case (others h d)
  show ?case by (rule aside_ok [OF others]) simp
qed (auto intro: start_ok activity_ok request_ok cycle_begin_ok run_ok take_ok)

lemma new_ok: "helper_ok Q (new_helper d)"
  by (simp add: new_helper_def helper_ok_def typed_def watching_ok_def keyed_def cycles_ok_def under_way_def idle_lane_def lane_list_def
      followed_def agrees_def visible_at_def)

lemma runs_ok: "(helper_step Q)\<^sup>*\<^sup>* (new_helper d) h \<Longrightarrow> helper_ok Q h"
  by (induction rule: rtranclp_induct) (auto intro: new_ok helper_step_ok)

section \<open>A cycle without obstacles\<close>

lemma request_core: "core k = core h \<Longrightarrow> core (request_cycle b k) = core (request_cycle b h)"
  unfolding core_def by (simp add: request_cycle_def Let_def)

lemma start_core:
  assumes "on_event_loop L" "\<not> is_running h" "valid_application a" "20 \<le> beat" "beat \<le> 60000" "beat * 3 \<le> timeout" "timeout \<le> 300000"
    "default_directory L = Inr root" "root \<noteq> []" "absolute_path L root" "validate_directory (launch_host L) (clean_path (launch_host L) root) = []"
    "root_made L" "root_existed L" "open_delivery (launch_place L) (outgoing_store h) = (True, d)"
    "\<And>p. inspect_presence Q (launch_board L) (real_path L) p 1 True False = (r, Some text)" "presence_error r = []"
    "k = h\<lparr>help_root := real_path L, heartbeat_ms := beat, timeout_ms := timeout,
       own := \<lparr>application_id = app_id a, application_name = app_name a, application_version = app_version a,
         instance_id = new_uuid Q (instances h), process_id = launch_process L, peer_activity = Unknown, started_at = launch_date L,
         last_seen_at = published_at r\<rparr>,
       instances := Suc (instances h), sequence := 1, epoch := Suc (epoch h), last_scan := launch_time L, observations := [],
       own_file := Some text, is_running := True\<rparr>"
  shows "core (snd (start_helper Q L v a [] beat timeout h)) = core (request_cycle False k)"
proof -
  define p where "p = \<lparr>application_id = app_id a, application_name = app_name a, application_version = app_version a,
    instance_id = new_uuid Q (instances h), process_id = launch_process L, peer_activity = Unknown, started_at = launch_date L, last_seen_at = []\<rparr>"
  define h2 where "h2 = h\<lparr>help_root := real_path L, outgoing_store := d, heartbeat_ms := beat, timeout_ms := timeout, own := p,
    instances := Suc (instances h), sequence := 0, epoch := Suc (epoch h), last_scan := launch_time L, observations := []\<rparr>"
  define h3 where "h3 = h2\<lparr>sequence := 1, own_file := Some text, own := p\<lparr>last_seen_at := published_at r\<rparr>\<rparr>"
  have pub: "publish_helper Q (launch_board L) v h2 = (True, h3)"
    using assms(15,16) by (simp add: publish_helper_def h2_def h3_def Let_def)
  define h5 where "h5 = (if help_error h3 \<noteq> [] then emit_signal ErrorChanged (h3\<lparr>help_error := []\<rparr>) else h3)\<lparr>is_running := True\<rparr>"
  define h6 where "h6 = snd (send_data Q ''helper.started'' (peer_map (own h5)) h5)"
  have s: "start_helper Q L v a [] beat timeout h = (True, emit_signal RunningChanged (request_cycle False h6))"
    using assms pub by (simp add: start_helper_def start_checked_def Let_def p_def h2_def h5_def h6_def cong: if_cong)
  have "core h6 = core h5" unfolding h6_def by (rule aside_core) simp
  also have "core h5 = core (h3\<lparr>is_running := True\<rparr>)" by (simp add: h5_def emit_signal_def core_def)
  finally have "core (request_cycle False h6) = core (request_cycle False (h3\<lparr>is_running := True\<rparr>))" by (rule request_core)
  also have "\<dots> = core (request_cycle False k)"
    by (rule request_core) (simp add: core_def h3_def h2_def p_def assms(17))
  finally show ?thesis unfolding s snd_conv emit_core .
qed

lemma observe_cong: "last_scan k = last_scan h \<Longrightarrow> timeout_ms k = timeout_ms h \<Longrightarrow> observations k = observations h \<Longrightarrow>
    observe Q now rs present k = observe Q now rs present h"
  by (simp add: observe_def start_tally_def peers_def)

lemma take_core:
  assumes "is_running h" "presence_results h = [(epoch h, r)]" "presence_error r = []" "\<not> scan_pending h"
  shows "core (take_cycle Q now v h) = core (h\<lparr>presence_results := [], in_flight_cycle := False,
    own := (if published_at r \<noteq> [] then (own h)\<lparr>last_seen_at := published_at r\<rparr> else own h),
    observations := watching (observe Q now (heard r) (present_ids r) h), last_scan := now\<rparr>)"
proof -
  define l where "l = h\<lparr>presence_results := [], in_flight_cycle := False\<rparr>"
  define n where "n = (if published_at r \<noteq> [] then l\<lparr>own := (own l)\<lparr>last_seen_at := published_at r\<rparr>\<rparr> else l)"
  define s where "s = scan_peers Q now (heard r) (present_ids r) n"
  note t = take_shape [OF assms(2,1,3) l_def n_def s_def]
  have n: "\<not> scan_pending n" "observe Q now (heard r) (present_ids r) n = observe Q now (heard r) (present_ids r) h"
    using assms(4) by (simp_all add: n_def l_def cong: observe_cong)
  have "\<not> scan_pending s" using t(2) n(1) by (simp add: core_def)
  then have "core (take_cycle Q now v h) = core (n\<lparr>observations := watching (observe Q now (heard r) (present_ids r) h), last_scan := now\<rparr>)"
    using t by (simp add: n(2))
  then show ?thesis by (simp add: n_def l_def core_def)
qed

end
