(* ===== verification/PresenceProps.thy ===== *)
theory PresenceProps
  imports PresenceRuns
begin

text \<open>
  What presence promises (\<open>src/src/Core/Helper.cpp\<close>) to the subscribers of a helper and to the other helpers that share its
  directory, with a run in which a peer appears.
\<close>

section \<open>A run in which a peer appears\<close>

lemma cycle_core:
  assumes "is_running h" "presence_lane h = \<lparr>pending_job = Some j, active_job = None\<rparr>" "presence_results h = []" "job_epoch j = epoch h"
    "inspect_presence Q b (job_root j) (job_local j) (job_heartbeat j) (job_publish j) True = (r, w)" "presence_error r = []" "\<not> scan_pending h"
  shows "core (take_cycle Q now v (run_cycle Q b (begin_cycle h))) = core (h\<lparr>presence_lane := idle_lane, presence_results := [],
    own_file := (if w = None then own_file h else w), in_flight_cycle := False,
    own := (if published_at r \<noteq> [] then (own h)\<lparr>last_seen_at := published_at r\<rparr> else own h),
    observations := watching (observe Q now (heard r) (present_ids r) h), last_scan := now\<rparr>)"
proof -
  define k where "k = h\<lparr>presence_lane := idle_lane, presence_results := [(epoch h, r)], own_file := (if w = None then own_file h else w)\<rparr>"
  have "begin_cycle h = h\<lparr>presence_lane := \<lparr>pending_job = None, active_job = Some j\<rparr>\<rparr>"
    using assms(2) by (simp add: begin_cycle_def begin_job_def)
  then have "run_cycle Q b (begin_cycle h) = k"
    using assms(3,4,5) by (simp add: run_cycle_def k_def idle_lane_def)
  moreover have k: "is_running k" "presence_results k = [(epoch k, r)]" "\<not> scan_pending k"
    "observe Q now (heard r) (present_ids r) k = observe Q now (heard r) (present_ids r) h"
    using assms(1,7) by (simp_all add: k_def cong: observe_cong)
  ultimately show ?thesis using take_core [OF k(1,2) assms(6) k(3), of Q now v] by (simp add: k(4)) (simp add: k_def core_def)
qed

definition seen_object :: "string \<Rightarrow> jobj" where
  "seen_object n = [(''activity'', JStr ''unknown''), (''applicationId'', JStr ''org.b''), (''heartbeat'', JStr n), (''instanceId'', JStr ''b''),
     (''name'', JStr ''B''), (''processId'', JNum 7), (''protocol'', JNum 1), (''startedAt'', JStr ''d''), (''version'', JStr [])]"

definition seen_env :: env where
  "seen_env = sample_env\<lparr>parse_obj := seen_object\<rparr>"

definition seen_peer :: peer where
  "seen_peer = \<lparr>application_id = ''org.b'', application_name = ''B'', application_version = [], instance_id = ''b'', process_id = 7,
     peer_activity = Unknown, started_at = ''d'', last_seen_at = []\<rparr>"

definition seen_board :: "string \<Rightarrow> board" where
  "seen_board n = \<lparr>root_dir_plain = True, board_host = host sample_place, own_redirected = False, write_error = None,
     listing = [\<lparr>base_name = ''b'', plain_file = True, stat_size = 1, file_bytes = Some n\<rparr>]\<rparr>"

definition seen_farewell :: farewell where
  "seen_farewell = \<lparr>last_board = seen_board ''1'', final_board = seen_board ''1'', last_place = sample_place\<rparr>"

definition seen_launch :: launch where
  "seen_launch = \<lparr>on_event_loop = True, named_directory = [], runtime_path = Inr (\<lambda>p. Inr ''/o''), absolute_path = (\<lambda>p. True), launch_host = host sample_place, root_existed = True,
     root_made = True, root_restricted = True, real_path = ''/o'', launch_place = sample_place, launch_board = seen_board ''1'',
     launch_process = 5, launch_date = ''d'', launch_time = 0\<rparr>"

lemma valid_sample: "starts_with ''/'' p \<Longrightarrow> \<not> starts_with ''//'' p \<Longrightarrow> validate_directory (host sample_place) p = []"
proof -
  assume p: "starts_with ''/'' p" "\<not> starts_with ''//'' p"
  have "map lower_char ''ext4'' = ''ext4''" by (simp add: lower_char_def)
  moreover have "\<not> list_ex (\<lambda>t. mentions t ''ext4'') remote_types" by (simp add: mentions_def remote_types_def starts_with_def)
  ultimately show ?thesis using p by (simp add: sample_place_def validate_directory_def Let_def list.pred_set del: list.map)
qed

lemma root_sample: "validate_directory (host sample_place) ''/o'' = []"
  by (rule valid_sample) (simp_all add: starts_with_def)

text \<open>Without faults every statement succeeds.\<close>

lemma faultless:
  assumes "dfaults d = []"
  shows "dpoll d = (True, d)" "exec_sql d = (True, d)" "configure_connection d = (True, d)" "user_version d = (dschema d, d)"
    "journal_wal d = (dwal d, d)" "exec_all n d = (True, d)" "create_schema d = (True, d\<lparr>dschema := 1\<rparr>)"
proof -
  show p: "dpoll d = (True, d)" using assms by (simp add: dpoll_def)
  then show e: "exec_sql d = (True, d)" by (simp add: exec_sql_def)
  show "configure_connection d = (True, d)" by (simp add: configure_connection_def p e)
  show "user_version d = (dschema d, d)" "journal_wal d = (dwal d, d)" by (simp_all add: user_version_def journal_wal_def p)
  show a: "exec_all n d = (True, d)" for n by (induction n) (simp_all add: e)
  show "create_schema d = (True, d\<lparr>dschema := 1\<rparr>)" by (simp add: create_schema_def p e a)
qed

lemma sample_place_fields: "observed_dir sample_place = ''/o''" "observed_plain sample_place" "\<not> dir_link sample_place"
  "dir_existed sample_place" "\<not> lock_link sample_place" "\<not> links sample_place" "file_size sample_place = 0" "lock_free sample_place"
  "\<not> late_lock_link sample_place" "\<not> late_links sample_place" "clean_path (host sample_place) p = p"
  by (simp_all add: sample_place_def)

lemma initialized_sample:
  assumes "dfaults d = []" "dplace d = sample_place" "dschema d = 0" "\<not> dwal d"
  shows "initialize d = (True, d\<lparr>dopen := True, dwal := True, dschema := 1\<rparr>)"
  using assms by (simp add: initialize_def faultless sample_place_fields)

lemma opened_sample: "open_delivery sample_place (new_delivery sample_place) =
    (True, (new_delivery sample_place)\<lparr>dopen := True, dwal := True, dschema := 1\<rparr>)"
proof -
  define d where "d = (close_delivery (new_delivery sample_place))\<lparr>derror := [], dplace := sample_place\<rparr>"
  have d: "dfaults d = []" "dplace d = sample_place" "dschema d = 0" "\<not> dwal d" by (simp_all add: d_def close_delivery_def new_delivery_def)
  have "open_delivery sample_place (new_delivery sample_place) = initialize d"
    unfolding open_delivery_def d_def [symmetric] by (simp add: faultless(1) [OF d(1)] sample_place_fields root_sample Let_def)
  also have "\<dots> = (True, d\<lparr>dopen := True, dwal := True, dschema := 1\<rparr>)" by (rule initialized_sample [OF d])
  also have "d\<lparr>dopen := True, dwal := True, dschema := 1\<rparr> = (new_delivery sample_place)\<lparr>dopen := True, dwal := True, dschema := 1\<rparr>"
    by (simp add: d_def close_delivery_def new_delivery_def)
  finally show ?thesis .
qed

lemma app_sample: "valid_application \<lparr>app_id = ''org.a'', app_name = ''A'', app_version = []\<rparr>"
  by (simp add: valid_application_def reverse_dns_def alphanumeric_def trimmed_def is_space_def)

lemma seen_env_fields: "uuid_null seen_env s \<longleftrightarrow> s = []" "uuid_text seen_env s = s" "parse_obj seen_env = seen_object" "iso_now seen_env = ''now''"
  "json_bytes seen_env x = ''{}''" "parse_date seen_env s = (if s = [] then None else Some s)" "new_uuid seen_env n = ''u'' @ nat_str n"
  by (simp_all add: seen_env_def json_bytes_def)

lemma seen_record_of: "to_ull n = Some m \<Longrightarrow> m \<noteq> 0 \<Longrightarrow> record_of seen_env ''b'' (seen_object n) = Some \<lparr>heart_peer = seen_peer, heart_sequence = word_of_int m\<rparr>"
  by (simp add: record_of_def seen_object_def oget_def int_or_def activity_of_def valid_application_def reverse_dns_def alphanumeric_def
      trimmed_def is_space_def json_integer_def seen_env_fields seen_peer_def)

lemma seen_inspection:
  assumes "to_ull n = Some m" "m \<noteq> 0" "length n \<le> 8192" "instance_id p \<noteq> ''b''"
  shows "inspect_presence seen_env (seen_board n) ''/o'' p k pub True =
    (\<lparr>presence_error = [], published_at = (if pub then ''now'' else []), heard = [\<lparr>heart_peer = seen_peer, heart_sequence = word_of_int m\<rparr>],
      present_ids = [''b'']\<rparr>, if pub then Some ''{}'' else None)"
proof -
  have "read_record seen_env \<lparr>base_name = ''b'', plain_file = True, stat_size = 1, file_bytes = Some n\<rparr> =
      Some \<lparr>heart_peer = seen_peer, heart_sequence = word_of_int m\<rparr>"
    using assms by (simp add: read_record_def record_limit_def canonical_instance_def seen_env_fields seen_record_of)
  then show ?thesis using assms(4)
    by (simp add: inspect_presence_def intact_root_def seen_board_def root_sample scan_board_def seen_env_fields canonical_instance_def
        List.map_filter_simps Let_def) (simp add: seen_peer_def)
qed

lemma seen_publication: "inspect_presence seen_env (seen_board n) ''/o'' p k True False =
    (\<lparr>presence_error = [], published_at = ''now'', heard = [], present_ids = []\<rparr>, Some ''{}'')"
  by (simp add: inspect_presence_def intact_root_def seen_board_def root_sample Let_def seen_env_fields)

text \<open>The peer is seen with heartbeat 1, then with heartbeat 2.\<close>

definition begun :: helper where
  "begun = snd (start_helper seen_env seen_launch seen_farewell \<lparr>app_id = ''org.a'', app_name = ''A'', app_version = []\<rparr> [] 1000 5000
     (new_helper (new_delivery sample_place)))"

definition cycled :: "int \<Rightarrow> string \<Rightarrow> helper \<Rightarrow> helper" where
  "cycled now n h = take_cycle seen_env now seen_farewell (run_cycle seen_env (seen_board n) (begin_cycle h))"

definition heard_once :: helper where
  "heard_once = request_cycle True (cycled 10 ''1'' begun)"

definition heard_twice :: helper where
  "heard_twice = cycled 20 ''2'' heard_once"

lemma begun_core: "\<exists>k. core begun = core k \<and> is_running k \<and> observations k = [] \<and> last_scan k = 0 \<and> timeout_ms k = 5000 \<and> epoch k = 1
    \<and> presence_lane k = \<lparr>pending_job = Some \<lparr>job_epoch = 1, job_root = ''/o'', job_local = own k, job_heartbeat = 1, job_publish = False\<rparr>, active_job = None\<rparr>
    \<and> presence_results k = [] \<and> help_root k = ''/o'' \<and> instance_id (own k) = ''u0'' \<and> \<not> scan_pending k"
proof -
  let ?h = "new_helper (new_delivery sample_place)" and ?a = "\<lparr>app_id = ''org.a'', app_name = ''A'', app_version = []\<rparr>"
  have L: "on_event_loop seen_launch" "default_directory seen_launch = Inr ''/o''" "absolute_path seen_launch ''/o''"
    "validate_directory (launch_host seen_launch) (clean_path (launch_host seen_launch) ''/o'') = []" "root_made seen_launch" "root_existed seen_launch"
    "open_delivery (launch_place seen_launch) (outgoing_store ?h) = (True, (new_delivery sample_place)\<lparr>dopen := True, dwal := True, dschema := 1\<rparr>)"
    "\<And>p. inspect_presence seen_env (launch_board seen_launch) (real_path seen_launch) p 1 True False =
      (\<lparr>presence_error = [], published_at = ''now'', heard = [], present_ids = []\<rparr>, Some ''{}'')"
    by (simp_all add: default_directory_def seen_launch_def opened_sample root_sample sample_place_fields seen_publication new_helper_def)
  have s: "core begun = core (request_cycle False (?h\<lparr>help_root := real_path seen_launch, heartbeat_ms := 1000, timeout_ms := 5000,
       own := \<lparr>application_id = app_id ?a, application_name = app_name ?a, application_version = app_version ?a,
         instance_id = new_uuid seen_env (instances ?h), process_id = launch_process seen_launch, peer_activity = Unknown,
         started_at = launch_date seen_launch, last_seen_at = published_at \<lparr>presence_error = [], published_at = ''now'', heard = [], present_ids = []\<rparr>\<rparr>,
       instances := Suc (instances ?h), sequence := 1, epoch := Suc (epoch ?h), last_scan := launch_time seen_launch, observations := [],
       own_file := Some ''{}'', is_running := True\<rparr>))"
    unfolding begun_def
    by (rule start_core [OF L(1) _ app_sample _ _ _ _ L(2) _ L(3,4,5,6,7,8) _ refl]) (simp_all add: new_helper_def)
  show ?thesis
    by (rule exI, rule conjI [OF s])
      (simp add: request_cycle_def new_helper_def post_job_def idle_lane_def seen_launch_def seen_env_fields first_uuid)
qed

abbreviation heart_at :: "64 word \<Rightarrow> heart" where
  "heart_at n \<equiv> \<lparr>heart_peer = seen_peer, heart_sequence = n\<rparr>"

lemma decimal: "to_ull ''1'' = Some 1" "to_ull ''2'' = Some 2"
  by code_simp+

lemma observe_first:
  assumes "observations h = []" "now - last_scan h < timeout_ms h"
  shows "observe Q now [r] [i] h = \<lparr>watching = [(instance_id (heart_peer r), \<lparr>seen_record = r, last_advance = now, visible = False\<rparr>)],
    appeared = [], updated = [], departed = []\<rparr>"
  using assms by (simp add: observe_def start_tally_def see_record_def Let_def)

lemma observe_second:
  assumes "observations h = [(instance_id (heart_peer r), \<lparr>seen_record = s, last_advance = before, visible = False\<rparr>)]"
    "now - last_scan h < timeout_ms h" "0 < timeout_ms h" "heart_sequence s < heart_sequence r"
  shows "observe Q now [r] [i] h = (let p = (heart_peer r)\<lparr>last_seen_at := iso_now Q\<rparr> in
    \<lparr>watching = [(instance_id p, \<lparr>seen_record = r\<lparr>heart_peer := p\<rparr>, last_advance = now, visible = True\<rparr>)], appeared = [p], updated = [], departed = []\<rparr>)"
  using assms by (simp add: observe_def start_tally_def see_record_def Let_def)

lemma heard_once_core: "\<exists>k. core heard_once = core k \<and> is_running k
    \<and> observations k = [(''b'', \<lparr>seen_record = heart_at 1, last_advance = 10, visible = False\<rparr>)] \<and> last_scan k = 10 \<and> timeout_ms k = 5000 \<and> epoch k = 1
    \<and> presence_lane k = \<lparr>pending_job = Some \<lparr>job_epoch = 1, job_root = ''/o'', job_local = own k, job_heartbeat = sequence k, job_publish = True\<rparr>, active_job = None\<rparr>
    \<and> presence_results k = [] \<and> instance_id (own k) = ''u0'' \<and> \<not> scan_pending k"
proof -
  obtain k where c: "core begun = core k" and k: "is_running k" "observations k = []" "last_scan k = 0" "timeout_ms k = 5000" "epoch k = 1"
    "presence_lane k = \<lparr>pending_job = Some \<lparr>job_epoch = 1, job_root = ''/o'', job_local = own k, job_heartbeat = 1, job_publish = False\<rparr>, active_job = None\<rparr>"
    "presence_results k = []" "help_root k = ''/o''" "instance_id (own k) = ''u0''" "\<not> scan_pending k" using begun_core by blast
  define j where "j = \<lparr>job_epoch = 1, job_root = ''/o'', job_local = own k, job_heartbeat = 1, job_publish = False\<rparr>"
  define r where "r = \<lparr>presence_error = [], published_at = [], heard = [heart_at 1], present_ids = [''b'']\<rparr>"
  have b: "is_running begun" "presence_lane begun = \<lparr>pending_job = Some j, active_job = None\<rparr>" "presence_results begun = []" "job_epoch j = epoch begun"
    "\<not> scan_pending begun" "observations begun = []" "last_scan begun = 0" "timeout_ms begun = 5000"
    using c k unfolding core_def by (simp_all add: j_def)
  have i: "inspect_presence seen_env (seen_board ''1'') (job_root j) (job_local j) (job_heartbeat j) (job_publish j) True = (r, None)"
    using k(9) seen_inspection [OF decimal(1), of "own k" 1 False] by (simp add: j_def r_def)
  have o: "watching (observe seen_env 10 (heard r) (present_ids r) begun) = [(''b'', \<lparr>seen_record = heart_at 1, last_advance = 10, visible = False\<rparr>)]"
    using observe_first [OF b(6), of 10 seen_env "heart_at 1" "''b''"] b(7,8) by (simp add: r_def seen_peer_def)
  define m where "m = begun\<lparr>presence_lane := idle_lane, presence_results := [], own_file := own_file begun, in_flight_cycle := False,
    own := own begun, observations := [(''b'', \<lparr>seen_record = heart_at 1, last_advance = 10, visible = False\<rparr>)], last_scan := 10\<rparr>"
  have "core (cycled 10 ''1'' begun) = core m"
    using cycle_core [OF b(1-4) i _ b(5), of 10 seen_farewell] unfolding cycled_def o by (simp add: r_def m_def)
  then have "core heard_once = core (request_cycle True m)" unfolding heard_once_def by (rule request_core)
  moreover have "is_running m" "\<not> in_flight_cycle m" "help_root m = ''/o''" "epoch m = 1" "instance_id (own m) = ''u0''" "timeout_ms m = 5000"
    "\<not> scan_pending m" using c k unfolding core_def by (simp_all add: m_def)
  ultimately show ?thesis
    by (intro exI conjI) (assumption, simp_all add: request_cycle_def post_job_def idle_lane_def m_def Let_def)
qed

lemma heard_twice_peers: "peers heard_twice = [seen_peer\<lparr>last_seen_at := ''now''\<rparr>]"
proof -
  obtain k where c: "core heard_once = core k" and k: "is_running k"
    "observations k = [(''b'', \<lparr>seen_record = heart_at 1, last_advance = 10, visible = False\<rparr>)]" "last_scan k = 10" "timeout_ms k = 5000" "epoch k = 1"
    "presence_lane k = \<lparr>pending_job = Some \<lparr>job_epoch = 1, job_root = ''/o'', job_local = own k, job_heartbeat = sequence k, job_publish = True\<rparr>, active_job = None\<rparr>"
    "presence_results k = []" "instance_id (own k) = ''u0''" "\<not> scan_pending k" using heard_once_core by blast
  define j where "j = \<lparr>job_epoch = 1, job_root = ''/o'', job_local = own k, job_heartbeat = sequence k, job_publish = True\<rparr>"
  define r where "r = \<lparr>presence_error = [], published_at = ''now'', heard = [heart_at 2], present_ids = [''b'']\<rparr>"
  let ?h = heard_once
  have b: "is_running ?h" "presence_lane ?h = \<lparr>pending_job = Some j, active_job = None\<rparr>" "presence_results ?h = []" "job_epoch j = epoch ?h"
    "\<not> scan_pending ?h" "observations ?h = [(''b'', \<lparr>seen_record = heart_at 1, last_advance = 10, visible = False\<rparr>)]" "last_scan ?h = 10"
    "timeout_ms ?h = 5000" using c k unfolding core_def by (simp_all add: j_def)
  have i: "inspect_presence seen_env (seen_board ''2'') (job_root j) (job_local j) (job_heartbeat j) (job_publish j) True = (r, Some ''{}'')"
    using k(8) seen_inspection [OF decimal(2), of "own k" "sequence k" True] by (simp add: j_def r_def)
  let ?p = "seen_peer\<lparr>last_seen_at := ''now''\<rparr>"
  have o: "watching (observe seen_env 20 (heard r) (present_ids r) ?h) =
      [(''b'', \<lparr>seen_record = \<lparr>heart_peer = ?p, heart_sequence = 2\<rparr>, last_advance = 20, visible = True\<rparr>)]"
    using observe_second [of ?h "heart_at 2" "heart_at 1" 10 20 seen_env "''b''"] b(6,7,8) by (simp add: r_def seen_peer_def seen_env_fields Let_def)
  have "observations heard_twice = [(''b'', \<lparr>seen_record = \<lparr>heart_peer = ?p, heart_sequence = 2\<rparr>, last_advance = 20, visible = True\<rparr>)]"
    using cycle_core [OF b(1-4) i _ b(5), of 20 seen_farewell] unfolding heard_twice_def cycled_def o by (simp add: r_def core_def)
  then show ?thesis by (simp add: peers_def)
qed

lemma one_board: "one_of_a_name (seen_board n)" "one_of_a_name (last_board seen_farewell)"
  by (simp_all add: one_of_a_name_def seen_board_def seen_farewell_def)

lemma cycled_run: "(helper_step seen_env)\<^sup>*\<^sup>* h (cycled now n h)"
proof -
  have "helper_step seen_env h (begin_cycle h)" by (rule cycle_begins)
  moreover have "helper_step seen_env (begin_cycle h) (run_cycle seen_env (seen_board n) (begin_cycle h))" by (rule cycle_runs [OF one_board(1)])
  moreover have "helper_step seen_env (run_cycle seen_env (seen_board n) (begin_cycle h)) (cycled now n h)"
    unfolding cycled_def by (rule cycle_ends [OF one_board(2)])
  ultimately show ?thesis by (meson rtranclp.rtrancl_into_rtrancl r_into_rtranclp)
qed

lemma heard_run: "(helper_step seen_env)\<^sup>*\<^sup>* (new_helper (new_delivery sample_place)) heard_once"
  "(helper_step seen_env)\<^sup>*\<^sup>* (new_helper (new_delivery sample_place)) heard_twice"
proof -
  have 1: "helper_step seen_env (new_helper (new_delivery sample_place)) begun" unfolding begun_def by (rule starting [OF one_board(2)])
  have 2: "helper_step seen_env (cycled 10 ''1'' begun) heard_once" unfolding heard_once_def by (rule beating)
  have "(helper_step seen_env)\<^sup>*\<^sup>* (new_helper (new_delivery sample_place)) (cycled 10 ''1'' begun)"
    by (rule rtranclp_trans [OF r_into_rtranclp [of "helper_step seen_env", OF 1] cycled_run])
  then show "(helper_step seen_env)\<^sup>*\<^sup>* (new_helper (new_delivery sample_place)) heard_once" using 2 by (rule rtranclp.rtrancl_into_rtrancl)
  then show "(helper_step seen_env)\<^sup>*\<^sup>* (new_helper (new_delivery sample_place)) heard_twice"
    unfolding heard_twice_def using cycled_run by (rule rtranclp_trans)
qed

section \<open>Properties\<close>

text \<open>C23: a subscriber that follows the signals of a helper always knows its peers: in every run, adding whoever appeared or was
  updated, dropping whoever disappeared and forgetting all when the helper starts or stops leaves exactly the visible peers, with
  their present application, process, activity and start (the time of the last heartbeat is not announced).\<close>

theorem presence_followed:
  assumes "(helper_step Q)\<^sup>*\<^sup>* (new_helper d) h"
  shows "dom (followed (hsignals h)) = instance_id ` set (peers h)
    \<and> (\<forall>p\<in>set (peers h). \<exists>q. followed (hsignals h) (instance_id p) = Some q \<and> same_peer q p)"
proof -
  have k: "keyed (observations h)" and a: "agrees (followed (hsignals h)) (visible_at (observations h))"
    using runs_ok [OF assms] by (auto simp: helper_ok_def typed_def watching_ok_def)
  have d: "followed (hsignals h) i = None \<longleftrightarrow> visible_at (observations h) i = None" for i
    using a unfolding agrees_def by (metis option.rel_distinct(1,2) option.exhaust)
  have "\<exists>q. followed (hsignals h) (instance_id p) = Some q \<and> same_peer q p" if p: "p \<in> set (peers h)" for p
  proof -
    obtain i x where x: "(i, x) \<in> set (observations h)" "visible x" "heart_peer (seen_record x) = p" using p by (auto simp: peers_def)
    then have "instance_id p = i" using k by (auto simp: keyed_def)
    then have "visible_at (observations h) (instance_id p) = Some p" using x visible_in [OF k] by auto
    moreover have "rel_option same_peer (followed (hsignals h) (instance_id p)) (visible_at (observations h) (instance_id p))"
      using a by (simp add: agrees_def)
    ultimately show ?thesis by (cases "followed (hsignals h) (instance_id p)") auto
  qed
  moreover have "dom (followed (hsignals h)) = dom (visible_at (observations h))" using d by (auto simp: dom_def)
  ultimately show ?thesis using peers_visible [OF k] by simp
qed

text \<open>C26: the state of a helper is well formed in every run: while it runs its application is valid and its times are within
  their limits; it observes only valid records with a canonical instance and a positive heartbeat, each under its own instance,
  in order and never itself; a stopped helper observes nothing.\<close>

theorem presence_typed:
  assumes "(helper_step Q)\<^sup>*\<^sup>* (new_helper d) h"
  shows "(is_running h \<longrightarrow> valid_application (application_of (own h)) \<and> 20 \<le> heartbeat_ms h \<and> 3 * heartbeat_ms h \<le> timeout_ms h \<and> timeout_ms h \<le> 300000)
    \<and> (\<not> is_running h \<longrightarrow> peers h = [])
    \<and> sorted_wrt (<) (map fst (observations h))
    \<and> (\<forall>(i, x)\<in>set (observations h). heart_ok Q (seen_record x) \<and> instance_id (heart_peer (seen_record x)) = i \<and> i \<noteq> instance_id (own h))"
  using runs_ok [OF assms] by (auto simp: helper_ok_def typed_def options_ok_def watching_ok_def keyed_def peers_def)

text \<open>C25: no inspection of the directory is lost or doubled. In every run a request leaves exactly one inspection of the present
  epoch under way; a request made meanwhile is remembered with its wish to publish, and the end of the inspection starts the
  remembered one. A stopped helper has none.\<close>

theorem inspection_kept:
  assumes "(helper_step Q)\<^sup>*\<^sup>* (new_helper d) h" and "is_running h" and "one_of_a_name (last_board v)"
  shows "under_way (request_cycle b h) = 1
    \<and> (in_flight_cycle h \<longrightarrow> scan_pending (request_cycle b h) \<and> (b \<longrightarrow> publish_pending (request_cycle b h)))
    \<and> (presence_results h = (epoch h, r) # rest \<longrightarrow> presence_error r = [] \<longrightarrow>
        under_way (take_cycle Q now v h) = (if scan_pending h then 1 else 0))
    \<and> under_way (stop_helper Q v h) = 0"
proof -
  have ok: "helper_ok Q h" by (rule runs_ok [OF assms(1)])
  have "in_flight_cycle (request_cycle b h)" using assms(2) by (simp add: request_cycle_def Let_def)
  then have 1: "under_way (request_cycle b h) = 1" using request_ok [OF ok] by (simp add: helper_ok_def cycles_ok_def)
  have 2: "in_flight_cycle h \<longrightarrow> scan_pending (request_cycle b h) \<and> (b \<longrightarrow> publish_pending (request_cycle b h))"
    using assms(2) by (simp add: request_cycle_def)
  have 3: "under_way (take_cycle Q now v h) = (if scan_pending h then 1 else 0)"
    if r: "presence_results h = (epoch h, r) # rest" and e: "presence_error r = []"
  proof -
    define l where "l = h\<lparr>presence_results := rest, in_flight_cycle := False\<rparr>"
    define n where "n = (if published_at r \<noteq> [] then l\<lparr>own := (own l)\<lparr>last_seen_at := published_at r\<rparr>\<rparr> else l)"
    define s where "s = scan_peers Q now (heard r) (present_ids r) n"
    note t = take_shape(1) [OF r assms(2) e l_def n_def s_def, of v] take_shape(2) [OF r assms(2) e l_def n_def s_def]
    have n: "is_running n" "\<not> in_flight_cycle n" "scan_pending n = scan_pending h" using assms(2) by (simp_all add: n_def l_def)
    then have s: "is_running s" "\<not> in_flight_cycle s" "scan_pending s = scan_pending h" using t(2) by (simp_all add: core_def)
    have "in_flight_cycle (take_cycle Q now v h) = scan_pending h" using s by (simp add: t(1) request_cycle_def Let_def)
    then show ?thesis using take_ok [OF ok assms(3)] by (simp add: helper_ok_def cycles_ok_def)
  qed
  have "helper_ok Q (stop_helper Q v h) \<and> \<not> in_flight_cycle (stop_helper Q v h)"
    using stop_helper_ok [of Q h v] ok assms(3) by (simp add: helper_ok_iff)
  then have 4: "under_way (stop_helper Q v h) = 0" by (simp add: helper_ok_def cycles_ok_def)
  from 1 2 3 4 show ?thesis by blast
qed

lemma see_elsewhere: "i \<noteq> instance_id (heart_peer r) \<Longrightarrow> map_of (watching (see_record Q now r t)) i = map_of (watching t) i"
  by (simp add: see_record_def Let_def split: option.split)

lemma appeared_evidence:
  "p \<in> set (appeared (fold (see_record Q now) rs t)) \<Longrightarrow> distinct (map (instance_id \<circ> heart_peer) rs) \<Longrightarrow>
    p \<in> set (appeared t) \<or> (\<exists>x r. map_of (watching t) (instance_id p) = Some x \<and> \<not> visible x \<and> r \<in> set rs
      \<and> instance_id (heart_peer r) = instance_id p \<and> heart_sequence (seen_record x) < heart_sequence r)"
proof (induction rs arbitrary: t)
  case (Cons r rs)
  from Cons.IH [of "see_record Q now r t"] Cons.prems
  consider (now) "p \<in> set (appeared (see_record Q now r t))"
    | (later) x s where "map_of (watching (see_record Q now r t)) (instance_id p) = Some x" "\<not> visible x" "s \<in> set rs"
        "instance_id (heart_peer s) = instance_id p" "heart_sequence (seen_record x) < heart_sequence s" by auto
  then show ?case
  proof cases
    case now
    then show ?thesis by (auto simp: see_record_def Let_def split: option.splits if_splits)
  next
    case later
    then have "instance_id p \<noteq> instance_id (heart_peer r)" using Cons.prems(2) by (force simp: image_iff)
    then show ?thesis using later see_elsewhere [of "instance_id p" r Q now t] by auto
  qed
qed simp

text \<open>C24: a peer is announced only on evidence that it lives: it was observed before without being visible, and a record with a
  higher heartbeat has been read since, within the timeout of the previous scan. Whatever is visible after a scan still has its
  file, and its heartbeat advanced less than the timeout ago.\<close>

theorem presence_evidence:
  assumes "is_running h" and "distinct (map (instance_id \<circ> heart_peer) rs)" and "k = scan_peers Q now rs present h"
  shows "(\<forall>p. PeerAppeared p \<in> set (drop (length (hsignals h)) (hsignals k)) \<longrightarrow> now - last_scan h < timeout_ms h
      \<and> (\<exists>x r. map_of (observations h) (instance_id p) = Some x \<and> \<not> visible x \<and> r \<in> set rs
          \<and> instance_id (heart_peer r) = instance_id p \<and> heart_sequence (seen_record x) < heart_sequence r))
    \<and> (\<forall>(i, x)\<in>set (observations k). visible x \<longrightarrow> now - last_advance x < timeout_ms h
      \<and> i \<in> set present \<union> (instance_id \<circ> heart_peer) ` set rs)"
proof -
  let ?t = "fold (see_record Q now) rs (start_tally now h)"
  obtain kept gone where s: "sweep (timeout_ms h) now (present @ map (\<lambda>r. instance_id (heart_peer r)) rs) (watching ?t) = (kept, gone)"
    by (cases "sweep (timeout_ms h) now (present @ map (\<lambda>r. instance_id (heart_peer r)) rs) (watching ?t)")
  have o: "appeared (observe Q now rs present h) = appeared ?t" "watching (observe Q now rs present h) = kept"
    by (simp_all add: observe_def s Let_def)
  note e = scan_effect [OF assms(1), of Q now rs present, folded assms(3)]
  have "observations k = kept" using e(1) o(2) by (simp add: core_def)
  then have "\<forall>(i, x)\<in>set (observations k). visible x \<longrightarrow> now - last_advance x < timeout_ms h
      \<and> i \<in> set present \<union> (instance_id \<circ> heart_peer) ` set rs"
    using sweep_late [OF s] by fastforce
  moreover have "now - last_scan h < timeout_ms h \<and> (\<exists>x r. map_of (observations h) (instance_id p) = Some x \<and> \<not> visible x \<and> r \<in> set rs
          \<and> instance_id (heart_peer r) = instance_id p \<and> heart_sequence (seen_record x) < heart_sequence r)"
    if p: "PeerAppeared p \<in> set (drop (length (hsignals h)) (hsignals k))" for p
  proof -
    have "p \<in> set (appeared ?t)" using p e(2) o(1) by (auto simp: tell_all_def split: if_splits)
    from appeared_evidence [OF this assms(2)] show ?thesis by (auto simp: start_tally_def split: if_splits)
  qed
  ultimately show ?thesis by blast
qed

text \<open>C27: what a helper publishes is what the others read: the record written by a successful publication, when it is read
  from a file of its name and is not over the limit, gives the peer with its heartbeat, for a helper with a valid application.
  It rests on what Qt documents of JSON documents and dates: reading returns what was written.\<close>

theorem record_read_back:
  assumes "inspect_presence Q b root p n True sc = (r, Some bytes)" and "length bytes \<le> record_limit"
    and "parse_obj Q (json_bytes Q (record_object p n)) = record_object p n" and "parse_date Q (started_at p) = Some (started_at p)"
    and "canonical_instance Q (instance_id p)" and "valid_application (application_of p)"
    and "0 < process_id p" and "0 < n"
  shows "read_record Q \<lparr>base_name = instance_id p, plain_file = True, stat_size = int (length bytes), file_bytes = Some bytes\<rparr> =
    Some \<lparr>heart_peer = p\<lparr>last_seen_at := []\<rparr>, heart_sequence = n\<rparr>"
proof -
  have b: "bytes = json_bytes Q (record_object p n)" using assms(1) by (auto simp: inspect_presence_def Let_def split: if_splits option.splits)
  have parse: "parse_obj Q bytes = record_object p n" using assms(3) b by simp
  have a: "activity_of (activity_name c) = Some c" for c by (cases c) (simp_all add: activity_of_def)
  have h: "to_ull (num_str (uint n)) = Some (uint n)" "uint n \<noteq> 0" using assms(8) uint_lt2p [of n] by (auto simp: word_gt_0 uint_0_iff)
  have "record_of Q (instance_id p) (record_object p n) = Some \<lparr>heart_peer = p\<lparr>last_seen_at := []\<rparr>, heart_sequence = n\<rparr>"
    using assms(4,6,7) h by (simp add: record_of_def record_object_def peer_map_def oget_obj a int_or_def json_integer_def application_of_def)
  then show ?thesis using assms(2,5) by (simp add: read_record_def parse)
qed

section \<open>Witnesses\<close>

theorem presence_followed_witness:
  "peers heard_twice = [seen_peer\<lparr>last_seen_at := ''now''\<rparr>] \<and> dom (followed (hsignals heard_twice)) = {''b''}"
  using presence_followed [OF heard_run(2)] heard_twice_peers by (simp add: seen_peer_def)

theorem presence_typed_witness: "peers heard_twice = [seen_peer\<lparr>last_seen_at := ''now''\<rparr>] \<and> instance_id (own heard_twice) \<noteq> ''b''"
proof -
  have "seen_peer\<lparr>last_seen_at := ''now''\<rparr> \<in> set (peers heard_twice)" by (simp add: heard_twice_peers)
  then obtain i x where "(i, x) \<in> set (observations heard_twice)" "heart_peer (seen_record x) = seen_peer\<lparr>last_seen_at := ''now''\<rparr>"
    by (auto simp: peers_def)
  then show ?thesis using presence_typed [OF heard_run(2)] heard_twice_peers by (fastforce simp: seen_peer_def)
qed

lemma heard_once_running: "is_running heard_once" "in_flight_cycle heard_once"
proof -
  obtain k where "core heard_once = core k" "is_running k" using heard_once_core by blast
  then show "is_running heard_once" by (simp add: core_def)
  then show "in_flight_cycle heard_once" unfolding heard_once_def by (auto simp: request_cycle_def Let_def split: if_splits)
qed

theorem inspection_kept_witness:
  "under_way (request_cycle True heard_once) = 1 \<and> publish_pending (request_cycle True heard_once)"
  using inspection_kept [OF heard_run(1) heard_once_running(1) one_board(2), of True] heard_once_running(2) by blast

theorem presence_evidence_witness:
  "peers (scan_peers seen_env 20 [heart_at 2] [] heard_once) = [seen_peer\<lparr>last_seen_at := ''now''\<rparr>]
   \<and> list_all (\<lambda>(i, x). \<not> visible x \<or> 20 - last_advance x < 5000) (observations (scan_peers seen_env 20 [heart_at 2] [] heard_once))"
proof -
  obtain k where c: "core heard_once = core k" and k: "is_running k"
    "observations k = [(''b'', \<lparr>seen_record = heart_at 1, last_advance = 10, visible = False\<rparr>)]" "last_scan k = 10" "timeout_ms k = 5000"
    using heard_once_core by blast
  then have h: "observations heard_once = [(''b'', \<lparr>seen_record = heart_at 1, last_advance = 10, visible = False\<rparr>)]" "last_scan heard_once = 10"
    "timeout_ms heard_once = 5000" by (simp_all add: core_def)
  let ?p = "seen_peer\<lparr>last_seen_at := ''now''\<rparr>"
  have "watching (observe seen_env 20 [heart_at 2] [] heard_once) =
      [(''b'', \<lparr>seen_record = \<lparr>heart_peer = ?p, heart_sequence = 2\<rparr>, last_advance = 20, visible = True\<rparr>)]"
    using h by (simp add: observe_def start_tally_def see_record_def seen_env_fields seen_peer_def Let_def)
  then have "observations (scan_peers seen_env 20 [heart_at 2] [] heard_once) =
      [(''b'', \<lparr>seen_record = \<lparr>heart_peer = ?p, heart_sequence = 2\<rparr>, last_advance = 20, visible = True\<rparr>)]"
    using scan_effect(1) [OF heard_once_running(1), of seen_env 20 "[heart_at 2]" "[]"] by (simp add: core_def)
  moreover have "\<forall>(i, x)\<in>set (observations (scan_peers seen_env 20 [heart_at 2] [] heard_once)). visible x \<longrightarrow> 20 - last_advance x < 5000"
    using presence_evidence [OF heard_once_running(1) _ refl, of "[heart_at 2]" seen_env 20 "[]"] h(3) by auto
  ultimately show ?thesis by (auto simp: peers_def list_all_iff)
qed

definition own_env :: env where
  "own_env = sample_env\<lparr>parse_obj := (\<lambda>s. record_object seen_peer 3)\<rparr>"

theorem record_read_back_witness:
  "read_record own_env \<lparr>base_name = ''b'', plain_file = True, stat_size = 2, file_bytes = Some ''{}''\<rparr> =
    Some \<lparr>heart_peer = seen_peer, heart_sequence = 3\<rparr>"
proof -
  have i: "inspect_presence own_env (seen_board ''1'') ''/o'' seen_peer 3 True False =
    (\<lparr>presence_error = [], published_at = ''now'', heard = [], present_ids = []\<rparr>, Some ''{}'')"
    by (simp add: inspect_presence_def intact_root_def seen_board_def root_sample own_env_def json_bytes_def Let_def)
  have a: "valid_application (application_of seen_peer)"
    by (simp add: seen_peer_def application_of_def valid_application_def reverse_dns_def alphanumeric_def trimmed_def is_space_def)
  have "read_record own_env \<lparr>base_name = instance_id seen_peer, plain_file = True, stat_size = int (length ''{}''), file_bytes = Some ''{}''\<rparr> =
      Some \<lparr>heart_peer = seen_peer\<lparr>last_seen_at := []\<rparr>, heart_sequence = 3\<rparr>"
    by (rule record_read_back [OF i _ _ _ _ a])
      (simp_all add: record_limit_def own_env_def json_bytes_def seen_peer_def canonical_instance_def)
  then show ?thesis by (simp add: seen_peer_def)
qed

end
