(* ===== verification/Keyring.thy ===== *)
theory Keyring
  imports Records "HOL-Library.Word"
begin

text \<open>
  The account's pairing credentials (\<open>src/src/Storage/PairingCredentials.cpp\<close>): a validity check, the
  key of a five-minute epoch, taken from the provisioned keys or derived from a daily seed, and the proofs
  made with it. Times are milliseconds since 1970; the dates of a credential are in UTC.
\<close>

unbundle bit_operations_syntax

section \<open>The environment of the local network\<close>

text \<open>
  What the code takes from Qt and from the web server package beside the functions of \<open>env\<close>: \<open>hmac\<close> is
  HMAC-SHA-256 of a message under a key, \<open>iso_ms\<close> reads an ISO date, \<open>bind_loopback\<close> says that the socket is bound
  to a loopback address, \<open>lan_address\<close> is \<open>LanLink::localAddress\<close>, \<open>loopback\<close> is \<open>isLoopback\<close>,
  \<open>host_address\<close> is \<open>QHostAddress(text).toString()\<close>, which is empty when the text is no address, \<open>read_link\<close>
  and \<open>print_link\<close> are \<open>LanLink::decode\<close> and \<open>encode\<close>, \<open>hash_order\<close> is the order in which a
  \<open>QHash\<close> whose keys were inserted in the given order is iterated, \<open>local_port\<close> is the bound port and
  \<open>collate\<close> ranks names as \<open>localeAwareCompare\<close> orders them. An address is represented by its text.
\<close>

record lan_link =
  link_host :: string
  link_expires :: int
  link_addresses :: "string list"
  link_rest :: string

record lan = env +
  hmac :: "string \<Rightarrow> string \<Rightarrow> string"
  iso_ms :: "string \<Rightarrow> int option"
  bind_loopback :: bool
  lan_address :: "string \<Rightarrow> bool"
  loopback :: "string \<Rightarrow> bool"
  host_address :: "string \<Rightarrow> string"
  read_link :: "string \<Rightarrow> lan_link option"
  print_link :: "lan_link \<Rightarrow> string"
  hash_order :: "string list \<Rightarrow> string list"
  local_port :: int
  collate :: "string \<Rightarrow> int"

section \<open>Bytes\<close>

text \<open>Division of \<open>qint64\<close> by a positive constant rounds toward zero.\<close>

definition cdiv :: "int \<Rightarrow> int \<Rightarrow> int" where
  "cdiv a b = (if a < 0 then - ((- a) div b) else a div b)"

definition nibble :: "nat \<Rightarrow> char" where
  "nibble n = char_of (if n < 10 then 48 + n else 87 + n)"

definition to_hex :: "string \<Rightarrow> string" where
  "to_hex s = concat (map (\<lambda>c. [nibble (of_char c div 16), nibble (of_char c mod 16)]) s)"

definition nibble_val :: "char \<Rightarrow> nat" where
  "nibble_val c = (let n = of_char c in if n \<ge> 97 then n - 87 else n - 48)"

fun from_hex :: "string \<Rightarrow> string" where
  "from_hex (a # b # s) = char_of (16 * nibble_val a + nibble_val b) # from_hex s"
| "from_hex _ = []"

text \<open>The comparison of two digests, which takes the same time wherever they differ.\<close>

definition same_bytes :: "string \<Rightarrow> string \<Rightarrow> bool" where
  "same_bytes a b \<longleftrightarrow> foldl (\<lambda>d (x, y). d OR (of_char x XOR of_char y)) (0 :: 8 word) (zip a b) = 0"

section \<open>Credentials\<close>

definition secs :: "int \<Rightarrow> int" where
  "secs ms = cdiv ms 1000"

definition seeds_cover :: "int \<Rightarrow> jobj \<Rightarrow> bool" where
  "seeds_cover first seeds \<longleftrightarrow> list_all (\<lambda>i. hex (jstr (oget (num_str (first + int i)) seeds))) [0..<length seeds]"

definition valid_credentials :: "lan \<Rightarrow> int \<Rightarrow> jobj \<Rightarrow> bool" where
  "valid_credentials E t c =
     (case iso_ms E (jstr (oget ''expiresAt'' c)) of
        None \<Rightarrow> False
      | Some expiry \<Rightarrow>
          if \<not> hex (jstr (oget ''scope'' c)) \<or> expiry \<le> t then False
          else if int_or 1 (oget ''version'' c) = 1 then
            (if expiry > t + 600000 then False
             else let keys = jobject (oget ''keys'' c) in
               2 \<le> length keys \<and> length keys \<le> 3 \<and> hex (jstr (oget (num_str (cdiv (secs t) 300)) keys)))
          else if int_or 0 (oget ''version'' c) \<noteq> 2 then False
          else
            (case (iso_ms E (jstr (oget ''issuedAt'' c)), iso_ms E (jstr (oget ''refreshAt'' c))) of
               (Some issued, Some refresh) \<Rightarrow>
                 if issued > t + 300000 \<or> refresh < issued \<or> refresh > expiry \<or> expiry > issued + 7 * 86400000 then False
                 else let first = cdiv (secs issued) 86400; seeds = jobject (oget ''seeds'' c) in
                   if seeds = [] \<or> length seeds > 7 \<or> secs expiry > (first + int (length seeds)) * 86400 then False
                   else seeds_cover first seeds
             | _ \<Rightarrow> False))"

definition epoch_key :: "lan \<Rightarrow> int \<Rightarrow> jobj \<Rightarrow> int \<Rightarrow> string" where
  "epoch_key E t c n =
     (if \<not> valid_credentials E t c \<or> n < 0 then []
      else if int_or 1 (oget ''version'' c) = 1 then
        (let v = jstr (oget (num_str n) (jobject (oget ''keys'' c))) in if hex v then from_hex v else [])
      else let seed = jstr (oget (num_str (cdiv n 288)) (jobject (oget ''seeds'' c))) in
        if \<not> hex seed then []
        else hmac E (''society-auto-pair-key-v2'' @ CHR 0x0A # utf8 (jstr (oget ''scope'' c)) @ CHR 0x0A # num_str n)
               (from_hex seed))"

section \<open>Account proofs\<close>

definition account_mac :: "lan \<Rightarrow> string \<Rightarrow> string \<Rightarrow> string" where
  "account_mac E secret ctx = to_hex (hmac E (''society-lan-account-v1'' @ CHR 0x0A # ctx) secret)"

definition account_sign :: "lan \<Rightarrow> jobj \<Rightarrow> string \<Rightarrow> jobj" where
  "account_sign E c ctx =
     (let epoch = cdiv (secs (now_ms E)) 300; secret = epoch_key E (now_ms E) c epoch in
      if secret = [] then []
      else obj [(''scope'', oget ''scope'' c), (''epoch'', jnumstr epoch), (''mac'', JStr (account_mac E secret ctx))])"

definition account_verify :: "lan \<Rightarrow> jobj \<Rightarrow> string \<Rightarrow> jobj \<Rightarrow> bool" where
  "account_verify E c ctx proof =
     (let current = cdiv (secs (now_ms E)) 300 in
      case to_ll (jstr (oget ''epoch'' proof)) of
        None \<Rightarrow> False
      | Some epoch \<Rightarrow>
          if epoch < current - 1 \<or> epoch > current + 1 \<or> oget ''scope'' proof \<noteq> oget ''scope'' c then False
          else let secret = epoch_key E (now_ms E) c epoch in
          if secret = [] \<or> \<not> hex (jstr (oget ''mac'' proof)) then False
          else same_bytes (account_mac E secret ctx) (jstr (oget ''mac'' proof)))"

section \<open>Digests\<close>

lemma nibble_hex: "n < 16 \<Longrightarrow> nibble n \<in> set ''0123456789abcdef''"
proof -
  have "list_all (\<lambda>n. nibble n \<in> set ''0123456789abcdef'') [0..<16]" by code_simp
  then show "n < 16 \<Longrightarrow> nibble n \<in> set ''0123456789abcdef''" by (simp add: list_all_iff)
qed

lemma length_to_hex: "length (to_hex s) = 2 * length s"
  by (induction s) (auto simp: to_hex_def)

lemma to_hex_digits: "list_all (\<lambda>c. c \<in> set ''0123456789abcdef'') (to_hex s)"
proof (induction s)
  case (Cons c s)
  have "(of_char c :: nat) div 16 < 16" using less_mult_imp_div_less [of "of_char c" 16 16] by simp
  with Cons show ?case using nibble_hex [of "of_char c div 16"] nibble_hex [of "of_char c mod 16"] by (simp add: to_hex_def)
qed (simp add: to_hex_def)

lemma hex_digest: "length s = 32 \<Longrightarrow> hex (to_hex s)"
  using to_hex_digits [of s] by (simp add: hex_def length_to_hex)

lemma from_hex_length: "length (from_hex s) = length s div 2"
  by (induction s rule: from_hex.induct) auto

lemma xor_zero: "a XOR b = 0 \<longleftrightarrow> a = (b :: 8 word)"
  by (auto simp: bit_eq_iff bit_xor_iff)

lemma of_char_word: "(of_char x :: 8 word) = of_char y \<longleftrightarrow> x = y"
proof
  assume "(of_char x :: 8 word) = of_char y"
  then have "word_of_nat (of_char x) = (word_of_nat (of_char y) :: 8 word)" by (simp only: of_nat_of_char)
  then have "take_bit 8 (of_char x :: nat) = take_bit 8 (of_char y)" by (simp add: word_of_nat_eq_iff)
  then show "x = y" by (simp add: take_bit_eq_mod)
qed simp

lemma foldl_or: "foldl (\<lambda>d (x, y). d OR (of_char x XOR of_char y)) (w :: 8 word) xs = 0 \<longleftrightarrow>
    w = 0 \<and> (\<forall>(x, y) \<in> set xs. x = y)"
  by (induction xs arbitrary: w) (auto simp: or_eq_0_iff xor_zero of_char_word)

lemma same_bytes_iff: "length a = length b \<Longrightarrow> same_bytes a b \<longleftrightarrow> a = b"
proof -
  assume l: "length a = length b"
  have "same_bytes a b \<longleftrightarrow> (\<forall>(x, y) \<in> set (zip a b). x = y)"
    by (simp add: same_bytes_def foldl_or)
  also have "\<dots> \<longleftrightarrow> a = b" using l by (induction a b rule: list_induct2) auto
  finally show ?thesis .
qed

section \<open>Keys and proofs\<close>

text \<open>The key of an epoch depends on the time only through the validity of the credentials.\<close>

lemma lan_clock [simp]:
  "hmac (E\<lparr>now_ms := s\<rparr>) = hmac E" "iso_ms (E\<lparr>now_ms := s\<rparr>) = iso_ms E" "compact (E\<lparr>now_ms := s\<rparr>) = compact E"
  "lan_address (E\<lparr>now_ms := s\<rparr>) = lan_address E" "loopback (E\<lparr>now_ms := s\<rparr>) = loopback E" "bind_loopback (E\<lparr>now_ms := s\<rparr>) = bind_loopback E"
  "hash_order (E\<lparr>now_ms := s\<rparr>) = hash_order E" "read_link (E\<lparr>now_ms := s\<rparr>) = read_link E" "print_link (E\<lparr>now_ms := s\<rparr>) = print_link E"
  "host_address (E\<lparr>now_ms := s\<rparr>) = host_address E" "parse_obj (E\<lparr>now_ms := s\<rparr>) = parse_obj E"
  by (cases E; simp)+

lemma credentials_clock [simp]: "valid_credentials (E\<lparr>now_ms := s\<rparr>) t c = valid_credentials E t c"
  unfolding valid_credentials_def lan_clock ..

lemma epoch_key_clock [simp]: "epoch_key (E\<lparr>now_ms := s\<rparr>) t c n = epoch_key E t c n"
  unfolding epoch_key_def credentials_clock lan_clock ..

lemma account_mac_clock [simp]: "account_mac (E\<lparr>now_ms := s\<rparr>) k ctx = account_mac E k ctx"
  by (simp add: account_mac_def)

lemma epoch_key_kept: "epoch_key E s c n \<noteq> [] \<Longrightarrow> valid_credentials E t c \<Longrightarrow> epoch_key E t c n = epoch_key E s c n"
  by (simp add: epoch_key_def split: if_splits)

lemma epoch_key_range: "epoch_key E t c n \<noteq> [] \<Longrightarrow> valid_credentials E t c \<and> 0 \<le> n"
  by (simp add: epoch_key_def split: if_splits)

lemma hex_length: "hex s \<Longrightarrow> length s = 64"
  by (simp add: hex_def)

lemma epoch_key_length: "(\<And>m k. length (hmac E m k) = 32) \<Longrightarrow> epoch_key E t c n = [] \<or> length (epoch_key E t c n) = 32"
  by (auto simp: epoch_key_def Let_def from_hex_length hex_length)

lemma cdiv_int64: "in_int64 a \<Longrightarrow> 0 < b \<Longrightarrow> in_int64 (cdiv a b)"
proof -
  have p: "0 \<le> x \<Longrightarrow> 0 < b \<Longrightarrow> 0 \<le> x div b \<and> x div b \<le> x" for x :: int
    using zdiv_mono2 [of x 1 b] by (simp add: pos_imp_zdiv_nonneg_iff)
  show "in_int64 a \<Longrightarrow> 0 < b \<Longrightarrow> in_int64 (cdiv a b)"
    using p [of a] p [of "- a"] by (auto simp: in_int64_def cdiv_def)
qed

text \<open>A proof is accepted exactly when it carries the digest of the context under the key of a current epoch.\<close>

lemma account_verify_iff:
  assumes "\<And>m k. length (hmac E m k) = 32"
  shows "account_verify E c ctx p \<longleftrightarrow>
    (\<exists>n. to_ll (jstr (oget ''epoch'' p)) = Some n \<and> \<bar>n - cdiv (secs (now_ms E)) 300\<bar> \<le> 1 \<and> oget ''scope'' p = oget ''scope'' c
       \<and> epoch_key E (now_ms E) c n \<noteq> [] \<and> jstr (oget ''mac'' p) = account_mac E (epoch_key E (now_ms E) c n) ctx)"
proof -
  have h: "hex (account_mac E k ctx)" for k using hex_digest assms by (simp add: account_mac_def)
  then have "hex m \<and> same_bytes (account_mac E k ctx) m \<longleftrightarrow> m = account_mac E k ctx" for k m
    using same_bytes_iff hex_length by metis
  then show ?thesis by (auto simp: account_verify_def Let_def abs_le_iff split: option.splits)
qed

lemma account_sign_verifies:
  assumes "\<And>m k. length (hmac E m k) = 32" and "account_sign (E\<lparr>now_ms := s\<rparr>) c ctx \<noteq> []" and "valid_credentials E t c"
    and "\<bar>cdiv (secs s) 300 - cdiv (secs t) 300\<bar> \<le> 1" and "in_int64 s"
  shows "account_verify (E\<lparr>now_ms := t\<rparr>) c ctx (account_sign (E\<lparr>now_ms := s\<rparr>) c ctx)"
proof -
  let ?n = "cdiv (secs s) 300"
  have k: "epoch_key E s c ?n \<noteq> []" using assms(2) by (auto simp: account_sign_def)
  then have kept: "epoch_key E t c ?n = epoch_key E s c ?n" using assms(3) by (rule epoch_key_kept)
  have l: "length (hmac (E\<lparr>now_ms := t\<rparr>) m k) = 32" for m k using assms(1) by simp
  have "in_int64 ?n" using assms(5) by (simp add: secs_def cdiv_int64)
  then show ?thesis
    unfolding account_verify_iff [where E = "E\<lparr>now_ms := t\<rparr>", OF l] using k kept assms(4)
    by (simp add: account_sign_def Let_def oget_obj)
qed

end
