(* ===== verification/Nearby.thy ===== *)
theory Nearby
  imports Keyring
begin

text \<open>
  Discovery of the account's devices on the local network and the pairing invitations between them
  (\<open>src/src/Discovery/NearbyDevices.cpp\<close>). The state is that of the class; the clock and Qt are the environment,
  in which the time stands still during a call. Datagrams, calls of the discovery service and signals are
  logged in \<open>happened\<close>; the signal of an invitation is logged with the packet it is about. A slot a signal calls is a call of its own.
\<close>

section \<open>State\<close>

record endpoint =
  ep_service :: string
  ep_record :: jobj
  ep_address :: string
  ep_port :: int
  ep_seen :: int

datatype happening = Datagram string string int | ServiceStart jobj int | ServiceStop | IdentityEnding | AuthenticationEnding
  | DevicesChanged | InvitationReceived jobj | InvitationEnded string

record nearby =
  bound :: bool
  self_record :: jobj
  incoming :: jobj
  outgoing :: jobj
  accepted :: jobj
  credentials :: jobj
  endpoints :: "(string \<times> endpoint) list"
  seen_requests :: "(string \<times> int) list"
  retired :: "(string \<times> int) list"
  failure :: string
  verification_code :: string
  next_send :: int
  retry_time :: int
  resume_target :: string
  resume_challenge :: string
  resume_routes :: "json list"
  resume_at :: int
  resume_deadline :: int
  nonces :: nat
  happened :: "happening list"

definition new_nearby :: nearby where
  "new_nearby = \<lparr>bound = False, self_record = [], incoming = [], outgoing = [], accepted = [], credentials = [],
     endpoints = [], seen_requests = [], retired = [], failure = [], verification_code = [], next_send = 0, retry_time = 0,
     resume_target = [], resume_challenge = [], resume_routes = [], resume_at = 0, resume_deadline = 0, nonces = 0, happened = []\<rparr>"

definition emits :: "happening list \<Rightarrow> nearby \<Rightarrow> nearby" where
  "emits hs d = d\<lparr>happened := happened d @ hs\<rparr>"

definition own_id :: "nearby \<Rightarrow> string" where
  "own_id d = jstr (oget ''id'' (self_record d))"

definition desktop :: "nearby \<Rightarrow> bool" where
  "desktop d \<longleftrightarrow> oget ''host'' (self_record d) = JStr ''1''"

definition own_primary :: "nearby \<Rightarrow> string" where
  "own_primary d = jstr (oget ''primary'' (self_record d))"

definition automatic_host_available :: "nearby \<Rightarrow> bool" where
  "automatic_host_available d \<longleftrightarrow> desktop d \<and> oget ''autoHost'' (self_record d) = JStr ''1''"

definition fresh_nonce :: "lan \<Rightarrow> nearby \<Rightarrow> string \<times> nearby" where
  "fresh_nonce E d = (new_uuid E (nonces d), d\<lparr>nonces := Suc (nonces d)\<rparr>)"

text \<open>The values of a table in the order of its iteration.\<close>

definition iterated :: "lan \<Rightarrow> (string \<times> 'v) list \<Rightarrow> 'v list" where
  "iterated E xs = map (\<lambda>k. the (map_of xs k)) (hash_order E (map fst xs))"

section \<open>Records and proofs\<close>

definition token :: "string \<Rightarrow> bool" where
  "token s \<longleftrightarrow> 1 \<le> length s \<and> length s \<le> 128
     \<and> list_all (\<lambda>c. c \<in> set ''ABCDEFGHIJKLMNOPQRSTUVWXYZabcdefghijklmnopqrstuvwxyz0123456789_.:-'') s"

definition control_char :: "char \<Rightarrow> bool" where
  "control_char c \<longleftrightarrow> (let n = (of_char c :: nat) in n < 32 \<or> n = 127)"

definition valid_device :: "lan \<Rightarrow> jobj \<Rightarrow> bool" where
  "valid_device E r \<longleftrightarrow>
     (let name = jstr (oget ''name'' r) in
      oget ''v'' r = JStr ''1'' \<and> hex (jstr (oget ''scope'' r)) \<and> token (jstr (oget ''id'' r))
      \<and> token (jstr (oget ''nonce'' r)) \<and> name \<noteq> [] \<and> length name \<le> 128 \<and> \<not> list_ex control_char name
      \<and> jstr (oget ''kind'' r) \<in> set [''pc'', ''phone'', ''tablet'']
      \<and> jstr (oget ''host'' r) \<in> set [''0'', ''1'']
      \<and> (\<not> has_key ''primary'' r \<or> jstr (oget ''primary'' r) = [] \<or> token (jstr (oget ''primary'' r)))
      \<and> length (compact E (JObj r)) \<le> 1024)"

definition account_scope :: "lan \<Rightarrow> string \<Rightarrow> string \<Rightarrow> string" where
  "account_scope E origin user =
     (if origin = [] \<or> user = [] then []
      else sha256 E (''society-nearby-v1'' @ CHR 0x0A # utf8 origin @ CHR 0x0A # utf8 user))"

definition current_epoch :: "lan \<Rightarrow> int" where
  "current_epoch E = cdiv (now_ms E) 300000"

definition authentic :: "lan \<Rightarrow> nearby \<Rightarrow> bool" where
  "authentic E d \<longleftrightarrow> bound d \<and> oget ''scope'' (credentials d) = oget ''scope'' (self_record d)
     \<and> length (epoch_key E (now_ms E) (credentials d) (current_epoch E)) = 32"

definition packet_mac :: "lan \<Rightarrow> string \<Rightarrow> jobj \<Rightarrow> string" where
  "packet_mac E key p = to_hex (hmac E (''society-auto-v1'' @ CHR 0x0A # compact E (JObj p)) key)"

definition sign :: "lan \<Rightarrow> nearby \<Rightarrow> jobj \<Rightarrow> jobj" where
  "sign E d packet =
     (let packet = odel ''proof'' packet in
      if \<not> authentic E d then packet
      else let epoch = num_str (current_epoch E); packet = oput ''epoch'' (JStr epoch) packet;
               key = epoch_key E (now_ms E) (credentials d) (jll (JStr epoch)) in
           oput ''proof'' (JStr (packet_mac E key packet)) packet)"

definition verify :: "lan \<Rightarrow> nearby \<Rightarrow> jobj \<Rightarrow> bool" where
  "verify E d packet =
     (if \<not> authentic E d then False
      else let epoch = jstr (oget ''epoch'' packet); current = current_epoch E in
      if epoch \<noteq> num_str current \<and> \<not> (now_ms E mod 300000 < 30000 \<and> epoch = num_str (current - 1)) then False
      else let key = epoch_key E (now_ms E) (credentials d) (jll (oget ''epoch'' packet)) in
      if length key \<noteq> 32 then False
      else let proof = jstr (oget ''proof'' packet); packet = odel ''proof'' packet in
      if \<not> hex proof then False else same_bytes (packet_mac E key packet) proof)"

section \<open>Endpoints and datagrams\<close>

definition local_address :: "lan \<Rightarrow> string \<Rightarrow> bool" where
  "local_address E a \<longleftrightarrow> lan_address E a \<and> (\<not> loopback E a \<or> bind_loopback E)"

definition recent :: "lan \<Rightarrow> endpoint \<Rightarrow> bool" where
  "recent E e \<longleftrightarrow> now_ms E - ep_seen e < 25000"

text \<open>The null address is the empty text and matches every address, port 0 every port.\<close>

definition endpoint_of :: "lan \<Rightarrow> nearby \<Rightarrow> string \<Rightarrow> string \<Rightarrow> int \<Rightarrow> endpoint option" where
  "endpoint_of E d i address port =
     find (\<lambda>e. oget ''id'' (ep_record e) = JStr i \<and> recent E e \<and> (address = [] \<or> ep_address e = address)
               \<and> (port = 0 \<or> ep_port e = port)) (iterated E (endpoints d))"

definition send_datagram :: "lan \<Rightarrow> jobj \<Rightarrow> string \<Rightarrow> int \<Rightarrow> nearby \<Rightarrow> nearby" where
  "send_datagram E packet address port d =
     (let bytes = compact E (JObj packet) in if length bytes \<le> 4096 then emits [Datagram bytes address port] d else d)"

abbreviation send_peer :: "lan \<Rightarrow> jobj \<Rightarrow> endpoint \<Rightarrow> nearby \<Rightarrow> nearby" where
  "send_peer E packet e \<equiv> send_datagram E packet (ep_address e) (ep_port e)"

definition reply :: "lan \<Rightarrow> nearby \<Rightarrow> jobj \<Rightarrow> string \<Rightarrow> jobj" where
  "reply E d invitation operation =
     (let packet = obj [(''v'', JStr ''1''), (''op'', JStr operation), (''scope'', oget ''scope'' (self_record d)), (''from'', JStr (own_id d)),
                        (''to'', oget ''from'' invitation), (''request'', oget ''request'' invitation)] in
      if oget ''automatic'' invitation = JStr ''1'' then
        sign E d (oput ''senderNonce'' (oget ''nonce'' (self_record d))
          (oput ''nonce'' (oget ''senderNonce'' invitation) (oput ''automatic'' (JStr ''1'') packet)))
      else packet)"

definition incoming_automatic :: "nearby \<Rightarrow> bool" where
  "incoming_automatic d \<longleftrightarrow> oget ''automatic'' (incoming d) = JStr ''1''"

definition decline :: "lan \<Rightarrow> nearby \<Rightarrow> nearby" where
  "decline E d =
     (let d = (case endpoint_of E d (jstr (oget ''from'' (incoming d))) [] 0 of
                 None \<Rightarrow> d | Some e \<Rightarrow> send_peer E (reply E d (incoming d) ''decline'') e d) in
      emits [DevicesChanged] (d\<lparr>incoming := []\<rparr>))"

definition cancel :: "lan \<Rightarrow> nearby \<Rightarrow> nearby" where
  "cancel E d =
     (let d = decline E d;
          d = (case endpoint_of E d (jstr (oget ''to'' (outgoing d))) [] 0 of
                 None \<Rightarrow> d
               | Some e \<Rightarrow>
                   (let packet = oput ''op'' (JStr ''cancel'') (outgoing d) in
                    send_peer E (if oget ''automatic'' packet = JStr ''1'' then sign E d packet else packet) e d)) in
      emits [DevicesChanged] (d\<lparr>outgoing := [], accepted := [], verification_code := []\<rparr>))"

definition complete :: "nearby \<Rightarrow> nearby" where
  "complete d = emits [DevicesChanged] (d\<lparr>outgoing := [], accepted := [], verification_code := []\<rparr>)"

section \<open>Identity and credentials\<close>

definition clear :: "lan \<Rightarrow> nearby \<Rightarrow> nearby" where
  "clear E d =
     (let d = (if bound d \<or> self_record d \<noteq> [] then emits [IdentityEnding] d else d);
          d = emits [ServiceStop] (cancel E d) in
      emits [DevicesChanged] (d\<lparr>bound := False, self_record := [], endpoints := [], seen_requests := [], retired := [], failure := [],
        retry_time := 0, resume_target := [], resume_challenge := [], resume_routes := [], resume_at := 0, resume_deadline := 0,
        credentials := []\<rparr>))"

text \<open>The result of binding the socket is an argument: the error text, when it fails.\<close>

definition set_identity :: "lan \<Rightarrow> string \<Rightarrow> string \<Rightarrow> string \<Rightarrow> string \<Rightarrow> bool \<Rightarrow> string option \<Rightarrow> nearby \<Rightarrow> nearby" where
  "set_identity E scope i name kind host bind_error d =
     (if bound d \<and> oget ''scope'' (self_record d) = JStr scope \<and> own_id d = i \<and> jstr (oget ''name'' (self_record d)) = name
         \<and> oget ''kind'' (self_record d) = JStr kind \<and> oget ''host'' (self_record d) = JStr (if host then ''1'' else ''0'') then d
      else let d = clear E d; (n, d) = fresh_nonce E d;
               record = obj [(''v'', JStr ''1''), (''scope'', JStr scope), (''id'', JStr i), (''name'', JStr (take 128 name)),
                             (''kind'', JStr kind), (''host'', JStr (if host then ''1'' else ''0'')), (''nonce'', JStr n)] in
      if \<not> valid_device E record then d
      else let d = d\<lparr>self_record := record\<rparr> in
      case bind_error of
        Some e \<Rightarrow> emits [DevicesChanged] (d\<lparr>failure := ''Local device discovery could not start: '' @ e\<rparr>)
      | None \<Rightarrow> emits [ServiceStart record (local_port E), DevicesChanged] (d\<lparr>bound := True\<rparr>))"

definition advertise :: "lan \<Rightarrow> nearby \<Rightarrow> nearby" where
  "advertise E d =
     (if \<not> bound d then d
      else let record = odel ''proof'' (odel ''epoch'' (self_record d));
               record = (if authentic E d then sign E d record else record) in
      if record = self_record d then d
      else emits [ServiceStart record (local_port E), DevicesChanged] (d\<lparr>self_record := record\<rparr>))"

definition with_credentials :: "lan \<Rightarrow> jobj \<Rightarrow> string \<Rightarrow> string \<Rightarrow> nearby \<Rightarrow> nearby" where
  "with_credentials E c available primary_host d =
     (let previous = num_str (current_epoch E - 1);
          previous_key = oget previous (jobject (oget ''keys'' (credentials d)));
          c' = (if is_str previous_key \<and> c \<noteq> [] \<and> int_or 1 (oget ''version'' c) = 1
                then oput ''keys'' (JObj (oput previous previous_key (jobject (oget ''keys'' c)))) c else c);
          r = oput ''autoHost'' (JStr available) (self_record d) in
      d\<lparr>credentials := c', self_record := (if primary_host = [] then odel ''primary'' r else oput ''primary'' (JStr primary_host) r)\<rparr>)"

definition drop_unusable :: "lan \<Rightarrow> bool \<Rightarrow> nearby \<Rightarrow> nearby" where
  "drop_unusable E had d =
     (if authentic E d then d else if had then emits [AuthenticationEnding] (d\<lparr>credentials := []\<rparr>) else d\<lparr>credentials := []\<rparr>)"

definition set_credentials :: "lan \<Rightarrow> jobj \<Rightarrow> bool \<Rightarrow> string \<Rightarrow> nearby \<Rightarrow> nearby" where
  "set_credentials E c host_available primary_host d =
     (let available = (if host_available \<and> desktop d then ''1'' else ''0'') in
      if c = credentials d \<and> oget ''autoHost'' (self_record d) = JStr available \<and> own_primary d = primary_host then d
      else advertise E (drop_unusable E (credentials d \<noteq> []) (with_credentials E c available primary_host d)))"

section \<open>Observations\<close>

definition instance_of :: "jobj \<Rightarrow> string" where
  "instance_of r = jstr (oget ''id'' r) @ CHR ''/'' # jstr (oget ''nonce'' r)"

definition retired_until :: "(string \<times> int) list \<Rightarrow> string \<Rightarrow> int" where
  "retired_until xs k = (case map_of xs k of None \<Rightarrow> 0 | Some t \<Rightarrow> t)"

definition retire :: "lan \<Rightarrow> jobj \<Rightarrow> (string \<times> int) list \<Rightarrow> (string \<times> int) list" where
  "retire E r xs = upsert (instance_of r) (now_ms E + 70000)
     (if 128 \<le> length xs then delete_key (hd (hash_order E (map fst xs))) xs else xs)"

text \<open>An endpoint of an earlier process of the same device, and one that the announcement replaces.\<close>

definition restarted :: "bool \<Rightarrow> jobj \<Rightarrow> endpoint \<Rightarrow> bool" where
  "restarted verified r e \<longleftrightarrow> verified \<and> oget ''id'' (ep_record e) = oget ''id'' r \<and> oget ''nonce'' (ep_record e) \<noteq> oget ''nonce'' r"

definition replaced :: "string \<Rightarrow> int \<Rightarrow> jobj \<Rightarrow> endpoint \<Rightarrow> bool" where
  "replaced service port r e \<longleftrightarrow> ep_service e = service
     \<and> (ep_port e \<noteq> port \<or> oget ''id'' (ep_record e) \<noteq> oget ''id'' r \<or> oget ''nonce'' (ep_record e) \<noteq> oget ''nonce'' r)"

definition bound_to :: "nearby \<Rightarrow> json \<Rightarrow> bool" where
  "bound_to d i \<longleftrightarrow> oget ''to'' (outgoing d) = i \<or> oget ''from'' (incoming d) = i \<or> oget ''from'' (accepted d) = i"

definition observable :: "lan \<Rightarrow> nearby \<Rightarrow> string \<Rightarrow> jobj \<Rightarrow> string \<Rightarrow> int \<Rightarrow> bool" where
  "observable E d service r address port \<longleftrightarrow> bound d \<and> length service \<le> 512 \<and> valid_device E r \<and> port \<noteq> 0 \<and> local_address E address
     \<and> oget ''scope'' r = oget ''scope'' (self_record d) \<and> oget ''id'' r \<noteq> oget ''id'' (self_record d)"

text \<open>The table after the removal, and whether an earlier process was removed.\<close>

definition replace_endpoints :: "lan \<Rightarrow> bool \<Rightarrow> string \<Rightarrow> jobj \<Rightarrow> int \<Rightarrow> bool \<Rightarrow> nearby \<Rightarrow> bool \<times> nearby" where
  "replace_endpoints E verified service r port fresh d =
     (let old = filter (restarted verified r) (iterated E (endpoints d)) in
      (old \<noteq> [],
       d\<lparr>retired := (if fresh then foldl (\<lambda>xs e. retire E (ep_record e) xs) (retired d) old else retired d),
         endpoints := filter (\<lambda>(k, e). \<not> restarted verified r e \<and> \<not> replaced service port r e) (endpoints d)\<rparr>))"

definition endpoint_key :: "string \<Rightarrow> string \<Rightarrow> string" where
  "endpoint_key service address = service @ CHR ''/'' # address"

definition put_endpoint :: "lan \<Rightarrow> string \<Rightarrow> jobj \<Rightarrow> string \<Rightarrow> int \<Rightarrow> nearby \<Rightarrow> nearby" where
  "put_endpoint E service r address port d =
     d\<lparr>endpoints := upsert (endpoint_key service address)
         \<lparr>ep_service = service, ep_record = r, ep_address = address, ep_port = port, ep_seen = now_ms E\<rparr> (endpoints d), failure := []\<rparr>"

definition endpoints_full :: "string \<Rightarrow> string \<Rightarrow> nearby \<Rightarrow> bool" where
  "endpoints_full service address d \<longleftrightarrow> endpoint_key service address \<notin> fst ` set (endpoints d) \<and> 128 \<le> length (endpoints d)"

definition found :: "lan \<Rightarrow> string \<Rightarrow> jobj \<Rightarrow> string \<Rightarrow> int \<Rightarrow> bool \<Rightarrow> nearby \<Rightarrow> nearby" where
  "found E service r address port fresh d =
     (if \<not> observable E d service r address port then d
      else let verified = verify E d r; inst = instance_of r;
               d = (if fresh then d\<lparr>retired := delete_key inst (retired d)\<rparr> else d) in
      if \<not> fresh \<and> retired_until (retired d) inst > now_ms E then d
      else let (restart, d) = replace_endpoints E verified service r port fresh d in
      if endpoints_full service address d then d
      else let d = put_endpoint E service r address port d;
               d = (if restart \<and> bound_to d (oget ''id'' r)
                    then emits [InvitationEnded ''The other device restarted. Reconnecting.''] (cancel E d) else d) in
      emits [DevicesChanged] d)"

text \<open>The slots of the discovery service's signals.\<close>

definition lost :: "string \<Rightarrow> nearby \<Rightarrow> nearby" where
  "lost service d =
     (let rest = filter (\<lambda>(k, e). ep_service e \<noteq> service) (endpoints d) in
      if length rest < length (endpoints d) then emits [DevicesChanged] (d\<lparr>endpoints := rest\<rparr>) else d\<lparr>endpoints := rest\<rparr>)"

definition service_failed :: "lan \<Rightarrow> string \<Rightarrow> nearby \<Rightarrow> nearby" where
  "service_failed E error d =
     (if \<not> bound d then d
      else emits [DevicesChanged] (d\<lparr>failure := error, retry_time := (if retry_time d = 0 then now_ms E + 5000 else retry_time d)\<rparr>))"

section \<open>Readings\<close>

record nearby_device =
  nd_id :: string
  nd_name :: string
  nd_kind :: string
  nd_address :: string
  nd_desktop :: bool
  nd_verified :: bool
  nd_auto_host :: bool
  nd_primary :: string

definition device_of :: "lan \<Rightarrow> nearby \<Rightarrow> endpoint \<Rightarrow> nearby_device" where
  "device_of E d e = (let r = ep_record e in
     \<lparr>nd_id = jstr (oget ''id'' r), nd_name = jstr (oget ''name'' r), nd_kind = jstr (oget ''kind'' r), nd_address = ep_address e,
      nd_desktop = (oget ''host'' r = JStr ''1''), nd_verified = verify E d r, nd_auto_host = (oget ''autoHost'' r = JStr ''1''),
      nd_primary = jstr (oget ''primary'' r)\<rparr>)"

fun device_rows :: "lan \<Rightarrow> nearby \<Rightarrow> string list \<Rightarrow> endpoint list \<Rightarrow> nearby_device list" where
  "device_rows E d ids [] = []"
| "device_rows E d ids (e # es) =
     (let i = jstr (oget ''id'' (ep_record e)) in
      if i \<in> set ids \<or> \<not> recent E e then device_rows E d ids es else device_of E d e # device_rows E d (i # ids) es)"

text \<open>Devices whose names rank equally keep the order of the table.\<close>

definition nearby_devices :: "lan \<Rightarrow> nearby \<Rightarrow> nearby_device list" where
  "nearby_devices E d = sort_key (\<lambda>n. collate E (nd_name n)) (device_rows E d [] (iterated E (endpoints d)))"

datatype nearby_message = Failing string | NotSignedIn | Searching | Listing

definition nearby_status :: "lan \<Rightarrow> nearby \<Rightarrow> nearby_message" where
  "nearby_status E d = (if failure d \<noteq> [] then Failing (failure d) else if \<not> bound d then NotSignedIn
     else if nearby_devices E d = [] then Searching else Listing)"

definition lan_route :: "string \<Rightarrow> int \<Rightarrow> json" where
  "lan_route address port = JObj (obj [(''address'', JStr address), (''port'', JNum port)])"

definition connection_hints :: "lan \<Rightarrow> nearby \<Rightarrow> string \<Rightarrow> json list" where
  "connection_hints E d i =
     foldl (\<lambda>hints e. if oget ''id'' (ep_record e) \<noteq> JStr i \<or> \<not> recent E e \<or> \<not> verify E d (ep_record e) then hints
              else let hint = lan_route (ep_address e) (ep_port e) in
                if hint \<notin> set hints \<and> length hints < 8 then hints @ [hint] else hints)
       [] (iterated E (endpoints d))"

section \<open>Finding a known host again\<close>

definition route_address :: "lan \<Rightarrow> json \<Rightarrow> string" where
  "route_address E r = host_address E (jstr (oget ''address'' (jobject r)))"

definition route_port :: "json \<Rightarrow> int" where
  "route_port r = int_or 0 (oget ''port'' (jobject r))"

definition send_resume :: "lan \<Rightarrow> nearby \<Rightarrow> nearby" where
  "send_resume E d =
     (if \<not> authentic E d \<or> resume_target d \<noteq> own_primary d \<or> resume_routes d = [] \<or> now_ms E < resume_at d then d
      else let (n, d) = fresh_nonce E d;
               d = d\<lparr>resume_challenge := n, resume_deadline := now_ms E + 5000, resume_at := now_ms E + 5000\<rparr>;
               packet = sign E d (obj [(''v'', JStr ''1''), (''op'', JStr ''resume''), (''scope'', oget ''scope'' (self_record d)),
                 (''from'', JStr (own_id d)), (''to'', JStr (resume_target d)), (''request'', JStr (resume_challenge d)),
                 (''expires'', jnumstr (resume_deadline d)), (''record'', JObj (self_record d))]) in
      foldl (\<lambda>d r. send_datagram E packet (route_address E r) (route_port r mod 65536) d) d (resume_routes d))"

definition safe_routes :: "lan \<Rightarrow> json list \<Rightarrow> json list" where
  "safe_routes E routes =
     foldl (\<lambda>safe r. if local_address E (route_address E r) \<and> 0 < route_port r \<and> route_port r \<le> 65535 \<and> length safe < 8
                     then safe @ [lan_route (route_address E r) (route_port r)] else safe) [] routes"

definition resume_host :: "lan \<Rightarrow> string \<Rightarrow> json list \<Rightarrow> nearby \<Rightarrow> nearby" where
  "resume_host E host routes d =
     (if host = [] then d\<lparr>resume_target := [], resume_routes := [], resume_challenge := []\<rparr>
      else if \<not> authentic E d \<or> desktop d \<or> host \<noteq> own_primary d \<or> \<not> token host then d
      else let safe = safe_routes E routes in
      if host = resume_target d \<and> safe = resume_routes d then d
      else send_resume E (d\<lparr>resume_target := host, resume_routes := safe, resume_at := 0\<rparr>))"

text \<open>What a resume packet must be before its operation is looked at.\<close>

definition resume_envelope :: "lan \<Rightarrow> nearby \<Rightarrow> jobj \<Rightarrow> bool" where
  "resume_envelope E d p \<longleftrightarrow>
     (let r = jobject (oget ''record'' p); expires = jll (oget ''expires'' p) in
      oget ''v'' p = JStr ''1'' \<and> oget ''to'' p = JStr (own_id d) \<and> oget ''scope'' p = oget ''scope'' (self_record d)
      \<and> token (jstr (oget ''request'' p)) \<and> now_ms E < expires \<and> expires \<le> now_ms E + 6000 \<and> valid_device E r
      \<and> oget ''id'' r = oget ''from'' p \<and> oget ''id'' r \<noteq> JStr (own_id d) \<and> oget ''scope'' r = oget ''scope'' (self_record d)
      \<and> verify E d p \<and> verify E d r)"

definition receive_resume :: "lan \<Rightarrow> jobj \<Rightarrow> string \<Rightarrow> int \<Rightarrow> nearby \<Rightarrow> bool \<times> nearby" where
  "receive_resume E p address port d =
     (let op = jstr (oget ''op'' p); r = jobject (oget ''record'' p); request = jstr (oget ''request'' p);
          observe = found E (''resume:'' @ jstr (oget ''id'' r)) r address port True in
      if op \<noteq> ''resume'' \<and> op \<noteq> ''resume-ready'' then (False, d)
      else if \<not> resume_envelope E d p then (True, d)
      else if op = ''resume'' then
        (if \<not> automatic_host_available d \<or> own_primary d \<noteq> own_id d \<or> oget ''primary'' r \<noteq> JStr (own_id d)
            \<or> oget ''host'' r \<noteq> JStr ''0'' \<or> request \<in> fst ` set (seen_requests d) \<or> 128 \<le> length (seen_requests d) then (True, d)
         else let d = d\<lparr>seen_requests := upsert request (jll (oget ''expires'' p)) (seen_requests d)\<rparr>;
                  d = send_datagram E (sign E d (obj [(''v'', JStr ''1''), (''op'', JStr ''resume-ready''), (''scope'', oget ''scope'' (self_record d)),
                        (''from'', JStr (own_id d)), (''to'', oget ''id'' r), (''request'', JStr request),
                        (''expires'', oget ''expires'' p), (''record'', JObj (self_record d))])) address port d in
         (True, observe d))
      else if desktop d \<or> oget ''from'' p \<noteq> JStr (resume_target d) \<or> request \<noteq> resume_challenge d \<or> resume_deadline d \<le> now_ms E
           \<or> oget ''autoHost'' r \<noteq> JStr ''1'' \<or> oget ''primary'' r \<noteq> JStr (resume_target d) then (True, d)
      else if \<not> list_ex (\<lambda>x. route_address E x = address \<and> route_port x = port) (resume_routes d) then (True, d)
      else (True, observe (d\<lparr>resume_challenge := []\<rparr>)))"

section \<open>Invitations\<close>

definition invite :: "lan \<Rightarrow> string \<Rightarrow> string \<Rightarrow> bool \<Rightarrow> nearby \<Rightarrow> bool \<times> nearby" where
  "invite E i text automatic d =
     (case (endpoint_of E d i [] 0, read_link E text) of
        (Some e, Some link) \<Rightarrow>
          if \<not> bound d \<or> \<not> desktop d \<or> link_host link \<noteq> own_id d \<or> link_expires link \<le> now_ms E
             \<or> (automatic \<and> \<not> verify E d (ep_record e)) then (False, d)
          else let (n, d) = fresh_nonce E (cancel E d);
                   packet = obj [(''v'', JStr ''1''), (''op'', JStr ''invite''), (''scope'', oget ''scope'' (self_record d)),
                     (''from'', JStr (own_id d)), (''to'', JStr i), (''nonce'', oget ''nonce'' (ep_record e)), (''request'', JStr n),
                     (''link'', JStr text), (''name'', oget ''name'' (ep_record e)), (''expires'', jnumstr (link_expires link))];
                   packet = (if automatic then sign E d (oput ''senderNonce'' (oget ''nonce'' (self_record d))
                               (oput ''automatic'' (JStr ''1'') packet)) else packet);
                   d = send_peer E packet e (d\<lparr>outgoing := packet\<rparr>) in
          (True, emits [DevicesChanged] (d\<lparr>next_send := now_ms E + 2000\<rparr>))
      | _ \<Rightarrow> (False, d))"

text \<open>What every datagram from an observed peer is checked for.\<close>

definition envelope_ok :: "lan \<Rightarrow> nearby \<Rightarrow> endpoint \<Rightarrow> jobj \<Rightarrow> bool" where
  "envelope_ok E d e p \<longleftrightarrow> oget ''v'' p = JStr ''1'' \<and> oget ''scope'' p = oget ''scope'' (self_record d)
     \<and> oget ''to'' p = oget ''id'' (self_record d) \<and> token (jstr (oget ''request'' p))"

definition automatic_packet :: "jobj \<Rightarrow> bool" where
  "automatic_packet p \<longleftrightarrow> oget ''automatic'' p = JStr ''1''"

definition automatic_ok :: "lan \<Rightarrow> nearby \<Rightarrow> endpoint \<Rightarrow> jobj \<Rightarrow> bool" where
  "automatic_ok E d e p \<longleftrightarrow> verify E d p \<and> verify E d (ep_record e) \<and> oget ''nonce'' p = oget ''nonce'' (self_record d)
     \<and> oget ''senderNonce'' p = oget ''nonce'' (ep_record e)"

definition invitation_ok :: "lan \<Rightarrow> nearby \<Rightarrow> endpoint \<Rightarrow> jobj \<Rightarrow> lan_link \<Rightarrow> bool" where
  "invitation_ok E d e p link \<longleftrightarrow> oget ''host'' (ep_record e) = JStr ''1'' \<and> oget ''nonce'' p = oget ''nonce'' (self_record d)
     \<and> jstr (oget ''request'' p) \<notin> fst ` set (seen_requests d) \<and> incoming d = []
     \<and> JStr (link_host link) = oget ''id'' (ep_record e) \<and> now_ms E < link_expires link \<and> link_expires link \<le> now_ms E + 65000
     \<and> ep_address e \<in> set (link_addresses link)"

definition take_invitation :: "lan \<Rightarrow> endpoint \<Rightarrow> jobj \<Rightarrow> lan_link \<Rightarrow> nearby \<Rightarrow> nearby" where
  "take_invitation E e p link d =
     (let link = link\<lparr>link_addresses := [ep_address e]\<rparr>;
          d = d\<lparr>incoming := oput ''expires'' (jnumstr (link_expires link)) (oput ''name'' (oget ''name'' (ep_record e))
                 (oput ''link'' (JStr (print_link E link)) p)),
               seen_requests := upsert (jstr (oget ''request'' p)) (now_ms E + 70000) (seen_requests d)\<rparr> in
      emits [DevicesChanged, InvitationReceived p] d)"

definition hex_group :: "string \<Rightarrow> bool" where
  "hex_group s \<longleftrightarrow> length s = 4 \<and> list_all (\<lambda>c. c \<in> set ''ABCDEF0123456789'') s"

definition code_shape :: "string \<Rightarrow> bool" where
  "code_shape s \<longleftrightarrow> length s = 14 \<and> hex_group (take 4 s) \<and> s ! 4 = CHR ''-'' \<and> hex_group (take 4 (drop 5 s)) \<and> s ! 9 = CHR ''-''
     \<and> hex_group (drop 10 s)"

definition answers_own :: "nearby \<Rightarrow> jobj \<Rightarrow> bool" where
  "answers_own d p \<longleftrightarrow> outgoing d \<noteq> [] \<and> oget ''request'' p = oget ''request'' (outgoing d) \<and> oget ''from'' p = oget ''to'' (outgoing d)
     \<and> automatic_packet p = automatic_packet (outgoing d)"

definition receive_packet :: "lan \<Rightarrow> endpoint \<Rightarrow> jobj \<Rightarrow> nearby \<Rightarrow> nearby" where
  "receive_packet E e p d =
     (let op = jstr (oget ''op'' p) in
      if \<not> envelope_ok E d e p then d
      else if automatic_packet p \<and> \<not> automatic_ok E d e p then d
      else if op = ''invite'' then
        (case read_link E (jstr (oget ''link'' p)) of
           None \<Rightarrow> d
         | Some link \<Rightarrow> if invitation_ok E d e p link then take_invitation E e p link d else d)
      else if op \<in> set [''decline'', ''accept'', ''verify''] \<and> answers_own d p then
        (if op = ''verify'' then
           (if automatic_packet p \<and> code_shape (jstr (oget ''code'' p))
            then emits [DevicesChanged] (d\<lparr>verification_code := jstr (oget ''code'' p)\<rparr>) else d)
         else if op = ''decline'' then
           emits [DevicesChanged, InvitationEnded ''The other device declined the request.''] (d\<lparr>outgoing := []\<rparr>)
         else d\<lparr>next_send := now_ms E + 65000\<rparr>)
      else if op = ''cancel'' \<and> incoming d \<noteq> [] \<and> oget ''request'' p = oget ''request'' (incoming d)
              \<and> oget ''from'' p = oget ''from'' (incoming d) \<and> automatic_packet p = incoming_automatic d
        then emits [DevicesChanged] (d\<lparr>incoming := []\<rparr>)
      else d)"

definition receive_datagram :: "lan \<Rightarrow> string \<Rightarrow> int \<Rightarrow> string \<Rightarrow> nearby \<Rightarrow> nearby" where
  "receive_datagram E address port bytes d =
     (if 4096 < length bytes then d
      else if \<not> local_address E address then d
      else let p = parse_obj E bytes; (handled, d) = receive_resume E p address port d in
      if handled then d
      else case endpoint_of E d (jstr (oget ''from'' p)) address port of None \<Rightarrow> d | Some e \<Rightarrow> receive_packet E e p d)"

text \<open>One call takes at most 64 datagrams; the others stay pending, and the call is scheduled again.\<close>

definition receive_datagrams :: "lan \<Rightarrow> (string \<times> int \<times> string) list \<Rightarrow> nearby \<Rightarrow> (string \<times> int \<times> string) list \<times> nearby" where
  "receive_datagrams E pending d =
     (drop 64 pending, foldl (\<lambda>d (address, port, bytes). receive_datagram E address port bytes d) d (take 64 pending))"

definition accept_invitation :: "lan \<Rightarrow> nearby \<Rightarrow> string \<times> nearby" where
  "accept_invitation E d =
     (if incoming d = [] \<or> jll (oget ''expires'' (incoming d)) \<le> now_ms E then ([], decline E d)
      else case endpoint_of E d (jstr (oget ''from'' (incoming d))) [] 0 of
        None \<Rightarrow> ([], decline E d)
      | Some e \<Rightarrow>
          if incoming_automatic d \<and> (\<not> authentic E d \<or> \<not> verify E d (ep_record e)) then ([], decline E d)
          else let d = send_peer E (reply E d (incoming d) ''accept'') e d;
                   d = d\<lparr>accepted := (if incoming_automatic d then incoming d else [])\<rparr> in
               (jstr (oget ''link'' (incoming d)), emits [DevicesChanged] (d\<lparr>incoming := []\<rparr>)))"

definition prove_connection :: "lan \<Rightarrow> string \<Rightarrow> nearby \<Rightarrow> nearby" where
  "prove_connection E code d =
     (if \<not> authentic E d \<or> accepted d = [] \<or> jll (oget ''expires'' (accepted d)) \<le> now_ms E then d
      else case endpoint_of E d (jstr (oget ''from'' (accepted d))) [] 0 of
        None \<Rightarrow> d
      | Some e \<Rightarrow> send_peer E (sign E d (oput ''code'' (JStr code) (reply E d (accepted d) ''verify''))) e d)"

section \<open>The timer\<close>

definition expire_credentials :: "lan \<Rightarrow> nearby \<Rightarrow> nearby" where
  "expire_credentials E d =
     (if credentials d \<noteq> [] \<and> \<not> authentic E d then emits [AuthenticationEnding] (d\<lparr>credentials := []\<rparr>) else d)"

definition purge :: "lan \<Rightarrow> nearby \<Rightarrow> nearby" where
  "purge E d =
     (let seen = filter (\<lambda>(k, t). now_ms E < t) (seen_requests d) in
      d\<lparr>endpoints := filter (\<lambda>(k, e). recent E e) (endpoints d),
        retired := filter (\<lambda>(k, t). now_ms E < t) (retired d),
        seen_requests := (if 128 < length seen then [] else seen)\<rparr>)"

definition retry_service :: "lan \<Rightarrow> nearby \<Rightarrow> nearby" where
  "retry_service E d =
     (if retry_time d \<noteq> 0 \<and> retry_time d \<le> now_ms E
      then emits [ServiceStop, ServiceStart (self_record d) (local_port E)] (d\<lparr>retry_time := 0\<rparr>) else d)"

definition expired :: "lan \<Rightarrow> jobj \<Rightarrow> bool" where
  "expired E p \<longleftrightarrow> jll (oget ''expires'' p) \<le> now_ms E"

definition resend :: "lan \<Rightarrow> nearby \<Rightarrow> nearby" where
  "resend E d =
     (if now_ms E < next_send d then d
      else let d = (case endpoint_of E d (jstr (oget ''to'' (outgoing d))) [] 0 of None \<Rightarrow> d | Some e \<Rightarrow> send_peer E (outgoing d) e d) in
      d\<lparr>next_send := now_ms E + 2000\<rparr>)"

definition nearby_tick :: "lan \<Rightarrow> nearby \<Rightarrow> nearby" where
  "nearby_tick E d =
     (let d = send_resume E (advertise E (expire_credentials E d));
          removed1 = \<not> list_all (\<lambda>(k, e). recent E e) (endpoints d);
          d = retry_service E (purge E d);
          removed2 = (incoming d \<noteq> [] \<and> expired E (incoming d));
          d = (if removed2 then d\<lparr>incoming := []\<rparr> else d);
          removed3 = (outgoing d \<noteq> [] \<and> expired E (outgoing d));
          d = (if removed3 then emits [InvitationEnded ''The connection request expired. Select the device to try again.''] (d\<lparr>outgoing := []\<rparr>)
               else if outgoing d \<noteq> [] then resend E d else d) in
      if removed1 \<or> removed2 \<or> removed3 then emits [DevicesChanged] d else d)"

section \<open>Runs\<close>

text \<open>The calls from outside, each at its time, which does not run backwards.\<close>

datatype nearby_input = SetIdentity string string string string bool "string option" | SetCredentials jobj bool string | Clear
  | Found string jobj string int | Lost string | ServiceFailed string | DatagramIn string int string | InviteDevice string string bool
  | AcceptInvitation | DeclineInvitation | CancelInvitation | CompleteInvitation | ProveConnection string | ResumeHost string "json list" | Tick

fun nearby_call :: "lan \<Rightarrow> nearby_input \<Rightarrow> nearby \<Rightarrow> nearby" where
  "nearby_call E (SetIdentity scope i name kind host err) d = set_identity E scope i name kind host err d"
| "nearby_call E (SetCredentials c host_available primary_host) d = set_credentials E c host_available primary_host d"
| "nearby_call E Clear d = clear E d"
| "nearby_call E (Found service r address port) d = found E service r address port False d"
| "nearby_call E (Lost service) d = lost service d"
| "nearby_call E (ServiceFailed e) d = service_failed E e d"
| "nearby_call E (DatagramIn address port bytes) d = receive_datagram E address port bytes d"
| "nearby_call E (InviteDevice i text automatic) d = snd (invite E i text automatic d)"
| "nearby_call E AcceptInvitation d = snd (accept_invitation E d)"
| "nearby_call E DeclineInvitation d = decline E d"
| "nearby_call E CancelInvitation d = cancel E d"
| "nearby_call E CompleteInvitation d = complete d"
| "nearby_call E (ProveConnection code) d = prove_connection E code d"
| "nearby_call E (ResumeHost host routes) d = resume_host E host routes d"
| "nearby_call E Tick d = nearby_tick E d"

fun nearby_run :: "lan \<Rightarrow> (int \<times> nearby_input) list \<Rightarrow> nearby \<Rightarrow> nearby" where
  "nearby_run E [] d = d"
| "nearby_run E ((t, c) # cs) d = nearby_run E cs (nearby_call (E\<lparr>now_ms := t\<rparr>) c d)"

end
