(* ===== verification/NearbyRuns.thy ===== *)
theory NearbyRuns
  imports Nearby
begin

text \<open>
  The runs of \<open>NearbyDevices\<close>: what each operation leaves alone, the invariant of its tables, and the invitations it takes.
\<close>

section \<open>What the operations leave alone\<close>

lemma emits_fields [simp]:
  "bound (emits hs d) = bound d" "self_record (emits hs d) = self_record d" "incoming (emits hs d) = incoming d"
  "outgoing (emits hs d) = outgoing d" "accepted (emits hs d) = accepted d" "credentials (emits hs d) = credentials d"
  "endpoints (emits hs d) = endpoints d" "seen_requests (emits hs d) = seen_requests d" "retired (emits hs d) = retired d"
  "failure (emits hs d) = failure d" "verification_code (emits hs d) = verification_code d" "next_send (emits hs d) = next_send d"
  "retry_time (emits hs d) = retry_time d" "resume_target (emits hs d) = resume_target d" "resume_challenge (emits hs d) = resume_challenge d"
  "resume_routes (emits hs d) = resume_routes d" "resume_at (emits hs d) = resume_at d" "resume_deadline (emits hs d) = resume_deadline d"
  "nonces (emits hs d) = nonces d"
  by (simp_all add: emits_def)

lemma send_fields [simp]:
  "bound (send_datagram E p a n d) = bound d" "self_record (send_datagram E p a n d) = self_record d" "incoming (send_datagram E p a n d) = incoming d"
  "outgoing (send_datagram E p a n d) = outgoing d" "accepted (send_datagram E p a n d) = accepted d" "credentials (send_datagram E p a n d) = credentials d"
  "endpoints (send_datagram E p a n d) = endpoints d" "seen_requests (send_datagram E p a n d) = seen_requests d" "retired (send_datagram E p a n d) = retired d"
  "failure (send_datagram E p a n d) = failure d" "verification_code (send_datagram E p a n d) = verification_code d" "next_send (send_datagram E p a n d) = next_send d"
  "retry_time (send_datagram E p a n d) = retry_time d" "resume_target (send_datagram E p a n d) = resume_target d" "resume_challenge (send_datagram E p a n d) = resume_challenge d"
  "resume_routes (send_datagram E p a n d) = resume_routes d" "resume_at (send_datagram E p a n d) = resume_at d" "resume_deadline (send_datagram E p a n d) = resume_deadline d"
  "nonces (send_datagram E p a n d) = nonces d"
  by (simp_all add: send_datagram_def Let_def)

lemma decline_fields [simp]:
  "bound (decline E d) = bound d" "self_record (decline E d) = self_record d" "outgoing (decline E d) = outgoing d"
  "accepted (decline E d) = accepted d" "credentials (decline E d) = credentials d" "endpoints (decline E d) = endpoints d"
  "seen_requests (decline E d) = seen_requests d" "retired (decline E d) = retired d" "failure (decline E d) = failure d"
  "verification_code (decline E d) = verification_code d" "next_send (decline E d) = next_send d" "retry_time (decline E d) = retry_time d"
  "resume_target (decline E d) = resume_target d" "resume_challenge (decline E d) = resume_challenge d" "resume_routes (decline E d) = resume_routes d"
  "resume_at (decline E d) = resume_at d" "resume_deadline (decline E d) = resume_deadline d" "nonces (decline E d) = nonces d" "incoming (decline E d) = []"
  by (simp_all add: decline_def Let_def split: option.splits)

lemma cancel_fields [simp]:
  "bound (cancel E d) = bound d" "self_record (cancel E d) = self_record d" "credentials (cancel E d) = credentials d"
  "endpoints (cancel E d) = endpoints d" "seen_requests (cancel E d) = seen_requests d" "retired (cancel E d) = retired d"
  "failure (cancel E d) = failure d" "next_send (cancel E d) = next_send d" "retry_time (cancel E d) = retry_time d"
  "resume_target (cancel E d) = resume_target d" "resume_challenge (cancel E d) = resume_challenge d" "resume_routes (cancel E d) = resume_routes d"
  "resume_at (cancel E d) = resume_at d" "resume_deadline (cancel E d) = resume_deadline d" "nonces (cancel E d) = nonces d"
  "incoming (cancel E d) = []" "outgoing (cancel E d) = []" "accepted (cancel E d) = []" "verification_code (cancel E d) = []"
  by (simp_all add: cancel_def Let_def split: option.splits)

lemma send_resume_fields [simp]:
  "bound (send_resume E d) = bound d" "self_record (send_resume E d) = self_record d" "incoming (send_resume E d) = incoming d"
  "outgoing (send_resume E d) = outgoing d" "accepted (send_resume E d) = accepted d" "credentials (send_resume E d) = credentials d"
  "endpoints (send_resume E d) = endpoints d" "seen_requests (send_resume E d) = seen_requests d" "retired (send_resume E d) = retired d"
  "failure (send_resume E d) = failure d" "verification_code (send_resume E d) = verification_code d" "next_send (send_resume E d) = next_send d"
  "retry_time (send_resume E d) = retry_time d" "resume_target (send_resume E d) = resume_target d" "resume_routes (send_resume E d) = resume_routes d"
  by (simp_all add: send_resume_def Let_def fresh_nonce_def fold_field)

text \<open>The record keeps its identity when its proof is renewed.\<close>

lemma sign_get: "k \<noteq> ''epoch'' \<Longrightarrow> k \<noteq> ''proof'' \<Longrightarrow> oget k (sign E d p) = oget k p"
  by (simp add: sign_def Let_def)

lemma advertise_fields [simp]:
  "bound (advertise E d) = bound d" "incoming (advertise E d) = incoming d" "outgoing (advertise E d) = outgoing d"
  "accepted (advertise E d) = accepted d" "credentials (advertise E d) = credentials d" "endpoints (advertise E d) = endpoints d"
  "seen_requests (advertise E d) = seen_requests d" "retired (advertise E d) = retired d" "failure (advertise E d) = failure d"
  "verification_code (advertise E d) = verification_code d" "next_send (advertise E d) = next_send d" "retry_time (advertise E d) = retry_time d"
  "resume_target (advertise E d) = resume_target d" "resume_challenge (advertise E d) = resume_challenge d" "resume_routes (advertise E d) = resume_routes d"
  "resume_at (advertise E d) = resume_at d" "resume_deadline (advertise E d) = resume_deadline d" "nonces (advertise E d) = nonces d"
  by (simp_all add: advertise_def Let_def)

lemma advertise_get: "k \<noteq> ''epoch'' \<Longrightarrow> k \<noteq> ''proof'' \<Longrightarrow> oget k (self_record (advertise E d)) = oget k (self_record d)"
  by (simp add: advertise_def Let_def sign_get)

section \<open>The invariant\<close>

definition observed_ok :: "lan \<Rightarrow> nearby \<Rightarrow> bool" where
  "observed_ok E d \<longleftrightarrow> distinct (map fst (endpoints d)) \<and> length (endpoints d) \<le> 128
     \<and> (\<forall>(k, e) \<in> set (endpoints d). k = endpoint_key (ep_service e) (ep_address e)
          \<and> observable E d (ep_service e) (ep_record e) (ep_address e) (ep_port e))"

text \<open>An invitation this very process was sent by another device of the account.\<close>

definition addressed_here :: "nearby \<Rightarrow> jobj \<Rightarrow> bool" where
  "addressed_here d p \<longleftrightarrow> bound d \<and> oget ''to'' p = oget ''id'' (self_record d) \<and> oget ''nonce'' p = oget ''nonce'' (self_record d)
     \<and> oget ''scope'' p = oget ''scope'' (self_record d) \<and> oget ''from'' p \<noteq> oget ''id'' (self_record d) \<and> token (jstr (oget ''request'' p))"

definition own_invitation :: "nearby \<Rightarrow> jobj \<Rightarrow> bool" where
  "own_invitation d p \<longleftrightarrow> bound d \<and> desktop d \<and> oget ''from'' p = JStr (own_id d) \<and> oget ''scope'' p = oget ''scope'' (self_record d)"

definition routes_ok :: "lan \<Rightarrow> json list \<Rightarrow> bool" where
  "routes_ok E rs \<longleftrightarrow> length rs \<le> 8
     \<and> (\<forall>r \<in> set rs. local_address E (jstr (oget ''address'' (jobject r))) \<and> 0 < route_port r \<and> route_port r \<le> 65535)"

definition nearby_ok :: "lan \<Rightarrow> nearby \<Rightarrow> bool" where
  "nearby_ok E d \<longleftrightarrow> observed_ok E d \<and> distinct (map fst (retired d)) \<and> length (retired d) \<le> 128 \<and> routes_ok E (resume_routes d)
     \<and> (incoming d = [] \<or> addressed_here d (incoming d)) \<and> (accepted d = [] \<or> addressed_here d (accepted d))
     \<and> (outgoing d = [] \<or> own_invitation d (outgoing d))"

lemma local_address_clock [simp]: "local_address (E\<lparr>now_ms := t\<rparr>) a = local_address E a"
  by (simp add: local_address_def)

lemma valid_device_clock [simp]: "valid_device (E\<lparr>now_ms := t\<rparr>) r = valid_device E r"
  by (simp add: valid_device_def)

lemma observable_clock [simp]: "observable (E\<lparr>now_ms := t\<rparr>) d s r a p = observable E d s r a p"
  by (simp add: observable_def)

lemma nearby_ok_clock [simp]: "nearby_ok (E\<lparr>now_ms := t\<rparr>) d = nearby_ok E d"
  by (simp add: nearby_ok_def observed_ok_def routes_ok_def)

text \<open>Two states with the same identity.\<close>

definition same_identity :: "nearby \<Rightarrow> nearby \<Rightarrow> bool" where
  "same_identity d d' \<longleftrightarrow> bound d' = bound d \<and> oget ''id'' (self_record d') = oget ''id'' (self_record d)
     \<and> oget ''scope'' (self_record d') = oget ''scope'' (self_record d) \<and> oget ''nonce'' (self_record d') = oget ''nonce'' (self_record d)
     \<and> oget ''host'' (self_record d') = oget ''host'' (self_record d)"

lemma identity_observable: "same_identity d d' \<Longrightarrow> observable E d' s r a p = observable E d s r a p"
  by (simp add: same_identity_def observable_def)

lemma identity_addressed: "same_identity d d' \<Longrightarrow> addressed_here d' p = addressed_here d p"
  by (simp add: same_identity_def addressed_here_def)

lemma identity_own: "same_identity d d' \<Longrightarrow> own_invitation d' p = own_invitation d p"
  by (simp add: same_identity_def own_invitation_def desktop_def own_id_def)

lemma nearby_ok_keep:
  assumes "nearby_ok E d" and "same_identity d d'" and "endpoints d' = filter P (endpoints d)" and "retired d' = filter Q (retired d)"
    and "routes_ok E (resume_routes d')" and "incoming d' = [] \<or> incoming d' = incoming d \<or> addressed_here d (incoming d')"
    and "accepted d' = [] \<or> accepted d' = accepted d \<or> accepted d' = incoming d"
    and "outgoing d' = [] \<or> outgoing d' = outgoing d \<or> own_invitation d (outgoing d')"
  shows "nearby_ok E d'"
proof -
  note ids = identity_observable [OF assms(2)] identity_addressed [OF assms(2)] identity_own [OF assms(2)]
  have "observed_ok E d'"
    using assms(1) unfolding nearby_ok_def observed_ok_def ids assms(3)
    by (auto intro: distinct_map_filter order_trans [OF length_filter_le])
  moreover have "distinct (map fst (retired d')) \<and> length (retired d') \<le> 128"
    using assms(1) unfolding nearby_ok_def assms(4) by (auto intro: distinct_map_filter order_trans [OF length_filter_le])
  ultimately show ?thesis using assms(1,5-) unfolding nearby_ok_def ids by metis
qed

lemma nearby_ok_same:
  assumes "nearby_ok E d" and "same_identity d d'" and "endpoints d' = endpoints d" and "retired d' = retired d"
    and "resume_routes d' = resume_routes d" and "incoming d' = [] \<or> incoming d' = incoming d \<or> addressed_here d (incoming d')"
    and "accepted d' = [] \<or> accepted d' = accepted d \<or> accepted d' = incoming d"
    and "outgoing d' = [] \<or> outgoing d' = outgoing d \<or> own_invitation d (outgoing d')"
  shows "nearby_ok E d'"
  using nearby_ok_keep [OF assms(1,2), of "\<lambda>_. True" "\<lambda>_. True"] assms by (simp add: nearby_ok_def)

lemma decline_ok: "nearby_ok E d \<Longrightarrow> nearby_ok E (decline E' d)"
  by (rule nearby_ok_same) (auto simp: same_identity_def)

lemma cancel_ok: "nearby_ok E d \<Longrightarrow> nearby_ok E (cancel E' d)"
  by (rule nearby_ok_same) (auto simp: same_identity_def)

lemma complete_ok: "nearby_ok E d \<Longrightarrow> nearby_ok E (complete d)"
  by (rule nearby_ok_same) (auto simp: same_identity_def complete_def)

lemma emits_ok [simp]: "nearby_ok E (emits hs d) = nearby_ok E d"
  by (simp add: nearby_ok_def observed_ok_def observable_def addressed_here_def own_invitation_def desktop_def own_id_def)

lemma advertise_identity: "same_identity d (advertise E d)"
  by (simp add: same_identity_def advertise_get)

lemma advertise_ok: "nearby_ok E d \<Longrightarrow> nearby_ok E (advertise E' d)"
  by (rule nearby_ok_same [OF _ advertise_identity]) auto

lemma clear_ok: "nearby_ok E (clear E' d)"
  by (simp add: clear_def Let_def nearby_ok_def observed_ok_def routes_ok_def)

lemma new_nearby_ok: "nearby_ok E new_nearby"
  by (simp add: new_nearby_def nearby_ok_def observed_ok_def routes_ok_def)

lemma clear_tables: "endpoints (clear E d) = []" "retired (clear E d) = []" "resume_routes (clear E d) = []" "incoming (clear E d) = []"
    "accepted (clear E d) = []" "outgoing (clear E d) = []"
  by (simp_all add: clear_def Let_def)

lemma empty_ok: "endpoints d = [] \<Longrightarrow> retired d = [] \<Longrightarrow> resume_routes d = [] \<Longrightarrow> incoming d = [] \<Longrightarrow> accepted d = [] \<Longrightarrow> outgoing d = [] \<Longrightarrow> nearby_ok E d"
  by (simp add: nearby_ok_def observed_ok_def routes_ok_def)

lemma set_identity_ok: "nearby_ok E d \<Longrightarrow> nearby_ok E (set_identity E' scope i name kind host err d)"
  unfolding set_identity_def Let_def fresh_nonce_def
  by (auto simp: clear_tables empty_ok split: option.splits)

lemma credentials_only_ok [simp]: "nearby_ok E (d\<lparr>credentials := c\<rparr>) = nearby_ok E d"
  by (simp add: nearby_ok_def observed_ok_def observable_def addressed_here_def own_invitation_def desktop_def own_id_def)

lemma record_ok:
  assumes "nearby_ok E d" and "\<And>k. k \<in> {''id'', ''scope'', ''nonce'', ''host''} \<Longrightarrow> oget k r = oget k (self_record d)"
  shows "nearby_ok E (d\<lparr>credentials := c, self_record := r\<rparr>)"
  using assms(2) by (intro nearby_ok_same [OF assms(1)]) (simp_all add: same_identity_def)

lemma with_credentials_ok: "nearby_ok E d \<Longrightarrow> nearby_ok E (with_credentials E' c available primary_host d)"
  unfolding with_credentials_def Let_def by (rule record_ok) auto

lemma set_credentials_ok: "nearby_ok E d \<Longrightarrow> nearby_ok E (set_credentials E' c host primary_host d)"
  unfolding set_credentials_def Let_def by (simp add: advertise_ok drop_unusable_def with_credentials_ok)

section \<open>Observing\<close>

text \<open>The order of a table's iteration names its keys.\<close>

definition iterates :: "lan \<Rightarrow> bool" where
  "iterates E \<longleftrightarrow> (\<forall>ks. distinct ks \<longrightarrow> set (hash_order E ks) = set ks)"

lemma delete_key_distinct: "distinct (map fst xs) \<Longrightarrow> distinct (map fst (delete_key k xs))"
  unfolding delete_key_def by (rule distinct_map_filter)

lemma first_of_order:
  assumes "iterates E" and "distinct (map fst xs)" and "xs \<noteq> []"
  shows "hd (hash_order E (map fst xs)) \<in> fst ` set xs"
proof -
  have "set (hash_order E (map fst xs)) = fst ` set xs" using assms by (simp add: iterates_def)
  moreover have "fst ` set xs \<noteq> {}" using assms(3) by simp
  ultimately show ?thesis by (metis hd_in_set set_empty)
qed

lemma retire_bounded:
  assumes "iterates E" and "distinct (map fst xs)" and "length xs \<le> 128"
  shows "distinct (map fst (retire E r xs)) \<and> length (retire E r xs) \<le> 128"
proof (cases "length xs < 128")
  case True
  then show ?thesis using assms length_upsert [of "instance_of r" "now_ms E + 70000" xs] by (simp add: retire_def)
next
  case False
  let ?ys = "delete_key (hd (hash_order E (map fst xs))) xs"
  have ne: "xs \<noteq> []" using False by auto
  have "length ?ys < length xs" by (rule delete_key_shorter [OF first_of_order [OF assms(1,2) ne]])
  then show ?thesis
    using False assms length_upsert [of "instance_of r" "now_ms E + 70000" ?ys] by (simp add: retire_def delete_key_distinct)
qed

lemma retire_all_bounded:
  assumes "iterates E" and "distinct (map fst xs)" and "length xs \<le> 128"
  shows "distinct (map fst (foldl (\<lambda>xs e. retire E (ep_record e) xs) xs es)) \<and> length (foldl (\<lambda>xs e. retire E (ep_record e) xs) xs es) \<le> 128"
  using assms(2,3)
proof (induction es arbitrary: xs)
  case (Cons e es)
  then show ?case using retire_bounded [OF assms(1), of xs "ep_record e"] by simp
qed simp

lemma insert_observed:
  assumes "observed_ok E d" and "observable E d service r address port"
    and "\<not> endpoints_full service address d"
  shows "observed_ok E (put_endpoint E' service r address port d)"
proof -
  let ?k = "endpoint_key service address"
  let ?e = "\<lparr>ep_service = service, ep_record = r, ep_address = address, ep_port = port, ep_seen = now_ms E'\<rparr>"
  have present: "length (upsert k v xs) = length xs" if "k \<in> fst ` set xs" for k :: string and v :: endpoint and xs
    using that by (induction k v xs rule: upsert.induct) auto
  have "length (upsert ?k ?e (endpoints d)) \<le> 128"
    using assms(1,3) present [of ?k "endpoints d" ?e] length_upsert [of ?k ?e "endpoints d"]
    by (cases "?k \<in> fst ` set (endpoints d)") (auto simp: observed_ok_def endpoints_full_def)
  moreover have "observable E (d\<lparr>endpoints := x, failure := y\<rparr>) s q a n = observable E d s q a n" for x y s q a n by (simp add: observable_def)
  ultimately show ?thesis
    using assms(1,2) set_upsert_subset [of ?k ?e "endpoints d"] unfolding observed_ok_def put_endpoint_def by fastforce
qed

lemma retired_ok:
  "nearby_ok E d \<Longrightarrow> distinct (map fst xs) \<Longrightarrow> length xs \<le> 128 \<Longrightarrow> nearby_ok E (d\<lparr>retired := xs\<rparr>)"
  by (simp add: nearby_ok_def observed_ok_def observable_def addressed_here_def own_invitation_def desktop_def own_id_def)

lemma nearby_ok_observed: "nearby_ok E d \<Longrightarrow> observed_ok E d"
  by (simp add: nearby_ok_def)

lemma nearby_ok_retired: "nearby_ok E d \<Longrightarrow> distinct (map fst (retired d)) \<and> length (retired d) \<le> 128"
  by (simp add: nearby_ok_def)

lemma endpoints_ok: "nearby_ok E d \<Longrightarrow> observed_ok E (d\<lparr>endpoints := xs\<rparr>) \<Longrightarrow> nearby_ok E (d\<lparr>endpoints := xs\<rparr>)"
  by (simp add: nearby_ok_def addressed_here_def own_invitation_def desktop_def own_id_def)

lemma failure_ok [simp]: "nearby_ok E (d\<lparr>failure := x\<rparr>) = nearby_ok E d"
  by (simp add: nearby_ok_def observed_ok_def observable_def addressed_here_def own_invitation_def desktop_def own_id_def)

lemma endpoints_filter_ok: "nearby_ok E d \<Longrightarrow> nearby_ok E (d\<lparr>endpoints := filter P (endpoints d)\<rparr>)"
  by (rule nearby_ok_keep [where P = P and Q = "\<lambda>_. True"]) (auto simp: same_identity_def nearby_ok_def)

lemma retired_dropped_ok: "nearby_ok E d \<Longrightarrow> nearby_ok E (d\<lparr>retired := delete_key i (retired d)\<rparr>)"
  using nearby_ok_retired [of E d] delete_key_length [of i "retired d"] by (intro retired_ok) (simp_all add: delete_key_distinct)

lemma replace_endpoints_ok:
  assumes ok: "nearby_ok E d" and order: "iterates E'"
  shows "nearby_ok E (snd (replace_endpoints E' v service r port fresh d))"
proof -
  define xs where "xs = (if fresh then foldl (\<lambda>xs e. retire E' (ep_record e) xs) (retired d) (filter (restarted v r) (iterated E' (endpoints d))) else retired d)"
  have "distinct (map fst xs) \<and> length xs \<le> 128"
    using nearby_ok_retired [OF ok] retire_all_bounded [OF order, of "retired d" "filter (restarted v r) (iterated E' (endpoints d))"]
    unfolding xs_def by (cases fresh) simp_all
  then have "nearby_ok E (d\<lparr>retired := xs\<rparr>)" using ok by (simp add: retired_ok)
  then show ?thesis using endpoints_filter_ok [of E "d\<lparr>retired := xs\<rparr>"] by (simp add: replace_endpoints_def Let_def xs_def)
qed

lemma put_endpoint_ok:
  assumes ok: "nearby_ok E d" and "observable E d service r address port" and "\<not> endpoints_full service address d"
  shows "nearby_ok E (put_endpoint E' service r address port d)"
proof -
  have "observed_ok E (put_endpoint E' service r address port d)"
    using insert_observed [OF nearby_ok_observed [OF ok] assms(2,3)] .
  then show ?thesis using ok
    by (simp add: nearby_ok_def put_endpoint_def addressed_here_def own_invitation_def desktop_def own_id_def)
qed

lemma found_ok:
  assumes ok: "nearby_ok E d" and order: "iterates E'" and same: "observable E' = observable E"
  shows "nearby_ok E (found E' service r address port fresh d)"
proof -
  define d1 where "d1 = (if fresh then d\<lparr>retired := delete_key (instance_of r) (retired d)\<rparr> else d)"
  obtain restart d2 where 2: "replace_endpoints E' (verify E' d r) service r port fresh d1 = (restart, d2)" by fastforce
  have ok1: "nearby_ok E d1" unfolding d1_def using ok by (simp add: retired_dropped_ok)
  then have ok2: "nearby_ok E d2" using replace_endpoints_ok [OF _ order] 2 by (metis snd_conv)
  have "observable E d2 service r address port = observable E d service r address port"
  proof -
    have "bound d2 = bound d1" "self_record d2 = self_record d1" using 2 by (auto simp: replace_endpoints_def Let_def)
    moreover have "bound d1 = bound d" "self_record d1 = self_record d" by (simp_all add: d1_def)
    ultimately show ?thesis by (simp add: observable_def)
  qed
  then have ok3: "nearby_ok E (put_endpoint E' service r address port d2)"
    if "observable E d service r address port" "\<not> endpoints_full service address d2"
    using put_endpoint_ok [OF ok2] that by blast
  show ?thesis
    unfolding found_def Let_def d1_def [symmetric] 2 same using ok ok1 ok2 ok3 by (simp add: cancel_ok)
qed

lemma lost_ok: "nearby_ok E d \<Longrightarrow> nearby_ok E (lost service d)"
  by (simp add: lost_def Let_def endpoints_filter_ok)

lemma retry_time_ok [simp]: "nearby_ok E (d\<lparr>retry_time := x\<rparr>) = nearby_ok E d"
  by (simp add: nearby_ok_def observed_ok_def observable_def addressed_here_def own_invitation_def desktop_def own_id_def)

lemma failing_ok [simp]: "nearby_ok E (d\<lparr>failure := y, retry_time := x\<rparr>) = nearby_ok E d"
  using retry_time_ok [of E x "d\<lparr>failure := y\<rparr>"] by simp

lemma service_failed_ok: "nearby_ok E d \<Longrightarrow> nearby_ok E (service_failed E' error d)"
  by (simp add: service_failed_def)

section \<open>Searching the table\<close>

lemma in_order_set:
  assumes "iterates E" and "distinct (map fst xs)"
  shows "set (iterated E xs) = snd ` set xs"
proof -
  have "set (iterated E xs) = (\<lambda>k. the (map_of xs k)) ` fst ` set xs"
    using assms by (simp add: iterated_def iterates_def)
  also have "\<dots> = snd ` set xs"
    using assms(2) by (auto simp: image_image intro!: image_cong)
  finally show ?thesis .
qed

lemma endpoint_of_observed:
  assumes "endpoint_of E d i address port = Some e" and "iterates E" and "observed_ok E' d"
  shows "observable E' d (ep_service e) (ep_record e) (ep_address e) (ep_port e)" "recent E e" "oget ''id'' (ep_record e) = JStr i"
    "address = [] \<or> ep_address e = address" "port = 0 \<or> ep_port e = port"
proof -
  have "e \<in> set (iterated E (endpoints d))" and q: "oget ''id'' (ep_record e) = JStr i \<and> recent E e \<and> (address = [] \<or> ep_address e = address)
      \<and> (port = 0 \<or> ep_port e = port)"
    using assms(1) by (auto simp: endpoint_of_def find_Some_iff)
  then have "e \<in> snd ` set (endpoints d)" using in_order_set [OF assms(2), of "endpoints d"] assms(3) by (simp add: observed_ok_def)
  then show "observable E' d (ep_service e) (ep_record e) (ep_address e) (ep_port e)" using assms(3) by (auto simp: observed_ok_def)
  show "recent E e" "oget ''id'' (ep_record e) = JStr i" "address = [] \<or> ep_address e = address" "port = 0 \<or> ep_port e = port"
    using q by auto
qed

lemma sender_other:
  assumes "observable E d s r a n" and "oget ''id'' r = JStr (jstr (oget ''from'' p))"
  shows "oget ''from'' p = oget ''id'' r" "oget ''from'' p \<noteq> oget ''id'' (self_record d)"
proof -
  have "token (jstr (oget ''from'' p))" using assms by (auto simp: observable_def valid_device_def Let_def)
  then have "jstr (oget ''from'' p) \<noteq> []" by (auto simp: token_def)
  then show f: "oget ''from'' p = oget ''id'' r" using assms(2) by (cases "oget ''from'' p") auto
  show "oget ''from'' p \<noteq> oget ''id'' (self_record d)" using f assms(1) by (simp add: observable_def)
qed

section \<open>The invariant through the operations\<close>

lemma iterates_clock [simp]: "iterates (E\<lparr>now_ms := t\<rparr>) = iterates E"
  by (simp add: iterates_def)

lemma send_resume_ok: "nearby_ok E d \<Longrightarrow> nearby_ok E (send_resume E' d)"
  by (rule nearby_ok_same) (auto simp: same_identity_def)

lemma route_get: "0 < p \<Longrightarrow> p \<le> 65535 \<Longrightarrow> route_port (lan_route a p) = p \<and> jstr (oget ''address'' (jobject (lan_route a p))) = a"
  by (simp add: route_port_def lan_route_def oget_obj int_or_def)

lemma route_added: "routes_ok E rs \<Longrightarrow> length rs < 8 \<Longrightarrow> local_address E a \<Longrightarrow> 0 < p \<Longrightarrow> p \<le> 65535 \<Longrightarrow> routes_ok E (rs @ [lan_route a p])"
  unfolding routes_ok_def by (auto simp: route_get)

lemma safe_routes_ok: "routes_ok E (safe_routes E rs)"
  unfolding safe_routes_def by (rule fold_keep) (simp_all add: route_added, simp add: routes_ok_def)

lemma resume_state_ok: "nearby_ok E d \<Longrightarrow> routes_ok E rs \<Longrightarrow> nearby_ok E (d\<lparr>resume_target := x, resume_routes := rs, resume_at := t\<rparr>)"
  by (erule nearby_ok_keep [where P = "\<lambda>_. True" and Q = "\<lambda>_. True"]) (auto simp: same_identity_def)

lemma no_resume_ok: "nearby_ok E d \<Longrightarrow> nearby_ok E (d\<lparr>resume_target := x, resume_routes := [], resume_challenge := c\<rparr>)"
  by (erule nearby_ok_keep [where P = "\<lambda>_. True" and Q = "\<lambda>_. True"]) (auto simp: same_identity_def routes_ok_def)

lemma resume_host_ok:
  assumes "nearby_ok E d" and "routes_ok E' = routes_ok E"
  shows "nearby_ok E (resume_host E' host rs d)"
  using assms safe_routes_ok [of E' rs]
  by (simp add: resume_host_def Let_def no_resume_ok send_resume_ok resume_state_ok)

lemma challenge_ok [simp]: "nearby_ok E (d\<lparr>resume_challenge := x\<rparr>) = nearby_ok E d"
  by (simp add: nearby_ok_def observed_ok_def observable_def addressed_here_def own_invitation_def desktop_def own_id_def)

lemma seen_requests_ok [simp]: "nearby_ok E (d\<lparr>seen_requests := x\<rparr>) = nearby_ok E d"
  by (simp add: nearby_ok_def observed_ok_def observable_def addressed_here_def own_invitation_def desktop_def own_id_def)

lemma send_ok [simp]: "nearby_ok E (send_datagram E' p a n d) = nearby_ok E d"
  by (simp add: nearby_ok_def observed_ok_def observable_def addressed_here_def own_invitation_def desktop_def own_id_def)

lemma receive_resume_ok:
  assumes "nearby_ok E d" and "iterates E'" and "observable E' = observable E"
  shows "nearby_ok E (snd (receive_resume E' p address port d))"
  using assms by (simp add: receive_resume_def Let_def found_ok)

lemma invite_device_ok: "nearby_ok E d \<Longrightarrow> nearby_ok E (snd (invite E' i text automatic d))"
proof -
  assume ok: "nearby_ok E d"
  have "nearby_ok E (cancel E' d\<lparr>nonces := k, outgoing := p\<rparr>)" if "own_invitation d p" for p k
    using that by (intro nearby_ok_same [OF ok]) (auto simp: same_identity_def)
  moreover have "nearby_ok E (d\<lparr>next_send := t\<rparr>) = nearby_ok E d" for d t
    by (simp add: nearby_ok_def observed_ok_def observable_def addressed_here_def own_invitation_def desktop_def own_id_def)
  ultimately show ?thesis using ok
    by (auto simp: invite_def Let_def fresh_nonce_def own_invitation_def oget_obj sign_get own_id_def split: option.splits)
qed

lemma accept_invitation_ok: "nearby_ok E d \<Longrightarrow> nearby_ok E (snd (accept_invitation E' d))"
proof -
  assume ok: "nearby_ok E d"
  have "nearby_ok E (send_datagram E' p a n d\<lparr>accepted := incoming d, incoming := []\<rparr>)" for p a n
    by (intro nearby_ok_same [OF ok]) (auto simp: same_identity_def)
  moreover have "nearby_ok E (send_datagram E' p a n d\<lparr>accepted := [], incoming := []\<rparr>)" for p a n
    by (intro nearby_ok_same [OF ok]) (auto simp: same_identity_def)
  ultimately show ?thesis using ok by (simp add: accept_invitation_def Let_def decline_ok split: option.split)
qed

lemma prove_ok: "nearby_ok E d \<Longrightarrow> nearby_ok E (prove_connection E' code d)"
  by (simp add: prove_connection_def split: option.split)

lemma taken_addressed:
  assumes "nearby_ok E d" and "observable E d s (ep_record e) a n" and "oget ''id'' (ep_record e) = JStr (jstr (oget ''from'' p))"
    and "envelope_ok E' d e p" and "invitation_ok E' d e p link"
  shows "nearby_ok E (take_invitation E' e p link d)"
proof -
  have "addressed_here d p" using assms(2,4,5) sender_other [OF assms(2,3)] by (simp add: addressed_here_def envelope_ok_def invitation_ok_def observable_def)
  then have "addressed_here d (incoming (take_invitation E' e p link d))" by (simp add: addressed_here_def take_invitation_def Let_def)
  then show ?thesis by (intro nearby_ok_same [OF assms(1)]) (simp_all add: take_invitation_def Let_def same_identity_def)
qed

lemma code_ok [simp]: "nearby_ok E (d\<lparr>verification_code := x\<rparr>) = nearby_ok E d"
  by (simp add: nearby_ok_def observed_ok_def observable_def addressed_here_def own_invitation_def desktop_def own_id_def)

lemma next_send_ok [simp]: "nearby_ok E (d\<lparr>next_send := x\<rparr>) = nearby_ok E d"
  by (simp add: nearby_ok_def observed_ok_def observable_def addressed_here_def own_invitation_def desktop_def own_id_def)

lemma forget_ok: "nearby_ok E d \<Longrightarrow> nearby_ok E (d\<lparr>incoming := []\<rparr>)" "nearby_ok E d \<Longrightarrow> nearby_ok E (d\<lparr>outgoing := []\<rparr>)"
  by (auto simp: nearby_ok_def observed_ok_def observable_def addressed_here_def own_invitation_def desktop_def own_id_def)

lemma receive_packet_ok:
  assumes "nearby_ok E d" and "observable E d s (ep_record e) a n" and "oget ''id'' (ep_record e) = JStr (jstr (oget ''from'' p))"
  shows "nearby_ok E (receive_packet E' e p d)"
  using assms taken_addressed [OF assms, of E']
  unfolding receive_packet_def Let_def by (simp add: forget_ok split: option.split)

lemma receive_datagram_ok:
  assumes ok: "nearby_ok E d" and order: "iterates E'" and same: "observable E' = observable E"
  shows "nearby_ok E (receive_datagram E' address port bytes d)"
proof -
  let ?p = "parse_obj E' bytes"
  obtain h d1 where r: "receive_resume E' ?p address port d = (h, d1)" by fastforce
  then have ok1: "nearby_ok E d1" using receive_resume_ok [OF assms, of ?p address port] by simp
  have "nearby_ok E (receive_packet E' e ?p d1)" if "endpoint_of E' d1 (jstr (oget ''from'' ?p)) address port = Some e" for e
    using receive_packet_ok [OF ok1] endpoint_of_observed [OF that order nearby_ok_observed [OF ok1]] by blast
  then show ?thesis using ok ok1 unfolding receive_datagram_def Let_def r by (simp split: option.split)
qed

lemma purge_ok: "nearby_ok E d \<Longrightarrow> nearby_ok E (purge E' d)"
proof -
  assume ok: "nearby_ok E d"
  then have "routes_ok E (resume_routes d)" by (simp add: nearby_ok_def)
  then show ?thesis
    by (intro nearby_ok_keep [OF ok, where P = "\<lambda>(k, e). recent E' e" and Q = "\<lambda>(k, t). now_ms E' < t"])
       (auto simp: same_identity_def purge_def Let_def)
qed

lemma resend_ok: "nearby_ok E d \<Longrightarrow> nearby_ok E (resend E' d)"
  by (simp add: resend_def Let_def split: option.split)

lemma retry_service_ok: "nearby_ok E d \<Longrightarrow> nearby_ok E (retry_service E' d)"
  by (simp add: retry_service_def)

lemma expire_credentials_ok: "nearby_ok E d \<Longrightarrow> nearby_ok E (expire_credentials E' d)"
  by (simp add: expire_credentials_def)

lemma nearby_tick_ok:
  assumes "nearby_ok E d"
  shows "nearby_ok E (nearby_tick E' d)"
proof -
  define d1 where "d1 = retry_service E' (purge E' (send_resume E' (advertise E' (expire_credentials E' d))))"
  have 1: "nearby_ok E d1"
    unfolding d1_def by (intro retry_service_ok purge_ok send_resume_ok advertise_ok expire_credentials_ok assms)
  define d2 where "d2 = (if incoming d1 \<noteq> [] \<and> expired E' (incoming d1) then d1\<lparr>incoming := []\<rparr> else d1)"
  have 2: "nearby_ok E d2" unfolding d2_def using 1 by (simp add: forget_ok)
  show ?thesis
    unfolding nearby_tick_def Let_def d1_def [symmetric] d2_def [symmetric] using 2 by (simp add: forget_ok resend_ok)
qed

lemma observable_time: "observable (E\<lparr>now_ms := t\<rparr>) = observable E"
  by (intro ext) simp

lemma routes_time: "routes_ok (E\<lparr>now_ms := t\<rparr>) = routes_ok E"
  by (intro ext) (simp add: routes_ok_def)

lemma nearby_call_ok: "nearby_ok E d \<Longrightarrow> iterates E \<Longrightarrow> nearby_ok E (nearby_call (E\<lparr>now_ms := t\<rparr>) c d)"
  by (cases c) (simp_all add: set_identity_ok set_credentials_ok clear_ok found_ok lost_ok service_failed_ok receive_datagram_ok invite_device_ok accept_invitation_ok
    decline_ok cancel_ok complete_ok prove_ok resume_host_ok nearby_tick_ok observable_time routes_time)

lemma nearby_run_ok: "nearby_ok E d \<Longrightarrow> iterates E \<Longrightarrow> nearby_ok E (nearby_run E cs d)"
  by (induction E cs d rule: nearby_run.induct) (simp_all add: nearby_call_ok)

end
