(* ===== verification/NearbyOnce.thy ===== *)
theory NearbyOnce
  imports NearbyRuns
begin

text \<open>
  The invitations a device takes in a run of \<open>NearbyDevices\<close>: which operations touch the log of invitations and the table of
  requests, and that a request is remembered as long as its invitation could be taken again.
\<close>

section \<open>Invitations taken\<close>

fun invitations :: "happening list \<Rightarrow> jobj list" where
  "invitations [] = []"
| "invitations (InvitationReceived p # hs) = p # invitations hs"
| "invitations (_ # hs) = invitations hs"

definition taken :: "nearby \<Rightarrow> jobj list" where
  "taken d = invitations (happened d)"

lemma invitations_append: "invitations (xs @ ys) = invitations xs @ invitations ys"
  by (induction xs rule: invitations.induct) auto

text \<open>The invitations taken and the requests remembered, which only few operations change.\<close>

definition memory :: "nearby \<Rightarrow> jobj list \<times> (string \<times> int) list" where
  "memory d = (taken d, seen_requests d)"

lemma memory_emits: "invitations hs = [] \<Longrightarrow> memory (emits hs d) = memory d"
  by (simp add: memory_def taken_def emits_def invitations_append)

lemma memory_update [simp]:
  "memory (d\<lparr>bound := x1\<rparr>) = memory d" "memory (d\<lparr>self_record := x2\<rparr>) = memory d" "memory (d\<lparr>incoming := x3\<rparr>) = memory d"
  "memory (d\<lparr>outgoing := x3\<rparr>) = memory d" "memory (d\<lparr>accepted := x3\<rparr>) = memory d" "memory (d\<lparr>credentials := x3\<rparr>) = memory d"
  "memory (d\<lparr>endpoints := x4\<rparr>) = memory d" "memory (d\<lparr>retired := x5\<rparr>) = memory d" "memory (d\<lparr>failure := x6\<rparr>) = memory d"
  "memory (d\<lparr>verification_code := x6\<rparr>) = memory d" "memory (d\<lparr>next_send := x7\<rparr>) = memory d" "memory (d\<lparr>retry_time := x7\<rparr>) = memory d"
  "memory (d\<lparr>resume_target := x6\<rparr>) = memory d" "memory (d\<lparr>resume_challenge := x6\<rparr>) = memory d" "memory (d\<lparr>resume_routes := x8\<rparr>) = memory d"
  "memory (d\<lparr>resume_at := x7\<rparr>) = memory d" "memory (d\<lparr>resume_deadline := x7\<rparr>) = memory d" "memory (d\<lparr>nonces := x9\<rparr>) = memory d"
  by (simp_all add: memory_def taken_def)

lemma memory_send [simp]: "memory (send_datagram E p a n d) = memory d"
  by (simp add: send_datagram_def Let_def memory_emits)

lemma memory_decline [simp]: "memory (decline E d) = memory d"
  by (simp add: decline_def Let_def memory_emits split: option.split)

lemma memory_cancel [simp]: "memory (cancel E d) = memory d"
  by (simp add: cancel_def Let_def memory_emits split: option.split)

lemma memory_complete [simp]: "memory (complete d) = memory d"
  by (simp add: complete_def memory_emits)

lemma memory_advertise [simp]: "memory (advertise E d) = memory d"
  by (simp add: advertise_def Let_def memory_emits)

lemma memory_credentials [simp]: "memory (set_credentials E c host primary_host d) = memory d"
  by (simp add: set_credentials_def Let_def with_credentials_def drop_unusable_def memory_emits)

lemma memory_found [simp]: "memory (found E service r address port fresh d) = memory d"
  by (simp add: found_def Let_def replace_endpoints_def put_endpoint_def memory_emits)

lemma memory_send_resume [simp]: "memory (send_resume E d) = memory d"
  by (simp add: send_resume_def Let_def fresh_nonce_def fold_field)

lemma memory_others [simp]:
  "memory (lost service d) = memory d" "memory (service_failed E error d) = memory d" "memory (resume_host E host rs d) = memory d"
  by (simp_all add: lost_def service_failed_def resume_host_def Let_def memory_emits)

lemma memory_invite [simp]: "memory (snd (invite E i text automatic d)) = memory d"
  by (simp add: invite_def Let_def fresh_nonce_def memory_emits split: option.split)

lemma memory_accept [simp]: "memory (snd (accept_invitation E d)) = memory d"
  by (simp add: accept_invitation_def Let_def memory_emits split: option.split)

lemma memory_prove [simp]: "memory (prove_connection E code d) = memory d"
  by (simp add: prove_connection_def split: option.split)

lemma memory_tick:
  "memory (nearby_tick E d) = (taken d, let seen = filter (\<lambda>(k, t). now_ms E < t) (seen_requests d) in if 128 < length seen then [] else seen)"
proof -
  define d1 where "d1 = send_resume E (advertise E (expire_credentials E d))"
  have "memory d1 = memory d" by (simp add: d1_def expire_credentials_def memory_emits)
  then have 1: "taken d1 = taken d" "seen_requests d1 = seen_requests d" by (simp_all add: memory_def)
  define d2 where "d2 = retry_service E (purge E d1)"
  have "memory d2 = memory (purge E d1)" by (simp add: d2_def retry_service_def memory_emits)
  also have "\<dots> = (taken d, let seen = filter (\<lambda>(k, t). now_ms E < t) (seen_requests d) in if 128 < length seen then [] else seen)"
    using 1 by (simp add: memory_def purge_def taken_def Let_def)
  finally have 2: "memory d2 = \<dots>" .
  define d3 where "d3 = (if incoming d2 \<noteq> [] \<and> expired E (incoming d2) then d2\<lparr>incoming := []\<rparr> else d2)"
  have 3: "memory d3 = memory d2" by (simp add: d3_def)
  have "memory (resend E x) = memory x" for x by (simp add: resend_def Let_def split: option.split)
  then have "memory (nearby_tick E d) = memory d3"
    unfolding nearby_tick_def Let_def d1_def [symmetric] d2_def [symmetric] d3_def [symmetric] by (simp add: memory_emits)
  then show ?thesis using 2 3 by simp
qed

section \<open>Each invitation is taken once\<close>

text \<open>A remembered invitation stays in the table as long as its link is alive.\<close>

definition remembered :: "lan \<Rightarrow> int \<Rightarrow> (string \<times> int) list \<Rightarrow> jobj \<Rightarrow> bool" where
  "remembered E t seen p \<longleftrightarrow> (case read_link E (jstr (oget ''link'' p)) of None \<Rightarrow> False
     | Some l \<Rightarrow> t < link_expires l \<longrightarrow> (\<exists>v. map_of seen (jstr (oget ''request'' p)) = Some v \<and> link_expires l \<le> v))"

definition taken_once :: "lan \<Rightarrow> int \<Rightarrow> jobj list \<times> (string \<times> int) list \<Rightarrow> bool" where
  "taken_once E t m \<longleftrightarrow> distinct (fst m) \<and> (\<forall>p \<in> set (fst m). remembered E t (snd m) p)"

lemma taken_once_later: "taken_once E t m \<Longrightarrow> t \<le> t' \<Longrightarrow> taken_once E t' m"
  by (fastforce simp: taken_once_def remembered_def split: option.splits)

lemma remembered_added: "k \<notin> fst ` set seen \<Longrightarrow> remembered E t seen p \<Longrightarrow> remembered E t (upsert k v seen) p"
  by (auto simp: remembered_def map_of_None_iff [symmetric] split: option.splits)

lemma taken_once_added: "k \<notin> fst ` set (snd m) \<Longrightarrow> taken_once E t m \<Longrightarrow> taken_once E t (fst m, upsert k v (snd m))"
  by (simp add: taken_once_def remembered_added)

lemma remembered_filter: "remembered E t seen p \<Longrightarrow> remembered E t (filter (\<lambda>(k, v). t < v) seen) p"
  by (fastforce simp: remembered_def intro: map_of_filter split: option.splits)

lemma taken_once_filter: "taken_once E t (ps, seen) \<Longrightarrow> taken_once E t (ps, filter (\<lambda>(k, v). t < v) seen)"
  by (simp add: taken_once_def remembered_filter)

lemma taken_once_invitation:
  assumes "taken_once (E :: lan) (now_ms E) (memory d)" and "invitation_ok E d e p link" and "read_link E (jstr (oget ''link'' p)) = Some link"
  shows "taken_once E (now_ms E) (memory (take_invitation E e p link d))"
proof -
  let ?r = "jstr (oget ''request'' p)"
  have k: "?r \<notin> fst ` set (seen_requests d)" "now_ms E < link_expires link" "link_expires link \<le> now_ms E + 65000"
    using assms(2) by (auto simp: invitation_ok_def)
  have "p \<notin> set (taken d)"
  proof
    assume "p \<in> set (taken d)"
    then have "remembered E (now_ms E) (seen_requests d) p" using assms(1) by (simp add: taken_once_def memory_def)
    then have "?r \<in> fst ` set (seen_requests d)" using k assms(3) by (auto simp: remembered_def dest!: map_of_SomeD intro: rev_image_eqI)
    then show False using k by simp
  qed
  moreover have "memory (take_invitation E e p link d) = (taken d @ [p], upsert ?r (now_ms E + 70000) (seen_requests d))"
    by (simp add: memory_def take_invitation_def Let_def emits_def taken_def invitations_append)
  moreover have "remembered E (now_ms E) (upsert ?r (now_ms E + 70000) (seen_requests d)) p"
    using assms(3) k by (simp add: remembered_def)
  ultimately show ?thesis using assms(1) k by (auto simp: taken_once_def memory_def remembered_added)
qed
lemma taken_once_packet:
  assumes "taken_once E (now_ms E) (memory d)"
  shows "taken_once E (now_ms E) (memory (receive_packet E e p d))"
  using assms taken_once_invitation [OF assms, of e p]
  unfolding receive_packet_def Let_def by (simp add: memory_emits split: option.split)

lemma memory_resume:
  "memory (snd (receive_resume E p address port d)) = memory d
   \<or> (\<exists>k v. k \<notin> fst ` set (seen_requests d) \<and> memory (snd (receive_resume E p address port d)) = (taken d, upsert k v (seen_requests d)))"
proof -
  have m: "memory (d\<lparr>seen_requests := x\<rparr>) = (taken d, x)" for x by (simp add: memory_def taken_def)
  show ?thesis unfolding receive_resume_def Let_def by (auto simp: m)
qed

lemma taken_once_datagram:
  assumes "taken_once E (now_ms E) (memory d)"
  shows "taken_once E (now_ms E) (memory (receive_datagram E address port bytes d))"
proof -
  let ?p = "parse_obj E bytes"
  obtain h d1 where r: "receive_resume E ?p address port d = (h, d1)" by fastforce
  then have "taken_once E (now_ms E) (memory d1)"
    using memory_resume [of E ?p address port d] assms taken_once_added [of _ "memory d"] by (auto simp: memory_def)
  then show ?thesis using assms taken_once_packet unfolding receive_datagram_def Let_def r by (simp split: option.split)
qed

text \<open>Calls that keep the identity, at times that do not run backwards, with the table within its bound at each tick.\<close>

fun keeps_identity :: "nearby_input \<Rightarrow> bool" where
  "keeps_identity Clear = False"
| "keeps_identity (SetIdentity _ _ _ _ _ _) = False"
| "keeps_identity _ = True"

fun steady :: "lan \<Rightarrow> int \<Rightarrow> (int \<times> nearby_input) list \<Rightarrow> nearby \<Rightarrow> bool" where
  "steady E t0 [] d = True"
| "steady E t0 ((t, c) # cs) d = (t0 \<le> t \<and> keeps_identity c \<and> (if c = Tick then length (seen_requests d) \<le> 128 else True)
     \<and> steady E t cs (nearby_call (E\<lparr>now_ms := t\<rparr>) c d))"

lemma taken_once_clock [simp]: "taken_once (E\<lparr>now_ms := s\<rparr>) t m = taken_once E t m"
  by (simp add: taken_once_def remembered_def)

lemma taken_once_call:
  assumes "taken_once E t (memory d)" and "keeps_identity c" and "c = Tick \<Longrightarrow> length (seen_requests d) \<le> 128"
  shows "taken_once E t (memory (nearby_call (E\<lparr>now_ms := t\<rparr>) c d))"
proof (cases c)
  case (DatagramIn address port bytes)
  then show ?thesis using taken_once_datagram [of "E\<lparr>now_ms := t\<rparr>" d] assms(1) by simp
next
  case Tick
  then have "\<not> 128 < length (filter (\<lambda>(k, v). t < v) (seen_requests d))"
    using assms(3) length_filter_le [of "\<lambda>(k, v). t < v" "seen_requests d"] by linarith
  then have "memory (nearby_tick (E\<lparr>now_ms := t\<rparr>) d) = (taken d, filter (\<lambda>(k, v). t < v) (seen_requests d))"
    by (simp add: memory_tick Let_def)
  then show ?thesis using taken_once_filter [of E t "taken d" "seen_requests d"] assms(1) Tick by (simp add: memory_def [of d])
qed (use assms in simp_all)

lemma taken_once_run: "taken_once E t0 (memory d) \<Longrightarrow> steady E t0 cs d \<Longrightarrow> distinct (taken (nearby_run E cs d))"
proof (induction E t0 cs d rule: steady.induct)
  case (2 E t0 t c cs d)
  then have "taken_once E t (memory d)" using taken_once_later [of E t0 "memory d" t] by simp
  then have "taken_once E t (memory (nearby_call (E\<lparr>now_ms := t\<rparr>) c d))" using 2 by (intro taken_once_call) (auto split: if_splits)
  then show ?case using 2 by simp
qed (simp add: taken_once_def memory_def)

end
