(* ===== verification/NearbyProofs.thy ===== *)
theory NearbyProofs
  imports NearbyOnce
begin

text \<open>
  The proofs of \<open>NearbyDevices\<close>: what a device signs another one verifies, what a taken invitation shows about its sender, and
  the exchange of an automatic invitation between two devices.
\<close>

section \<open>Proofs of packets\<close>

text \<open>Documented behaviour of the clock and of HMAC-SHA-256: a time since 1970 in 64 bits, and digests of 32 bytes.\<close>

definition sound_clock :: "int \<Rightarrow> bool" where
  "sound_clock t \<longleftrightarrow> 0 \<le> t \<and> t < 2 ^ 63"

definition sound_digest :: "lan \<Rightarrow> bool" where
  "sound_digest E \<longleftrightarrow> (\<forall>m k. length (hmac E m k) = 32)"

lemma sound_digest_clock [simp]: "sound_digest (E\<lparr>now_ms := t\<rparr>) = sound_digest E"
  by (simp add: sound_digest_def)

lemma epoch_text:
  assumes "sound_clock (now_ms E)" and "n = current_epoch E \<or> n = current_epoch E - 1"
  shows "in_int64 n"
proof -
  have "0 \<le> now_ms E div 300000 \<and> now_ms E div 300000 \<le> now_ms E" using assms(1) zdiv_mono2 [of "now_ms E" 1 300000] by (simp add: sound_clock_def pos_imp_zdiv_nonneg_iff)
  then show ?thesis using assms by (auto simp: sound_clock_def current_epoch_def cdiv_def in_int64_def)
qed

text \<open>The digest a packet of an epoch carries.\<close>

definition signed_at :: "lan \<Rightarrow> jobj \<Rightarrow> int \<Rightarrow> jobj \<Rightarrow> bool" where
  "signed_at E c n p \<longleftrightarrow> jstr (oget ''epoch'' p) = num_str n \<and> length (epoch_key E (now_ms E) c n) = 32
     \<and> jstr (oget ''proof'' p) = packet_mac E (epoch_key E (now_ms E) c n) (odel ''proof'' p)"

lemma verify_iff:
  assumes "sound_digest E" and clock: "sound_clock (now_ms E)"
  shows "verify E d p \<longleftrightarrow> authentic E d \<and> (signed_at E (credentials d) (current_epoch E) p
     \<or> now_ms E mod 300000 < 30000 \<and> signed_at E (credentials d) (current_epoch E - 1) p)"
proof -
  have h: "hex (packet_mac E k q)" for k q using hex_digest assms(1) by (simp add: packet_mac_def sound_digest_def)
  then have eq: "hex m \<and> same_bytes (packet_mac E k q) m \<longleftrightarrow> m = packet_mac E k q" for k q m
    using same_bytes_iff hex_length by metis
  have j: "jll (oget ''epoch'' p) = n" if "jstr (oget ''epoch'' p) = num_str n" "n = current_epoch E \<or> n = current_epoch E - 1" for n
    using epoch_text [OF clock that(2)] that(1) by (simp add: jll_def)
  have ne: "num_str (current_epoch E) \<noteq> num_str (current_epoch E - 1)"
    using num_str_inj [OF epoch_text [OF clock] epoch_text [OF clock], of "current_epoch E" "current_epoch E - 1"] by auto
  consider (now) "jstr (oget ''epoch'' p) = num_str (current_epoch E)" | (before) "jstr (oget ''epoch'' p) = num_str (current_epoch E - 1)"
    | (no) "jstr (oget ''epoch'' p) \<noteq> num_str (current_epoch E)" "jstr (oget ''epoch'' p) \<noteq> num_str (current_epoch E - 1)" by blast
  then show ?thesis
  proof cases
    case now
    then show ?thesis using j [OF now] ne eq by (auto simp: verify_def signed_at_def Let_def)
  next
    case before
    then show ?thesis using j [OF before] ne eq by (auto simp: verify_def signed_at_def Let_def)
  next
    case no
    then show ?thesis by (simp add: verify_def signed_at_def Let_def)
  qed
qed

lemma authentic_clock_key: "authentic E d \<Longrightarrow> valid_credentials E (now_ms E) (credentials d)"
  using epoch_key_range [of E "now_ms E" "credentials d" "current_epoch E"] by (fastforce simp: authentic_def)

lemma packet_mac_clock [simp]: "packet_mac (E\<lparr>now_ms := t\<rparr>) k p = packet_mac E k p"
  by (simp add: packet_mac_def)

lemma sign_accepted:
  assumes "sound_digest E" and "sound_clock s" and "sound_clock t" and a: "authentic (E\<lparr>now_ms := s\<rparr>) a" and b: "authentic (E\<lparr>now_ms := t\<rparr>) b"
    and c: "credentials b = credentials a"
    and e: "t div 300000 = s div 300000 \<or> t div 300000 = s div 300000 + 1 \<and> t mod 300000 < 30000"
  shows "verify (E\<lparr>now_ms := t\<rparr>) b (sign (E\<lparr>now_ms := s\<rparr>) a p)"
proof -
  let ?S = "E\<lparr>now_ms := s\<rparr>" and ?T = "E\<lparr>now_ms := t\<rparr>"
  let ?n = "current_epoch ?S"
  let ?k = "epoch_key E s (credentials a) ?n"
  define q where "q = oput ''epoch'' (JStr (num_str ?n)) (odel ''proof'' p)"
  have n: "jll (JStr (num_str ?n)) = ?n" using epoch_text [of ?S ?n] assms(2) by (simp add: jll_def)
  have signed: "sign ?S a p = oput ''proof'' (JStr (packet_mac E ?k q)) q"
    using a n by (simp add: sign_def Let_def q_def)
  have k: "length ?k = 32" using a by (simp add: authentic_def)
  have "epoch_key E t (credentials a) ?n = ?k"
    using k authentic_clock_key [OF b] c by (intro epoch_key_kept) auto
  moreover have "odel ''proof'' (sign ?S a p) = q" unfolding signed odel_oput q_def by (rule odel_signed) simp_all
  ultimately have "signed_at ?T (credentials b) ?n (sign ?S a p)"
    using k c by (simp add: signed_at_def) (simp add: signed q_def)
  moreover have "current_epoch ?T = ?n \<or> current_epoch ?T - 1 = ?n \<and> t mod 300000 < 30000"
    using e assms(2,3) by (auto simp: current_epoch_def cdiv_def sound_clock_def)
  moreover have "verify ?T b (sign ?S a p) \<longleftrightarrow> signed_at ?T (credentials b) (current_epoch ?T) (sign ?S a p)
      \<or> t mod 300000 < 30000 \<and> signed_at ?T (credentials b) (current_epoch ?T - 1) (sign ?S a p)"
    using verify_iff [of ?T b "sign ?S a p"] assms(1,3) b by simp
  ultimately show ?thesis by metis
qed

section \<open>Invitations\<close>

lemma found_incoming: "incoming (found E service r address port fresh d) = incoming d \<or> incoming (found E service r address port fresh d) = []"
  by (simp add: found_def Let_def replace_endpoints_def put_endpoint_def)

lemma resume_incoming: "incoming (snd (receive_resume E p address port d)) = incoming d \<or> incoming (snd (receive_resume E p address port d)) = []"
proof -
  have "incoming (found E s r address port True (d\<lparr>resume_challenge := []\<rparr>)) = incoming d
      \<or> incoming (found E s r address port True (d\<lparr>resume_challenge := []\<rparr>)) = []" for s r
    using found_incoming [of E s r address port True "d\<lparr>resume_challenge := []\<rparr>"] by simp
  moreover have "incoming (found E s r address port True (send_datagram E q address port (d\<lparr>seen_requests := x\<rparr>))) = incoming d
      \<or> incoming (found E s r address port True (send_datagram E q address port (d\<lparr>seen_requests := x\<rparr>))) = []" for s r q x
    using found_incoming [of E s r address port True "send_datagram E q address port (d\<lparr>seen_requests := x\<rparr>)"] by simp
  ultimately show ?thesis unfolding receive_resume_def Let_def by (simp split: if_split)
qed

lemma resume_unhandled: "receive_resume E p address port d = (False, d') \<Longrightarrow> d' = d"
  by (auto simp: receive_resume_def Let_def split: if_splits)

lemma not_resume: "jstr (oget ''op'' p) \<noteq> ''resume'' \<Longrightarrow> jstr (oget ''op'' p) \<noteq> ''resume-ready'' \<Longrightarrow> receive_resume E p address port d = (False, d)"
  by (simp add: receive_resume_def Let_def)

lemma packet_incoming:
  assumes "incoming d = []" and "incoming (receive_packet E e p d) \<noteq> []"
  obtains link where "envelope_ok E d e p" "automatic_packet p \<longrightarrow> automatic_ok E d e p" "jstr (oget ''op'' p) = ''invite''"
    "read_link E (jstr (oget ''link'' p)) = Some link" "invitation_ok E d e p link" "receive_packet E e p d = take_invitation E e p link d"
  using assms unfolding receive_packet_def Let_def by (auto split: if_splits option.splits)

lemma datagram_incoming:
  assumes "incoming d = []" and "incoming (receive_datagram E address port bytes d) \<noteq> []"
  obtains e where "endpoint_of E d (jstr (oget ''from'' (parse_obj E bytes))) address port = Some e"
    "receive_datagram E address port bytes d = receive_packet E e (parse_obj E bytes) d"
proof -
  let ?p = "parse_obj E bytes"
  obtain h d1 where r: "receive_resume E ?p address port d = (h, d1)" by fastforce
  have i: "incoming d1 = []" using resume_incoming [of E ?p address port d] assms(1) r by auto
  have "receive_datagram E address port bytes d \<noteq> d" using assms by auto
  then have eq: "receive_datagram E address port bytes d = (if h then d1
      else case endpoint_of E d1 (jstr (oget ''from'' ?p)) address port of None \<Rightarrow> d1 | Some e \<Rightarrow> receive_packet E e ?p d1)"
    unfolding receive_datagram_def Let_def r by (auto split: if_splits)
  then have "\<not> h" using i assms(2) by auto
  then have "d1 = d" using r resume_unhandled [of E ?p address port d d1] by simp
  then show ?thesis using that eq \<open>\<not> h\<close> assms by (auto split: option.splits)
qed

text \<open>Who sent an invitation, and to whom.\<close>

definition invited_by :: "lan \<Rightarrow> nearby \<Rightarrow> endpoint \<Rightarrow> jobj \<Rightarrow> string \<Rightarrow> int \<Rightarrow> bool" where
  "invited_by E d e p address port \<longleftrightarrow> e \<in> snd ` set (endpoints d) \<and> recent E e \<and> ep_address e = address \<and> ep_port e = port
     \<and> valid_device E (ep_record e) \<and> oget ''host'' (ep_record e) = JStr ''1''
     \<and> oget ''from'' p = oget ''id'' (ep_record e) \<and> oget ''from'' p \<noteq> oget ''id'' (self_record d)
     \<and> oget ''to'' p = oget ''id'' (self_record d) \<and> oget ''nonce'' p = oget ''nonce'' (self_record d)"

text \<open>The digests of an automatic invitation, under the keys of the account: of the packet, which names both processes, and of the host's record.\<close>

definition proved :: "lan \<Rightarrow> nearby \<Rightarrow> endpoint \<Rightarrow> jobj \<Rightarrow> bool" where
  "proved E d e p \<longleftrightarrow> oget ''senderNonce'' p = oget ''nonce'' (ep_record e)
     \<and> (\<exists>n m. signed_at E (credentials d) n p \<and> signed_at E (credentials d) m (ep_record e)
          \<and> n \<in> {current_epoch E - 1, current_epoch E} \<and> m \<in> {current_epoch E - 1, current_epoch E})"

text \<open>C30: An invitation is taken only from a peer that was observed at the very address and port the datagram came from within the last 25 seconds, a host of
  the same account other than this device, and only when it is addressed to this very process, alive for at most 65 seconds and
  not remembered. An automatic one, and the record of its host, carry digests under the account's key of a current epoch. The link that
  is kept leads to the sender's address only, and the request is remembered from then on.\<close>

theorem invitation_sound:
  assumes "nearby_ok E d" and "iterates E" and "sound_digest E" and "sound_clock (now_ms E)" and "address \<noteq> []" and "port \<noteq> 0"
    and "incoming d = []" and "incoming (receive_datagram E address port bytes d) \<noteq> []"
  shows "\<exists>e link. let p = parse_obj E bytes; d' = receive_datagram E address port bytes d in
    invited_by E d e p address port \<and> (automatic_packet p \<longrightarrow> proved E d e p)
    \<and> read_link E (jstr (oget ''link'' p)) = Some link \<and> JStr (link_host link) = oget ''from'' p \<and> address \<in> set (link_addresses link)
    \<and> now_ms E < link_expires link \<and> link_expires link \<le> now_ms E + 65000
    \<and> oget ''link'' (incoming d') = JStr (print_link E (link\<lparr>link_addresses := [address]\<rparr>))
    \<and> jstr (oget ''request'' p) \<notin> fst ` set (seen_requests d) \<and> jstr (oget ''request'' p) \<in> fst ` set (seen_requests d')"
proof -
  let ?p = "parse_obj E bytes"
  obtain e where e: "endpoint_of E d (jstr (oget ''from'' ?p)) address port = Some e"
    and r: "receive_datagram E address port bytes d = receive_packet E e ?p d"
    using datagram_incoming [OF assms(7,8)] .
  obtain link where l: "envelope_ok E d e ?p" "automatic_packet ?p \<longrightarrow> automatic_ok E d e ?p"
    "read_link E (jstr (oget ''link'' ?p)) = Some link" "invitation_ok E d e ?p link" "receive_packet E e ?p d = take_invitation E e ?p link d"
    using packet_incoming [OF assms(7), of E e ?p] assms(8) r by metis
  note o = endpoint_of_observed [OF e assms(2) nearby_ok_observed [OF assms(1)]]
  have at: "ep_address e = address" "ep_port e = port" using o(4,5) assms(5,6) by auto
  have other: "oget ''from'' ?p = oget ''id'' (ep_record e)" "oget ''from'' ?p \<noteq> oget ''id'' (self_record d)" using sender_other [OF o(1,3)] .
  have "e \<in> snd ` set (endpoints d)"
  proof -
    have "e \<in> set (iterated E (endpoints d))" using e by (auto simp: endpoint_of_def find_Some_iff)
    then show ?thesis using in_order_set [OF assms(2), of "endpoints d"] assms(1) by (simp add: nearby_ok_def observed_ok_def)
  qed
  then have inviter: "invited_by E d e ?p address port"
    using o(1,2) at other l(1,4) by (simp add: invited_by_def observable_def envelope_ok_def invitation_ok_def)
  have "proved E d e ?p" if "automatic_packet ?p"
  proof -
    have v: "verify E d ?p" "verify E d (ep_record e)" "oget ''senderNonce'' ?p = oget ''nonce'' (ep_record e)"
      using l(2) that by (auto simp: automatic_ok_def)
    then show ?thesis using verify_iff [OF assms(3,4), of d] unfolding proved_def by blast
  qed
  moreover have "oget ''link'' (incoming (take_invitation E e ?p link d)) = JStr (print_link E (link\<lparr>link_addresses := [address]\<rparr>))"
    "jstr (oget ''request'' ?p) \<in> fst ` set (seen_requests (take_invitation E e ?p link d))"
    by (simp_all add: take_invitation_def Let_def at)
  ultimately show ?thesis
    unfolding Let_def r l(5) using inviter l(3,4) other(1) at by (intro exI [of _ e] exI [of _ link]) (simp add: invitation_ok_def)
qed

section \<open>An automatic pairing between two devices\<close>

text \<open>What the proofs read of a state.\<close>

definition same_keys :: "nearby \<Rightarrow> nearby \<Rightarrow> bool" where
  "same_keys d d' \<longleftrightarrow> bound d' = bound d \<and> credentials d' = credentials d \<and> self_record d' = self_record d"

lemma authentic_same: "same_keys d d' \<Longrightarrow> authentic E d' = authentic E d"
  by (simp add: authentic_def same_keys_def)

lemma sign_same: "same_keys d d' \<Longrightarrow> sign E d' p = sign E d p"
  using authentic_same [of d d' E] by (simp add: sign_def same_keys_def Let_def)

lemma verify_same: "same_keys d d' \<Longrightarrow> verify E d' p = verify E d p"
  using authentic_same [of d d' E] by (simp add: verify_def same_keys_def Let_def)

lemma endpoint_of_same: "endpoints d' = endpoints d \<Longrightarrow> endpoint_of E d' = endpoint_of E d"
  by (intro ext) (simp add: endpoint_of_def)

lemma sign_accepted_now:
  assumes "sound_digest E" and "sound_clock (now_ms E)" and "authentic E a" and "authentic E b" and "credentials b = credentials a"
  shows "verify E b (sign E a p)"
proof -
  have "E\<lparr>now_ms := now_ms E\<rparr> = E" by simp
  then show ?thesis using sign_accepted [of E "now_ms E" "now_ms E" a b p] assms by simp
qed

definition invitation_packet :: "lan \<Rightarrow> nearby \<Rightarrow> endpoint \<Rightarrow> string \<Rightarrow> string \<Rightarrow> lan_link \<Rightarrow> jobj" where
  "invitation_packet E a e i text link =
     sign E a (oput ''senderNonce'' (oget ''nonce'' (self_record a)) (oput ''automatic'' (JStr ''1'')
       (obj [(''v'', JStr ''1''), (''op'', JStr ''invite''), (''scope'', oget ''scope'' (self_record a)),
                     (''from'', JStr (own_id a)), (''to'', JStr i), (''nonce'', oget ''nonce'' (ep_record e)), (''request'', JStr (new_uuid E (nonces a))),
                     (''link'', JStr text), (''name'', oget ''name'' (ep_record e)), (''expires'', jnumstr (link_expires link))])))"

lemma invite_sends:
  assumes "invite E i text True a = (True, a')" and "endpoint_of E a i [] 0 = Some e" and "read_link E text = Some link"
  shows "outgoing a' = invitation_packet E a e i text link" "same_keys a a'" "endpoints a' = endpoints a"
    "desktop a" "link_host link = own_id a" "now_ms E < link_expires link" "incoming a' = []"
proof -
  have k: "same_keys a (cancel E a\<lparr>nonces := Suc (nonces a)\<rparr>)" by (simp add: same_keys_def)
  have "bound a" "desktop a" "link_host link = own_id a" "now_ms E < link_expires link" "verify E a (ep_record e)"
    using assms by (auto simp: invite_def split: if_splits)
  then show "outgoing a' = invitation_packet E a e i text link" "same_keys a a'" "endpoints a' = endpoints a"
    "desktop a" "link_host link = own_id a" "now_ms E < link_expires link" "incoming a' = []"
    using assms sign_same [OF k] by (auto simp: invite_def Let_def fresh_nonce_def invitation_packet_def own_id_def same_keys_def)
qed

lemma invitation_get:
  "oget ''v'' (invitation_packet E a e i text link) = JStr ''1''" "oget ''op'' (invitation_packet E a e i text link) = JStr ''invite''"
  "oget ''scope'' (invitation_packet E a e i text link) = oget ''scope'' (self_record a)"
  "oget ''from'' (invitation_packet E a e i text link) = JStr (own_id a)" "oget ''to'' (invitation_packet E a e i text link) = JStr i"
  "oget ''nonce'' (invitation_packet E a e i text link) = oget ''nonce'' (ep_record e)"
  "oget ''request'' (invitation_packet E a e i text link) = JStr (new_uuid E (nonces a))"
  "oget ''link'' (invitation_packet E a e i text link) = JStr text"
  "oget ''automatic'' (invitation_packet E a e i text link) = JStr ''1''"
  "oget ''senderNonce'' (invitation_packet E a e i text link) = oget ''nonce'' (self_record a)"
  by (simp_all add: invitation_packet_def sign_get oget_obj)

text \<open>The invitation arrives.\<close>

lemma invitation_arrives:
  assumes laws: "sound_digest E" "sound_clock (now_ms E)"
    and keys: "authentic E a" "authentic E b" "credentials b = credentials a" "oget ''scope'' (self_record a) = oget ''scope'' (self_record b)"
    and self: "oget ''id'' (self_record b) = JStr i" "oget ''nonce'' (ep_record eb) = oget ''nonce'' (self_record b)"
    and sees: "endpoint_of E b (own_id a) address port = Some ea" "ep_record ea = self_record a" "ep_address ea = address" "verify E b (self_record a)"
      "oget ''id'' (self_record a) = JStr (own_id a)" "desktop a"
    and link: "read_link E text = Some link" "link_host link = own_id a" "address \<in> set (link_addresses link)"
      "now_ms E < link_expires link" "link_expires link \<le> now_ms E + 65000"
    and fresh: "incoming b = []" "new_uuid E (nonces a) \<notin> fst ` set (seen_requests b)" "token (new_uuid E (nonces a))"
    and datagram: "local_address E address" "length bytes \<le> 4096" "parse_obj E bytes = invitation_packet E a eb i text link"
  shows "receive_datagram E address port bytes b = take_invitation E ea (invitation_packet E a eb i text link) link b"
proof -
  let ?p = "invitation_packet E a eb i text link"
  have v: "verify E b ?p" unfolding invitation_packet_def by (rule sign_accepted_now [OF laws keys(1-3)])
  have "receive_resume E ?p address port b = (False, b)" by (rule not_resume) (simp_all add: invitation_get)
  then have "receive_datagram E address port bytes b = receive_packet E ea ?p b"
    using datagram sees(1) by (simp add: receive_datagram_def invitation_get)
  moreover have "envelope_ok E b ea ?p" using keys(4) self fresh(3) by (simp add: envelope_ok_def invitation_get)
  moreover have "automatic_ok E b ea ?p" using v sees(2,4) self(2) by (simp add: automatic_ok_def invitation_get)
  moreover have "invitation_ok E b ea ?p link"
    using sees self link fresh by (simp add: invitation_ok_def invitation_get desktop_def)
  ultimately show ?thesis using link(1) by (simp add: receive_packet_def invitation_get automatic_packet_def Let_def)
qed

text \<open>It is accepted.\<close>

lemma invitation_accepted:
  assumes "authentic E b" and "verify E b (ep_record e')" and "endpoint_of E b (own_id a) [] 0 = Some e'"
    and "sound_clock (link_expires link)" "now_ms E < link_expires link"
    and b': "b' = take_invitation E ea (invitation_packet E a eb i text link) link b"
  shows "fst (accept_invitation E b') = print_link E (link\<lparr>link_addresses := [ep_address ea]\<rparr>)"
    "accepted (snd (accept_invitation E b')) = incoming b'" "incoming (snd (accept_invitation E b')) = []" "incoming_automatic b'"
    "incoming b' \<noteq> []"
proof -
  have k: "same_keys b b'" "endpoints b' = endpoints b" unfolding b' by (simp_all add: same_keys_def take_invitation_def Let_def)
  have i: "incoming b' \<noteq> []" unfolding b' by (simp add: take_invitation_def Let_def oput_not_Nil)
  have au: "incoming_automatic b'" unfolding b' by (simp add: incoming_automatic_def take_invitation_def Let_def invitation_get)
  have "to_ll (num_str (link_expires link)) = Some (link_expires link)" using assms(4) by (simp add: sound_clock_def in_int64_def)
  then have "jll (oget ''expires'' (incoming b')) = link_expires link" unfolding b' by (simp add: take_invitation_def Let_def jll_def)
  then have "\<not> jll (oget ''expires'' (incoming b')) \<le> now_ms E" using assms(5) by simp
  moreover have "endpoint_of E b' (jstr (oget ''from'' (incoming b'))) [] 0 = Some e'"
    using assms(3) unfolding endpoint_of_same [OF k(2)] by (simp add: b' take_invitation_def Let_def invitation_get)
  moreover have "authentic E b'" "verify E b' (ep_record e')" using assms(1,2) authentic_same [OF k(1)] verify_same [OF k(1)] by simp_all
  ultimately have eq: "accept_invitation E b' = (jstr (oget ''link'' (incoming b')),
      emits [DevicesChanged] (send_peer E (reply E b' (incoming b') ''accept'') e' b'\<lparr>accepted := incoming b', incoming := []\<rparr>))"
    using i au by (simp add: accept_invitation_def Let_def incoming_automatic_def)
  show "fst (accept_invitation E b') = print_link E (link\<lparr>link_addresses := [ep_address ea]\<rparr>)"
    unfolding eq by (simp add: b' take_invitation_def Let_def)
  show "accepted (snd (accept_invitation E b')) = incoming b'" "incoming (snd (accept_invitation E b')) = []" "incoming_automatic b'" "incoming b' \<noteq> []"
    using i au by (simp_all add: eq)
qed

text \<open>The answer arrives, and the host stops repeating the invitation.\<close>

lemma accept_arrives:
  assumes laws: "sound_digest E" "sound_clock (now_ms E)"
    and keys: "authentic E a" "authentic E b" "credentials b = credentials a" "oget ''scope'' (self_record a) = oget ''scope'' (self_record b)"
    and self: "own_id b = i" "oget ''id'' (self_record a) = JStr (own_id a)" "token (new_uuid E (nonces a))"
    and b': "b' = take_invitation E ea (invitation_packet E a eb i text link) link b"
    and a': "outgoing a' = invitation_packet E a eb i text link" "same_keys a a'" "endpoints a' = endpoints a"
    and sees: "endpoint_of E a i address port = Some e" "oget ''nonce'' (ep_record e) = oget ''nonce'' (self_record b)" "verify E a (ep_record e)"
    and datagram: "local_address E address" "length bytes \<le> 4096" "parse_obj E bytes = reply E b' (incoming b') ''accept''"
  shows "receive_datagram E address port bytes a' = a'\<lparr>next_send := now_ms E + 65000\<rparr>"
proof -
  let ?q = "reply E b' (incoming b') ''accept''"
  have k: "same_keys b b'" unfolding b' by (simp add: same_keys_def take_invitation_def Let_def)
  have au: "oget ''automatic'' (incoming b') = JStr ''1''" unfolding b' by (simp add: take_invitation_def Let_def invitation_get)
  have inc: "oget ''from'' (incoming b') = JStr (own_id a)" "oget ''request'' (incoming b') = JStr (new_uuid E (nonces a))"
    "oget ''senderNonce'' (incoming b') = oget ''nonce'' (self_record a)"
    unfolding b' by (simp_all add: take_invitation_def Let_def invitation_get)
  have rec: "self_record b' = self_record b" "credentials b' = credentials b" using k by (simp_all add: same_keys_def)
  have q: "oget ''v'' ?q = JStr ''1''" "oget ''op'' ?q = JStr ''accept''" "oget ''scope'' ?q = oget ''scope'' (self_record a)"
    "oget ''from'' ?q = JStr i" "oget ''to'' ?q = JStr (own_id a)" "oget ''request'' ?q = JStr (new_uuid E (nonces a))"
    "oget ''automatic'' ?q = JStr ''1''" "oget ''nonce'' ?q = oget ''nonce'' (self_record a)" "oget ''senderNonce'' ?q = oget ''nonce'' (self_record b)"
    using keys(4) self(1) by (simp_all add: reply_def au Let_def sign_get oget_obj inc rec own_id_def)
  have rec': "self_record a' = self_record a" using a'(2) by (simp add: same_keys_def)
  have "authentic E b'" "authentic E a'" using keys authentic_same [OF k] authentic_same [OF a'(2)] by simp_all
  moreover have "credentials a' = credentials b'" using k a'(2) keys(3) by (simp add: same_keys_def)
  ultimately have "verify E a' ?q" using sign_accepted_now [OF laws, of b' a'] by (simp add: reply_def au Let_def)
  then have ok: "automatic_ok E a' e ?q"
    using sees(2,3) verify_same [OF a'(2)] by (simp add: automatic_ok_def q rec')
  have "receive_resume E ?q address port a' = (False, a')" by (rule not_resume) (simp_all add: q)
  then have "receive_datagram E address port bytes a' = receive_packet E e ?q a'"
    using datagram sees(1) unfolding receive_datagram_def Let_def by (simp add: q endpoint_of_same [OF a'(3)])
  moreover have "envelope_ok E a' e ?q" using self by (simp add: envelope_ok_def q rec')
  moreover have "outgoing a' \<noteq> []"
    using invitation_get(1) [of E a eb i "text" link] a'(1) by auto
  then have "answers_own a' ?q" by (simp add: answers_own_def q a'(1) invitation_get automatic_packet_def)
  ultimately show ?thesis using ok by (simp add: receive_packet_def q automatic_packet_def)
qed

end
