(* ===== verification/NearbyProps.thy ===== *)
theory NearbyProps
  imports NearbyProofs Samples
begin

text \<open>
  The properties of the discovery of nearby devices and of their invitations, and two concrete devices of one account that
  see each other, at which they are applied.
\<close>

section \<open>Readings\<close>

lemma device_rows_ids: "nd_id ` set (device_rows E d ids es) \<inter> set ids = {} \<and> distinct (map nd_id (device_rows E d ids es))"
proof (induction E d ids es rule: device_rows.induct)
  case (2 E d ids e es)
  let ?i = "jstr (oget ''id'' (ep_record e))"
  show ?case
  proof (cases "?i \<in> set ids \<or> \<not> recent E e")
    case True
    then show ?thesis using 2(1) by (simp add: Let_def)
  next
    case False
    then have "nd_id ` set (device_rows E d (?i # ids) es) \<inter> set (?i # ids) = {} \<and> distinct (map nd_id (device_rows E d (?i # ids) es))"
      using 2(2) by (simp add: Let_def)
    moreover have "nd_id (device_of E d e) = ?i" by (simp add: device_of_def Let_def)
    ultimately show ?thesis using False by (auto simp: Let_def)
  qed
qed simp

lemma device_rows_of: "n \<in> set (device_rows E d ids es) \<Longrightarrow> \<exists>e \<in> set es. recent E e \<and> n = device_of E d e"
  by (induction E d ids es rule: device_rows.induct) (auto simp: Let_def split: if_splits)

lemma devices_distinct: "distinct (map nd_id (nearby_devices E d))"
proof -
  let ?r = "device_rows E d [] (iterated E (endpoints d))"
  have d: "distinct (map nd_id ?r)" using device_rows_ids by blast
  then have "distinct (nearby_devices E d)" by (simp add: nearby_devices_def distinct_map)
  moreover have "inj_on nd_id (set (nearby_devices E d))" using d by (simp add: nearby_devices_def distinct_map)
  ultimately show ?thesis by (simp add: distinct_map)
qed

lemma token_not_Nil: "token s \<Longrightarrow> s \<noteq> []"
  by (auto simp: token_def)

lemma devices_others:
  assumes "nearby_ok E d" and "iterates E" and "n \<in> set (nearby_devices E d)"
  shows "nd_id n \<noteq> own_id d \<and> token (nd_id n)"
proof -
  obtain e where e: "e \<in> set (iterated E (endpoints d))" "n = device_of E d e"
    using assms(3) device_rows_of [of n E d "[]" "iterated E (endpoints d)"] by (auto simp: nearby_devices_def)
  then have "e \<in> snd ` set (endpoints d)" using in_order_set [OF assms(2), of "endpoints d"] assms(1) by (simp add: nearby_ok_def observed_ok_def)
  then have o: "valid_device E (ep_record e)" "oget ''id'' (ep_record e) \<noteq> oget ''id'' (self_record d)"
    using assms(1) by (auto simp: nearby_ok_def observed_ok_def observable_def)
  then have t: "token (nd_id n)" by (simp add: e(2) device_of_def Let_def valid_device_def)
  moreover have "nd_id n = own_id d \<Longrightarrow> oget ''id'' (ep_record e) = oget ''id'' (self_record d)"
    using token_not_Nil [OF t] by (cases "oget ''id'' (ep_record e)"; cases "oget ''id'' (self_record d)") (auto simp: e(2) device_of_def Let_def own_id_def)
  ultimately show ?thesis using o(2) by blast
qed

lemma hints_bounded: "length (connection_hints E d i) \<le> 8 \<and> distinct (connection_hints E d i)"
  unfolding connection_hints_def by (rule fold_keep) (auto simp: Let_def)

section \<open>Properties\<close>

text \<open>C32: The proof of an automatic packet. What a device signs, every device with the same credentials accepts in the same five-minute
  epoch and in the first thirty seconds of the next, and a device accepts nothing but packets that carry the digest
  of their content under the account's key of one of these epochs.\<close>

theorem packet_proof:
  assumes "sound_digest E" and "sound_clock s" and "sound_clock t"
    and "authentic (E\<lparr>now_ms := s\<rparr>) a" and "authentic (E\<lparr>now_ms := t\<rparr>) b" and "credentials b = credentials a"
    and "t div 300000 = s div 300000 \<or> t div 300000 = s div 300000 + 1 \<and> t mod 300000 < 30000"
  shows "verify (E\<lparr>now_ms := t\<rparr>) b (sign (E\<lparr>now_ms := s\<rparr>) a p)
    \<and> (\<forall>q. verify (E\<lparr>now_ms := t\<rparr>) b q \<longrightarrow> signed_at (E\<lparr>now_ms := t\<rparr>) (credentials b) (t div 300000) q
         \<or> t mod 300000 < 30000 \<and> signed_at (E\<lparr>now_ms := t\<rparr>) (credentials b) (t div 300000 - 1) q)"
proof -
  have "current_epoch (E\<lparr>now_ms := t\<rparr>) = t div 300000" using assms(3) by (simp add: current_epoch_def cdiv_def sound_clock_def)
  then show ?thesis using sign_accepted [OF assms] verify_iff [of "E\<lparr>now_ms := t\<rparr>" b] assms(1,3) by simp
qed

text \<open>C33: In every run of calls, datagrams and ticks the tables stay within their bounds: at most 128 endpoints, each an
  announcement of another device of the account at a local address, at most 128 retired processes, at most eight
  resume routes. A pending invitation is always one that this very process was sent by another device. The list
  of devices names each device once and never this one, and the hints for a device are at most eight.\<close>

theorem nearby_bounded:
  assumes "iterates E"
  shows "nearby_ok E (nearby_run E cs new_nearby) \<and> distinct (map nd_id (nearby_devices E (nearby_run E cs new_nearby)))
    \<and> own_id (nearby_run E cs new_nearby) \<notin> nd_id ` set (nearby_devices E (nearby_run E cs new_nearby))
    \<and> length (connection_hints E (nearby_run E cs new_nearby) i) \<le> 8"
proof -
  have "nearby_ok E (nearby_run E cs new_nearby)" using new_nearby_ok assms by (rule nearby_run_ok)
  moreover from this have "own_id d \<notin> nd_id ` set (nearby_devices E d)" if "d = nearby_run E cs new_nearby" for d
    using devices_others [of E d, OF _ assms] that by (metis imageE)
  ultimately show ?thesis using devices_distinct hints_bounded by simp
qed

text \<open>C31: While a device keeps its identity and its table of requests does not overflow, it takes each invitation at most once, however often
  and by whatever route its datagram is repeated: a request is remembered longer than the link it carries is alive.\<close>

theorem invitation_once:
  assumes "steady E t0 cs d" and "taken d = []"
  shows "distinct (taken (nearby_run E cs d))"
proof -
  have "taken_once E t0 (memory d)" using assms(2) by (simp add: taken_once_def memory_def)
  then show ?thesis using assms(1) by (rule taken_once_run)
qed

text \<open>Two devices of one account that see each other.\<close>

definition account_peers :: "lan \<Rightarrow> nearby \<Rightarrow> nearby \<Rightarrow> bool" where
  "account_peers E a b \<longleftrightarrow> authentic E a \<and> authentic E b \<and> credentials b = credentials a
     \<and> oget ''scope'' (self_record a) = oget ''scope'' (self_record b)
     \<and> oget ''id'' (self_record a) = JStr (own_id a) \<and> oget ''id'' (self_record b) = JStr (own_id b)"

definition knows :: "lan \<Rightarrow> nearby \<Rightarrow> nearby \<Rightarrow> string \<Rightarrow> int \<Rightarrow> bool" where
  "knows E d p address port \<longleftrightarrow>
     (case endpoint_of E d (own_id p) address port of
        None \<Rightarrow> False
      | Some e \<Rightarrow> ep_record e = self_record p \<and> (address = [] \<or> ep_address e = address) \<and> verify E d (self_record p))"

definition delivered :: "lan \<Rightarrow> string \<Rightarrow> string \<Rightarrow> jobj \<Rightarrow> bool" where
  "delivered E address bytes p \<longleftrightarrow> local_address E address \<and> address \<noteq> [] \<and> length bytes \<le> 4096 \<and> parse_obj E bytes = p"

text \<open>C29: The automatic pairing of a host with a device of the same account. When the host's invitation and the device's answer arrive,
  the device has taken the invitation as an automatic one, accepting it returns the host's link narrowed to the address the
  invitation came from and keeps the invitation for the proof of the connection, and the host stops repeating it.\<close>

theorem automatic_pairing:
  assumes "sound_digest E" and "sound_clock (now_ms E)" and peers: "account_peers E a b"
    and seen: "knows E a b [] 0" "knows E b a [] 0" "knows E b a address port" "knows E a b address' port'"
    and "invite E (own_id b) text True a = (True, a')" and "read_link E text = Some link" and "sound_clock (link_expires link)"
    and "address \<in> set (link_addresses link)" and "link_expires link \<le> now_ms E + 65000"
    and "incoming b = []" and "new_uuid E (nonces a) \<notin> fst ` set (seen_requests b)" and "token (new_uuid E (nonces a))"
    and "delivered E address bytes (outgoing a')" and b': "b' = receive_datagram E address port bytes b"
    and "delivered E address' bytes' (reply E b' (incoming b') ''accept'')"
  shows "incoming b' \<noteq> [] \<and> incoming_automatic b'
    \<and> fst (accept_invitation E b') = print_link E (link\<lparr>link_addresses := [address]\<rparr>)
    \<and> accepted (snd (accept_invitation E b')) = incoming b'
    \<and> receive_datagram E address' port' bytes' a' = a'\<lparr>next_send := now_ms E + 65000\<rparr>"
proof -
  obtain eb where eb: "endpoint_of E a (own_id b) [] 0 = Some eb" "ep_record eb = self_record b"
    using seen(1) by (auto simp: knows_def split: option.splits)
  obtain e' where e': "endpoint_of E b (own_id a) [] 0 = Some e'" "ep_record e' = self_record a"
    using seen(2) by (auto simp: knows_def split: option.splits)
  have ne: "address \<noteq> []" "address' \<noteq> []" using assms by (auto simp: delivered_def)
  obtain ea where ea: "endpoint_of E b (own_id a) address port = Some ea" "ep_record ea = self_record a" "ep_address ea = address" "verify E b (self_record a)"
    using seen(3) ne by (auto simp: knows_def split: option.splits)
  obtain e2 where e2: "endpoint_of E a (own_id b) address' port' = Some e2" "ep_record e2 = self_record b" "verify E a (self_record b)"
    using seen(4) by (auto simp: knows_def split: option.splits)
  note sent = invite_sends [OF assms(8) eb(1) assms(9)]
  have p: "authentic E a" "authentic E b" "credentials b = credentials a" "oget ''scope'' (self_record a) = oget ''scope'' (self_record b)"
    "oget ''id'' (self_record a) = JStr (own_id a)" "oget ''id'' (self_record b) = JStr (own_id b)"
    using peers by (simp_all add: account_peers_def)
  have arrived: "b' = take_invitation E ea (invitation_packet E a eb (own_id b) text link) link b"
    unfolding b' using assms sent ea eb(2) p ne by (intro invitation_arrives) (auto simp: delivered_def)
  have e'v: "verify E b (ep_record e')" using ea(4) e'(2) by simp
  note accepted = invitation_accepted [OF p(2) e'v e'(1) assms(10) sent(6) arrived]
  have "receive_datagram E address' port' bytes' a' = a'\<lparr>next_send := now_ms E + 65000\<rparr>"
    using assms(1,2,15,18) e2 sent p by (intro accept_arrives [OF _ _ p(1-4) refl p(5) _ arrived sent(1-3) e2(1)]) (auto simp: delivered_def)
  then show ?thesis using accepted ea(3) by simp
qed

section \<open>Two concrete devices\<close>

definition sample_credentials :: jobj where
  "sample_credentials = [(''expiresAt'', JStr ''e''), (''keys'', JObj [(''0'', JStr zeros), (''1'', JStr zeros)]), (''scope'', JStr zeros)]"

definition sample_link :: lan_link where
  "sample_link = \<lparr>link_host = ''a'', link_expires = 60000, link_addresses = [''h'', ''x''], link_rest = []\<rparr>"

definition quiet_lan :: lan where
  "quiet_lan = env.extend sample_env \<lparr>hmac = (\<lambda>m k. replicate 32 (CHR ''m'')), iso_ms = (\<lambda>s. if s = ''e'' then Some 400000 else None),
     bind_loopback = False, lan_address = (\<lambda>a. True), loopback = (\<lambda>a. False), host_address = (\<lambda>a. a),
     read_link = (\<lambda>s. if s = ''L'' then Some sample_link else None),
     print_link = (\<lambda>l. concat (link_addresses l)), hash_order = (\<lambda>ks. ks), local_port = 7, collate = (\<lambda>n. 0)\<rparr>"

lemma quiet_lan_simps [simp]:
  "hmac quiet_lan m k = replicate 32 (CHR ''m'')" "iso_ms quiet_lan s = (if s = ''e'' then Some 400000 else None)"
  "\<not> bind_loopback quiet_lan" "lan_address quiet_lan a" "\<not> loopback quiet_lan a"
  "read_link quiet_lan s = (if s = ''L'' then Some sample_link else None)" "print_link quiet_lan l = concat (link_addresses l)"
  "hash_order quiet_lan ks = ks" "now_ms quiet_lan = 1000" "compact quiet_lan j = ''{}''" "new_uuid quiet_lan n = ''u'' @ nat_str n"
  by (simp_all add: quiet_lan_def env.extend_def sample_env_def)

definition sample_device :: "string \<Rightarrow> string \<Rightarrow> jobj" where
  "sample_device i host = [(''host'', JStr host), (''id'', JStr i), (''kind'', JStr ''pc''), (''name'', JStr i), (''nonce'', JStr (''n'' @ i)),
     (''scope'', JStr zeros), (''v'', JStr ''1'')]"

lemma sample_numbers: "num_str 0 = ''0''" "num_str 1 = ''1''" "nat_str 0 = ''0''"
  by code_simp+

lemma sample_key: "epoch_key quiet_lan 1000 sample_credentials 0 = from_hex zeros" "epoch_key quiet_lan 299000 sample_credentials 0 = from_hex zeros"
    "epoch_key quiet_lan 300100 sample_credentials 1 = from_hex zeros"
  by (simp_all add: epoch_key_def valid_credentials_def sample_credentials_def oget_def hex_zeros int_or_def secs_def cdiv_def sample_numbers Let_def)

lemma sample_key_length: "length (from_hex zeros) = 32"
  by (simp add: from_hex_length zeros_def)

definition announcing :: "string \<Rightarrow> string \<Rightarrow> nearby" where
  "announcing i host = advertise quiet_lan (new_nearby\<lparr>bound := True, self_record := sample_device i host, credentials := sample_credentials\<rparr>)"

lemma announcing_fields [simp]:
  "bound (announcing i host)" "credentials (announcing i host) = sample_credentials" "incoming (announcing i host) = []"
  "seen_requests (announcing i host) = []" "nonces (announcing i host) = 0" "outgoing (announcing i host) = []" "accepted (announcing i host) = []"
  "retired (announcing i host) = []" "resume_routes (announcing i host) = []" "endpoints (announcing i host) = []"
  by (simp_all add: announcing_def new_nearby_def)

lemma announcing_get: "k \<noteq> ''epoch'' \<Longrightarrow> k \<noteq> ''proof'' \<Longrightarrow> oget k (self_record (announcing i host)) = oget k (sample_device i host)"
  by (simp add: announcing_def advertise_get)

lemma announcing_own: "own_id (announcing i host) = i" "desktop (announcing i host) \<longleftrightarrow> host = ''1''"
  by (simp_all add: own_id_def desktop_def announcing_get) (simp_all add: sample_device_def oget_def)

lemma quiet_laws: "sound_digest quiet_lan" "iterates quiet_lan" "sound_clock (now_ms quiet_lan)"
  by (simp_all add: sound_digest_def iterates_def sound_clock_def)

lemma announcing_authentic: "authentic quiet_lan (announcing i host)"
    "authentic (quiet_lan\<lparr>now_ms := 299000\<rparr>) (announcing i host)" "authentic (quiet_lan\<lparr>now_ms := 300100\<rparr>) (announcing i host)"
  by (simp_all add: authentic_def announcing_get current_epoch_def cdiv_def sample_key sample_key_length)
     (simp_all add: sample_credentials_def sample_device_def oget_def)

lemma announcing_proved: "bound d \<Longrightarrow> authentic quiet_lan d \<Longrightarrow> credentials d = sample_credentials \<Longrightarrow> verify quiet_lan d (self_record (announcing i host))"
proof -
  define d0 where "d0 = new_nearby\<lparr>bound := True, self_record := sample_device i host, credentials := sample_credentials\<rparr>"
  have a: "authentic quiet_lan d0"
    by (simp add: d0_def new_nearby_def authentic_def current_epoch_def cdiv_def sample_key sample_key_length)
       (simp add: sample_credentials_def sample_device_def oget_def)
  have r: "self_record (announcing i host) = sign quiet_lan d0 (sample_device i host)"
  proof -
    have p: "odel ''proof'' (odel ''epoch'' (sample_device i host)) = sample_device i host" by (simp add: odel_def sample_device_def)
    then show ?thesis using a by (simp add: announcing_def d0_def [symmetric] advertise_def Let_def) (simp add: d0_def new_nearby_def)
  qed
  show "bound d \<Longrightarrow> authentic quiet_lan d \<Longrightarrow> credentials d = sample_credentials \<Longrightarrow> verify quiet_lan d (self_record (announcing i host))"
    unfolding r by (rule sign_accepted_now [OF quiet_laws(1,3) a]) (simp_all add: d0_def)
qed

lemma packet_proof_witness:
  "verify (quiet_lan\<lparr>now_ms := 300100\<rparr>) (announcing ''b'' ''0'') (sign (quiet_lan\<lparr>now_ms := 299000\<rparr>) (announcing ''a'' ''1'') [(''op'', JStr ''resume'')])"
proof -
  have s: "sound_clock 299000" "sound_clock 300100" by (simp_all add: sound_clock_def)
  have e: "(300100 :: int) div 300000 = 299000 div 300000 \<or> (300100 :: int) div 300000 = 299000 div 300000 + 1 \<and> (300100 :: int) mod 300000 < 30000"
    by simp
  have c: "credentials (announcing ''b'' ''0'') = credentials (announcing ''a'' ''1'')" by simp
  show ?thesis
    using packet_proof [OF quiet_laws(1) s announcing_authentic(2) announcing_authentic(3) c e] by blast
qed

definition sample_endpoint :: "string \<Rightarrow> string \<Rightarrow> string \<Rightarrow> endpoint" where
  "sample_endpoint address i host = \<lparr>ep_service = ''s'', ep_record = self_record (announcing i host), ep_address = address, ep_port = 7, ep_seen = 1000\<rparr>"

definition sample_host :: nearby where
  "sample_host = announcing ''a'' ''1''\<lparr>endpoints := [(endpoint_key ''s'' ''d'', sample_endpoint ''d'' ''b'' ''0'')]\<rparr>"

definition sample_guest :: nearby where
  "sample_guest = announcing ''b'' ''0''\<lparr>endpoints := [(endpoint_key ''s'' ''h'', sample_endpoint ''h'' ''a'' ''1'')]\<rparr>"

definition sample_invitation :: jobj where
  "sample_invitation = invitation_packet quiet_lan sample_host (sample_endpoint ''d'' ''b'' ''0'') ''b'' ''L'' sample_link"

definition sample_answer :: jobj where
  "sample_answer = (let g = take_invitation quiet_lan (sample_endpoint ''h'' ''a'' ''1'') sample_invitation sample_link sample_guest in
     reply quiet_lan g (incoming g) ''accept'')"

definition pairing_lan :: lan where
  "pairing_lan = quiet_lan\<lparr>parse_obj := (\<lambda>s. if s = ''i'' then sample_invitation else sample_answer)\<rparr>"

lemma pairing_lan_simps [simp]:
  "hmac pairing_lan = hmac quiet_lan" "iso_ms pairing_lan = iso_ms quiet_lan" "bind_loopback pairing_lan = bind_loopback quiet_lan"
  "lan_address pairing_lan = lan_address quiet_lan" "loopback pairing_lan = loopback quiet_lan" "read_link pairing_lan = read_link quiet_lan"
  "print_link pairing_lan = print_link quiet_lan" "hash_order pairing_lan = hash_order quiet_lan" "now_ms pairing_lan = now_ms quiet_lan"
  "compact pairing_lan = compact quiet_lan" "new_uuid pairing_lan = new_uuid quiet_lan"
  "parse_obj pairing_lan s = (if s = ''i'' then sample_invitation else sample_answer)"
  by (simp_all add: pairing_lan_def)

lemma pairing_key [simp]: "epoch_key pairing_lan = epoch_key quiet_lan"
proof -
  have "valid_credentials pairing_lan = valid_credentials quiet_lan"
    by (intro ext) (unfold valid_credentials_def pairing_lan_simps, rule refl)
  then show ?thesis by (intro ext) (unfold epoch_key_def pairing_lan_simps, simp only:)
qed

lemma pairing_same [simp]:
  "authentic pairing_lan d = authentic quiet_lan d" "sign pairing_lan d p = sign quiet_lan d p" "verify pairing_lan d p = verify quiet_lan d p"
proof -
  have e: "current_epoch pairing_lan = current_epoch quiet_lan" by (simp add: current_epoch_def)
  have m: "packet_mac pairing_lan = packet_mac quiet_lan" by (intro ext) (simp add: packet_mac_def)
  show a: "authentic pairing_lan d = authentic quiet_lan d" by (simp add: authentic_def e)
  show "sign pairing_lan d p = sign quiet_lan d p" "verify pairing_lan d p = verify quiet_lan d p"
    by (simp_all only: sign_def verify_def a e m pairing_key pairing_lan_simps)
qed

lemma pairing_laws: "sound_digest pairing_lan" "iterates pairing_lan" "sound_clock (now_ms pairing_lan)"
  by (simp_all add: sound_digest_def iterates_def sound_clock_def)

lemma sample_same: "same_keys (announcing ''a'' ''1'') sample_host" "same_keys (announcing ''b'' ''0'') sample_guest"
  by (simp_all add: same_keys_def sample_host_def sample_guest_def)

lemma sample_own [simp]: "own_id sample_host = ''a''" "own_id sample_guest = ''b''" "desktop sample_host"
  using announcing_own by (simp_all add: sample_host_def sample_guest_def own_id_def desktop_def)

lemma sample_get: "k \<noteq> ''epoch'' \<Longrightarrow> k \<noteq> ''proof'' \<Longrightarrow> oget k (self_record sample_host) = oget k (sample_device ''a'' ''1'')"
    "k \<noteq> ''epoch'' \<Longrightarrow> k \<noteq> ''proof'' \<Longrightarrow> oget k (self_record sample_guest) = oget k (sample_device ''b'' ''0'')"
  by (simp_all add: sample_host_def sample_guest_def announcing_get)

lemma sample_device_get: "oget ''id'' (sample_device i host) = JStr i" "oget ''scope'' (sample_device i host) = JStr zeros"
    "oget ''host'' (sample_device i host) = JStr host" "oget ''nonce'' (sample_device i host) = JStr (''n'' @ i)"
  by (simp_all add: sample_device_def oget_def)

lemma sample_authentic: "authentic quiet_lan sample_host" "authentic quiet_lan sample_guest"
  using announcing_authentic(1) authentic_same [OF sample_same(1)] authentic_same [OF sample_same(2)] by simp_all

lemma sample_peers: "account_peers pairing_lan sample_host sample_guest"
  using sample_authentic by (simp add: account_peers_def sample_get sample_device_get) (simp add: sample_host_def sample_guest_def)

lemma sample_endpoints: "endpoint_of pairing_lan sample_host ''b'' address port =
      (if (address = [] \<or> address = ''d'') \<and> (port = 0 \<or> port = 7) then Some (sample_endpoint ''d'' ''b'' ''0'') else None)"
    "endpoint_of pairing_lan sample_guest ''a'' address port =
      (if (address = [] \<or> address = ''h'') \<and> (port = 0 \<or> port = 7) then Some (sample_endpoint ''h'' ''a'' ''1'') else None)"
  by (auto simp: endpoint_of_def iterated_def sample_host_def sample_guest_def sample_endpoint_def announcing_get sample_device_get recent_def)

lemma sample_records: "ep_record (sample_endpoint address i host) = self_record (announcing i host)" "ep_address (sample_endpoint address i host) = address"
    "self_record sample_host = self_record (announcing ''a'' ''1'')" "self_record sample_guest = self_record (announcing ''b'' ''0'')"
    "bound sample_host" "bound sample_guest" "credentials sample_host = sample_credentials" "credentials sample_guest = sample_credentials"
  by (simp_all add: sample_endpoint_def sample_host_def sample_guest_def)

lemma sample_proved: "verify quiet_lan sample_host (self_record (announcing i host))" "verify quiet_lan sample_guest (self_record (announcing i host))"
  using announcing_proved sample_authentic sample_records by simp_all

lemma sample_knows: "knows pairing_lan sample_host sample_guest [] 0" "knows pairing_lan sample_guest sample_host [] 0"
    "knows pairing_lan sample_guest sample_host ''h'' 7" "knows pairing_lan sample_host sample_guest ''d'' 7"
  using sample_proved sample_endpoints by (simp_all add: knows_def sample_records)

lemma sample_invite: "fst (invite pairing_lan ''b'' ''L'' True sample_host)"
  using sample_proved(1) [of "''b''" "''0''"] sample_endpoints(1) [of "[]" 0]
  by (simp add: invite_def sample_records sample_link_def fresh_nonce_def Let_def)

lemma sample_packet: "invitation_packet pairing_lan sample_host (sample_endpoint ''d'' ''b'' ''0'') ''b'' ''L'' sample_link = sample_invitation"
  by (simp only: sample_invitation_def invitation_packet_def pairing_same pairing_lan_simps)

lemma sample_sent:
  "outgoing (snd (invite pairing_lan ''b'' ''L'' True sample_host)) = sample_invitation"
proof -
  have i: "invite pairing_lan ''b'' ''L'' True sample_host = (True, snd (invite pairing_lan ''b'' ''L'' True sample_host))"
    using sample_invite by (simp add: prod_eq_iff)
  show ?thesis using invite_sends(1) [OF i, of "sample_endpoint ''d'' ''b'' ''0''" sample_link] sample_endpoints(1) [of "[]" 0] sample_packet by simp
qed

lemma sample_token: "token (''u'' @ nat_str 0)"
  by (simp add: sample_numbers token_def)

lemma sample_link_get: "link_host sample_link = ''a''" "link_expires sample_link = 60000" "link_addresses sample_link = [''h'', ''x'']"
  by (simp_all add: sample_link_def)

lemma sample_arrives: "receive_datagram pairing_lan ''h'' 7 ''i'' sample_guest
    = take_invitation pairing_lan (sample_endpoint ''h'' ''a'' ''1'') sample_invitation sample_link sample_guest"
proof -
  have g: "nonces sample_host = 0" "incoming sample_guest = []" "seen_requests sample_guest = []" by (simp_all add: sample_host_def sample_guest_def)
  have "receive_datagram pairing_lan ''h'' 7 ''i'' sample_guest = take_invitation pairing_lan (sample_endpoint ''h'' ''a'' ''1'')
      (invitation_packet pairing_lan sample_host (sample_endpoint ''d'' ''b'' ''0'') ''b'' ''L'' sample_link) sample_link sample_guest"
    using sample_peers sample_endpoints(2) [of "''h''" 7] sample_proved(2) [of "''a''" "''1''"] sample_token
    by (intro invitation_arrives [OF pairing_laws(1,3)])
       (simp_all add: account_peers_def sample_records announcing_get sample_device_get sample_link_get sample_packet local_address_def g)
  then show ?thesis unfolding sample_packet .
qed

lemma take_same: "take_invitation pairing_lan e p l d = take_invitation quiet_lan e p l d"
  by (simp add: take_invitation_def)

lemma reply_same: "reply pairing_lan d p op = reply quiet_lan d p op"
  by (simp only: reply_def pairing_same)

lemma automatic_pairing_witness:
  "fst (accept_invitation pairing_lan (receive_datagram pairing_lan ''h'' 7 ''i'' sample_guest)) = ''h''
   \<and> next_send (receive_datagram pairing_lan ''d'' 7 ''r'' (snd (invite pairing_lan ''b'' ''L'' True sample_host))) = 66000"
proof -
  have i: "invite pairing_lan (own_id sample_guest) ''L'' True sample_host = (True, snd (invite pairing_lan ''b'' ''L'' True sample_host))"
    using sample_invite by (simp add: prod_eq_iff)
  have l: "read_link pairing_lan ''L'' = Some sample_link" "sound_clock (link_expires sample_link)" "''h'' \<in> set (link_addresses sample_link)"
    "link_expires sample_link \<le> now_ms pairing_lan + 65000"
    by (simp_all add: sample_link_def sound_clock_def)
  have n: "incoming sample_guest = []" "new_uuid pairing_lan (nonces sample_host) \<notin> fst ` set (seen_requests sample_guest)"
    "token (new_uuid pairing_lan (nonces sample_host))"
    using sample_token by (simp_all add: sample_guest_def sample_host_def)
  have d: "delivered pairing_lan ''h'' ''i'' (outgoing (snd (invite pairing_lan ''b'' ''L'' True sample_host)))"
    by (simp add: delivered_def local_address_def sample_sent)
  have r: "delivered pairing_lan ''d'' ''r'' (reply pairing_lan (receive_datagram pairing_lan ''h'' 7 ''i'' sample_guest)
      (incoming (receive_datagram pairing_lan ''h'' 7 ''i'' sample_guest)) ''accept'')"
    by (simp add: delivered_def local_address_def sample_arrives reply_same take_same sample_answer_def Let_def)
  show ?thesis
    using automatic_pairing [OF pairing_laws(1,3) sample_peers sample_knows i l n d refl r] by (simp add: sample_link_def)
qed

lemma sample_device_valid: "valid_device pairing_lan (self_record (announcing ''a'' ''1''))"
  by (simp add: valid_device_def announcing_get Let_def has_key_def)
     (simp add: sample_device_def oget_def hex_zeros token_def control_char_def)

lemma sample_guest_ok: "nearby_ok pairing_lan sample_guest"
proof -
  have "observable pairing_lan sample_guest ''s'' (self_record (announcing ''a'' ''1'')) ''h'' 7"
    using sample_device_valid by (simp add: observable_def sample_records local_address_def announcing_get sample_device_get)
  then have "observed_ok pairing_lan sample_guest"
    by (simp add: observed_ok_def sample_guest_def sample_endpoint_def endpoint_key_def observable_def)
  then show ?thesis by (simp add: nearby_ok_def sample_guest_def routes_ok_def)
qed

lemma sample_taken: "incoming (receive_datagram pairing_lan ''h'' 7 ''i'' sample_guest) \<noteq> []"
  by (simp add: sample_arrives take_invitation_def Let_def oput_not_Nil)

lemma invitation_sound_witness:
  "\<exists>e link. invited_by pairing_lan sample_guest e sample_invitation ''h'' 7 \<and> read_link pairing_lan ''L'' = Some link"
proof -
  have "''h'' \<noteq> ([] :: string)" "(7 :: int) \<noteq> 0" "incoming sample_guest = []" by (simp_all add: sample_guest_def)
  from invitation_sound [OF sample_guest_ok pairing_laws(2,1,3) this sample_taken]
  show ?thesis by (fastforce simp: Let_def sample_packet [symmetric] invitation_get)
qed

lemma nearby_bounded_witness:
  "nearby_ok quiet_lan (nearby_run quiet_lan [(1000, SetIdentity zeros ''a'' ''A'' ''pc'' True None), (2000, Tick), (3000, Lost ''s'')] new_nearby)"
  using nearby_bounded [OF quiet_laws(2)] by blast

text \<open>The datagram arrives twice, before and after the invitation is declined.\<close>

definition repeated :: "(int \<times> nearby_input) list" where
  "repeated = [(1000, DatagramIn ''h'' 7 ''i''), (1000, DatagramIn ''h'' 7 ''i''), (1500, DeclineInvitation), (2000, DatagramIn ''h'' 7 ''i'')]"

lemma invitation_once_witness:
  "distinct (taken (nearby_run pairing_lan repeated sample_guest))
   \<and> taken (nearby_run pairing_lan (take 1 repeated) sample_guest) = [sample_invitation]"
proof -
  have "steady pairing_lan 0 repeated sample_guest" by (simp add: repeated_def)
  moreover have none: "taken sample_guest = []"
    by (simp add: taken_def sample_guest_def announcing_def new_nearby_def advertise_def Let_def emits_def)
  ultimately have "distinct (taken (nearby_run pairing_lan repeated sample_guest))" by (rule invitation_once)
  moreover have clock: "pairing_lan\<lparr>now_ms := 1000\<rparr> = pairing_lan" using quiet_lan_simps(9) by (simp add: pairing_lan_def quiet_lan_def env.extend_def sample_env_def)
  have "nearby_run pairing_lan (take 1 repeated) sample_guest = receive_datagram pairing_lan ''h'' 7 ''i'' sample_guest"
    by (simp add: repeated_def clock)
  then have "taken (nearby_run pairing_lan (take 1 repeated) sample_guest) = [sample_invitation]"
    using none by (simp add: sample_arrives take_invitation_def Let_def emits_def taken_def invitations_append)
  ultimately show ?thesis ..
qed

end
