(* ===== verification/MonitorJson.thy ===== *)
theory MonitorJson
  imports Prelude
begin

text \<open>
  The JSON reader and writer of the monitor (\<open>src/src/Monitoring/Monitor.cpp\<close>). The reader works on
  the bytes of a document; its state, the cursor, is here the list of bytes still to read, and a
  failure anywhere is \<open>None\<close>. The nesting of values is bounded by 24, which the code counts up and
  the model counts down, so that \<open>value\<close> recurses on it; the loops over members and elements take
  the number of remaining bytes as fuel, which is always enough because each turn reads one byte.
\<close>

section \<open>The cursor\<close>

definition blank :: "char \<Rightarrow> bool" where
  "blank c \<longleftrightarrow> c = CHR '' '' \<or> c = CHR 0x0D \<or> c = CHR 0x0A \<or> c = CHR 0x09"

definition skip :: "string \<Rightarrow> string" where
  "skip s = dropWhile blank s"

definition take_char :: "char \<Rightarrow> string \<Rightarrow> bool \<times> string" where
  "take_char c s = (case skip s of [] \<Rightarrow> (False, []) | x # xs \<Rightarrow> if x = c then (True, xs) else (False, x # xs))"

definition code :: "char \<Rightarrow> nat" where
  "code c = of_char c"

definition hex_digit :: "char \<Rightarrow> nat option" where
  "hex_digit c = (let n = code c in
     if 48 \<le> n \<and> n \<le> 57 then Some (n - 48)
     else if 97 \<le> n \<and> n \<le> 102 then Some (n - 97 + 10)
     else if 65 \<le> n \<and> n \<le> 70 then Some (n - 65 + 10) else None)"

fun hex_digits :: "nat \<Rightarrow> nat \<Rightarrow> string \<Rightarrow> (nat \<times> string) option" where
  "hex_digits 0 acc s = Some (acc, s)"
| "hex_digits (Suc n) acc [] = None"
| "hex_digits (Suc n) acc (c # s) = (case hex_digit c of None \<Rightarrow> None | Some d \<Rightarrow> hex_digits n (acc * 16 + d) s)"

definition hex4 :: "string \<Rightarrow> (nat \<times> string) option" where
  "hex4 s = hex_digits 4 0 s"

text \<open>UTF-8 of a code point.\<close>

definition utf8_bytes :: "nat \<Rightarrow> string" where
  "utf8_bytes c =
     (if c < 0x80 then [char_of c]
      else if c < 0x800 then [char_of (0xC0 + c div 64), char_of (0x80 + c mod 64)]
      else if c < 0x10000 then [char_of (0xE0 + c div 4096), char_of (0x80 + c div 64 mod 64), char_of (0x80 + c mod 64)]
      else [char_of (0xF0 + c div 262144), char_of (0x80 + c div 4096 mod 64), char_of (0x80 + c div 64 mod 64),
            char_of (0x80 + c mod 64)])"

text \<open>The code point of an escape, one unit or a surrogate pair.\<close>

definition escaped_code :: "string \<Rightarrow> (nat \<times> string) option" where
  "escaped_code s =
     (case hex4 s of
        None \<Rightarrow> None
      | Some (hi, s) \<Rightarrow>
          (if 0xD800 \<le> hi \<and> hi \<le> 0xDBFF then
             (if take 2 s \<noteq> [CHR 0x5C, CHR ''u''] then None
              else (case hex4 (drop 2 s) of
                      None \<Rightarrow> None
                    | Some (lo, s) \<Rightarrow> if lo < 0xDC00 \<or> lo > 0xDFFF then None
                                      else Some (0x10000 + (hi - 0xD800) * 1024 + lo - 0xDC00, s)))
           else if 0xDC00 \<le> hi \<and> hi \<le> 0xDFFF then None else Some (hi, s)))"

definition simple_escape :: "char \<Rightarrow> char option" where
  "simple_escape e =
     (if e = CHR 0x22 then Some (CHR 0x22) else if e = CHR 0x5C then Some (CHR 0x5C) else if e = CHR ''/'' then Some (CHR ''/'')
      else if e = CHR ''b'' then Some (CHR 0x08) else if e = CHR ''f'' then Some (CHR 0x0C)
      else if e = CHR ''n'' then Some (CHR 0x0A) else if e = CHR ''r'' then Some (CHR 0x0D)
      else if e = CHR ''t'' then Some (CHR 0x09) else None)"

lemma hex_digits_shorter: "hex_digits n acc s = Some (v, t) \<Longrightarrow> length t + n = length s"
  by (induction n acc s rule: hex_digits.induct) (auto split: option.splits)

lemma escaped_shorter: "escaped_code s = Some (v, t) \<Longrightarrow> length t < length s"
  by (auto simp: escaped_code_def hex4_def split: option.splits if_splits dest!: hex_digits_shorter)

function string_body :: "string \<Rightarrow> string \<Rightarrow> (string \<times> string) option" where
  "string_body out [] = None"
| "string_body out (c # s) =
     (if c = CHR 0x22 then Some (out, s)
      else if code c < 32 then None
      else if c \<noteq> CHR 0x5C then string_body (out @ [c]) s
      else (case s of
              [] \<Rightarrow> None
            | e # t \<Rightarrow>
                (if e = CHR ''u'' then
                   (case escaped_code t of None \<Rightarrow> None | Some (n, t) \<Rightarrow> string_body (out @ utf8_bytes n) t)
                 else (case simple_escape e of None \<Rightarrow> None | Some x \<Rightarrow> string_body (out @ [x]) t))))"
  by pat_completeness auto
termination by (relation "measure (length \<circ> snd)") (auto dest: escaped_shorter)

definition string_value :: "string \<Rightarrow> (string \<times> string) option" where
  "string_value s = (let (ok, s) = take_char (CHR 0x22) s in if ok then string_body [] s else None)"

section \<open>Numbers\<close>

definition digit :: "char \<Rightarrow> bool" where
  "digit c \<longleftrightarrow> 48 \<le> code c \<and> code c \<le> 57"

text \<open>The integer part: a single zero, or digits that do not start with one.\<close>

definition integer_part :: "string \<Rightarrow> string option" where
  "integer_part s =
     (case s of
        [] \<Rightarrow> None
      | c # t \<Rightarrow> if c = CHR ''0'' then Some t else if \<not> digit c then None else Some (dropWhile digit s))"

definition fraction_part :: "string \<Rightarrow> string option" where
  "fraction_part s =
     (case s of
        [] \<Rightarrow> Some []
      | c # t \<Rightarrow> if c \<noteq> CHR ''.'' then Some s else if takeWhile digit t = [] then None else Some (dropWhile digit t))"

definition exponent_part :: "string \<Rightarrow> string option" where
  "exponent_part s =
     (case s of
        [] \<Rightarrow> Some []
      | c # t \<Rightarrow>
          if c \<noteq> CHR ''e'' \<and> c \<noteq> CHR ''E'' then Some s
          else let u = (if t \<noteq> [] \<and> (hd t = CHR ''+'' \<or> hd t = CHR ''-'') then tl t else t) in
               if takeWhile digit u = [] then None else Some (dropWhile digit u))"

definition number_value :: "string \<Rightarrow> (string \<times> string) option" where
  "number_value s0 =
     (let s = skip s0; t = (if s \<noteq> [] \<and> hd s = CHR ''-'' then tl s else s) in
      case integer_part t of
        None \<Rightarrow> None
      | Some t \<Rightarrow>
          (case fraction_part t of
             None \<Rightarrow> None
           | Some t \<Rightarrow> (case exponent_part t of
                          None \<Rightarrow> None
                        | Some t \<Rightarrow> Some (take (length s - length t) s, t))))"

section \<open>Values\<close>

datatype scalar = SText string | SNumber string | SOther

fun members :: "(string \<Rightarrow> (scalar \<times> string) option) \<Rightarrow> nat \<Rightarrow> string \<Rightarrow> string option" where
  "members val 0 s = None"
| "members val (Suc n) s =
     (case string_value s of
        None \<Rightarrow> None
      | Some (k, s) \<Rightarrow>
          (let (ok, s) = take_char (CHR '':'') s in
           if \<not> ok then None
           else (case val s of
                   None \<Rightarrow> None
                 | Some (v, s) \<Rightarrow>
                     (let (more, s) = take_char (CHR '','') s in
                      if more then members val n s
                      else let (ok, s) = take_char (CHR ''}'') s in if ok then Some s else None))))"

fun elements :: "(string \<Rightarrow> (scalar \<times> string) option) \<Rightarrow> nat \<Rightarrow> string \<Rightarrow> string option" where
  "elements val 0 s = None"
| "elements val (Suc n) s =
     (case val s of
        None \<Rightarrow> None
      | Some (v, s) \<Rightarrow>
          (let (more, s) = take_char (CHR '','') s in
           if more then elements val n s
           else let (ok, s) = take_char (CHR '']'') s in if ok then Some s else None))"

definition literal_value :: "string \<Rightarrow> string option" where
  "literal_value s =
     (if starts_with ''true'' s then Some (drop 4 s) else if starts_with ''false'' s then Some (drop 5 s)
      else if starts_with ''null'' s then Some (drop 4 s) else None)"

definition with_kind :: "(string \<Rightarrow> scalar) \<Rightarrow> (string \<times> string) option \<Rightarrow> (scalar \<times> string) option" where
  "with_kind kind r = (case r of None \<Rightarrow> None | Some (v, s) \<Rightarrow> Some (kind v, s))"

definition other :: "string option \<Rightarrow> (scalar \<times> string) option" where
  "other r = (case r of None \<Rightarrow> None | Some s \<Rightarrow> Some (SOther, s))"

primrec json_value :: "nat \<Rightarrow> string \<Rightarrow> (scalar \<times> string) option" where
  "json_value 0 s = None"
| "json_value (Suc left) s =
     (let s = skip s in
      if s = [] then None
      else if hd s = CHR 0x22 then with_kind SText (string_value s)
      else let (curly, s) = take_char (CHR ''{'') s in
      if curly then (let (ok, s) = take_char (CHR ''}'') s in
                     other (if ok then Some s else members (json_value left) (length s) s))
      else let (square, s) = take_char (CHR ''['') s in
      if square then (let (ok, s) = take_char (CHR '']'') s in
                      other (if ok then Some s else elements (json_value left) (length s) s))
      else (case literal_value s of
              Some s \<Rightarrow> Some (SOther, s)
            | None \<Rightarrow> with_kind SNumber (number_value s)))"

definition max_depth :: nat where
  "max_depth = 25"

text \<open>The members of the document itself; a repeated key is an error.\<close>

fun fields :: "nat \<Rightarrow> (string \<times> scalar) list \<Rightarrow> string \<Rightarrow> ((string \<times> scalar) list \<times> string) option" where
  "fields 0 acc s = None"
| "fields (Suc n) acc s =
     (case string_value s of
        None \<Rightarrow> None
      | Some (k, s) \<Rightarrow>
          (let (ok, s) = take_char (CHR '':'') s in
           if \<not> ok then None
           else (case json_value max_depth s of
                   None \<Rightarrow> None
                 | Some (v, s) \<Rightarrow>
                     (if k \<in> fst ` set acc then None
                      else let (more, s) = take_char (CHR '','') s in
                      if more then fields n (acc @ [(k, v)]) s
                      else let (ok, s) = take_char (CHR ''}'') s in
                      if ok then Some (acc @ [(k, v)], s) else None))))"

text \<open>\<open>utf8_ok\<close> is the serializer's check that the bytes are UTF-8.\<close>

definition json_object :: "(string \<Rightarrow> bool) \<Rightarrow> string \<Rightarrow> (string \<times> scalar) list option" where
  "json_object utf8_ok input =
     (if \<not> utf8_ok input then None
      else let (ok, s) = take_char (CHR ''{'') input in
      if \<not> ok then None
      else let (empty, s) = take_char (CHR ''}'') s in
      (case (if empty then Some ([], s) else fields (length s) [] s) of
         None \<Rightarrow> None
       | Some (m, s) \<Rightarrow> if skip s \<noteq> [] then None else Some m))"

fun has_kind :: "scalar \<Rightarrow> (string \<Rightarrow> scalar) \<Rightarrow> bool" where
  "has_kind (SText s) kind \<longleftrightarrow> kind s = SText s"
| "has_kind (SNumber s) kind \<longleftrightarrow> kind s = SNumber s"
| "has_kind SOther kind \<longleftrightarrow> False"

fun scalar_text :: "scalar \<Rightarrow> string" where
  "scalar_text (SText s) = s"
| "scalar_text (SNumber s) = s"
| "scalar_text SOther = []"

definition field :: "(string \<times> scalar) list \<Rightarrow> string \<Rightarrow> (string \<Rightarrow> scalar) \<Rightarrow> string \<Rightarrow> bool" where
  "field m key kind value \<longleftrightarrow>
     (case map_of m key of
        None \<Rightarrow> False
      | Some x \<Rightarrow> has_kind x kind \<and> (value = [] \<or> scalar_text x = value))"

section \<open>Writing\<close>

definition hex_char :: "nat \<Rightarrow> char" where
  "hex_char n = char_of (if n < 10 then 48 + n else 87 + n)"

definition quote_char :: "char \<Rightarrow> string" where
  "quote_char c =
     (if c = CHR 0x22 then [CHR 0x5C, CHR 0x22] else if c = CHR 0x5C then [CHR 0x5C, CHR 0x5C]
      else if c = CHR 0x0A then [CHR 0x5C, CHR ''n''] else if c = CHR 0x0D then [CHR 0x5C, CHR ''r'']
      else if c = CHR 0x09 then [CHR 0x5C, CHR ''t'']
      else if code c < 32 then [CHR 0x5C, CHR ''u'', CHR ''0'', CHR ''0'', hex_char (code c div 16), hex_char (code c mod 16)]
      else [c])"

definition quote :: "string \<Rightarrow> string" where
  "quote v = CHR 0x22 # concat (map quote_char v) @ [CHR 0x22]"

section \<open>Strings read back\<close>

lemma code_char: "char_of (code c) = c"
  by (simp add: code_def)

lemma hex_char_digit: "n < 16 \<Longrightarrow> hex_digit (hex_char n) = Some n"
  by (auto simp: hex_digit_def hex_char_def code_def Let_def)

lemma code_backslash [simp]: "code (CHR 0x5C) = 92"
  by (simp add: code_def)

lemma hex4_digits:
  "hex_digit a = Some i \<Longrightarrow> hex_digit b = Some j \<Longrightarrow> hex_digit c = Some k \<Longrightarrow> hex_digit d = Some l \<Longrightarrow>
   hex4 (a # b # c # d # s) = Some (((i * 16 + j) * 16 + k) * 16 + l, s)"
  by (simp add: hex4_def numeral_eq_Suc)

lemma quoted_control: "code c < 32 \<Longrightarrow>
  escaped_code (CHR ''0'' # CHR ''0'' # hex_char (code c div 16) # hex_char (code c mod 16) # s) = Some (code c, s)"
proof -
  assume c: "code c < 32"
  have z: "hex_digit (CHR ''0'') = Some 0" by (simp add: hex_digit_def code_def)
  have "hex_digit (hex_char (code c div 16)) = Some (code c div 16)" "hex_digit (hex_char (code c mod 16)) = Some (code c mod 16)"
    using c by (auto intro!: hex_char_digit)
  then have "hex4 (CHR ''0'' # CHR ''0'' # hex_char (code c div 16) # hex_char (code c mod 16) # s) = Some (code c div 16 * 16 + code c mod 16, s)"
    using hex4_digits [OF z z] by fastforce
  then show ?thesis using c by (simp add: escaped_code_def)
qed

lemma string_body_char: "string_body out (quote_char c @ s) = string_body (out @ [c]) s"
proof -
  have q: "CHR 0x22 \<noteq> CHR 0x5C" "\<not> code (CHR 0x5C) < 32" by (simp_all add: code_def)
  consider "c = CHR 0x22" | "c = CHR 0x5C" | "c = CHR 0x0A" | "c = CHR 0x0D" | "c = CHR 0x09"
    | "code c < 32" "c \<notin> {CHR 0x22, CHR 0x5C, CHR 0x0A, CHR 0x0D, CHR 0x09}"
    | "\<not> code c < 32" "c \<noteq> CHR 0x22" "c \<noteq> CHR 0x5C" by blast
  then show ?thesis
  proof cases
    case 6
    then have "quote_char c = [CHR 0x5C, CHR ''u'', CHR ''0'', CHR ''0'', hex_char (code c div 16), hex_char (code c mod 16)]"
      by (simp add: quote_char_def)
    moreover have "utf8_bytes (code c) = [c]" using 6 by (simp add: utf8_bytes_def code_char)
    ultimately show ?thesis using q by (simp add: quoted_control [OF 6(1)])
  next
    case 7
    then have "quote_char c = [c]" by (auto simp: quote_char_def code_def)
    with 7 show ?thesis by simp
  qed (use q in \<open>simp_all add: quote_char_def simple_escape_def\<close>)
qed

lemma string_body_chars: "string_body out (concat (map quote_char v) @ s) = string_body (out @ v) s"
  by (induction v arbitrary: out) (simp_all add: string_body_char)

lemma skip_simps [simp]: "skip [] = []" "\<not> blank c \<Longrightarrow> skip (c # s) = c # s"
  by (simp_all add: skip_def)

lemma not_blank [simp]: "\<not> blank (CHR 0x22)" "\<not> blank (CHR ''{'')" "\<not> blank (CHR ''}'')" "\<not> blank (CHR ''['')"
  "\<not> blank (CHR '']'')" "\<not> blank (CHR '','')" "\<not> blank (CHR '':'')"
  by (simp_all add: blank_def)

lemma take_char_hit [simp]: "\<not> blank c \<Longrightarrow> take_char c (c # s) = (True, s)"
  by (simp add: take_char_def)

lemma take_char_miss: "\<not> blank x \<Longrightarrow> x \<noteq> c \<Longrightarrow> take_char c (x # s) = (False, x # s)"
  by (simp add: take_char_def)

lemma string_value_quote: "string_value (quote v @ s) = Some (v, s)"
  using string_body_chars [of "[]" v "CHR 0x22 # s"] by (simp add: string_value_def quote_def)

section \<open>The parser consumes and its fuel is enough\<close>

lemma skip_shorter: "length (skip s) \<le> length s"
  by (simp add: skip_def length_dropWhile_le)

lemma take_char_shorter:
  "take_char c s = (True, t) \<Longrightarrow> length t < length s" "take_char c s = (b, t) \<Longrightarrow> length t \<le> length s"
proof -
  show "length t < length s" if "take_char c s = (True, t)"
    using that skip_shorter [of s] by (cases "skip s") (auto simp: take_char_def split: if_splits)
  show "length t \<le> length s" if "take_char c s = (b, t)"
  proof -
    have "(case u of [] \<Rightarrow> (False, []) | x # xs \<Rightarrow> if x = c then (True, xs) else (False, x # xs)) = (b, t) \<Longrightarrow> length t \<le> length u" for u
      by (cases u) (auto split: if_splits)
    then have "length t \<le> length (skip s)" using that unfolding take_char_def .
    then show ?thesis using skip_shorter [of s] by linarith
  qed
qed

lemma string_body_shorter: "string_body out s = Some (v, t) \<Longrightarrow> length t < length s"
proof (induction out s rule: string_body.induct)
  case (2 out c s)
  show ?case
  proof (cases "c = CHR 0x22 \<or> code c < 32 \<or> c \<noteq> CHR 0x5C")
    case True
    then show ?thesis using 2 by (auto split: if_splits)
  next
    case False
    with "2.prems" obtain e u where u: "s = e # u" by (auto split: list.splits)
    show ?thesis
    proof (cases "e = CHR ''u''")
      case True
      with False u "2.prems" obtain n w where w: "escaped_code u = Some (n, w)" "string_body (out @ utf8_bytes n) w = Some (v, t)"
        by (auto split: option.splits)
      have "length t < length w" using "2.IH"(2) [of e u "(n, w)" n w] False u True w by simp
      then show ?thesis using escaped_shorter [OF w(1)] u by simp
    next
      case neq: False
      with False u "2.prems" obtain x where x: "simple_escape e = Some x" "string_body (out @ [x]) u = Some (v, t)"
        by (auto split: option.splits)
      have "length t < length u" using "2.IH"(3) [of e u x] False u neq x by simp
      then show ?thesis using u by simp
    qed
  qed
qed simp

lemma string_value_shorter: "string_value s = Some (v, t) \<Longrightarrow> length t < length s"
  by (auto simp: string_value_def Let_def split: prod.splits if_splits dest!: string_body_shorter take_char_shorter(1))

lemma dropWhile_shorter: "length (dropWhile P s) \<le> length s"
  by (rule length_dropWhile_le)

lemma integer_part_shorter: "integer_part s = Some t \<Longrightarrow> length t < length s"
  using dropWhile_shorter [of digit "tl s"] by (auto simp: integer_part_def split: list.splits if_splits)

lemma fraction_part_shorter: "fraction_part s = Some t \<Longrightarrow> length t \<le> length s"
  using dropWhile_shorter [of digit "tl s"] by (auto simp: fraction_part_def split: list.splits if_splits)

lemma exponent_part_shorter: "exponent_part s = Some t \<Longrightarrow> length t \<le> length s"
  using dropWhile_shorter [of digit "tl s"] dropWhile_shorter [of digit "tl (tl s)"]
  by (auto simp: exponent_part_def Let_def split: list.splits if_splits)

lemma number_value_shorter: "number_value s = Some (v, t) \<Longrightarrow> length t < length s"
proof -
  assume n: "number_value s = Some (v, t)"
  let ?s = "skip s" let ?u = "if ?s \<noteq> [] \<and> hd ?s = CHR ''-'' then tl ?s else ?s"
  from n obtain a b where "integer_part ?u = Some a" "fraction_part a = Some b" "exponent_part b = Some t"
    by (auto simp: number_value_def Let_def split: option.splits)
  then have "length t < length ?u" using integer_part_shorter fraction_part_shorter exponent_part_shorter by fastforce
  moreover have "length ?u \<le> length ?s" by simp
  ultimately show ?thesis using skip_shorter [of s] by linarith
qed

text \<open>Every reader of a value returns less than it got.\<close>

definition consumes :: "(string \<Rightarrow> (scalar \<times> string) option) \<Rightarrow> bool" where
  "consumes val \<longleftrightarrow> (\<forall>s v t. val s = Some (v, t) \<longrightarrow> length t < length s)"

lemma members_shorter: "consumes val \<Longrightarrow> members val n s = Some t \<Longrightarrow> length t < length s"
proof (induction n arbitrary: s)
  case (Suc n)
  from Suc.prems(2) obtain k a b v c d more e where
    k: "string_value s = Some (k, a)" "take_char (CHR '':'') a = (True, b)" "val b = Some (v, c)" "take_char (CHR '','') c = (more, d)"
    and e: "if more then members val n d = Some t else take_char (CHR ''}'') d = (True, e) \<and> t = e"
    by (auto simp: Let_def split: option.splits prod.splits if_splits)
  have "length c < length s" using k(1-3) Suc.prems(1) string_value_shorter take_char_shorter(1) unfolding consumes_def by fastforce
  moreover have "length d \<le> length c" using take_char_shorter(2) [OF k(4)] .
  moreover have "length t \<le> length d" using e Suc.IH [OF Suc.prems(1), of d] take_char_shorter(1) by (fastforce split: if_splits)
  ultimately show ?case by linarith
qed simp

lemma elements_shorter: "consumes val \<Longrightarrow> elements val n s = Some t \<Longrightarrow> length t < length s"
proof (induction n arbitrary: s)
  case (Suc n)
  from Suc.prems(2) obtain v c d more e where
    k: "val s = Some (v, c)" "take_char (CHR '','') c = (more, d)"
    and e: "if more then elements val n d = Some t else take_char (CHR '']'') d = (True, e) \<and> t = e"
    by (auto simp: Let_def split: option.splits prod.splits if_splits)
  have "length c < length s" using k(1) Suc.prems(1) unfolding consumes_def by blast
  moreover have "length d \<le> length c" using take_char_shorter(2) [OF k(2)] .
  moreover have "length t \<le> length d" using e Suc.IH [OF Suc.prems(1), of d] take_char_shorter(1) by (fastforce split: if_splits)
  ultimately show ?case by linarith
qed simp

lemma literal_value_shorter: "literal_value s = Some t \<Longrightarrow> length t < length s"
  by (cases s) (auto simp: literal_value_def starts_with_def split: if_splits)

lemma consumes_value: "consumes (json_value n)"
proof (induction n)
  case (Suc n)
  show ?case
    unfolding consumes_def
  proof (intro allI impI)
    fix s v t assume j: "json_value (Suc n) s = Some (v, t)"
    obtain c a where c: "take_char (CHR ''{'') (skip s) = (c, a)" by (cases "take_char (CHR ''{'') (skip s)")
    obtain d b where d: "take_char (CHR ''['') a = (d, b)" by (cases "take_char (CHR ''['') a")
    obtain o1 e where o1: "take_char (CHR ''}'') a = (o1, e)" by (cases "take_char (CHR ''}'') a")
    obtain o2 f where o2: "take_char (CHR '']'') b = (o2, f)" by (cases "take_char (CHR '']'') b")
    have l: "length (skip s) \<le> length s" "length a \<le> length (skip s)" "length b \<le> length a"
      "c \<Longrightarrow> length a < length (skip s)" "d \<Longrightarrow> length b < length a" "length e \<le> length a" "length f \<le> length b"
      using skip_shorter c d o1 o2 take_char_shorter by (auto simp: le_less_trans)
    consider "hd (skip s) = CHR 0x22" "string_value (skip s) \<noteq> None" | "c" | "\<not> c" "d" | "\<not> c" "\<not> d" "literal_value b = Some t"
      | "\<not> c" "\<not> d" "number_value b \<noteq> None"
      using j c d by (auto simp: Let_def with_kind_def split: if_splits option.splits)
    then show "length t < length s"
    proof cases
      case 1
      with j obtain w where "string_value (skip s) = Some (w, t)" by (auto simp: Let_def with_kind_def split: if_splits option.splits)
      then show ?thesis using string_value_shorter l(1) by fastforce
    next
      case 2
      have "length t \<le> length a"
        using j c o1 2 l(6) members_shorter [OF Suc, of "length e" e t] string_value_shorter [of "skip s"] take_char_def
        by (auto simp: Let_def other_def with_kind_def take_char_def skip_def split: if_splits option.splits list.splits)
      then show ?thesis using l 2 by linarith
    next
      case 3
      show ?thesis
      proof (cases "hd (skip s) = CHR 0x22")
        case True
        with j obtain w where "string_value (skip s) = Some (w, t)" by (auto simp: Let_def with_kind_def split: if_splits option.splits)
        then show ?thesis using string_value_shorter l(1) by fastforce
      next
        case False
        have "length t \<le> length b"
          using j c d o2 3 False l(7) elements_shorter [OF Suc, of "length f" f t]
          by (auto simp: Let_def other_def split: if_splits option.splits)
        then show ?thesis using l 3 by linarith
      qed
    next
      case 4
      have "length t < length b" using 4(3) by (rule literal_value_shorter)
      then show ?thesis using l by linarith
    next
      case 5
      show ?thesis
      proof (cases "hd (skip s) = CHR 0x22")
        case True
        with j obtain w where "string_value (skip s) = Some (w, t)" by (auto simp: Let_def with_kind_def split: if_splits option.splits)
        then show ?thesis using string_value_shorter l(1) by fastforce
      next
        case False
        then have "literal_value b = Some t \<or> (\<exists>w. number_value b = Some (w, t))"
          using j c d 5 by (auto simp: Let_def with_kind_def split: if_splits option.splits)
        then have "length t < length b" using number_value_shorter literal_value_shorter by blast
        then show ?thesis using l by linarith
      qed
    qed
  qed
qed (simp add: consumes_def)

lemma members_fuel:
  assumes "consumes val"
  shows "length s \<le> m \<Longrightarrow> length s \<le> n \<Longrightarrow> members val m s = members val n s"
proof (induction m arbitrary: s n)
  case 0
  have "string_value [] = None" by (simp add: string_value_def take_char_def)
  with 0 show ?case by (cases n) auto
next
  case (Suc m)
  have nil: "string_value [] = None" by (simp add: string_value_def take_char_def)
  show ?case
  proof (cases n)
    case 0
    with Suc.prems nil show ?thesis by simp
  next
    case (Suc k)
    have "members val m d = members val k d"
      if "string_value s = Some (x, a)" "take_char (CHR '':'') a = (True, b)" "val b = Some (v, c)" "take_char (CHR '','') c = (more, d)" for x a b v c more d
    proof -
      have "length d < length s"
        using string_value_shorter [OF that(1)] take_char_shorter(1) [OF that(2)] take_char_shorter(2) [OF that(4)] that(3) assms
        unfolding consumes_def by fastforce
      then show ?thesis using Suc.IH [of d k] Suc.prems Suc by simp
    qed
    then show ?thesis unfolding Suc by (auto simp: Let_def split: option.splits prod.splits)
  qed
qed

lemma consumes_Nil: "consumes val \<Longrightarrow> val [] = None"
  unfolding consumes_def by (metis list.size(3) not_less_zero option.exhaust surj_pair)

lemma elements_fuel:
  assumes "consumes val"
  shows "length s \<le> m \<Longrightarrow> length s \<le> n \<Longrightarrow> elements val m s = elements val n s"
proof (induction m arbitrary: s n)
  case 0
  have "val [] = None" by (rule consumes_Nil [OF assms])
  with 0 show ?case by (cases n) auto
next
  case (Suc m)
  have nil: "val [] = None" by (rule consumes_Nil [OF assms])
  show ?case
  proof (cases n)
    case 0
    with Suc.prems nil show ?thesis by simp
  next
    case (Suc k)
    have "elements val m d = elements val k d" if "val s = Some (v, c)" "take_char (CHR '','') c = (more, d)" for v c more d
    proof -
      have "length d < length s" using take_char_shorter(2) [OF that(2)] that(1) assms unfolding consumes_def by fastforce
      then show ?thesis using Suc.IH [of d k] Suc.prems Suc by simp
    qed
    then show ?thesis unfolding Suc by (auto simp: Let_def split: option.splits prod.splits)
  qed
qed

lemma fields_step:
  assumes "string_value s = Some (x, a)" "take_char (CHR '':'') a = (True, b)" "json_value k b = Some (v, c)" "take_char (CHR '','') c = (more, d)"
  shows "length d < length s"
  using string_value_shorter [OF assms(1)] take_char_shorter(1) [OF assms(2)] take_char_shorter(2) [OF assms(4)] assms(3) consumes_value [of k]
  unfolding consumes_def by fastforce

lemma fields_enough:
  "length s \<le> m \<Longrightarrow> length s \<le> n \<Longrightarrow> fields m acc s = fields n acc s"
proof (induction m arbitrary: s n acc)
  case 0
  have "string_value [] = None" by (simp add: string_value_def take_char_def)
  with 0 show ?case by (cases n) auto
next
  case (Suc m)
  have nil: "string_value [] = None" by (simp add: string_value_def take_char_def)
  show ?case
  proof (cases n)
    case 0
    with Suc.prems nil show ?thesis by simp
  next
    case (Suc k)
    have "fields m acc d = fields k acc d"
      if "string_value s = Some (x, a)" "take_char (CHR '':'') a = (True, b)" "json_value max_depth b = Some (v, c)" "take_char (CHR '','') c = (more, d)"
      for acc x a b v c more d
      using Suc.IH [of d k] fields_step [OF that] Suc.prems Suc by simp
    then show ?thesis unfolding Suc by (auto simp: Let_def split: option.splits prod.splits)
  qed
qed

section \<open>What is written reads back\<close>

definition follows :: "string \<Rightarrow> bool" where
  "follows r \<longleftrightarrow> r \<noteq> [] \<and> hd r \<in> {CHR '','', CHR ''}'', CHR '']''}"

definition reads :: "nat \<Rightarrow> string \<Rightarrow> scalar \<Rightarrow> bool" where
  "reads n t v \<longleftrightarrow> t \<noteq> [] \<and> \<not> blank (hd t) \<and> hd t \<noteq> CHR '']'' \<and> (\<forall>r. follows r \<longrightarrow> json_value n (t @ r) = Some (v, r))"

lemma readsD: "reads n t v \<Longrightarrow> follows r \<Longrightarrow> json_value n (t @ r) = Some (v, r)"
  by (simp add: reads_def)

lemma reads_quote: "reads (Suc n) (quote v) (SText v)"
proof -
  have "quote v = CHR 0x22 # tl (quote v)" by (simp add: quote_def)
  then have q: "hd (quote v @ r) = CHR 0x22" "quote v @ r \<noteq> []" "skip (quote v @ r) = quote v @ r" for r
    by (simp_all add: quote_def)
  show ?thesis
    unfolding reads_def by (simp add: q Let_def with_kind_def string_value_quote) (simp add: quote_def)
qed

lemma no_literal: "s \<noteq> [] \<Longrightarrow> hd s \<notin> {CHR ''t'', CHR ''f'', CHR ''n''} \<Longrightarrow> literal_value s = None"
  by (cases s) (auto simp: literal_value_def starts_with_def)

lemma nat_str_head: "0 < n \<Longrightarrow> hd (nat_str n) \<noteq> CHR ''0''"
proof (induction n rule: nat_str.induct)
  case (1 n)
  show ?case
  proof (cases "n < 10")
    case True
    have "(of_char (char_of (48 + n)) :: nat) \<noteq> of_char (CHR ''0'')" using True 1 by simp
    then have "char_of (48 + n) \<noteq> CHR ''0''" by metis
    then show ?thesis using True by (simp add: nat_str.simps [of n])
  next
    case False
    then show ?thesis using 1 by (simp add: nat_str.simps [of n] hd_append)
  qed
qed

lemma nat_str_digits: "c \<in> set (nat_str n) \<Longrightarrow> digit c"
  using nat_str_digit [of c n] by (simp add: digit_def code_def)

lemma integer_part_nat: "follows r \<Longrightarrow> integer_part (nat_str n @ r) = Some r"
proof -
  assume r: "follows r"
  have nd: "\<not> digit (hd r)" using r by (auto simp: follows_def digit_def code_def)
  obtain c t where c: "nat_str n = c # t" by (cases "nat_str n") auto
  have "dropWhile digit (nat_str n @ r) = dropWhile digit r" by (rule dropWhile_append2) (rule nat_str_digits)
  also have "\<dots> = r" using nd r by (cases r) (auto simp: follows_def)
  finally have d: "dropWhile digit (nat_str n @ r) = r" .
  show ?thesis
  proof (cases "n = 0")
    case True
    have "nat_str 0 = [CHR ''0'']" by code_simp
    with True show ?thesis by (simp add: integer_part_def)
  next
    case False
    then have "c \<noteq> CHR ''0''" using nat_str_head [of n] c by simp
    moreover have "digit c" using nat_str_digits [of c n] c by simp
    ultimately show ?thesis using d c by (simp add: integer_part_def)
  qed
qed

lemma rest_parts: "follows r \<Longrightarrow> fraction_part r = Some r \<and> exponent_part r = Some r"
  by (cases r) (auto simp: follows_def fraction_part_def exponent_part_def)

lemma nat_str_first: "digit (hd (nat_str n))"
  using nat_str_digits [of "hd (nat_str n)" n] by simp

lemma num_str_first: "digit (hd (num_str i)) \<or> hd (num_str i) = CHR ''-''"
  by (simp add: num_str_def nat_str_first)

lemma number_value_num: "follows r \<Longrightarrow> number_value (num_str i @ r) = Some (num_str i, r)"
proof -
  assume r: "follows r"
  let ?s = "num_str i @ r"
  have "\<not> blank (hd (num_str i))" using num_str_first [of i] by (auto simp: blank_def digit_def code_def)
  then have s: "skip ?s = ?s" by (cases "num_str i") (auto simp: num_str_not_Nil)
  have m: "\<not> digit (CHR ''-'')" by (simp add: digit_def code_def)
  have "(if ?s \<noteq> [] \<and> hd ?s = CHR ''-'' then tl ?s else ?s) = nat_str (nat \<bar>i\<bar>) @ r"
    using m nat_str_first [of "nat i"] by (auto simp: num_str_def hd_append)
  then show ?thesis
    unfolding number_value_def Let_def s using integer_part_nat [OF r] rest_parts [OF r] by simp
qed

lemma reads_number: "reads (Suc n) (num_str i) (SNumber (num_str i))"
proof -
  have f: "hd (num_str i) \<notin> {CHR 0x22, CHR ''{'', CHR ''['', CHR ''t'', CHR ''f'', CHR ''n'', CHR '']''}" "\<not> blank (hd (num_str i))"
    using num_str_first [of i] by (auto simp: blank_def digit_def code_def)
  obtain c t where c: "num_str i = c # t" by (cases "num_str i") (auto simp: num_str_not_Nil)
  have "json_value (Suc n) (num_str i @ r) = Some (SNumber (num_str i), r)" if "follows r" for r
  proof -
    have "literal_value (num_str i @ r) = None" by (rule no_literal) (use f c in auto)
    then show ?thesis
      using f c number_value_num [OF that, of i] by (simp add: Let_def take_char_miss with_kind_def)
  qed
  then show ?thesis using f c unfolding reads_def by auto
qed

definition bool_text :: "bool \<Rightarrow> string" where
  "bool_text b = (if b then ''true'' else ''false'')"

lemma reads_bool: "reads (Suc n) (bool_text b) SOther"
  by (auto simp: reads_def bool_text_def Let_def take_char_miss blank_def literal_value_def starts_with_def)

definition member_text :: "string \<times> string \<Rightarrow> string" where
  "member_text m = quote (fst m) @ CHR '':'' # snd m"

definition object_text :: "(string \<times> string) list \<Rightarrow> string" where
  "object_text kvs = CHR ''{'' # qjoin (CHR '','') (map member_text kvs) @ ''}''"

definition array_text :: "string list \<Rightarrow> string" where
  "array_text ts = CHR ''['' # qjoin (CHR '','') ts @ '']''"

lemma member_reads:
  assumes "reads n t v" "follows r"
  shows "string_value (member_text (k, t) @ r) = Some (k, CHR '':'' # t @ r)"
    "take_char (CHR '':'') (CHR '':'' # t @ r) = (True, t @ r)" "json_value n (t @ r) = Some (v, r)"
  using assms by (simp_all add: member_text_def string_value_quote readsD)

lemma follows_simps [simp]: "follows (CHR '','' # r)" "follows (CHR ''}'' # r)" "follows (CHR '']'' # r)"
  by (simp_all add: follows_def)

lemma members_reads:
  "kvs \<noteq> [] \<Longrightarrow> \<forall>m \<in> set kvs. \<exists>v. reads n (snd m) v \<Longrightarrow> length kvs \<le> fuel \<Longrightarrow>
   members (json_value n) fuel (qjoin (CHR '','') (map member_text kvs) @ CHR ''}'' # r) = Some r"
proof (induction kvs arbitrary: fuel)
  case (Cons m kvs)
  obtain k t where m: "m = (k, t)" by (cases m)
  obtain g where g: "fuel = Suc g" using Cons.prems(3) by (cases fuel) auto
  obtain v where v: "reads n t v" using Cons.prems(2) m by auto
  show ?case
  proof (cases kvs)
    case Nil
    then show ?thesis using member_reads [OF v, where r = "CHR ''}'' # r"] by (simp add: m g take_char_miss Let_def)
  next
    case (Cons m' kvs')
    let ?rest = "qjoin (CHR '','') (map member_text kvs) @ CHR ''}'' # r"
    have "members (json_value n) g ?rest = Some r" using Cons.IH [of g] Cons.prems g Cons by simp
    moreover have "qjoin (CHR '','') (map member_text (m # kvs)) @ CHR ''}'' # r = member_text (k, t) @ CHR '','' # ?rest"
      using Cons m by simp
    ultimately show ?thesis using member_reads [OF v, where r = "CHR '','' # ?rest"] unfolding g by (simp add: Let_def)
  qed
qed simp

lemma elements_reads:
  "ts \<noteq> [] \<Longrightarrow> \<forall>t \<in> set ts. \<exists>v. reads n t v \<Longrightarrow> length ts \<le> fuel \<Longrightarrow>
   elements (json_value n) fuel (qjoin (CHR '','') ts @ CHR '']'' # r) = Some r"
proof (induction ts arbitrary: fuel)
  case (Cons t ts)
  obtain g where g: "fuel = Suc g" using Cons.prems(3) by (cases fuel) auto
  obtain v where v: "reads n t v" using Cons.prems(2) by auto
  show ?case
  proof (cases ts)
    case Nil
    then show ?thesis using readsD [OF v, of "CHR '']'' # r"] by (simp add: g take_char_miss Let_def)
  next
    case (Cons t' ts')
    let ?rest = "qjoin (CHR '','') ts @ CHR '']'' # r"
    have "elements (json_value n) g ?rest = Some r" using Cons.IH [of g] Cons.prems g Cons by simp
    moreover have "qjoin (CHR '','') (t # ts) @ CHR '']'' # r = t @ CHR '','' # ?rest" using Cons by simp
    ultimately show ?thesis using readsD [OF v, of "CHR '','' # ?rest"] unfolding g by (simp add: Let_def)
  qed
qed simp

lemma length_qjoin: "ts \<noteq> [] \<Longrightarrow> length ts \<le> Suc (length (qjoin c ts))"
  by (induction c ts rule: qjoin.induct) auto

lemma reads_array: "\<forall>t \<in> set ts. \<exists>v. reads n t v \<Longrightarrow> reads (Suc n) (array_text ts) SOther"
proof -
  assume ts: "\<forall>t \<in> set ts. \<exists>v. reads n t v"
  have "json_value (Suc n) (array_text ts @ r) = Some (SOther, r)" for r
  proof (cases ts)
    case Nil
    then show ?thesis by (simp add: array_text_def Let_def take_char_miss other_def)
  next
    case (Cons t us)
    let ?s = "qjoin (CHR '','') ts @ CHR '']'' # r"
    have t: "t \<noteq> []" "\<not> blank (hd t)" "hd t \<noteq> CHR '']''" using ts Cons by (auto simp: reads_def)
    obtain c u where c: "t = c # u" using t(1) by (cases t) auto
    then obtain w where w: "?s = c # w" using Cons by (cases us) auto
    have "length ts \<le> length ?s" using length_qjoin [of ts "CHR '',''"] Cons by simp
    then have "elements (json_value n) (length ?s) ?s = Some r" using elements_reads [OF _ ts] Cons by blast
    then show ?thesis using t c w by (simp add: array_text_def Let_def take_char_miss other_def)
  qed
  then show ?thesis by (simp add: reads_def array_text_def)
qed

lemma reads_object: "kvs \<noteq> [] \<Longrightarrow> \<forall>m \<in> set kvs. \<exists>v. reads n (snd m) v \<Longrightarrow> reads (Suc n) (object_text kvs) SOther"
proof -
  assume kvs: "kvs \<noteq> []" "\<forall>m \<in> set kvs. \<exists>v. reads n (snd m) v"
  have "json_value (Suc n) (object_text kvs @ r) = Some (SOther, r)" for r
  proof -
    let ?s = "qjoin (CHR '','') (map member_text kvs) @ CHR ''}'' # r"
    obtain w where w: "?s = CHR 0x22 # w" using kvs(1) by (cases kvs; cases "tl kvs") (auto simp: member_text_def quote_def)
    have "length kvs \<le> length ?s" using length_qjoin [of "map member_text kvs" "CHR '',''"] kvs(1) by simp
    then have "members (json_value n) (length ?s) ?s = Some r" using members_reads [OF kvs] by blast
    then show ?thesis using w by (simp add: object_text_def Let_def take_char_miss other_def)
  qed
  then show ?thesis by (simp add: reads_def object_text_def blank_def)
qed

lemma fields_reads:
  "es \<noteq> [] \<Longrightarrow> \<forall>(k, t, v) \<in> set es. reads max_depth t v \<Longrightarrow> length es \<le> fuel \<Longrightarrow> distinct (map fst es) \<Longrightarrow>
   fst ` set acc \<inter> fst ` set es = {} \<Longrightarrow>
   fields fuel acc (qjoin (CHR '','') (map (\<lambda>(k, t, v). member_text (k, t)) es) @ CHR ''}'' # r)
     = Some (acc @ map (\<lambda>(k, t, v). (k, v)) es, r)"
proof (induction es arbitrary: fuel acc)
  case (Cons e es)
  obtain k t v where e: "e = (k, t, v)" by (cases e)
  obtain g where g: "fuel = Suc g" using Cons.prems(3) by (cases fuel) auto
  have v: "reads max_depth t v" using Cons.prems(2) e by simp
  have k: "k \<notin> fst ` set acc" using Cons.prems(5) e by auto
  show ?case
  proof (cases es)
    case Nil
    then show ?thesis using member_reads [OF v, where r = "CHR ''}'' # r"] k by (simp add: e g take_char_miss Let_def)
  next
    case (Cons e' es')
    let ?rest = "qjoin (CHR '','') (map (\<lambda>(k, t, v). member_text (k, t)) es) @ CHR ''}'' # r"
    have "fst ` set (acc @ [(k, v)]) \<inter> fst ` set es = {}" using Cons.prems(4,5) e by auto
    then have "fields g (acc @ [(k, v)]) ?rest = Some ((acc @ [(k, v)]) @ map (\<lambda>(k, t, v). (k, v)) es, r)"
      using Cons.IH [of g "acc @ [(k, v)]"] Cons.prems g Cons by simp
    moreover have "qjoin (CHR '','') (map (\<lambda>(k, t, v). member_text (k, t)) (e # es)) @ CHR ''}'' # r = member_text (k, t) @ CHR '','' # ?rest"
      using Cons e by simp
    ultimately show ?thesis using member_reads [OF v, where r = "CHR '','' # ?rest"] k unfolding g e by (simp add: Let_def)
  qed
qed simp

lemma object_reads:
  assumes "es \<noteq> []" "\<forall>(k, t, v) \<in> set es. reads max_depth t v" "distinct (map fst es)"
    "ok (object_text (map (\<lambda>(k, t, v). (k, t)) es))"
  shows "json_object ok (object_text (map (\<lambda>(k, t, v). (k, t)) es)) = Some (map (\<lambda>(k, t, v). (k, v)) es)"
proof -
  have m: "map member_text (map (\<lambda>(k, t, v). (k, t)) es) = map (\<lambda>(k, t, v). member_text (k, t)) es" by (simp add: split_beta)
  let ?s = "qjoin (CHR '','') (map (\<lambda>(k, t, v). member_text (k, t)) es) @ CHR ''}'' # []"
  obtain w where w: "?s = CHR 0x22 # w" using assms(1) by (cases es; cases "tl es") (auto simp: member_text_def quote_def split_beta)
  have "length es \<le> length ?s" using length_qjoin [of "map (\<lambda>(k, t, v). member_text (k, t)) es" "CHR '',''"] assms(1) by simp
  then have "fields (length ?s) [] ?s = Some (map (\<lambda>(k, t, v). (k, v)) es, [])" using fields_reads [OF assms(1,2) _ assms(3), of "length ?s" "[]" "[]"] by simp
  then show ?thesis using assms(4) w unfolding json_object_def object_text_def m by (simp add: Let_def take_char_miss)
qed

text \<open>the reader ends and its loops never run out of fuel. Every value read uses up at least one byte
  of the document, so that any fuel beyond the number of remaining bytes gives the same result: a
  refused document is refused by the grammar, never by the bound of a loop.\<close>

theorem parser_fuel:
  assumes "length s \<le> n"
  shows "fields n acc s = fields (length s) acc s \<and> members (json_value k) n s = members (json_value k) (length s) s
    \<and> elements (json_value k) n s = elements (json_value k) (length s) s"
  using assms fields_enough [of s n "length s" acc] members_fuel [OF consumes_value, of s n "length s" k]
    elements_fuel [OF consumes_value, of s n "length s" k] by simp

theorem parser_fuel_witness: "elements (json_value 1) 9 ''1]'' = elements (json_value 1) (length ''1]'') ''1]''"
  by (rule conjunct2 [OF conjunct2 [OF parser_fuel]]) simp

end
