(* ===== verification/Monitor.thy ===== *)
theory Monitor
  imports MonitorJson "HOL-Library.Word"
begin

text \<open>
  The monitor of a container (\<open>src/src/Monitoring/Monitor.cpp\<close>): a publisher scans the sections of a
  container and writes a snapshot of their state with a revision, readers validate the snapshot,
  and a subscription delivers the changes. Counters and fingerprints are 64-bit words, which wrap
  around. The record \<open>world\<close> is what the file system, the clock and the packages answer at one time;
  an operation during which they may change takes two of them.
\<close>

unbundle bit_operations_syntax

section \<open>State\<close>

record area_state =
  akey :: string
  afiles :: "64 word"
  adirectories :: "64 word"
  abytes :: "64 word"
  fingerprint :: "64 word"
  last_modified :: int
  aavailable :: bool
  acomplete :: bool

record mstate =
  schema_version :: nat
  instance_text :: string
  container_text :: string
  root :: string
  revision_no :: "64 word"
  observed_at :: int
  available :: bool
  complete :: bool
  daemon_running :: bool
  merror :: string
  areas_of :: "area_state list"
  changed_areas :: "string list"

definition initial_area :: "string \<Rightarrow> area_state" where
  "initial_area key = \<lparr>akey = key, afiles = 0, adirectories = 0, abytes = 0, fingerprint = 0, last_modified = 0,
     aavailable = False, acomplete = True\<rparr>"

definition initial_state :: mstate where
  "initial_state = \<lparr>schema_version = 1, instance_text = [], container_text = [], root = [], revision_no = 0, observed_at = 0,
     available = False, complete = True, daemon_running = False, merror = [], areas_of = [], changed_areas = []\<rparr>"

definition areas :: "(string \<times> string) list" where
  "areas = [(''files'', ''Files''), (''photos'', ''Photos''), (''asset-library'', ''Asset Library''),
     (''generation-history'', ''Generation History''), (''models'', ''Models''), (''thinking-space'', ''Thinking Space''),
     (''forked'', ''Forked''), (''published'', ''Published''), (''deleted'', ''Deleted'')]"

text \<open>The tuples that go through the serializer.\<close>

type_synonym area_wire = "string \<times> 64 word \<times> 64 word \<times> 64 word \<times> 64 word \<times> int \<times> bool \<times> bool"
type_synonym wire = "nat \<times> string \<times> string \<times> string \<times> 64 word \<times> int \<times> bool \<times> bool \<times> bool \<times> string \<times> area_wire list \<times> string list"

definition area_to_wire :: "area_state \<Rightarrow> area_wire" where
  "area_to_wire s = (akey s, afiles s, adirectories s, abytes s, fingerprint s, last_modified s, aavailable s, acomplete s)"

definition to_wire :: "mstate \<Rightarrow> wire" where
  "to_wire v = (schema_version v, instance_text v, container_text v, root v, revision_no v, observed_at v, available v, complete v,
     daemon_running v, merror v, map area_to_wire (areas_of v), changed_areas v)"

fun area_of_wire :: "area_wire \<Rightarrow> area_state" where
  "area_of_wire (k, f, d, b, h, m, a, c) = \<lparr>akey = k, afiles = f, adirectories = d, abytes = b, fingerprint = h, last_modified = m,
     aavailable = a, acomplete = c\<rparr>"

fun of_wire :: "wire \<Rightarrow> mstate" where
  "of_wire (n, i, c, r, v, t, a, k, d, e, ss, cs) = \<lparr>schema_version = n, instance_text = i, container_text = c, root = r, revision_no = v,
     observed_at = t, available = a, complete = k, daemon_running = d, merror = e, areas_of = map area_of_wire ss, changed_areas = cs\<rparr>"

section \<open>The world\<close>

datatype fkind = Link | Folder | Regular | Special

datatype entry_kind = EntryFile | EntryFolder | EntryOther

datatype tree_entry = Entry (erelative: string) (esize: "64 word") (emodified: int) (epermissions: nat) (ekind: entry_kind)
  (eloaded: bool) (echildren: "tree_entry list")

record world =
  status_of :: "string \<Rightarrow> fkind option"
  content_of :: "string \<Rightarrow> string option"
  package_dir :: "string \<Rightarrow> bool"
  disk_owner :: "string \<Rightarrow> bool"
  inode_of :: "string \<Rightarrow> (nat \<times> nat) option"
  scan_tree :: "string \<Rightarrow> nat \<Rightarrow> nat \<Rightarrow> tree_entry option"
  catalog_entry :: "string \<Rightarrow> int + tree_entry"
  utf8_valid :: "string \<Rightarrow> bool"
  encode :: "wire \<Rightarrow> string option"
  decode :: "string \<Rightarrow> wire option"
  clock :: int
  new_instance :: string
  make_directory :: "string \<Rightarrow> bool"
  lock_owner :: "string \<Rightarrow> bool"
  may_write :: bool

type_synonym 'a outcome = "string + 'a"

definition below :: "string \<Rightarrow> string \<Rightarrow> string" where
  "below dir name = (if ends_with ''/'' dir then dir @ name else dir @ CHR ''/'' # name)"

definition uuid :: "string \<Rightarrow> bool" where
  "uuid s \<longleftrightarrow> length s = 36
     \<and> list_all (\<lambda>(i, c). if i = 8 \<or> i = 13 \<or> i = 18 \<or> i = 23 then c = CHR ''-'' else hex_digit c \<noteq> None) (enumerate 0 s)
     \<and> list_ex (\<lambda>(i, c). i \<noteq> 8 \<and> i \<noteq> 13 \<and> i \<noteq> 18 \<and> i \<noteq> 23 \<and> c \<noteq> CHR ''0'') (enumerate 0 s)"

text \<open>The components of an absolute path in normal form; a final separator leaves an empty one.\<close>

definition components :: "string \<Rightarrow> string list" where
  "components p = (if tl p = [] then [] else qsplit (CHR ''/'') (tl p))"

definition normal :: "string \<Rightarrow> bool" where
  "normal p \<longleftrightarrow> starts_with ''/'' p \<and> CHR 0x00 \<notin> set p
     \<and> list_all (\<lambda>c. c \<noteq> [] \<and> c \<noteq> ''.'' \<and> c \<noteq> ''..'') (butlast (components p))
     \<and> (components p = [] \<or> (last (components p) \<noteq> ''.'' \<and> last (components p) \<noteq> ''..''))"

definition prefix_path :: "string \<Rightarrow> nat \<Rightarrow> string" where
  "prefix_path p n = CHR ''/'' # qjoin (CHR ''/'') (take n (components p))"

definition direct :: "world \<Rightarrow> string \<Rightarrow> bool \<Rightarrow> bool" where
  "direct w p directory \<longleftrightarrow> normal p
     \<and> list_all (\<lambda>n. status_of w (prefix_path p n) \<noteq> None \<and> status_of w (prefix_path p n) \<noteq> Some Link
          \<and> (if n < length (components p) then status_of w (prefix_path p n) = Some Folder
             else status_of w (prefix_path p n) = Some (if directory then Folder else Regular))) [1..<Suc (length (components p))]"

definition file_bytes :: "world \<Rightarrow> string \<Rightarrow> nat \<Rightarrow> string outcome" where
  "file_bytes w file limit =
     (if \<not> direct w file False then Inl ''missing''
      else (case content_of w file of
              None \<Rightarrow> Inl ''limit''
            | Some data \<Rightarrow> if length data > limit then Inl ''limit'' else Inr data))"

definition drive_identity :: "world \<Rightarrow> string \<Rightarrow> string \<Rightarrow> string outcome" where
  "drive_identity w r expected =
     (if \<not> direct w r True \<or> (\<not> package_dir w r \<and> \<not> disk_owner w r) then Inl ''incomplete''
      else (case file_bytes w (below r ''.society-drive.json'') 16384 of
              Inl e \<Rightarrow> Inl e
            | Inr data \<Rightarrow>
                (case json_object (utf8_valid w) data of
                   None \<Rightarrow> Inl ''manifest''
                 | Some m \<Rightarrow>
                     if \<not> field m ''type'' SText ''SocietyDrive'' \<or> \<not> field m ''schemaVersion'' SNumber ''1''
                        \<or> \<not> field m ''identifier'' SText [] then Inl ''manifest''
                     else let i = scalar_text (the (map_of m ''identifier'')) in
                     if \<not> uuid i \<or> (expected \<noteq> [] \<and> expected \<noteq> i) then Inl ''mismatch'' else Inr i)))"

definition state_path :: "string \<Rightarrow> string" where
  "state_path r = below r ''.society-runtime/monitor/v1/state.cbor''"

definition state_directory :: "string \<Rightarrow> string" where
  "state_directory r = below r ''.society-runtime/monitor/v1''"

definition write_state :: "mstate \<Rightarrow> world \<Rightarrow> unit outcome \<times> world" where
  "write_state v w =
     (case encode w (to_wire v) of
        None \<Rightarrow> (Inl ''encode'', w)
      | Some data \<Rightarrow>
          if \<not> direct w (state_directory (root v)) True then (Inl ''redirected'', w)
          else if status_of w (state_path (root v)) \<noteq> None \<and> \<not> direct w (state_path (root v)) False then (Inl ''redirected'', w)
          else if \<not> may_write w then (Inl ''write'', w)
          else (Inr (), w\<lparr>content_of := (content_of w)(state_path (root v) \<mapsto> data),
                          status_of := (status_of w)(state_path (root v) \<mapsto> Regular)\<rparr>))"

section \<open>Scanning\<close>

definition hash_byte :: "64 word \<Rightarrow> char \<Rightarrow> 64 word" where
  "hash_byte h c = (h XOR of_nat (code c)) * 1099511628211"

definition hash_text :: "string \<Rightarrow> 64 word \<Rightarrow> 64 word" where
  "hash_text s h = (foldl hash_byte h s XOR 0xFF) * 1099511628211"

definition hash_basis :: "64 word" where
  "hash_basis = 14695981039346656037"

text \<open>\<open>duration_cast\<close> truncates toward zero.\<close>

definition to_ms :: "int \<Rightarrow> int" where
  "to_ms n = (if 0 \<le> n then n div 1000000 else - ((- n) div 1000000))"

definition hash_entry :: "tree_entry \<Rightarrow> area_state \<Rightarrow> area_state" where
  "hash_entry e s = s\<lparr>
     fingerprint := hash_text (nat_str (epermissions e)) (hash_text (num_str (emodified e))
        (hash_text (nat_str (unat (esize e))) (hash_text (erelative e) (fingerprint s)))),
     last_modified := max (last_modified s) (to_ms (emodified e))\<rparr>"

definition count_entry :: "tree_entry \<Rightarrow> area_state \<Rightarrow> area_state" where
  "count_entry e s =
     (if ekind e = EntryFile then s\<lparr>afiles := afiles s + 1, abytes := abytes s + esize e\<rparr>
      else s\<lparr>adirectories := (if erelative e \<noteq> ''.'' then adirectories s + 1 else adirectories s),
             acomplete := (acomplete s \<and> eloaded e)\<rparr>)"

fun summarize :: "tree_entry \<Rightarrow> area_state \<Rightarrow> nat \<times> area_state"
and summarize_all :: "tree_entry list \<Rightarrow> area_state \<Rightarrow> nat \<times> area_state" where
  "summarize (Entry rel n modified perm kind loaded es) s =
     (let s = hash_entry (Entry rel n modified perm kind loaded es) s;
          s = count_entry (Entry rel n modified perm kind loaded es) s;
          (k, s) = summarize_all es s in (Suc k, s))"
| "summarize_all [] s = (0, s)"
| "summarize_all (e # es) s = (let (m, s) = summarize e s; (n, s) = summarize_all es s in (m + n, s))"

record publisher =
  pstate :: mstate
  max_levels :: nat
  max_entries :: nat
  pinned :: "nat \<times> nat"
  prunning :: bool
  pinitial :: bool
  powner :: bool

definition release :: "publisher \<Rightarrow> publisher" where
  "release d = d\<lparr>prunning := False, powner := False\<rparr>"

definition intact_container :: "world \<Rightarrow> publisher \<Rightarrow> bool" where
  "intact_container w d \<longleftrightarrow> inode_of w (root (pstate d)) = Some (pinned d)
     \<and> (\<exists>i. drive_identity w (root (pstate d)) (container_text (pstate d)) = Inr i)"

definition catalog_print :: "world \<Rightarrow> string \<Rightarrow> 64 word" where
  "catalog_print w r = (case catalog_entry w r of
     Inr e \<Rightarrow> fingerprint (snd (summarize e ((initial_area [])\<lparr>fingerprint := hash_basis\<rparr>)))
   | Inl err \<Rightarrow> hash_text (num_str err) hash_basis)"

definition scan_area :: "world \<Rightarrow> nat \<Rightarrow> 64 word \<Rightarrow> string \<Rightarrow> string \<Rightarrow> string \<Rightarrow> nat \<Rightarrow> area_state \<times> nat \<times> bool" where
  "scan_area w levels print r key name remaining =
     (let s = (initial_area key)\<lparr>fingerprint := hash_text (nat_str (unat print)) hash_basis,
                aavailable := direct w (below r name) True\<rparr> in
      if aavailable s \<and> remaining > 0 then
        (case scan_tree w (below r name) levels remaining of
           Some t \<Rightarrow> (let (used, s) = summarize t s in (s, remaining - min remaining used, False))
         | None \<Rightarrow> (s\<lparr>acomplete := False\<rparr>, remaining, True))
      else (s\<lparr>acomplete := False\<rparr>, remaining, False))"

fun scan_areas :: "world \<Rightarrow> publisher \<Rightarrow> 64 word \<Rightarrow> (string \<times> string) list \<Rightarrow> nat \<Rightarrow> mstate \<Rightarrow> mstate" where
  "scan_areas w d print [] remaining next = next"
| "scan_areas w d print ((key, name) # as) remaining next =
     (let (s, left, failed) = scan_area w (max_levels d) print (root next) key name remaining in
      scan_areas w d print as left
        (next\<lparr>complete := (complete next \<and> acomplete s),
              merror := (if failed then ''An area could not be scanned: '' @ key else merror next),
              changed_areas := (if find (\<lambda>a. akey a = key) (areas_of (pstate d)) = Some s then changed_areas next
                                else changed_areas next @ [key]),
              areas_of := areas_of next @ [s]\<rparr>))"

definition next_state :: "world \<Rightarrow> publisher \<Rightarrow> mstate" where
  "next_state w d =
     (let c = pstate d in
      scan_areas w d (catalog_print w (root c)) areas (max_entries d)
        (c\<lparr>areas_of := [], changed_areas := [], merror := [], available := True, complete := True, observed_at := clock w\<rparr>))"

definition state_changed :: "publisher \<Rightarrow> mstate \<Rightarrow> bool" where
  "state_changed d next \<longleftrightarrow> pinitial d \<or> changed_areas next \<noteq> [] \<or> available next \<noteq> available (pstate d) \<or> merror next \<noteq> merror (pstate d)"

text \<open>\<open>poll\<close>: the world \<open>w\<close> is scanned, and the snapshot is written in the world \<open>v\<close> after the scan.\<close>

definition monitor_poll :: "world \<Rightarrow> world \<Rightarrow> publisher \<Rightarrow> bool outcome \<times> publisher \<times> world" where
  "monitor_poll w v d =
     (if \<not> prunning d then (Inl ''not_running'', d, v)
      else if \<not> intact_container w d then
        (Inl ''replaced'', release (d\<lparr>pstate := (pstate d)\<lparr>available := False, daemon_running := False\<rparr>\<rparr>), v)
      else let next = next_state w d in
      if \<not> intact_container v d then (Inl ''changed'', release d, v)
      else let changed = state_changed d next;
               next = (if changed then next\<lparr>revision_no := revision_no next + 1\<rparr> else next);
               (saved, v) = write_state next v in
      (case saved of
         Inl e \<Rightarrow> (Inl e, d, v)
       | Inr u \<Rightarrow> (Inr changed, d\<lparr>pstate := next, pinitial := False\<rparr>, v)))"

definition monitor_stop :: "world \<Rightarrow> publisher \<Rightarrow> publisher \<times> world" where
  "monitor_stop w d =
     (if \<not> prunning d then (d, w)
      else let d = d\<lparr>pstate := (pstate d)\<lparr>daemon_running := False, observed_at := clock w\<rparr>\<rparr>;
               w = (if intact_container w d then snd (write_state (pstate d) w) else w) in (release d, w))"

section \<open>Reading\<close>

definition monitor_read :: "world \<Rightarrow> world \<Rightarrow> string \<Rightarrow> string \<Rightarrow> int \<Rightarrow> mstate outcome" where
  "monitor_read w v r expected stale =
     (case drive_identity w r expected of
        Inl e \<Rightarrow> Inl e
      | Inr i \<Rightarrow>
          (case file_bytes w (state_path r) 1048576 of
             Inl e \<Rightarrow> Inl e
           | Inr data \<Rightarrow>
               (case decode w data of
                  None \<Rightarrow> Inl ''decode''
                | Some x \<Rightarrow>
                    (let s = of_wire x in
                     if schema_version s \<noteq> 1 \<or> root s \<noteq> r \<or> container_text s \<noteq> i \<or> instance_text s = []
                        \<or> length (areas_of s) \<noteq> length areas \<or> observed_at s \<le> 0 then Inl ''schema''
                     else if map akey (areas_of s) \<noteq> map fst areas then Inl ''section''
                     else if inode_of w r \<noteq> inode_of v r \<or> (case drive_identity v r i of Inl e \<Rightarrow> True | Inr j \<Rightarrow> False) then Inl ''changed''
                     else let age = clock v - observed_at s in
                     Inr (if age > stale \<or> age < - stale then s\<lparr>daemon_running := False\<rparr> else s)))))"

definition default_stale :: int where
  "default_stale = 5000"

fun prepare_runtime :: "world \<Rightarrow> string \<Rightarrow> string list \<Rightarrow> bool" where
  "prepare_runtime w dir [] = True"
| "prepare_runtime w dir (n # ns) = (make_directory w (below dir n) \<and> direct w (below dir n) True \<and> prepare_runtime w (below dir n) ns)"

definition monitor_start :: "world \<Rightarrow> string \<Rightarrow> string \<Rightarrow> nat \<Rightarrow> nat \<Rightarrow> publisher \<Rightarrow> unit outcome \<times> publisher" where
  "monitor_start w r expected levels entries d =
     (if prunning d then (Inl ''running'', d)
      else if entries = 0 \<or> levels > 256 then (Inl ''limits'', d)
      else (case drive_identity w r expected of
              Inl e \<Rightarrow> (Inl e, d)
            | Inr i \<Rightarrow>
                (case inode_of w r of
                   None \<Rightarrow> (Inl ''identity'', d)
                 | Some node \<Rightarrow>
                     if \<not> prepare_runtime w r [''.society-runtime'', ''monitor'', ''v1''] then (Inl ''runtime'', d)
                     else let lock = below (state_directory r) ''owner.lock'' in
                     if status_of w lock \<noteq> None \<and> \<not> direct w lock False then (Inl ''lock'', d)
                     else if \<not> lock_owner w lock then (Inl ''owned'', release d)
                     else let d = d\<lparr>powner := True, pinned := node,
                            pstate := initial_state\<lparr>root := r, container_text := i, instance_text := new_instance w\<rparr>\<rparr> in
                     if \<not> intact_container w d then (Inl ''changed'', release d)
                     else let known = (case monitor_read w w r i default_stale of Inl e \<Rightarrow> 0 | Inr s \<Rightarrow> revision_no s) in
                     (Inr (), d\<lparr>pstate := (pstate d)\<lparr>revision_no := known, daemon_running := True\<rparr>, max_levels := levels,
                               max_entries := entries, pinitial := True, prunning := True\<rparr>))))"

record selection =
  sel_root :: string
  sel_container :: string

definition default_selection_file :: "(string \<Rightarrow> string option) \<Rightarrow> string" where
  "default_selection_file getenv =
     (case getenv ''SOCIETY_STORAGE_SETTINGS_PATH'' of
        Some p \<Rightarrow> p
      | None \<Rightarrow>
          (case getenv ''HOME'' of
             None \<Rightarrow> []
           | Some home \<Rightarrow>
               (case getenv ''XDG_CONFIG_HOME'' of
                  Some config \<Rightarrow> below config ''iisacc/Society/storage.json''
                | None \<Rightarrow> below home ''.config/iisacc/Society/storage.json'')))"

definition read_selection :: "world \<Rightarrow> string \<Rightarrow> selection outcome" where
  "read_selection w file =
     (case file_bytes w file 16384 of
        Inl e \<Rightarrow> Inl e
      | Inr data \<Rightarrow>
          (case json_object (utf8_valid w) data of
             None \<Rightarrow> Inl ''selection''
           | Some m \<Rightarrow>
               if \<not> field m ''schemaVersion'' SNumber ''1'' \<or> \<not> field m ''containerId'' SText [] \<or> \<not> field m ''path'' SText []
               then Inl ''selection''
               else let s = \<lparr>sel_root = scalar_text (the (map_of m ''path'')), sel_container = scalar_text (the (map_of m ''containerId''))\<rparr> in
               (case drive_identity w (sel_root s) (sel_container s) of Inl e \<Rightarrow> Inl e | Inr i \<Rightarrow> Inr s)))"

definition area_json :: "area_state \<Rightarrow> string" where
  "area_json s = object_text [(''key'', quote (akey s)), (''files'', nat_str (unat (afiles s))),
     (''directories'', nat_str (unat (adirectories s))), (''bytes'', nat_str (unat (abytes s))),
     (''fingerprint'', quote (nat_str (unat (fingerprint s)))), (''lastModified'', num_str (last_modified s)),
     (''available'', bool_text (aavailable s)), (''complete'', bool_text (acomplete s))]"

definition to_json :: "mstate \<Rightarrow> string" where
  "to_json v = object_text [(''schemaVersion'', nat_str (schema_version v)), (''instanceId'', quote (instance_text v)),
     (''containerId'', quote (container_text v)), (''rootPath'', quote (root v)), (''revision'', quote (nat_str (unat (revision_no v)))),
     (''observedAtMs'', num_str (observed_at v)), (''available'', bool_text (available v)), (''complete'', bool_text (complete v)),
     (''daemonRunning'', bool_text (daemon_running v)), (''error'', quote (merror v)),
     (''sections'', array_text (map area_json (areas_of v))), (''changedSections'', array_text (map quote (changed_areas v)))]"

section \<open>Subscriptions\<close>

text \<open>What the worker hands to its handler after a read, and what it remembers.\<close>

definition observed_value :: "string \<Rightarrow> string \<Rightarrow> mstate outcome \<Rightarrow> mstate" where
  "observed_value r i result = (case result of
     Inr s \<Rightarrow> s
   | Inl e \<Rightarrow> initial_state\<lparr>root := r, container_text := i, merror := e, complete := False\<rparr>)"

definition same_report :: "mstate \<Rightarrow> mstate \<Rightarrow> bool" where
  "same_report a b \<longleftrightarrow> instance_text a = instance_text b \<and> revision_no a = revision_no b \<and> merror a = merror b
     \<and> daemon_running a = daemon_running b \<and> available a = available b"

fun deliveries :: "mstate option \<Rightarrow> mstate list \<Rightarrow> mstate list" where
  "deliveries previous [] = []"
| "deliveries previous (v # vs) =
     (if previous = None \<or> \<not> same_report v (the previous) then v # deliveries (Some v) vs else deliveries previous vs)"

definition subscribe :: "world \<Rightarrow> string \<Rightarrow> string \<Rightarrow> int \<Rightarrow> string outcome" where
  "subscribe w r expected interval =
     (if interval < 10 \<or> interval > 60000 then Inl ''options'' else drive_identity w r expected)"

section \<open>The document of a state reads back\<close>

lemma nat_str_num: "nat_str n = num_str (int n)"
  by (simp add: num_str_def)

lemma reads_nat: "reads (Suc n) (nat_str k) (SNumber (nat_str k))"
  using reads_number [of n "int k"] by (simp add: nat_str_num)

lemmas reads_texts = reads_quote reads_nat reads_number reads_bool

lemma reads_area: "reads (Suc (Suc n)) (area_json s) SOther"
  unfolding area_json_def by (rule reads_object) (auto intro: reads_texts)

definition json_fields :: "mstate \<Rightarrow> (string \<times> scalar) list" where
  "json_fields v = [(''schemaVersion'', SNumber (nat_str (schema_version v))), (''instanceId'', SText (instance_text v)),
     (''containerId'', SText (container_text v)), (''rootPath'', SText (root v)), (''revision'', SText (nat_str (unat (revision_no v)))),
     (''observedAtMs'', SNumber (num_str (observed_at v))), (''available'', SOther), (''complete'', SOther),
     (''daemonRunning'', SOther), (''error'', SText (merror v)), (''sections'', SOther), (''changedSections'', SOther)]"

text \<open>the JSON form of a state reads back. For every state, whatever bytes its texts hold, the monitor's
  own reader accepts the document that \<open>toJson\<close> writes and finds in it each text and number, with
  the nested sections as values of the right shape.\<close>

theorem to_json_reads:
  assumes "utf8_ok (to_json v)"
  shows "json_object utf8_ok (to_json v) = Some (json_fields v)"
proof -
  let ?t = "\<lambda>x. case x of (k, t, w) \<Rightarrow> (k :: string, t :: string)"
  define es where "es = [(''schemaVersion'', nat_str (schema_version v), SNumber (nat_str (schema_version v))),
     (''instanceId'', quote (instance_text v), SText (instance_text v)), (''containerId'', quote (container_text v), SText (container_text v)),
     (''rootPath'', quote (root v), SText (root v)), (''revision'', quote (nat_str (unat (revision_no v))), SText (nat_str (unat (revision_no v)))),
     (''observedAtMs'', num_str (observed_at v), SNumber (num_str (observed_at v))), (''available'', bool_text (available v), SOther),
     (''complete'', bool_text (complete v), SOther), (''daemonRunning'', bool_text (daemon_running v), SOther),
     (''error'', quote (merror v), SText (merror v)), (''sections'', array_text (map area_json (areas_of v)), SOther),
     (''changedSections'', array_text (map quote (changed_areas v)), SOther)]"
  have "max_depth = Suc (Suc (Suc 22))" by (simp add: max_depth_def)
  then obtain n where d: "max_depth = Suc (Suc (Suc n))" by blast
  have "reads max_depth (array_text (map area_json (areas_of v))) SOther" "reads max_depth (array_text (map quote (changed_areas v))) SOther"
    unfolding d using reads_array [of "map area_json (areas_of v)" "Suc (Suc n)"] reads_array [of "map quote (changed_areas v)" "Suc (Suc n)"]
      reads_area [of n] reads_quote [of "Suc n"] by auto
  moreover have "reads max_depth (quote x) (SText x)" "reads max_depth (nat_str n) (SNumber (nat_str n))" "reads max_depth (num_str i) (SNumber (num_str i))"
    "reads max_depth (bool_text b) SOther" for x n i b unfolding d by (rule reads_texts)+
  ultimately have r: "\<forall>(k, t, w) \<in> set es. reads max_depth t w" by (simp add: es_def)
  have j: "to_json v = object_text (map ?t es)" by (simp add: to_json_def es_def)
  have "map (\<lambda>(k, t, w). (k, w)) es = json_fields v" by (simp add: es_def json_fields_def)
  moreover have "json_object utf8_ok (object_text (map ?t es)) = Some (map (\<lambda>(k, t, w). (k, w)) es)"
    by (rule object_reads [OF _ r]) (use assms j in \<open>simp_all add: es_def\<close>)
  ultimately show ?thesis unfolding j by simp
qed

theorem to_json_reads_witness: "json_object (\<lambda>s. True) (to_json initial_state) = Some (json_fields initial_state)"
  by (rule to_json_reads) simp

section \<open>Polling\<close>

lemma entry_key: "akey (hash_entry e s) = akey s" "akey (count_entry e s) = akey s"
  by (simp_all add: hash_entry_def count_entry_def)

lemma summarize_key:
  "akey (snd (summarize e s)) = akey s" "akey (snd (summarize_all es s)) = akey s"
  by (induction e s and es s rule: summarize_summarize_all.induct) (auto simp: entry_key Let_def split: prod.splits)

lemma scan_area_key: "akey (fst (scan_area w levels print r key name remaining)) = key"
proof -
  let ?s = "(initial_area key)\<lparr>fingerprint := hash_text (nat_str (unat print)) hash_basis, aavailable := direct w (below r name) True\<rparr>"
  have "akey ?s = key" by (simp add: initial_area_def)
  then show ?thesis by (simp add: summarize_key(1) scan_area_def Let_def split_beta initial_area_def split: option.splits)
qed

text \<open>The keys of the sections whose state differs from the one published before.\<close>

definition differing :: "publisher \<Rightarrow> area_state list \<Rightarrow> string list" where
  "differing d ss = map akey (filter (\<lambda>s. find (\<lambda>a. akey a = akey s) (areas_of (pstate d)) \<noteq> Some s) ss)"

lemma scan_areas_spec:
  "\<exists>ss. areas_of (scan_areas w d print as remaining next) = areas_of next @ ss \<and> map akey ss = map fst as
     \<and> changed_areas (scan_areas w d print as remaining next) = changed_areas next @ differing d ss
     \<and> complete (scan_areas w d print as remaining next) = (complete next \<and> list_all acomplete ss)
     \<and> revision_no (scan_areas w d print as remaining next) = revision_no next"
proof (induction as arbitrary: remaining "next")
  case (Cons x as)
  obtain key name where x: "x = (key, name)" by (cases x)
  obtain s left failed where s: "scan_area w (max_levels d) print (root next) key name remaining = (s, left, failed)"
    by (cases "scan_area w (max_levels d) print (root next) key name remaining")
  have k: "akey s = key" using scan_area_key [of w "max_levels d" print "root next" key name remaining] s by simp
  let ?n = "next\<lparr>complete := (complete next \<and> acomplete s),
              merror := (if failed then ''An area could not be scanned: '' @ key else merror next),
              changed_areas := (if find (\<lambda>a. akey a = key) (areas_of (pstate d)) = Some s then changed_areas next
                                else changed_areas next @ [key]),
              areas_of := areas_of next @ [s]\<rparr>"
  have e: "scan_areas w d print (x # as) remaining next = scan_areas w d print as left ?n" by (simp add: x s)
  obtain ss where ss: "areas_of (scan_areas w d print as left ?n) = areas_of ?n @ ss" "map akey ss = map fst as"
    "changed_areas (scan_areas w d print as left ?n) = changed_areas ?n @ differing d ss"
    "complete (scan_areas w d print as left ?n) = (complete ?n \<and> list_all acomplete ss)"
    "revision_no (scan_areas w d print as left ?n) = revision_no ?n"
    using Cons.IH [of left ?n] by blast
  show ?case unfolding e
    by (rule exI [of _ "s # ss"]) (use ss k in \<open>simp add: x differing_def\<close>)
qed (simp add: differing_def)

lemma poll_cases:
  assumes "monitor_poll w v d = (Inr c, e, u)"
  shows "prunning d" "intact_container w d" "intact_container v d" "c = state_changed d (next_state w d)"
    "pstate e = (let next = next_state w d in if c then next\<lparr>revision_no := revision_no next + 1\<rparr> else next)"
    "write_state (pstate e) v = (Inr (), u)"
proof -
  let ?n = "next_state w d"
  let ?m = "if state_changed d ?n then ?n\<lparr>revision_no := revision_no ?n + 1\<rparr> else ?n"
  show g: "prunning d" "intact_container w d" "intact_container v d"
    using assms by (auto simp: monitor_poll_def Let_def split: if_splits)
  obtain saved v' where s: "write_state ?m v = (saved, v')" by (cases "write_state ?m v")
  have a: "c = state_changed d ?n" "e = d\<lparr>pstate := ?m, pinitial := False\<rparr>" "u = v'" "saved = Inr ()"
    using assms g s by (auto simp: monitor_poll_def Let_def split: sum.splits)
  show "c = state_changed d ?n" by (rule a(1))
  show "pstate e = (let next = ?n in if c then next\<lparr>revision_no := revision_no next + 1\<rparr> else next)" by (simp add: a(1,2) Let_def)
  show "write_state (pstate e) v = (Inr (), u)" using s a by simp
qed


section \<open>Subscriptions\<close>

lemma same_report_refl [simp]: "same_report a a"
  by (simp add: same_report_def)

lemma same_report_trans: "same_report a b \<Longrightarrow> same_report b c \<Longrightarrow> same_report a c"
  by (simp add: same_report_def)

lemma deliveries_from:
  "deliveries (Some p) vs = ds \<Longrightarrow>
   successively (\<lambda>a b. \<not> same_report b a) (p # ds) \<and> (vs \<noteq> [] \<longrightarrow> same_report (last vs) (last (p # ds)))"
proof (induction vs arbitrary: p ds)
  case (Cons v vs)
  show ?case
  proof (cases "same_report v p")
    case True
    with Cons.prems have d: "deliveries (Some p) vs = ds" by simp
    from Cons.IH [OF d] True d show ?thesis by (cases vs) auto
  next
    case False
    with Cons.prems obtain es where es: "ds = v # es" "deliveries (Some v) vs = es" by auto
    from Cons.IH [OF es(2)] False es show ?thesis by (cases vs) auto
  qed
qed simp

text \<open>A subscriber sees every change once. The first state read is delivered; two deliveries that follow
  each other differ in the instance, the revision, the error or the flags, so that heartbeats are
  not repeated; and what was delivered last reports the same as what was read last.\<close>

theorem deliveries_change:
  assumes "vs \<noteq> []"
  shows "hd (deliveries None vs) = hd vs \<and> successively (\<lambda>a b. \<not> same_report b a) (deliveries None vs)
    \<and> same_report (last vs) (last (deliveries None vs))"
proof -
  obtain v us where v: "vs = v # us" using assms by (cases vs) auto
  from deliveries_from [OF refl, of v us] v show ?thesis by (cases us) auto
qed

theorem deliveries_change_witness:
  "successively (\<lambda>a b. \<not> same_report b a) (deliveries None [initial_state, initial_state, initial_state\<lparr>revision_no := 1\<rparr>])"
  using deliveries_change [of "[initial_state, initial_state, initial_state\<lparr>revision_no := 1\<rparr>]"] by blast

section \<open>A published state is read back\<close>

lemma wire_area [simp]: "area_of_wire (area_to_wire s) = s"
  by (simp add: area_to_wire_def)

lemma wire_state [simp]: "of_wire (to_wire v) = v"
  by (simp add: to_wire_def comp_def)

lemma qsplit_join: "qsplit c (a @ c # b) = qsplit c a @ qsplit c b"
proof (induction a)
  case (Cons x a)
  obtain p ps where "qsplit c a = p # ps" by (cases "qsplit c a") auto
  with Cons show ?case by auto
qed simp

lemma state_path_eq: "state_path r = state_directory r @ ''/state.cbor''"
  by (simp add: state_path_def state_directory_def below_def)

lemma absolute_below: "starts_with ''/'' r \<Longrightarrow> starts_with ''/'' (below r x)"
  by (cases r) (auto simp: below_def starts_with_def)

lemma components_file:
  assumes "starts_with ''/'' d" "tl d \<noteq> []" "CHR ''/'' \<notin> set x"
  shows "components (d @ CHR ''/'' # x) = components d @ [x]"
proof -
  have "tl (d @ CHR ''/'' # x) = tl d @ CHR ''/'' # x" using assms(1) by (cases d) (auto simp: starts_with_def)
  then show ?thesis using assms(2,3) qsplit_join [of "CHR ''/''" "tl d" x] qsplit_noc [of "CHR ''/''" x] by (simp add: components_def)
qed

lemma qjoin_take_length: "length (qjoin c (take n ps)) \<le> length (qjoin c ps)"
proof (induction c ps arbitrary: n rule: qjoin.induct)
  case (3 c p q ps)
  show ?case
  proof (cases n)
    case (Suc m)
    show ?thesis
    proof (cases m)
      case 0
      with Suc show ?thesis by simp
    next
      case (Suc k)
      with \<open>n = Suc m\<close> show ?thesis using "3.IH" [of m] by simp
    qed
  qed simp
next
  case (2 c p)
  then show ?case by (cases n) auto
qed simp

lemma prefix_length: "starts_with ''/'' p \<Longrightarrow> length (prefix_path p n) \<le> max 1 (length p)"
proof -
  assume p: "starts_with ''/'' p"
  show ?thesis
  proof (cases "tl p = []")
    case False
    then have "qjoin (CHR ''/'') (components p) = tl p" by (simp add: components_def)
    then show ?thesis using qjoin_take_length [of "CHR ''/''" n "components p"] p
      by (cases p) (auto simp: prefix_path_def starts_with_def)
  qed (simp add: prefix_path_def components_def)
qed

lemma prefix_full: "starts_with ''/'' p \<Longrightarrow> tl p \<noteq> [] \<Longrightarrow> length (components p) \<le> n \<Longrightarrow> prefix_path p n = p"
  by (cases p) (auto simp: prefix_path_def components_def starts_with_def)

text \<open>A write to a file leaves what is seen of every shorter path.\<close>

lemma direct_cong:
  assumes "\<And>n. n \<in> {1..length (components p)} \<Longrightarrow> status_of u (prefix_path p n) = status_of w (prefix_path p n)"
  shows "direct u p b = direct w p b"
  using assms by (auto simp: direct_def list.pred_set)

lemma write_fields:
  assumes "write_state v w = (Inr (), u)"
  shows "\<exists>data. encode w (to_wire v) = Some data \<and> direct w (state_directory (root v)) True
    \<and> u = w\<lparr>content_of := (content_of w)(state_path (root v) \<mapsto> data), status_of := (status_of w)(state_path (root v) \<mapsto> Regular)\<rparr>"
  using assms by (auto simp: write_state_def split: option.splits if_splits)

lemma below_length: "length r < length (below r x) \<or> (ends_with ''/'' r \<and> x = [])"
  by (auto simp: below_def)

lemma written_shorter:
  assumes "u = w\<lparr>content_of := c, status_of := (status_of w)(q \<mapsto> Regular)\<rparr>" "starts_with ''/'' p" "length p < length q" "1 < length q"
  shows "direct u p b = direct w p b"
proof (rule direct_cong)
  fix n
  have "length (prefix_path p n) < length q" using prefix_length [OF assms(2), of n] assms(3,4) by simp
  then show "status_of u (prefix_path p n) = status_of w (prefix_path p n)" by (auto simp: assms(1))
qed

lemma identity_after_write:
  assumes u: "u = w\<lparr>content_of := (content_of w)(state_path r \<mapsto> data), status_of := (status_of w)(state_path r \<mapsto> Regular)\<rparr>"
    and r: "starts_with ''/'' r"
  shows "drive_identity u r x = drive_identity w r x"
proof -
  have l: "length (state_path r) = length (below r []) + 38" "length (below r ''.society-drive.json'') = length (below r []) + 19"
    "length r \<le> length (below r [])" by (auto simp: state_path_def below_def)
  have "direct u r True = direct w r True" by (rule written_shorter [OF u r]) (use l in linarith)+
  moreover have "direct u (below r ''.society-drive.json'') False = direct w (below r ''.society-drive.json'') False"
    by (rule written_shorter [OF u absolute_below [OF r]]) (use l in linarith)+
  moreover have "below r ''.society-drive.json'' \<noteq> state_path r" using l by (metis add_left_cancel num.distinct(1) numeral_eq_iff semiring_norm(88) nat_neq_iff)
  moreover have "utf8_valid u = utf8_valid w" "package_dir u = package_dir w" "disk_owner u = disk_owner w" by (simp_all add: u)
  moreover from calculation(3) have "content_of u (below r ''.society-drive.json'') = content_of w (below r ''.society-drive.json'')" by (simp add: u)
  ultimately show ?thesis unfolding drive_identity_def file_bytes_def by (simp only:)
qed

lemma state_file_direct:
  assumes "direct w (state_directory r) True" "starts_with ''/'' r"
    "u = w\<lparr>content_of := c, status_of := (status_of w)(state_path r \<mapsto> Regular)\<rparr>"
  shows "direct u (state_path r) False"
proof -
  let ?d = "state_directory r" and ?x = "''state.cbor''"
  have d: "starts_with ''/'' ?d" "tl ?d \<noteq> []" using absolute_below [OF assms(2)] assms(2)
    by (auto simp: state_directory_def below_def starts_with_def) (cases r; simp)+
  have p: "state_path r = ?d @ CHR ''/'' # ?x" by (simp add: state_path_eq)
  have c: "components (state_path r) = components ?d @ [?x]" unfolding p by (rule components_file [OF d]) simp
  have ne: "components ?d \<noteq> []" using d(2) by (simp add: components_def)
  have v1: "last (components ?d) = ''v1''"
  proof -
    have "?d = below r ''.society-runtime/monitor'' @ CHR ''/'' # ''v1''" by (simp add: state_directory_def below_def)
    then show ?thesis using components_file [of "below r ''.society-runtime/monitor''" "''v1''"] absolute_below [OF assms(2), of "''.society-runtime/monitor''"] assms(2)
      by (cases r) (auto simp: below_def starts_with_def)
  qed
  have nd: "normal ?d" using assms(1) by (simp add: direct_def)
  have "list_all (\<lambda>c. c \<noteq> [] \<and> c \<noteq> ''.'' \<and> c \<noteq> ''..'') (components ?d)"
  proof -
    have "list_all (\<lambda>c. c \<noteq> [] \<and> c \<noteq> ''.'' \<and> c \<noteq> ''..'') (butlast (components ?d) @ [last (components ?d)])"
      using nd v1 by (simp add: normal_def)
    then show ?thesis using ne by simp
  qed
  moreover have sw: "starts_with ''/'' (state_path r)" using d(1) unfolding p by (auto simp: starts_with_iff)
  moreover have "CHR 0x00 \<notin> set (state_path r)" using nd unfolding p normal_def by simp
  ultimately have n: "normal (state_path r)" unfolding normal_def c by simp
  have small: "prefix_path (state_path r) n = prefix_path ?d n" if "n \<le> length (components ?d)" for n
    using that by (simp add: prefix_path_def c)
  have full: "prefix_path (state_path r) (Suc (length (components ?d))) = state_path r"
  proof (rule prefix_full [OF sw])
    show "tl (state_path r) \<noteq> []" using c by (auto simp: components_def split: if_splits)
  qed (simp add: c)
  have fol: "status_of u (prefix_path (state_path r) n) = Some Folder" if "1 \<le> n" "n \<le> length (components ?d)" for n
  proof -
    have "status_of w (prefix_path ?d n) = Some Folder"
      using assms(1) that unfolding direct_def list.pred_set by (cases "n < length (components ?d)") auto
    moreover have "length (prefix_path ?d n) < length (state_path r)" using prefix_length [OF d(1), of n] unfolding p by simp
    then have "prefix_path ?d n \<noteq> state_path r" by auto
    ultimately show ?thesis by (simp add: small that assms(3))
  qed
  have reg: "status_of u (prefix_path (state_path r) (Suc (length (components ?d)))) = Some Regular" by (simp add: full assms(3))
  show ?thesis
    unfolding direct_def list.pred_set
  proof (intro conjI n ballI)
    fix k assume "k \<in> set [1..<Suc (length (components (state_path r)))]"
    then consider "k = Suc (length (components ?d))" | "1 \<le> k" "k \<le> length (components ?d)" by (auto simp: c)
    then show "status_of u (prefix_path (state_path r) k) \<noteq> None" "status_of u (prefix_path (state_path r) k) \<noteq> Some Link"
      "if k < length (components (state_path r)) then status_of u (prefix_path (state_path r) k) = Some Folder
       else status_of u (prefix_path (state_path r) k) = Some (if False then Folder else Regular)"
      by (cases; simp add: reg fol c)+
  qed
qed


section \<open>Witnesses\<close>

definition sample_id :: string where
  "sample_id = ''12345678-1234-1234-1234-123456789abc''"

definition sample_manifest :: "(string \<times> string \<times> scalar) list" where
  "sample_manifest = [(''type'', quote ''SocietyDrive'', SText ''SocietyDrive''), (''schemaVersion'', nat_str 1, SNumber (nat_str 1)),
     (''identifier'', quote sample_id, SText sample_id)]"

definition bare_world :: world where
  "bare_world = \<lparr>status_of = (\<lambda>p. if p \<in> {''/c'', ''/c/.society-runtime'', ''/c/.society-runtime/monitor'', ''/c/.society-runtime/monitor/v1''}
       then Some Folder else if p = ''/c/.society-drive.json'' then Some Regular else None),
     content_of = (\<lambda>p. if p = ''/c/.society-drive.json'' then Some (object_text (map (\<lambda>(k, t, v). (k, t)) sample_manifest)) else None),
     package_dir = (\<lambda>p. True), disk_owner = (\<lambda>p. False), inode_of = (\<lambda>p. Some (1, 2)), scan_tree = (\<lambda>p l n. None),
     catalog_entry = (\<lambda>p. Inl 2), utf8_valid = (\<lambda>s. True), encode = (\<lambda>x. None), decode = (\<lambda>s. None), clock = 7, new_instance = ''i'',
     make_directory = (\<lambda>p. True), lock_owner = (\<lambda>p. True), may_write = True\<rparr>"

definition sample_publisher :: publisher where
  "sample_publisher = \<lparr>pstate = initial_state\<lparr>root := ''/c'', container_text := sample_id, instance_text := ''i''\<rparr>, max_levels = 64,
     max_entries = 100, pinned = (1, 2), prunning = True, pinitial = True, powner = True\<rparr>"

definition sample_published :: mstate where
  "sample_published = (let next = next_state bare_world sample_publisher in next\<lparr>revision_no := revision_no next + 1\<rparr>)"

definition sample_world :: world where
  "sample_world = bare_world\<lparr>encode := (\<lambda>x. if x = to_wire sample_published then Some [] else None),
     decode := (\<lambda>s. Some (to_wire sample_published))\<rparr>"

lemma direct_codec: "direct (w\<lparr>encode := f, decode := g\<rparr>) p b = direct w p b"
  by (rule direct_cong) simp

lemma area_codec: "scan_area (w\<lparr>encode := f, decode := g\<rparr>) levels print r key name n = scan_area w levels print r key name n"
proof -
  have "scan_tree (w\<lparr>encode := f, decode := g\<rparr>) = scan_tree w" by simp
  then show ?thesis unfolding scan_area_def direct_codec by (simp only:)
qed

lemma scan_codec: "scan_areas (w\<lparr>encode := f, decode := g\<rparr>) d print as k n = scan_areas w d print as k n"
proof (induction as arbitrary: k n)
  case (Cons a as)
  obtain key name where "a = (key, name)" by (cases a)
  then show ?case by (simp add: area_codec Cons split: prod.split)
qed simp

lemma sample_next: "next_state sample_world sample_publisher = next_state bare_world sample_publisher"
  by (simp add: next_state_def sample_world_def scan_codec catalog_print_def Let_def)

lemma sample_manifest_read: "json_object (\<lambda>s. True) (object_text (map (\<lambda>(k, t, v). (k, t)) sample_manifest)) = Some (map (\<lambda>(k, t, v). (k, v)) sample_manifest)"
proof (rule object_reads)
  obtain n where n: "max_depth = Suc n" by (simp add: max_depth_def)
  show "\<forall>(k, t, v) \<in> set sample_manifest. reads max_depth t v" unfolding sample_manifest_def n using reads_texts by auto
qed (simp_all add: sample_manifest_def)

lemma one_digit: "nat_str 1 = ''1''"
  by code_simp

lemma sample_uuid: "uuid sample_id"
  by (simp add: uuid_def sample_id_def hex_digit_def code_def)

lemma sample_direct:
  "direct bare_world ''/c'' True" "direct bare_world ''/c/.society-drive.json'' False" "direct bare_world ''/c/.society-runtime/monitor/v1'' True"
  by (simp_all add: direct_def normal_def components_def prefix_path_def bare_world_def starts_with_def)

lemma sample_identity: "drive_identity sample_world ''/c'' sample_id = Inr sample_id"
proof -
  have b: "below ''/c'' ''.society-drive.json'' = ''/c/.society-drive.json''" by (simp add: below_def ends_with_def)
  have d: "direct sample_world ''/c'' True" "direct sample_world ''/c/.society-drive.json'' False"
    using sample_direct by (simp_all add: sample_world_def direct_codec)
  have "length (object_text (map (\<lambda>(k, t, v). (k, t)) sample_manifest)) \<le> 16384"
    by (simp add: sample_manifest_def object_text_def member_text_def quote_def quote_char_def code_def sample_id_def one_digit [simplified])
  then have f: "file_bytes sample_world ''/c/.society-drive.json'' 16384 = Inr (object_text (map (\<lambda>(k, t, v). (k, t)) sample_manifest))"
    using d by (simp add: file_bytes_def) (simp add: sample_world_def bare_world_def)
  have w: "utf8_valid sample_world = (\<lambda>s. True)" "package_dir sample_world p" for p by (simp_all add: sample_world_def bare_world_def)
  show ?thesis
    using sample_uuid by (simp add: drive_identity_def b d f w sample_manifest_read)
      (simp add: sample_manifest_def field_def one_digit [simplified])
qed

lemma sample_polled: "\<exists>e u. monitor_poll sample_world sample_world sample_publisher = (Inr True, e, u)"
proof -
  have r: "prunning sample_publisher" "pinitial sample_publisher" "root (pstate sample_publisher) = ''/c''"
    "container_text (pstate sample_publisher) = sample_id" by (simp_all add: sample_publisher_def)
  have i: "intact_container sample_world sample_publisher"
    using sample_identity by (simp add: intact_container_def r) (simp add: sample_world_def bare_world_def sample_publisher_def)
  have c: "state_changed sample_publisher x" for x by (simp add: state_changed_def r)
  have k: "root (scan_areas w d print as j n) = root n" for w d print as j n
    by (induction w d print as j n rule: scan_areas.induct) (simp_all split: prod.splits)
  have root: "root sample_published = ''/c''" by (simp add: sample_published_def next_state_def Let_def k r)
  have s: "state_directory ''/c'' = ''/c/.society-runtime/monitor/v1''" "state_path ''/c'' = ''/c/.society-runtime/monitor/v1/state.cbor''"
    by (simp_all add: state_directory_def state_path_def below_def ends_with_def)
  have "direct sample_world (state_directory ''/c'') True" using sample_direct s by (simp add: sample_world_def direct_codec)
  moreover have "status_of sample_world (state_path ''/c'') = None" "may_write sample_world" by (simp_all add: s sample_world_def bare_world_def)
  moreover have "encode sample_world (to_wire sample_published) = Some []" by (simp add: sample_world_def)
  ultimately obtain u where "write_state sample_published sample_world = (Inr (), u)" by (simp add: write_state_def root)
  then show ?thesis using r i c by (simp add: monitor_poll_def sample_next sample_published_def Let_def)
qed



end
