(* ===== verification/Pairing.thy ===== *)
theory Pairing
  imports Prelude
begin

text \<open>
  Automatic pairing (\<open>src/src/Discovery/AutomaticPairing.cpp\<close>): the devices of one account agree on a
  leader, and the leader invites the others one after another. The state is that of the class; what
  the presence service, the transport and the clock answer during one call is the record \<open>scene\<close>,
  and the calls that have an effect on them, with the signals, are logged in \<open>acts\<close>. A signal that
  comes back while a call runs is a call of its own.
\<close>

section \<open>State\<close>

datatype action = Cancel | CancelPairing | Stop | Complete | Decline | Accept | Join string | Host | Invite string
  | Confirm | Prove string | Changed | Schedule

record pairing =
  pqueue :: "string list"
  current :: string
  leader :: string
  retry_at :: "(string \<times> int) list"
  attempts :: "(string \<times> int) list"
  deadline :: int
  enabled :: bool
  owns_transport :: bool
  scheduled :: bool
  acts :: "action list"

record device_row =
  row_id :: string
  verified :: bool
  auto_host :: bool
  primary :: string

record scene =
  now :: int
  authenticated :: bool
  rows :: "device_row list"
  host_available :: bool
  device_id :: string
  primary_id :: string
  has_incoming :: bool
  incoming_automatic :: bool
  incoming_id :: string
  remote_code :: string
  invitation_link :: string
  transport_connected :: bool
  paired_ids :: "string list"
  phase :: string
  local_code :: string
  confirm_ok :: bool
  host_ok :: bool
  join_ok :: bool
  invite_ok :: bool

definition act :: "action list \<Rightarrow> pairing \<Rightarrow> pairing" where
  "act as p = p\<lparr>acts := acts p @ as\<rparr>"

definition active :: "pairing \<Rightarrow> bool" where
  "active p \<longleftrightarrow> current p \<noteq> []"

definition value_or :: "'v \<Rightarrow> ('k \<times> 'v) list \<Rightarrow> 'k \<Rightarrow> 'v" where
  "value_or v0 xs k = (case map_of xs k of None \<Rightarrow> v0 | Some v \<Rightarrow> v)"

section \<open>Operations\<close>

definition schedule :: "pairing \<Rightarrow> pairing" where
  "schedule p = (if scheduled p then p else act [Schedule] (p\<lparr>scheduled := True\<rparr>))"

definition reset :: "pairing \<Rightarrow> pairing" where
  "reset p = (let owned = owns_transport p;
       p = p\<lparr>owns_transport := False, current := [], pqueue := [], leader := [], retry_at := [], attempts := []\<rparr>
     in act [Changed] (if owned then act [Cancel, Stop] p else p))"

definition set_enabled :: "bool \<Rightarrow> pairing \<Rightarrow> pairing" where
  "set_enabled b p =
     (if enabled p = b then p
      else let p = p\<lparr>enabled := b\<rparr>;
               p = (if \<not> b then (if active p then act [Cancel, CancelPairing] p else p)\<lparr>current := [], pqueue := []\<rparr> else p);
               p = act [Changed] p in
      if b then schedule p else p)"

definition retry_delay :: "int \<Rightarrow> int" where
  "retry_delay n = min 8000 (250 * 2 ^ nat (n - 1))"

definition finish :: "scene \<Rightarrow> bool \<Rightarrow> pairing \<Rightarrow> pairing" where
  "finish s success p =
     (if current p = [] then p
      else let i = current p; p = p\<lparr>current := []\<rparr>;
               p = (if success then act [Complete] (p\<lparr>retry_at := delete_key i (retry_at p), attempts := delete_key i (attempts p)\<rparr>)
                    else let n = min (value_or 0 (attempts p) i + 1) 5 in
                         act [Cancel, CancelPairing] (p\<lparr>attempts := upsert i n (attempts p),
                           retry_at := upsert i (now s + retry_delay n) (retry_at p)\<rparr>)) in
      schedule (act [Changed] p))"

text \<open>The slots of the signals.\<close>

definition invitation_ended :: "scene \<Rightarrow> pairing \<Rightarrow> pairing" where
  "invitation_ended s p = (if active p then finish s False p else p)"

definition paired :: "scene \<Rightarrow> string \<Rightarrow> pairing \<Rightarrow> pairing" where
  "paired s i p = (if i = current p then finish s True p else p)"

text \<open>The leader: the own durable primary, else the least primary another device follows, else the
  least device that can host.\<close>

definition verified_rows :: "scene \<Rightarrow> device_row list" where
  "verified_rows s = filter verified (rows s)"

definition devices :: "scene \<Rightarrow> string list" where
  "devices s = sort (map row_id (verified_rows s))"

definition hosts :: "scene \<Rightarrow> string list" where
  "hosts s = sort (map row_id (filter auto_host (verified_rows s)) @ (if host_available s then [device_id s] else []))"

definition established :: "scene \<Rightarrow> string list" where
  "established s = sort (remdups (filter (\<lambda>x. x \<noteq> []) (map primary (verified_rows s))))"

definition first_or_empty :: "string list \<Rightarrow> string" where
  "first_or_empty xs = (case xs of [] \<Rightarrow> [] | x # xs \<Rightarrow> x)"

definition elected :: "scene \<Rightarrow> string" where
  "elected s = (if primary_id s \<noteq> [] then primary_id s
     else if established s \<noteq> [] then hd (established s) else first_or_empty (hosts s))"

definition next_leader :: "scene \<Rightarrow> pairing \<Rightarrow> string" where
  "next_leader s p = (if primary_id s = [] \<and> owns_transport p \<and> transport_connected s \<and> leader p \<notin> set (devices s)
     then leader p else elected s)"

definition is_host :: "scene \<Rightarrow> string \<Rightarrow> bool" where
  "is_host s l \<longleftrightarrow> l \<noteq> [] \<and> l = device_id s"

definition next_queue :: "scene \<Rightarrow> string \<Rightarrow> string list" where
  "next_queue s l = filter (\<lambda>i. i \<notin> set (paired_ids s) \<and> (is_host s l \<or> i = l)) (devices s)"

definition take_leader :: "scene \<Rightarrow> pairing \<Rightarrow> pairing" where
  "take_leader s p =
     (let l = next_leader s p in
      if l = leader p then p
      else let p = (if active p then finish s False p else p);
               p = (if owns_transport p then act [Stop] (p\<lparr>owns_transport := False\<rparr>) else p) in
      act [Changed] (p\<lparr>leader := l\<rparr>))"

definition take_queue :: "scene \<Rightarrow> string \<Rightarrow> pairing \<Rightarrow> pairing" where
  "take_queue s l p =
     (let q = next_queue s l;
          p = (if q \<noteq> pqueue p then act [Changed] (p\<lparr>pqueue := q\<rparr>) else p) in
      p\<lparr>attempts := filter (\<lambda>(i, n). i \<in> set (devices s) \<or> i \<notin> fst ` set (retry_at p)) (attempts p),
        retry_at := filter (\<lambda>(i, t). i \<in> set (devices s)) (retry_at p)\<rparr>)"

definition advance :: "scene \<Rightarrow> bool \<Rightarrow> pairing \<Rightarrow> pairing" where
  "advance s host p =
     (if current p \<notin> set (devices s) \<or> now s \<ge> deadline p \<or> phase s = ''error'' then finish s False p
      else if phase s = ''confirming'' then
        (if host then
           (if remote_code s \<noteq> [] then
              (if remote_code s \<noteq> local_code s then finish s False p
               else if \<not> confirm_ok s then finish s False (act [Confirm] p) else act [Confirm] p)
            else p)
         else act [Prove (local_code s)] p)
      else p)"

definition accept_incoming :: "scene \<Rightarrow> bool \<Rightarrow> string \<Rightarrow> pairing \<Rightarrow> pairing" where
  "accept_incoming s host l p =
     (if host \<or> incoming_id s \<noteq> l \<or> l \<in> set (paired_ids s) then act [Decline] p
      else let p = act [Accept] (p\<lparr>current := l, deadline := now s + 20000, owns_transport := True\<rparr>);
               p = (if invitation_link s = [] then finish s False p
                    else if join_ok s then act [Join (invitation_link s)] p
                    else finish s False (act [Join (invitation_link s)] p)) in
      act [Changed] p)"

definition invite_next :: "scene \<Rightarrow> pairing \<Rightarrow> pairing" where
  "invite_next s p =
     (case find (\<lambda>i. value_or 0 (retry_at p) i \<le> now s) (pqueue p) of
        None \<Rightarrow> p
      | Some i \<Rightarrow>
          (let p = act [Host] (p\<lparr>current := i, deadline := now s + 20000, owns_transport := True\<rparr>);
               p = (if \<not> host_ok s then finish s False p
                    else if invite_ok s then act [Invite i] p else finish s False (act [Invite i] p)) in
           act [Changed] p))"

definition busy_phases :: "string list" where
  "busy_phases = [''showing'', ''connecting'', ''verifying'', ''confirming'']"

definition pump :: "scene \<Rightarrow> pairing \<Rightarrow> pairing" where
  "pump s p =
     (if \<not> authenticated s then p
      else if \<not> enabled p then (if incoming_automatic s then act [Decline] p else p)
      else let l = next_leader s p; p = take_leader s p; host = is_host s l; p = take_queue s l p in
      if active p then advance s host p
      else if has_incoming s \<and> incoming_automatic s then accept_incoming s host l p
      else if \<not> host \<or> pqueue p = [] \<or> has_incoming s then p
      else if phase s \<in> set busy_phases then p
      else invite_next s p)"

definition scheduled_pump :: "scene \<Rightarrow> pairing \<Rightarrow> pairing" where
  "scheduled_pump s p = pump s (p\<lparr>scheduled := False\<rparr>)"

definition queue_states :: "scene \<Rightarrow> pairing \<Rightarrow> (string \<times> string) list" where
  "queue_states s p = map (\<lambda>i. (i, if i = current p then ''connecting''
     else if value_or 0 (retry_at p) i > now s then ''retrying'' else ''queued'')) (pqueue p)"

datatype status = Paused | SignedOut | Pairing | Waiting nat | NoHost | Idle

definition pairing_status :: "scene \<Rightarrow> pairing \<Rightarrow> status" where
  "pairing_status s p =
     (if \<not> enabled p then Paused else if \<not> authenticated s then SignedOut else if active p then Pairing
      else if pqueue p \<noteq> [] then Waiting (length (pqueue p)) else if leader p = [] then NoHost else Idle)"

section \<open>Runs\<close>

definition new_pairing :: pairing where
  "new_pairing = \<lparr>pqueue = [], current = [], leader = [], retry_at = [], attempts = [], deadline = 0, enabled = True,
     owns_transport = False, scheduled = False, acts = []\<rparr>"

inductive pairing_step :: "pairing \<Rightarrow> pairing \<Rightarrow> bool" where
  timer: "pairing_step p (pump s p)"
| scheduled: "pairing_step p (scheduled_pump s p)"
| presence: "pairing_step p (schedule p)"
| ending: "pairing_step p (reset p)"
| invitation: "pairing_step p (invitation_ended s p)"
| pairing: "pairing_step p (paired s i p)"
| enabling: "pairing_step p (set_enabled b p)"

definition pairing_ok :: "pairing \<Rightarrow> bool" where
  "pairing_ok p \<longleftrightarrow> (active p \<longrightarrow> owns_transport p \<and> enabled p)
     \<and> fst ` set (attempts p) = fst ` set (retry_at p)
     \<and> distinct (map fst (attempts p)) \<and> distinct (map fst (retry_at p))
     \<and> (\<forall>(i, n) \<in> set (attempts p). 1 \<le> n \<and> n \<le> 5)"

section \<open>The invariant\<close>

text \<open>The part of the state the invariant reads.\<close>

lemma pairing_ok_fields [simp]:
  "pairing_ok (act as p) = pairing_ok p" "pairing_ok (p\<lparr>pqueue := q\<rparr>) = pairing_ok p" "pairing_ok (p\<lparr>leader := l\<rparr>) = pairing_ok p"
  "pairing_ok (p\<lparr>deadline := t\<rparr>) = pairing_ok p" "pairing_ok (p\<lparr>scheduled := b\<rparr>) = pairing_ok p" "pairing_ok (schedule p) = pairing_ok p"
  by (simp_all add: pairing_ok_def act_def active_def schedule_def)

lemma act_fields [simp]:
  "current (act as p) = current p" "enabled (act as p) = enabled p" "owns_transport (act as p) = owns_transport p"
  "current (schedule p) = current p" "enabled (schedule p) = enabled p" "owns_transport (schedule p) = owns_transport p"
  by (simp_all add: act_def schedule_def)

lemma finish_fields: "current (finish s b p) = []" "enabled (finish s b p) = enabled p" "owns_transport (finish s b p) = owns_transport p"
  by (auto simp: finish_def Let_def)

lemma finish_ok: "pairing_ok p \<Longrightarrow> pairing_ok (finish s b p)"
proof (cases "current p = []")
  case True
  then show "pairing_ok p \<Longrightarrow> pairing_ok (finish s b p)" by (simp add: finish_def)
next
  case False
  assume ok: "pairing_ok p"
  let ?i = "current p"
  let ?n = "min (value_or 0 (attempts p) ?i + 1) 5"
  have at: "\<forall>(i, n) \<in> set (attempts p). 1 \<le> n \<and> n \<le> 5" using ok by (simp add: pairing_ok_def)
  then have "0 \<le> value_or 0 (attempts p) ?i" by (fastforce simp: value_or_def split: option.splits dest: map_of_SomeD)
  then have n: "1 \<le> ?n \<and> ?n \<le> 5" by simp
  have "\<forall>(i, n) \<in> set (upsert ?i ?n (attempts p)). 1 \<le> n \<and> n \<le> 5"
    using set_upsert_subset [of ?i ?n "attempts p"] at n by fastforce
  moreover have "\<forall>(i, n) \<in> set (delete_key ?i (attempts p)). 1 \<le> n \<and> n \<le> 5" using at by (auto simp: delete_key_def)
  ultimately show ?thesis
    using ok False by (simp add: finish_def Let_def pairing_ok_def active_def delete_key_simps act_def schedule_def)
qed

lemma idle_ok: "pairing_ok p \<Longrightarrow> pairing_ok (p\<lparr>current := []\<rparr>)"
  by (simp add: pairing_ok_def active_def)

lemma take_leader_ok:
  assumes "pairing_ok p"
  shows "pairing_ok (take_leader s p)" "enabled (take_leader s p) = enabled p" "active (take_leader s p) \<Longrightarrow> owns_transport (take_leader s p)"
proof -
  let ?f = "if active p then finish s False p else p"
  have f: "pairing_ok ?f" "\<not> active ?f" "enabled ?f = enabled p"
    using assms finish_ok by (auto simp: active_def finish_fields)
  then have "pairing_ok (?f\<lparr>owns_transport := False\<rparr>)" by (simp add: pairing_ok_def active_def)
  then show ok: "pairing_ok (take_leader s p)" using f assms by (simp add: take_leader_def Let_def)
  show "enabled (take_leader s p) = enabled p" using f by (simp add: take_leader_def Let_def)
  show "active (take_leader s p) \<Longrightarrow> owns_transport (take_leader s p)" using ok by (simp add: pairing_ok_def)
qed

lemma filter_ok:
  fixes xs :: "('k \<times> 'v) list" and ys :: "('k \<times> 'w) list"
  assumes "fst ` set xs = fst ` set ys"
  shows "fst ` set (filter (\<lambda>(i, n). i \<in> D \<or> i \<notin> fst ` set ys) xs) = fst ` set (filter (\<lambda>(i, t). i \<in> D) ys)"
proof -
  have f: "fst ` set (filter (\<lambda>(i, n). P i) zs) = {i \<in> fst ` set zs. P i}" for P and zs :: "('k \<times> 'v) list"
    by (induction zs) auto
  have g: "fst ` set (filter (\<lambda>(i, n). P i) zs) = {i \<in> fst ` set zs. P i}" for P and zs :: "('k \<times> 'w) list"
    by (induction zs) auto
  have "fst ` set (filter (\<lambda>(i, n). i \<in> D \<or> i \<notin> fst ` set ys) xs) = {i \<in> fst ` set xs. i \<in> D \<or> i \<notin> fst ` set ys}" by (rule f)
  moreover have "fst ` set (filter (\<lambda>(i, t). i \<in> D) ys) = {i \<in> fst ` set ys. i \<in> D}" by (rule g)
  moreover have "{i \<in> fst ` set xs. i \<in> D \<or> i \<notin> fst ` set ys} = {i \<in> fst ` set ys. i \<in> D}" unfolding assms by blast
  ultimately show ?thesis by (simp only:)
qed

lemma take_queue_ok:
  assumes "pairing_ok p"
  shows "pairing_ok (take_queue s l p)" "current (take_queue s l p) = current p" "enabled (take_queue s l p) = enabled p"
    "pqueue (take_queue s l p) = next_queue s l"
proof -
  have d: "distinct (map fst (filter P xs))" if "distinct (map fst xs)" for P and xs :: "(string \<times> int) list"
    using that by (rule distinct_map_filter)
  show "pairing_ok (take_queue s l p)"
    using assms filter_ok [of "attempts p" "retry_at p" "set (devices s)"] d
    by (auto simp: take_queue_def Let_def pairing_ok_def active_def act_def)
  show "current (take_queue s l p) = current p" "enabled (take_queue s l p) = enabled p" "pqueue (take_queue s l p) = next_queue s l"
    by (auto simp: take_queue_def Let_def act_def)
qed

lemma advance_ok: "pairing_ok p \<Longrightarrow> pairing_ok (advance s host p)"
  by (simp add: advance_def finish_ok)

lemma begin_ok:
  "pairing_ok p \<Longrightarrow> enabled p \<Longrightarrow> pairing_ok (p\<lparr>current := l, deadline := t, owns_transport := True\<rparr>)"
  by (simp add: pairing_ok_def active_def)

lemma accepting_ok: "pairing_ok p \<Longrightarrow> enabled p \<Longrightarrow> pairing_ok (accept_incoming s host l p)"
  by (simp add: accept_incoming_def Let_def finish_ok begin_ok)

lemma invite_ok: "pairing_ok p \<Longrightarrow> enabled p \<Longrightarrow> pairing_ok (invite_next s p)"
  by (simp add: invite_next_def Let_def finish_ok begin_ok split: option.split)

lemma pump_ok: "pairing_ok p \<Longrightarrow> pairing_ok (pump s p)"
proof -
  assume ok: "pairing_ok p"
  let ?l = "next_leader s p"
  let ?q = "take_queue s ?l (take_leader s p)"
  have q: "pairing_ok ?q" "enabled ?q = enabled p" using ok take_leader_ok take_queue_ok by simp_all
  show ?thesis
    using ok q by (simp add: pump_def Let_def advance_ok accepting_ok invite_ok)
qed

lemma reset_ok: "pairing_ok p \<Longrightarrow> pairing_ok (reset p)"
  by (simp add: reset_def Let_def pairing_ok_def active_def act_def)

lemma set_enabled_ok: "pairing_ok p \<Longrightarrow> pairing_ok (set_enabled b p)"
  by (auto simp: set_enabled_def Let_def pairing_ok_def active_def act_def schedule_def)

lemma pairing_step_ok: "pairing_step p q \<Longrightarrow> pairing_ok p \<Longrightarrow> pairing_ok q"
  by (cases rule: pairing_step.cases)
    (auto simp: pump_ok scheduled_pump_def reset_ok set_enabled_ok invitation_ended_def paired_def finish_ok)

lemma retry_delay_bounds: "1 \<le> n \<Longrightarrow> n \<le> 5 \<Longrightarrow> 250 \<le> retry_delay n \<and> retry_delay n \<le> 4000"
proof -
  assume "1 \<le> n" "n \<le> 5"
  then have "n \<in> {1, 2, 3, 4, 5}" by auto
  then show ?thesis by (auto simp: retry_delay_def)
qed


definition sample_scene :: scene where
  "sample_scene = \<lparr>now = 1, authenticated = True, rows = [\<lparr>row_id = ''b'', verified = True, auto_host = False, primary = []\<rparr>], host_available = True,
     device_id = ''a'', primary_id = [], has_incoming = False, incoming_automatic = False, incoming_id = [], remote_code = [],
     invitation_link = [], transport_connected = False, paired_ids = [], phase = ''idle'', local_code = [], confirm_ok = True,
     host_ok = True, join_ok = True, invite_ok = True\<rparr>"


text \<open>Devices agree on the leader. Two devices that see the same devices able to host and the same
  primaries, whatever the order they see them in and even with repetitions, elect the same leader
  unless they already follow a primary of their own; a primary another device follows goes first.\<close>

theorem leader_agreed:
  assumes "primary_id s = []" "primary_id t = []" "set (hosts s) = set (hosts t)" "set (established s) = set (established t)"
  shows "elected s = elected t
    \<and> elected s = (if set (established s) \<noteq> {} then Min (set (established s)) else if set (hosts s) \<noteq> {} then Min (set (hosts s)) else [])"
proof -
  have hd: "hd (sort xs) = Min (set xs)" if ne: "xs \<noteq> []" for xs :: "string list"
  proof -
    obtain y ys where y: "sort xs = y # ys" using ne length_sort [of "\<lambda>x. x" xs] by (cases "sort xs") auto
    have s: "set xs = set (y # ys)" "sorted (y # ys)" by (metis y set_sort, metis y sorted_sort)
    have "Min (set (y # ys)) = y" using s(2) by (intro Min_eqI) auto
    then show ?thesis by (simp only: y s(1) list.sel)
  qed
  have sorted: "hd (sort xs) = Min (set (sort xs))" if "set (sort xs) \<noteq> {}" for xs :: "string list"
  proof -
    have "xs \<noteq> []" using that by auto
    then show ?thesis unfolding set_sort by (rule hd)
  qed
  have e: "elected u = (if set (established u) \<noteq> {} then Min (set (established u)) else if set (hosts u) \<noteq> {} then Min (set (hosts u)) else [])"
    if "primary_id u = []" for u
  proof -
    have "first_or_empty (hosts u) = (if set (hosts u) \<noteq> {} then hd (hosts u) else [])"
      by (cases "hosts u") (simp_all add: first_or_empty_def)
    moreover have "hd (hosts u) = Min (set (hosts u))" if "set (hosts u) \<noteq> {}"
      using that unfolding hosts_def by (rule sorted)
    moreover have "hd (established u) = Min (set (established u))" if "set (established u) \<noteq> {}"
      using that unfolding established_def by (rule sorted)
    ultimately show ?thesis using that by (simp add: elected_def)
  qed
  show ?thesis using e [OF assms(1)] e [OF assms(2)] assms(3,4) by simp
qed

theorem leader_agreed_witness: "elected sample_scene = elected (sample_scene\<lparr>rows := rows sample_scene @ rows sample_scene\<rparr>)"
proof -
  have "primary_id sample_scene = []" "primary_id (sample_scene\<lparr>rows := rows sample_scene @ rows sample_scene\<rparr>) = []"
    "set (hosts sample_scene) = set (hosts (sample_scene\<lparr>rows := rows sample_scene @ rows sample_scene\<rparr>))"
    "set (established sample_scene) = set (established (sample_scene\<lparr>rows := rows sample_scene @ rows sample_scene\<rparr>))"
    by (simp_all add: sample_scene_def hosts_def established_def verified_rows_def)
  from leader_agreed [OF this] show ?thesis by blast
qed

end
