(* ===== verification/Spec2Isabelle.thy ===== *)
theory Spec2Isabelle
  imports RecordProps Serve Binding Requests SyncRuns ControllerRuns PresenceProps NearbyProps Monitor Pairing Watch Codec
begin

text \<open>
  A verification development of iiSocietyHelper: its replication core (\<open>src/src/Sync\<close>) and the
  components beside it.

  \<^bold>\<open>The program.\<close> A \<open>.societycontainer\<close> directory holds the sections of a user's files. Each
  device keeps a replica of it: an index of records in a database, a journal of revisions, and
  the files. One device is the authority (the host), the others are mirrors. A peer talks to a
  replica by JSON requests (\<open>Replica::handle\<close>): it announces a manifest, transfers the bytes of
  new files in chunks and commits them, when the record is merged into the index and the file
  system; mirrors import the authority's journal and take its records.

  \<^bold>\<open>The theories.\<close>
  \<^item> \<open>Prelude\<close>: strings, decimal numbers, association lists, and the locale \<open>op_rel\<close> of relations
    between the states before and after an operation, interpreted for the file system (\<open>grow\<close>,
    \<open>keep\<close>), the replica (\<open>ext\<close>, \<open>outside\<close>, \<open>view\<close>).
  \<^item> \<open>QtJson\<close>: JSON values with Qt's reading rules, and the record \<open>env\<close> of the functions of Qt
    and of the packages outside the repository.
  \<^item> \<open>Records\<close>, \<open>RecordProps\<close>: \<open>Replica.cpp\<close>'s helpers (\<open>physical\<close>, \<open>compare\<close>, \<open>joined\<close>, \<open>rank\<close>,
    \<open>versioned\<close>, \<open>validRecord\<close>) and the laws of vector clocks and paths.
  \<^item> \<open>Confined\<close>: \<open>ConfinedFiles.cpp\<close> (POSIX) on a store of names and inodes; every system call may
    fail according to a list of faults in the state. Its lemmas show that \<open>install\<close>, \<open>remove\<close> and
    the other operations keep all user content.
  \<^item> \<open>Journal\<close>: \<open>NamespaceJournal.cpp\<close>, the chain of revisions; its lemmas show the chain invariant,
    the content of pages, and that a mirror that imports pages follows its authority.
  \<^item> \<open>Store\<close>: the state of \<open>Replica::Private\<close>, guards, \<open>save\<close>, \<open>observed\<close>, \<open>refresh\<close>; the index
    invariant \<open>store_ok\<close> and the relation \<open>extends\<close> that every operation satisfies.
  \<^item> \<open>Merge\<close>: \<open>Replica::Private::merge\<close>, its decisions and effects.
  \<^item> \<open>Catalog\<close>: metadata and journal pages taken from the host, change pages, peers, previews.
  \<^item> \<open>Serve\<close>: \<open>Replica::handle\<close>.
  \<^item> \<open>Scan\<close>: \<open>Replica::scan\<close>, the walk of the sections, the batched commits and the deletions.
  \<^item> \<open>Binding\<close>: the binding to a host, the adoption of its identity, the claim of the primary host
    and \<open>Replica::open\<close>; its lemmas show that adoption is all or nothing and that opening
    establishes \<open>store_ok\<close>.
  \<^item> \<open>Drive\<close>: \<open>Replica::driveRequest\<close>, the catalog, directories, information, bytes and new files that a remote
    browser asks for; its lemmas show what the pages of the catalog enumerate.
  \<^item> \<open>Provider\<close>: \<open>ObjectProvider.cpp\<close> (the locale \<open>object_store\<close>, interpreted on the directory and on the
    remote provider) and \<open>Replica\<close>'s object placement and storage map.
  \<^item> \<open>Requests\<close>: every request of \<open>handle\<close> with the drive requests and the scan it runs, and the
    exchange with providers, keep the files, the index and the revisions.
  \<^item> \<open>Synchronizer\<close>, \<open>SyncRuns\<close>: \<open>Synchronizer.cpp\<close>, the client of the protocol. Its closures are the datatype
    \<open>callback\<close>, what it defers to the event loop is a list of tasks with the generation in which they were
    scheduled, and every answer, task and timeout is a function of the state; \<open>sync_step\<close> gives the runs of the
    event loop. The lemmas \<open>settled_*\<close> show that each handler keeps one thread of control, so that a run that is
    active never hangs and one that has ended leaves nothing behind.
  \<^item> \<open>Worker\<close>, \<open>Controller\<close>, \<open>ControllerRuns\<close>: \<open>Controller.cpp\<close>, the two threads around the synchronizer. The worker serves
    the requests of peers, indexes, watches and starts runs with the hosts; the controller admits requests as jobs,
    once per token, and opens and closes containers. What one thread invokes on the other is a list of letters or of
    news, in order, with the generation in which it was sent; \<open>controller_step\<close> interleaves both threads. The lemmas
    show that each admitted request is executed exactly once and that the synchronizer under the worker never hangs.
  \<^item> \<open>Delivery\<close>: \<open>DeliveryStore.cpp\<close> and \<open>LocalDirectory.cpp\<close>, the durable queue of messages between
    the applications of a device: its tables, transactions and faults. A step relation gives the
    runs; the locale \<open>fifo\<close> states what a channel promises and is interpreted on the store.
  \<^item> \<open>Presence\<close>, \<open>PresenceRuns\<close>, \<open>PresenceProps\<close>: \<open>Helper.cpp\<close> and \<open>PresenceWorker_p.h\<close>, the presence of applications on a
    device. A helper publishes a record with a growing heartbeat and scans those of its peers; inspections and automatic
    messages are jobs of two workers whose results come back with the epoch of their request. \<open>helper_step\<close> gives the
    runs; the lemmas \<open>*_ok\<close> keep the state well formed, count the inspections under way and relate the signals to the
    visible peers.
  \<^item> \<open>MonitorJson\<close>, \<open>Monitor\<close>: \<open>Monitor.cpp\<close>, the observation of a container by polling: the bounded
    JSON reader and the writer, the publisher of states with 64 bit fingerprints and revisions, the
    reader and the notifications of a subscription.
  \<^item> \<open>Pairing\<close>: \<open>AutomaticPairing.cpp\<close>, the queue of devices to pair, the retries and the election of
    the leader; a step takes what the transport and the presence service show at that moment.
  \<^item> \<open>Keyring\<close>: \<open>PairingCredentials.cpp\<close>, the validity of the account's credentials, the key of a five-minute epoch and the proofs made
    with it; the record \<open>lan\<close> extends \<open>env\<close> by what the code takes from the network classes. \<open>Nearby\<close>, \<open>NearbyRuns\<close>,
    \<open>NearbyOnce\<close>, \<open>NearbyProofs\<close>, \<open>NearbyProps\<close>: \<open>NearbyDevices.cpp\<close>, the table of observed endpoints, the signed datagrams, the invitations
    and the search for a known host. \<open>nearby_run\<close> is a run of its calls; the lemmas show its invariant, that invitations come from observed
    peers of the account and are taken once, and the exchange of an automatic invitation.
  \<^item> \<open>Watch\<close>: \<open>WatchPaths.h\<close>, the bounded choice of the paths to watch.
  \<^item> \<open>Codec\<close>: \<open>ObjectCodec.cpp\<close>, values and object snapshots as messages of bounded size; the graph of
    objects is an explicit store, so that cycles exist and are shown to be refused.
  \<^item> \<open>Samples\<close>: the concrete environment and states of the witnesses.

  \<^bold>\<open>Bounds.\<close> Numbers are unbounded integers; where the code converts text to \<open>qint64\<close> the
  conversion \<open>to_ll\<close> rejects what does not fit, and sequence numbers are limited by
  \<open>max_counter\<close>. All definitions are total. The loops of the JSON
  reader take the number of bytes left as fuel, and \<open>parser_fuel\<close> shows that more fuel changes nothing;
  the loop over directories of \<open>Watch\<close> takes the limit as fuel, which bounds the directories queued; the
  recursions of the codec and of the JSON reader stop at the code's own depth limits. The monitor's
  counters and fingerprints and the heartbeats of presence are 64 bit words and wrap as in the code. The synchronizer's loop over the pages
  of local changes takes the number of rows as fuel; \<open>announcement_ends\<close> shows that a larger bound gives the same
  where every row fits in a page. Its loops over arrived chunks take the number of chunks.

  \<^bold>\<open>Not modelled.\<close> Platform glue (Bluetooth, DNS service discovery, Windows file access), the adapters of the
  container and provider packages, and the event loop itself (its runs are arbitrary sequences of steps, a slot that a
  signal calls does not re-enter the synchronizer, and elapsed time is an observation; the same holds of the slots of a helper's
  subscribers), the bodies of the threads that
  index, archive and move objects on connections of their own (their starts and results are steps); strings are limited to code units below
  256. The threads of the monitor's subscriptions and the timers of the pairing are the steps between
  which the modelled functions run. The manifest lists each part with its reason.
\<close>

end
